(* ===== verification/Kernel_Prelude.thy ===== *)
theory Kernel_Prelude
  imports Main "HOL-Library.Word"
begin

text \<open>
  The shared vocabulary of the BrightS development.

  \<^item> names for the C integer types the kernel uses (\<open>u8\<close>, \<open>u16\<close>, \<open>u32\<close>, \<open>u64\<close>; a C \<open>int\<close>
    status code is a HOL \<open>int\<close>);
  \<^item> the linear scan \<open>for (i = 0; i < N; ++i) if (P(t[i])) return i; return -1;\<close>, which nearly
    every table of the kernel uses, as \<open>first_idx\<close>, and \<open>idx_code\<close> for its integer result;
  \<^item> in-place update of one table slot, \<open>upd_at\<close>;
  \<^item> NUL-terminated strings: a C string is the list of its characters before the NUL, and
    \<open>cchar s i\<close> is the character the C expression \<open>s[i]\<close> reads for \<open>i\<close> up to and including
    the terminator;
  \<^item> \<open>links\<close>, the nodes a pointer field threads together;
  \<^item> \<open>ctz\<close>, the value of \<open>__builtin_ctzll\<close> and of the \<open>bsf\<close> instruction on a non-zero word,
    with the facts about bits of words that the bitmap allocators share.
\<close>

unbundle bit_operations_syntax

type_synonym u8 = "8 word"
type_synonym u16 = "16 word"
type_synonym u32 = "32 word"
type_synonym u64 = "64 word"

named_theorems table_simps \<open>facts about scanning and updating kernel tables\<close>
named_theorems bit_tests \<open>how single-bit updates show up under a bit test\<close>

subsection \<open>Linear scans over a table\<close>

fun first_idx :: "('a \<Rightarrow> bool) \<Rightarrow> 'a list \<Rightarrow> nat option" where
  "first_idx P [] = None"
| "first_idx P (x # xs) = (if P x then Some 0 else map_option Suc (first_idx P xs))"

definition idx_code :: "nat option \<Rightarrow> int" where
  "idx_code r = (case r of None \<Rightarrow> -1 | Some i \<Rightarrow> int i)"

lemma idx_code_simps [simp]: "idx_code None = -1" "idx_code (Some i) = int i"
  by (simp_all add: idx_code_def)

lemma idx_code_nonneg [simp]: "0 \<le> idx_code r \<longleftrightarrow> r \<noteq> None" "idx_code r < 0 \<longleftrightarrow> r = None"
  by (cases r; simp)+

lemma first_idx_None [table_simps]: "first_idx P xs = None \<longleftrightarrow> (\<forall>x\<in>set xs. \<not> P x)"
  by (induction xs) auto

lemma first_idx_Some [table_simps]:
  "first_idx P xs = Some i \<longleftrightarrow> i < length xs \<and> P (xs ! i) \<and> (\<forall>j<i. \<not> P (xs ! j))"
proof (induction xs arbitrary: i)
  case Nil
  then show ?case by simp
next
  case (Cons x xs)
  show ?case
  proof (cases i)
    case 0
    then show ?thesis by auto
  next
    case (Suc k)
    show ?thesis
    proof
      assume "first_idx P (x # xs) = Some i"
      with Suc have "\<not> P x" "first_idx P xs = Some k" by (auto split: if_splits)
      then have *: "\<not> P x" "k < length xs" "P (xs ! k)" "\<forall>j<k. \<not> P (xs ! j)"
        using Cons.IH by auto
      have "\<not> P ((x # xs) ! j)" if "j < i" for j
        using that * Suc by (cases j) auto
      then show "i < length (x # xs) \<and> P ((x # xs) ! i) \<and> (\<forall>j<i. \<not> P ((x # xs) ! j))"
        using * Suc by auto
    next
      assume a: "i < length (x # xs) \<and> P ((x # xs) ! i) \<and> (\<forall>j<i. \<not> P ((x # xs) ! j))"
      then have "\<not> P x" using Suc by (metis nth_Cons_0 zero_less_Suc)
      moreover have "\<forall>j<k. \<not> P (xs ! j)" using a Suc by (metis Suc_less_eq nth_Cons_Suc)
      ultimately show "first_idx P (x # xs) = Some i" using a Suc Cons.IH by auto
    qed
  qed
qed

lemma first_idx_SomeD:
  assumes "first_idx P xs = Some i"
  shows first_idx_less: "i < length xs" and first_idx_holds: "P (xs ! i)"
    and first_idx_least: "\<And>j. j < i \<Longrightarrow> \<not> P (xs ! j)"
  using assms by (auto simp: first_idx_Some)

lemma first_idx_exists: "i < length xs \<Longrightarrow> P (xs ! i) \<Longrightarrow> \<exists>j\<le>i. first_idx P xs = Some j"
proof -
  assume a: "i < length xs" "P (xs ! i)"
  then obtain j where j: "first_idx P xs = Some j"
    by (metis first_idx_None not_None_eq nth_mem)
  then have "\<not> i < j" using a(2) by (auto simp: first_idx_Some)
  with j show ?thesis by (auto simp: not_less)
qed

lemma first_idx_cong: "(\<And>x. x \<in> set xs \<Longrightarrow> P x = Q x) \<Longrightarrow> first_idx P xs = first_idx Q xs"
  by (induction xs) auto

subsection \<open>Updating one slot\<close>

definition upd_at :: "nat \<Rightarrow> ('a \<Rightarrow> 'a) \<Rightarrow> 'a list \<Rightarrow> 'a list" where
  "upd_at i f xs = xs[i := f (xs ! i)]"

lemma length_upd_at [simp]: "length (upd_at i f xs) = length xs"
  by (simp add: upd_at_def)

lemma nth_upd_at [table_simps]:
  "j < length xs \<Longrightarrow> upd_at i f xs ! j = (if j = i then f (xs ! i) else xs ! j)"
  by (simp add: upd_at_def nth_list_update)

lemma nth_upd_at_same [simp]: "i < length xs \<Longrightarrow> upd_at i f xs ! i = f (xs ! i)"
  by (simp add: upd_at_def)

lemma nth_upd_at_other [simp]: "j \<noteq> i \<Longrightarrow> upd_at i f xs ! j = xs ! j"
  by (simp add: upd_at_def)

lemma upd_at_id: "f (xs ! i) = xs ! i \<Longrightarrow> upd_at i f xs = xs"
  by (simp add: upd_at_def)

lemma set_upd_at_subset: "set (upd_at i f xs) \<subseteq> insert (f (xs ! i)) (set xs)"
  unfolding upd_at_def by (rule set_update_subset_insert)

lemma first_idx_upd_at:
  "i < length xs \<Longrightarrow> P (f (xs ! i)) = P (xs ! i) \<Longrightarrow> first_idx P (upd_at i f xs) = first_idx P xs"
proof (induction xs arbitrary: i)
  case (Cons x xs)
  then show ?case by (cases i) (auto simp: upd_at_def)
qed simp

subsection \<open>NUL-terminated strings\<close>

definition NUL :: char where
  "NUL = CHR 0x00"

definition cchar :: "string \<Rightarrow> nat \<Rightarrow> char" where
  "cchar s i = (if i < length s then s ! i else NUL)"

definition cstr :: "string \<Rightarrow> bool" where
  "cstr s \<longleftrightarrow> NUL \<notin> set s"

lemma cstr_simps [simp]: "cstr []" "cstr (c # s) \<longleftrightarrow> c \<noteq> NUL \<and> cstr s"
  "cstr (s @ t) \<longleftrightarrow> cstr s \<and> cstr t"
  by (auto simp: cstr_def)

lemma cstr_take [intro]: "cstr s \<Longrightarrow> cstr (take n s)"
  by (auto simp: cstr_def dest: in_set_takeD)

lemma cstr_drop [intro]: "cstr s \<Longrightarrow> cstr (drop n s)"
  by (auto simp: cstr_def dest: in_set_dropD)

text \<open>The string a character buffer holds: what C code reads from it up to the terminator.\<close>

definition cstring_of :: "char list \<Rightarrow> string" where
  "cstring_of s = takeWhile (\<lambda>c. c \<noteq> NUL) s"

lemma cstr_cstring_of [simp]: "cstr (cstring_of s)"
  unfolding cstr_def cstring_of_def using set_takeWhileD by fastforce

lemma cstring_of_id [simp]: "cstr s \<Longrightarrow> cstring_of s = s"
  unfolding cstring_of_def cstr_def takeWhile_eq_all_conv by blast

subsection \<open>Linked lists\<close>

text \<open>\<open>links next a xs b\<close>: from the node at \<open>a\<close> the pointer field \<open>next\<close> leads through exactly the
  nodes \<open>xs\<close>, none of them null, to \<open>b\<close>.  A null-terminated list has \<open>b = 0\<close>.\<close>

primrec links :: "(nat \<Rightarrow> nat) \<Rightarrow> nat \<Rightarrow> nat list \<Rightarrow> nat \<Rightarrow> bool" where
  "links next a [] b \<longleftrightarrow> a = b"
| "links next a (x # xs) b \<longleftrightarrow> a = x \<and> x \<noteq> 0 \<and> links next (next x) xs b"

lemma links_append [simp]: "links next a (xs @ ys) b \<longleftrightarrow> (\<exists>c. links next a xs c \<and> links next c ys b)"
  by (induction xs arbitrary: a) auto

lemma links_null [simp]: "links next 0 xs b \<longleftrightarrow> xs = [] \<and> b = 0"
  by (cases xs) auto

lemma links_cong: "(\<And>x. x \<in> set xs \<Longrightarrow> f x = g x) \<Longrightarrow> links f a xs b \<longleftrightarrow> links g a xs b"
  by (induction xs arbitrary: a) auto

lemma links_upd_other: "p \<notin> set xs \<Longrightarrow> links (next(p := v)) a xs b \<longleftrightarrow> links next a xs b"
  by (rule links_cong) auto

lemma links_nonzero: "links next a xs b \<Longrightarrow> 0 \<notin> set xs"
  by (induction xs arbitrary: a) auto

lemma links_unique: "links next a xs 0 \<Longrightarrow> links next a ys 0 \<Longrightarrow> xs = ys"
proof (induction xs arbitrary: a ys)
  case Nil
  then show ?case by simp
next
  case (Cons x xs)
  then show ?case by (cases ys) auto
qed

text \<open>A null-terminated list has no cycle: a node that occurred twice would have two tails.\<close>

lemma links_distinct: "links next a xs 0 \<Longrightarrow> distinct xs"
proof (induction xs arbitrary: a)
  case (Cons x xs)
  have "x \<notin> set xs"
  proof
    assume "x \<in> set xs"
    then obtain ys zs where xs: "xs = ys @ x # zs" by (meson split_list)
    with Cons.prems have "links next (next x) xs 0" "links next (next x) zs 0" by auto
    then have "xs = zs" by (rule links_unique)
    with xs show False by simp
  qed
  then show ?case using Cons by auto
qed simp

lemma links_bypass:
  assumes "links f h (ys @ a # zs) 0"
  shows "ys = [] \<Longrightarrow> links f (f a) zs 0" and "ys \<noteq> [] \<Longrightarrow> links (f(last ys := f a)) h (ys @ zs) 0"
proof -
  show "links f (f a) zs 0" if "ys = []" using assms that by simp
  assume "ys \<noteq> []"
  then obtain us x where ys: "ys = us @ [x]" by (cases ys rule: rev_cases) auto
  have "x \<notin> set us" "x \<notin> set zs" using links_distinct [OF assms] ys by auto
  then show "links (f(last ys := f a)) h (ys @ zs) 0" using assms ys by (auto simp: links_upd_other)
qed

lemma links_snoc:
  assumes "links f h us 0" "us \<noteq> []" "a \<notin> set us" "a \<noteq> 0"
  shows "links (f(last us := a, a := 0)) h (us @ [a]) 0"
proof -
  obtain vs x where us: "us = vs @ [x]" using assms(2) by (cases us rule: rev_cases) auto
  have "x \<notin> set vs" using links_distinct [OF assms(1)] us by auto
  then show ?thesis using assms us by (auto simp: links_upd_other)
qed

subsection \<open>Counting trailing zeros\<close>

lemma word_full_iff: "(w :: 'a::len word) = - 1 \<longleftrightarrow> (\<forall>n<LENGTH('a). bit w n)"
  by (auto simp: bit_eq_iff)

lemma word_zero_iff: "(w :: 'a::len word) = 0 \<longleftrightarrow> (\<forall>n<LENGTH('a). \<not> bit w n)"
  by (auto simp: bit_eq_iff dest: bit_imp_le_length)

definition ctz :: "'a::len word \<Rightarrow> nat" where
  "ctz w = length (takeWhile (\<lambda>i. \<not> bit w i) [0..<LENGTH('a)])"

lemma ctz_least: "i < ctz w \<Longrightarrow> \<not> bit w i"
proof -
  assume "i < ctz w"
  then have i: "i < length (takeWhile (\<lambda>i. \<not> bit w i) [0..<LENGTH('a)])"
    by (simp add: ctz_def)
  then have "takeWhile (\<lambda>i. \<not> bit w i) [0..<LENGTH('a)] ! i = i"
    by (metis (no_types, lifting) add_0 diff_zero length_takeWhile_le length_upt
        less_le_trans nth_upt takeWhile_nth)
  then show ?thesis using nth_mem [OF i] by (metis set_takeWhileD)
qed

lemma ctz_le: "ctz (w :: 'a::len word) \<le> LENGTH('a)"
  unfolding ctz_def by (metis diff_zero length_takeWhile_le length_upt)

lemma ctz_bit:
  fixes w :: "'a::len word"
  assumes "w \<noteq> 0"
  shows "bit w (ctz w)" and "ctz w < LENGTH('a)"
proof -
  obtain n where n: "bit w n" "n < LENGTH('a)"
    using assms by (auto simp: word_zero_iff)
  then have "\<not> n < ctz w" using ctz_least by blast
  then show lt: "ctz w < LENGTH('a)" using n by simp
  let ?t = "takeWhile (\<lambda>i. \<not> bit w i) [0..<LENGTH('a)]"
  have "length ?t < length [0..<LENGTH('a)]" using lt by (simp add: ctz_def)
  then have "\<not> \<not> bit w ([0..<LENGTH('a)] ! length ?t)"
    by (rule nth_length_takeWhile)
  then show "bit w (ctz w)" using lt by (simp add: ctz_def)
qed

lemma ctz_eqI:
  fixes w :: "'a::len word"
  assumes "bit w n" "\<And>i. i < n \<Longrightarrow> \<not> bit w i"
  shows "ctz w = n"
proof -
  have "w \<noteq> 0" using assms(1) by auto
  then have "bit w (ctz w)" by (rule ctz_bit)
  then have "\<not> ctz w < n" using assms(2) by blast
  moreover have "\<not> n < ctz w" using assms(1) ctz_least by blast
  ultimately show ?thesis by simp
qed

subsection \<open>Single bits of a word\<close>

definition bit_on :: "nat \<Rightarrow> 'a::len word \<Rightarrow> 'a word" where
  "bit_on n w = w OR push_bit n 1"

definition bit_off :: "nat \<Rightarrow> 'a::len word \<Rightarrow> 'a word" where
  "bit_off n w = w AND NOT (push_bit n 1)"

lemma bit_bit_on [bit_tests]:
  "bit (bit_on n w :: 'a::len word) m \<longleftrightarrow> m = n \<and> n < LENGTH('a) \<or> bit w m"
  by (auto simp: bit_on_def bit_simps dest: bit_imp_le_length)

lemma bit_bit_off [bit_tests]:
  "bit (bit_off n w :: 'a::len word) m \<longleftrightarrow> m \<noteq> n \<and> bit w m"
  by (auto simp: bit_off_def bit_simps dest: bit_imp_le_length)

lemma and_not_mask_eq: "(w :: 'a::len word) AND NOT (mask n) = push_bit n (drop_bit n w)"
  by (rule bit_word_eqI) (auto simp: bit_simps dest: bit_imp_le_length)

lemma unat_and_not_mask: "unat ((w :: 'a::len word) AND NOT (mask n)) = unat w div 2 ^ n * 2 ^ n"
proof -
  have "unat w div 2 ^ n * 2 ^ n \<le> unat w" by (simp add: div_times_less_eq_dividend)
  then have "unat w div 2 ^ n * 2 ^ n < 2 ^ LENGTH('a)"
    using unsigned_less [of w] by (rule le_less_trans)
  then have "take_bit LENGTH('a) (push_bit n (drop_bit n (unat w))) = unat w div 2 ^ n * 2 ^ n"
    by (simp add: push_bit_eq_mult drop_bit_eq_div take_bit_nat_eq_self_iff)
  moreover have "unat (push_bit n (drop_bit n w)) = take_bit LENGTH('a) (push_bit n (drop_bit n (unat w)))"
    by (simp add: unsigned_push_bit_eq unsigned_drop_bit_eq take_bit_nat_eq_self [OF unsigned_less])
  ultimately show ?thesis by (simp add: and_not_mask_eq)
qed

lemma unat_ucast_u32_u64 [simp]: "unat (ucast (w :: u32) :: u64) = unat w"
proof -
  have "unat w < 2 ^ 32" using unsigned_less [of w] by simp
  then show ?thesis by (simp add: unsigned_ucast_eq take_bit_nat_eq_self)
qed

end
