(* ===== verification/Pmem.thy ===== *)
theory Pmem
  imports Kernel_Prelude
begin

text \<open>
  The physical page allocator of \<open>kernel/pmem.c\<close>: a bitmap of 2M pages in 64-bit words (bit set =
  page used), a base address, the number of tracked pages and the number of free ones.

  Page indices stay below \<open>PMEM_MAX_PAGES\<close> in every loop, so they are natural numbers; addresses,
  the base and the two counters are 64-bit words, with the wrap-around of the code. An address
  result of 0 is the code's null pointer. The abstraction of a state is \<open>free_set\<close>, the set of
  free page indices; the operations are proved to be set insertion and deletion on it.

  The locale \<open>page_allocator\<close> at the end is the contract the clients of this component use
  (slab pages, page tables, kernel stacks); it is interpreted on the functions of this theory.
\<close>

record mem_region =
  rg_base :: u64
  rg_size :: u64

record pmem =
  pmem_bitmap :: "u64 list"
  pmem_base :: u64
  pmem_total_pages :: u64
  pmem_free_pages :: u64

definition PMEM_MAX_PAGES :: nat where
  "PMEM_MAX_PAGES = 2 * 1024 * 1024"

definition PMEM_WORDS :: nat where
  "PMEM_WORDS = PMEM_MAX_PAGES div 64"

subsection \<open>Bitmap primitives\<close>

definition bitmap_set :: "nat \<Rightarrow> pmem \<Rightarrow> pmem" where
  "bitmap_set page_idx s =
     s\<lparr>pmem_bitmap := upd_at (page_idx div 64) (bit_on (page_idx mod 64)) (pmem_bitmap s)\<rparr>"

definition bitmap_clear :: "nat \<Rightarrow> pmem \<Rightarrow> pmem" where
  "bitmap_clear page_idx s =
     s\<lparr>pmem_bitmap := upd_at (page_idx div 64) (bit_off (page_idx mod 64)) (pmem_bitmap s)\<rparr>"

definition bitmap_test :: "nat \<Rightarrow> pmem \<Rightarrow> bool" where
  "bitmap_test page_idx s = bit (pmem_bitmap s ! (page_idx div 64)) (page_idx mod 64)"

definition align_up_page :: "u64 \<Rightarrow> u64" where
  "align_up_page value = (value + 4095) AND NOT 4095"

definition align_down_page :: "u64 \<Rightarrow> u64" where
  "align_down_page value = value AND NOT 4095"

subsection \<open>Initialisation\<close>

fun pmem_measure :: "mem_region list \<Rightarrow> pmem \<Rightarrow> pmem" where
  "pmem_measure [] s = s"
| "pmem_measure (r # rs) s =
     (let base = align_up_page (rg_base r);
          end = align_down_page (rg_base r + rg_size r)
      in if end \<le> base then pmem_measure rs s
         else pmem_measure rs
           (s\<lparr>pmem_base := (if base < pmem_base s then base else pmem_base s),
              pmem_total_pages := pmem_total_pages s + (end - base) div 4096\<rparr>))"

text \<open>
  The inner loop \<open>for (addr = base; addr < end; addr += 4096)\<close> of the second pass: both bounds are
  page aligned, so it runs exactly \<open>(end - base) / 4096\<close> times, the first argument.
\<close>

fun pmem_clear_pages :: "nat \<Rightarrow> u64 \<Rightarrow> pmem \<Rightarrow> pmem" where
  "pmem_clear_pages 0 addr s = s"
| "pmem_clear_pages (Suc n) addr s =
     (let idx = unat ((addr - pmem_base s) div 4096) in
      pmem_clear_pages n (addr + 4096)
        (if idx < PMEM_MAX_PAGES
         then (bitmap_clear idx s)\<lparr>pmem_free_pages := pmem_free_pages s + 1\<rparr>
         else s))"

fun pmem_free_regions :: "mem_region list \<Rightarrow> pmem \<Rightarrow> pmem" where
  "pmem_free_regions [] s = s"
| "pmem_free_regions (r # rs) s =
     (let base = align_up_page (rg_base r);
          end = align_down_page (rg_base r + rg_size r)
      in pmem_free_regions rs
           (if end \<le> base then s
            else pmem_clear_pages (unat ((end - base) div 4096)) base s))"

text \<open>
  The reservation of the first megabyte. The guard \<open>addr < 0x100000\<close> stops the loop after 256
  steps of 4096 bytes, which is the first argument of the call in \<open>brights_pmem_init\<close>.
\<close>

fun pmem_reserve_low :: "nat \<Rightarrow> u64 \<Rightarrow> pmem \<Rightarrow> pmem" where
  "pmem_reserve_low 0 addr s = s"
| "pmem_reserve_low (Suc n) addr s =
     (if addr < 0x100000 \<and> addr < pmem_base s + pmem_total_pages s * 4096
      then pmem_reserve_low n (addr + 4096)
        (if pmem_base s \<le> addr
         then (let idx = unat ((addr - pmem_base s) div 4096) in
               if idx < PMEM_MAX_PAGES \<and> \<not> bitmap_test idx s
               then (bitmap_set idx s)\<lparr>pmem_free_pages := pmem_free_pages s - 1\<rparr>
               else s)
         else s)
      else s)"

definition brights_pmem_init :: "mem_region list option \<Rightarrow> pmem \<Rightarrow> pmem" where
  "brights_pmem_init regions s =
     (let s0 = s\<lparr>pmem_total_pages := 0, pmem_free_pages := 0, pmem_base := - 1\<rparr> in
      case regions of
        None \<Rightarrow> s0
      | Some rs \<Rightarrow>
          (if rs = [] then s0
           else
             (let s1 = pmem_measure rs s0 in
              if pmem_base s1 = - 1 then s1
              else
                (let s2 = (if pmem_total_pages s1 > of_nat PMEM_MAX_PAGES
                           then s1\<lparr>pmem_total_pages := of_nat PMEM_MAX_PAGES\<rparr> else s1);
                     s3 = s2\<lparr>pmem_bitmap := replicate PMEM_WORDS (- 1)\<rparr>;
                     s4 = pmem_free_regions rs s3
                 in pmem_reserve_low 256 0 s4))))"

subsection \<open>Allocation and release\<close>

text \<open>
  The word-by-word scan of \<open>brights_pmem_alloc_page\<close>: the index of the first clear bit of the
  first word that is not all ones.
\<close>

fun pmem_scan_words :: "u64 list \<Rightarrow> nat \<Rightarrow> nat option" where
  "pmem_scan_words [] i = None"
| "pmem_scan_words (w # ws) i =
     (if w \<noteq> - 1 then
        (let free_bits = NOT w in
         if free_bits = 0 then pmem_scan_words ws (Suc i)
         else Some (i * 64 + ctz free_bits))
      else pmem_scan_words ws (Suc i))"

definition brights_pmem_alloc_page :: "pmem \<Rightarrow> pmem \<times> u64" where
  "brights_pmem_alloc_page s =
     (case pmem_scan_words (pmem_bitmap s) 0 of
        None \<Rightarrow> (s, 0)
      | Some idx \<Rightarrow>
          (if of_nat idx \<ge> pmem_total_pages s then (s, 0)
           else ((bitmap_set idx s)\<lparr>pmem_free_pages := pmem_free_pages s - 1\<rparr>,
                 pmem_base s + of_nat idx * 4096)))"

definition brights_pmem_free_page :: "u64 \<Rightarrow> pmem \<Rightarrow> pmem" where
  "brights_pmem_free_page addr s =
     (if addr = 0 then s
      else if addr < pmem_base s then s
      else
        (let idx = unat ((addr - pmem_base s) div 4096) in
         if PMEM_MAX_PAGES \<le> idx then s
         else if bitmap_test idx s
         then (bitmap_clear idx s)\<lparr>pmem_free_pages := pmem_free_pages s + 1\<rparr>
         else s))"

text \<open>The first-fit search: \<open>found\<close> free pages end just before page \<open>i\<close>, starting at \<open>start_idx\<close>.\<close>

fun pmem_find_run :: "nat \<Rightarrow> nat list \<Rightarrow> nat \<Rightarrow> nat \<Rightarrow> pmem \<Rightarrow> nat option" where
  "pmem_find_run count [] found start_idx s = None"
| "pmem_find_run count (i # is) found start_idx s =
     (if \<not> bitmap_test i s then
        (let start' = (if found = 0 then i else start_idx) in
         if Suc found = count then Some start'
         else pmem_find_run count is (Suc found) start' s)
      else pmem_find_run count is 0 start_idx s)"

fun bitmap_set_range :: "nat \<Rightarrow> nat \<Rightarrow> pmem \<Rightarrow> pmem" where
  "bitmap_set_range j 0 s = s"
| "bitmap_set_range j (Suc n) s = bitmap_set_range (Suc j) n (bitmap_set j s)"

definition brights_pmem_alloc_pages :: "u32 \<Rightarrow> pmem \<Rightarrow> pmem \<times> u64" where
  "brights_pmem_alloc_pages count s =
     (if count = 0 then (s, 0)
      else if count = 1 then brights_pmem_alloc_page s
      else
        (case pmem_find_run (unat count) [0..<PMEM_MAX_PAGES] 0 0 s of
           None \<Rightarrow> (s, 0)
         | Some start_idx \<Rightarrow>
             ((bitmap_set_range start_idx (unat count) s)
                \<lparr>pmem_free_pages := pmem_free_pages s - ucast count\<rparr>,
              pmem_base s + of_nat start_idx * 4096)))"

fun pmem_free_run :: "nat \<Rightarrow> u64 \<Rightarrow> pmem \<Rightarrow> pmem" where
  "pmem_free_run 0 idx s = s"
| "pmem_free_run (Suc n) idx s =
     pmem_free_run n (idx + 1)
       (if unat idx < PMEM_MAX_PAGES \<and> bitmap_test (unat idx) s
        then (bitmap_clear (unat idx) s)\<lparr>pmem_free_pages := pmem_free_pages s + 1\<rparr>
        else s)"

definition brights_pmem_free_pages :: "u64 \<Rightarrow> u32 \<Rightarrow> pmem \<Rightarrow> pmem" where
  "brights_pmem_free_pages addr count s =
     (if addr = 0 \<or> count = 0 then s
      else if addr < pmem_base s then s
      else pmem_free_run (unat count) ((addr - pmem_base s) div 4096) s)"

definition brights_pmem_total_bytes :: "pmem \<Rightarrow> u64" where
  "brights_pmem_total_bytes s = pmem_total_pages s * 4096"

definition brights_pmem_free_bytes :: "pmem \<Rightarrow> u64" where
  "brights_pmem_free_bytes s = pmem_free_pages s * 4096"

definition brights_pmem_used_bytes :: "pmem \<Rightarrow> u64" where
  "brights_pmem_used_bytes s = (pmem_total_pages s - pmem_free_pages s) * 4096"

definition brights_pmem_free_pages_count :: "pmem \<Rightarrow> u64" where
  "brights_pmem_free_pages_count s = pmem_free_pages s"

subsection \<open>Abstraction and invariant\<close>

definition free_set :: "pmem \<Rightarrow> nat set" where
  "free_set s = {i. i < PMEM_MAX_PAGES \<and> \<not> bitmap_test i s}"

definition page_addr :: "pmem \<Rightarrow> nat \<Rightarrow> u64" where
  "page_addr s i = pmem_base s + of_nat i * 4096"

definition avail :: "pmem \<Rightarrow> u64 set" where
  "avail s = page_addr s ` free_set s"

definition pmem_inv :: "pmem \<Rightarrow> bool" where
  "pmem_inv s \<longleftrightarrow> length (pmem_bitmap s) = PMEM_WORDS
     \<and> unat (pmem_free_pages s) = card (free_set s)
     \<and> unat (pmem_total_pages s) \<le> PMEM_MAX_PAGES
     \<and> unat (pmem_base s) + PMEM_MAX_PAGES * 4096 < 2 ^ 64
     \<and> 0 \<notin> avail s"

subsection \<open>Facts about the bitmap\<close>

lemma PMEM_WORDS_64 [simp]: "PMEM_WORDS * 64 = PMEM_MAX_PAGES"
  by (simp add: PMEM_WORDS_def PMEM_MAX_PAGES_def)

lemma page_div_less: "i < PMEM_MAX_PAGES \<Longrightarrow> i div 64 < PMEM_WORDS"
  by (simp add: PMEM_WORDS_def PMEM_MAX_PAGES_def)

lemma bitmap_frame [simp]:
  "pmem_base (bitmap_set i s) = pmem_base s" "pmem_base (bitmap_clear i s) = pmem_base s"
  "pmem_total_pages (bitmap_set i s) = pmem_total_pages s"
  "pmem_total_pages (bitmap_clear i s) = pmem_total_pages s"
  "pmem_free_pages (bitmap_set i s) = pmem_free_pages s"
  "pmem_free_pages (bitmap_clear i s) = pmem_free_pages s"
  "length (pmem_bitmap (bitmap_set i s)) = length (pmem_bitmap s)"
  "length (pmem_bitmap (bitmap_clear i s)) = length (pmem_bitmap s)"
  by (simp_all add: bitmap_set_def bitmap_clear_def)

lemma bitmap_test_frame [simp]:
  "bitmap_test i (s\<lparr>pmem_free_pages := n\<rparr>) = bitmap_test i s"
  "bitmap_test i (s\<lparr>pmem_total_pages := n\<rparr>) = bitmap_test i s"
  "bitmap_test i (s\<lparr>pmem_base := a\<rparr>) = bitmap_test i s"
  by (simp_all add: bitmap_test_def)

lemma free_set_frame [simp]:
  "free_set (s\<lparr>pmem_free_pages := n\<rparr>) = free_set s"
  "free_set (s\<lparr>pmem_total_pages := n\<rparr>) = free_set s"
  "free_set (s\<lparr>pmem_base := a\<rparr>) = free_set s"
  by (simp_all add: free_set_def)

lemma page_split_eq: "(i::nat) div 64 = j div 64 \<and> i mod 64 = j mod 64 \<longleftrightarrow> i = j"
  by (metis div_mult_mod_eq)

lemma bitmap_test_set [bit_tests]:
  assumes "length (pmem_bitmap s) = PMEM_WORDS" "i < PMEM_MAX_PAGES" "j < PMEM_MAX_PAGES"
  shows "bitmap_test j (bitmap_set i s) \<longleftrightarrow> j = i \<or> bitmap_test j s"
  using assms page_div_less page_split_eq [of j i]
  by (auto simp: bitmap_test_def bitmap_set_def nth_upd_at bit_tests)

lemma bitmap_test_clear [bit_tests]:
  assumes "length (pmem_bitmap s) = PMEM_WORDS" "i < PMEM_MAX_PAGES" "j < PMEM_MAX_PAGES"
  shows "bitmap_test j (bitmap_clear i s) \<longleftrightarrow> j \<noteq> i \<and> bitmap_test j s"
  using assms page_div_less page_split_eq [of j i]
  by (auto simp: bitmap_test_def bitmap_clear_def nth_upd_at bit_tests)

lemma free_set_finite [simp]: "finite (free_set s)"
  by (simp add: free_set_def)

lemma card_free_set: "card (free_set s) \<le> PMEM_MAX_PAGES"
proof -
  have "free_set s \<subseteq> {..<PMEM_MAX_PAGES}" by (auto simp: free_set_def)
  then show ?thesis using card_mono [of "{..<PMEM_MAX_PAGES}"] by simp
qed

lemma free_set_bitmap_set:
  assumes "length (pmem_bitmap s) = PMEM_WORDS" "i < PMEM_MAX_PAGES"
  shows "free_set (bitmap_set i s) = free_set s - {i}"
  using assms by (auto simp: free_set_def bit_tests)

lemma free_set_bitmap_clear:
  assumes "length (pmem_bitmap s) = PMEM_WORDS" "i < PMEM_MAX_PAGES"
  shows "free_set (bitmap_clear i s) = insert i (free_set s)"
  using assms by (auto simp: free_set_def bit_tests)

lemma bitmap_set_clear:
  assumes "length (pmem_bitmap s) = PMEM_WORDS" "i < PMEM_MAX_PAGES" "\<not> bitmap_test i s"
  shows "bitmap_clear i (bitmap_set i s) = s"
proof -
  have "bit_off (i mod 64) (bit_on (i mod 64) (pmem_bitmap s ! (i div 64))) = pmem_bitmap s ! (i div 64)"
    using assms(3) by (intro bit_word_eqI) (auto simp: bit_tests bitmap_test_def)
  then show ?thesis
    using assms page_div_less [of i] by (simp add: bitmap_set_def bitmap_clear_def upd_at_def)
qed

lemma unat_page_offset: "i < PMEM_MAX_PAGES \<Longrightarrow> unat (of_nat i * 4096 :: u64) = i * 4096"
  by (simp add: unat_word_ariths unat_of_nat PMEM_MAX_PAGES_def)

lemma page_addr_inj:
  assumes "i < PMEM_MAX_PAGES" "j < PMEM_MAX_PAGES" "page_addr s i = page_addr s j"
  shows "i = j"
proof -
  from assms(3) have "(of_nat i * 4096 :: u64) = of_nat j * 4096" by (simp add: page_addr_def)
  then show ?thesis using assms(1,2) by (metis unat_page_offset mult_right_cancel zero_neq_numeral)
qed

lemma page_addr_idx:
  assumes "i < PMEM_MAX_PAGES" "unat (pmem_base s) + PMEM_MAX_PAGES * 4096 < 2 ^ 64"
  shows "unat ((page_addr s i - pmem_base s) div 4096) = i" "pmem_base s \<le> page_addr s i"
proof -
  note m = unat_page_offset [OF assms(1)]
  then show "unat ((page_addr s i - pmem_base s) div 4096) = i"
    by (simp add: page_addr_def unat_div)
  have "unat (pmem_base s) + i * 4096 < 2 ^ 64" using assms by (simp add: PMEM_MAX_PAGES_def)
  then have "unat (page_addr s i) = unat (pmem_base s) + i * 4096"
    using m by (simp add: page_addr_def unat_word_ariths)
  then show "pmem_base s \<le> page_addr s i" by (simp add: word_le_nat_alt)
qed

subsection \<open>Allocating one page\<close>

lemma not_zero_iff: "NOT (w :: u64) = 0 \<longleftrightarrow> w = - 1"
  by (metis bit.compl_zero bit.double_compl)

lemma pmem_scan_words_None: "pmem_scan_words ws i = None \<longleftrightarrow> (\<forall>w\<in>set ws. w = - 1)"
  by (induction ws arbitrary: i) (auto simp: Let_def not_zero_iff)

lemma pmem_scan_words_Some:
  assumes "pmem_scan_words ws i = Some idx"
  shows "\<exists>k b. k < length ws \<and> b < 64 \<and> idx = (i + k) * 64 + b \<and> \<not> bit (ws ! k) b
           \<and> (\<forall>k'<k. ws ! k' = - 1) \<and> (\<forall>b'<b. bit (ws ! k) b')"
  using assms
proof (induction ws arbitrary: i)
  case Nil
  then show ?case by simp
next
  case (Cons w ws)
  show ?case
  proof (cases "w = - 1")
    case True
    with Cons.prems have "pmem_scan_words ws (Suc i) = Some idx" by simp
    from Cons.IH [OF this] obtain k b where
      "k < length ws" "b < 64" "idx = (Suc i + k) * 64 + b" "\<not> bit (ws ! k) b"
      "\<forall>k'<k. ws ! k' = - 1" "\<forall>b'<b. bit (ws ! k) b'" by blast
    with True show ?thesis
      by (intro exI [of _ "Suc k"] exI [of _ b]) (auto simp: less_Suc_eq_0_disj)
  next
    case False
    then have nz: "NOT w \<noteq> 0" by (simp add: not_zero_iff)
    with False Cons.prems have "idx = i * 64 + ctz (NOT w)" by (simp add: Let_def)
    moreover have "ctz (NOT w) < 64" "\<not> bit w (ctz (NOT w))"
      using ctz_bit [OF nz] by (auto simp: bit_not_iff)
    moreover have "\<forall>b'<ctz (NOT w). bit w b'"
      using ctz_least [of _ "NOT w"] \<open>ctz (NOT w) < 64\<close> by (auto simp: bit_not_iff)
    ultimately show ?thesis by (intro exI [of _ 0] exI [of _ "ctz (NOT w)"]) auto
  qed
qed

lemma page_before:
  "(j::nat) < k * 64 + b \<Longrightarrow> b < 64 \<Longrightarrow> j div 64 < k \<or> j div 64 = k \<and> j mod 64 < b"
  using div_mult_mod_eq [of j 64] by linarith

lemma pmem_scan_least:
  assumes "length (pmem_bitmap s) = PMEM_WORDS"
    and "pmem_scan_words (pmem_bitmap s) 0 = Some idx"
  shows "idx \<in> free_set s" and "\<And>j. j \<in> free_set s \<Longrightarrow> idx \<le> j"
proof -
  from pmem_scan_words_Some [OF assms(2)] obtain k b where
    kb: "k < PMEM_WORDS" "b < 64" "idx = k * 64 + b" "\<not> bit (pmem_bitmap s ! k) b"
    and before: "\<forall>k'<k. pmem_bitmap s ! k' = - 1" "\<forall>b'<b. bit (pmem_bitmap s ! k) b'"
    using assms(1) by auto
  have "idx < PMEM_MAX_PAGES" using kb(1-3) by (simp add: PMEM_WORDS_def PMEM_MAX_PAGES_def)
  with kb show "idx \<in> free_set s" by (simp add: free_set_def bitmap_test_def)
  fix j assume "j \<in> free_set s"
  then have j: "\<not> bit (pmem_bitmap s ! (j div 64)) (j mod 64)"
    by (simp add: free_set_def bitmap_test_def)
  show "idx \<le> j"
  proof (rule ccontr)
    assume "\<not> idx \<le> j"
    then have "j < k * 64 + b" using kb(3) by simp
    then have "j div 64 < k \<or> j div 64 = k \<and> j mod 64 < b" using kb(2) by (rule page_before)
    then show False
    proof
      assume "j div 64 < k"
      then show False using j before(1) by simp
    next
      assume "j div 64 = k \<and> j mod 64 < b"
      then show False using j before(2) by simp
    qed
  qed
qed

lemma pmem_scan_empty:
  assumes "length (pmem_bitmap s) = PMEM_WORDS"
  shows "pmem_scan_words (pmem_bitmap s) 0 = None \<longleftrightarrow> free_set s = {}"
proof
  assume "pmem_scan_words (pmem_bitmap s) 0 = None"
  then have "\<forall>w\<in>set (pmem_bitmap s). w = - 1" by (simp add: pmem_scan_words_None)
  then have "bitmap_test i s" if "i < PMEM_MAX_PAGES" for i
  proof -
    have "pmem_bitmap s ! (i div 64) = - 1"
      using page_div_less [OF that] assms \<open>\<forall>w\<in>set (pmem_bitmap s). w = - 1\<close> by simp
    then show ?thesis by (simp add: bitmap_test_def)
  qed
  then show "free_set s = {}" by (auto simp: free_set_def)
next
  assume "free_set s = {}"
  then show "pmem_scan_words (pmem_bitmap s) 0 = None"
    using pmem_scan_least(1) [OF assms] by (cases "pmem_scan_words (pmem_bitmap s) 0") auto
qed

lemma pmem_scan_eq:
  assumes "length (pmem_bitmap s) = PMEM_WORDS"
  shows "pmem_scan_words (pmem_bitmap s) 0 = (if free_set s = {} then None else Some (Min (free_set s)))"
proof (cases "pmem_scan_words (pmem_bitmap s) 0")
  case None
  then show ?thesis using pmem_scan_empty [OF assms] by simp
next
  case (Some idx)
  then have "Min (free_set s) = idx"
    using pmem_scan_least [OF assms Some] by (intro Min_eqI) auto
  then show ?thesis using Some pmem_scan_least(1) [OF assms Some] by auto
qed

text \<open>The abstract allocator: the lowest free page below the tracked total, if there is one.\<close>

definition spec_alloc_page :: "nat set \<Rightarrow> nat \<Rightarrow> nat option" where
  "spec_alloc_page F n = (if F = {} \<or> n \<le> Min F then None else Some (Min F))"

lemma spec_alloc_page_Some: "F \<noteq> {} \<Longrightarrow> Min F < n \<Longrightarrow> spec_alloc_page F n = Some (Min F)"
  unfolding spec_alloc_page_def by (simp only: not_le [symmetric]) simp

lemma spec_alloc_page_None: "\<not> (F \<noteq> {} \<and> Min F < n) \<Longrightarrow> spec_alloc_page F n = None"
  unfolding spec_alloc_page_def by (simp only: not_less de_Morgan_conj) simp

lemma pmem_invD:
  assumes "pmem_inv s"
  shows pmem_inv_len: "length (pmem_bitmap s) = PMEM_WORDS"
    and pmem_inv_count: "unat (pmem_free_pages s) = card (free_set s)"
    and pmem_inv_total: "unat (pmem_total_pages s) \<le> PMEM_MAX_PAGES"
    and pmem_inv_span: "unat (pmem_base s) + PMEM_MAX_PAGES * 4096 < 2 ^ 64"
    and pmem_inv_null: "0 \<notin> avail s"
  using assms by (auto simp: pmem_inv_def)

lemma of_nat_page_le: "i < PMEM_MAX_PAGES \<Longrightarrow> t \<le> of_nat i \<longleftrightarrow> unat (t :: u64) \<le> i"
  by (simp add: word_le_nat_alt unat_of_nat PMEM_MAX_PAGES_def)

lemma alloc_page_refines:
  assumes "pmem_inv s"
  shows "brights_pmem_alloc_page s =
    (case spec_alloc_page (free_set s) (unat (pmem_total_pages s)) of
       None \<Rightarrow> (s, 0)
     | Some i \<Rightarrow> ((bitmap_set i s)\<lparr>pmem_free_pages := pmem_free_pages s - 1\<rparr>, page_addr s i))"
proof (cases "free_set s = {}")
  case True
  then show ?thesis
    using pmem_scan_eq [OF pmem_inv_len [OF assms]]
    by (simp add: brights_pmem_alloc_page_def spec_alloc_page_def)
next
  case False
  then have "Min (free_set s) \<in> free_set s" by simp
  then have "Min (free_set s) < PMEM_MAX_PAGES" by (simp add: free_set_def)
  then show ?thesis
    using False pmem_scan_eq [OF pmem_inv_len [OF assms]]
    by (simp add: brights_pmem_alloc_page_def spec_alloc_page_def of_nat_page_le page_addr_def)
qed

lemma page_addr_frame [simp]:
  "page_addr (bitmap_set j s) = page_addr s" "page_addr (bitmap_clear j s) = page_addr s"
  "page_addr (s\<lparr>pmem_free_pages := n\<rparr>) = page_addr s"
  by (auto simp: page_addr_def)

lemma card_dec_word: "unat (n :: u64) = card F \<Longrightarrow> finite F \<Longrightarrow> i \<in> F \<Longrightarrow> unat (n - 1) = card (F - {i})"
proof -
  assume a: "unat n = card F" "finite F" "i \<in> F"
  then have "0 < card F" by (auto simp: card_gt_0_iff)
  with a have "n \<noteq> 0" by auto
  then show ?thesis using a by (simp add: unat_minus_one card_Diff_singleton)
qed

lemma card_inc_word:
  assumes "unat (n :: u64) = card F" "finite F" "i \<notin> F" "card F < 2 ^ 64 - 1"
  shows "unat (n + 1) = card (insert i F)"
proof -
  have "unat n + 1 < 2 ^ 64" using assms(1,4) by simp
  then show ?thesis using assms by (simp add: unat_word_ariths)
qed

lemma take_page_inv:
  assumes "pmem_inv s" "i \<in> free_set s"
  shows "pmem_inv ((bitmap_set i s)\<lparr>pmem_free_pages := pmem_free_pages s - 1\<rparr>)"
    and "free_set ((bitmap_set i s)\<lparr>pmem_free_pages := pmem_free_pages s - 1\<rparr>) = free_set s - {i}"
proof -
  have i: "i < PMEM_MAX_PAGES" using assms(2) by (simp add: free_set_def)
  note fs = free_set_bitmap_set [OF pmem_inv_len [OF assms(1)] i]
  then show "free_set ((bitmap_set i s)\<lparr>pmem_free_pages := pmem_free_pages s - 1\<rparr>) = free_set s - {i}"
    by simp
  have "unat (pmem_free_pages s - 1) = card (free_set s - {i})"
    using card_dec_word [OF pmem_inv_count [OF assms(1)]] assms(2) by simp
  then show "pmem_inv ((bitmap_set i s)\<lparr>pmem_free_pages := pmem_free_pages s - 1\<rparr>)"
    using pmem_invD [OF assms(1)] fs by (auto simp: pmem_inv_def avail_def)
qed

subsection \<open>Releasing one page\<close>

lemma put_page_inv:
  assumes "pmem_inv s" "i < PMEM_MAX_PAGES" "i \<notin> free_set s" "page_addr s i \<noteq> 0"
  shows "pmem_inv ((bitmap_clear i s)\<lparr>pmem_free_pages := pmem_free_pages s + 1\<rparr>)"
    and "free_set ((bitmap_clear i s)\<lparr>pmem_free_pages := pmem_free_pages s + 1\<rparr>) = insert i (free_set s)"
proof -
  note fs = free_set_bitmap_clear [OF pmem_inv_len [OF assms(1)] assms(2)]
  then show "free_set ((bitmap_clear i s)\<lparr>pmem_free_pages := pmem_free_pages s + 1\<rparr>) = insert i (free_set s)"
    by simp
  have "card (free_set s) < 2 ^ 64 - 1"
    using card_free_set [of s] by (simp add: PMEM_MAX_PAGES_def)
  then have "unat (pmem_free_pages s + 1) = card (insert i (free_set s))"
    using card_inc_word [OF pmem_inv_count [OF assms(1)]] assms(3) by simp
  then show "pmem_inv ((bitmap_clear i s)\<lparr>pmem_free_pages := pmem_free_pages s + 1\<rparr>)"
    using pmem_invD [OF assms(1)] fs assms(4) by (auto simp: pmem_inv_def avail_def)
qed

lemma free_page_eq:
  assumes "pmem_inv s" "i < PMEM_MAX_PAGES" "page_addr s i \<noteq> 0"
  shows "brights_pmem_free_page (page_addr s i) s =
    (if i \<in> free_set s then s
     else (bitmap_clear i s)\<lparr>pmem_free_pages := pmem_free_pages s + 1\<rparr>)"
  using page_addr_idx [OF assms(2) pmem_inv_span [OF assms(1)]] assms(2,3)
  by (auto simp: brights_pmem_free_page_def free_set_def Let_def not_le)

lemma pmem_free_restore: "(bitmap_clear i (s\<lparr>pmem_free_pages := n\<rparr>)) = (bitmap_clear i s)\<lparr>pmem_free_pages := n\<rparr>"
  by (simp add: bitmap_clear_def)

lemma take_put_page:
  assumes "pmem_inv s" "i \<in> free_set s"
  shows "brights_pmem_free_page (page_addr s i)
           ((bitmap_set i s)\<lparr>pmem_free_pages := pmem_free_pages s - 1\<rparr>) = s"
proof -
  let ?s = "(bitmap_set i s)\<lparr>pmem_free_pages := pmem_free_pages s - 1\<rparr>"
  have i: "i < PMEM_MAX_PAGES" "\<not> bitmap_test i s" using assms(2) by (auto simp: free_set_def)
  have "page_addr ?s i \<noteq> 0"
    using pmem_inv_null [OF assms(1)] assms(2) by (auto simp: avail_def)
  from free_page_eq [OF take_page_inv(1) [OF assms] i(1) this]
  show ?thesis
    using take_page_inv(2) [OF assms] bitmap_set_clear [OF pmem_inv_len [OF assms(1)] i]
    by (simp add: pmem_free_restore)
qed

subsection \<open>Contiguous runs\<close>

definition run_blocked :: "pmem \<Rightarrow> nat \<Rightarrow> nat \<Rightarrow> nat \<Rightarrow> bool" where
  "run_blocked s count st bound \<longleftrightarrow> (\<exists>k<count. st + k < bound \<and> bitmap_test (st + k) s)"

lemma run_blocked_mono: "run_blocked s c st b \<Longrightarrow> b \<le> b' \<Longrightarrow> run_blocked s c st b'"
  by (auto simp: run_blocked_def)

lemma pmem_find_run_spec:
  assumes "found < count" "found \<le> i" "i \<le> N"
    and free: "\<And>k. i - found \<le> k \<Longrightarrow> k < i \<Longrightarrow> \<not> bitmap_test k s"
    and blocked: "\<And>st. st < i - found \<Longrightarrow> run_blocked s count st i"
    and start: "found > 0 \<Longrightarrow> start_idx = i - found"
  shows "case pmem_find_run count [i..<N] found start_idx s of
      None \<Rightarrow> \<forall>st. st + count \<le> N \<longrightarrow> run_blocked s count st N
    | Some st \<Rightarrow> st + count \<le> N \<and> (\<forall>k<count. \<not> bitmap_test (st + k) s)
                 \<and> (\<forall>a < st. run_blocked s count a N)"
  using assms
proof (induction "N - i" arbitrary: i found start_idx)
  case 0
  then have "i = N" by simp
  moreover have "run_blocked s count st N" if "st + count \<le> N" for st
    using that 0 \<open>i = N\<close> by (intro "0.prems"(5) [unfolded \<open>i = N\<close>]) simp
  ultimately show ?case by simp
next
  case (Suc x)
  then have iN: "i < N" by simp
  then have upt: "[i..<N] = i # [Suc i..<N]" by (rule upt_conv_Cons)
  show ?case
  proof (cases "bitmap_test i s")
    case True
    have "run_blocked s count st (Suc i)" if "st < Suc i" for st
    proof (cases "st < i - found")
      case True
      then show ?thesis by (intro run_blocked_mono [OF Suc.prems(5)]) simp_all
    next
      case False
      then have "i - st < count" "st + (i - st) = i" using that Suc.prems(1) by auto
      with \<open>bitmap_test i s\<close> show ?thesis
        unfolding run_blocked_def by (intro exI [of _ "i - st"]) simp
    qed
    with Suc.hyps(1) [of "Suc i" 0 start_idx] Suc.prems(1) Suc.hyps(2) iN
    show ?thesis using True upt by (simp add: Suc_le_eq)
  next
    case False
    define start' where "start' = (if found = 0 then i else start_idx)"
    have start': "start' = i - found" using Suc.prems(6) by (auto simp: start'_def)
    have run: "\<not> bitmap_test k s" if "i - found \<le> k" "k < Suc i" for k
      using that False Suc.prems(4) by (cases "k = i") auto
    show ?thesis
    proof (cases "Suc found = count")
      case True
      have "\<not> bitmap_test (start' + k) s" if "k < count" for k
        by (rule run) (use that True start' Suc.prems(2) in simp_all)
      moreover have "run_blocked s count st N" if "st < start'" for st
        by (rule run_blocked_mono [of _ _ _ i]) (use Suc.prems(5) that start' iN in simp_all)
      moreover have "start' + count \<le> N" using True start' iN Suc.prems(2) by simp
      ultimately show ?thesis using True False upt by (simp add: Let_def start'_def)
    next
      case no: False
      have "run_blocked s count st (Suc i)" if "st < Suc i - Suc found" for st
        by (rule run_blocked_mono [of _ _ _ i]) (use that Suc.prems(5) in simp_all)
      with Suc.hyps(1) [of "Suc i" "Suc found" start'] Suc.prems(1,2) Suc.hyps(2) iN no run start'
      show ?thesis using False upt by (simp add: Let_def start'_def [symmetric] Suc_le_eq)
    qed
  qed
qed

lemma bitmap_set_range_props:
  assumes "length (pmem_bitmap s) = PMEM_WORDS" "j + n \<le> PMEM_MAX_PAGES"
  shows "length (pmem_bitmap (bitmap_set_range j n s)) = PMEM_WORDS
    \<and> free_set (bitmap_set_range j n s) = free_set s - {j..<j + n}
    \<and> pmem_base (bitmap_set_range j n s) = pmem_base s
    \<and> pmem_total_pages (bitmap_set_range j n s) = pmem_total_pages s
    \<and> pmem_free_pages (bitmap_set_range j n s) = pmem_free_pages s"
  using assms
proof (induction n arbitrary: j s)
  case 0
  then show ?case by simp
next
  case (Suc n)
  have "free_set s - {j} - {Suc j..<Suc j + n} = free_set s - {j..<j + Suc n}" by auto
  with Suc.IH [of "bitmap_set j s" "Suc j"] Suc.prems show ?case
    by (simp add: free_set_bitmap_set)
qed

lemma run_free_iff:
  "st + count \<le> PMEM_MAX_PAGES \<Longrightarrow>
     {st..<st + count} \<subseteq> free_set s \<longleftrightarrow> \<not> run_blocked s count st PMEM_MAX_PAGES"
proof -
  assume b: "st + count \<le> PMEM_MAX_PAGES"
  show ?thesis
  proof
    assume "{st..<st + count} \<subseteq> free_set s"
    then show "\<not> run_blocked s count st PMEM_MAX_PAGES"
      by (auto simp: run_blocked_def free_set_def subset_iff)
  next
    assume nb: "\<not> run_blocked s count st PMEM_MAX_PAGES"
    have "\<not> bitmap_test i s" if "st \<le> i" "i < st + count" for i
      using nb b that by (auto simp: run_blocked_def dest: spec [of _ "i - st"])
    then show "{st..<st + count} \<subseteq> free_set s" using b by (auto simp: free_set_def)
  qed
qed

lemma run_in_bounds: "0 < count \<Longrightarrow> {st..<st + count} \<subseteq> free_set s \<Longrightarrow> st + count \<le> PMEM_MAX_PAGES"
proof -
  assume "0 < count" "{st..<st + count} \<subseteq> free_set s"
  then have "st + count - 1 \<in> free_set s" by auto
  then have "st + count - 1 < PMEM_MAX_PAGES" by (simp add: free_set_def)
  with \<open>0 < count\<close> show ?thesis by linarith
qed

text \<open>The first-fit search finds the lowest run of free pages, and fails only if there is none.\<close>

lemma pmem_find_run_eq:
  assumes "0 < count"
  shows "case pmem_find_run count [0..<PMEM_MAX_PAGES] 0 0 s of
      None \<Rightarrow> \<forall>st. \<not> {st..<st + count} \<subseteq> free_set s
    | Some st \<Rightarrow> {st..<st + count} \<subseteq> free_set s
        \<and> (\<forall>a < st. \<not> {a..<a + count} \<subseteq> free_set s)"
proof -
  note spec = pmem_find_run_spec [of 0 count 0 PMEM_MAX_PAGES s 0, simplified, OF assms]
  show ?thesis
  proof (cases "pmem_find_run count [0..<PMEM_MAX_PAGES] 0 0 s")
    case None
    then have "run_blocked s count st PMEM_MAX_PAGES" if "st + count \<le> PMEM_MAX_PAGES" for st
      using spec that by simp
    then have "\<not> {st..<st + count} \<subseteq> free_set s" for st
      using run_in_bounds [OF assms] run_free_iff by blast
    then show ?thesis using None by simp
  next
    case (Some st)
    then have st: "st + count \<le> PMEM_MAX_PAGES" "\<forall>k<count. \<not> bitmap_test (st + k) s"
      "\<forall>a < st. run_blocked s count a PMEM_MAX_PAGES" using spec by auto
    then have "\<not> run_blocked s count st PMEM_MAX_PAGES" by (auto simp: run_blocked_def)
    with st have "{st..<st + count} \<subseteq> free_set s" by (simp add: run_free_iff)
    moreover have "\<not> {a..<a + count} \<subseteq> free_set s" if "a < st" for a
      using st that run_free_iff [of a count s] by simp
    ultimately show ?thesis using Some by simp
  qed
qed

lemma take_run_inv:
  assumes "pmem_inv s" "{st..<st + unat count} \<subseteq> free_set s" "0 < unat count"
  shows "pmem_inv ((bitmap_set_range st (unat count) s)
            \<lparr>pmem_free_pages := pmem_free_pages s - ucast (count :: u32)\<rparr>)"
    and "free_set ((bitmap_set_range st (unat count) s)
            \<lparr>pmem_free_pages := pmem_free_pages s - ucast count\<rparr>) = free_set s - {st..<st + unat count}"
proof -
  note b = run_in_bounds [OF assms(3,2)]
  note r = bitmap_set_range_props [OF pmem_inv_len [OF assms(1)] b]
  then show "free_set ((bitmap_set_range st (unat count) s)
      \<lparr>pmem_free_pages := pmem_free_pages s - ucast count\<rparr>) = free_set s - {st..<st + unat count}"
    by simp
  have u: "unat (ucast count :: u64) = unat count" by simp
  have le: "unat count \<le> card (free_set s)"
    using card_mono [OF free_set_finite assms(2)] by simp
  then have "ucast count \<le> pmem_free_pages s"
    using u pmem_inv_count [OF assms(1)] by (simp add: word_le_nat_alt)
  then have "unat (pmem_free_pages s - ucast count) = card (free_set s) - unat count"
    using u pmem_inv_count [OF assms(1)] by (simp add: unat_sub)
  also have "\<dots> = card (free_set s - {st..<st + unat count})"
    using assms(2) by (subst card_Diff_subset) auto
  finally show "pmem_inv ((bitmap_set_range st (unat count) s)
      \<lparr>pmem_free_pages := pmem_free_pages s - ucast count\<rparr>)"
    using pmem_invD [OF assms(1)] r by (auto simp: pmem_inv_def avail_def page_addr_def)
qed

lemma page_addr_next: "page_addr s (Suc i) = page_addr s i + 4096"
  by (simp add: page_addr_def algebra_simps)

lemma pmem_free_run_props:
  assumes "pmem_inv s" "idx = of_nat st" "st + n \<le> PMEM_MAX_PAGES"
    and "\<And>i. st \<le> i \<Longrightarrow> i < st + n \<Longrightarrow> page_addr s i \<noteq> 0"
  shows "pmem_inv (pmem_free_run n idx s) \<and> free_set (pmem_free_run n idx s) = free_set s \<union> {st..<st + n}
           \<and> page_addr (pmem_free_run n idx s) = page_addr s"
  using assms
proof (induction n arbitrary: st idx s)
  case 0
  then show ?case by simp
next
  case (Suc n)
  have st: "st < PMEM_MAX_PAGES" "unat idx = st"
    using Suc.prems(2,3) by (auto simp: unat_of_nat PMEM_MAX_PAGES_def)
  define s1 where "s1 = (if unat idx < PMEM_MAX_PAGES \<and> bitmap_test (unat idx) s
     then (bitmap_clear (unat idx) s)\<lparr>pmem_free_pages := pmem_free_pages s + 1\<rparr> else s)"
  have "pmem_inv s1 \<and> free_set s1 = insert st (free_set s) \<and> page_addr s1 = page_addr s"
  proof (cases "bitmap_test st s")
    case True
    then have "st \<notin> free_set s" by (simp add: free_set_def)
    from put_page_inv [OF Suc.prems(1) st(1) this] Suc.prems(4) True st
    show ?thesis by (auto simp: s1_def)
  next
    case False
    then show ?thesis using st Suc.prems(1) by (auto simp: s1_def free_set_def)
  qed
  then have "pmem_inv (pmem_free_run n (idx + 1) s1)
      \<and> free_set (pmem_free_run n (idx + 1) s1) = insert st (free_set s) \<union> {Suc st..<Suc st + n}
      \<and> page_addr (pmem_free_run n (idx + 1) s1) = page_addr s"
    using Suc.IH [of s1 "idx + 1" "Suc st"] Suc.prems(2-4) by auto
  moreover have "pmem_free_run (Suc n) idx s = pmem_free_run n (idx + 1) s1" by (simp add: s1_def)
  moreover have "insert st (free_set s) \<union> {Suc st..<Suc st + n} = free_set s \<union> {st..<st + Suc n}" by auto
  ultimately show ?case by simp
qed

subsection \<open>The allocator contract used by other components\<close>

locale page_allocator =
  fixes alloc :: "'s \<Rightarrow> 's \<times> u64"
    and free :: "u64 \<Rightarrow> 's \<Rightarrow> 's"
    and pages :: "'s \<Rightarrow> u64 set"
    and ok :: "'s \<Rightarrow> bool"
    and owned :: "u64 \<Rightarrow> 's \<Rightarrow> bool"
  assumes alloc_ok: "ok s \<Longrightarrow> ok (fst (alloc s))"
    and alloc_null: "ok s \<Longrightarrow> snd (alloc s) = 0 \<Longrightarrow> fst (alloc s) = s"
    and alloc_page: "ok s \<Longrightarrow> snd (alloc s) \<noteq> 0 \<Longrightarrow>
          snd (alloc s) \<in> pages s \<and> pages (fst (alloc s)) = pages s - {snd (alloc s)}
          \<and> owned (snd (alloc s)) (fst (alloc s))"
    and free_ok: "ok s \<Longrightarrow> owned p s \<Longrightarrow> ok (free p s) \<and> pages (free p s) = insert p (pages s)"
    and owned_disjoint: "owned p s \<Longrightarrow> p \<notin> pages s"
begin

fun alloc_many :: "nat \<Rightarrow> 's \<Rightarrow> 's \<times> u64 list" where
  "alloc_many 0 s = (s, [])"
| "alloc_many (Suc n) s =
     (let (s1, p) = alloc s; (s2, ps) = alloc_many n s1
      in (s2, if p = 0 then ps else p # ps))"

lemma alloc_many_distinct:
  "ok s \<Longrightarrow> ok (fst (alloc_many n s)) \<and> distinct (snd (alloc_many n s))
     \<and> set (snd (alloc_many n s)) \<subseteq> pages s
     \<and> pages (fst (alloc_many n s)) = pages s - set (snd (alloc_many n s))"
proof (induction n arbitrary: s)
  case 0
  then show ?case by simp
next
  case (Suc n)
  obtain s1 p where a: "alloc s = (s1, p)" by fastforce
  obtain s2 ps where m: "alloc_many n s1 = (s2, ps)" by fastforce
  from Suc.prems a have "ok s1" using alloc_ok [of s] by simp
  from Suc.IH [OF this] m have IH: "ok s2" "distinct ps" "set ps \<subseteq> pages s1" "pages s2 = pages s1 - set ps"
    by auto
  show ?case
  proof (cases "p = 0")
    case True
    then have "s1 = s" using alloc_null [OF Suc.prems] a by simp
    then show ?thesis using IH a m True by simp
  next
    case False
    then have "p \<in> pages s" "pages s1 = pages s - {p}" using alloc_page [OF Suc.prems] a by auto
    then show ?thesis using IH a m False by auto
  qed
qed

lemma alloc_free_restores:
  assumes "ok s" "snd (alloc s) \<noteq> 0"
  shows "pages (free (snd (alloc s)) (fst (alloc s))) = pages s"
  using alloc_page [OF assms] free_ok [OF alloc_ok [OF assms(1)]] by auto

end

definition page_owned :: "u64 \<Rightarrow> pmem \<Rightarrow> bool" where
  "page_owned p s \<longleftrightarrow> (\<exists>i<PMEM_MAX_PAGES. p = page_addr s i \<and> i \<notin> free_set s) \<and> p \<noteq> 0"

lemma alloc_page_cases:
  assumes "pmem_inv s"
  obtains (none) "brights_pmem_alloc_page s = (s, 0)"
  | (page) i where "i \<in> free_set s" "i = Min (free_set s)" "i < unat (pmem_total_pages s)"
      "brights_pmem_alloc_page s =
         ((bitmap_set i s)\<lparr>pmem_free_pages := pmem_free_pages s - 1\<rparr>, page_addr s i)"
      "page_addr s i \<noteq> 0"
proof (cases "spec_alloc_page (free_set s) (unat (pmem_total_pages s))")
  case None
  then show ?thesis using alloc_page_refines [OF assms] none by simp
next
  case (Some i)
  then have i: "free_set s \<noteq> {}" "i = Min (free_set s)" "i < unat (pmem_total_pages s)"
    by (auto simp: spec_alloc_page_def split: if_splits)
  then have "i \<in> free_set s" by simp
  moreover have "page_addr s i \<noteq> 0"
    using pmem_inv_null [OF assms] \<open>i \<in> free_set s\<close> by (auto simp: avail_def)
  ultimately show ?thesis using page i alloc_page_refines [OF assms] Some by simp
qed

lemma avail_after_take:
  assumes "pmem_inv s" "i \<in> free_set s"
  shows "avail ((bitmap_set i s)\<lparr>pmem_free_pages := n\<rparr>) = avail s - {page_addr s i}"
proof -
  have "inj_on (page_addr s) (free_set s)"
    by (rule inj_onI) (auto simp: free_set_def dest: page_addr_inj)
  moreover have "i < PMEM_MAX_PAGES" using assms(2) by (simp add: free_set_def)
  ultimately show ?thesis
    using assms(2) free_set_bitmap_set [OF pmem_inv_len [OF assms(1)]]
    by (simp add: avail_def inj_on_image_set_diff [of _ "free_set s"])
qed

interpretation pm: page_allocator brights_pmem_alloc_page brights_pmem_free_page avail pmem_inv page_owned
proof (unfold_locales, goal_cases)
  case (1 s)
  then show ?case by (cases rule: alloc_page_cases) (use 1 take_page_inv in auto)
next
  case (2 s)
  from 2(1) show ?case by (cases rule: alloc_page_cases) (use 2 in auto)
next
  case (3 s)
  from 3(1) show ?case
  proof (cases rule: alloc_page_cases)
    case none
    then show ?thesis using 3(2) by simp
  next
    case (page i)
    then have "page_owned (page_addr s i) ((bitmap_set i s)\<lparr>pmem_free_pages := pmem_free_pages s - 1\<rparr>)"
      using take_page_inv(2) [OF 3(1) page(1)]
      by (auto simp: page_owned_def free_set_def intro!: exI [of _ i])
    then show ?thesis using page avail_after_take [OF 3(1) page(1)] by (simp add: avail_def)
  qed
next
  case (4 s p)
  then obtain i where i: "i < PMEM_MAX_PAGES" "p = page_addr s i" "i \<notin> free_set s" "page_addr s i \<noteq> 0"
    by (auto simp: page_owned_def)
  then show ?case
    using free_page_eq [OF 4(1) i(1,4)] put_page_inv [OF 4(1) i(1,3,4)] by (simp add: avail_def)
next
  case (5 p s)
  then show ?case by (auto simp: page_owned_def avail_def free_set_def dest: page_addr_inj)
qed

subsection \<open>Initialisation\<close>

text \<open>Page numbers of a region: the first whole page and the first page past its last whole page.\<close>

definition rg_lo :: "mem_region \<Rightarrow> nat" where
  "rg_lo r = (unat (rg_base r) + 4095) div 4096"

definition rg_hi :: "mem_region \<Rightarrow> nat" where
  "rg_hi r = (unat (rg_base r) + unat (rg_size r)) div 4096"

definition region_ok :: "mem_region \<Rightarrow> bool" where
  "region_ok r \<longleftrightarrow> unat (rg_base r) + unat (rg_size r) \<le> 2 ^ 52"

fun regions_apart :: "mem_region list \<Rightarrow> bool" where
  "regions_apart [] = True"
| "regions_apart (r # rs) =
     ((\<forall>r'\<in>set rs. rg_hi r \<le> rg_lo r' \<or> rg_hi r' \<le> rg_lo r) \<and> regions_apart rs)"

definition regions_ok :: "mem_region list \<Rightarrow> bool" where
  "regions_ok rs \<longleftrightarrow> length rs \<le> 32 \<and> (\<forall>r\<in>set rs. region_ok r) \<and> regions_apart rs"

definition rel_pages :: "nat \<Rightarrow> mem_region \<Rightarrow> nat set" where
  "rel_pages B r = {i. i < PMEM_MAX_PAGES \<and> rg_lo r \<le> B + i \<and> B + i < rg_hi r}"

lemma mask12: "(mask 12 :: u64) = 4095"
  by (simp add: mask_eq_exp_minus_1)

lemma unat_align_down: "unat (align_down_page v) = unat v div 4096 * 4096"
  using unat_and_not_mask [of v 12] by (simp add: align_down_page_def mask12)

lemma unat_align_up: "unat v + 4095 < 2 ^ 64 \<Longrightarrow> unat (align_up_page v) = (unat v + 4095) div 4096 * 4096"
  using unat_and_not_mask [of "v + 4095" 12] by (simp add: align_up_page_def mask12 unat_word_ariths)

lemma region_bounds:
  assumes "region_ok r"
  shows "unat (align_up_page (rg_base r)) = rg_lo r * 4096"
    and "unat (align_down_page (rg_base r + rg_size r)) = rg_hi r * 4096"
    and "rg_lo r < 2 ^ 41" "rg_hi r < 2 ^ 41"
proof -
  have b: "unat (rg_base r) + unat (rg_size r) \<le> 2 ^ 52" using assms by (simp add: region_ok_def)
  then show "unat (align_up_page (rg_base r)) = rg_lo r * 4096"
    by (simp add: unat_align_up rg_lo_def)
  have "unat (rg_base r + rg_size r) = unat (rg_base r) + unat (rg_size r)"
    using b by (simp add: unat_word_ariths)
  then show "unat (align_down_page (rg_base r + rg_size r)) = rg_hi r * 4096"
    by (simp add: unat_align_down rg_hi_def)
  show "rg_lo r < 2 ^ 41" "rg_hi r < 2 ^ 41" using b by (auto simp: rg_lo_def rg_hi_def)
qed

lemma region_test:
  assumes "region_ok r"
  shows "align_down_page (rg_base r + rg_size r) \<le> align_up_page (rg_base r) \<longleftrightarrow> rg_hi r \<le> rg_lo r"
  using region_bounds [OF assms] by (simp add: word_le_nat_alt)

lemma region_page_count:
  assumes "region_ok r" "rg_lo r < rg_hi r"
  shows "unat ((align_down_page (rg_base r + rg_size r) - align_up_page (rg_base r)) div 4096)
           = rg_hi r - rg_lo r"
proof -
  have "align_up_page (rg_base r) \<le> align_down_page (rg_base r + rg_size r)"
    using region_bounds [OF assms(1)] assms(2) by (simp add: word_le_nat_alt)
  then have "unat (align_down_page (rg_base r + rg_size r) - align_up_page (rg_base r))
      = (rg_hi r - rg_lo r) * 4096"
    using region_bounds [OF assms(1)] by (simp add: unat_sub diff_mult_distrib)
  then show ?thesis by (simp add: unat_div)
qed

lemma pmem_measure_props:
  assumes "\<forall>r\<in>set rs. region_ok r" "length rs \<le> 32 - n"
    and "unat (pmem_total_pages s) \<le> n * 2 ^ 41" "n \<le> 32"
  shows "(pmem_base (pmem_measure rs s) = pmem_base s
            \<or> (\<exists>r\<in>set rs. rg_lo r < rg_hi r \<and> unat (pmem_base (pmem_measure rs s)) = rg_lo r * 4096))
       \<and> pmem_base (pmem_measure rs s) \<le> pmem_base s
       \<and> (\<forall>r\<in>set rs. rg_lo r < rg_hi r \<longrightarrow> unat (pmem_base (pmem_measure rs s)) \<le> rg_lo r * 4096)
       \<and> unat (pmem_total_pages s) \<le> unat (pmem_total_pages (pmem_measure rs s))
       \<and> ((\<exists>r\<in>set rs. rg_lo r < rg_hi r) \<longrightarrow> pmem_total_pages (pmem_measure rs s) \<noteq> 0)
       \<and> pmem_free_pages (pmem_measure rs s) = pmem_free_pages s
       \<and> pmem_bitmap (pmem_measure rs s) = pmem_bitmap s"
  using assms
proof (induction rs arbitrary: s n)
  case Nil
  then show ?case by simp
next
  case (Cons r rs)
  have ok: "region_ok r" "n < 32" using Cons.prems by auto
  show ?case
  proof (cases "rg_hi r \<le> rg_lo r")
    case True
    then show ?thesis using Cons.IH [of n s] Cons.prems region_test [OF ok(1)] by (auto simp: Let_def)
  next
    case False
    define cnt where
      "cnt = (align_down_page (rg_base r + rg_size r) - align_up_page (rg_base r)) div (4096 :: u64)"
    define s1 where "s1 = s\<lparr>pmem_base := (if align_up_page (rg_base r) < pmem_base s
        then align_up_page (rg_base r) else pmem_base s),
        pmem_total_pages := pmem_total_pages s + cnt\<rparr>"
    have eq: "pmem_measure (r # rs) s = pmem_measure rs s1"
      using False region_test [OF ok(1)] by (simp add: Let_def s1_def cnt_def)
    have cnt: "unat cnt = rg_hi r - rg_lo r" "rg_hi r - rg_lo r < 2 ^ 41" "0 < rg_hi r - rg_lo r"
      using region_page_count [OF ok(1)] region_bounds(4) [OF ok(1)] False by (auto simp: cnt_def)
    have tot: "unat (pmem_total_pages s1) = unat (pmem_total_pages s) + (rg_hi r - rg_lo r)"
      using cnt Cons.prems(3) ok(2) by (simp add: s1_def unat_word_ariths)
    have s1: "pmem_base s1 \<le> pmem_base s" "unat (pmem_base s1) \<le> rg_lo r * 4096"
      "pmem_base s1 = pmem_base s \<or> unat (pmem_base s1) = rg_lo r * 4096"
      using region_bounds(1) [OF ok(1)]
      by (auto simp: s1_def word_less_nat_alt word_le_nat_alt)
    have "unat (pmem_total_pages s1) \<le> Suc n * 2 ^ 41" using tot cnt Cons.prems(3) by simp
    note IH = Cons.IH [of "Suc n" s1, OF _ _ this]
    have IH': "pmem_base (pmem_measure rs s1) = pmem_base s1
            \<or> (\<exists>r\<in>set rs. rg_lo r < rg_hi r \<and> unat (pmem_base (pmem_measure rs s1)) = rg_lo r * 4096)"
      "pmem_base (pmem_measure rs s1) \<le> pmem_base s1"
      "\<forall>r\<in>set rs. rg_lo r < rg_hi r \<longrightarrow> unat (pmem_base (pmem_measure rs s1)) \<le> rg_lo r * 4096"
      "unat (pmem_total_pages s1) \<le> unat (pmem_total_pages (pmem_measure rs s1))"
      "pmem_free_pages (pmem_measure rs s1) = pmem_free_pages s"
      "pmem_bitmap (pmem_measure rs s1) = pmem_bitmap s"
      using IH Cons.prems(1,2) ok(2) by (auto simp: s1_def)
    moreover have "pmem_total_pages (pmem_measure rs s1) \<noteq> 0" using IH'(4) tot cnt(3) by auto
    moreover have "unat (pmem_base (pmem_measure rs s1)) \<le> rg_lo r * 4096"
      using IH'(2) s1(2) by (simp add: word_le_nat_alt)
    moreover have "pmem_base (pmem_measure rs s1) \<le> pmem_base s" using IH'(2) s1(1) by (rule order_trans)
    moreover have "pmem_base (pmem_measure rs s1) = pmem_base s
        \<or> (\<exists>r'\<in>set (r # rs). rg_lo r' < rg_hi r' \<and> unat (pmem_base (pmem_measure rs s1)) = rg_lo r' * 4096)"
      using IH'(1) s1(3) False by auto
    ultimately show ?thesis
      unfolding eq using tot by (intro conjI) simp_all
  qed
qed

lemma page_addr_idx_wide: "k < 2 ^ 52 \<Longrightarrow> unat ((page_addr s k - pmem_base s) div 4096) = k"
proof -
  assume "k < 2 ^ 52"
  then have "unat (of_nat k * 4096 :: u64) = k * 4096" by (simp add: unat_word_ariths unat_of_nat)
  then show ?thesis by (simp add: page_addr_def unat_div)
qed

definition count_ok :: "pmem \<Rightarrow> bool" where
  "count_ok s \<longleftrightarrow> length (pmem_bitmap s) = PMEM_WORDS \<and> unat (pmem_free_pages s) = card (free_set s)"

lemma count_ok_put:
  assumes "count_ok s" "i < PMEM_MAX_PAGES" "i \<notin> free_set s"
  shows "count_ok ((bitmap_clear i s)\<lparr>pmem_free_pages := pmem_free_pages s + 1\<rparr>)"
proof -
  have "card (free_set s) < 2 ^ 64 - 1" using card_free_set [of s] by (simp add: PMEM_MAX_PAGES_def)
  then show ?thesis
    using assms card_inc_word [of "pmem_free_pages s" "free_set s" i]
    by (simp add: count_ok_def free_set_bitmap_clear)
qed

lemma pmem_clear_pages_props:
  assumes "count_ok s" "addr = page_addr s k" "k + n < 2 ^ 52"
    and "{i. i < PMEM_MAX_PAGES \<and> k \<le> i \<and> i < k + n} \<inter> free_set s = {}"
  shows "count_ok (pmem_clear_pages n addr s)
       \<and> free_set (pmem_clear_pages n addr s) = free_set s \<union> {i. i < PMEM_MAX_PAGES \<and> k \<le> i \<and> i < k + n}
       \<and> pmem_base (pmem_clear_pages n addr s) = pmem_base s
       \<and> pmem_total_pages (pmem_clear_pages n addr s) = pmem_total_pages s"
  using assms
proof (induction n arbitrary: k addr s)
  case 0
  then show ?case by auto
next
  case (Suc n)
  have idx: "unat ((addr - pmem_base s) div 4096) = k"
    using Suc.prems(2,3) page_addr_idx_wide by simp
  define s1 where "s1 = (if k < PMEM_MAX_PAGES
     then (bitmap_clear k s)\<lparr>pmem_free_pages := pmem_free_pages s + 1\<rparr> else s)"
  have "k \<notin> free_set s" using Suc.prems(4) by (auto simp: free_set_def)
  then have s1: "count_ok s1" "free_set s1 = free_set s \<union> {i. i < PMEM_MAX_PAGES \<and> i = k}"
    "pmem_base s1 = pmem_base s" "pmem_total_pages s1 = pmem_total_pages s"
    using Suc.prems(1) count_ok_put [of s k]
    by (auto simp: s1_def free_set_bitmap_clear count_ok_def)
  have "addr + 4096 = page_addr s1 (Suc k)"
    using Suc.prems(2) s1(3) by (simp add: page_addr_next) (simp add: page_addr_def)
  moreover have "{i. i < PMEM_MAX_PAGES \<and> Suc k \<le> i \<and> i < Suc k + n} \<inter> free_set s1 = {}"
    using Suc.prems(4) s1(2) by auto
  ultimately have IH: "count_ok (pmem_clear_pages n (addr + 4096) s1)"
      "free_set (pmem_clear_pages n (addr + 4096) s1)
         = free_set s1 \<union> {i. i < PMEM_MAX_PAGES \<and> Suc k \<le> i \<and> i < Suc k + n}"
      "pmem_base (pmem_clear_pages n (addr + 4096) s1) = pmem_base s1"
      "pmem_total_pages (pmem_clear_pages n (addr + 4096) s1) = pmem_total_pages s1"
    using Suc.IH [of s1 "addr + 4096" "Suc k"] s1(1) Suc.prems(3) by auto
  have "free_set s1 \<union> {i. i < PMEM_MAX_PAGES \<and> Suc k \<le> i \<and> i < Suc k + n}
      = free_set s \<union> {i. i < PMEM_MAX_PAGES \<and> k \<le> i \<and> i < k + Suc n}"
    unfolding s1(2) Un_assoc by (rule arg_cong [where f = "\<lambda>A. free_set s \<union> A"]) auto
  moreover have "pmem_clear_pages (Suc n) addr s = pmem_clear_pages n (addr + 4096) s1"
    using idx by (simp add: s1_def Let_def)
  ultimately show ?case using IH s1 by simp
qed

lemma pmem_free_regions_props:
  assumes "count_ok s" "\<forall>r\<in>set rs. region_ok r" "regions_apart rs"
    and base: "unat (pmem_base s) = B * 4096"
    and low: "\<forall>r\<in>set rs. rg_lo r < rg_hi r \<longrightarrow> B \<le> rg_lo r"
    and disj: "\<forall>r\<in>set rs. rel_pages B r \<inter> free_set s = {}"
  shows "count_ok (pmem_free_regions rs s)
       \<and> free_set (pmem_free_regions rs s) = free_set s \<union> (\<Union>r\<in>set rs. rel_pages B r)
       \<and> pmem_base (pmem_free_regions rs s) = pmem_base s
       \<and> pmem_total_pages (pmem_free_regions rs s) = pmem_total_pages s"
  using assms
proof (induction rs arbitrary: s)
  case Nil
  then show ?case by simp
next
  case (Cons r rs)
  have ok: "region_ok r" using Cons.prems by simp
  define s1 where "s1 = (if rg_hi r \<le> rg_lo r then s
     else pmem_clear_pages (rg_hi r - rg_lo r) (align_up_page (rg_base r)) s)"
  have eq: "pmem_free_regions (r # rs) s = pmem_free_regions rs s1"
    using region_test [OF ok] region_page_count [OF ok] by (simp add: Let_def s1_def)
  have s1: "count_ok s1 \<and> free_set s1 = free_set s \<union> rel_pages B r \<and> pmem_base s1 = pmem_base s
      \<and> pmem_total_pages s1 = pmem_total_pages s"
  proof (cases "rg_hi r \<le> rg_lo r")
    case True
    then have "rel_pages B r = {}" by (auto simp: rel_pages_def)
    then show ?thesis using True Cons.prems(1) by (simp add: s1_def)
  next
    case False
    then have B: "B \<le> rg_lo r" using Cons.prems(5) by simp
    define k where "k = rg_lo r - B"
    have rp: "rel_pages B r = {i. i < PMEM_MAX_PAGES \<and> k \<le> i \<and> i < k + (rg_hi r - rg_lo r)}"
      using B False by (auto simp: rel_pages_def k_def)
    have "unat (page_addr s k) = rg_lo r * 4096"
    proof -
      have "k < 2 ^ 41" using region_bounds(3) [OF ok] by (simp add: k_def)
      then have "unat (of_nat k * 4096 :: u64) = k * 4096" by (simp add: unat_word_ariths unat_of_nat)
      moreover have "B * 4096 + k * 4096 < 2 ^ 64"
        using B region_bounds(3) [OF ok] by (simp add: k_def)
      ultimately show ?thesis
        using Cons.prems(4) B by (simp add: page_addr_def unat_word_ariths k_def diff_mult_distrib)
    qed
    then have "align_up_page (rg_base r) = page_addr s k"
      using region_bounds(1) [OF ok] by (simp add: word_unat_eq_iff)
    moreover have "k + (rg_hi r - rg_lo r) < 2 ^ 52"
      using region_bounds(3,4) [OF ok] by (simp add: k_def)
    ultimately show ?thesis
      using pmem_clear_pages_props [OF Cons.prems(1), of _ k "rg_hi r - rg_lo r"] Cons.prems(6) False rp
      by (auto simp: s1_def)
  qed
  have "rel_pages B r' \<inter> rel_pages B r = {}" if "r' \<in> set rs" for r'
    using Cons.prems(3) that by (auto simp: rel_pages_def)
  then have "\<forall>r'\<in>set rs. rel_pages B r' \<inter> free_set s1 = {}"
    using Cons.prems(6) s1 by auto
  with Cons.IH [of s1] Cons.prems(2-5) s1 show ?case unfolding eq by auto
qed

lemma count_ok_take:
  assumes "count_ok s" "i \<in> free_set s"
  shows "count_ok ((bitmap_set i s)\<lparr>pmem_free_pages := pmem_free_pages s - 1\<rparr>)"
    and "free_set ((bitmap_set i s)\<lparr>pmem_free_pages := pmem_free_pages s - 1\<rparr>) = free_set s - {i}"
proof -
  have i: "i < PMEM_MAX_PAGES" using assms(2) by (simp add: free_set_def)
  then show "free_set ((bitmap_set i s)\<lparr>pmem_free_pages := pmem_free_pages s - 1\<rparr>) = free_set s - {i}"
    using assms(1) by (simp add: count_ok_def free_set_bitmap_set)
  then show "count_ok ((bitmap_set i s)\<lparr>pmem_free_pages := pmem_free_pages s - 1\<rparr>)"
    using assms i card_dec_word [of "pmem_free_pages s" "free_set s" i]
    by (simp add: count_ok_def free_set_bitmap_set)
qed

text \<open>
  The reservation loop only removes pages; the pages it removes are those of the first megabyte
  that lie at or above the base and below \<open>base + total * 4096\<close>.
\<close>

lemma pmem_reserve_low_props:
  assumes "count_ok s" "addr = of_nat a * 4096" "a + n \<le> 256"
    and "unat (pmem_base s) = B * 4096"
  shows "count_ok (pmem_reserve_low n addr s)
       \<and> free_set (pmem_reserve_low n addr s) \<subseteq> free_set s
       \<and> pmem_base (pmem_reserve_low n addr s) = pmem_base s
       \<and> pmem_total_pages (pmem_reserve_low n addr s) = pmem_total_pages s
       \<and> (\<forall>p. a \<le> p \<and> p < a + n \<and> B \<le> p \<and> (of_nat p * 4096 :: u64) < pmem_base s + pmem_total_pages s * 4096
             \<and> (\<forall>q. a \<le> q \<and> q \<le> p \<longrightarrow> (of_nat q * 4096 :: u64) < pmem_base s + pmem_total_pages s * 4096)
           \<longrightarrow> p - B \<notin> free_set (pmem_reserve_low n addr s))"
  using assms
proof (induction n arbitrary: a addr s)
  case 0
  then show ?case by auto
next
  case (Suc n)
  have a: "a < 256" "unat addr = a * 4096"
    using Suc.prems(2,3) by (auto simp: unat_word_ariths unat_of_nat)
  then have lt: "addr < 0x100000" by (simp add: word_less_nat_alt)
  show ?case
  proof (cases "addr < pmem_base s + pmem_total_pages s * 4096")
    case False
    then have "pmem_reserve_low (Suc n) addr s = s" by simp
    moreover have "\<not> (of_nat a * 4096 :: u64) < pmem_base s + pmem_total_pages s * 4096"
      using False Suc.prems(2) by simp
    ultimately show ?thesis using Suc.prems(1) by auto
  next
    case True
    have base: "pmem_base s \<le> addr \<longleftrightarrow> B \<le> a" using a(2) Suc.prems(4) by (simp add: word_le_nat_alt)
    have idx: "unat ((addr - pmem_base s) div 4096) = a - B" if "B \<le> a"
      using that base a(2) Suc.prems(4) by (simp add: unat_div unat_sub diff_mult_distrib [symmetric])
    have lim: "a - B < PMEM_MAX_PAGES" using a(1) by (simp add: PMEM_MAX_PAGES_def)
    define s1 where "s1 = (if B \<le> a \<and> a - B \<in> free_set s
       then (bitmap_set (a - B) s)\<lparr>pmem_free_pages := pmem_free_pages s - 1\<rparr> else s)"
    have eq: "pmem_reserve_low (Suc n) addr s = pmem_reserve_low n (addr + 4096) s1"
      using lt True base idx lim by (auto simp: s1_def Let_def free_set_def)
    have s1: "count_ok s1" "free_set s1 \<subseteq> free_set s" "pmem_base s1 = pmem_base s"
      "pmem_total_pages s1 = pmem_total_pages s" "B \<le> a \<longrightarrow> a - B \<notin> free_set s1"
      using Suc.prems(1) count_ok_take [of s "a - B"] by (auto simp: s1_def)
    have "addr + 4096 = of_nat (Suc a) * 4096" using Suc.prems(2) by (simp add: algebra_simps)
    from Suc.IH [OF s1(1) this] s1 Suc.prems(3,4)
    have IH: "count_ok (pmem_reserve_low n (addr + 4096) s1)"
      "free_set (pmem_reserve_low n (addr + 4096) s1) \<subseteq> free_set s1"
      "pmem_base (pmem_reserve_low n (addr + 4096) s1) = pmem_base s"
      "pmem_total_pages (pmem_reserve_low n (addr + 4096) s1) = pmem_total_pages s"
      and IHp: "\<And>p. Suc a \<le> p \<Longrightarrow> p < Suc a + n \<Longrightarrow> B \<le> p
         \<Longrightarrow> (\<forall>q. Suc a \<le> q \<and> q \<le> p \<longrightarrow> (of_nat q * 4096 :: u64) < pmem_base s + pmem_total_pages s * 4096)
         \<Longrightarrow> p - B \<notin> free_set (pmem_reserve_low n (addr + 4096) s1)"
      by auto
    have "p - B \<notin> free_set (pmem_reserve_low n (addr + 4096) s1)"
      if "a \<le> p" "p < a + Suc n" "B \<le> p"
        "\<forall>q. a \<le> q \<and> q \<le> p \<longrightarrow> (of_nat q * 4096 :: u64) < pmem_base s + pmem_total_pages s * 4096" for p
    proof (cases "p = a")
      case True
      then show ?thesis using s1(5) IH(2) that(3) by auto
    next
      case False
      then show ?thesis using that by (intro IHp) auto
    qed
    then show ?thesis unfolding eq using IH s1(2) by auto
  qed
qed

lemma free_set_full: "free_set (s\<lparr>pmem_bitmap := replicate PMEM_WORDS (- 1)\<rparr>) = {}"
  by (auto simp: free_set_def bitmap_test_def page_div_less)

lemma unat_page_addr:
  assumes "i < PMEM_MAX_PAGES" "unat (pmem_base s) + PMEM_MAX_PAGES * 4096 < 2 ^ 64"
  shows "unat (page_addr s i) = unat (pmem_base s) + i * 4096"
proof -
  have "unat (pmem_base s) + i * 4096 < 2 ^ 64" using assms by (simp add: PMEM_MAX_PAGES_def)
  then show ?thesis
    using unat_page_offset [OF assms(1)] by (simp add: page_addr_def unat_word_ariths)
qed

lemma region_covers:
  assumes "region_ok r" "rg_lo r \<le> p" "p < rg_hi r"
  shows "unat (rg_base r) \<le> p * 4096" "p * 4096 + 4096 \<le> unat (rg_base r) + unat (rg_size r)"
proof -
  have "(unat (rg_base r) + 4095) div 4096 * 4096 \<le> p * 4096"
    using assms(2) by (simp add: rg_lo_def)
  then show "unat (rg_base r) \<le> p * 4096" by linarith
  have "Suc p * 4096 \<le> (unat (rg_base r) + unat (rg_size r)) div 4096 * 4096"
    using assms(3) unfolding rg_hi_def by (intro mult_right_mono) auto
  also have "\<dots> \<le> unat (rg_base r) + unat (rg_size r)" by (simp add: div_times_less_eq_dividend)
  finally show "p * 4096 + 4096 \<le> unat (rg_base r) + unat (rg_size r)" by simp
qed

text \<open>The state before the reservation pass: the free pages are exactly those of the regions.\<close>

lemma pmem_init_decompose:
  assumes "regions_ok rs" "\<exists>r\<in>set rs. rg_lo r < rg_hi r"
  obtains s4 B r0 where "brights_pmem_init (Some rs) s = pmem_reserve_low 256 0 s4"
    "count_ok s4" "unat (pmem_base s4) = B * 4096" "free_set s4 = (\<Union>r\<in>set rs. rel_pages B r)"
    "pmem_total_pages s4 \<noteq> 0" "unat (pmem_total_pages s4) \<le> PMEM_MAX_PAGES"
    "r0 \<in> set rs" "B = rg_lo r0"
proof -
  define s0 where "s0 = s\<lparr>pmem_total_pages := 0, pmem_free_pages := 0, pmem_base := - 1\<rparr>"
  define s1 where "s1 = pmem_measure rs s0"
  have ok: "\<forall>r\<in>set rs. region_ok r" "regions_apart rs" "length rs \<le> 32 - 0"
    using assms(1) by (auto simp: regions_ok_def)
  note m = pmem_measure_props [OF ok(1,3), of s0, folded s1_def]
  obtain r1 where r1: "r1 \<in> set rs" "rg_lo r1 < rg_hi r1" using assms(2) by blast
  have le: "unat (pmem_base s1) \<le> rg_lo r1 * 4096" using m r1 by (auto simp: s0_def)
  then have "unat (pmem_base s1) < 2 ^ 53" using region_bounds(3) [of r1] ok r1 by auto
  then have nb: "pmem_base s1 \<noteq> - 1" by (auto simp: unsigned_minus_1_eq_mask mask_eq_exp_minus_1)
  then obtain r0 where r0: "r0 \<in> set rs" "unat (pmem_base s1) = rg_lo r0 * 4096"
    using m by (auto simp: s0_def)
  define s3 where "s3 = (if pmem_total_pages s1 > of_nat PMEM_MAX_PAGES
      then s1\<lparr>pmem_total_pages := of_nat PMEM_MAX_PAGES\<rparr> else s1)\<lparr>pmem_bitmap := replicate PMEM_WORDS (- 1)\<rparr>"
  have s3: "pmem_base s3 = pmem_base s1" "pmem_free_pages s3 = 0" "free_set s3 = {}"
    "length (pmem_bitmap s3) = PMEM_WORDS"
    using m by (auto simp: s3_def s0_def free_set_full)
  have t3: "pmem_total_pages s3 \<noteq> 0" "unat (pmem_total_pages s3) \<le> PMEM_MAX_PAGES"
    using m r1 by (auto simp: s3_def s0_def PMEM_MAX_PAGES_def not_less word_le_nat_alt)
  have low: "\<forall>r\<in>set rs. rg_lo r < rg_hi r \<longrightarrow> rg_lo r0 \<le> rg_lo r"
    using m r0(2) by (auto simp: s0_def)
  have "count_ok s3" using s3 by (simp add: count_ok_def)
  note f = pmem_free_regions_props [OF this ok(1,2), of "rg_lo r0"]
  have "rs \<noteq> []" using r1 by auto
  then have "brights_pmem_init (Some rs) s = pmem_reserve_low 256 0 (pmem_free_regions rs s3)"
    using nb by (simp add: brights_pmem_init_def s0_def s1_def s3_def Let_def)
  then show ?thesis
    using f s3 t3 r0 low by (intro that [of "pmem_free_regions rs s3" "rg_lo r0" r0]) auto
qed

text \<open>A small machine: 1 MB base, four tracked pages, the second of them free.\<close>

definition pmem_full :: pmem where
  "pmem_full = \<lparr>pmem_bitmap = replicate PMEM_WORDS (- 1), pmem_base = 0x100000,
                pmem_total_pages = 4, pmem_free_pages = 0\<rparr>"

definition pmem_one :: pmem where
  "pmem_one = (bitmap_clear 1 pmem_full)\<lparr>pmem_free_pages := 1\<rparr>"

definition pmem_two :: pmem where
  "pmem_two = (bitmap_clear 2 pmem_one)\<lparr>pmem_free_pages := 2\<rparr>"

lemma pmem_full_props: "pmem_inv pmem_full" "free_set pmem_full = {}"
proof -
  have "pmem_full = pmem_full\<lparr>pmem_bitmap := replicate PMEM_WORDS (- 1)\<rparr>" by (simp add: pmem_full_def)
  then show "free_set pmem_full = {}" using free_set_full by metis
  then show "pmem_inv pmem_full"
    by (simp add: pmem_inv_def avail_def) (simp add: pmem_full_def PMEM_MAX_PAGES_def)
qed

lemma pmem_one_props: "pmem_inv pmem_one" "free_set pmem_one = {1}"
  using put_page_inv [OF pmem_full_props(1), of 1] pmem_full_props(2)
  by (auto simp: pmem_one_def page_addr_def pmem_full_def PMEM_MAX_PAGES_def)

lemma pmem_two_props: "pmem_inv pmem_two" "free_set pmem_two = {1, 2}"
  using put_page_inv [OF pmem_one_props(1), of 2] pmem_one_props(2)
  by (auto simp: pmem_two_def pmem_one_def page_addr_def pmem_full_def PMEM_MAX_PAGES_def bitmap_clear_def)

subsection \<open>Properties\<close>

text \<open>On a well-formed allocator state, \<open>brights_pmem_alloc_page\<close> hands out the lowest free page
  if its index is below the tracked total, marks exactly that page used, decrements the free count
  accordingly and never returns null in that case; otherwise it returns null and changes nothing.\<close>
theorem pmem_alloc_page_lowest:
  assumes "pmem_inv s"
  shows "case brights_pmem_alloc_page s of (s', p) \<Rightarrow> pmem_inv s' \<and>
    (if free_set s \<noteq> {} \<and> Min (free_set s) < unat (pmem_total_pages s)
     then p = page_addr s (Min (free_set s)) \<and> p \<noteq> 0 \<and> free_set s' = free_set s - {Min (free_set s)}
          \<and> pmem_free_pages s' = pmem_free_pages s - 1
     else p = 0 \<and> s' = s)"
proof (cases "free_set s \<noteq> {} \<and> Min (free_set s) < unat (pmem_total_pages s)")
  case True
  then have m: "Min (free_set s) \<in> free_set s" by simp
  then have "page_addr s (Min (free_set s)) \<noteq> 0" using pmem_inv_null [OF assms] by (auto simp: avail_def)
  then show ?thesis
    using True take_page_inv [OF assms m] alloc_page_refines [OF assms] by (simp add: spec_alloc_page_Some)
next
  case False
  then show ?thesis
    using assms alloc_page_refines [OF assms] spec_alloc_page_None [OF False] by (simp only: if_False) simp
qed

theorem pmem_alloc_page_lowest_witness:
  "pmem_inv pmem_one \<and> snd (brights_pmem_alloc_page pmem_one) = 0x101000
     \<and> free_set (fst (brights_pmem_alloc_page pmem_one)) = {}"
  using pmem_alloc_page_lowest [OF pmem_one_props(1)] pmem_one_props
  by (simp add: case_prod_unfold pmem_one_def pmem_full_def bitmap_clear_def page_addr_def)

text \<open>C1: for a request of two or more pages, \<open>brights_pmem_alloc_pages\<close> is first fit and complete:
  it returns the lowest run of that many free pages, marks exactly that run used and keeps the
  allocator well formed; it returns null, changing nothing, only if no such run exists.\<close>
theorem pmem_alloc_pages_first_fit:
  assumes "pmem_inv s" "1 < unat count"
  shows "case brights_pmem_alloc_pages count s of (s', p) \<Rightarrow>
    (if \<exists>st. {st..<st + unat count} \<subseteq> free_set s
     then \<exists>st. {st..<st + unat count} \<subseteq> free_set s
        \<and> (\<forall>a < st. \<not> {a..<a + unat count} \<subseteq> free_set s)
        \<and> p = page_addr s st \<and> p \<noteq> 0 \<and> pmem_inv s'
        \<and> free_set s' = free_set s - {st..<st + unat count}
     else p = 0 \<and> s' = s)"
proof -
  have c: "0 < unat count" "count \<noteq> 0" "count \<noteq> 1" using assms(2) by auto
  note spec = pmem_find_run_eq [OF c(1), of s]
  show ?thesis
  proof (cases "pmem_find_run (unat count) [0..<PMEM_MAX_PAGES] 0 0 s")
    case None
    then show ?thesis using spec c by (simp add: brights_pmem_alloc_pages_def)
  next
    case (Some st)
    then have st: "{st..<st + unat count} \<subseteq> free_set s" "\<forall>a < st. \<not> {a..<a + unat count} \<subseteq> free_set s"
      using spec by auto
    moreover have "st \<in> {st..<st + unat count}" using c(1) by simp
    ultimately have "page_addr s st \<in> avail s" unfolding avail_def by blast
    then have "page_addr s st \<noteq> 0" using pmem_inv_null [OF assms(1)] by metis
    with st take_run_inv [OF assms(1) st(1) c(1)] Some c show ?thesis
      by (auto simp: brights_pmem_alloc_pages_def page_addr_def intro!: exI [of _ st])
  qed
qed

theorem pmem_alloc_pages_first_fit_witness:
  "pmem_inv pmem_two \<and> 1 < unat (2 :: u32)
     \<and> {1..<1 + unat (2 :: u32)} \<subseteq> free_set pmem_two
     \<and> snd (brights_pmem_alloc_pages 2 pmem_two) \<noteq> 0"
proof -
  have two: "{1..<1 + unat (2 :: u32)} \<subseteq> free_set pmem_two"
    unfolding pmem_two_props by auto
  then have "\<exists>st. {st..<st + unat (2 :: u32)} \<subseteq> free_set pmem_two" by blast
  then show ?thesis
    using pmem_alloc_pages_first_fit [OF pmem_two_props(1), of 2] two pmem_two_props(1)
    by (auto simp: case_prod_unfold)
qed

text \<open>Releasing a page that was just allocated restores the allocator state exactly (bitmap and
  counters), so allocation leaks nothing that release does not give back.\<close>
theorem pmem_alloc_free_roundtrip:
  assumes "pmem_inv s" "brights_pmem_alloc_page s = (s', p)" "p \<noteq> 0"
  shows "brights_pmem_free_page p s' = s"
  using assms(1)
proof (cases rule: alloc_page_cases)
  case none
  then show ?thesis using assms(2,3) by simp
next
  case (page i)
  then show ?thesis using take_put_page [OF assms(1) page(1)] assms(2) by simp
qed

theorem pmem_alloc_free_roundtrip_witness:
  "brights_pmem_free_page 0x101000 (fst (brights_pmem_alloc_page pmem_one)) = pmem_one"
proof -
  have p: "snd (brights_pmem_alloc_page pmem_one) = 0x101000"
    using alloc_page_refines [OF pmem_one_props(1)] pmem_one_props(2)
    by (simp add: spec_alloc_page_def pmem_one_def pmem_full_def bitmap_clear_def page_addr_def)
  then show ?thesis
    using pmem_alloc_free_roundtrip [OF pmem_one_props(1) prod.collapse [symmetric]] by simp
qed

lemma pmem_init_props:
  assumes "regions_ok rs" "\<exists>r\<in>set rs. rg_lo r < rg_hi r"
    and "s' = brights_pmem_init (Some rs) s"
  shows "pmem_inv s'
    \<and> (\<forall>i\<in>free_set s'. \<exists>r\<in>set rs. unat (rg_base r) \<le> unat (page_addr s' i)
          \<and> unat (page_addr s' i) + 4096 \<le> unat (rg_base r) + unat (rg_size r))
    \<and> (0x100000 \<le> pmem_base s' + pmem_total_pages s' * 4096
          \<longrightarrow> (\<forall>i\<in>free_set s'. 0x100000 \<le> page_addr s' i))"
proof -
  obtain s4 B r0 where i: "brights_pmem_init (Some rs) s = pmem_reserve_low 256 0 s4"
    and s4: "count_ok s4" "unat (pmem_base s4) = B * 4096" "free_set s4 = (\<Union>r\<in>set rs. rel_pages B r)"
      "pmem_total_pages s4 \<noteq> 0" "unat (pmem_total_pages s4) \<le> PMEM_MAX_PAGES"
    and r0: "r0 \<in> set rs" "B = rg_lo r0"
    by (rule pmem_init_decompose [OF assms(1,2)])
  have ok: "\<forall>r\<in>set rs. region_ok r" using assms(1) by (simp add: regions_ok_def)
  note r = pmem_reserve_low_props [OF s4(1), of 0 0 256 B, simplified, OF s4(2)]
  then have s': "count_ok s'" "free_set s' \<subseteq> free_set s4" "pmem_base s' = pmem_base s4"
      "pmem_total_pages s' = pmem_total_pages s4"
    and low: "\<And>p. p < 256 \<Longrightarrow> B \<le> p
        \<Longrightarrow> (\<forall>q\<le>p. (of_nat q * 4096 :: u64) < pmem_base s4 + pmem_total_pages s4 * 4096)
        \<Longrightarrow> p - B \<notin> free_set s'"
    using i assms(3) by auto
  have B: "B < 2 ^ 41" using region_bounds(3) ok r0 by blast
  then have span: "unat (pmem_base s') + PMEM_MAX_PAGES * 4096 < 2 ^ 64"
    using s4(2) s'(3) by (simp add: PMEM_MAX_PAGES_def)
  have bnd: "i < PMEM_MAX_PAGES" if "i \<in> free_set s'" for i using that by (simp add: free_set_def)
  have addr: "unat (page_addr s' i) = (B + i) * 4096" if "i \<in> free_set s'" for i
    using unat_page_addr [OF bnd [OF that] span] s4(2) s'(3) by (simp add: algebra_simps)
  have limit: "unat (pmem_total_pages s4 * 4096) = unat (pmem_total_pages s4) * 4096"
    using s4(5) by (simp add: unat_word_ariths PMEM_MAX_PAGES_def)
  have "0 \<notin> avail s'"
  proof
    assume "0 \<in> avail s'"
    then obtain j where j: "j \<in> free_set s'" "page_addr s' j = 0" by (auto simp: avail_def)
    then have "B = 0" "j = 0" using addr [OF j(1)] by auto
    moreover have "0 < unat (pmem_total_pages s4)" using s4(4) by (simp add: unat_gt_0)
    moreover have "pmem_base s4 = 0" using s4(2) \<open>B = 0\<close> by (simp add: unat_eq_zero)
    ultimately have "(0 :: u64) < pmem_base s4 + pmem_total_pages s4 * 4096"
      using limit by (simp add: word_less_nat_alt)
    then have "0 - B \<notin> free_set s'" using low [of 0] \<open>B = 0\<close> by simp
    then show False using j \<open>j = 0\<close> by simp
  qed
  then have inv: "pmem_inv s'"
    using s' s4(5) span by (simp add: pmem_inv_def count_ok_def)
  have cover: "\<exists>r\<in>set rs. unat (rg_base r) \<le> unat (page_addr s' i)
      \<and> unat (page_addr s' i) + 4096 \<le> unat (rg_base r) + unat (rg_size r)" if "i \<in> free_set s'" for i
  proof -
    have "i \<in> (\<Union>r\<in>set rs. rel_pages B r)" using that s'(2) s4(3) by blast
    then obtain r where "r \<in> set rs" "rg_lo r \<le> B + i" "B + i < rg_hi r"
      by (auto simp: rel_pages_def)
    then show ?thesis using region_covers [of r "B + i"] ok addr [OF that] by auto
  qed
  have "0x100000 \<le> page_addr s' i"
    if "i \<in> free_set s'" "0x100000 \<le> pmem_base s' + pmem_total_pages s' * 4096" for i
  proof (rule ccontr)
    assume "\<not> 0x100000 \<le> page_addr s' i"
    then have p: "B + i < 256" using addr [OF that(1)] by (simp add: word_le_nat_alt)
    have "(of_nat q * 4096 :: u64) < pmem_base s4 + pmem_total_pages s4 * 4096" if q: "q \<le> B + i" for q
    proof -
      have "unat (of_nat q * 4096 :: u64) = q * 4096"
        using q p by (simp add: unat_word_ariths unat_of_nat)
      then have "(of_nat q * 4096 :: u64) < 0x100000" using q p by (simp add: word_less_nat_alt)
      then show ?thesis
        using \<open>0x100000 \<le> pmem_base s' + pmem_total_pages s' * 4096\<close> s'(3,4) by simp
    qed
    then have "(B + i) - B \<notin> free_set s'" using p by (intro low) auto
    then show False using that(1) by simp
  qed
  then show ?thesis using inv cover by blast
qed

text \<open>A memory map with a hole: one page at 1 MB and one page at 2 MB.\<close>

definition hole_map :: "mem_region list" where
  "hole_map = [\<lparr>rg_base = 0x100000, rg_size = 0x1000\<rparr>, \<lparr>rg_base = 0x200000, rg_size = 0x1000\<rparr>]"

lemma hole_map_props: "regions_ok hole_map" "\<exists>r\<in>set hole_map. rg_lo r < rg_hi r"
  by (auto simp: regions_ok_def hole_map_def region_ok_def rg_lo_def rg_hi_def)

text \<open>C2: initialisation from a memory map of at most 32 pairwise disjoint regions below 4 PB, one of
  which holds a whole page, produces a well-formed allocator whose free pages all lie inside the
  given regions; and when the tracked range covers the first megabyte, no page below 1 MB is free.\<close>
theorem pmem_init_safe:
  assumes "regions_ok rs" "\<exists>r\<in>set rs. rg_lo r < rg_hi r"
    and "s' = brights_pmem_init (Some rs) s"
  shows "pmem_inv s'
    \<and> (\<forall>i\<in>free_set s'. \<exists>r\<in>set rs. unat (rg_base r) \<le> unat (page_addr s' i)
          \<and> unat (page_addr s' i) + 4096 \<le> unat (rg_base r) + unat (rg_size r))
    \<and> (0x100000 \<le> pmem_base s' + pmem_total_pages s' * 4096
          \<longrightarrow> (\<forall>i\<in>free_set s'. 0x100000 \<le> page_addr s' i))"
  using assms by (rule pmem_init_props)

theorem pmem_init_safe_witness:
  "regions_ok hole_map \<and> pmem_inv (brights_pmem_init (Some hole_map) pmem_full)"
  using pmem_init_safe [OF hole_map_props refl] hole_map_props by simp

lemma pmem_reserve_low_above:
  "0x100000 \<le> pmem_base s \<Longrightarrow> pmem_reserve_low n addr s = s"
proof (induction n arbitrary: addr)
  case 0
  then show ?case by simp
next
  case (Suc n)
  then show ?case by (auto dest: order.strict_trans2 [of addr "0x100000" "pmem_base s"])
qed

lemma hole_map_init:
  defines "s \<equiv> brights_pmem_init (Some hole_map) pmem_full"
  shows "pmem_inv s" "free_set s = {0, 256}" "pmem_total_pages s = 2" "pmem_free_pages s = 2"
    "pmem_base s = 0x100000"
proof -
  define s1 where "s1 = pmem_measure hole_map
    (pmem_full\<lparr>pmem_total_pages := 0, pmem_free_pages := 0, pmem_base := - 1\<rparr>)"
  have s1: "pmem_base s1 = 0x100000" "pmem_total_pages s1 = 2" "pmem_free_pages s1 = 0"
    by (simp_all add: s1_def hole_map_def align_up_page_def align_down_page_def pmem_full_def Let_def)
  define s3 where "s3 = s1\<lparr>pmem_bitmap := replicate PMEM_WORDS (- 1)\<rparr>"
  have s3: "count_ok s3" "unat (pmem_base s3) = 256 * 4096" "free_set s3 = {}"
    using s1 by (auto simp: s3_def count_ok_def free_set_full)
  have lohi: "rg_lo r = 256 \<and> rg_hi r = 257 \<or> rg_lo r = 512 \<and> rg_hi r = 513" if "r \<in> set hole_map" for r
    using that by (auto simp: hole_map_def rg_lo_def rg_hi_def)
  have ok: "\<forall>r\<in>set hole_map. region_ok r" "regions_apart hole_map"
    using hole_map_props(1) by (auto simp: regions_ok_def)
  have low: "\<forall>r\<in>set hole_map. rg_lo r < rg_hi r \<longrightarrow> 256 \<le> rg_lo r" using lohi by fastforce
  have "\<forall>r\<in>set hole_map. rel_pages 256 r \<inter> free_set s3 = {}" using s3(3) by simp
  note f' = pmem_free_regions_props [OF s3(1) ok s3(2) low this]
  have f: "count_ok (pmem_free_regions hole_map s3)"
    "free_set (pmem_free_regions hole_map s3) = (\<Union>r\<in>set hole_map. rel_pages 256 r)"
    "pmem_base (pmem_free_regions hole_map s3) = 0x100000"
    "pmem_total_pages (pmem_free_regions hole_map s3) = 2"
    using f' s3(3) s1 by (simp_all add: s3_def)
  have eq: "s = pmem_free_regions hole_map s3"
  proof -
    have "s = pmem_reserve_low 256 0 (pmem_free_regions hole_map s3)"
      unfolding s_def brights_pmem_init_def Let_def s1_def [symmetric] option.case
      using s1 by (simp add: s3_def hole_map_def PMEM_MAX_PAGES_def)
    then show ?thesis using f(3) by (simp add: pmem_reserve_low_above)
  qed
  show "pmem_inv s" using pmem_init_props [OF hole_map_props refl] by (simp add: s_def)
  show "pmem_total_pages s = 2" "pmem_base s = 0x100000" using f eq by auto
  have "rel_pages 256 \<lparr>rg_base = 0x100000, rg_size = 0x1000\<rparr> = {0}"
    "rel_pages 256 \<lparr>rg_base = 0x200000, rg_size = 0x1000\<rparr> = {256}"
    by (auto simp: rel_pages_def rg_lo_def rg_hi_def PMEM_MAX_PAGES_def)
  then have "(\<Union>r\<in>set hole_map. rel_pages 256 r) = {0, 256}" by (auto simp: hole_map_def)
  then show fs: "free_set s = {0, 256}" using f(2) eq by simp
  have "unat (pmem_free_pages s) = 2" using f(1) fs eq by (simp add: count_ok_def)
  then show "pmem_free_pages s = 2" by (simp add: word_unat_eq_iff)
qed

text \<open>\<open>pmem_total_pages\<close> counts usable pages but bounds page indices, so with a hole in the
  memory map pages past the hole are counted free and never handed out one by one: after
  booting on a map with one page at 1 MB and one at 2 MB and taking the first, the allocator
  reports one free page and every further single-page request fails.\<close>
theorem pmem_hole_unreachable:
  "let s1 = fst (brights_pmem_alloc_page (brights_pmem_init (Some hole_map) pmem_full)) in
     pmem_inv s1 \<and> brights_pmem_free_pages_count s1 = 1 \<and> brights_pmem_alloc_page s1 = (s1, 0)"
proof -
  define s where "s = brights_pmem_init (Some hole_map) pmem_full"
  note h = hole_map_init [folded s_def]
  define s1 where "s1 = fst (brights_pmem_alloc_page s)"
  have "spec_alloc_page (free_set s) (unat (pmem_total_pages s)) = Some 0"
    using h by (simp add: spec_alloc_page_def)
  then have s1: "s1 = (bitmap_set 0 s)\<lparr>pmem_free_pages := pmem_free_pages s - 1\<rparr>"
    using alloc_page_refines [OF h(1)] by (simp add: s1_def)
  have z: "0 \<in> free_set s" using h(2) by simp
  have inv: "pmem_inv s1" and fs: "free_set s1 = {256}"
    using take_page_inv [OF h(1) z] h(2) s1 by auto
  have "spec_alloc_page (free_set s1) (unat (pmem_total_pages s1)) = None"
    using fs s1 h(3) by (simp add: spec_alloc_page_def)
  then have "brights_pmem_alloc_page s1 = (s1, 0)" using alloc_page_refines [OF inv] by simp
  moreover have "brights_pmem_free_pages_count s1 = 1"
    using s1 h(4) by (simp add: brights_pmem_free_pages_count_def)
  ultimately show ?thesis using inv by (simp add: Let_def s_def s1_def)
qed

end
