(* ===== verification/Kmem.thy ===== *)
theory Kmem
  imports Kernel_Prelude
begin

text \<open>
  The memory primitives of the kernel: \<open>memcpy\<close>, \<open>memset\<close> and \<open>memcmp\<close> of \<open>kernel/runtime.c\<close>, which
  the compiler calls, and their inline counterparts of \<open>kernel/kernel_util.h\<close>.

  Memory is a function from byte addresses to bytes. An assignment through a cast pointer, such as
  \<open>*(uint64_t *)d = *(const uint64_t *)s\<close>, reads all its bytes before it writes any of them; that is
  \<open>move_bytes\<close>. A store of a 64-bit value is \<open>store64\<close> (little endian). Addresses are natural
  numbers: the ranges the code walks do not wrap around the address space.

  Each routine is compared with the one-line specification \<open>move_bytes n\<close>, \<open>fill_bytes n\<close> or the
  first difference of two ranges.
\<close>

type_synonym mem = "nat \<Rightarrow> u8"

definition move_bytes :: "nat \<Rightarrow> nat \<Rightarrow> nat \<Rightarrow> mem \<Rightarrow> mem" where
  "move_bytes k d s m = (\<lambda>a. if d \<le> a \<and> a < d + k then m (s + (a - d)) else m a)"

definition fill_bytes :: "nat \<Rightarrow> nat \<Rightarrow> u8 \<Rightarrow> mem \<Rightarrow> mem" where
  "fill_bytes k d b m = (\<lambda>a. if d \<le> a \<and> a < d + k then b else m a)"

definition store64 :: "nat \<Rightarrow> u64 \<Rightarrow> mem \<Rightarrow> mem" where
  "store64 d w m = (\<lambda>a. if d \<le> a \<and> a < d + 8 then ucast (drop_bit (8 * (a - d)) w) else m a)"

definition disjoint_ranges :: "nat \<Rightarrow> nat \<Rightarrow> nat \<Rightarrow> bool" where
  "disjoint_ranges d s n \<longleftrightarrow> d + n \<le> s \<or> s + n \<le> d"

subsection \<open>Counted loops\<close>

text \<open>\<open>cnt\<close> moves of \<open>k\<close> bytes at increasing addresses, and \<open>cnt\<close> stores of a 64-bit pattern.\<close>

fun copy_loop :: "nat \<Rightarrow> nat \<Rightarrow> nat \<Rightarrow> nat \<Rightarrow> mem \<Rightarrow> mem" where
  "copy_loop k 0 d s m = m"
| "copy_loop k (Suc cnt) d s m = copy_loop k cnt (d + k) (s + k) (move_bytes k d s m)"

fun copy_down :: "nat \<Rightarrow> nat \<Rightarrow> nat \<Rightarrow> mem \<Rightarrow> mem" where
  "copy_down 0 d s m = m"
| "copy_down (Suc i) d s m = copy_down i d s (m(d + i := m (s + i)))"

fun set_loop :: "nat \<Rightarrow> nat \<Rightarrow> u8 \<Rightarrow> mem \<Rightarrow> mem" where
  "set_loop 0 d b m = m"
| "set_loop (Suc cnt) d b m = set_loop cnt (d + 1) b (m(d := b))"

fun set_qwords :: "nat \<Rightarrow> nat \<Rightarrow> u64 \<Rightarrow> mem \<Rightarrow> mem" where
  "set_qwords 0 d pattern m = m"
| "set_qwords (Suc cnt) d pattern m = set_qwords cnt (d + 8) pattern (store64 d pattern m)"

subsection \<open>The inline routines of kernel/kernel_util.h\<close>

definition kutil_memcpy :: "nat \<Rightarrow> nat \<Rightarrow> nat \<Rightarrow> mem \<Rightarrow> mem" where
  "kutil_memcpy dst src n m =
     (let qwords = n div 8;
          m1 = copy_loop 8 qwords dst src m;
          remain = n mod 8
      in copy_loop 1 remain (dst + qwords * 8) (src + qwords * 8) m1)"

definition kutil_memset :: "nat \<Rightarrow> u8 \<Rightarrow> nat \<Rightarrow> mem \<Rightarrow> mem" where
  "kutil_memset s b n m =
     (let qwords = n div 8;
          pattern = ucast b * 0x0101010101010101;
          m1 = set_qwords qwords s pattern m;
          remain = n mod 8
      in set_loop remain (s + qwords * 8) b m1)"

definition kutil_memmove :: "nat \<Rightarrow> nat \<Rightarrow> nat \<Rightarrow> mem \<Rightarrow> mem" where
  "kutil_memmove dst src n m =
     (if dst < src then copy_loop 1 n dst src m
      else if dst > src then copy_down n dst src m
      else m)"

text \<open>The byte-wise comparison loop; it is also the tail of \<open>memcmp\<close>.\<close>

fun kutil_memcmp :: "nat \<Rightarrow> nat \<Rightarrow> nat \<Rightarrow> mem \<Rightarrow> int" where
  "kutil_memcmp a b 0 m = 0"
| "kutil_memcmp a b (Suc n) m =
     (if m a \<noteq> m b then uint (m a) - uint (m b) else kutil_memcmp (a + 1) (b + 1) n m)"

subsection \<open>kernel/runtime.c\<close>

text \<open>The unrolled loops: 64 bytes per turn in eight moves, then 16 bytes per turn in two.\<close>

function memcpy_64 :: "nat \<Rightarrow> nat \<Rightarrow> nat \<Rightarrow> mem \<Rightarrow> nat \<times> nat \<times> nat \<times> mem" where
  "memcpy_64 d s n m =
     (if n \<ge> 64 then memcpy_64 (d + 64) (s + 64) (n - 64) (copy_loop 8 8 d s m)
      else (d, s, n, m))"
  by pat_completeness auto
termination by (relation "measure (\<lambda>(d, s, n, m). n)") auto

function memcpy_16 :: "nat \<Rightarrow> nat \<Rightarrow> nat \<Rightarrow> mem \<Rightarrow> nat \<times> nat \<times> nat \<times> mem" where
  "memcpy_16 d s n m =
     (if n \<ge> 16 then memcpy_16 (d + 16) (s + 16) (n - 16) (copy_loop 8 2 d s m)
      else (d, s, n, m))"
  by pat_completeness auto
termination by (relation "measure (\<lambda>(d, s, n, m). n)") auto

declare memcpy_64.simps [simp del] memcpy_16.simps [simp del]

definition memcpy_small :: "nat \<Rightarrow> nat \<Rightarrow> nat \<Rightarrow> mem \<Rightarrow> mem" where
  "memcpy_small d s n m =
     (if n \<ge> 8 then move_bytes 8 (d + n - 8) (s + n - 8) (move_bytes 8 d s m)
      else if n \<ge> 4 then move_bytes 4 (d + n - 4) (s + n - 4) (move_bytes 4 d s m)
      else if n \<ge> 2 then
        (let m1 = move_bytes 2 d s m in
         if n > 2 then m1(d + n - 1 := m1 (s + n - 1)) else m1)
      else if n = 1 then m(d := m s)
      else m)"

definition memcpy_tail :: "nat \<Rightarrow> nat \<Rightarrow> nat \<Rightarrow> mem \<Rightarrow> mem" where
  "memcpy_tail d s n m =
     (if n \<ge> 8 then move_bytes 8 (d + n - 8) (s + n - 8) (move_bytes 8 d s m)
      else if n > 0 then
        (let m1 = m(d := m s) in
         if n \<ge> 4 then move_bytes 4 (d + n - 4) (s + n - 4) m1
         else m1(d + n - 1 := m1 (s + n - 1)))
      else m)"

definition memcpy_unalign :: "nat \<Rightarrow> nat" where
  "memcpy_unalign d = (8 - d mod 8) mod 8"

definition memcpy :: "nat \<Rightarrow> nat \<Rightarrow> nat \<Rightarrow> mem \<Rightarrow> mem" where
  "memcpy dst src n m =
     (if n \<le> 16 then memcpy_small dst src n m
      else if n \<ge> 256 then copy_loop 1 n dst src m
      else
        (let unalign = memcpy_unalign dst;
             m1 = (if unalign > 0 then move_bytes 8 dst src m else m);
             (d2, s2, n2, m2) = memcpy_64 (dst + unalign) (src + unalign) (n - unalign) m1;
             (d3, s3, n3, m3) = memcpy_16 d2 s2 n2 m2
         in memcpy_tail d3 s3 n3 m3))"

definition memset_pattern :: "u8 \<Rightarrow> u64" where
  "memset_pattern byte =
     (let p0 = ucast byte;
          p1 = p0 OR push_bit 8 p0;
          p2 = p1 OR push_bit 16 p1
      in p2 OR push_bit 32 p2)"

function memset_64 :: "nat \<Rightarrow> nat \<Rightarrow> u64 \<Rightarrow> mem \<Rightarrow> nat \<times> nat \<times> mem" where
  "memset_64 d n pattern m =
     (if n \<ge> 64 then memset_64 (d + 64) (n - 64) pattern (set_qwords 8 d pattern m)
      else (d, n, m))"
  by pat_completeness auto
termination by (relation "measure (\<lambda>(d, n, pattern, m). n)") auto

function memset_16 :: "nat \<Rightarrow> nat \<Rightarrow> u64 \<Rightarrow> mem \<Rightarrow> nat \<times> nat \<times> mem" where
  "memset_16 d n pattern m =
     (if n \<ge> 16 then memset_16 (d + 16) (n - 16) pattern (set_qwords 2 d pattern m)
      else (d, n, m))"
  by pat_completeness auto
termination by (relation "measure (\<lambda>(d, n, pattern, m). n)") auto

declare memset_64.simps [simp del] memset_16.simps [simp del]

definition memset :: "nat \<Rightarrow> u8 \<Rightarrow> nat \<Rightarrow> mem \<Rightarrow> mem" where
  "memset dst byte n m =
     (if n < 8 then set_loop n dst byte m
      else
        (let pattern = memset_pattern byte;
             unalign = memcpy_unalign dst;
             m1 = (if unalign > 0 then store64 dst pattern m else m);
             (d2, n2, m2) = memset_64 (dst + unalign) (n - unalign) pattern m1;
             (d3, n3, m3) = memset_16 d2 n2 pattern m2;
             (d4, n4, m4) = (if n3 \<ge> 8 then (d3 + 8, n3 - 8, store64 d3 pattern m3)
                             else (d3, n3, m3))
         in set_loop n4 d4 byte m4))"

definition load64_eq :: "nat \<Rightarrow> nat \<Rightarrow> mem \<Rightarrow> bool" where
  "load64_eq a b m \<longleftrightarrow> (\<forall>i\<in>{0..<8}. m (a + i) = m (b + i))"

function memcmp :: "nat \<Rightarrow> nat \<Rightarrow> nat \<Rightarrow> mem \<Rightarrow> int" where
  "memcmp a b n m =
     (if n \<ge> 8 then
        (if \<not> load64_eq a b m then
           (let r = kutil_memcmp a b 8 m in
            if r \<noteq> 0 then r else memcmp (a + 8) (b + 8) (n - 8) m)
         else memcmp (a + 8) (b + 8) (n - 8) m)
      else kutil_memcmp a b n m)"
  by pat_completeness auto
termination by (relation "measure (\<lambda>(a, b, n, m). n)") auto

declare memcmp.simps [simp del]

subsection \<open>Partial copies\<close>

text \<open>
  The state in the middle of a copy: the offsets in \<open>S\<close> have been copied. While source and
  destination are disjoint, one more move only enlarges \<open>S\<close>, so every routine below is reduced to
  computing a set of offsets.
\<close>

definition copied :: "nat set \<Rightarrow> nat \<Rightarrow> nat \<Rightarrow> mem \<Rightarrow> mem" where
  "copied S d s m = (\<lambda>a. if d \<le> a \<and> a - d \<in> S then m (s + (a - d)) else m a)"

lemma copied_empty [simp]: "copied {} d s m = m"
  by (simp add: copied_def)

lemma move_bytes_copied: "move_bytes n d s m = copied {..<n} d s m"
  by (rule ext) (auto simp: move_bytes_def copied_def)

lemma move_bytes_step:
  assumes "disjoint_ranges d s n" "S \<subseteq> {..<n}" "j + k \<le> n"
  shows "move_bytes k (d + j) (s + j) (copied S d s m) = copied (S \<union> {j..<j + k}) d s m"
proof
  fix a
  consider "a < d + j" | "d + j \<le> a" "a < d + j + k" | "d + j + k \<le> a" by linarith
  then show "move_bytes k (d + j) (s + j) (copied S d s m) a = copied (S \<union> {j..<j + k}) d s m a"
  proof cases
    case 2
    then have "s + j + (a - (d + j)) = s + (a - d)" by simp
    moreover have "copied S d s m (s + (a - d)) = m (s + (a - d))"
      using assms 2 by (auto simp: copied_def disjoint_ranges_def subset_iff)
    ultimately show ?thesis using 2 by (auto simp: move_bytes_def copied_def)
  qed (use assms in \<open>auto simp: move_bytes_def copied_def\<close>)
qed

lemma store_byte_step:
  assumes "disjoint_ranges d s n" "S \<subseteq> {..<n}" "j < n"
  shows "(copied S d s m)(d + j := copied S d s m (s + j)) = copied (insert j S) d s m"
proof -
  have "(copied S d s m)(d + j := copied S d s m (s + j))
      = move_bytes 1 (d + j) (s + j) (copied S d s m)"
    by (rule ext) (auto simp: move_bytes_def)
  also have "\<dots> = copied (S \<union> {j..<j + 1}) d s m"
    using assms by (intro move_bytes_step) auto
  finally show ?thesis by simp
qed

lemma copy_loop_step:
  assumes "disjoint_ranges d s n" "S \<subseteq> {..<n}" "j + k * c \<le> n"
  shows "copy_loop k c (d + j) (s + j) (copied S d s m) = copied (S \<union> {j..<j + k * c}) d s m"
  using assms(2,3)
proof (induction c arbitrary: j S)
  case (Suc c)
  have "copy_loop k (Suc c) (d + j) (s + j) (copied S d s m)
      = copy_loop k c (d + (j + k)) (s + (j + k)) (copied (S \<union> {j..<j + k}) d s m)"
    using Suc.prems assms(1) by (simp add: move_bytes_step add.assoc)
  also have "\<dots> = copied (S \<union> {j..<j + k} \<union> {j + k..<j + k + k * c}) d s m"
    using Suc.prems by (intro Suc.IH) auto
  also have "S \<union> {j..<j + k} \<union> {j + k..<j + k + k * c} = S \<union> {j..<j + k * Suc c}"
    by (auto simp: ivl_disj_un)
  finally show ?case .
qed simp

lemma memcpy_64_step:
  assumes "disjoint_ranges d s n" "S \<subseteq> {..<n}" "j + r \<le> n"
  shows "memcpy_64 (d + j) (s + j) r (copied S d s m)
    = (d + (j + 64 * (r div 64)), s + (j + 64 * (r div 64)), r mod 64,
       copied (S \<union> {j..<j + 64 * (r div 64)}) d s m)"
  using assms(2,3)
proof (induction r arbitrary: j S rule: less_induct)
  case (less r)
  show ?case
  proof (cases "64 \<le> r")
    case True
    have "memcpy_64 (d + j) (s + j) r (copied S d s m)
        = memcpy_64 (d + (j + 64)) (s + (j + 64)) (r - 64) (copied (S \<union> {j..<j + 64}) d s m)"
      using True less.prems copy_loop_step [OF assms(1), where k = 8 and c = 8 and j = j and S = S]
      by (subst memcpy_64.simps) (simp add: add.assoc)
    also have "\<dots> = (d + (j + 64 + 64 * ((r - 64) div 64)), s + (j + 64 + 64 * ((r - 64) div 64)),
        (r - 64) mod 64, copied (S \<union> {j..<j + 64} \<union> {j + 64..<j + 64 + 64 * ((r - 64) div 64)}) d s m)"
      using True less.prems by (intro less.IH) auto
    also have "S \<union> {j..<j + 64} \<union> {j + 64..<j + 64 + 64 * ((r - 64) div 64)}
        = S \<union> {j..<j + 64 * (r div 64)}"
      using True by (auto simp: le_div_geq)
    finally show ?thesis using True by (simp add: le_div_geq le_mod_geq)
  qed (simp add: memcpy_64.simps)
qed

lemma memcpy_16_step:
  assumes "disjoint_ranges d s n" "S \<subseteq> {..<n}" "j + r \<le> n"
  shows "memcpy_16 (d + j) (s + j) r (copied S d s m)
    = (d + (j + 16 * (r div 16)), s + (j + 16 * (r div 16)), r mod 16,
       copied (S \<union> {j..<j + 16 * (r div 16)}) d s m)"
  using assms(2,3)
proof (induction r arbitrary: j S rule: less_induct)
  case (less r)
  show ?case
  proof (cases "16 \<le> r")
    case True
    have "memcpy_16 (d + j) (s + j) r (copied S d s m)
        = memcpy_16 (d + (j + 16)) (s + (j + 16)) (r - 16) (copied (S \<union> {j..<j + 16}) d s m)"
      using True less.prems copy_loop_step [OF assms(1), where k = 8 and c = 2 and j = j and S = S]
      by (subst memcpy_16.simps) (simp add: add.assoc)
    also have "\<dots> = (d + (j + 16 + 16 * ((r - 16) div 16)), s + (j + 16 + 16 * ((r - 16) div 16)),
        (r - 16) mod 16, copied (S \<union> {j..<j + 16} \<union> {j + 16..<j + 16 + 16 * ((r - 16) div 16)}) d s m)"
      using True less.prems by (intro less.IH) auto
    also have "S \<union> {j..<j + 16} \<union> {j + 16..<j + 16 + 16 * ((r - 16) div 16)}
        = S \<union> {j..<j + 16 * (r div 16)}"
      using True by (auto simp: le_div_geq)
    finally show ?thesis using True by (simp add: le_div_geq le_mod_geq)
  qed (simp add: memcpy_16.simps)
qed

text \<open>The offsets the final branch of \<open>memcpy\<close> leaves out when \<open>t\<close> bytes remain at offset \<open>j\<close>.\<close>

definition tail_gap :: "nat \<Rightarrow> nat \<Rightarrow> nat set" where
  "tail_gap j t = (if t = 3 \<or> t = 6 then {j + 1} else if t = 7 then {j + 1, j + 2} else {})"

definition memcpy_gap :: "nat \<Rightarrow> nat \<Rightarrow> nat set" where
  "memcpy_gap d n =
     (if n \<le> 16 \<or> 256 \<le> n then {}
      else (let t = (n - memcpy_unalign d) mod 16 in tail_gap (n - t) t))"

lemma memcpy_tail_step:
  assumes "disjoint_ranges d s n" "S \<subseteq> {..<n}" "j + t = n"
  shows "memcpy_tail (d + j) (s + j) t (copied S d s m)
    = copied (S \<union> ({j..<j + t} - (if t \<ge> 16 then {j + 8..<j + t - 8} else tail_gap j t))) d s m"
proof -
  note step = move_bytes_step [OF assms(1)] and byte = store_byte_step [OF assms(1)]
  consider "8 \<le> t" | "4 \<le> t" "t < 8" | "0 < t" "t < 4" | "t = 0" by linarith
  then show ?thesis
  proof cases
    case 1
    have "memcpy_tail (d + j) (s + j) t (copied S d s m)
        = move_bytes 8 (d + (j + t - 8)) (s + (j + t - 8)) (copied (S \<union> {j..<j + 8}) d s m)"
      using 1 assms by (simp add: memcpy_tail_def step add.assoc)
    also have "\<dots> = copied (S \<union> {j..<j + 8} \<union> {j + t - 8..<j + t - 8 + 8}) d s m"
      using 1 assms by (intro step) auto
    also have "S \<union> {j..<j + 8} \<union> {j + t - 8..<j + t - 8 + 8}
        = S \<union> ({j..<j + t} - (if t \<ge> 16 then {j + 8..<j + t - 8} else tail_gap j t))"
      using 1 by (auto simp: tail_gap_def)
    finally show ?thesis .
  next
    case 2
    have "memcpy_tail (d + j) (s + j) t (copied S d s m)
        = move_bytes 4 (d + (j + t - 4)) (s + (j + t - 4)) (copied (insert j S) d s m)"
      using 2 assms by (simp add: memcpy_tail_def byte add.assoc Let_def)
    also have "\<dots> = copied (insert j S \<union> {j + t - 4..<j + t - 4 + 4}) d s m"
      using 2 assms by (intro step) auto
    also have "insert j S \<union> {j + t - 4..<j + t - 4 + 4}
        = S \<union> ({j..<j + t} - (if t \<ge> 16 then {j + 8..<j + t - 8} else tail_gap j t))"
    proof -
      have "t = 4 \<or> t = 5 \<or> t = 6 \<or> t = 7" using 2 by linarith
      then show ?thesis by (auto simp: tail_gap_def)
    qed
    finally show ?thesis .
  next
    case 3
    have "memcpy_tail (d + j) (s + j) t (copied S d s m)
        = (copied (insert j S) d s m)(d + (j + t - 1) := copied (insert j S) d s m (s + (j + t - 1)))"
      using 3 assms by (simp add: memcpy_tail_def byte add.assoc Let_def)
    also have "\<dots> = copied (insert (j + t - 1) (insert j S)) d s m"
      using 3 assms by (intro byte) auto
    also have "insert (j + t - 1) (insert j S)
        = S \<union> ({j..<j + t} - (if t \<ge> 16 then {j + 8..<j + t - 8} else tail_gap j t))"
    proof -
      have "t = 1 \<or> t = 2 \<or> t = 3" using 3 by linarith
      then show ?thesis by (auto simp: tail_gap_def)
    qed
    finally show ?thesis .
  qed (simp add: memcpy_tail_def)
qed

lemma memcpy_small_copied:
  assumes "disjoint_ranges d s n" "n \<le> 16"
  shows "memcpy_small d s n m = copied {..<n} d s m"
proof -
  note step = move_bytes_step [OF assms(1)] and byte = store_byte_step [OF assms(1)]
  consider "8 \<le> n" | "4 \<le> n" "n < 8" | "n = 3" | "n = 2" | "n = 1" | "n = 0" by linarith
  then show ?thesis
  proof cases
    case 1
    have "memcpy_small d s n m
        = move_bytes 8 (d + (n - 8)) (s + (n - 8)) (copied {..<8} d s m)"
      using 1 by (simp add: memcpy_small_def move_bytes_copied)
    also have "\<dots> = copied ({..<8} \<union> {n - 8..<n - 8 + 8}) d s m"
      using 1 by (intro step) auto
    also have "{..<8} \<union> {n - 8..<n - 8 + 8} = {..<n}" using 1 assms(2) by auto
    finally show ?thesis .
  next
    case 2
    have "memcpy_small d s n m
        = move_bytes 4 (d + (n - 4)) (s + (n - 4)) (copied {..<4} d s m)"
      using 2 by (simp add: memcpy_small_def move_bytes_copied)
    also have "\<dots> = copied ({..<4} \<union> {n - 4..<n - 4 + 4}) d s m"
      using 2 by (intro step) auto
    also have "{..<4} \<union> {n - 4..<n - 4 + 4} = {..<n}" using 2 by auto
    finally show ?thesis .
  next
    case 3
    have "memcpy_small d s n m
        = (copied {..<2} d s m)(d + 2 := copied {..<2} d s m (s + 2))"
      using 3 by (simp add: memcpy_small_def move_bytes_copied numeral_2_eq_2 numeral_3_eq_3 Let_def)
    also have "\<dots> = copied (insert 2 {..<2}) d s m"
      using 3 by (intro byte) auto
    also have "insert 2 {..<2} = {..<n}" using 3 by auto
    finally show ?thesis .
  next
    case 5
    then show ?thesis by (auto simp: memcpy_small_def copied_def)
  qed (simp_all add: memcpy_small_def move_bytes_copied)
qed

lemma copy_loop_copied:
  assumes "disjoint_ranges d s n" "k * c \<le> n"
  shows "copy_loop k c d s m = copied {..<k * c} d s m"
  using copy_loop_step [OF assms(1), of "{}" 0 k c m] assms(2) by (simp add: lessThan_atLeast0)

lemma cover_split:
  fixes S0 G :: "nat set"
  assumes "S0 \<inter> G = {}" "G \<inter> {..<k} = {}" "S0 \<subseteq> {..<n}" "{..<u} \<subseteq> S0" "k \<le> n"
  shows "S0 \<union> ({u..<k} \<union> ({k..<n} - G)) = {..<n} - G"
proof (rule set_eqI)
  fix x
  have "x < u \<Longrightarrow> x \<in> S0" "x \<in> S0 \<Longrightarrow> x \<notin> G" "x < k \<Longrightarrow> x \<notin> G" "x \<in> S0 \<Longrightarrow> x < n"
    using assms by auto
  then show "x \<in> S0 \<union> ({u..<k} \<union> ({k..<n} - G)) \<longleftrightarrow> x \<in> {..<n} - G"
    using assms(5) by (cases "x < u"; cases "x < k") auto
qed

lemma memcpy_large_set:
  assumes "16 < n" "u < 8" "r = n - u" "t = r mod 16"
    "S0 = (if 0 < u then {..<8} else {})"
  shows "S0 \<union> {u..<u + 64 * (r div 64)}
      \<union> {u + 64 * (r div 64)..<u + 64 * (r div 64) + 16 * (r mod 64 div 16)}
      \<union> ({n - t..<n - t + t} - tail_gap (n - t) t) = {..<n} - tail_gap (n - t) t"
proof -
  have r: "64 * (r div 64) + 16 * (r mod 64 div 16) + t = r"
  proof -
    have "r mod 64 mod 16 = t" using assms(4) by (simp add: mod_mod_cancel)
    then show ?thesis
      by (metis add.assoc mult.commute mult_div_mod_eq)
  qed
  have t: "t < 16" using assms(4) by simp
  have gap: "tail_gap (n - t) t \<inter> {..<n - t} = {}" by (auto simp: tail_gap_def)
  have disj: "S0 \<inter> tail_gap (n - t) t = {}"
  proof (cases "t < 8")
    case True
    have "16 \<le> r"
    proof (rule ccontr)
      assume "\<not> 16 \<le> r"
      then have "t = r" using assms(4) by simp
      then show False using True assms(1-3) by linarith
    qed
    then have "8 \<le> n - t" using assms(1-3) t True by linarith
    then show ?thesis using assms(5) by (auto simp: tail_gap_def split: if_splits)
  qed (simp add: tail_gap_def)
  have sub: "S0 \<subseteq> {..<n}" "{..<u} \<subseteq> S0" using assms(1,2,5) by auto
  have nt: "n - t + t = n" using r assms(1,3) by linarith
  have "S0 \<union> ({u..<n - t} \<union> ({n - t..<n} - tail_gap (n - t) t)) = {..<n} - tail_gap (n - t) t"
    using disj gap sub by (rule cover_split) simp
  moreover have "{u..<u + 64 * (r div 64)}
      \<union> {u + 64 * (r div 64)..<u + 64 * (r div 64) + 16 * (r mod 64 div 16)} = {u..<n - t}"
  proof -
    have "u + 64 * (r div 64) + 16 * (r mod 64 div 16) = n - t" using r assms(1-3) by linarith
    then show ?thesis by (simp add: ivl_disj_un_two(3))
  qed
  ultimately show ?thesis
    unfolding nt by (metis Un_assoc)
qed

lemma memcpy_copied:
  assumes "disjoint_ranges d s n"
  shows "memcpy d s n m = copied ({..<n} - memcpy_gap d n) d s m"
proof -
  consider "n \<le> 16" | "256 \<le> n" | "16 < n" "n < 256" by linarith
  then show ?thesis
  proof cases
    case 1
    then show ?thesis using assms by (simp add: memcpy_def memcpy_gap_def memcpy_small_copied)
  next
    case 2
    then show ?thesis using copy_loop_copied [OF assms, of 1 n] by (simp add: memcpy_def memcpy_gap_def)
  next
    case 3
    define u r where "u = memcpy_unalign d" and "r = n - u"
    define t S0 where "t = r mod 16" and "S0 = (if 0 < u then {..<8} else {} :: nat set)"
    have u: "u < 8" by (simp add: u_def memcpy_unalign_def)
    have S0: "S0 \<subseteq> {..<n}" using 3 by (auto simp: S0_def)
    have start: "(if u > 0 then move_bytes 8 d s m else m) = copied S0 d s m"
      by (simp add: S0_def move_bytes_copied)
    define j2 where "j2 = u + 64 * (r div 64)"
    have mm: "r mod 64 mod 16 = t" by (simp add: t_def mod_mod_cancel)
    have j2: "j2 + r mod 64 = n" using u 3 by (simp add: j2_def r_def)
    define j3 where "j3 = j2 + 16 * (r mod 64 div 16)"
    have j3: "j3 + t = n" using j2 mm by (metis add.assoc j3_def mult_div_mod_eq)
    have s64: "memcpy_64 (d + u) (s + u) r (copied S0 d s m)
        = (d + j2, s + j2, r mod 64, copied (S0 \<union> {u..<j2}) d s m)"
      using memcpy_64_step [OF assms S0, of u r m] 3 u by (simp add: j2_def r_def)
    have "S0 \<union> {u..<j2} \<subseteq> {..<n}" using S0 j2 by auto
    then have s16: "memcpy_16 (d + j2) (s + j2) (r mod 64) (copied (S0 \<union> {u..<j2}) d s m)
        = (d + j3, s + j3, t, copied (S0 \<union> {u..<j2} \<union> {j2..<j3}) d s m)"
      using memcpy_16_step [OF assms, of "S0 \<union> {u..<j2}" j2 "r mod 64" m] j2 mm by (simp add: j3_def)
    have "memcpy d s n m = memcpy_tail (d + j3) (s + j3) t
        (copied (S0 \<union> {u..<j2} \<union> {j2..<j3}) d s m)"
      using 3 unfolding memcpy_def u_def [symmetric] Let_def start
      by (simp add: r_def [symmetric] s64 s16)
    also have "\<dots> = copied (S0 \<union> {u..<j2} \<union> {j2..<j3} \<union> ({j3..<j3 + t} - tail_gap j3 t)) d s m"
    proof (subst memcpy_tail_step [OF assms])
      show "S0 \<union> {u..<j2} \<union> {j2..<j3} \<subseteq> {..<n}" using S0 j2 j3 by auto
    qed (use j3 t_def in auto)
    also have "S0 \<union> {u..<j2} \<union> {j2..<j3} \<union> ({j3..<j3 + t} - tail_gap j3 t)
        = {..<n} - memcpy_gap d n"
    proof -
      have "j3 = n - t" using j3 by simp
      then show ?thesis
        using memcpy_large_set [of n u r t S0] 3 u j3
        by (simp add: r_def t_def S0_def j2_def j3_def memcpy_gap_def u_def Let_def)
    qed
    finally show ?thesis .
  qed
qed

lemma kutil_memcpy_copied:
  assumes "disjoint_ranges d s n"
  shows "kutil_memcpy d s n m = copied {..<n} d s m"
proof -
  have q: "8 * (n div 8) + n mod 8 = n" by simp
  have "kutil_memcpy d s n m = copy_loop 1 (n mod 8) (d + 8 * (n div 8)) (s + 8 * (n div 8))
      (copied {..<8 * (n div 8)} d s m)"
    using copy_loop_copied [OF assms, of 8 "n div 8"]
    by (simp add: kutil_memcpy_def Let_def mult.commute)
  also have "\<dots> = copied ({..<8 * (n div 8)} \<union> {8 * (n div 8)..<8 * (n div 8) + 1 * (n mod 8)}) d s m"
    using q by (intro copy_loop_step [OF assms]) auto
  also have "{..<8 * (n div 8)} \<union> {8 * (n div 8)..<8 * (n div 8) + 1 * (n mod 8)} = {..<n}"
    using q by (simp add: lessThan_atLeast0 ivl_disj_un_two(3))
  finally show ?thesis .
qed

subsection \<open>Overlapping moves\<close>

lemma copy_loop_up:
  assumes "d \<le> s"
  shows "copy_loop 1 n d s m = move_bytes n d s m"
  using assms
proof (induction n arbitrary: d s m)
  case (Suc n)
  then have "copy_loop 1 (Suc n) d s m = move_bytes n (d + 1) (s + 1) (move_bytes 1 d s m)"
    by simp
  also have "\<dots> = move_bytes (Suc n) d s m"
  proof
    fix a
    have "a \<noteq> d \<Longrightarrow> d \<le> a \<Longrightarrow> s + 1 + (a - (d + 1)) = s + (a - d)" by simp
    then show "move_bytes n (d + 1) (s + 1) (move_bytes 1 d s m) a = move_bytes (Suc n) d s m a"
      using Suc.prems by (cases "a = d") (auto simp: move_bytes_def)
  qed
  finally show ?case .
qed (simp add: move_bytes_copied)

lemma copy_down_move:
  assumes "s \<le> d"
  shows "copy_down n d s m = move_bytes n d s m"
  using assms
proof (induction n arbitrary: m)
  case (Suc n)
  then have "copy_down (Suc n) d s m = move_bytes n d s (m(d + n := m (s + n)))"
    by simp
  also have "\<dots> = move_bytes (Suc n) d s m"
    using Suc.prems by (intro ext) (auto simp: move_bytes_def less_Suc_eq)
  finally show ?case .
qed (simp add: move_bytes_copied)

subsection \<open>Filling\<close>

lemma fill_bytes_0 [simp]: "fill_bytes 0 d b m = m"
  by (rule ext) (auto simp: fill_bytes_def)

lemma fill_bytes_append:
  "e = d + j \<Longrightarrow> fill_bytes i e b (fill_bytes j d b m) = fill_bytes (j + i) d b m"
  by (rule ext) (auto simp: fill_bytes_def)

lemma fill_bytes_cover:
  "u \<le> k \<Longrightarrow> k \<le> u + i \<Longrightarrow> fill_bytes i (d + u) b (fill_bytes k d b m) = fill_bytes (u + i) d b m"
  by (rule ext) (auto simp: fill_bytes_def)

lemma set_loop_fill: "set_loop n d b m = fill_bytes n d b m"
proof (induction n arbitrary: d m)
  case (Suc n)
  have "m(d := b) = fill_bytes 1 d b m" by (rule ext) (auto simp: fill_bytes_def)
  then show ?case by (simp add: Suc fill_bytes_append)
qed simp

definition uniform :: "u64 \<Rightarrow> u8 \<Rightarrow> bool" where
  "uniform p b \<longleftrightarrow> (\<forall>i<8. (ucast (drop_bit (8 * i) p) :: u8) = b)"

lemma all_less_8: "(\<forall>i<(8::nat). P i) \<longleftrightarrow> P 0 \<and> P 1 \<and> P 2 \<and> P 3 \<and> P 4 \<and> P 5 \<and> P 6 \<and> P 7"
proof
  assume h: "P 0 \<and> P 1 \<and> P 2 \<and> P 3 \<and> P 4 \<and> P 5 \<and> P 6 \<and> P 7"
  have "i = 0 \<or> i = 1 \<or> i = 2 \<or> i = 3 \<or> i = 4 \<or> i = 5 \<or> i = 6 \<or> i = 7" if "i < 8" for i :: nat
    using that by linarith
  then show "\<forall>i<8. P i" using h by metis
qed simp

lemma uniform_iff: "uniform p b \<longleftrightarrow> (\<forall>i<8. \<forall>j<8. bit p (8 * i + j) = bit b j)"
proof -
  have "(ucast (drop_bit (8 * i) p) :: u8) = b \<longleftrightarrow> (\<forall>j<8. bit p (8 * i + j) = bit b j)" if "i < 8" for i
    using that by (auto simp: bit_eq_iff bit_ucast_iff bit_drop_bit_eq)
  then show ?thesis by (simp add: uniform_def)
qed

lemma uniform_memset_pattern: "uniform (memset_pattern b) b"
proof -
  have b: "\<not> bit b j" if "8 \<le> j" for j using that bit_imp_le_length [of b j] by auto
  show ?thesis
    unfolding uniform_iff all_less_8
    by (auto simp: memset_pattern_def Let_def bit_or_iff bit_push_bit_iff bit_ucast_iff b
        simp flip: numeral_2_eq_2)
qed

lemma or_push_bit_mult:
  fixes p :: u64
  assumes "p AND push_bit n p = 0"
  shows "p OR push_bit n p = p * (1 + 2 ^ n)"
  using assms by (simp add: disjunctive_add_eq_or [symmetric] push_bit_eq_mult distrib_left)

lemma kutil_pattern: "ucast b * 0x0101010101010101 = memset_pattern b"
proof -
  have b: "\<not> bit b j" if "8 \<le> j" for j using that bit_imp_le_length [of b j] by auto
  define p0 p1 p2 :: u64 where "p0 = ucast b" and "p1 = p0 OR push_bit 8 p0"
    and "p2 = p1 OR push_bit 16 p1"
  have bits: "bit p0 k \<longleftrightarrow> k < 8 \<and> bit b k" for k
    using b [of k] by (cases "k < 8") (auto simp: p0_def bit_ucast_iff)
  have b1: "bit p1 k \<Longrightarrow> k < 16" for k by (auto simp: p1_def bit_or_iff bit_push_bit_iff bits)
  have b2: "bit p2 k \<Longrightarrow> k < 32" for k by (auto simp: p2_def bit_or_iff bit_push_bit_iff dest: b1)
  have "p0 AND push_bit 8 p0 = 0"
    by (rule bit_word_eqI) (auto simp: bit_and_iff bit_push_bit_iff bits)
  then have "p1 = p0 * (1 + 2 ^ 8)" unfolding p1_def by (rule or_push_bit_mult)
  moreover have "p1 AND push_bit 16 p1 = 0"
    by (rule bit_word_eqI) (auto simp: bit_and_iff bit_push_bit_iff dest: b1)
  then have "p2 = p1 * (1 + 2 ^ 16)" unfolding p2_def by (rule or_push_bit_mult)
  moreover have "p2 AND push_bit 32 p2 = 0"
    by (rule bit_word_eqI) (auto simp: bit_and_iff bit_push_bit_iff dest: b2)
  then have "p2 OR push_bit 32 p2 = p2 * (1 + 2 ^ 32)" by (rule or_push_bit_mult)
  ultimately have "p2 OR push_bit 32 p2 = p0 * 0x0101010101010101" by (simp add: mult.assoc)
  then show ?thesis by (simp add: memset_pattern_def p0_def p1_def p2_def Let_def)
qed

lemma store64_fill: "uniform p b \<Longrightarrow> store64 d p m = fill_bytes 8 d b m"
  by (rule ext) (auto simp: store64_def fill_bytes_def uniform_def)

lemma set_qwords_fill: "uniform p b \<Longrightarrow> set_qwords c d p m = fill_bytes (8 * c) d b m"
  by (induction c arbitrary: d m) (simp_all add: store64_fill fill_bytes_append add.commute)

lemma memset_64_fill:
  assumes "uniform p b"
  shows "memset_64 d n p m = (d + 64 * (n div 64), n mod 64, fill_bytes (64 * (n div 64)) d b m)"
proof (induction n arbitrary: d m rule: less_induct)
  case (less n)
  show ?case
  proof (cases "64 \<le> n")
    case True
    then show ?thesis
      using less [of "n - 64" "d + 64" "fill_bytes 64 d b m"] set_qwords_fill [OF assms, of 8 d m]
      by (subst memset_64.simps) (simp add: fill_bytes_append le_div_geq le_mod_geq)
  qed (simp add: memset_64.simps)
qed

lemma memset_16_fill:
  assumes "uniform p b"
  shows "memset_16 d n p m = (d + 16 * (n div 16), n mod 16, fill_bytes (16 * (n div 16)) d b m)"
proof (induction n arbitrary: d m rule: less_induct)
  case (less n)
  show ?case
  proof (cases "16 \<le> n")
    case True
    then show ?thesis
      using less [of "n - 16" "d + 16" "fill_bytes 16 d b m"] set_qwords_fill [OF assms, of 2 d m]
      by (subst memset_16.simps) (simp add: fill_bytes_append le_div_geq le_mod_geq)
  qed (simp add: memset_16.simps)
qed

lemma memset_fill: "memset d b n m = fill_bytes n d b m"
proof (cases "n < 8")
  case False
  note uni = uniform_memset_pattern [of b]
  define u r where "u = memcpy_unalign d" and "r = n - u"
  have u: "u < 8" "u \<le> n" using False by (auto simp: u_def memcpy_unalign_def)
  define k where "k = (if u > 0 then 8 else 0 :: nat)"
  have start: "(if u > 0 then store64 d (memset_pattern b) m else m) = fill_bytes k d b m"
    by (simp add: k_def store64_fill [OF uni])
  let ?q = "64 * (r div 64)" and ?h = "16 * (r mod 64 div 16)" and ?t = "r mod 64 mod 16"
  have r: "?q + ?h + ?t = r" by (metis add.assoc mult_div_mod_eq)
  have "memset d b n m = (let (d4, n4, m4) =
        (if ?t \<ge> 8 then (d + u + ?q + ?h + 8, ?t - 8, fill_bytes 8 (d + u + ?q + ?h) b
           (fill_bytes (?q + ?h) (d + u) b (fill_bytes k d b m)))
         else (d + u + ?q + ?h, ?t, fill_bytes (?q + ?h) (d + u) b (fill_bytes k d b m)))
      in fill_bytes n4 d4 b m4)"
    using False unfolding memset_def u_def [symmetric] Let_def start r_def [symmetric]
    by (simp add: memset_64_fill [OF uni] memset_16_fill [OF uni] store64_fill [OF uni]
        fill_bytes_append set_loop_fill)
  also have "\<dots> = fill_bytes (?q + ?h + ?t) (d + u) b (fill_bytes k d b m)"
    by (auto simp: fill_bytes_append)
  also have "\<dots> = fill_bytes (u + r) d b m"
    unfolding r using u False by (intro fill_bytes_cover) (auto simp: k_def r_def)
  finally show ?thesis using u by (simp add: r_def)
qed (simp add: memset_def set_loop_fill)

lemma kutil_memset_fill: "kutil_memset d b n m = fill_bytes n d b m"
proof -
  have "fill_bytes (n mod 8) (d + n div 8 * 8) b (fill_bytes (8 * (n div 8)) d b m)
      = fill_bytes (8 * (n div 8) + n mod 8) d b m"
    by (rule fill_bytes_append) simp
  then show ?thesis
    by (simp add: kutil_memset_def Let_def kutil_pattern set_loop_fill
        set_qwords_fill [OF uniform_memset_pattern])
qed

subsection \<open>Comparison\<close>

lemma kutil_memcmp_split:
  "kutil_memcmp a b (k + n) m
     = (if kutil_memcmp a b k m \<noteq> 0 then kutil_memcmp a b k m else kutil_memcmp (a + k) (b + k) n m)"
  by (induction k arbitrary: a b) (auto simp: word_uint_eq_iff)

lemma kutil_memcmp_0: "kutil_memcmp a b n m = 0 \<longleftrightarrow> (\<forall>i<n. m (a + i) = m (b + i))"
proof (induction n arbitrary: a b)
  case (Suc n)
  have "(\<forall>i<Suc n. m (a + i) = m (b + i)) \<longleftrightarrow> m a = m b \<and> (\<forall>i<n. m (a + 1 + i) = m (b + 1 + i))"
    by (auto simp: less_Suc_eq_0_disj)
  then show ?case using Suc [of "a + 1" "b + 1"] by (simp add: word_uint_eq_iff)
qed simp

lemma kutil_memcmp_first:
  assumes "i < n" "m (a + i) \<noteq> m (b + i)" "\<forall>j<i. m (a + j) = m (b + j)"
  shows "kutil_memcmp a b n m = uint (m (a + i)) - uint (m (b + i))"
proof -
  obtain r where n: "n = i + Suc r" using assms(1) less_iff_Suc_add by auto
  have "kutil_memcmp a b i m = 0" using assms(3) by (simp add: kutil_memcmp_0)
  then show ?thesis using assms(2) unfolding n by (subst kutil_memcmp_split) simp
qed

lemma memcmp_eq: "memcmp a b n m = kutil_memcmp a b n m"
proof (induction n arbitrary: a b rule: less_induct)
  case (less n)
  show ?case
  proof (cases "8 \<le> n")
    case True
    then have "kutil_memcmp a b n m
        = (if kutil_memcmp a b 8 m \<noteq> 0 then kutil_memcmp a b 8 m else kutil_memcmp (a + 8) (b + 8) (n - 8) m)"
      using kutil_memcmp_split [of a b 8 "n - 8" m] by simp
    moreover have "load64_eq a b m \<longleftrightarrow> kutil_memcmp a b 8 m = 0"
      by (auto simp: load64_eq_def kutil_memcmp_0)
    ultimately show ?thesis
      using True less [of "n - 8" "a + 8" "b + 8"]
      by (subst memcmp.simps) (simp add: Let_def)
  qed (simp add: memcmp.simps)
qed

subsection \<open>The contract of a copy routine\<close>

locale block_copy =
  fixes cp :: "nat \<Rightarrow> nat \<Rightarrow> nat \<Rightarrow> mem \<Rightarrow> mem"
    and ok :: "nat \<Rightarrow> nat \<Rightarrow> nat \<Rightarrow> bool"
  assumes cp_moves: "ok d s n \<Longrightarrow> cp d s n m = move_bytes n d s m"
begin

lemma cp_frame: "ok d s n \<Longrightarrow> a < d \<or> d + n \<le> a \<Longrightarrow> cp d s n m a = m a"
  by (auto simp: cp_moves move_bytes_def)

lemma cp_content: "ok d s n \<Longrightarrow> i < n \<Longrightarrow> cp d s n m (d + i) = m (s + i)"
  by (simp add: cp_moves move_bytes_def)

lemma cp_there_and_back:
  assumes "ok d s n" "ok s d n" "disjoint_ranges d s n"
  shows "cp s d n (cp d s n m) = cp d s n m"
  using assms by (intro ext) (auto simp: cp_moves move_bytes_def disjoint_ranges_def)

end

interpretation kc: block_copy kutil_memcpy disjoint_ranges
  by unfold_locales (simp add: kutil_memcpy_copied move_bytes_copied)

interpretation km: block_copy kutil_memmove "\<lambda>d s n. True"
proof unfold_locales
  fix d s n m
  have "d = s \<Longrightarrow> move_bytes n d s m = m" by (rule ext) (auto simp: move_bytes_def)
  then show "kutil_memmove d s n m = move_bytes n d s m"
    by (simp add: kutil_memmove_def copy_loop_up [simplified] copy_down_move)
qed

interpretation kr: block_copy memcpy "\<lambda>d s n. disjoint_ranges d s n \<and> memcpy_gap d n = {}"
  by unfold_locales (simp add: memcpy_copied move_bytes_copied)

subsection \<open>Properties\<close>

text \<open>C15: \<open>memcpy\<close> of \<open>runtime.c\<close> on disjoint ranges never writes outside the destination range, and
  inside it copies exactly the offsets outside \<open>memcpy_gap\<close>: the whole range up to 16 bytes and
  from 256 bytes on; in between, with \<open>t\<close> the number of bytes left after alignment and the 16-byte
  loop, everything unless \<open>t\<close> is 3, 6 or 7.\<close>
theorem memcpy_exact:
  assumes "disjoint_ranges d s n"
  shows "memcpy d s n m a =
    (if d \<le> a \<and> a < d + n \<and> a - d \<notin> memcpy_gap d n then m (s + (a - d)) else m a)"
  unfolding memcpy_copied [OF assms] copied_def by auto

theorem memcpy_exact_witness:
  "disjoint_ranges 64 128 40 \<and> memcpy 64 128 40 (\<lambda>a. of_nat a) 90 = 154"
  using memcpy_exact [of 64 128 40 "\<lambda>a. of_nat a" 90]
  by (simp add: disjoint_ranges_def memcpy_gap_def memcpy_unalign_def tail_gap_def)

text \<open>A 19-byte \<open>memcpy\<close> to an 8-byte aligned buffer leaves byte 17 of the buffer unchanged,
  whatever the source holds: the final branch for a three-byte remainder stores the first and the
  last of the three bytes only.\<close>
theorem memcpy_drops_byte:
  "memcpy 4096 8192 19 m (4096 + 17) = m (4096 + 17)"
proof -
  have "disjoint_ranges 4096 8192 19" by (simp add: disjoint_ranges_def)
  then have "memcpy 4096 8192 19 m = copied ({..<19} - memcpy_gap 4096 19) 4096 8192 m"
    by (rule memcpy_copied)
  then show ?thesis by (simp add: copied_def memcpy_gap_def memcpy_unalign_def tail_gap_def)
qed

text \<open>\<open>kutil_memmove\<close> copies any range, overlapping in either direction, as if through a
  temporary buffer, and changes no other byte.\<close>
theorem kutil_memmove_correct:
  "kutil_memmove d s n m = (\<lambda>a. if d \<le> a \<and> a < d + n then m (s + (a - d)) else m a)"
  using km.cp_moves [of d s n m] by (simp add: move_bytes_def)

text \<open>Both \<open>memset\<close> routines, the one of \<open>runtime.c\<close> with its alignment prologue and unrolled
  64-bit stores and the inline one, set exactly the bytes of the range to the given byte.\<close>
theorem memset_correct:
  "memset d b n m = (\<lambda>a. if d \<le> a \<and> a < d + n then b else m a)
   \<and> kutil_memset d b n m = (\<lambda>a. if d \<le> a \<and> a < d + n then b else m a)"
  by (simp add: memset_fill kutil_memset_fill fill_bytes_def)

text \<open>The word-at-a-time \<open>memcmp\<close> of \<open>runtime.c\<close> returns the same value as the byte loop, which is
  0 exactly on equal ranges and otherwise the difference of the first differing bytes.\<close>
theorem memcmp_correct:
  "memcmp a b n m = kutil_memcmp a b n m
   \<and> (memcmp a b n m = 0 \<longleftrightarrow> (\<forall>i<n. m (a + i) = m (b + i)))
   \<and> (\<forall>i<n. (m (a + i) \<noteq> m (b + i) \<and> (\<forall>j<i. m (a + j) = m (b + j)))
        \<longrightarrow> memcmp a b n m = uint (m (a + i)) - uint (m (b + i)))"
  by (auto simp: memcmp_eq kutil_memcmp_0 intro: kutil_memcmp_first)

theorem memcmp_correct_witness:
  "memcmp 100 200 9 (\<lambda>a. if a = 208 then 7 else 9) = 2"
  using memcmp_correct [of 100 200 9 "\<lambda>a. if a = 208 then 7 else 9"]
  by (auto dest: spec [of _ 8])

end
