(* ===== verification/Kutil.thy ===== *)
theory Kutil
  imports Kernel_Prelude
begin

text \<open>
  The string, number and queue helpers of \<open>kernel/kernel_util.h\<close>.

  A C string argument is the list of its characters before the NUL; a result pointer into a string
  is the index it points to (\<open>None\<close> for null). The formatted text \<open>kutil_utoa\<close> leaves in its buffer
  is returned as a string; the code's return value is its length. A destination buffer is the list of its cells, and
  the copying functions return \<open>None\<close> where the C code would write past its end. Arithmetic
  on characters goes through their unsigned byte values, as the casts of the source do.

  The locale \<open>byte_queue\<close> is the contract of a bounded first-in first-out byte queue; the ring
  buffer of this file provides it, and so does the pipe buffer.
\<close>

definition byte_of :: "char \<Rightarrow> int" where
  "byte_of c = of_char c"

definition ccode :: "string \<Rightarrow> int" where
  "ccode s = (case s of [] \<Rightarrow> 0 | c # _ \<Rightarrow> byte_of c)"

subsection \<open>String operations\<close>

fun kutil_strlen :: "string \<Rightarrow> nat" where
  "kutil_strlen [] = 0"
| "kutil_strlen (c # s) = Suc (kutil_strlen s)"

fun kutil_strcpy :: "char list \<Rightarrow> string \<Rightarrow> char list option" where
  "kutil_strcpy [] src = None"
| "kutil_strcpy (d # ds) [] = Some (NUL # ds)"
| "kutil_strcpy (d # ds) (c # cs) = map_option ((#) c) (kutil_strcpy ds cs)"

fun kutil_strcmp :: "string \<Rightarrow> string \<Rightarrow> int" where
  "kutil_strcmp (a # as) (b # bs) =
     (if a \<noteq> b then byte_of a - byte_of b else kutil_strcmp as bs)"
| "kutil_strcmp as bs = ccode as - ccode bs"

fun kutil_strncmp :: "string \<Rightarrow> string \<Rightarrow> nat \<Rightarrow> int" where
  "kutil_strncmp as bs 0 = 0"
| "kutil_strncmp (a # as) (b # bs) (Suc n) =
     (if a \<noteq> b then byte_of a - byte_of b else kutil_strncmp as bs n)"
| "kutil_strncmp as bs (Suc n) = ccode as - ccode bs"

text \<open>The \<open>n\<close> cells \<open>kutil_strncpy\<close> writes.\<close>

fun kutil_strncpy :: "string \<Rightarrow> nat \<Rightarrow> char list" where
  "kutil_strncpy src 0 = []"
| "kutil_strncpy [] (Suc n) = NUL # kutil_strncpy [] n"
| "kutil_strncpy (c # cs) (Suc n) = c # kutil_strncpy cs n"

fun kutil_strcat :: "char list \<Rightarrow> string \<Rightarrow> char list option" where
  "kutil_strcat [] src = None"
| "kutil_strcat (d # ds) src =
     (if d \<noteq> NUL then map_option ((#) d) (kutil_strcat ds src) else kutil_strcpy (d # ds) src)"

fun kutil_strchr :: "string \<Rightarrow> char \<Rightarrow> nat option" where
  "kutil_strchr [] c = None"
| "kutil_strchr (x # xs) c = (if x = c then Some 0 else map_option Suc (kutil_strchr xs c))"

fun kutil_strrchr_from :: "nat \<Rightarrow> nat option \<Rightarrow> string \<Rightarrow> char \<Rightarrow> nat option" where
  "kutil_strrchr_from i lst [] c = lst"
| "kutil_strrchr_from i lst (x # xs) c =
     kutil_strrchr_from (Suc i) (if x = c then Some i else lst) xs c"

definition kutil_strrchr :: "string \<Rightarrow> char \<Rightarrow> nat option" where
  "kutil_strrchr s c = kutil_strrchr_from 0 None s c"

text \<open>The inner loop \<open>while (*n && *h == *n)\<close> of \<open>kutil_strstr\<close>: did it reach the end of the needle?\<close>

fun strstr_at :: "string \<Rightarrow> string \<Rightarrow> bool" where
  "strstr_at h [] = True"
| "strstr_at [] (n # ns) = False"
| "strstr_at (h # hs) (n # ns) = (h = n \<and> strstr_at hs ns)"

fun strstr_loop :: "string \<Rightarrow> string \<Rightarrow> nat option" where
  "strstr_loop [] needle = None"
| "strstr_loop (h # hs) needle =
     (if h = hd needle \<and> strstr_at (h # hs) needle then Some 0
      else map_option Suc (strstr_loop hs needle))"

definition kutil_strstr :: "string \<Rightarrow> string \<Rightarrow> nat option" where
  "kutil_strstr haystack needle = (if needle = [] then Some 0 else strstr_loop haystack needle)"

subsection \<open>Number formatting\<close>

definition digits :: string where
  "digits = ''0123456789ABCDEF''"

text \<open>
  The digit loop of \<open>kutil_utoa\<close> fills \<open>char tmp[24]\<close>; \<open>None\<close> is a write to \<open>tmp[24]\<close>.
\<close>

function utoa_loop :: "nat \<Rightarrow> nat \<Rightarrow> string \<Rightarrow> string option" where
  "utoa_loop val base tmp =
     (if val > 0 then
        (if length tmp \<ge> 24 then None
         else utoa_loop (val div base) base (tmp @ [digits ! (val mod base)]))
      else Some tmp)"
  by pat_completeness auto
termination by (relation "measure (\<lambda>(val, base, tmp). 24 - length tmp)") auto

declare utoa_loop.simps [simp del]

definition kutil_utoa :: "u64 \<Rightarrow> nat \<Rightarrow> string option" where
  "kutil_utoa val base =
     (if val = 0 then Some ''0'' else map_option rev (utoa_loop (unat val) base []))"

definition kutil_itoa :: "u64 \<Rightarrow> string option" where
  "kutil_itoa val =
     (if sint val < 0 then map_option ((#) CHR ''-'') (kutil_utoa (- val) 10)
      else kutil_utoa val 10)"

subsection \<open>Network byte order\<close>

definition kutil_htons :: "u16 \<Rightarrow> u16" where
  "kutil_htons val = drop_bit 8 val OR push_bit 8 val"

definition kutil_htonl :: "u32 \<Rightarrow> u32" where
  "kutil_htonl val =
     (drop_bit 24 val AND 0xFF) OR (drop_bit 8 val AND 0xFF00) OR
     (push_bit 8 val AND 0xFF0000) OR (push_bit 24 val AND 0xFF000000)"

definition kutil_ntohs :: "u16 \<Rightarrow> u16" where
  "kutil_ntohs val = kutil_htons val"

definition kutil_ntohl :: "u32 \<Rightarrow> u32" where
  "kutil_ntohl val = kutil_htonl val"

subsection \<open>IP address parsing\<close>

definition is_digit :: "char \<Rightarrow> bool" where
  "is_digit c \<longleftrightarrow> byte_of CHR ''0'' \<le> byte_of c \<and> byte_of c \<le> byte_of CHR ''9''"

fun parse_octet :: "string \<Rightarrow> int \<Rightarrow> (int \<times> string) option" where
  "parse_octet [] val = Some (val, [])"
| "parse_octet (c # cs) val =
     (if is_digit c then
        (let val' = val * 10 + (byte_of c - byte_of CHR ''0'') in
         if val' > 255 then None else parse_octet cs val')
      else Some (val, c # cs))"

text \<open>
  One turn of the outer loop per octet; the first argument is \<open>4 - count\<close>. \<open>Inl ()\<close> is the early
  \<open>return -1\<close> on an octet above 255.
\<close>

fun parse_ipv4_loop :: "nat \<Rightarrow> string \<Rightarrow> int list \<Rightarrow> unit + int list" where
  "parse_ipv4_loop 0 p vals = Inr vals"
| "parse_ipv4_loop (Suc k) p vals =
     (if p = [] then Inr vals
      else
        (let p1 = dropWhile (\<lambda>c. \<not> is_digit c) p in
         if p1 = [] then Inr vals
         else (case parse_octet p1 0 of
                 None \<Rightarrow> Inl ()
               | Some (val, p2) \<Rightarrow>
                   (let p3 = dropWhile (\<lambda>c. c \<noteq> CHR ''.'') p2;
                        p4 = (if p3 \<noteq> [] \<and> hd p3 = CHR ''.'' then tl p3 else p3)
                    in parse_ipv4_loop k p4 (vals @ [val])))))"

definition kutil_parse_ipv4 :: "string \<Rightarrow> (int \<times> int \<times> int \<times> int) option" where
  "kutil_parse_ipv4 str =
     (case parse_ipv4_loop 4 str [] of
        Inl _ \<Rightarrow> None
      | Inr vals \<Rightarrow>
          (if length vals = 4 then Some (vals ! 0, vals ! 1, vals ! 2, vals ! 3) else None))"

subsection \<open>Tokenising\<close>

text \<open>
  The static \<open>next_token\<close> is the text from that pointer on (\<open>None\<close>: null). Writing the NUL behind a
  token cuts it off from the text that follows, which stays reachable through \<open>next_token\<close> only.
\<close>

definition kutil_strtok ::
  "string option \<Rightarrow> string \<Rightarrow> string option \<Rightarrow> string option \<times> string option" where
  "kutil_strtok str delim next_token =
     (let nt = (if str \<noteq> None then str else next_token) in
      case nt of
        None \<Rightarrow> (None, None)
      | Some t \<Rightarrow>
          (let t1 = dropWhile (\<lambda>c. kutil_strchr delim c \<noteq> None) t in
           if t1 = [] then (None, None)
           else
             (let token = takeWhile (\<lambda>c. kutil_strchr delim c = None) t1;
                  rest = dropWhile (\<lambda>c. kutil_strchr delim c = None) t1
              in (Some token, if rest \<noteq> [] then Some (tl rest) else None))))"

text \<open>Calling \<open>strtok(NULL, delim)\<close> until it returns null, at most \<open>n\<close> times.\<close>

fun strtok_rest :: "nat \<Rightarrow> string \<Rightarrow> string option \<Rightarrow> string list" where
  "strtok_rest 0 delim nt = []"
| "strtok_rest (Suc n) delim nt =
     (case kutil_strtok None delim nt of
        (None, nt') \<Rightarrow> []
      | (Some tok, nt') \<Rightarrow> tok # strtok_rest n delim nt')"

subsection \<open>Ring buffer\<close>

record kutil_ringbuf =
  rb_buf :: "u8 list"
  rb_size :: nat
  rb_rd :: nat
  rb_wr :: nat
  rb_count :: nat

definition kutil_ringbuf_init :: "u8 list \<Rightarrow> nat \<Rightarrow> kutil_ringbuf" where
  "kutil_ringbuf_init buf sz = \<lparr>rb_buf = buf, rb_size = sz, rb_rd = 0, rb_wr = 0, rb_count = 0\<rparr>"

definition kutil_ringbuf_push :: "kutil_ringbuf \<Rightarrow> u8 \<Rightarrow> kutil_ringbuf \<times> int" where
  "kutil_ringbuf_push rb byte =
     (if rb_count rb \<ge> rb_size rb then (rb, -1)
      else (rb\<lparr>rb_buf := (rb_buf rb)[rb_wr rb := byte],
              rb_wr := (rb_wr rb + 1) mod rb_size rb,
              rb_count := rb_count rb + 1\<rparr>, 0))"

definition kutil_ringbuf_pop :: "kutil_ringbuf \<Rightarrow> kutil_ringbuf \<times> u8 option" where
  "kutil_ringbuf_pop rb =
     (if rb_count rb = 0 then (rb, None)
      else (rb\<lparr>rb_rd := (rb_rd rb + 1) mod rb_size rb, rb_count := rb_count rb - 1\<rparr>,
            Some (rb_buf rb ! rb_rd rb)))"

subsection \<open>Facts about the string operations\<close>

lemma byte_of_bounds: "0 \<le> byte_of c" "byte_of c < 256"
  unfolding byte_of_def using of_char_mod_256 [of c, where ?'a = int]
    pos_mod_sign [of 256 "of_char c"] pos_mod_bound [of 256 "of_char c"] by auto

lemma byte_of_eq [simp]: "byte_of a = byte_of b \<longleftrightarrow> a = b"
  by (simp add: byte_of_def)

lemma byte_of_pos: "a \<noteq> NUL \<Longrightarrow> 0 < byte_of a"
proof -
  assume "a \<noteq> NUL"
  then have "byte_of a \<noteq> byte_of NUL" by simp
  moreover have "byte_of NUL = 0" by (simp add: NUL_def byte_of_def)
  ultimately show ?thesis using byte_of_bounds(1) [of a] by linarith
qed

lemma byte_of_cmp0 [simp]: "byte_of a < 0 \<longleftrightarrow> False" "byte_of a = 0 \<longleftrightarrow> a = NUL"
  "0 < byte_of a \<longleftrightarrow> a \<noteq> NUL"
proof -
  have "byte_of NUL = 0" by (simp add: NUL_def byte_of_def)
  then show z: "byte_of a = 0 \<longleftrightarrow> a = NUL" using byte_of_eq [of a NUL] by simp
  show "byte_of a < 0 \<longleftrightarrow> False" "0 < byte_of a \<longleftrightarrow> a \<noteq> NUL"
    using byte_of_bounds(1) [of a] byte_of_pos [of a] z by auto
qed

lemma kutil_strlen_length: "kutil_strlen s = length s"
  by (induction s) auto

lemma kutil_strcpy_eq:
  "kutil_strcpy dst src =
     (if length src < length dst then Some (src @ NUL # drop (Suc (length src)) dst) else None)"
  by (induction dst src rule: kutil_strcpy.induct) auto

lemma kutil_strcat_eq:
  assumes "cstr s"
  shows "kutil_strcat (s @ NUL # rest) src =
     (if length src \<le> length rest then Some (s @ src @ NUL # drop (length src) rest) else None)"
  using assms by (induction s) (auto simp: kutil_strcpy_eq)

lemma kutil_strncpy_eq: "kutil_strncpy src n = take n src @ replicate (n - length src) NUL"
  by (induction src n rule: kutil_strncpy.induct) auto

lemma kutil_strcmp_sign:
  assumes "cstr a" "cstr b"
  shows "kutil_strcmp a b = 0 \<longleftrightarrow> a = b"
    and "kutil_strcmp a b < 0 \<longleftrightarrow> (a, b) \<in> lexord {(x, y). byte_of x < byte_of y}"
  using assms
  by (induction a b rule: kutil_strcmp.induct)
    (auto simp: ccode_def split: list.splits)

lemma kutil_strcmp_swap: "kutil_strcmp b a = - kutil_strcmp a b"
  by (induction a b rule: kutil_strcmp.induct) (auto simp: ccode_def split: list.splits)

lemma kutil_strncmp_take: "kutil_strncmp a b n = kutil_strcmp (take n a) (take n b)"
proof (induction n arbitrary: a b)
  case 0
  then show ?case by (simp add: ccode_def)
next
  case (Suc n)
  then show ?case by (cases a; cases b) (auto simp: ccode_def)
qed

lemma kutil_strchr_first: "kutil_strchr s c = first_idx (\<lambda>x. x = c) s"
  by (induction s) auto

lemma kutil_strchr_None [simp]: "kutil_strchr s c = None \<longleftrightarrow> c \<notin> set s"
  by (auto simp: kutil_strchr_first first_idx_None)

lemma kutil_strrchr_from_eq:
  "kutil_strrchr_from i l s c =
     (case first_idx (\<lambda>x. x = c) (rev s) of None \<Rightarrow> l | Some k \<Rightarrow> Some (i + (length s - 1 - k)))"
proof (induction s arbitrary: i l)
  case (Cons x xs)
  show ?case
  proof (cases "c \<in> set xs")
    case True
    then obtain k where k: "first_idx (\<lambda>x. x = c) (rev xs) = Some k"
      using first_idx_None [of "\<lambda>x. x = c" "rev xs"] by auto
    then have less: "k < length xs" by (simp add: first_idx_Some)
    have "first_idx (\<lambda>x. x = c) (rev xs @ [x]) = Some k"
      using k less by (auto simp: first_idx_Some nth_append)
    then show ?thesis using k less by (simp add: Cons)
  next
    case False
    then have k: "first_idx (\<lambda>x. x = c) (rev xs) = None" by (auto simp: first_idx_None)
    have "first_idx (\<lambda>y. y = c) (rev xs @ [x]) = (if x = c then Some (length xs) else None)"
      using False by (auto simp: first_idx_Some first_idx_None nth_append in_set_conv_nth rev_nth)
    then show ?thesis using k by (simp add: Cons)
  qed
qed simp

lemma strstr_at_prefix: "strstr_at h n \<longleftrightarrow> take (length n) h = n"
  by (induction h n rule: strstr_at.induct) auto

lemma strstr_loop_eq:
  assumes "needle \<noteq> []"
  shows "strstr_loop hay needle = first_idx (\<lambda>i. take (length needle) (drop i hay) = needle) [0..<length hay]"
proof (induction hay)
  case (Cons h hs)
  have "first_idx P [0..<Suc k] = (if P 0 then Some 0 else map_option Suc (first_idx (P \<circ> Suc) [0..<k]))"
    for P :: "nat \<Rightarrow> bool" and k
  proof -
    have "first_idx P (map Suc xs) = first_idx (P \<circ> Suc) xs" for xs
      by (induction xs) auto
    then show ?thesis by (simp add: upt_conv_Cons map_Suc_upt [symmetric] del: upt_Suc map_Suc_upt)
  qed
  moreover have "h = hd needle \<and> strstr_at (h # hs) needle \<longleftrightarrow> take (length needle) (h # hs) = needle"
    using assms by (cases needle) (auto simp: strstr_at_prefix)
  ultimately show ?case by (simp add: Cons comp_def del: upt_Suc)
qed simp

subsection \<open>Facts about number formatting\<close>

text \<open>The value of a digit string, most significant digit first.\<close>

definition digit_val :: "char \<Rightarrow> nat" where
  "digit_val c = (case first_idx (\<lambda>x. x = c) digits of None \<Rightarrow> 0 | Some i \<Rightarrow> i)"

definition num_val :: "nat \<Rightarrow> string \<Rightarrow> nat" where
  "num_val base s = foldl (\<lambda>v c. v * base + digit_val c) 0 s"

lemma digit_val_digits: "k < 16 \<Longrightarrow> digit_val (digits ! k) = k"
proof -
  assume k: "k < 16"
  have d: "distinct digits" "length digits = 16" by (simp_all add: digits_def)
  have "first_idx (\<lambda>x. x = digits ! k) digits = Some k"
    using k d by (auto simp: first_idx_Some nth_eq_iff_index_eq)
  then show ?thesis by (simp add: digit_val_def)
qed

lemma num_val_Nil [simp]: "num_val base [] = 0"
  by (simp add: num_val_def)

lemma num_val_snoc [simp]: "num_val base (s @ [c]) = num_val base s * base + digit_val c"
  by (simp add: num_val_def)

text \<open>
  The digit loop in closed form: the digits of \<open>val\<close>, least significant first, and failure exactly
  when there are more than 24 of them.
\<close>

function digs :: "nat \<Rightarrow> nat \<Rightarrow> string" where
  "digs val base = (if val = 0 \<or> base < 2 then [] else digs (val div base) base @ [digits ! (val mod base)])"
  by pat_completeness auto
termination by (relation "measure fst") (auto intro: div_less_dividend)

declare digs.simps [simp del]

lemma digs_0 [simp]: "digs 0 base = []"
  by (simp add: digs.simps)

lemma digs_pos: "0 < val \<Longrightarrow> 2 \<le> base \<Longrightarrow> digs val base = digs (val div base) base @ [digits ! (val mod base)]"
  by (subst digs.simps) simp

lemma utoa_loop_digs:
  assumes "2 \<le> base"
  shows "utoa_loop val base tmp =
    (if length tmp + length (digs val base) \<le> 24 \<or> val = 0 then Some (tmp @ rev (digs val base)) else None)"
proof (induction "24 - length tmp" arbitrary: val tmp rule: less_induct)
  case less
  show ?case
  proof (cases "val = 0 \<or> 24 \<le> length tmp")
    case True
    then show ?thesis
      using assms by (subst utoa_loop.simps) (auto simp: digs_pos)
  next
    case False
    have IH: "utoa_loop (val div base) base (tmp @ [digits ! (val mod base)]) =
        (if length tmp + 1 + length (digs (val div base) base) \<le> 24 \<or> val div base = 0
         then Some (tmp @ [digits ! (val mod base)] @ rev (digs (val div base) base)) else None)"
      using False by (subst less) auto
    then show ?thesis
      using False assms by (subst utoa_loop.simps) (auto simp: digs_pos)
  qed
qed

lemma num_val_digs: "2 \<le> base \<Longrightarrow> base \<le> 16 \<Longrightarrow> num_val base (digs val base) = val"
proof (induction val rule: less_induct)
  case (less val)
  show ?case
  proof (cases "val = 0")
    case False
    then have "val div base < val" using less.prems by (simp add: div_less_dividend)
    moreover have "val mod base < 16" using less.prems by (simp add: less_le_trans [of _ base])
    ultimately show ?thesis
      using less False by (simp add: digs_pos digit_val_digits)
  qed simp
qed

lemma length_digs: "2 \<le> base \<Longrightarrow> val < base ^ k \<Longrightarrow> length (digs val base) \<le> k"
proof (induction k arbitrary: val)
  case (Suc k)
  then have "val div base < base ^ k" by (simp add: less_mult_imp_div_less mult.commute)
  then show ?case using Suc by (cases "val = 0") (auto simp: digs_pos)
qed simp

lemma kutil_utoa_Some:
  assumes "7 \<le> base" "base \<le> 16"
  shows "kutil_utoa val base = Some (if val = 0 then ''0'' else digs (unat val) base)"
proof -
  have "unat val < 2 ^ 64" using unsigned_less [of val] by simp
  also have "(2::nat) ^ 64 \<le> 7 ^ 24" by simp
  also have "(7::nat) ^ 24 \<le> base ^ 24" using assms(1) by (rule power_mono) simp
  finally have "length (digs (unat val) base) \<le> 24" using assms by (intro length_digs) auto
  then show ?thesis using assms by (simp add: kutil_utoa_def utoa_loop_digs)
qed

lemma kutil_utoa_num_val:
  assumes "7 \<le> base" "base \<le> 16"
  shows "\<exists>s. kutil_utoa val base = Some s \<and> num_val base s = unat val"
proof (cases "val = 0")
  case True
  have "num_val base ''0'' = 0" by (simp add: num_val_def digit_val_def digits_def)
  then show ?thesis using True assms by (simp add: kutil_utoa_Some)
qed (use assms in \<open>simp add: kutil_utoa_Some num_val_digs\<close>)

subsection \<open>Facts about tokenising\<close>

text \<open>The fields of a text between single delimiters, empty ones included.\<close>

fun fields :: "(char \<Rightarrow> bool) \<Rightarrow> string \<Rightarrow> string list" where
  "fields D [] = [[]]"
| "fields D (c # cs) =
     (if D c then [] # fields D cs else (c # hd (fields D cs)) # tl (fields D cs))"

lemma fields_not_Nil [simp]: "fields D s \<noteq> []"
  by (cases s) auto

lemma fields_prefix:
  "(\<forall>c\<in>set a. \<not> D c) \<Longrightarrow> fields D (a @ s) = (a @ hd (fields D s)) # tl (fields D s)"
  by (induction a) auto

lemma fields_skip:
  "filter (\<lambda>t. t \<noteq> []) (fields D (dropWhile D s)) = filter (\<lambda>t. t \<noteq> []) (fields D s)"
  by (induction s) auto

lemma strtok_rest_fields:
  "length t < n \<Longrightarrow> strtok_rest n delim (Some t) = filter (\<lambda>f. f \<noteq> []) (fields (\<lambda>c. c \<in> set delim) t)"
proof (induction n arbitrary: t)
  case (Suc n)
  let ?D = "\<lambda>c. c \<in> set delim"
  define t1 tok rest where "t1 = dropWhile ?D t" and "tok = takeWhile (\<lambda>c. \<not> ?D c) t1"
    and "rest = dropWhile (\<lambda>c. \<not> ?D c) t1"
  have f: "filter (\<lambda>f. f \<noteq> []) (fields ?D t) = filter (\<lambda>f. f \<noteq> []) (fields ?D t1)"
    by (simp add: t1_def fields_skip)
  have t1: "t1 = tok @ rest" unfolding tok_def rest_def by (rule takeWhile_dropWhile_id [symmetric])
  have tok: "\<forall>c\<in>set tok. \<not> ?D c" unfolding tok_def using set_takeWhileD by fast
  have call: "kutil_strtok None delim (Some t) =
      (if t1 = [] then (None, None) else (Some tok, if rest \<noteq> [] then Some (tl rest) else None))"
    unfolding kutil_strtok_def Let_def kutil_strchr_None not_not t1_def tok_def rest_def by simp
  show ?case
  proof (cases "t1 = []")
    case True
    then show ?thesis using f call by simp
  next
    case False
    then have "\<not> ?D (hd t1)" unfolding t1_def by (rule hd_dropWhile)
    then have ne: "tok \<noteq> []" using False by (cases t1) (auto simp: tok_def)
    show ?thesis
    proof (cases rest)
      case Nil
      have "strtok_rest n delim None = []" by (cases n) (auto simp: kutil_strtok_def)
      then show ?thesis using Nil False call f t1 ne fields_prefix [OF tok, of "[]"] by simp
    next
      case (Cons c cs)
      have D: "?D c" using Cons hd_dropWhile [of "\<lambda>c. \<not> ?D c" t1] by (auto simp: rest_def)
      have "length t1 \<le> length t" by (simp add: t1_def length_dropWhile_le)
      then have "length cs < n" using Suc.prems t1 Cons ne by (cases tok) auto
      then have "strtok_rest n delim (Some cs) = filter (\<lambda>f. f \<noteq> []) (fields ?D cs)"
        by (rule Suc.IH)
      moreover have "fields ?D t1 = tok # fields ?D cs"
        using fields_prefix [OF tok, of "c # cs"] D t1 Cons by simp
      ultimately show ?thesis using Cons False call f ne by simp
    qed
  qed
qed simp

subsection \<open>Bounded byte queues\<close>

locale byte_queue =
  fixes push :: "'q \<Rightarrow> u8 \<Rightarrow> 'q \<times> int"
    and pop :: "'q \<Rightarrow> 'q \<times> u8 option"
    and inv :: "'q \<Rightarrow> bool"
    and contents :: "'q \<Rightarrow> u8 list"
    and cap :: "'q \<Rightarrow> nat"
  assumes push_ok: "inv q \<Longrightarrow> length (contents q) < cap q \<Longrightarrow>
      \<exists>q'. push q b = (q', 0) \<and> inv q' \<and> contents q' = contents q @ [b] \<and> cap q' = cap q"
    and push_full: "inv q \<Longrightarrow> length (contents q) = cap q \<Longrightarrow> push q b = (q, -1)"
    and pop_ok: "inv q \<Longrightarrow> contents q = b # bs \<Longrightarrow>
      \<exists>q'. pop q = (q', Some b) \<and> inv q' \<and> contents q' = bs \<and> cap q' = cap q"
    and pop_empty: "inv q \<Longrightarrow> contents q = [] \<Longrightarrow> pop q = (q, None)"
    and bounded: "inv q \<Longrightarrow> length (contents q) \<le> cap q"
begin

fun push_all :: "'q \<Rightarrow> u8 list \<Rightarrow> 'q" where
  "push_all q [] = q"
| "push_all q (b # bs) = push_all (fst (push q b)) bs"

fun pop_all :: "nat \<Rightarrow> 'q \<Rightarrow> 'q \<times> u8 list" where
  "pop_all 0 q = (q, [])"
| "pop_all (Suc n) q = (case pop q of (q', None) \<Rightarrow> (q', [])
     | (q', Some b) \<Rightarrow> (let (q'', bs) = pop_all n q' in (q'', b # bs)))"

lemma push_all_ok:
  "inv q \<Longrightarrow> length (contents q) + length bs \<le> cap q \<Longrightarrow>
   inv (push_all q bs) \<and> contents (push_all q bs) = contents q @ bs \<and> cap (push_all q bs) = cap q"
proof (induction bs arbitrary: q)
  case (Cons b bs)
  then obtain q' where "push q b = (q', 0)" "inv q'" "contents q' = contents q @ [b]" "cap q' = cap q"
    using push_ok [of q b] by auto
  then show ?case using Cons by simp
qed simp

lemma pop_all_ok:
  "inv q \<Longrightarrow> n \<le> length (contents q) \<Longrightarrow>
   \<exists>q'. pop_all n q = (q', take n (contents q)) \<and> inv q' \<and> contents q' = drop n (contents q) \<and> cap q' = cap q"
proof (induction n arbitrary: q)
  case (Suc n)
  then obtain b bs where c: "contents q = b # bs" by (cases "contents q") auto
  then obtain q' where q': "pop q = (q', Some b)" "inv q'" "contents q' = bs" "cap q' = cap q"
    using pop_ok Suc.prems by blast
  then obtain q'' where "pop_all n q' = (q'', take n bs)" "inv q''" "contents q'' = drop n bs" "cap q'' = cap q'"
    using Suc c by fastforce
  then show ?case using q' c by simp
qed simp

text \<open>First in, first out: bytes queued behind the present contents come out in order behind them.\<close>

lemma fifo:
  assumes "inv q" "length (contents q) + length bs \<le> cap q"
  shows "\<exists>q'. pop_all (length (contents q) + length bs) (push_all q bs) = (q', contents q @ bs)
    \<and> inv q' \<and> contents q' = []"
  using push_all_ok [OF assms] pop_all_ok [of "push_all q bs" "length (contents q) + length bs"] by auto

end

text \<open>A ring buffer holds the bytes at \<open>rd\<close>, \<open>rd + 1\<close>, ... modulo its size.\<close>

definition ringbuf_inv :: "kutil_ringbuf \<Rightarrow> bool" where
  "ringbuf_inv rb \<longleftrightarrow> 0 < rb_size rb \<and> rb_size rb \<le> length (rb_buf rb) \<and> rb_rd rb < rb_size rb
     \<and> rb_count rb \<le> rb_size rb \<and> rb_wr rb = (rb_rd rb + rb_count rb) mod rb_size rb"

definition ring_bytes :: "'a list \<Rightarrow> nat \<Rightarrow> nat \<Rightarrow> nat \<Rightarrow> 'a list" where
  "ring_bytes buf sz rd cnt = map (\<lambda>i. buf ! ((rd + i) mod sz)) [0..<cnt]"

definition ringbuf_contents :: "kutil_ringbuf \<Rightarrow> u8 list" where
  "ringbuf_contents rb = ring_bytes (rb_buf rb) (rb_size rb) (rb_rd rb) (rb_count rb)"

lemma length_ring_bytes [simp]: "length (ring_bytes buf sz rd cnt) = cnt"
  by (simp add: ring_bytes_def)

lemma ring_bytes_push:
  assumes "cnt < sz" "sz \<le> length buf"
  shows "ring_bytes (buf[(rd + cnt) mod sz := b]) sz rd (Suc cnt) = ring_bytes buf sz rd cnt @ [b]"
proof -
  have "(rd + cnt) mod sz \<noteq> (rd + i) mod sz" if "i < cnt" for i
  proof
    assume "(rd + cnt) mod sz = (rd + i) mod sz"
    then have "(rd + cnt) mod sz = (rd + i) mod sz" "rd + i \<le> rd + cnt" using that by simp_all
    then have "sz dvd (rd + cnt) - (rd + i)" using mod_eq_dvd_iff_nat by blast
    then have "sz dvd cnt - i" by simp
    then show False using that assms(1) by (auto dest: dvd_imp_le)
  qed
  moreover have "(rd + cnt) mod sz < length buf"
    using assms by (metis less_le_trans mod_less_divisor gr_zeroI not_less_zero)
  ultimately show ?thesis by (auto simp: ring_bytes_def nth_list_update)
qed

lemma ring_bytes_pop:
  assumes "0 < cnt" "rd < sz"
  shows "ring_bytes buf sz rd cnt = buf ! rd # ring_bytes buf sz ((rd + 1) mod sz) (cnt - 1)"
proof (rule nth_equalityI)
  fix i
  assume "i < length (ring_bytes buf sz rd cnt)"
  then have "i < cnt" by simp
  then show "ring_bytes buf sz rd cnt ! i
      = (buf ! rd # ring_bytes buf sz ((rd + 1) mod sz) (cnt - 1)) ! i"
    using assms by (cases i) (auto simp: ring_bytes_def mod_add_left_eq mod_Suc_eq mod_simps)
qed (use assms in simp)

interpretation rbq: byte_queue kutil_ringbuf_push kutil_ringbuf_pop ringbuf_inv ringbuf_contents rb_size
proof unfold_locales
  fix rb b
  assume inv: "ringbuf_inv rb"
  show "\<exists>rb'. kutil_ringbuf_push rb b = (rb', 0) \<and> ringbuf_inv rb'
      \<and> ringbuf_contents rb' = ringbuf_contents rb @ [b] \<and> rb_size rb' = rb_size rb"
    if "length (ringbuf_contents rb) < rb_size rb"
    using that inv ring_bytes_push [of "rb_count rb" "rb_size rb" "rb_buf rb" "rb_rd rb" b]
    by (auto simp: kutil_ringbuf_push_def ringbuf_inv_def ringbuf_contents_def mod_simps)
  show "kutil_ringbuf_push rb b = (rb, -1)" if "length (ringbuf_contents rb) = rb_size rb"
    using that by (simp add: ringbuf_contents_def kutil_ringbuf_push_def)
  show "kutil_ringbuf_pop rb = (rb, None)" if "ringbuf_contents rb = []"
  proof -
    have "rb_count rb = 0" using arg_cong [OF that, of length] by (simp add: ringbuf_contents_def)
    then show ?thesis by (simp add: kutil_ringbuf_pop_def)
  qed
  show "length (ringbuf_contents rb) \<le> rb_size rb"
    using inv by (simp add: ringbuf_contents_def ringbuf_inv_def)
next
  fix rb b bs
  assume inv: "ringbuf_inv rb" and c: "ringbuf_contents rb = b # bs"
  then have pos: "0 < rb_count rb" by (cases "rb_count rb") (auto simp: ringbuf_contents_def ring_bytes_def)
  have "(Suc (rb_rd rb) mod rb_size rb + (rb_count rb - Suc 0)) mod rb_size rb
      = (rb_rd rb + rb_count rb) mod rb_size rb"
    using pos mod_add_left_eq [of "Suc (rb_rd rb)" "rb_size rb" "rb_count rb - Suc 0"]
    by (cases "rb_count rb") simp_all
  then show "\<exists>rb'. kutil_ringbuf_pop rb = (rb', Some b) \<and> ringbuf_inv rb'
      \<and> ringbuf_contents rb' = bs \<and> rb_size rb' = rb_size rb"
    using inv c pos ring_bytes_pop [of "rb_count rb" "rb_rd rb" "rb_size rb" "rb_buf rb"]
    by (auto simp: kutil_ringbuf_pop_def ringbuf_inv_def ringbuf_contents_def)
qed

lemma ringbuf_init_inv:
  "0 < sz \<Longrightarrow> sz \<le> length buf \<Longrightarrow> ringbuf_inv (kutil_ringbuf_init buf sz) \<and> ringbuf_contents (kutil_ringbuf_init buf sz) = []"
  by (simp add: ringbuf_inv_def kutil_ringbuf_init_def ringbuf_contents_def ring_bytes_def)

subsection \<open>Facts about byte order and addresses\<close>

lemma kutil_htons_bytes: "bit (kutil_htons w) i \<longleftrightarrow> i < 16 \<and> bit w ((i + 8) mod 16)"
proof (cases "i < 8")
  case True
  then show ?thesis by (auto simp: kutil_htons_def bit_simps add.commute)
next
  case False
  then show ?thesis
  proof (cases "i < 16")
    case True
    then have "(i + 8) mod 16 = i - 8" "\<not> bit w (8 + i)"
      using False bit_imp_le_length [of w "8 + i"] by (auto simp: mod_if)
    then show ?thesis using True False by (auto simp: kutil_htons_def bit_simps)
  qed (auto simp: kutil_htons_def bit_simps dest: bit_imp_le_length)
qed

lemma bit_block_mask:
  "bit (push_bit n (mask k) :: 'a::len word) i \<longleftrightarrow> i < LENGTH('a) \<and> n \<le> i \<and> i < n + k"
  by (auto simp: bit_simps)
lemma htonl_masks:
  "(0xFF :: u32) = push_bit 0 (mask 8)"
  "(0xFF00 :: u32) = push_bit 8 (mask 8)" "(0xFF0000 :: u32) = push_bit 16 (mask 8)"
  "(0xFF000000 :: u32) = push_bit 24 (mask 8)"
  by (simp_all add: push_bit_eq_mult mask_eq_exp_minus_1)


lemma htonl_mask_bits:
  "bit (0xFF :: u32) i \<longleftrightarrow> i < 8" "bit (0xFF00 :: u32) i \<longleftrightarrow> 8 \<le> i \<and> i < 16"
  "bit (0xFF0000 :: u32) i \<longleftrightarrow> 16 \<le> i \<and> i < 24" "bit (0xFF000000 :: u32) i \<longleftrightarrow> 24 \<le> i \<and> i < 32"
  unfolding htonl_masks bit_block_mask by auto

lemma kutil_htonl_bytes:
  assumes "i < 8"
  shows "bit (kutil_htonl w) i = bit w (i + 24)" "bit (kutil_htonl w) (i + 8) = bit w (i + 16)"
    "bit (kutil_htonl w) (i + 16) = bit w (i + 8)" "bit (kutil_htonl w) (i + 24) = bit w i"
  using assms unfolding kutil_htonl_def bit_or_iff bit_and_iff htonl_mask_bits bit_push_bit_iff bit_drop_bit_eq comp_def 
  by (auto simp: add.commute dest: bit_imp_le_length)
lemma byte_split: "i < (32::nat) \<Longrightarrow> \<exists>j<8. i = j \<or> i = j + 8 \<or> i = j + 16 \<or> i = j + 24"
proof -
  assume "i < 32"
  then have "i < 8 \<or> i - 8 < 8 \<and> 8 \<le> i \<or> i - 16 < 8 \<and> 16 \<le> i \<or> i - 24 < 8 \<and> 24 \<le> i" by linarith
  then show ?thesis by (metis le_add_diff_inverse2)
qed

lemma kutil_htonl_involution: "kutil_htonl (kutil_htonl w) = w"
proof (rule bit_word_eqI)
  fix i
  assume "i < LENGTH(32)"
  then obtain j where "j < 8" "i = j \<or> i = j + 8 \<or> i = j + 16 \<or> i = j + 24"
    using byte_split [of i] by auto
  then show "bit (kutil_htonl (kutil_htonl w)) i = bit w i"
    by (auto simp: kutil_htonl_bytes)
qed

lemma kutil_htons_involution: "kutil_htons (kutil_htons w) = w"
proof (rule bit_word_eqI)
  fix i
  assume i: "i < LENGTH(16)"
  have "((i + 8) mod 16 + 8) mod 16 = i" using i by (cases "i < 8") (auto simp: mod_if)
  then show "bit (kutil_htons (kutil_htons w)) i = bit w i"
    using i by (simp add: kutil_htons_bytes)
qed

lemma digit_chars:
  assumes "k < 10"
  shows "byte_of (digits ! k) = 48 + int k" "is_digit (digits ! k)"
proof -
  have "k = 0 \<or> k = 1 \<or> k = 2 \<or> k = 3 \<or> k = 4 \<or> k = 5 \<or> k = 6 \<or> k = 7 \<or> k = 8 \<or> k = 9"
    using assms by arith
  then show *: "byte_of (digits ! k) = 48 + int k"
    by (elim disjE) (simp_all add: digits_def byte_of_def)
  then show "is_digit (digits ! k)" using assms by (simp add: is_digit_def) (simp add: byte_of_def)
qed

definition dec :: "nat \<Rightarrow> string" where
  "dec n = (if n = 0 then ''0'' else digs n 10)"

lemma parse_octet_digs:
  "n < 256 \<Longrightarrow> parse_octet (digs n 10 @ rest) 0 = parse_octet rest (int n)"
proof (induction n arbitrary: rest rule: less_induct)
  case (less n)
  show ?case
  proof (cases "n = 0")
    case False
    have m: "n mod 10 < 10" by simp
    have "parse_octet (digs n 10 @ rest) 0 = parse_octet (digits ! (n mod 10) # rest) (int (n div 10))"
      using less False by (simp add: digs_pos)
    moreover have "int (n div 10) * 10 + int (n mod 10) = int n"
      using div_mult_mod_eq [of n 10] by linarith
    moreover have "byte_of CHR ''0'' = 48" by (simp add: byte_of_def)
    ultimately show ?thesis
      using less.prems by (simp add: digit_chars [OF m] Let_def del: of_nat_mod)
  qed simp
qed

lemma parse_octet_dec:
  "n < 256 \<Longrightarrow> parse_octet (dec n @ rest) 0 = parse_octet rest (int n)"
  by (auto simp: dec_def parse_octet_digs is_digit_def byte_of_def)

lemma hd_dec: "dec n \<noteq> [] \<and> is_digit (hd (dec n))"
proof -
  have "n > 0 \<longrightarrow> digs n 10 \<noteq> [] \<and> is_digit (hd (digs n 10))"
  proof (induction n rule: less_induct)
    case (less n)
    show ?case
    proof (cases "n div 10 = 0")
      case False
      then have "digs (n div 10) 10 \<noteq> [] \<and> is_digit (hd (digs (n div 10) 10))"
        using less [of "n div 10"] by auto
      then show ?thesis by (subst digs.simps [of n], subst digs.simps [of n]) (auto simp: hd_append)
    qed (auto simp: digs_pos digit_chars)
  qed
  then show ?thesis by (auto simp: dec_def is_digit_def byte_of_def)
qed

lemma skip_dec: "dropWhile (\<lambda>c. \<not> is_digit c) (dec n @ rest) = dec n @ rest"
  using hd_dec [of n] by (cases "dec n") auto

lemma parse_ipv4_loop_octet:
  assumes "n < 256"
  shows "parse_ipv4_loop (Suc k) (dec n @ CHR ''.'' # rest) vals = parse_ipv4_loop k rest (vals @ [int n])"
    and "parse_ipv4_loop (Suc k) (dec n) vals = parse_ipv4_loop k [] (vals @ [int n])"
proof -
  have dot: "\<not> is_digit CHR ''.''" by (simp add: is_digit_def byte_of_def)
  show "parse_ipv4_loop (Suc k) (dec n @ CHR ''.'' # rest) vals = parse_ipv4_loop k rest (vals @ [int n])"
    using assms hd_dec [of n] dot by (simp add: skip_dec parse_octet_dec)
  show "parse_ipv4_loop (Suc k) (dec n) vals = parse_ipv4_loop k [] (vals @ [int n])"
    using assms hd_dec [of n] skip_dec [of n "[]"] parse_octet_dec [of n "[]"] by simp
qed

subsection \<open>Properties\<close>

text \<open>On NUL-free strings \<open>kutil_strcmp\<close> is 0 exactly on equal strings, negative exactly when the
  first string is smaller in the byte-wise lexicographic order, antisymmetric, and
  \<open>kutil_strncmp\<close> is the comparison of the prefixes of length \<open>n\<close>.\<close>
theorem kutil_strcmp_order:
  assumes "cstr a" "cstr b"
  shows "(kutil_strcmp a b = 0 \<longleftrightarrow> a = b)
    \<and> (kutil_strcmp a b < 0 \<longleftrightarrow> (a, b) \<in> lexord {(x, y). byte_of x < byte_of y})
    \<and> kutil_strcmp b a = - kutil_strcmp a b
    \<and> kutil_strncmp a b n = kutil_strcmp (take n a) (take n b)"
  using kutil_strcmp_sign [OF assms] kutil_strcmp_swap [of b a] kutil_strncmp_take [of a b n] by simp

theorem kutil_strcmp_order_witness:
  "cstr ''proc'' \<and> cstr ''procs'' \<and> kutil_strcmp ''proc'' ''procs'' < 0
   \<and> kutil_strncmp ''proc'' ''procs'' 4 = 0"
  using kutil_strcmp_order [of "''proc''" "''procs''" 4]
  by (simp add: cstr_def NUL_def lexord_def)

text \<open>In every base from 7 to 16 \<open>kutil_utoa\<close> formats every 64-bit value without overrunning its
  24-byte scratch array, and reading the digits back gives the value.\<close>
theorem kutil_utoa_roundtrip:
  assumes "7 \<le> base" "base \<le> 16"
  shows "\<exists>s. kutil_utoa val base = Some s \<and> num_val base s = unat val"
  using assms by (rule kutil_utoa_num_val)

theorem kutil_utoa_roundtrip_witness:
  "\<exists>s. kutil_utoa 0xFFFFFFFFFFFFFFFF 16 = Some s \<and> num_val 16 s = 0xFFFFFFFFFFFFFFFF"
  using kutil_utoa_roundtrip [of 16 "0xFFFFFFFFFFFFFFFF"] by simp

text \<open>In base 2 a value of 25 significant bits writes past the 24-byte scratch array of
  \<open>kutil_utoa\<close>.\<close>
theorem kutil_utoa_base2_overrun:
  "kutil_utoa 0x1000000 2 = None"
  by (simp add: kutil_utoa_def utoa_loop.simps)

text \<open>Formatting four octets with \<open>kutil_utoa\<close> and joining them with dots gives a text that
  \<open>kutil_parse_ipv4\<close> parses back to the same four octets.\<close>
theorem kutil_ipv4_roundtrip:
  assumes "kutil_utoa (ucast (a :: u8)) 10 = Some sa" "kutil_utoa (ucast (b :: u8)) 10 = Some sb"
    "kutil_utoa (ucast (c :: u8)) 10 = Some sc" "kutil_utoa (ucast (d :: u8)) 10 = Some sd"
  shows "kutil_parse_ipv4 (sa @ ''.'' @ sb @ ''.'' @ sc @ ''.'' @ sd)
    = Some (uint a, uint b, uint c, uint d)"
proof -
  have dec: "s = dec (unat x) \<and> unat x < 256" if "kutil_utoa (ucast (x :: u8)) 10 = Some s" for x s
  proof -
    have "unat x < 256" using unsigned_less [of x] by simp
    moreover from this have "unat (ucast x :: u64) = unat x"
      by (simp add: unsigned_ucast_eq take_bit_nat_eq_self)
    ultimately show ?thesis
      using that by (auto simp: kutil_utoa_Some dec_def unat_eq_zero split: if_splits)
  qed
  show ?thesis
    using assms [THEN dec]
    by (simp add: kutil_parse_ipv4_def eval_nat_numeral parse_ipv4_loop_octet
        del: parse_ipv4_loop.simps(2))
qed

theorem kutil_ipv4_roundtrip_witness:
  "kutil_parse_ipv4 ''192.168.0.15'' = Some (192, 168, 0, 15)"
proof -
  have "kutil_utoa (ucast (192 :: u8)) 10 = Some ''192''" "kutil_utoa (ucast (168 :: u8)) 10 = Some ''168''"
    "kutil_utoa (ucast (0 :: u8)) 10 = Some ''0''" "kutil_utoa (ucast (15 :: u8)) 10 = Some ''15''"
    by (simp_all add: kutil_utoa_def utoa_loop.simps digits_def)
  then show ?thesis
    using kutil_ipv4_roundtrip [of 192 "''192''" 168 "''168''" 0 "''0''" 15 "''15''"] by simp
qed

text \<open>Calling \<open>kutil_strtok\<close> on a text and then with a null pointer until it returns null yields
  exactly the non-empty fields between delimiters, in order.\<close>
theorem kutil_strtok_fields:
  assumes "length t < n"
  shows "strtok_rest n delim (Some t) = filter (\<lambda>f. f \<noteq> []) (fields (\<lambda>c. c \<in> set delim) t)"
  using assms by (rule strtok_rest_fields)

theorem kutil_strtok_fields_witness:
  "strtok_rest 10 ''/'' (Some ''/usr//bin'') = [''usr'', ''bin'']"
  using kutil_strtok_fields [of "''/usr//bin''" 10 "''/''"] by simp

text \<open>A ring buffer initialised over a large enough array is a bounded first-in first-out queue:
  after pushing \<open>bs\<close> (at most its size) every push returned 0 and popping as many bytes returns
  exactly \<open>bs\<close>.\<close>
theorem kutil_ringbuf_fifo:
  assumes "0 < sz" "sz \<le> length buf" "length bs \<le> sz"
  shows "\<exists>rb. rbq.pop_all (length bs) (rbq.push_all (kutil_ringbuf_init buf sz) bs) = (rb, bs)
    \<and> ringbuf_inv rb \<and> ringbuf_contents rb = []"
  using rbq.fifo [of "kutil_ringbuf_init buf sz" bs] ringbuf_init_inv [OF assms(1,2)] assms(3)
  by (simp add: kutil_ringbuf_init_def)

theorem kutil_ringbuf_fifo_witness:
  "\<exists>rb. rbq.pop_all 2 (rbq.push_all (kutil_ringbuf_init [0, 0, 0] 3) [7, 8]) = (rb, [7, 8])
    \<and> ringbuf_inv rb \<and> ringbuf_contents rb = []"
  using kutil_ringbuf_fifo [of 3 "[0, 0, 0]" "[7, 8]"] by (simp add: numeral_2_eq_2)

end
