(* ===== verification/Signal.thy ===== *)
theory Signal
  imports Kernel_Prelude
begin

text \<open>
  Signals, \<open>kernel/signal.c\<close>: pending and blocked masks and handler tables of 32 signals, one state
  per process and one global state. A handler is its address; a null state pointer is \<open>None\<close>.

  \<open>signal_step\<close> is the transition relation of all the operations that change a state, and the
  safety properties are invariants of the states reachable from \<open>brights_signal_proc_init\<close>.
\<close>

definition SIGKILL :: u32 where "SIGKILL = 9"
definition SIGCHLD :: u32 where "SIGCHLD = 17"
definition SIGSTOP :: u32 where "SIGSTOP = 19"
definition SIGURG :: u32 where "SIGURG = 23"
definition SIGWINCH :: u32 where "SIGWINCH = 28"
definition BRIGHTS_SIGNAL_MAX :: nat where "BRIGHTS_SIGNAL_MAX = 32"

type_synonym sighandler = u64

definition SIG_DFL :: sighandler where "SIG_DFL = 0"
definition SIG_IGN :: sighandler where "SIG_IGN = 1"
definition SIG_ERR :: sighandler where "SIG_ERR = - 1"

record sigaction =
  sa_handler :: sighandler
  sa_flags :: u64
  sa_restorer :: u64
  sa_mask :: u64

record signal_state =
  sig_pending :: u32
  sig_blocked :: u32
  sig_handlers :: "sighandler list"
  sig_actions :: "sigaction list"

subsection \<open>Operations\<close>

definition brights_signal_proc_init :: "signal_state \<Rightarrow> signal_state" where
  "brights_signal_proc_init state =
     \<lparr>sig_pending = 0, sig_blocked = 0,
      sig_handlers = replicate BRIGHTS_SIGNAL_MAX SIG_DFL,
      sig_actions = replicate BRIGHTS_SIGNAL_MAX
        \<lparr>sa_handler = SIG_DFL, sa_flags = 0, sa_restorer = 0, sa_mask = 0\<rparr>\<rparr>"

definition signo_invalid :: "u32 \<Rightarrow> bool" where
  "signo_invalid signo \<longleftrightarrow> signo = 0 \<or> signo \<ge> of_nat BRIGHTS_SIGNAL_MAX"

definition brights_signal_raise_proc :: "signal_state option \<Rightarrow> u32 \<Rightarrow> signal_state option \<times> int" where
  "brights_signal_raise_proc state signo =
     (case state of
        None \<Rightarrow> (None, -1)
      | Some st \<Rightarrow>
          (if signo_invalid signo then (Some st, -1)
           else if signo = SIGKILL \<or> signo = SIGSTOP then (Some st, -1)
           else (Some (st\<lparr>sig_pending := sig_pending st OR push_bit (unat signo) 1\<rparr>), 0)))"

definition brights_signal_pending_proc :: "signal_state option \<Rightarrow> u32" where
  "brights_signal_pending_proc state =
     (case state of None \<Rightarrow> 0 | Some st \<Rightarrow> sig_pending st AND NOT (sig_blocked st))"

definition brights_signal_consume :: "signal_state option \<Rightarrow> u32 \<Rightarrow> signal_state option \<times> int" where
  "brights_signal_consume state signo =
     (case state of
        None \<Rightarrow> (None, -1)
      | Some st \<Rightarrow>
          (if signo_invalid signo then (Some st, -1)
           else if sig_pending st AND push_bit (unat signo) 1 = 0 then (Some st, -1)
           else (Some (st\<lparr>sig_pending := sig_pending st AND NOT (push_bit (unat signo) 1)\<rparr>), 0)))"

definition brights_signal_clear :: "signal_state option \<Rightarrow> signal_state option" where
  "brights_signal_clear state = map_option (\<lambda>st. st\<lparr>sig_pending := 0\<rparr>) state"

definition brights_signal_block :: "signal_state option \<Rightarrow> u32 \<Rightarrow> signal_state option" where
  "brights_signal_block state msk = map_option (\<lambda>st. st\<lparr>sig_blocked := sig_blocked st OR msk\<rparr>) state"

definition brights_signal_unblock :: "signal_state option \<Rightarrow> u32 \<Rightarrow> signal_state option" where
  "brights_signal_unblock state msk =
     map_option (\<lambda>st. st\<lparr>sig_blocked := sig_blocked st AND NOT msk\<rparr>) state"

definition brights_signal_sethandler ::
  "signal_state option \<Rightarrow> u32 \<Rightarrow> sighandler \<Rightarrow> signal_state option \<times> sighandler" where
  "brights_signal_sethandler state signo handler =
     (case state of
        None \<Rightarrow> (None, SIG_ERR)
      | Some st \<Rightarrow>
          (if signo_invalid signo then (Some st, SIG_ERR)
           else if signo = SIGKILL \<or> signo = SIGSTOP then (Some st, SIG_ERR)
           else (let i = unat signo; old = sig_handlers st ! i in
                 (Some (st\<lparr>sig_handlers := (sig_handlers st)[i := handler],
                           sig_actions := upd_at i (sa_handler_update (\<lambda>_. handler)) (sig_actions st)\<rparr>),
                  old))))"

text \<open>
  \<open>sigaction\<close> works on the global state only; the results are the new state, the old action when
  the caller asked for it, and the status.
\<close>

definition brights_signal_sigaction ::
  "signal_state \<Rightarrow> u32 \<Rightarrow> sigaction option \<Rightarrow> bool \<Rightarrow> signal_state \<times> sigaction option \<times> int" where
  "brights_signal_sigaction st signo act want_old =
     (if signo_invalid signo then (st, None, -1)
      else if signo = SIGKILL \<or> signo = SIGSTOP then (st, None, -1)
      else
        (let i = unat signo;
             old = (if want_old then Some (sig_actions st ! i) else None);
             st' = (case act of
                      None \<Rightarrow> st
                    | Some a \<Rightarrow> st\<lparr>sig_actions := (sig_actions st)[i := a],
                                   sig_handlers := (sig_handlers st)[i := sa_handler a]\<rparr>)
         in (st', old, 0)))"

definition brights_signal_deliver :: "signal_state option \<Rightarrow> u32 \<Rightarrow> signal_state option \<times> int" where
  "brights_signal_deliver state signo =
     (case state of
        None \<Rightarrow> (None, -1)
      | Some st \<Rightarrow>
          (if signo_invalid signo then (Some st, -1)
           else
             (let handler = sig_handlers st ! unat signo in
              if handler = SIG_DFL then
                (if signo = SIGCHLD \<or> signo = SIGURG \<or> signo = SIGWINCH then (Some st, 0)
                 else (Some st, -1))
              else if handler = SIG_IGN then (fst (brights_signal_consume (Some st) signo), 0)
              else (Some st, 0))))"

text \<open>The wrappers on the global state.\<close>

definition brights_signal_init :: "signal_state \<Rightarrow> signal_state" where
  "brights_signal_init glob = brights_signal_proc_init glob"

definition brights_signal_raise :: "signal_state \<Rightarrow> u32 \<Rightarrow> signal_state \<times> int" where
  "brights_signal_raise glob signo =
     (case brights_signal_raise_proc (Some glob) signo of (st, r) \<Rightarrow> (the st, r))"

definition brights_signal_pending :: "signal_state \<Rightarrow> u32" where
  "brights_signal_pending glob = brights_signal_pending_proc (Some glob)"

subsection \<open>Reachable states\<close>

inductive signal_step :: "signal_state \<Rightarrow> signal_state \<Rightarrow> bool" where
  raise: "brights_signal_raise_proc (Some st) signo = (Some st', r) \<Longrightarrow> signal_step st st'"
| consume: "brights_signal_consume (Some st) signo = (Some st', r) \<Longrightarrow> signal_step st st'"
| clear: "brights_signal_clear (Some st) = Some st' \<Longrightarrow> signal_step st st'"
| block: "brights_signal_block (Some st) msk = Some st' \<Longrightarrow> signal_step st st'"
| unblock: "brights_signal_unblock (Some st) msk = Some st' \<Longrightarrow> signal_step st st'"
| sethandler: "brights_signal_sethandler (Some st) signo h = (Some st', old) \<Longrightarrow> signal_step st st'"
| action: "brights_signal_sigaction st signo act w = (st', old, r) \<Longrightarrow> signal_step st st'"
| deliver: "brights_signal_deliver (Some st) signo = (Some st', r) \<Longrightarrow> signal_step st st'"

inductive signal_reachable :: "signal_state \<Rightarrow> bool" where
  init: "signal_reachable (brights_signal_proc_init st)"
| step: "signal_reachable st \<Longrightarrow> signal_step st st' \<Longrightarrow> signal_reachable st'"

definition signal_inv :: "signal_state \<Rightarrow> bool" where
  "signal_inv st \<longleftrightarrow>
     length (sig_handlers st) = 32 \<and> length (sig_actions st) = 32
     \<and> (\<forall>i<32. sa_handler (sig_actions st ! i) = sig_handlers st ! i)
     \<and> (\<forall>i\<in>{0, 9, 19}. \<not> bit (sig_pending st) i \<and> sig_handlers st ! i = SIG_DFL)"

lemma valid_signo:
  assumes "\<not> signo_invalid signo" "signo \<noteq> SIGKILL" "signo \<noteq> SIGSTOP"
  shows "unat signo < 32" "unat signo \<notin> {0, 9, 19}"
proof -
  have "signo < 32" using assms(1) by (simp add: signo_invalid_def BRIGHTS_SIGNAL_MAX_def not_le)
  then show "unat signo < 32" by (simp add: word_less_nat_alt)
  have "unat signo \<noteq> unat (0 :: u32)" "unat signo \<noteq> unat (9 :: u32)" "unat signo \<noteq> unat (19 :: u32)"
    using assms unfolding word_unat_eq_iff [symmetric] by (auto simp: signo_invalid_def SIGKILL_def SIGSTOP_def)
  then show "unat signo \<notin> {0, 9, 19}" by simp
qed

lemma signal_inv_init: "signal_inv (brights_signal_proc_init st)"
  by (auto simp: signal_inv_def brights_signal_proc_init_def BRIGHTS_SIGNAL_MAX_def)

lemma signal_inv_pending:
  assumes "signal_inv st" "\<And>i. bit p i \<Longrightarrow> bit (sig_pending st) i \<or> i \<notin> {0, 9, 19}"
  shows "signal_inv (st\<lparr>sig_pending := p\<rparr>)"
  using assms by (auto simp: signal_inv_def)

lemma signal_inv_handler:
  assumes "signal_inv st" "i < 32" "i \<notin> {0, 9, 19}" "sa_handler a = h"
  shows "signal_inv (st\<lparr>sig_handlers := (sig_handlers st)[i := h], sig_actions := (sig_actions st)[i := a]\<rparr>)"
    and "signal_inv (st\<lparr>sig_actions := (sig_actions st)[i := a], sig_handlers := (sig_handlers st)[i := h]\<rparr>)"
  using assms by (auto simp: signal_inv_def nth_list_update)

lemma signal_inv_consume:
  assumes "signal_inv st" "brights_signal_consume (Some st) signo = (Some st', r)"
  shows "signal_inv st'"
  using assms by (auto simp: brights_signal_consume_def bit_simps split: if_splits intro!: signal_inv_pending)

lemma signal_inv_step:
  assumes "signal_inv st" "signal_step st st'"
  shows "signal_inv st'"
  using assms(2)
proof cases
  case (raise signo r)
  then show ?thesis
    using assms(1) valid_signo [of signo]
    by (auto simp: brights_signal_raise_proc_def bit_simps split: if_splits intro!: signal_inv_pending)
next
  case consume
  then show ?thesis using assms(1) signal_inv_consume by blast
next
  case clear
  then show ?thesis using assms(1) by (auto simp: brights_signal_clear_def intro!: signal_inv_pending)
next
  case block
  then show ?thesis using assms(1) by (auto simp: brights_signal_block_def signal_inv_def)
next
  case unblock
  then show ?thesis using assms(1) by (auto simp: brights_signal_unblock_def signal_inv_def)
next
  case (sethandler signo h old)
  then show ?thesis
    using assms(1) valid_signo [of signo]
    by (auto simp: brights_signal_sethandler_def Let_def upd_at_def split: if_splits intro!: signal_inv_handler)
next
  case (action signo act w old r)
  then show ?thesis
    using assms(1) valid_signo [of signo] signal_inv_handler [of st "unat signo" "the act" "sa_handler (the act)"]
    by (auto simp: brights_signal_sigaction_def Let_def split: if_splits option.splits)
next
  case (deliver signo r)
  then show ?thesis
    using assms(1) signal_inv_consume [of st signo]
    by (auto simp: brights_signal_deliver_def Let_def brights_signal_consume_def split: if_splits)
qed

lemma signal_inv_reachable: "signal_reachable st \<Longrightarrow> signal_inv st"
  by (induction rule: signal_reachable.induct) (auto intro: signal_inv_init signal_inv_step)

subsection \<open>Properties\<close>

text \<open>C19: in every state reachable from initialisation by any sequence of signal operations, signals 0,
  9 (KILL) and 19 (STOP) are never pending and keep the default handler, and the handler table
  agrees with the \<open>sigaction\<close> table.\<close>
theorem signal_kill_stop_protected:
  assumes "signal_reachable st" "i \<in> {0, 9, 19}"
  shows "\<not> bit (sig_pending st) i \<and> sig_handlers st ! i = SIG_DFL
    \<and> (\<forall>j<32. sa_handler (sig_actions st ! j) = sig_handlers st ! j)"
  using signal_inv_reachable [OF assms(1)] assms(2) unfolding signal_inv_def by blast

definition sig_demo :: signal_state where
  "sig_demo = brights_signal_proc_init \<lparr>sig_pending = 7, sig_blocked = 1, sig_handlers = [], sig_actions = []\<rparr>"

theorem signal_kill_stop_protected_witness:
  "\<exists>st. signal_reachable st \<and> bit (sig_pending st) 15 \<and> \<not> bit (sig_pending st) 9
    \<and> sig_handlers st ! 9 = SIG_DFL"
proof -
  let ?st = "the (fst (brights_signal_raise_proc (Some sig_demo) 15))"
  have "brights_signal_raise_proc (Some sig_demo) 15 = (Some ?st, 0)"
    by (simp add: brights_signal_raise_proc_def signo_invalid_def BRIGHTS_SIGNAL_MAX_def SIGKILL_def SIGSTOP_def)
  then have r: "signal_reachable ?st"
    using signal_reachable.init unfolding sig_demo_def by (blast intro: signal_reachable.step signal_step.raise)
  have "bit (sig_pending ?st) 15"
    by (simp add: brights_signal_raise_proc_def signo_invalid_def BRIGHTS_SIGNAL_MAX_def SIGKILL_def
        SIGSTOP_def bit_simps)
  then show ?thesis using r signal_kill_stop_protected [OF r, of 9] by blast
qed

text \<open>Raising a valid signal other than KILL and STOP succeeds and makes exactly that signal
  pending in addition; it is reported deliverable exactly when it is not blocked, and consuming it
  once succeeds and takes it (and nothing else) away again.\<close>
theorem signal_raise_consume:
  assumes "\<not> signo_invalid signo" "signo \<noteq> SIGKILL" "signo \<noteq> SIGSTOP"
  shows "\<exists>st'. brights_signal_raise_proc (Some st) signo = (Some st', 0)
    \<and> (\<forall>i. bit (sig_pending st') i \<longleftrightarrow> i = unat signo \<or> bit (sig_pending st) i)
    \<and> (bit (brights_signal_pending_proc (Some st')) (unat signo) \<longleftrightarrow> \<not> bit (sig_blocked st) (unat signo))
    \<and> (\<exists>st''. brights_signal_consume (Some st') signo = (Some st'', 0)
        \<and> (\<forall>i. bit (sig_pending st'') i \<longleftrightarrow> i \<noteq> unat signo \<and> bit (sig_pending st) i))"
proof -
  note v = valid_signo [OF assms]
  define st' where "st' = st\<lparr>sig_pending := sig_pending st OR push_bit (unat signo) 1\<rparr>"
  have "brights_signal_raise_proc (Some st) signo = (Some st', 0)"
    using assms by (simp add: brights_signal_raise_proc_def st'_def)
  moreover have b: "bit (sig_pending st') i \<longleftrightarrow> i = unat signo \<or> bit (sig_pending st) i" for i
    using v(1) by (auto simp: st'_def bit_simps)
  moreover have "sig_pending st' AND push_bit (unat signo) 1 \<noteq> 0"
  proof
    assume "sig_pending st' AND push_bit (unat signo) 1 = 0"
    then have "\<not> bit (sig_pending st' AND push_bit (unat signo) 1) (unat signo)" by simp
    then show False using b v(1) by (simp add: bit_simps)
  qed
  moreover have "bit (brights_signal_pending_proc (Some st')) (unat signo) \<longleftrightarrow> \<not> bit (sig_blocked st) (unat signo)"
    using b v(1) by (auto simp: brights_signal_pending_proc_def bit_simps st'_def)
  moreover have "bit (sig_pending st' AND NOT (push_bit (unat signo) 1)) i
      \<longleftrightarrow> i \<noteq> unat signo \<and> bit (sig_pending st) i" for i
    using b bit_bit_off [of "unat signo" "sig_pending st'" i] by (auto simp: bit_off_def)
  ultimately show ?thesis
    using assms(1) by (simp add: brights_signal_consume_def del: push_bit_of_1)
qed

theorem signal_raise_consume_witness:
  "\<exists>st'. brights_signal_raise_proc (Some sig_demo) 15 = (Some st', 0) \<and> bit (sig_pending st') 15"
  using signal_raise_consume [of 15 sig_demo]
  by (auto simp: signo_invalid_def BRIGHTS_SIGNAL_MAX_def SIGKILL_def SIGSTOP_def)

end
