(* ===== verification/Syshook.thy ===== *)
theory Syshook
  imports Kernel_Prelude Kutil
begin

text \<open>
  System-call hooks, \<open>kernel/syshook.c\<close>: a table of 32 hooks, each with the system calls it watches,
  its owner and a ring buffer of 64 events in which a new event overwrites the oldest one when the
  buffer is full.

  The caller's pid (\<open>brights_proc_current()\<close>) is an argument; an event buffer in user memory is the
  list of events copied to it. Ring indices stay below 64 and are natural numbers; the statistics
  are 64-bit words. During \<open>brights_sleep_ms\<close> the rest of the system runs: \<open>brights_sys_hook_wait\<close>
  takes what happens to the hook state in the \<open>i\<close>-th sleep as the argument \<open>env i\<close>.
\<close>

record hook_event =
  event_type :: u64
  syscall_nr :: u64
  ev_args :: "u64 list"
  ev_ret :: u64
  caller_pid :: u32
  timestamp :: u64
  custom :: "u64 \<times> u64"

record hook =
  hk_active :: bool
  owner_pid :: u32
  watch_lo :: u64
  watch_hi :: u64
  hk_flags :: u32
  hk_ringbuf :: "hook_event list"
  hk_rd :: nat
  hk_wr :: nat
  hk_count :: nat
  hk_total :: u64
  hk_dropped :: u64

record syshook =
  hook_table :: "hook list"
  sh_initialized :: bool
  sh_created :: u64
  sh_dispatched :: u64

record hook_info =
  hi_hook_id :: u32
  hi_owner_pid :: u32
  hi_flags :: u32
  hi_event_count :: nat
  hi_total_events :: u64
  hi_dropped_events :: u64

definition SYSHOOK_MAX :: nat where "SYSHOOK_MAX = 32"
definition SYSHOOK_RINGBUF_SIZE :: nat where "SYSHOOK_RINGBUF_SIZE = 64"
definition HOOK_FLAG_PRE :: u64 where "HOOK_FLAG_PRE = 1"
definition HOOK_FLAG_POST :: u64 where "HOOK_FLAG_POST = 2"
definition HOOK_FLAG_BROADCAST :: u64 where "HOOK_FLAG_BROADCAST = 4"
definition HOOK_EVT_PRE_SYSCALL :: u64 where "HOOK_EVT_PRE_SYSCALL = 0"
definition HOOK_EVT_BROADCAST :: u64 where "HOOK_EVT_BROADCAST = 2"

subsection \<open>Operations\<close>

definition hook_release :: "hook \<Rightarrow> hook" where
  "hook_release h = h\<lparr>hk_active := False, owner_pid := 0, watch_lo := 0, watch_hi := 0, hk_flags := 0,
     hk_rd := 0, hk_wr := 0, hk_count := 0\<rparr>"

definition brights_syshook_init :: "syshook \<Rightarrow> syshook" where
  "brights_syshook_init s =
     s\<lparr>hook_table := map (\<lambda>h. (hook_release h)\<lparr>hk_total := 0, hk_dropped := 0\<rparr>) (hook_table s),
       sh_initialized := True\<rparr>"

definition ringbuf_push :: "hook \<Rightarrow> hook_event \<Rightarrow> hook" where
  "ringbuf_push h evt =
     (let h1 = (if hk_count h \<ge> SYSHOOK_RINGBUF_SIZE
                then h\<lparr>hk_rd := (hk_rd h + 1) mod SYSHOOK_RINGBUF_SIZE, hk_dropped := hk_dropped h + 1\<rparr>
                else h\<lparr>hk_count := hk_count h + 1\<rparr>)
      in h1\<lparr>hk_ringbuf := (hk_ringbuf h1)[hk_wr h1 := evt],
            hk_wr := (hk_wr h1 + 1) mod SYSHOOK_RINGBUF_SIZE,
            hk_total := hk_total h1 + 1\<rparr>)"

fun ringbuf_pop :: "nat \<Rightarrow> hook \<Rightarrow> hook \<times> hook_event list" where
  "ringbuf_pop 0 h = (h, [])"
| "ringbuf_pop (Suc n) h =
     (if hk_count h > 0 then
        (let e = hk_ringbuf h ! hk_rd h;
             (h', es) = ringbuf_pop n (h\<lparr>hk_rd := (hk_rd h + 1) mod SYSHOOK_RINGBUF_SIZE,
                                         hk_count := hk_count h - 1\<rparr>)
         in (h', e # es))
      else (h, []))"

definition hook_watches_syscall :: "hook \<Rightarrow> u64 \<Rightarrow> u64 \<Rightarrow> bool" where
  "hook_watches_syscall h nr phase_flag =
     (if ucast (hk_flags h) AND phase_flag = 0 then False
      else if nr < 64 then drop_bit (unat nr) (watch_lo h) AND 1 \<noteq> 0
      else if nr < 128 then drop_bit (unat (nr - 64)) (watch_hi h) AND 1 \<noteq> 0
      else False)"

definition syscall_event :: "u64 \<Rightarrow> u64 \<Rightarrow> u64 list \<Rightarrow> u64 \<Rightarrow> u32 \<Rightarrow> u64 \<Rightarrow> hook_event" where
  "syscall_event phase num args ret pid tsc =
     \<lparr>event_type = phase, syscall_nr = num, ev_args = take 6 args, ev_ret = ret, caller_pid = pid,
      timestamp = tsc, custom = (0, 0)\<rparr>"

text \<open>The loops over the table: each hook is visited once, in order, with the event counter.\<close>

fun notify_loop :: "hook_event \<Rightarrow> u64 \<Rightarrow> hook list \<Rightarrow> u64 \<Rightarrow> hook list \<times> u64" where
  "notify_loop evt phase_flag [] n = ([], n)"
| "notify_loop evt phase_flag (h # hs) n =
     (if \<not> hk_active h then (let (hs', n') = notify_loop evt phase_flag hs n in (h # hs', n'))
      else if hook_watches_syscall h (syscall_nr evt) phase_flag
      then (let (hs', n') = notify_loop evt phase_flag hs (n + 1) in (ringbuf_push h evt # hs', n'))
      else (let (hs', n') = notify_loop evt phase_flag hs n in (h # hs', n')))"

definition brights_syshook_notify ::
  "u64 \<Rightarrow> u64 \<Rightarrow> u64 list \<Rightarrow> u64 \<Rightarrow> u32 \<Rightarrow> u64 \<Rightarrow> syshook \<Rightarrow> syshook" where
  "brights_syshook_notify phase num args ret pid tsc s =
     (if \<not> sh_initialized s then s
      else
        (let phase_flag = (if phase = HOOK_EVT_PRE_SYSCALL then HOOK_FLAG_PRE else HOOK_FLAG_POST);
             (hs, n) = notify_loop (syscall_event phase num args ret pid tsc) phase_flag
                         (hook_table s) (sh_dispatched s)
         in s\<lparr>hook_table := hs, sh_dispatched := n\<rparr>))"

definition broadcast_event :: "u32 \<Rightarrow> u64 \<Rightarrow> u64 \<Rightarrow> hook_event" where
  "broadcast_event sender_pid a b =
     \<lparr>event_type = HOOK_EVT_BROADCAST, syscall_nr = 0, ev_args = replicate 6 0, ev_ret = 0,
      caller_pid = sender_pid, timestamp = 0, custom = (a, b)\<rparr>"

definition brights_syshook_broadcast :: "u32 \<Rightarrow> u64 \<Rightarrow> u64 \<Rightarrow> syshook \<Rightarrow> syshook" where
  "brights_syshook_broadcast sender_pid a b s =
     (if \<not> sh_initialized s then s
      else s\<lparr>hook_table :=
               map (\<lambda>h. if \<not> hk_active h then h
                        else if ucast (hk_flags h) AND HOOK_FLAG_BROADCAST = 0 then h
                        else ringbuf_push h (broadcast_event sender_pid a b)) (hook_table s)\<rparr>)"

definition brights_sys_hook_register :: "u32 \<Rightarrow> u64 \<Rightarrow> u64 \<Rightarrow> u64 \<Rightarrow> syshook \<Rightarrow> syshook \<times> int" where
  "brights_sys_hook_register pid lo hi flags s =
     (if \<not> sh_initialized s then (s, -1)
      else case first_idx (\<lambda>h. \<not> hk_active h) (hook_table s) of
        None \<Rightarrow> (s, -1)
      | Some slot \<Rightarrow>
          (s\<lparr>hook_table := upd_at slot
               (\<lambda>h. h\<lparr>hk_active := True, owner_pid := pid, watch_lo := lo, watch_hi := hi,
                      hk_flags := ucast (flags AND (HOOK_FLAG_PRE OR HOOK_FLAG_POST OR HOOK_FLAG_BROADCAST)),
                      hk_rd := 0, hk_wr := 0, hk_count := 0, hk_total := 0, hk_dropped := 0\<rparr>)
               (hook_table s),
             sh_created := sh_created s + 1\<rparr>, int slot))"

definition brights_sys_hook_unregister :: "u32 \<Rightarrow> u64 \<Rightarrow> syshook \<Rightarrow> syshook \<times> int" where
  "brights_sys_hook_unregister pid hook_id s =
     (if \<not> sh_initialized s \<or> hook_id \<ge> of_nat SYSHOOK_MAX then (s, -1)
      else (let i = unat hook_id; h = hook_table s ! i in
            if \<not> hk_active h then (s, -1)
            else if owner_pid h \<noteq> pid then (s, -1)
            else (s\<lparr>hook_table := upd_at i hook_release (hook_table s)\<rparr>, 0)))"

definition brights_sys_hook_poll ::
  "u32 \<Rightarrow> u64 \<Rightarrow> u64 \<Rightarrow> u64 \<Rightarrow> syshook \<Rightarrow> syshook \<times> hook_event list \<times> int" where
  "brights_sys_hook_poll pid hook_id event_buf_va max_events s =
     (if \<not> sh_initialized s \<or> hook_id \<ge> of_nat SYSHOOK_MAX then (s, [], -1)
      else if event_buf_va = 0 \<or> max_events = 0 then (s, [], -1)
      else
        (let i = unat hook_id; h = hook_table s ! i in
         if \<not> hk_active h then (s, [], -1)
         else if owner_pid h \<noteq> pid then (s, [], -1)
         else
           (let max' = (if max_events > of_nat SYSHOOK_RINGBUF_SIZE then SYSHOOK_RINGBUF_SIZE
                        else unat max_events);
                (h', es) = ringbuf_pop max' h
            in (s\<lparr>hook_table := (hook_table s)[i := h']\<rparr>, es, int (length es)))))"

text \<open>
  The waiting loop of \<open>brights_sys_hook_wait\<close>; the first argument counts the sleeps that are
  allowed, and \<open>None\<close> means that they did not suffice. The second component of the result tells
  whether the loop ended because the buffer is not empty.
\<close>

fun hook_wait_loop ::
  "nat \<Rightarrow> nat \<Rightarrow> (nat \<Rightarrow> syshook \<Rightarrow> syshook) \<Rightarrow> nat \<Rightarrow> u64 \<Rightarrow> u64 \<Rightarrow> syshook \<Rightarrow> (syshook \<times> bool) option" where
  "hook_wait_loop 0 k env i elapsed timeout_ms s = None"
| "hook_wait_loop (Suc fuel) k env i elapsed timeout_ms s =
     (if hk_count (hook_table s ! i) \<noteq> 0 then Some (s, True)
      else if timeout_ms > 0 \<and> elapsed \<ge> timeout_ms then Some (s, False)
      else hook_wait_loop fuel (Suc k) env i (elapsed + 10) timeout_ms (env k s))"

definition brights_sys_hook_wait ::
  "nat \<Rightarrow> (nat \<Rightarrow> syshook \<Rightarrow> syshook) \<Rightarrow> u32 \<Rightarrow> u64 \<Rightarrow> u64 \<Rightarrow> u64 \<Rightarrow> syshook
    \<Rightarrow> (syshook \<times> hook_event list \<times> int) option" where
  "brights_sys_hook_wait fuel env pid hook_id event_buf_va timeout_ms s =
     (if \<not> sh_initialized s \<or> hook_id \<ge> of_nat SYSHOOK_MAX then Some (s, [], -1)
      else if event_buf_va = 0 then Some (s, [], -1)
      else
        (let i = unat hook_id; h = hook_table s ! i in
         if \<not> hk_active h then Some (s, [], -1)
         else if owner_pid h \<noteq> pid then Some (s, [], -1)
         else
           (case hook_wait_loop fuel 0 env i 0 timeout_ms s of
              None \<Rightarrow> None
            | Some (s', False) \<Rightarrow> Some (s', [], 0)
            | Some (s', True) \<Rightarrow>
                (let (h', es) = ringbuf_pop 1 (hook_table s' ! i)
                 in if es = [] then Some (s', [], 0)
                    else Some (s'\<lparr>hook_table := (hook_table s')[i := h']\<rparr>, es, 1)))))"

definition brights_sys_hook_info :: "u64 \<Rightarrow> u64 \<Rightarrow> syshook \<Rightarrow> hook_info option \<times> int" where
  "brights_sys_hook_info hook_id info_buf_va s =
     (if \<not> sh_initialized s \<or> hook_id \<ge> of_nat SYSHOOK_MAX then (None, -1)
      else if info_buf_va = 0 then (None, -1)
      else
        (let h = hook_table s ! unat hook_id in
         if \<not> hk_active h then (None, -1)
         else (Some \<lparr>hi_hook_id = ucast hook_id, hi_owner_pid = owner_pid h, hi_flags = hk_flags h,
                     hi_event_count = hk_count h, hi_total_events = hk_total h,
                     hi_dropped_events = hk_dropped h\<rparr>, 0)))"

definition brights_sys_broadcast :: "u32 \<Rightarrow> u64 \<Rightarrow> u64 \<Rightarrow> syshook \<Rightarrow> syshook \<times> int" where
  "brights_sys_broadcast pid a b s = (brights_syshook_broadcast pid a b s, 0)"

definition brights_syshook_cleanup_pid :: "u32 \<Rightarrow> syshook \<Rightarrow> syshook" where
  "brights_syshook_cleanup_pid pid s =
     (if \<not> sh_initialized s \<or> pid = 0 then s
      else s\<lparr>hook_table :=
               map (\<lambda>h. if hk_active h \<and> owner_pid h = pid then hook_release h else h) (hook_table s)\<rparr>)"

definition brights_syshook_active_count :: "syshook \<Rightarrow> nat" where
  "brights_syshook_active_count s =
     (if \<not> sh_initialized s then 0 else length (filter hk_active (hook_table s)))"

definition brights_syshook_get_entry :: "int \<Rightarrow> syshook \<Rightarrow> hook option" where
  "brights_syshook_get_entry slot s =
     (if \<not> sh_initialized s \<or> slot < 0 \<or> slot \<ge> int SYSHOOK_MAX then None
      else Some (hook_table s ! nat slot))"

subsection \<open>The event queue of a hook\<close>

definition hook_inv :: "hook \<Rightarrow> bool" where
  "hook_inv h \<longleftrightarrow> length (hk_ringbuf h) = 64 \<and> hk_rd h < 64 \<and> hk_count h \<le> 64
     \<and> hk_wr h = (hk_rd h + hk_count h) mod 64"

definition pending :: "hook \<Rightarrow> hook_event list" where
  "pending h = ring_bytes (hk_ringbuf h) 64 (hk_rd h) (hk_count h)"

lemma length_pending [simp]: "length (pending h) = hk_count h"
  by (simp add: pending_def)

lemma ring_bytes_overwrite:
  assumes "rd < sz" "sz = length buf"
  shows "ring_bytes (buf[rd := e]) sz ((rd + 1) mod sz) sz = tl (ring_bytes buf sz rd sz) @ [e]"
proof -
  have sz: "0 < sz" using assms(1) by linarith
  have tl: "tl (ring_bytes buf sz rd sz) = ring_bytes buf sz ((rd + 1) mod sz) (sz - 1)"
    using ring_bytes_pop [of sz rd sz buf] sz assms(1) by simp
  have "((rd + 1) mod sz + (sz - 1)) mod sz = (rd + 1 + (sz - 1)) mod sz" by (rule mod_add_left_eq)
  also have "rd + 1 + (sz - 1) = rd + sz" using sz by simp
  finally have "((rd + 1) mod sz + (sz - 1)) mod sz = (rd + sz) mod sz" .
  then have rd: "((rd + 1) mod sz + (sz - 1)) mod sz = rd" using assms(1) by simp
  show ?thesis
    using ring_bytes_push [of "sz - 1" sz buf "(rd + 1) mod sz" e] sz assms(2)
    unfolding tl rd by simp
qed

lemma ringbuf_push_pending:
  assumes "hook_inv h"
  shows "hook_inv (ringbuf_push h e)"
    and "pending (ringbuf_push h e) = (if hk_count h = 64 then tl (pending h) else pending h) @ [e]"
proof -
  note inv = assms [unfolded hook_inv_def]
  show "hook_inv (ringbuf_push h e)"
  proof (cases "hk_count h = 64")
    case True
    then have "hk_wr h = hk_rd h" using inv by simp
    then show ?thesis
      using True inv by (simp add: hook_inv_def ringbuf_push_def SYSHOOK_RINGBUF_SIZE_def Let_def)
  next
    case False
    then have c: "hk_count h < 64" using inv by simp
    have w: "(hk_wr h + 1) mod 64 = (hk_rd h + (hk_count h + 1)) mod 64"
      using inv mod_add_left_eq [of "hk_rd h + hk_count h" 64 1] by (simp only: add.assoc)
    have push: "ringbuf_push h e = h\<lparr>hk_count := hk_count h + 1, hk_ringbuf := (hk_ringbuf h)[hk_wr h := e],
        hk_wr := (hk_wr h + 1) mod 64, hk_total := hk_total h + 1\<rparr>"
      using c by (simp add: ringbuf_push_def SYSHOOK_RINGBUF_SIZE_def)
    show ?thesis unfolding push hook_inv_def using inv c by (simp add: mod_Suc_eq)
  qed
  show "pending (ringbuf_push h e) = (if hk_count h = 64 then tl (pending h) else pending h) @ [e]"
  proof (cases "hk_count h = 64")
    case True
    then have wr: "hk_wr h = hk_rd h" using inv by simp
    have "ring_bytes ((hk_ringbuf h)[hk_rd h := e]) 64 ((hk_rd h + 1) mod 64) 64
        = tl (ring_bytes (hk_ringbuf h) 64 (hk_rd h) 64) @ [e]"
      using inv by (intro ring_bytes_overwrite) auto
    then show ?thesis
      using True wr by (simp add: pending_def ringbuf_push_def SYSHOOK_RINGBUF_SIZE_def)
  next
    case False
    then show ?thesis
      using assms ring_bytes_push [of "hk_count h" 64 "hk_ringbuf h" "hk_rd h" e]
      by (simp add: hook_inv_def pending_def ringbuf_push_def SYSHOOK_RINGBUF_SIZE_def Let_def)
  qed
qed

lemma ringbuf_pop_pending:
  assumes "hook_inv h"
  shows "\<exists>h'. ringbuf_pop n h = (h', take n (pending h)) \<and> hook_inv h' \<and> pending h' = drop n (pending h)
    \<and> h' = h\<lparr>hk_rd := hk_rd h', hk_count := hk_count h'\<rparr>"
  using assms
proof (induction n arbitrary: h)
  case (Suc n)
  show ?case
  proof (cases "hk_count h = 0")
    case True
    then have "pending h = []" by (simp add: pending_def ring_bytes_def)
    then show ?thesis using True Suc.prems by simp
  next
    case False
    let ?h = "h\<lparr>hk_rd := (hk_rd h + 1) mod 64, hk_count := hk_count h - 1\<rparr>"
    have p: "pending h = hk_ringbuf h ! hk_rd h # pending ?h"
      using ring_bytes_pop [of "hk_count h" "hk_rd h" 64 "hk_ringbuf h"] False Suc.prems
      by (simp add: pending_def hook_inv_def)
    have "hook_inv ?h"
    proof -
      have "((hk_rd h + 1) mod 64 + (hk_count h - 1)) mod 64 = (hk_rd h + hk_count h) mod 64"
        using False mod_add_left_eq [of "hk_rd h + 1" 64 "hk_count h - 1"] by simp
      then show ?thesis using Suc.prems by (auto simp: hook_inv_def)
    qed
    then obtain h' where "ringbuf_pop n ?h = (h', take n (pending ?h))" "hook_inv h'"
        "pending h' = drop n (pending ?h)" "h' = ?h\<lparr>hk_rd := hk_rd h', hk_count := hk_count h'\<rparr>"
      using Suc.IH by blast
    then show ?thesis using False p by (auto simp: SYSHOOK_RINGBUF_SIZE_def)
  qed
qed simp

lemma notify_loop_map:
  "fst (notify_loop e pf hs n)
     = map (\<lambda>h. if hk_active h \<and> hook_watches_syscall h (syscall_nr e) pf then ringbuf_push h e else h) hs"
  by (induction e pf hs n rule: notify_loop.induct) (auto split: prod.splits)

lemma notify_loop_count:
  "snd (notify_loop e pf hs n)
     = n + of_nat (length (filter (\<lambda>h. hk_active h \<and> hook_watches_syscall h (syscall_nr e) pf) hs))"
  by (induction e pf hs n rule: notify_loop.induct) (auto split: prod.splits)

definition syshook_inv :: "syshook \<Rightarrow> bool" where
  "syshook_inv s \<longleftrightarrow> length (hook_table s) = SYSHOOK_MAX \<and> (\<forall>h\<in>set (hook_table s). hook_inv h)"

lemma syshook_inv_nth: "syshook_inv s \<Longrightarrow> i < SYSHOOK_MAX \<Longrightarrow> hook_inv (hook_table s ! i)"
  by (auto simp: syshook_inv_def)

lemma hook_id_less: "\<not> hook_id \<ge> of_nat SYSHOOK_MAX \<Longrightarrow> unat (hook_id :: u64) < SYSHOOK_MAX"
  by (simp add: SYSHOOK_MAX_def not_le word_less_nat_alt)

lemma watches_iff:
  "hook_watches_syscall h nr pf \<longleftrightarrow> ucast (hk_flags h) AND pf \<noteq> 0 \<and>
     (nr < 64 \<and> bit (watch_lo h) (unat nr) \<or> 64 \<le> nr \<and> nr < 128 \<and> bit (watch_hi h) (unat (nr - 64)))"
proof -
  have b: "drop_bit n w AND 1 \<noteq> 0 \<longleftrightarrow> bit w n" for n and w :: u64
    by (simp add: and_one_eq bit_iff_odd_drop_bit odd_iff_mod_2_eq_one)
  show ?thesis unfolding hook_watches_syscall_def b by auto
qed

subsection \<open>Waiting\<close>

text \<open>Every sleep adds 10 to the elapsed time, so a positive timeout bounds the number of sleeps.\<close>

lemma hook_wait_loop_ends:
  assumes "0 < timeout_ms" "unat timeout_ms \<le> 2 ^ 64 - 10"
    "unat timeout_ms + 10 \<le> unat elapsed + 10 * fuel" "0 < fuel"
  shows "\<exists>r. hook_wait_loop fuel k env i elapsed timeout_ms s = Some r"
  using assms(3,4)
proof (induction fuel arbitrary: k elapsed s)
  case (Suc fuel)
  show ?case
  proof (cases "hk_count (hook_table s ! i) \<noteq> 0 \<or> elapsed \<ge> timeout_ms")
    case True
    then show ?thesis using assms(1) by (auto simp: word_gt_0)
  next
    case False
    then have lt: "unat elapsed < unat timeout_ms" by (simp add: not_le word_less_nat_alt)
    then have e: "unat (elapsed + 10) = unat elapsed + 10"
      using assms(2) by (simp add: unat_word_ariths)
    have "0 < fuel" using Suc.prems lt by (cases fuel) auto
    moreover have "unat timeout_ms + 10 \<le> unat (elapsed + 10) + 10 * fuel" using Suc.prems e by simp
    ultimately show ?thesis
      using Suc.IH [of "elapsed + 10" "Suc k" "env k s"] False by simp
  qed
qed simp

subsection \<open>Properties\<close>

text \<open>Polling a hook one owns returns the oldest pending events, in order, as many as asked for (at
  most 64), removes exactly those and leaves every other hook alone.\<close>
theorem hook_poll_oldest_first:
  assumes "syshook_inv s" "sh_initialized s" "hook_id < of_nat SYSHOOK_MAX" "event_buf_va \<noteq> 0" "max_events \<noteq> 0"
    "hk_active (hook_table s ! unat hook_id)" "owner_pid (hook_table s ! unat hook_id) = pid"
  shows "\<exists>s'. brights_sys_hook_poll pid hook_id event_buf_va max_events s
      = (s', take (min 64 (unat max_events)) (pending (hook_table s ! unat hook_id)),
         int (min (min 64 (unat max_events)) (hk_count (hook_table s ! unat hook_id))))
    \<and> syshook_inv s'
    \<and> pending (hook_table s' ! unat hook_id)
        = drop (min 64 (unat max_events)) (pending (hook_table s ! unat hook_id))
    \<and> (\<forall>j. j \<noteq> unat hook_id \<longrightarrow> hook_table s' ! j = hook_table s ! j)"
proof -
  define i m where "i = unat hook_id" and "m = min 64 (unat max_events)"
  have i: "i < SYSHOOK_MAX" using hook_id_less [of hook_id] assms(3) by (simp add: i_def)
  have m: "(if max_events > of_nat SYSHOOK_RINGBUF_SIZE then SYSHOOK_RINGBUF_SIZE else unat max_events) = m"
    by (auto simp: m_def SYSHOOK_RINGBUF_SIZE_def word_less_nat_alt)
  obtain h' where h': "ringbuf_pop m (hook_table s ! i) = (h', take m (pending (hook_table s ! i)))"
      "hook_inv h'" "pending h' = drop m (pending (hook_table s ! i))"
    using ringbuf_pop_pending [OF syshook_inv_nth [OF assms(1) i]] by blast
  let ?s = "s\<lparr>hook_table := (hook_table s)[i := h']\<rparr>"
  have "brights_sys_hook_poll pid hook_id event_buf_va max_events s
      = (?s, take m (pending (hook_table s ! i)), int (min m (hk_count (hook_table s ! i))))"
    using assms h'(1) unfolding brights_sys_hook_poll_def m by (simp add: i_def [symmetric] not_le min.commute Let_def)
  moreover have "syshook_inv ?s"
    using assms(1) h'(2) by (auto simp: syshook_inv_def dest!: subsetD [OF set_update_subset_insert])
  ultimately show ?thesis
    using h'(3) i assms(1) by (auto simp: i_def m_def syshook_inv_def)
qed

definition demo_hook :: hook where
  "demo_hook = \<lparr>hk_active = True, owner_pid = 5, watch_lo = 2, watch_hi = 0, hk_flags = 3,
     hk_ringbuf = replicate 64 (broadcast_event 1 0 0), hk_rd = 0, hk_wr = 0, hk_count = 0,
     hk_total = 0, hk_dropped = 0\<rparr>"

definition demo_hooks :: syshook where
  "demo_hooks = \<lparr>hook_table = ringbuf_push demo_hook (syscall_event 0 1 [] 0 7 99) # replicate 31 (hook_release demo_hook),
     sh_initialized = True, sh_created = 1, sh_dispatched = 1\<rparr>"

lemma demo_hook_inv: "hook_inv demo_hook" "hook_inv (hook_release demo_hook)" "pending demo_hook = []"
  by (simp_all add: hook_inv_def demo_hook_def hook_release_def pending_def ring_bytes_def)

lemma demo_hooks_props:
  "syshook_inv demo_hooks" "sh_initialized demo_hooks"
  "pending (hook_table demo_hooks ! 0) = [syscall_event 0 1 [] 0 7 99]"
  "hk_active (hook_table demo_hooks ! 0)" "owner_pid (hook_table demo_hooks ! 0) = 5"
  using demo_hook_inv ringbuf_push_pending [of demo_hook]
  by (auto simp: demo_hooks_def syshook_inv_def SYSHOOK_MAX_def)
    (simp_all add: ringbuf_push_def demo_hook_def SYSHOOK_RINGBUF_SIZE_def)

theorem hook_poll_oldest_first_witness:
  "\<exists>s'. brights_sys_hook_poll 5 0 4096 8 demo_hooks = (s', [syscall_event 0 1 [] 0 7 99], 1)
    \<and> pending (hook_table s' ! 0) = []"
proof -
  have "hk_count (hook_table demo_hooks ! 0) = 1"
    using arg_cong [OF demo_hooks_props(3), of length] by simp
  then show ?thesis
    using hook_poll_oldest_first [of demo_hooks 0 4096 8 5] demo_hooks_props by (auto simp: SYSHOOK_MAX_def)
qed

text \<open>C26: a system-call notification appends exactly one event to every active hook whose flags and
  watch mask select the call (dropping that hook's oldest event if its buffer is full), touches no
  other hook, keeps the table well formed, and counts the deliveries.\<close>
theorem hook_notify_exact:
  fixes phase num ret tsc :: u64 and pid :: u32 and args :: "u64 list"
  assumes "syshook_inv s" "sh_initialized s" "i < SYSHOOK_MAX"
  defines "evt \<equiv> syscall_event phase num args ret pid tsc"
    and "sel \<equiv> (\<lambda>h. hk_active h \<and> hook_watches_syscall h num
           (if phase = HOOK_EVT_PRE_SYSCALL then HOOK_FLAG_PRE else HOOK_FLAG_POST))"
    and "s' \<equiv> brights_syshook_notify phase num args ret pid tsc s"
  shows "syshook_inv s'
    \<and> (sel (hook_table s ! i) \<longrightarrow> pending (hook_table s' ! i)
         = (if hk_count (hook_table s ! i) = 64 then tl (pending (hook_table s ! i))
            else pending (hook_table s ! i)) @ [evt])
    \<and> (\<not> sel (hook_table s ! i) \<longrightarrow> hook_table s' ! i = hook_table s ! i)
    \<and> sh_dispatched s' = sh_dispatched s + of_nat (length (filter sel (hook_table s)))"
proof -
  have num: "syscall_nr evt = num" by (simp add: evt_def syscall_event_def)
  have tab: "hook_table s' = map (\<lambda>h. if sel h then ringbuf_push h evt else h) (hook_table s)"
    and cnt: "sh_dispatched s' = sh_dispatched s + of_nat (length (filter sel (hook_table s)))"
    using assms(2) unfolding s'_def brights_syshook_notify_def Let_def evt_def [symmetric]
    using notify_loop_map [of evt] notify_loop_count [of evt]
    by (simp_all add: case_prod_beta num sel_def)
  have "syshook_inv s'"
    using assms(1) ringbuf_push_pending(1) by (auto simp: syshook_inv_def tab)
  then show ?thesis
    using assms(1,3) cnt ringbuf_push_pending(2) [OF syshook_inv_nth [OF assms(1,3)], of evt]
    by (auto simp: tab syshook_inv_def)
qed

theorem hook_notify_exact_witness:
  "pending (hook_table (brights_syshook_notify 0 1 [] 0 8 100 demo_hooks) ! 0)
     = [syscall_event 0 1 [] 0 7 99, syscall_event 0 1 [] 0 8 100]"
proof -
  have "hk_count (hook_table demo_hooks ! 0) = 1"
    using arg_cong [OF demo_hooks_props(3), of length] by simp
  moreover have "hook_watches_syscall (hook_table demo_hooks ! 0) 1 HOOK_FLAG_PRE"
    by (simp add: watches_iff demo_hooks_def ringbuf_push_def demo_hook_def SYSHOOK_RINGBUF_SIZE_def
        HOOK_FLAG_PRE_def)
  ultimately show ?thesis
    using hook_notify_exact [of demo_hooks 0 0 1 "[]" 0 8 100] demo_hooks_props
    by (simp add: SYSHOOK_MAX_def HOOK_EVT_PRE_SYSCALL_def)
qed

text \<open>After the cleanup for an exiting process (pid not 0) no active hook belongs to it, and every
  hook that did not belong to it is unchanged.\<close>
theorem hook_cleanup_exact:
  assumes "sh_initialized s" "pid \<noteq> 0" "i < length (hook_table s)"
  defines "s' \<equiv> brights_syshook_cleanup_pid pid s"
  shows "\<not> (hk_active (hook_table s' ! i) \<and> owner_pid (hook_table s' ! i) = pid)
    \<and> (\<not> (hk_active (hook_table s ! i) \<and> owner_pid (hook_table s ! i) = pid)
         \<longrightarrow> hook_table s' ! i = hook_table s ! i)
    \<and> (syshook_inv s \<longrightarrow> syshook_inv s')"
  using assms by (auto simp: brights_syshook_cleanup_pid_def hook_release_def syshook_inv_def hook_inv_def)

theorem hook_cleanup_exact_witness:
  "\<not> (hk_active (hook_table (brights_syshook_cleanup_pid 5 demo_hooks) ! 0)
      \<and> owner_pid (hook_table (brights_syshook_cleanup_pid 5 demo_hooks) ! 0) = 5)"
  using hook_cleanup_exact [of demo_hooks 5 0] demo_hooks_props by (auto simp: demo_hooks_def)

text \<open>C33: \<open>brights_sys_hook_wait\<close> with a positive timeout (below 2^64 - 10 ms) returns, whatever the rest
  of the system does in the meantime: \<open>timeout / 10 + 2\<close> turns of its loop are enough.\<close>
theorem hook_wait_returns:
  assumes "0 < timeout_ms" "unat timeout_ms \<le> 2 ^ 64 - 10"
  shows "\<exists>r. brights_sys_hook_wait (unat timeout_ms div 10 + 2) env pid hook_id va timeout_ms s = Some r"
proof -
  have "unat timeout_ms < 10 * (unat timeout_ms div 10) + 10" by linarith
  then have "unat timeout_ms + 10 \<le> unat (0::u64) + 10 * (unat timeout_ms div 10 + 2)" by simp
  then obtain r where "hook_wait_loop (unat timeout_ms div 10 + 2) 0 env (unat hook_id) 0 timeout_ms s = Some r"
    using hook_wait_loop_ends [OF assms] by (metis add_gr_0 zero_less_numeral)
  then show ?thesis
    by (auto simp: brights_sys_hook_wait_def Let_def split: prod.splits bool.splits)
qed

text \<open>Witness: the owner waits 30 ms on an active hook without events.\<close>

definition demo_idle :: syshook where
  "demo_idle = demo_hooks\<lparr>hook_table := demo_hook # replicate 31 (hook_release demo_hook)\<rparr>"

theorem hook_wait_returns_witness:
  "hk_active (hook_table demo_idle ! 0) \<and> owner_pid (hook_table demo_idle ! 0) = 5 \<and> hk_count (hook_table demo_idle ! 0) = 0
    \<and> (\<exists>r. brights_sys_hook_wait 5 (\<lambda>k s. s) 5 0 4096 30 demo_idle = Some r)"
  using hook_wait_returns [of 30 "\<lambda>k s. s" 5 0 4096 demo_idle] by (simp add: demo_idle_def demo_hook_def)

end
