(* ===== verification/Paths.thy ===== *)
theory Paths
  imports Kernel_Prelude Kutil
begin

text \<open>
  Path normalisation. The same loop appears three times in the kernel: \<open>normalize_path\<close> of
  \<open>kernel/fs/ramfs.c\<close> (segments of at most 127 characters), \<open>vfs_normalize\<close> of \<open>kernel/fs/vfs2.c\<close>
  and \<open>brights_proc_resolve_path\<close> of \<open>kernel/proc.c\<close> (at most 63 characters); each keeps at most 16
  segments. \<open>norm_loop\<close> is that loop with the segment bound as an argument and \<open>emit_segs\<close> the
  code that writes the result into a buffer of \<open>cap\<close> bytes. \<open>None\<close> is the code's -1. The routines read
  their argument up to the terminator, \<open>cstring_of\<close>.

  The specification \<open>resolve_segs\<close> works on the list of non-empty fields of the path; canonical
  paths are the joins of clean segment lists. The locale \<open>path_normalizer\<close> is the contract the
  file systems rely on, interpreted on the three routines.
\<close>

abbreviation slash :: char where "slash \<equiv> CHR ''/''"

subsection \<open>The loop\<close>

lemma norm_loop_decreases:
  assumes "dropWhile (\<lambda>c. c = slash) p \<noteq> []"
  shows "length (dropWhile (\<lambda>c. c \<noteq> slash) (dropWhile (\<lambda>c. c = slash) p)) < length p"
proof -
  let ?q = "dropWhile (\<lambda>c. c = slash) p"
  have "hd ?q \<noteq> slash" using assms by (rule hd_dropWhile)
  then have "length (dropWhile (\<lambda>c. c \<noteq> slash) ?q) < length ?q"
    using assms by (cases ?q) (auto simp: le_imp_less_Suc length_dropWhile_le)
  also have "\<dots> \<le> length p" by (rule length_dropWhile_le)
  finally show ?thesis .
qed

function norm_loop :: "nat \<Rightarrow> string \<Rightarrow> string list \<Rightarrow> string list option" where
  "norm_loop smax p segs =
     (let p1 = dropWhile (\<lambda>c. c = slash) p in
      if p1 = [] then Some segs
      else
        (let seg = takeWhile (\<lambda>c. c \<noteq> slash) p1;
             rest = dropWhile (\<lambda>c. c \<noteq> slash) p1
         in if length seg > smax then None
            else if seg = ''.'' then norm_loop smax rest segs
            else if seg = ''..'' then norm_loop smax rest (butlast segs)
            else if length segs \<ge> 16 then None
            else norm_loop smax rest (segs @ [seg])))"
  by pat_completeness auto

termination
  by (relation "measure (\<lambda>(smax, p, segs). length p)") (auto simp del: dropWhile_eq_Nil_conv intro!: norm_loop_decreases)

declare norm_loop.simps [simp del]

fun emit :: "nat \<Rightarrow> string \<Rightarrow> string \<Rightarrow> string option" where
  "emit cap out [] = Some out"
| "emit cap out (c # cs) = (if length out \<ge> cap - 1 then None else emit cap (out @ [c]) cs)"

fun emit_segs :: "nat \<Rightarrow> string \<Rightarrow> string list \<Rightarrow> string option" where
  "emit_segs cap out [] = Some out"
| "emit_segs cap out [s] = emit cap out s"
| "emit_segs cap out (s # t # ss) =
     (case emit cap out s of
        None \<Rightarrow> None
      | Some out' \<Rightarrow>
          (if length out' \<ge> cap - 1 then None else emit_segs cap (out' @ [slash]) (t # ss)))"

text \<open>\<open>vfs_normalize(path, out, cap)\<close> of \<open>vfs2.c\<close>, which is also the tail of \<open>brights_proc_resolve_path\<close>.\<close>

definition vfs_normalize :: "string \<Rightarrow> nat \<Rightarrow> string option" where
  "vfs_normalize path cap =
     (case norm_loop 63 (cstring_of path) [] of
        None \<Rightarrow> None
      | Some segs \<Rightarrow> emit_segs cap [slash] segs)"

text \<open>\<open>normalize_path\<close> of \<open>ramfs.c\<close>; a null path is \<open>None\<close>.\<close>

definition normalize_path :: "string option \<Rightarrow> nat \<Rightarrow> string option" where
  "normalize_path path cap =
     (case path of
        None \<Rightarrow> None
      | Some p \<Rightarrow>
          (if cap < 2 then None
           else case norm_loop 127 (cstring_of p) [] of
             None \<Rightarrow> None
           | Some segs \<Rightarrow> (if segs = [] then Some [slash] else emit_segs cap [slash] segs)))"

subsection \<open>Specification\<close>

definition path_fields :: "string \<Rightarrow> string list" where
  "path_fields p = filter (\<lambda>f. f \<noteq> []) (fields (\<lambda>c. c = slash) p)"

fun resolve_segs :: "nat \<Rightarrow> string list \<Rightarrow> string list \<Rightarrow> string list option" where
  "resolve_segs smax [] segs = Some segs"
| "resolve_segs smax (f # fs) segs =
     (if length f > smax then None
      else if f = ''.'' then resolve_segs smax fs segs
      else if f = ''..'' then resolve_segs smax fs (butlast segs)
      else if length segs \<ge> 16 then None
      else resolve_segs smax fs (segs @ [f]))"

definition join :: "string list \<Rightarrow> string" where
  "join segs = (if segs = [] then [slash] else concat (map (\<lambda>s. slash # s) segs))"

definition clean_seg :: "nat \<Rightarrow> string \<Rightarrow> bool" where
  "clean_seg smax s \<longleftrightarrow> s \<noteq> [] \<and> cstr s \<and> length s \<le> smax \<and> slash \<notin> set s \<and> s \<noteq> ''.'' \<and> s \<noteq> ''..''"

definition clean_segs :: "nat \<Rightarrow> string list \<Rightarrow> bool" where
  "clean_segs smax segs \<longleftrightarrow> length segs \<le> 16 \<and> (\<forall>s\<in>set segs. clean_seg smax s)"

definition canonical :: "nat \<Rightarrow> nat \<Rightarrow> string \<Rightarrow> bool" where
  "canonical smax cap p \<longleftrightarrow> (\<exists>segs. clean_segs smax segs \<and> p = join segs) \<and> length p < cap"

subsection \<open>The loop implements the specification\<close>

lemma path_fields_skip: "path_fields (dropWhile (\<lambda>c. c = slash) p) = path_fields p"
  by (simp add: path_fields_def fields_skip)

lemma path_fields_Nil [simp]: "path_fields [] = []"
  by (simp add: path_fields_def)

lemma path_fields_slash [simp]: "path_fields (slash # p) = path_fields p"
  by (simp add: path_fields_def)

lemma path_fields_first:
  assumes "p \<noteq> []" "hd p \<noteq> slash"
  shows "path_fields p = takeWhile (\<lambda>c. c \<noteq> slash) p # path_fields (dropWhile (\<lambda>c. c \<noteq> slash) p)"
proof -
  define a r where "a = takeWhile (\<lambda>c. c \<noteq> slash) p" and "r = dropWhile (\<lambda>c. c \<noteq> slash) p"
  have a: "\<forall>c\<in>set a. \<not> c = slash" unfolding a_def using set_takeWhileD by fast
  have ne: "a \<noteq> []" using assms by (cases p) (auto simp: a_def)
  have p: "p = a @ r" unfolding a_def r_def by (rule takeWhile_dropWhile_id [symmetric])
  have f: "fields (\<lambda>c. c = slash) p = (a @ hd (fields (\<lambda>c. c = slash) r)) # tl (fields (\<lambda>c. c = slash) r)"
    unfolding p using a by (rule fields_prefix)
  have "path_fields p = a # path_fields r"
  proof (cases r)
    case Nil
    then show ?thesis using ne by (simp add: path_fields_def f)
  next
    case (Cons c t)
    then have "c = slash" using hd_dropWhile [of "\<lambda>c. c \<noteq> slash" p] by (simp add: r_def)
    then show ?thesis using ne Cons by (simp add: path_fields_def f)
  qed
  then show ?thesis by (simp only: a_def r_def)
qed

lemma norm_loop_resolve: "norm_loop smax p segs = resolve_segs smax (path_fields p) segs"
proof (induction smax p segs rule: norm_loop.induct)
  case (1 smax p segs)
  let ?p1 = "dropWhile (\<lambda>c. c = slash) p"
  show ?case
  proof (cases "?p1 = []")
    case True
    then have "path_fields p = []" using path_fields_skip [of p] by (simp only: path_fields_Nil)
    then show ?thesis using True by (subst norm_loop.simps) (simp only: Let_def resolve_segs.simps, simp)
  next
    case False
    define seg rest where "seg = takeWhile (\<lambda>c. c \<noteq> slash) ?p1" and "rest = dropWhile (\<lambda>c. c \<noteq> slash) ?p1"
    have "hd ?p1 \<noteq> slash" using False by (rule hd_dropWhile)
    then have "path_fields ?p1 = seg # path_fields rest"
      unfolding seg_def rest_def by (rule path_fields_first [OF False])
    then have pf: "path_fields p = seg # path_fields rest" by (simp only: path_fields_skip)
    have unfold: "norm_loop smax p segs =
        (if length seg > smax then None
         else if seg = ''.'' then norm_loop smax rest segs
         else if seg = ''..'' then norm_loop smax rest (butlast segs)
         else if length segs \<ge> 16 then None
         else norm_loop smax rest (segs @ [seg]))"
      unfolding norm_loop.simps [of smax p segs] Let_def seg_def rest_def using False by (simp only: if_False)
    note IH = "1.IH" [OF refl False seg_def rest_def]
    show ?thesis unfolding unfold pf resolve_segs.simps using IH by presburger
  qed
qed

lemma resolve_segs_clean:
  assumes "resolve_segs smax fs segs = Some out" "clean_segs smax segs"
    "\<forall>f\<in>set fs. f \<noteq> [] \<and> cstr f \<and> slash \<notin> set f"
  shows "clean_segs smax out"
  using assms
proof (induction smax fs segs rule: resolve_segs.induct)
  case (2 smax f fs segs)
  have "clean_segs smax (butlast segs)" using "2.prems"(2) by (auto simp: clean_segs_def dest: in_set_butlastD)
  moreover have "\<not> length f > smax \<Longrightarrow> f \<noteq> ''.'' \<Longrightarrow> f \<noteq> ''..'' \<Longrightarrow> \<not> length segs \<ge> 16 \<Longrightarrow> clean_segs smax (segs @ [f])"
    using "2.prems" by (auto simp: clean_segs_def clean_seg_def)
  ultimately show ?case using 2 by (simp split: if_splits)
qed simp

lemma resolve_segs_id:
  "clean_segs smax (segs @ fs) \<Longrightarrow> resolve_segs smax fs segs = Some (segs @ fs)"
  by (induction fs arbitrary: segs) (auto simp: clean_segs_def clean_seg_def)

lemma fields_no_delim: "f \<in> set (fields D p) \<Longrightarrow> \<forall>c\<in>set f. \<not> D c"
proof (induction p arbitrary: f)
  case (Cons c p)
  have "hd (fields D p) \<in> set (fields D p)" "set (tl (fields D p)) \<subseteq> set (fields D p)"
    by (auto dest: list.set_sel(2) [OF fields_not_Nil])
  moreover from this have "\<forall>x\<in>set (hd (fields D p)). \<not> D x" using Cons.IH by blast
  ultimately show ?case using Cons by (auto split: if_splits)
qed simp

lemma fields_subset: "f \<in> set (fields D p) \<Longrightarrow> set f \<subseteq> set p"
proof (induction p arbitrary: f)
  case (Cons c p)
  have "hd (fields D p) \<in> set (fields D p)" "set (tl (fields D p)) \<subseteq> set (fields D p)"
    by (auto dest: list.set_sel(2) [OF fields_not_Nil])
  moreover from this have "\<And>x. x \<in> set (hd (fields D p)) \<Longrightarrow> x \<in> set p" using Cons.IH by blast
  ultimately show ?case using Cons by (auto split: if_splits)
qed simp

lemma path_fields_clean: "f \<in> set (path_fields p) \<Longrightarrow> cstr p \<Longrightarrow> f \<noteq> [] \<and> cstr f \<and> slash \<notin> set f"
  using fields_no_delim [of f "\<lambda>c. c = slash" p] fields_subset [of f "\<lambda>c. c = slash" p]
  by (auto simp: path_fields_def cstr_def)

lemma path_fields_concat:
  "\<forall>s\<in>set segs. s \<noteq> [] \<and> slash \<notin> set s \<Longrightarrow> path_fields (concat (map (\<lambda>s. slash # s) segs)) = segs"
proof (induction segs)
  case (Cons s segs)
  let ?r = "concat (map (\<lambda>s. slash # s) segs)"
  have s: "\<forall>c\<in>set s. c \<noteq> slash" using Cons.prems by auto
  have "takeWhile (\<lambda>c. c \<noteq> slash) ?r = []" "dropWhile (\<lambda>c. c \<noteq> slash) ?r = ?r"
    by (cases segs; simp)+
  then have "takeWhile (\<lambda>c. c \<noteq> slash) (s @ ?r) = s" "dropWhile (\<lambda>c. c \<noteq> slash) (s @ ?r) = ?r"
    using s by (simp_all add: takeWhile_append2 dropWhile_append2)
  moreover have "s \<noteq> []" using Cons.prems by simp
  then have "s @ ?r \<noteq> []" "hd (s @ ?r) \<noteq> slash" using s hd_in_set [of s] by (simp_all add: hd_append)
  ultimately show ?case using Cons path_fields_first [of "s @ ?r"] by simp
qed simp

lemma path_fields_join:
  assumes "clean_segs smax segs"
  shows "path_fields (join segs) = segs"
proof (cases "segs = []")
  case False
  then show ?thesis using path_fields_concat [of segs] assms by (auto simp: join_def clean_segs_def clean_seg_def)
qed (simp add: join_def)

lemma fields_append: "D c \<Longrightarrow> fields D (a @ c # b) = fields D a @ fields D b"
  by (induction a) auto

lemma path_fields_append: "path_fields (a @ slash # b) = path_fields a @ path_fields b"
  by (simp add: path_fields_def fields_append)

lemma resolve_segs_append:
  "resolve_segs smax (fs @ gs) segs = (case resolve_segs smax fs segs of None \<Rightarrow> None | Some out \<Rightarrow> resolve_segs smax gs out)"
  by (induction smax fs segs rule: resolve_segs.induct) auto

subsection \<open>Writing the result\<close>

lemma emit_eq:
  "length out < cap \<Longrightarrow> emit cap out s = (if length (out @ s) < cap then Some (out @ s) else None)"
  by (induction cap out s rule: emit.induct) auto

lemma emit_segs_eq:
  assumes "length out < cap" "out = pre @ [slash]" "segs \<noteq> []"
  shows "emit_segs cap out segs =
    (let r = pre @ concat (map (\<lambda>s. slash # s) segs) in if length r < cap then Some r else None)"
  using assms
proof (induction cap out segs arbitrary: pre rule: emit_segs.induct)
  case (2 cap out s)
  then show ?case by (simp add: emit_eq)
next
  case (3 cap out s t ss)
  show ?case
  proof (cases "length (out @ s) < cap")
    case True
    then have e: "emit cap out s = Some (out @ s)" using 3 by (simp add: emit_eq)
    show ?thesis
    proof (cases "length (out @ s) \<ge> cap - 1")
      case True
      then show ?thesis using e "3.prems" by (auto simp: Let_def)
    next
      case False
      then have "emit_segs cap ((out @ s) @ [slash]) (t # ss) =
          (let r = (out @ s) @ concat (map (\<lambda>s. slash # s) (t # ss)) in if length r < cap then Some r else None)"
        using e by (intro "3.IH") auto
      then show ?thesis using e False "3.prems" by simp
    qed
  next
    case False
    then show ?thesis using 3 by (auto simp: emit_eq Let_def)
  qed
qed simp

lemma emit_segs_join:
  assumes "2 \<le> cap"
  shows "emit_segs cap [slash] segs = (if length (join segs) < cap then Some (join segs) else None)"
  using assms emit_segs_eq [of "[slash]" cap "[]" segs] by (cases "segs = []") (auto simp: join_def Let_def)

subsection \<open>The contract of a normaliser\<close>

locale path_normalizer =
  fixes norm :: "string \<Rightarrow> string option"
    and canon :: "string \<Rightarrow> bool"
  assumes norm_canon: "norm p = Some q \<Longrightarrow> canon q"
    and canon_fix: "canon q \<Longrightarrow> norm q = Some q"
begin

lemma norm_idem: "norm p = Some q \<Longrightarrow> norm q = Some q"
  by (rule canon_fix [OF norm_canon])

lemma canon_iff: "canon q \<longleftrightarrow> norm q = Some q"
  using norm_canon canon_fix by blast

lemma canon_inj: "canon p \<Longrightarrow> canon q \<Longrightarrow> norm p = norm q \<Longrightarrow> p = q"
  by (simp add: canon_fix)

end

lemma cstr_join: "clean_segs smax segs \<Longrightarrow> cstr (join segs)"
  by (auto simp: clean_segs_def clean_seg_def cstr_def join_def NUL_def)

lemma norm_loop_canonical:
  assumes "norm_loop smax p [] = Some segs" "cstr p"
  shows "clean_segs smax segs"
proof (rule resolve_segs_clean)
  show "resolve_segs smax (path_fields p) [] = Some segs" using assms by (simp add: norm_loop_resolve)
qed (use path_fields_clean assms(2) in \<open>auto simp: clean_segs_def\<close>)

lemma norm_loop_join: "clean_segs smax segs \<Longrightarrow> norm_loop smax (join segs) [] = Some segs"
  using resolve_segs_id [of smax "[]" segs] by (simp add: norm_loop_resolve path_fields_join)

lemma vfs_normalize_eq:
  assumes "2 \<le> cap"
  shows "vfs_normalize p cap =
    (case resolve_segs 63 (path_fields (cstring_of p)) [] of None \<Rightarrow> None
     | Some segs \<Rightarrow> if length (join segs) < cap then Some (join segs) else None)"
  using assms by (simp add: vfs_normalize_def norm_loop_resolve emit_segs_join split: option.splits)

lemma normalize_path_eq:
  assumes "2 \<le> cap"
  shows "normalize_path (Some p) cap =
    (case resolve_segs 127 (path_fields (cstring_of p)) [] of None \<Rightarrow> None
     | Some segs \<Rightarrow> if length (join segs) < cap then Some (join segs) else None)"
  using assms by (auto simp: normalize_path_def norm_loop_resolve emit_segs_join join_def split: option.splits)

lemma vfs_path_normalizer: "2 \<le> cap \<Longrightarrow> path_normalizer (\<lambda>p. vfs_normalize p cap) (canonical 63 cap)"
proof unfold_locales
  fix p q
  assume cap: "2 \<le> cap"
  show "canonical 63 cap q" if "vfs_normalize p cap = Some q"
    using that cap norm_loop_canonical [of 63 "cstring_of p"]
    by (auto simp: vfs_normalize_def emit_segs_join canonical_def split: option.splits if_splits)
  show "vfs_normalize q cap = Some q" if "canonical 63 cap q"
    using that cap by (auto simp: vfs_normalize_def emit_segs_join canonical_def norm_loop_join cstr_join)
qed

interpretation vn: path_normalizer "\<lambda>p. vfs_normalize p 256" "canonical 63 256"
  by (rule vfs_path_normalizer) simp

interpretation rn: path_normalizer "\<lambda>p. normalize_path (Some p) 128" "canonical 127 128"
proof unfold_locales
  fix p q
  show "canonical 127 128 q" if "normalize_path (Some p) 128 = Some q"
    using that norm_loop_canonical [of 127 "cstring_of p"]
    by (auto simp: normalize_path_eq norm_loop_resolve canonical_def split: option.splits if_splits)
  show "normalize_path (Some q) 128 = Some q" if "canonical 127 128 q"
    using that resolve_segs_id [of 127 "[]"] by (auto simp: normalize_path_eq canonical_def path_fields_join cstr_join)
qed

lemma canonical_starts: "canonical smax cap p \<Longrightarrow> p \<noteq> [] \<and> hd p = slash"
  by (auto simp: canonical_def join_def neq_Nil_conv)

subsection \<open>Properties\<close>

text \<open>C16: both path normalisers compute the reference resolution (skip empty and \<open>.\<close> fields, \<open>..\<close> drops
  the last segment, too long a field, a 17th segment or too long a result is an error); a result
  is canonical and normalising it again returns it unchanged.\<close>
theorem normalize_refines_spec:
  "vfs_normalize p 256 =
     (case resolve_segs 63 (path_fields (cstring_of p)) [] of None \<Rightarrow> None
      | Some segs \<Rightarrow> if length (join segs) < 256 then Some (join segs) else None)
   \<and> normalize_path (Some p) 128 =
     (case resolve_segs 127 (path_fields (cstring_of p)) [] of None \<Rightarrow> None
      | Some segs \<Rightarrow> if length (join segs) < 128 then Some (join segs) else None)
   \<and> (\<forall>q. vfs_normalize p 256 = Some q \<longrightarrow> canonical 63 256 q \<and> vfs_normalize q 256 = Some q)
   \<and> (\<forall>q. normalize_path (Some p) 128 = Some q \<longrightarrow> canonical 127 128 q \<and> normalize_path (Some q) 128 = Some q)"
  using vn.norm_canon [of p] vn.norm_idem [of p] rn.norm_canon [of p] rn.norm_idem [of p]
  by (simp add: vfs_normalize_eq normalize_path_eq)

theorem normalize_refines_spec_witness:
  "vfs_normalize ''/usr/./home//../bin/'' 256 = Some ''/usr/bin''
   \<and> vfs_normalize ''/usr/bin'' 256 = Some ''/usr/bin''"
  using normalize_refines_spec [of "''/usr/./home//../bin/''"]
  by (simp add: path_fields_def join_def cstr_def NUL_def)

end
