(* ===== verification/Ramfs.thy ===== *)
theory Ramfs
  imports Kernel_Prelude Kutil Paths
begin

text \<open>
  The RAM file system, \<open>kernel/fs/ramfs.c\<close>: a table of 32 entries, each with its full path as name and
  4096 bytes of storage. A file descriptor is a table index.

  A path argument is \<open>None\<close> for a null pointer. Offsets and lengths are 64-bit words with their
  wrap-around; a store outside the 4096 bytes of a file's storage is the result \<open>None\<close> of
  \<open>brights_ramfs_write\<close>. A caller's buffer is the function from offsets to the bytes it holds.

  The invariant \<open>ramfs_inv\<close> says that the entries in use form a directory tree: canonical,
  pairwise different names, each below an existing directory. The locale \<open>named_store\<close> is the
  contract of the operations that add and remove names.
\<close>

record rfile =
  rf_name :: string
  rf_data :: "u8 list"
  rf_size :: u64
  rf_capacity :: u64
  rf_mode :: u32
  rf_uid :: u32
  rf_gid :: u32
  rf_target :: string
  rf_is_dir :: bool
  rf_is_symlink :: bool
  rf_in_use :: bool

type_synonym ramfs = "rfile list"

record rstat =
  st_path :: string
  st_size :: u64
  st_mode :: u32
  st_uid :: u32
  st_gid :: u32
  st_is_dir :: bool
  st_is_symlink :: bool

definition BRIGHTS_RAMFS_MAX_FILES :: nat where "BRIGHTS_RAMFS_MAX_FILES = 32"
definition BRIGHTS_RAMFS_MAX_NAME :: nat where "BRIGHTS_RAMFS_MAX_NAME = 128"
definition BRIGHTS_RAMFS_MAX_SYMLINK_TARGET :: nat where "BRIGHTS_RAMFS_MAX_SYMLINK_TARGET = 256"

subsection \<open>Path helpers\<close>

definition path_len_limited :: "string \<Rightarrow> nat \<Rightarrow> int" where
  "path_len_limited s mx = (if length s > mx then -1 else int (length s))"

fun path_eq :: "string \<Rightarrow> string \<Rightarrow> bool" where
  "path_eq (a # as) (b # bs) = (if a = b then path_eq as bs else False)"
| "path_eq as bs = (as = [] \<and> bs = [])"

definition path_parent :: "string \<Rightarrow> nat \<Rightarrow> string option" where
  "path_parent path cap =
     (if cap < 2 then None
      else if cchar path 0 \<noteq> slash \<or> cchar path 1 = NUL then Some [slash]
      else
        (let lst = idx_code (kutil_strrchr_from 0 None path slash) in
         if lst \<le> 0 then Some [slash]
         else if lst \<ge> int cap then None
         else Some (take (nat lst) path)))"

definition ramfs_find_free :: "ramfs \<Rightarrow> nat option" where
  "ramfs_find_free fs = first_idx (\<lambda>f. \<not> rf_in_use f) fs"

definition ramfs_find_name :: "ramfs \<Rightarrow> string \<Rightarrow> nat option" where
  "ramfs_find_name fs name = first_idx (\<lambda>f. rf_in_use f \<and> path_eq (rf_name f) name) fs"

definition ramfs_parent_exists :: "ramfs \<Rightarrow> string \<Rightarrow> bool" where
  "ramfs_parent_exists fs path =
     (case path_parent path BRIGHTS_RAMFS_MAX_NAME of
        None \<Rightarrow> False
      | Some parent \<Rightarrow>
          (if path_eq parent [slash] then True
           else case ramfs_find_name fs parent of
             None \<Rightarrow> False
           | Some idx \<Rightarrow> rf_is_dir (fs ! idx)))"

definition ramfs_is_child :: "string \<Rightarrow> nat \<Rightarrow> rfile \<Rightarrow> bool" where
  "ramfs_is_child path plen f =
     (if \<not> rf_in_use f then False
      else if path_eq (rf_name f) path then False
      else if path_eq path [slash] then cchar (rf_name f) 0 = slash \<and> cchar (rf_name f) 1 \<noteq> NUL
      else (\<forall>j\<in>set [0..<plen]. cchar (rf_name f) j = cchar path j) \<and> cchar (rf_name f) plen = slash)"

definition ramfs_dir_has_children :: "ramfs \<Rightarrow> string \<Rightarrow> bool" where
  "ramfs_dir_has_children fs path =
     (let plen = path_len_limited path (BRIGHTS_RAMFS_MAX_NAME - 1) in
      if plen < 0 then False else list_ex (ramfs_is_child path (nat plen)) fs)"

subsection \<open>Creating and removing entries\<close>

definition brights_ramfs_init :: "ramfs \<Rightarrow> ramfs" where
  "brights_ramfs_init fs =
     map (\<lambda>f. f\<lparr>rf_in_use := False, rf_is_dir := False, rf_is_symlink := False, rf_size := 0,
               rf_capacity := 4096, rf_name := [], rf_mode := 0, rf_uid := 0, rf_gid := 0,
               rf_target := []\<rparr>) fs"

definition ramfs_init_file_perms :: "rfile \<Rightarrow> bool \<Rightarrow> rfile" where
  "ramfs_init_file_perms f is_dir =
     f\<lparr>rf_mode := (if is_dir then 0x4000 OR 0x01ED else 0x8000 OR 0x01A4), rf_uid := 0, rf_gid := 0,
       rf_is_symlink := False, rf_target := []\<rparr>"

text \<open>
  The common head of \<open>mkdir\<close>, \<open>create\<close> and \<open>symlink\<close>: the canonical path and the free slot, or
  \<open>None\<close> where each of them returns -1.
\<close>

definition ramfs_new_entry :: "string option \<Rightarrow> ramfs \<Rightarrow> (string \<times> nat) option" where
  "ramfs_new_entry name fs =
     (case normalize_path name BRIGHTS_RAMFS_MAX_NAME of
        None \<Rightarrow> None
      | Some path \<Rightarrow>
          (if path_eq path [slash] then None
           else if \<not> ramfs_parent_exists fs path \<or> ramfs_find_name fs path \<noteq> None then None
           else case ramfs_find_free fs of
             None \<Rightarrow> None
           | Some idx \<Rightarrow>
               (if path_len_limited path (BRIGHTS_RAMFS_MAX_NAME - 1) \<le> 0 then None
                else Some (path, idx))))"

definition brights_ramfs_mkdir :: "string option \<Rightarrow> ramfs \<Rightarrow> ramfs \<times> int" where
  "brights_ramfs_mkdir name fs =
     (case ramfs_new_entry name fs of
        None \<Rightarrow> (fs, -1)
      | Some (path, idx) \<Rightarrow>
          (upd_at idx (\<lambda>f. ramfs_init_file_perms
             (f\<lparr>rf_name := path, rf_size := 0, rf_is_dir := True, rf_in_use := True\<rparr>) True) fs,
           int idx))"

definition brights_ramfs_create :: "string option \<Rightarrow> ramfs \<Rightarrow> ramfs \<times> int" where
  "brights_ramfs_create name fs =
     (case ramfs_new_entry name fs of
        None \<Rightarrow> (fs, -1)
      | Some (path, idx) \<Rightarrow>
          (upd_at idx (\<lambda>f. ramfs_init_file_perms
             (f\<lparr>rf_name := path, rf_size := 0, rf_is_dir := False, rf_in_use := True\<rparr>) False) fs,
           int idx))"

definition brights_ramfs_symlink :: "string \<Rightarrow> string option \<Rightarrow> ramfs \<Rightarrow> ramfs \<times> int" where
  "brights_ramfs_symlink target linkpath fs =
     (case ramfs_new_entry linkpath fs of
        None \<Rightarrow> (fs, -1)
      | Some (path, idx) \<Rightarrow>
          (upd_at idx (\<lambda>f. f\<lparr>rf_name := path,
             rf_target := take (BRIGHTS_RAMFS_MAX_SYMLINK_TARGET - 1) target, rf_size := 0,
             rf_is_dir := False, rf_is_symlink := True, rf_mode := 0xA000 OR 0x01FF, rf_in_use := True\<rparr>) fs,
           int idx))"

definition brights_ramfs_open :: "string option \<Rightarrow> ramfs \<Rightarrow> int" where
  "brights_ramfs_open name fs =
     (case normalize_path name BRIGHTS_RAMFS_MAX_NAME of
        None \<Rightarrow> -1
      | Some path \<Rightarrow> (if path_eq path [slash] then -1 else idx_code (ramfs_find_name fs path)))"

definition brights_ramfs_unlink :: "string option \<Rightarrow> ramfs \<Rightarrow> ramfs \<times> int" where
  "brights_ramfs_unlink name fs =
     (case normalize_path name BRIGHTS_RAMFS_MAX_NAME of
        None \<Rightarrow> (fs, -1)
      | Some path \<Rightarrow>
          (if path_eq path [slash] then (fs, -1)
           else case ramfs_find_name fs path of
             None \<Rightarrow> (fs, -1)
           | Some idx \<Rightarrow>
               (if rf_is_dir (fs ! idx) \<and> ramfs_dir_has_children fs path then (fs, -1)
                else (upd_at idx (\<lambda>f. f\<lparr>rf_in_use := False, rf_is_dir := False, rf_name := [],
                                        rf_size := 0\<rparr>) fs, 0))))"

subsection \<open>Reading and writing\<close>

definition brights_ramfs_stat :: "string option \<Rightarrow> ramfs \<Rightarrow> rstat option" where
  "brights_ramfs_stat path_in fs =
     (case normalize_path path_in BRIGHTS_RAMFS_MAX_NAME of
        None \<Rightarrow> None
      | Some path \<Rightarrow>
          (if path_eq path [slash]
           then Some \<lparr>st_path = [slash], st_size = 0, st_mode = 0x4000 OR 0x01ED, st_uid = 0, st_gid = 0,
                      st_is_dir = True, st_is_symlink = False\<rparr>
           else case ramfs_find_name fs path of
             None \<Rightarrow> None
           | Some idx \<Rightarrow>
               (let f = fs ! idx in
                Some \<lparr>st_path = rf_name f, st_size = rf_size f, st_mode = rf_mode f, st_uid = rf_uid f,
                      st_gid = rf_gid f, st_is_dir = rf_is_dir f, st_is_symlink = rf_is_symlink f\<rparr>)))"

definition fd_bad :: "int \<Rightarrow> bool" where
  "fd_bad fd \<longleftrightarrow> fd < 0 \<or> fd \<ge> int BRIGHTS_RAMFS_MAX_FILES"

definition brights_ramfs_read :: "int \<Rightarrow> u64 \<Rightarrow> u64 \<Rightarrow> ramfs \<Rightarrow> u8 list \<times> int" where
  "brights_ramfs_read fd off len fs =
     (if fd_bad fd then ([], -1)
      else
        (let f = fs ! nat fd in
         if \<not> rf_in_use f \<or> rf_is_dir f then ([], -1)
         else if off \<ge> rf_size f then ([], 0)
         else
           (let to_read = (if rf_size f - off > len then len else rf_size f - off)
            in (take (unat to_read) (drop (unat off) (rf_data f)), sint to_read))))"

definition write_bytes :: "nat \<Rightarrow> nat \<Rightarrow> (nat \<Rightarrow> u8) \<Rightarrow> u8 list \<Rightarrow> u8 list" where
  "write_bytes off n src d = take off d @ map src [0..<n] @ drop (off + n) d"

definition ramfs_clamp :: "u64 \<Rightarrow> u64 \<Rightarrow> u64 \<Rightarrow> u64" where
  "ramfs_clamp off len capacity = (if off + len > capacity then capacity - off else len)"

definition brights_ramfs_write :: "int \<Rightarrow> u64 \<Rightarrow> (nat \<Rightarrow> u8) \<Rightarrow> u64 \<Rightarrow> ramfs \<Rightarrow> (ramfs \<times> int) option" where
  "brights_ramfs_write fd off src len fs =
     (if fd_bad fd then Some (fs, -1)
      else
        (let i = nat fd; f = fs ! i in
         if \<not> rf_in_use f \<or> rf_is_dir f then Some (fs, -1)
         else if off \<ge> rf_capacity f then Some (fs, -1)
         else
           (let to_write = ramfs_clamp off len (rf_capacity f) in
            if unat off + unat to_write > length (rf_data f) then None
            else Some
              (upd_at i (\<lambda>f. f\<lparr>rf_data := write_bytes (unat off) (unat to_write) src (rf_data f),
                               rf_size := (if off + to_write > rf_size f then off + to_write else rf_size f)\<rparr>) fs,
               sint to_write))))"

definition brights_ramfs_file_size :: "int \<Rightarrow> ramfs \<Rightarrow> u64" where
  "brights_ramfs_file_size fd fs =
     (if fd_bad fd then 0 else if \<not> rf_in_use (fs ! nat fd) then 0 else rf_size (fs ! nat fd))"

definition brights_ramfs_is_dir_fd :: "int \<Rightarrow> ramfs \<Rightarrow> bool" where
  "brights_ramfs_is_dir_fd fd fs =
     (if fd_bad fd then False else if \<not> rf_in_use (fs ! nat fd) then False else rf_is_dir (fs ! nat fd))"

definition brights_ramfs_total_capacity :: u64 where
  "brights_ramfs_total_capacity = of_nat BRIGHTS_RAMFS_MAX_FILES * 4096"

definition brights_ramfs_count :: "ramfs \<Rightarrow> nat" where
  "brights_ramfs_count fs = length (filter rf_in_use fs)"

definition brights_ramfs_name_at :: "int \<Rightarrow> ramfs \<Rightarrow> string option" where
  "brights_ramfs_name_at idx fs =
     (if fd_bad idx then None else if \<not> rf_in_use (fs ! nat idx) then None else Some (rf_name (fs ! nat idx)))"

definition brights_ramfs_size_at :: "int \<Rightarrow> ramfs \<Rightarrow> u64" where
  "brights_ramfs_size_at idx fs =
     (if fd_bad idx then 0 else if \<not> rf_in_use (fs ! nat idx) then 0 else rf_size (fs ! nat idx))"

definition brights_ramfs_readlink :: "string option \<Rightarrow> u64 \<Rightarrow> ramfs \<Rightarrow> string option" where
  "brights_ramfs_readlink path_in bufsize fs =
     (if bufsize = 0 then None
      else case normalize_path path_in BRIGHTS_RAMFS_MAX_NAME of
        None \<Rightarrow> None
      | Some path \<Rightarrow>
          (case ramfs_find_name fs path of
             None \<Rightarrow> None
           | Some idx \<Rightarrow>
               (if \<not> rf_is_symlink (fs ! idx) then None
                else Some (take (unat (bufsize - 1)) (rf_target (fs ! idx))))))"

definition ramfs_attr :: "string option \<Rightarrow> (rfile \<Rightarrow> rfile) \<Rightarrow> ramfs \<Rightarrow> ramfs \<times> int" where
  "ramfs_attr path_in g fs =
     (case normalize_path path_in BRIGHTS_RAMFS_MAX_NAME of
        None \<Rightarrow> (fs, -1)
      | Some path \<Rightarrow>
          (if path_eq path [slash] then (fs, -1)
           else case ramfs_find_name fs path of
             None \<Rightarrow> (fs, -1)
           | Some idx \<Rightarrow> (upd_at idx g fs, 0)))"

definition brights_ramfs_chmod :: "string option \<Rightarrow> u32 \<Rightarrow> ramfs \<Rightarrow> ramfs \<times> int" where
  "brights_ramfs_chmod path_in mode fs =
     ramfs_attr path_in (\<lambda>f. f\<lparr>rf_mode := (rf_mode f AND 0xF000) OR (mode AND 0x0FFF)\<rparr>) fs"

definition brights_ramfs_chown :: "string option \<Rightarrow> u32 \<Rightarrow> u32 \<Rightarrow> ramfs \<Rightarrow> ramfs \<times> int" where
  "brights_ramfs_chown path_in uid gid fs = ramfs_attr path_in (\<lambda>f. f\<lparr>rf_uid := uid, rf_gid := gid\<rparr>) fs"

definition brights_ramfs_close :: "int \<Rightarrow> int" where
  "brights_ramfs_close fd = 0"

text \<open>The listing loop; the second argument is \<open>max_entries - count\<close>.\<close>

fun dir_entries_loop :: "string \<Rightarrow> nat \<Rightarrow> ramfs \<Rightarrow> string list" where
  "dir_entries_loop normal_path 0 fs = []"
| "dir_entries_loop normal_path (Suc n) [] = []"
| "dir_entries_loop normal_path (Suc n) (f # fs) =
     (if \<not> rf_in_use f then dir_entries_loop normal_path (Suc n) fs
      else if kutil_strncmp (rf_name f) normal_path (kutil_strlen normal_path) = 0 then
        (let entry_name = drop (kutil_strlen normal_path) (rf_name f) in
         if entry_name = [] then dir_entries_loop normal_path (Suc n) fs
         else if kutil_strchr entry_name slash \<noteq> None then dir_entries_loop normal_path (Suc n) fs
         else (if hd entry_name = slash then tl entry_name else entry_name) # dir_entries_loop normal_path n fs)
      else dir_entries_loop normal_path (Suc n) fs)"

definition brights_ramfs_get_dir_entries :: "string option \<Rightarrow> int \<Rightarrow> ramfs \<Rightarrow> string list option" where
  "brights_ramfs_get_dir_entries path max_entries fs =
     (case normalize_path path BRIGHTS_RAMFS_MAX_NAME of
        None \<Rightarrow> None
      | Some normal_path \<Rightarrow> Some (dir_entries_loop normal_path (nat max_entries) fs))"

subsection \<open>Names and parents\<close>

lemma path_eq_iff [simp]: "path_eq a b \<longleftrightarrow> a = b"
  by (induction a b rule: path_eq.induct) auto

lemma ramfs_find_name_Some:
  "ramfs_find_name fs p = Some i \<Longrightarrow> i < length fs \<and> rf_in_use (fs ! i) \<and> rf_name (fs ! i) = p"
  by (auto simp: ramfs_find_name_def first_idx_Some)

lemma ramfs_find_name_None:
  "ramfs_find_name fs p = None \<longleftrightarrow> (\<forall>f\<in>set fs. rf_in_use f \<longrightarrow> rf_name f \<noteq> p)"
  by (auto simp: ramfs_find_name_def first_idx_None)

lemma join_snoc: "join (segs @ [s]) = concat (map (\<lambda>s. slash # s) segs) @ slash # s"
  by (simp add: join_def)

lemma join_snoc': "segs \<noteq> [] \<Longrightarrow> join (segs @ [s]) = join segs @ slash # s"
  by (simp add: join_def)

lemma strrchr_slash:
  assumes "slash \<notin> set s"
  shows "kutil_strrchr_from 0 None (pre @ slash # s) slash = Some (length pre)"
proof -
  have "first_idx (\<lambda>x. x = slash) (rev s @ slash # rev pre) = Some (length s)"
  proof -
    have "rev s ! j \<noteq> slash" if "j < length s" for j using that assms nth_mem [of j "rev s"] by auto
    then show ?thesis by (auto simp: first_idx_Some nth_append)
  qed
  then show ?thesis by (simp add: kutil_strrchr_from_eq)
qed

lemma concat_segs_not_slash:
  "clean_segs k segs \<Longrightarrow> segs \<noteq> [] \<Longrightarrow> 2 \<le> length (concat (map (\<lambda>s. slash # s) segs))"
  by (cases segs) (auto simp: clean_segs_def clean_seg_def Suc_le_eq)

lemma path_parent_join:
  assumes "clean_segs 127 (segs @ [s])" "length (join (segs @ [s])) < 128"
  shows "path_parent (join (segs @ [s])) 128 = Some (join segs)"
proof -
  let ?pre = "concat (map (\<lambda>s. slash # s) segs)"
  have s: "slash \<notin> set s" "s \<noteq> []" using assms(1) by (auto simp: clean_segs_def clean_seg_def)
  have lst: "kutil_strrchr_from 0 None (join (segs @ [s])) slash = Some (length ?pre)"
    unfolding join_snoc using s(1) by (rule strrchr_slash)
  show ?thesis
  proof (cases "segs = []")
    case True
    then show ?thesis using lst by (simp add: path_parent_def join_def Let_def)
  next
    case False
    have two: "2 \<le> length ?pre"
      using False assms(1) concat_segs_not_slash [of 127 segs] by (auto simp: clean_segs_def)
    obtain t ts where segs: "segs = t # ts" using False by (cases segs) auto
    have "cchar (join (segs @ [s])) 0 = slash" by (simp add: cchar_def join_def segs)
    moreover have "cchar (join (segs @ [s])) 1 \<noteq> NUL"
      using assms(1) by (cases t) (auto simp: cchar_def join_def segs clean_segs_def clean_seg_def)
    moreover have "length ?pre < 128" using assms(2) by (simp add: join_snoc)
    moreover have "take (length ?pre) (join (segs @ [s])) = join segs"
      using False by (simp add: join_def)
    ultimately show ?thesis
      using lst two by (auto simp: path_parent_def Let_def)
  qed
qed

lemma canonical_cases:
  assumes "canonical 127 128 p" "p \<noteq> [slash]"
  obtains segs s where "p = join (segs @ [s])" "clean_segs 127 (segs @ [s])" "clean_segs 127 segs"
    "path_parent p 128 = Some (join segs)" "canonical 127 128 (join segs)"
proof -
  obtain all where all: "clean_segs 127 all" "p = join all" "length p < 128"
    using assms(1) by (auto simp: canonical_def)
  then have "all \<noteq> []" using assms(2) by (auto simp: join_def)
  then obtain segs s where s: "all = segs @ [s]" by (metis rev_exhaust)
  have c: "clean_segs 127 segs" using all s by (auto simp: clean_segs_def)
  have "length (join segs) \<le> length p"
    unfolding all(2) s using concat_segs_not_slash [of 127 segs]
    by (cases "segs = []") (auto simp: join_def)
  then have "canonical 127 128 (join segs)" using c all(3) by (auto simp: canonical_def)
  then show ?thesis using that all s c path_parent_join [of segs s] by blast
qed

text \<open>The entries whose parent is \<open>p\<close> are found by the prefix test of \<open>ramfs_dir_has_children\<close>.\<close>

lemma parent_is_child:
  assumes "canonical 127 128 (rf_name f)" "rf_name f \<noteq> [slash]" "rf_in_use f"
    "path_parent (rf_name f) 128 = Some p" "p \<noteq> [slash]"
  shows "ramfs_is_child p (length p) f"
proof -
  obtain segs s where s: "rf_name f = join (segs @ [s])" "path_parent (rf_name f) 128 = Some (join segs)"
    using assms(1,2) by (rule canonical_cases)
  then have p: "p = join segs" using assms(4) by simp
  then have "segs \<noteq> []" using assms(5) by (auto simp: join_def)
  then have n: "rf_name f = p @ slash # s" using s p by (simp add: join_snoc')
  then show ?thesis using assms(3,5) by (auto simp: ramfs_is_child_def cchar_def nth_append)
qed

subsection \<open>The invariant\<close>

definition entry_ok :: "rfile \<Rightarrow> bool" where
  "entry_ok f \<longleftrightarrow> length (rf_data f) = 4096 \<and> rf_capacity f = 4096 \<and> unat (rf_size f) \<le> 4096
     \<and> (rf_in_use f \<longrightarrow> canonical 127 128 (rf_name f) \<and> rf_name f \<noteq> [slash])"

definition parent_ok :: "ramfs \<Rightarrow> rfile \<Rightarrow> bool" where
  "parent_ok fs f \<longleftrightarrow> (\<exists>q. path_parent (rf_name f) 128 = Some q \<and>
     (q = [slash] \<or> (\<exists>g\<in>set fs. rf_in_use g \<and> rf_is_dir g \<and> rf_name g = q)))"

definition ramfs_inv :: "ramfs \<Rightarrow> bool" where
  "ramfs_inv fs \<longleftrightarrow> length fs = 32 \<and> (\<forall>f\<in>set fs. entry_ok f)
     \<and> (\<forall>i<32. \<forall>j<32. rf_in_use (fs ! i) \<and> rf_in_use (fs ! j) \<and> rf_name (fs ! i) = rf_name (fs ! j) \<longrightarrow> i = j)
     \<and> (\<forall>f\<in>set fs. rf_in_use f \<longrightarrow> parent_ok fs f)"

lemma ramfs_invD:
  assumes "ramfs_inv fs"
  shows "length fs = 32" "\<And>i. i < 32 \<Longrightarrow> entry_ok (fs ! i)"
    "\<And>i. i < 32 \<Longrightarrow> rf_in_use (fs ! i) \<Longrightarrow> parent_ok fs (fs ! i)"
    "\<And>i j. i < 32 \<Longrightarrow> j < 32 \<Longrightarrow> rf_in_use (fs ! i) \<Longrightarrow> rf_in_use (fs ! j) \<Longrightarrow>
       rf_name (fs ! i) = rf_name (fs ! j) \<Longrightarrow> i = j"
  using assms unfolding ramfs_inv_def by (auto simp: all_set_conv_all_nth)

lemma ramfs_find_name_iff:
  assumes "ramfs_inv fs"
  shows "ramfs_find_name fs p = Some i \<longleftrightarrow> i < 32 \<and> rf_in_use (fs ! i) \<and> rf_name (fs ! i) = p"
proof
  show "ramfs_find_name fs p = Some i \<Longrightarrow> i < 32 \<and> rf_in_use (fs ! i) \<and> rf_name (fs ! i) = p"
    using ramfs_find_name_Some ramfs_invD(1) [OF assms] by metis
  assume a: "i < 32 \<and> rf_in_use (fs ! i) \<and> rf_name (fs ! i) = p"
  have "\<not> (rf_in_use (fs ! j) \<and> path_eq (rf_name (fs ! j)) p)" if "j < i" for j
    using ramfs_invD(4) [OF assms, of i j] a that by auto
  then show "ramfs_find_name fs p = Some i"
    using a ramfs_invD(1) [OF assms] by (auto simp: ramfs_find_name_def first_idx_Some)
qed

text \<open>Updating one slot keeps the invariant when the directories others hang on stay.\<close>

lemma ramfs_inv_upd:
  assumes inv: "ramfs_inv fs" and i: "i < 32" and ok: "entry_ok (g (fs ! i))"
    and new: "rf_in_use (g (fs ! i)) \<Longrightarrow>
      (\<forall>j<32. j \<noteq> i \<longrightarrow> rf_in_use (fs ! j) \<longrightarrow> rf_name (fs ! j) \<noteq> rf_name (g (fs ! i)))
      \<and> parent_ok (upd_at i g fs) (g (fs ! i))"
    and keep: "\<And>j. j < 32 \<Longrightarrow> j \<noteq> i \<Longrightarrow> rf_in_use (fs ! j) \<Longrightarrow> parent_ok (upd_at i g fs) (fs ! j)"
  shows "ramfs_inv (upd_at i g fs)"
  unfolding ramfs_inv_def all_set_conv_all_nth
proof (intro conjI allI impI)
  note D = ramfs_invD [OF inv]
  show "length (upd_at i g fs) = 32" using D(1) by simp
  show "entry_ok (upd_at i g fs ! j)" if "j < length (upd_at i g fs)" for j
    using that D(1,2) i ok by (cases "j = i") auto
  show "parent_ok (upd_at i g fs) (upd_at i g fs ! j)"
    if "j < length (upd_at i g fs)" "rf_in_use (upd_at i g fs ! j)" for j
    using that D(1) i new keep by (cases "j = i") auto
  fix j k
  assume "j < 32" "k < 32" and
    a: "rf_in_use (upd_at i g fs ! j) \<and> rf_in_use (upd_at i g fs ! k) \<and> rf_name (upd_at i g fs ! j) = rf_name (upd_at i g fs ! k)"
  then show "j = k" using D(1,4) i new by (cases "j = i"; cases "k = i") auto
qed

lemma parent_ok_upd:
  assumes "parent_ok fs f" "i < length fs"
    "rf_in_use (fs ! i) \<and> rf_is_dir (fs ! i) \<and> path_parent (rf_name f) 128 = Some (rf_name (fs ! i)) \<and> rf_name (fs ! i) \<noteq> [slash]
      \<Longrightarrow> rf_in_use (g (fs ! i)) \<and> rf_is_dir (g (fs ! i)) \<and> rf_name (g (fs ! i)) = rf_name (fs ! i)"
  shows "parent_ok (upd_at i g fs) f"
proof -
  obtain q where q: "path_parent (rf_name f) 128 = Some q"
    and "q = [slash] \<or> (\<exists>h\<in>set fs. rf_in_use h \<and> rf_is_dir h \<and> rf_name h = q)"
    using assms(1) unfolding parent_ok_def by blast
  then have "q = [slash] \<or> (\<exists>j<length fs. rf_in_use (fs ! j) \<and> rf_is_dir (fs ! j) \<and> rf_name (fs ! j) = q)"
    by (metis in_set_conv_nth)
  then consider "q = [slash]" | j where "q \<noteq> [slash]" "j < length fs" "rf_in_use (fs ! j)" "rf_is_dir (fs ! j)" "rf_name (fs ! j) = q"
    by auto
  then show ?thesis
  proof cases
    case 1
    then show ?thesis using q by (simp add: parent_ok_def)
  next
    case 2
    have "upd_at i g fs ! j \<in> set (upd_at i g fs)" using 2 by simp
    moreover have "rf_in_use (upd_at i g fs ! j) \<and> rf_is_dir (upd_at i g fs ! j) \<and> rf_name (upd_at i g fs ! j) = q"
      using 2 q assms(2,3) by (cases "j = i") auto
    ultimately show ?thesis using q by (auto simp: parent_ok_def)
  qed
qed

lemma ramfs_new_entry_Some:
  assumes "ramfs_inv fs" "ramfs_new_entry name fs = Some (path, i)"
  shows "i < 32" "\<not> rf_in_use (fs ! i)" "normalize_path name 128 = Some path" "canonical 127 128 path"
    "path \<noteq> [slash]" "\<forall>j<32. rf_in_use (fs ! j) \<longrightarrow> rf_name (fs ! j) \<noteq> path"
    "\<exists>q. path_parent path 128 = Some q \<and> (q = [slash] \<or> (\<exists>g\<in>set fs. rf_in_use g \<and> rf_is_dir g \<and> rf_name g = q))"
proof -
  note L = ramfs_invD(1) [OF assms(1)]
  have *: "normalize_path name 128 = Some path" "path \<noteq> [slash]" "ramfs_parent_exists fs path"
      "ramfs_find_name fs path = None" "ramfs_find_free fs = Some i"
    using assms(2) by (auto simp: ramfs_new_entry_def BRIGHTS_RAMFS_MAX_NAME_def split: option.splits if_splits)
  obtain p where "name = Some p" using *(1) by (cases name) (auto simp: normalize_path_def)
  then show "normalize_path name 128 = Some path" "canonical 127 128 path" "path \<noteq> [slash]"
    using * rn.norm_canon by auto
  show "i < 32" "\<not> rf_in_use (fs ! i)" using *(5) L by (auto simp: ramfs_find_free_def first_idx_Some)
  show "\<forall>j<32. rf_in_use (fs ! j) \<longrightarrow> rf_name (fs ! j) \<noteq> path"
    using *(4) L by (simp add: ramfs_find_name_None)
  show "\<exists>q. path_parent path 128 = Some q \<and> (q = [slash] \<or> (\<exists>g\<in>set fs. rf_in_use g \<and> rf_is_dir g \<and> rf_name g = q))"
    using *(3) ramfs_find_name_Some [of fs]
    by (auto simp: ramfs_parent_exists_def BRIGHTS_RAMFS_MAX_NAME_def split: option.splits if_splits)
      (metis nth_mem)
qed

lemma ramfs_inv_new_entry:
  assumes inv: "ramfs_inv fs" and new: "ramfs_new_entry name fs = Some (path, i)"
    and g: "rf_name (g (fs ! i)) = path" "rf_size (g (fs ! i)) = 0" "rf_data (g (fs ! i)) = rf_data (fs ! i)"
      "rf_capacity (g (fs ! i)) = rf_capacity (fs ! i)"
  shows "ramfs_inv (upd_at i g fs)"
proof (rule ramfs_inv_upd [OF inv])
  note N = ramfs_new_entry_Some [OF inv new]
  show "i < 32" by (rule N(1))
  show "entry_ok (g (fs ! i))"
    using ramfs_invD(2) [OF inv N(1)] N(4,5) g by (simp add: entry_ok_def)
  show "(\<forall>j<32. j \<noteq> i \<longrightarrow> rf_in_use (fs ! j) \<longrightarrow> rf_name (fs ! j) \<noteq> rf_name (g (fs ! i)))
      \<and> parent_ok (upd_at i g fs) (g (fs ! i))"
  proof
    show "\<forall>j<32. j \<noteq> i \<longrightarrow> rf_in_use (fs ! j) \<longrightarrow> rf_name (fs ! j) \<noteq> rf_name (g (fs ! i))"
      using N(6) g by auto
    have "parent_ok fs (g (fs ! i))" using N(7) g(1) by (simp add: parent_ok_def)
    then show "parent_ok (upd_at i g fs) (g (fs ! i))"
      using N(1,2) ramfs_invD(1) [OF inv] by (intro parent_ok_upd) auto
  qed
  show "parent_ok (upd_at i g fs) (fs ! j)" if "j < 32" "j \<noteq> i" "rf_in_use (fs ! j)" for j
    using ramfs_invD(3) [OF inv that(1,3)] N(1,2) ramfs_invD(1) [OF inv] by (intro parent_ok_upd) auto
qed

lemma ramfs_inv_same:
  assumes inv: "ramfs_inv fs" and i: "i < 32"
    and g: "rf_name (g (fs ! i)) = rf_name (fs ! i)" "rf_in_use (g (fs ! i)) = rf_in_use (fs ! i)"
      "rf_is_dir (g (fs ! i)) = rf_is_dir (fs ! i)" "unat (rf_size (g (fs ! i))) \<le> 4096"
      "length (rf_data (g (fs ! i))) = 4096" "rf_capacity (g (fs ! i)) = 4096"
  shows "ramfs_inv (upd_at i g fs)"
proof (rule ramfs_inv_upd [OF inv i])
  note D = ramfs_invD [OF inv]
  have up: "parent_ok (upd_at i g fs) f" if "parent_ok fs f" for f
    using that i D(1) g by (intro parent_ok_upd) auto
  show "entry_ok (g (fs ! i))" using D(2) [OF i] g by (simp add: entry_ok_def)
  show "parent_ok (upd_at i g fs) (fs ! j)" if "j < 32" "j \<noteq> i" "rf_in_use (fs ! j)" for j
    using D(3) that up by blast
  show "(\<forall>j<32. j \<noteq> i \<longrightarrow> rf_in_use (fs ! j) \<longrightarrow> rf_name (fs ! j) \<noteq> rf_name (g (fs ! i)))
      \<and> parent_ok (upd_at i g fs) (g (fs ! i))" if "rf_in_use (g (fs ! i))"
    using that D(3) [OF i] D(4) [OF _ i] i g up [of "fs ! i"] by (auto simp: parent_ok_def)
qed

lemma ramfs_inv_mkdir: "ramfs_inv fs \<Longrightarrow> ramfs_inv (fst (brights_ramfs_mkdir name fs))"
  by (auto simp: brights_ramfs_mkdir_def ramfs_init_file_perms_def split: option.splits
      intro!: ramfs_inv_new_entry)

lemma ramfs_inv_create: "ramfs_inv fs \<Longrightarrow> ramfs_inv (fst (brights_ramfs_create name fs))"
  by (auto simp: brights_ramfs_create_def ramfs_init_file_perms_def split: option.splits
      intro!: ramfs_inv_new_entry)

lemma ramfs_inv_symlink: "ramfs_inv fs \<Longrightarrow> ramfs_inv (fst (brights_ramfs_symlink target name fs))"
  by (auto simp: brights_ramfs_symlink_def split: option.splits intro!: ramfs_inv_new_entry)

lemma ramfs_inv_attr:
  assumes "ramfs_inv fs" and g: "\<And>f. rf_name (g f) = rf_name f \<and> rf_in_use (g f) = rf_in_use f
    \<and> rf_is_dir (g f) = rf_is_dir f \<and> rf_size (g f) = rf_size f \<and> rf_data (g f) = rf_data f \<and> rf_capacity (g f) = rf_capacity f"
  shows "ramfs_inv (fst (ramfs_attr name g fs))"
proof -
  have "ramfs_inv (upd_at i g fs)" if "ramfs_find_name fs p = Some i" for i p
  proof (rule ramfs_inv_same [OF assms(1)])
    show i: "i < 32" using that ramfs_find_name_iff [OF assms(1)] by simp
    show "unat (rf_size (g (fs ! i))) \<le> 4096" "length (rf_data (g (fs ! i))) = 4096" "rf_capacity (g (fs ! i)) = 4096"
      using ramfs_invD(2) [OF assms(1) i] g by (auto simp: entry_ok_def)
  qed (use g in auto)
  then show ?thesis using assms(1) by (auto simp: ramfs_attr_def split: option.splits)
qed

definition unlink_entry :: "rfile \<Rightarrow> rfile" where
  "unlink_entry f = f\<lparr>rf_in_use := False, rf_is_dir := False, rf_name := [], rf_size := 0\<rparr>"

lemma brights_ramfs_unlink_cases:
  assumes "ramfs_inv fs"
  shows "brights_ramfs_unlink name fs = (fs, -1) \<or>
    (\<exists>path i. normalize_path name 128 = Some path \<and> path \<noteq> [slash] \<and> ramfs_find_name fs path = Some i
      \<and> i < 32 \<and> \<not> (rf_is_dir (fs ! i) \<and> ramfs_dir_has_children fs path)
      \<and> brights_ramfs_unlink name fs = (upd_at i unlink_entry fs, 0))"
proof (cases "normalize_path name 128")
  case (Some path)
  show ?thesis
  proof (cases "path = [slash] \<or> ramfs_find_name fs path = None")
    case False
    then obtain i where i: "ramfs_find_name fs path = Some i" by auto
    then have "i < 32" using ramfs_find_name_iff [OF assms] by simp
    then show ?thesis
      using Some False i by (auto simp: brights_ramfs_unlink_def BRIGHTS_RAMFS_MAX_NAME_def unlink_entry_def [abs_def])
  qed (use Some in \<open>auto simp: brights_ramfs_unlink_def BRIGHTS_RAMFS_MAX_NAME_def\<close>)
qed (simp add: brights_ramfs_unlink_def BRIGHTS_RAMFS_MAX_NAME_def)

lemma ramfs_inv_unlink:
  assumes inv: "ramfs_inv fs"
  shows "ramfs_inv (fst (brights_ramfs_unlink name fs))"
  using brights_ramfs_unlink_cases [OF inv, of name]
proof (elim disjE exE conjE)
  fix path i
  assume f: "ramfs_find_name fs path = Some i" and i: "i < 32" and ne: "path \<noteq> [slash]"
    and nc: "\<not> (rf_is_dir (fs ! i) \<and> ramfs_dir_has_children fs path)"
    and r: "brights_ramfs_unlink name fs = (upd_at i unlink_entry fs, 0)"
  note D = ramfs_invD [OF inv]
  have name: "rf_name (fs ! i) = path" using f ramfs_find_name_iff [OF inv] by simp
  have "ramfs_inv (upd_at i unlink_entry fs)"
  proof (rule ramfs_inv_upd [OF inv i])
    show "entry_ok (unlink_entry (fs ! i))" using D(2) [OF i] by (simp add: entry_ok_def unlink_entry_def)
    show "parent_ok (upd_at i unlink_entry fs) (fs ! j)" if j: "j < 32" "j \<noteq> i" "rf_in_use (fs ! j)" for j
    proof (rule parent_ok_upd)
      show "parent_ok fs (fs ! j)" using j D(3) by simp
      show "i < length fs" using i D(1) by simp
      assume a: "rf_in_use (fs ! i) \<and> rf_is_dir (fs ! i) \<and> path_parent (rf_name (fs ! j)) 128 = Some (rf_name (fs ! i))
        \<and> rf_name (fs ! i) \<noteq> [slash]"
      then have "ramfs_is_child path (length path) (fs ! j)"
        using D(2) [OF j(1)] j(3) name by (intro parent_is_child) (auto simp: entry_ok_def)
      moreover have "length path \<le> 127"
        using D(2) [OF i] a name by (auto simp: entry_ok_def canonical_def)
      ultimately have "ramfs_dir_has_children fs path"
        using j(1) D(1) by (auto simp: ramfs_dir_has_children_def path_len_limited_def BRIGHTS_RAMFS_MAX_NAME_def
            list_ex_iff intro!: bexI [of _ "fs ! j"])
      then show "rf_in_use (unlink_entry (fs ! i)) \<and> rf_is_dir (unlink_entry (fs ! i))
          \<and> rf_name (unlink_entry (fs ! i)) = rf_name (fs ! i)"
        using nc a by simp
    qed
  qed (simp add: unlink_entry_def)
  then show ?thesis using r by simp
qed (use inv in simp)

subsection \<open>Reading back what was written\<close>

lemma length_write_bytes [simp]: "off + n \<le> length d \<Longrightarrow> length (write_bytes off n src d) = length d"
  by (simp add: write_bytes_def)

lemma nth_write_bytes:
  "off + n \<le> length d \<Longrightarrow> k < length d \<Longrightarrow>
   write_bytes off n src d ! k = (if off \<le> k \<and> k < off + n then src (k - off) else d ! k)"
  by (auto simp: write_bytes_def nth_append)

lemma take_drop_write_bytes:
  "off + n \<le> length d \<Longrightarrow> take n (drop off (write_bytes off n src d)) = map src [0..<n]"
  by (simp add: write_bytes_def)

text \<open>The clamped length of a write that does not wrap around.\<close>

lemma to_write_eq:
  fixes off len cap :: u64
  assumes "off < cap" "unat off + unat len < 2 ^ 64"
  shows "unat (ramfs_clamp off len cap) = min (unat len) (unat cap - unat off)"
    and "unat (off + ramfs_clamp off len cap) = unat off + min (unat len) (unat cap - unat off)"
proof -
  have o: "unat off < unat cap" using assms(1) by (simp add: word_less_nat_alt)
  have sum: "unat (off + len) = unat off + unat len" using assms(2) by (simp add: unat_word_ariths)
  have "off \<le> cap" using assms(1) by simp
  then have sub: "unat (cap - off) = unat cap - unat off" by (rule unat_sub)
  show e: "unat (ramfs_clamp off len cap) = min (unat len) (unat cap - unat off)"
    using sum sub o by (auto simp: ramfs_clamp_def word_less_nat_alt min_def)
  have "unat cap < 2 ^ 64" using unsigned_less [of cap] by simp
  then show "unat (off + ramfs_clamp off len cap) = unat off + min (unat len) (unat cap - unat off)"
    using sum sub o by (auto simp: ramfs_clamp_def word_less_nat_alt min_def)
qed

lemma sint_small: "unat (w :: u64) \<le> 4096 \<Longrightarrow> sint w = int (unat w)"
proof -
  assume a: "unat w \<le> 4096"
  have u: "uint w = int (unat w)" by simp
  then have "uint w \<le> 4096" "0 \<le> uint w" using a by linarith+
  moreover have "(4096 :: int) < 2 ^ 63" "- (2 ^ 63) \<le> (0 :: int)" by simp_all
  ultimately have "- (2 ^ 63) \<le> uint w" "uint w < 2 ^ 63" by linarith+
  then have "signed_take_bit 63 (uint w) = uint w" by (rule signed_take_bit_int_eq_self)
  moreover have "sint w = signed_take_bit (LENGTH(64) - Suc 0) (uint w)" by (rule sint_uint)
  then have "sint w = signed_take_bit 63 (uint w)" by simp
  ultimately show ?thesis unfolding u [symmetric] by (simp only:)
qed

lemma ramfs_write_ok:
  fixes off len :: u64 and src :: "nat \<Rightarrow> u8"
  assumes inv: "ramfs_inv fs" and i: "i < 32" and f: "rf_in_use (fs ! i)" "\<not> rf_is_dir (fs ! i)"
    and off: "unat off < 4096" "unat off + unat len < 2 ^ 64"
  defines "n \<equiv> min (unat len) (4096 - unat off)"
    and "g \<equiv> (\<lambda>f. f\<lparr>rf_data := write_bytes (unat off) (min (unat len) (4096 - unat off)) src (rf_data f),
               rf_size := (if off + of_nat (min (unat len) (4096 - unat off)) > rf_size f
                           then off + of_nat (min (unat len) (4096 - unat off)) else rf_size f)\<rparr>)"
  shows "brights_ramfs_write (int i) off src len fs = Some (upd_at i g fs, int n)"
    and "ramfs_inv (upd_at i g fs)"
    and "unat (rf_size (g (fs ! i))) = max (unat (rf_size (fs ! i))) (unat off + n)"
proof -
  have ok: "length (rf_data (fs ! i)) = 4096" "rf_capacity (fs ! i) = 4096" "unat (rf_size (fs ! i)) \<le> 4096"
    using ramfs_invD(2) [OF inv i] by (auto simp: entry_ok_def)
  have o: "off < (4096 :: u64)" using off(1) by (simp add: word_less_nat_alt)
  define tw where "tw = ramfs_clamp off len 4096"
  have tw: "unat tw = n" "unat (off + tw) = unat off + n"
    using to_write_eq [OF o off(2)] by (simp_all add: tw_def n_def)
  have twn: "tw = of_nat n" using tw(1) by auto
  have n: "unat off + n \<le> 4096" using off(1) by (simp add: n_def)
  have size: "unat (rf_size (g (fs ! i))) = max (unat (rf_size (fs ! i))) (unat off + n)"
    using tw(2) by (auto simp: g_def n_def [symmetric] twn [symmetric] word_less_nat_alt max_def)
  then show "unat (rf_size (g (fs ! i))) = max (unat (rf_size (fs ! i))) (unat off + n)" .
  have "brights_ramfs_write (int i) off src len fs
      = Some (upd_at i (\<lambda>f. f\<lparr>rf_data := write_bytes (unat off) n src (rf_data f),
                               rf_size := (if off + tw > rf_size f then off + tw else rf_size f)\<rparr>) fs, sint tw)"
    using i f ok(1) o [folded not_le] tw(1) n unfolding brights_ramfs_write_def Let_def nat_int ok(2) tw_def [symmetric]
    by (simp add: fd_bad_def BRIGHTS_RAMFS_MAX_FILES_def)
  moreover have "sint tw = int n" using sint_small [of tw] tw(1) n by simp
  ultimately show "brights_ramfs_write (int i) off src len fs = Some (upd_at i g fs, int n)"
    unfolding g_def n_def [symmetric] twn [symmetric] by simp
  show "ramfs_inv (upd_at i g fs)"
  proof (rule ramfs_inv_same [OF inv i])
    show "unat (rf_size (g (fs ! i))) \<le> 4096" using size n ok(3) by simp
    show "length (rf_data (g (fs ! i))) = 4096" using n ok by (simp add: g_def n_def [symmetric])
  qed (use ok in \<open>simp_all add: g_def\<close>)
qed

text \<open>When \<open>off + len\<close> wraps around, the clamp is skipped and the store leaves the storage.\<close>

lemma ramfs_write_wrap:
  assumes "ramfs_inv fs" "i < 32" "rf_in_use (fs ! i)" "\<not> rf_is_dir (fs ! i)"
    "unat off < 4096" "2 ^ 64 \<le> unat off + unat (len :: u64)"
  shows "brights_ramfs_write (int i) off src len fs = None"
proof -
  have ok: "length (rf_data (fs ! i)) = 4096" "rf_capacity (fs ! i) = 4096"
    using ramfs_invD(2) [OF assms(1,2)] by (auto simp: entry_ok_def)
  have l: "unat len < 2 ^ 64" using unsigned_less [of len] by simp
  have "unat (off + len) = unat off + unat len - 2 ^ 64"
    using assms(5,6) l by (simp add: unat_word_ariths mod_if)
  then have "\<not> off + len > 4096" using assms(5) l by (simp add: word_less_nat_alt)
  moreover have "\<not> 4096 \<le> off" using assms(5) by (simp add: word_le_nat_alt)
  moreover have "4096 < unat off + unat len" using assms(6) by simp
  ultimately show ?thesis
    using assms(2-4) ok
    by (simp add: brights_ramfs_write_def fd_bad_def BRIGHTS_RAMFS_MAX_FILES_def ramfs_clamp_def)
qed

lemma ramfs_inv_write:
  assumes inv: "ramfs_inv fs" and w: "brights_ramfs_write fd off src len fs = Some (fs', r)"
  shows "ramfs_inv fs'"
proof (cases "fd_bad fd \<or> \<not> rf_in_use (fs ! nat fd) \<or> rf_is_dir (fs ! nat fd) \<or> rf_capacity (fs ! nat fd) \<le> off")
  case True
  then show ?thesis using inv w by (auto simp: brights_ramfs_write_def Let_def split: if_splits)
next
  case False
  then have i: "nat fd < 32" "int (nat fd) = fd" by (auto simp: fd_bad_def BRIGHTS_RAMFS_MAX_FILES_def)
  have "rf_capacity (fs ! nat fd) = 4096" using ramfs_invD(2) [OF inv i(1)] by (simp add: entry_ok_def)
  then have off: "unat off < 4096" using False by (simp add: not_le word_less_nat_alt)
  show ?thesis
  proof (cases "unat off + unat len < 2 ^ 64")
    case True
    then show ?thesis
      using ramfs_write_ok(1,2) [OF inv i(1) _ _ off True, of src] False w i(2) by auto
  next
    case wrap: False
    then show ?thesis
      using ramfs_write_wrap [OF inv i(1), of off len src] off False w i(2) by auto
  qed
qed

subsection \<open>Reachable states\<close>

inductive ramfs_step :: "ramfs \<Rightarrow> ramfs \<Rightarrow> bool" where
  mkdir: "ramfs_step fs (fst (brights_ramfs_mkdir name fs))"
| create: "ramfs_step fs (fst (brights_ramfs_create name fs))"
| symlink: "ramfs_step fs (fst (brights_ramfs_symlink target name fs))"
| unlink: "ramfs_step fs (fst (brights_ramfs_unlink name fs))"
| chmod: "ramfs_step fs (fst (brights_ramfs_chmod name mode fs))"
| chown: "ramfs_step fs (fst (brights_ramfs_chown name uid gid fs))"
| store: "brights_ramfs_write fd off src len fs = Some (fs', r) \<Longrightarrow> ramfs_step fs fs'"

inductive ramfs_reachable :: "ramfs \<Rightarrow> bool" where
  init: "length fs = 32 \<Longrightarrow> \<forall>f\<in>set fs. length (rf_data f) = 4096 \<Longrightarrow> ramfs_reachable (brights_ramfs_init fs)"
| step: "ramfs_reachable fs \<Longrightarrow> ramfs_step fs fs' \<Longrightarrow> ramfs_reachable fs'"

lemma ramfs_inv_init:
  "length fs = 32 \<Longrightarrow> \<forall>f\<in>set fs. length (rf_data f) = 4096 \<Longrightarrow> ramfs_inv (brights_ramfs_init fs)"
  by (auto simp: ramfs_inv_def brights_ramfs_init_def entry_ok_def)

lemma ramfs_inv_reachable: "ramfs_reachable fs \<Longrightarrow> ramfs_inv fs"
proof (induction rule: ramfs_reachable.induct)
  case (step fs fs')
  from step(2,3) show ?case
    by cases (auto intro: ramfs_inv_mkdir ramfs_inv_create ramfs_inv_symlink ramfs_inv_unlink ramfs_inv_write
        simp: brights_ramfs_chmod_def brights_ramfs_chown_def intro!: ramfs_inv_attr)
qed (rule ramfs_inv_init)

subsection \<open>The contract of the naming operations\<close>

locale named_store =
  fixes add :: "string option \<Rightarrow> 's \<Rightarrow> 's \<times> int"
    and rem :: "string option \<Rightarrow> 's \<Rightarrow> 's \<times> int"
    and find :: "string option \<Rightarrow> 's \<Rightarrow> int"
    and norm :: "string option \<Rightarrow> string option"
    and inv :: "'s \<Rightarrow> bool"
  assumes add_ok: "inv s \<Longrightarrow> add p s = (s', r) \<Longrightarrow> 0 \<le> r \<Longrightarrow> inv s' \<and> find p s = -1 \<and> find p s' = r"
    and add_fail: "inv s \<Longrightarrow> add p s = (s', r) \<Longrightarrow> r < 0 \<Longrightarrow> s' = s"
    and add_other: "inv s \<Longrightarrow> add p s = (s', r) \<Longrightarrow> norm q \<noteq> norm p \<Longrightarrow> find q s' = find q s"
    and rem_ok: "inv s \<Longrightarrow> rem p s = (s', r) \<Longrightarrow> 0 \<le> r \<Longrightarrow> inv s' \<and> 0 \<le> find p s \<and> find p s' = -1"
    and rem_other: "inv s \<Longrightarrow> rem p s = (s', r) \<Longrightarrow> norm q \<noteq> norm p \<Longrightarrow> find q s' = find q s"
begin

lemma add_then_rem:
  assumes "inv s" "add p s = (s1, r1)" "0 \<le> r1" "rem p s1 = (s2, r2)" "0 \<le> r2"
  shows "inv s2 \<and> find p s2 = -1 \<and> (\<forall>q. norm q \<noteq> norm p \<longrightarrow> find q s2 = find q s)"
proof -
  have s1: "inv s1" using add_ok [OF assms(1-3)] by blast
  then show ?thesis
    using rem_ok [OF s1 assms(4,5)] add_other [OF assms(1,2)] rem_other [OF s1 assms(4)] by metis
qed

lemma no_double_add:
  assumes "inv s" "add p s = (s1, r1)" "0 \<le> r1" "add p s1 = (s2, r2)"
  shows "r2 < 0 \<and> s2 = s1"
proof -
  have s1: "inv s1" "find p s1 = r1" using add_ok [OF assms(1-3)] by auto
  have "\<not> 0 \<le> r2" using add_ok [OF s1(1) assms(4)] s1(2) assms(3) by auto
  then show ?thesis using add_fail [OF s1(1) assms(4)] by simp
qed

end

lemma ramfs_find_name_upd_other:
  assumes "i < length fs" "rf_in_use (fs ! i) \<longrightarrow> rf_name (fs ! i) \<noteq> q" "rf_in_use (g (fs ! i)) \<longrightarrow> rf_name (g (fs ! i)) \<noteq> q"
  shows "ramfs_find_name (upd_at i g fs) q = ramfs_find_name fs q"
  unfolding ramfs_find_name_def using assms by (intro first_idx_upd_at) auto

lemma ramfs_find_name_upd_same:
  assumes "ramfs_inv (upd_at i g fs)" "i < 32" "rf_in_use (g (fs ! i))"
  shows "ramfs_find_name (upd_at i g fs) (rf_name (g (fs ! i))) = Some i"
  using assms ramfs_invD(1) [OF assms(1)] by (simp add: ramfs_find_name_iff)

lemma ramfs_open_eq:
  "brights_ramfs_open p fs = (case normalize_path p 128 of None \<Rightarrow> -1
     | Some q \<Rightarrow> if q = [slash] then -1 else idx_code (ramfs_find_name fs q))"
  by (simp add: brights_ramfs_open_def BRIGHTS_RAMFS_MAX_NAME_def split: option.splits)

text \<open>Both operations that add a plain name satisfy the contract; the argument is shared.\<close>

lemma new_entry_absent:
  assumes inv: "ramfs_inv fs" and add: "ramfs_new_entry p fs = Some (path, i)"
  shows "brights_ramfs_open p fs = -1"
proof -
  note N = ramfs_new_entry_Some [OF inv add] and L = ramfs_invD(1) [OF inv]
  have "ramfs_find_name fs path = None" using N(6) L by (simp add: ramfs_find_name_None all_set_conv_all_nth)
  then show ?thesis using N(3) by (simp add: ramfs_open_eq)
qed

lemma new_entry_present:
  assumes inv: "ramfs_inv fs" and add: "ramfs_new_entry p fs = Some (path, i)"
    and g: "rf_name (g (fs ! i)) = path" "rf_size (g (fs ! i)) = 0" "rf_data (g (fs ! i)) = rf_data (fs ! i)"
      "rf_capacity (g (fs ! i)) = rf_capacity (fs ! i)" "rf_in_use (g (fs ! i))"
  shows "brights_ramfs_open p (upd_at i g fs) = int i"
proof -
  note N = ramfs_new_entry_Some [OF inv add]
  have i: "ramfs_inv (upd_at i g fs)" using inv add g(1-4) by (rule ramfs_inv_new_entry)
  show ?thesis
    using ramfs_find_name_upd_same [OF i N(1) g(5)] N(3,5) g(1) by (simp add: ramfs_open_eq)
qed

lemma new_entry_frame:
  assumes inv: "ramfs_inv fs" and add: "ramfs_new_entry p fs = Some (path, i)"
    and g: "rf_name (g (fs ! i)) = path" and q: "normalize_path q 128 \<noteq> normalize_path p 128"
  shows "brights_ramfs_open q (upd_at i g fs) = brights_ramfs_open q fs"
proof (cases "normalize_path q 128")
  case (Some b)
  note N = ramfs_new_entry_Some [OF inv add] and L = ramfs_invD(1) [OF inv]
  have "b \<noteq> path" using q N(3) Some by simp
  then have "ramfs_find_name (upd_at i g fs) b = ramfs_find_name fs b"
    using N(1,2) g L by (intro ramfs_find_name_upd_other) auto
  then show ?thesis using Some by (simp add: ramfs_open_eq)
qed (simp add: ramfs_open_eq)

lemma unlink_absent:
  assumes inv: "ramfs_inv fs" and u: "brights_ramfs_unlink p fs = (fs', r)" "0 \<le> r"
  shows "ramfs_inv fs' \<and> 0 \<le> brights_ramfs_open p fs \<and> brights_ramfs_open p fs' = -1"
proof -
  obtain path i where n: "normalize_path p 128 = Some path" "path \<noteq> [slash]" "ramfs_find_name fs path = Some i" "i < 32"
    and fs': "fs' = upd_at i unlink_entry fs"
    using brights_ramfs_unlink_cases [OF inv, of p] u by auto
  have inv': "ramfs_inv fs'" using ramfs_inv_unlink [OF inv, of p] u by simp
  note L = ramfs_invD(1) [OF inv] and I = ramfs_find_name_iff [OF inv]
  have nm: "rf_name (fs ! i) = path" "rf_in_use (fs ! i)" using n(3) I by auto
  have "ramfs_find_name fs' path = None"
  proof (rule ccontr)
    assume "ramfs_find_name fs' path \<noteq> None"
    then obtain j where "j < 32" "rf_in_use (fs' ! j)" "rf_name (fs' ! j) = path"
      using ramfs_find_name_iff [OF inv'] by auto
    then show False
      using ramfs_invD(4) [OF inv, of j i] nm n(4) L by (cases "j = i") (auto simp: fs' unlink_entry_def)
  qed
  then show ?thesis using n inv' by (simp add: ramfs_open_eq)
qed

lemma unlink_frame:
  assumes inv: "ramfs_inv fs" and u: "brights_ramfs_unlink p fs = (fs', r)"
    and q: "normalize_path q 128 \<noteq> normalize_path p 128"
  shows "brights_ramfs_open q fs' = brights_ramfs_open q fs"
  using brights_ramfs_unlink_cases [OF inv, of p]
proof (elim disjE exE conjE)
  fix path i
  assume n: "normalize_path p 128 = Some path" "path \<noteq> [slash]" "ramfs_find_name fs path = Some i" "i < 32"
    and e: "brights_ramfs_unlink p fs = (upd_at i unlink_entry fs, 0)"
  have fs': "fs' = upd_at i unlink_entry fs" using u e by simp
  have nm: "rf_name (fs ! i) = path" using n(3) ramfs_find_name_iff [OF inv] by auto
  show ?thesis
  proof (cases "normalize_path q 128")
    case (Some b)
    then have "b \<noteq> path" using q n(1) by simp
    then have "ramfs_find_name fs' b = ramfs_find_name fs b"
      unfolding fs' using nm n(4) ramfs_invD(1) [OF inv]
      by (intro ramfs_find_name_upd_other) (auto simp: unlink_entry_def)
    then show ?thesis using Some by (simp add: ramfs_open_eq)
  qed (simp add: ramfs_open_eq)
qed (use u in simp)

interpretation rc: named_store brights_ramfs_create brights_ramfs_unlink brights_ramfs_open
  "\<lambda>p. normalize_path p 128" ramfs_inv
proof unfold_locales
  fix fs p fs' r q
  assume inv: "ramfs_inv fs" and add: "brights_ramfs_create p fs = (fs', r)"
  show "ramfs_inv fs' \<and> brights_ramfs_open p fs = -1 \<and> brights_ramfs_open p fs' = r" if "0 \<le> r"
    using that add ramfs_inv_create [OF inv, of p] new_entry_absent [OF inv, of p]
    by (auto simp: brights_ramfs_create_def ramfs_init_file_perms_def split: option.splits
        intro!: new_entry_present [OF inv])
  show "fs' = fs" if "r < 0"
    using that add by (auto simp: brights_ramfs_create_def split: option.splits)
  show "brights_ramfs_open q fs' = brights_ramfs_open q fs" if "normalize_path q 128 \<noteq> normalize_path p 128"
    using that add
    by (auto simp: brights_ramfs_create_def ramfs_init_file_perms_def split: option.splits
        intro!: new_entry_frame [OF inv])
qed (use unlink_absent unlink_frame in blast)+

interpretation rd: named_store brights_ramfs_mkdir brights_ramfs_unlink brights_ramfs_open
  "\<lambda>p. normalize_path p 128" ramfs_inv
proof unfold_locales
  fix fs p fs' r q
  assume inv: "ramfs_inv fs" and add: "brights_ramfs_mkdir p fs = (fs', r)"
  show "ramfs_inv fs' \<and> brights_ramfs_open p fs = -1 \<and> brights_ramfs_open p fs' = r" if "0 \<le> r"
    using that add ramfs_inv_mkdir [OF inv, of p] new_entry_absent [OF inv, of p]
    by (auto simp: brights_ramfs_mkdir_def ramfs_init_file_perms_def split: option.splits
        intro!: new_entry_present [OF inv])
  show "fs' = fs" if "r < 0"
    using that add by (auto simp: brights_ramfs_mkdir_def split: option.splits)
  show "brights_ramfs_open q fs' = brights_ramfs_open q fs" if "normalize_path q 128 \<noteq> normalize_path p 128"
    using that add
    by (auto simp: brights_ramfs_mkdir_def ramfs_init_file_perms_def split: option.splits
        intro!: new_entry_frame [OF inv])
qed (use unlink_absent unlink_frame in blast)+

lemma clamp_covers:
  fixes l off z size n cap :: nat
  assumes "n = min l (cap - off)" "size = max z (off + n)" "size \<le> cap"
  shows "min l (size - off) = n"
  using assms by linarith

lemma ramfs_read_eq:
  assumes inv: "ramfs_inv fs" and i: "i < 32" and f: "rf_in_use (fs ! i)" "\<not> rf_is_dir (fs ! i)"
  shows "brights_ramfs_read (int i) off len fs
    = (let n = min (unat len) (unat (rf_size (fs ! i)) - unat off) in
       (take n (drop (unat off) (rf_data (fs ! i))), int n))"
proof (cases "rf_size (fs ! i) \<le> off")
  case True
  then show ?thesis
    using i f by (simp add: brights_ramfs_read_def fd_bad_def BRIGHTS_RAMFS_MAX_FILES_def word_le_nat_alt)
next
  case False
  let ?s = "rf_size (fs ! i)"
  have sz: "unat ?s \<le> 4096" using ramfs_invD(2) [OF inv i] by (simp add: entry_ok_def)
  have sub: "unat (?s - off) = unat ?s - unat off" using False by (intro unat_sub) simp
  define w where "w = (if ?s - off > len then len else ?s - off)"
  have w: "unat w = min (unat len) (unat ?s - unat off)"
    using sub by (auto simp: w_def word_less_nat_alt)
  then have "sint w = int (unat w)" using sz by (intro sint_small) simp
  then show ?thesis
    using i f False w unfolding brights_ramfs_read_def Let_def nat_int w_def [symmetric]
    by (simp add: fd_bad_def BRIGHTS_RAMFS_MAX_FILES_def)
qed

lemma dir_entries_loop_members:
  "n \<in> set (dir_entries_loop d k fs) \<Longrightarrow> cstr d \<Longrightarrow> \<forall>f\<in>set fs. cstr (rf_name f) \<Longrightarrow>
   \<exists>f\<in>set fs. rf_in_use f \<and> rf_name f = d @ n \<and> slash \<notin> set n"
proof (induction d k fs rule: dir_entries_loop.induct)
  case (3 d k f fs)
  have pre: "take (length d) (rf_name f) = d" if "kutil_strncmp (rf_name f) d (kutil_strlen d) = 0"
  proof -
    have "cstr (take (length d) (rf_name f))" using "3.prems" by auto
    then show ?thesis
      using that "3.prems" kutil_strcmp_sign(1) [of "take (length d) (rf_name f)" d]
      by (simp add: kutil_strncmp_take kutil_strlen_length)
  qed
  show ?case
  proof (cases "rf_in_use f \<and> kutil_strncmp (rf_name f) d (kutil_strlen d) = 0
      \<and> drop (length d) (rf_name f) \<noteq> [] \<and> slash \<notin> set (drop (length d) (rf_name f))")
    case True
    let ?e = "drop (length d) (rf_name f)"
    have "hd ?e \<noteq> slash" using True hd_in_set [of ?e] by metis
    then have "n = ?e \<or> n \<in> set (dir_entries_loop d k fs)"
      using "3.prems"(1) True by (auto simp: kutil_strlen_length Let_def)
    then show ?thesis
    proof
      assume "n = ?e"
      moreover have "rf_name f = d @ ?e" using pre True by (metis append_take_drop_id)
      ultimately show ?thesis using True by (intro bexI [of _ f]) auto
    next
      assume "n \<in> set (dir_entries_loop d k fs)"
      then show ?thesis using "3.IH" "3.prems" True by (auto simp: kutil_strlen_length)
    qed
  next
    case False
    then have "n \<in> set (dir_entries_loop d (Suc k) fs)"
      using "3.prems"(1) by (auto simp: kutil_strlen_length Let_def split: if_splits)
    then show ?thesis using "3.IH" "3.prems" False by (auto simp: kutil_strlen_length Let_def split: if_splits)
  qed
qed auto

text \<open>A write followed by a read at the same offset.\<close>

lemma ramfs_write_read:
  fixes off len :: u64
  assumes inv: "ramfs_inv fs" and ent: "i < 32" "rf_in_use (fs ! i)" "\<not> rf_is_dir (fs ! i)"
    and off: "unat off < 4096" "unat off + unat len < 2 ^ 64"
  defines "n \<equiv> min (unat len) (4096 - unat off)"
  shows "\<exists>fs'. brights_ramfs_write (int i) off src len fs = Some (fs', int n)
    \<and> brights_ramfs_read (int i) off len fs' = (map src [0..<n], int n)
    \<and> unat (rf_size (fs' ! i)) = max (unat (rf_size (fs ! i))) (unat off + n)
    \<and> (\<forall>j. j \<noteq> i \<longrightarrow> fs' ! j = fs ! j) \<and> rf_in_use (fs' ! i) \<and> \<not> rf_is_dir (fs' ! i)
    \<and> (\<forall>k<4096. k < unat off \<or> unat off + n \<le> k \<longrightarrow> rf_data (fs' ! i) ! k = rf_data (fs ! i) ! k)"
proof -
  note D = ramfs_invD [OF inv] and W = ramfs_write_ok [OF inv ent off, of src, folded n_def]
  have len: "length (rf_data (fs ! i)) = 4096" using D(2) [OF ent(1)] by (simp add: entry_ok_def)
  have n: "unat off + n \<le> 4096" using off(1) by (simp add: n_def)
  let ?g = "\<lambda>f. f\<lparr>rf_data := write_bytes (unat off) n src (rf_data f),
      rf_size := if rf_size f < off + word_of_nat n then off + word_of_nat n else rf_size f\<rparr>"
  let ?fs = "upd_at i ?g fs"
  have at: "?fs ! i = ?g (fs ! i)" using D(1) ent(1) by simp
  have sz: "unat (rf_size (?fs ! i)) = max (unat (rf_size (fs ! i))) (unat off + n)" using W(3) at by simp
  have "unat (rf_size (?fs ! i)) \<le> 4096" using ramfs_invD(2) [OF W(2) ent(1)] by (simp add: entry_ok_def)
  then have "min (unat len) (unat (rf_size (?fs ! i)) - unat off) = n"
    using sz by (intro clamp_covers [OF n_def [THEN meta_eq_to_obj_eq]])
  then have "brights_ramfs_read (int i) off len ?fs = (map src [0..<n], int n)"
    using ramfs_read_eq [OF W(2) ent(1), of off len] at ent(2,3) len n
    by (simp add: take_drop_write_bytes)
  moreover have "\<forall>k<4096. k < unat off \<or> unat off + n \<le> k \<longrightarrow> rf_data (?fs ! i) ! k = rf_data (fs ! i) ! k"
    using at len n by (auto simp: nth_write_bytes)
  ultimately show ?thesis using W(1) sz at ent(2,3) by (intro exI [of _ ?fs]) auto
qed

subsection \<open>Properties\<close>

text \<open>C10: in every state of the RAM file system reachable from initialisation, whatever the sequence of
  operations and their outcomes, the entries in use form a tree: every name is canonical and not
  the root, no two entries have the same name, the parent of every entry is the root or a
  directory in use, and no file is longer than its storage.\<close>
theorem ramfs_tree_invariant:
  assumes "ramfs_reachable fs" "i < 32" "rf_in_use (fs ! i)"
  shows "canonical 127 128 (rf_name (fs ! i)) \<and> rf_name (fs ! i) \<noteq> [slash]
    \<and> (\<forall>j<32. rf_in_use (fs ! j) \<and> rf_name (fs ! j) = rf_name (fs ! i) \<longrightarrow> j = i)
    \<and> (\<exists>q. path_parent (rf_name (fs ! i)) 128 = Some q \<and>
         (q = [slash] \<or> (\<exists>g\<in>set fs. rf_in_use g \<and> rf_is_dir g \<and> rf_name g = q)))
    \<and> unat (rf_size (fs ! i)) \<le> length (rf_data (fs ! i))"
proof -
  have inv: "ramfs_inv fs" using assms(1) by (rule ramfs_inv_reachable)
  note D = ramfs_invD [OF inv]
  show ?thesis
    using D(2) [OF assms(2)] D(3) [OF assms(2,3)] D(4) [OF _ assms(2) _ assms(3)] assms(3)
    by (auto simp: entry_ok_def parent_ok_def)
qed

definition blank_file :: rfile where
  "blank_file = \<lparr>rf_name = [], rf_data = replicate 4096 0, rf_size = 0, rf_capacity = 4096, rf_mode = 0,
     rf_uid = 0, rf_gid = 0, rf_target = [], rf_is_dir = False, rf_is_symlink = False, rf_in_use = False\<rparr>"

definition ramfs_demo :: ramfs where
  "ramfs_demo = fst (brights_ramfs_create (Some ''/a'') (brights_ramfs_init (replicate 32 blank_file)))"

lemma ramfs_demo_create:
  "brights_ramfs_create (Some ''/a'') (brights_ramfs_init (replicate 32 blank_file)) = (ramfs_demo, 0)
   \<and> ramfs_demo ! 0 = (blank_file\<lparr>rf_name := ''/a'', rf_in_use := True, rf_mode := 0x81A4\<rparr>)"
proof -
  let ?b = "blank_file\<lparr>rf_in_use := False, rf_is_dir := False, rf_is_symlink := False, rf_size := 0,
      rf_capacity := 4096, rf_name := [], rf_mode := 0, rf_uid := 0, rf_gid := 0, rf_target := []\<rparr>"
  have init: "brights_ramfs_init (replicate 32 blank_file) = ?b # replicate 31 ?b"
    by (simp add: brights_ramfs_init_def numeral_eq_Suc)
  have norm: "normalize_path (Some ''/a'') 128 = Some ''/a''"
    by (simp add: normalize_path_eq path_fields_def cstr_def NUL_def join_def)
  have "path_parent ''/a'' 128 = Some [slash]" by (simp add: path_parent_def cchar_def NUL_def)
  moreover have "ramfs_find_name (?b # replicate 31 ?b) ''/a'' = None"
    by (simp add: ramfs_find_name_None)
  moreover have "ramfs_find_free (?b # replicate 31 ?b) = Some 0" by (simp add: ramfs_find_free_def)
  ultimately have "ramfs_new_entry (Some ''/a'') (?b # replicate 31 ?b) = Some (''/a'', 0)"
    using norm by (simp add: ramfs_new_entry_def BRIGHTS_RAMFS_MAX_NAME_def ramfs_parent_exists_def path_len_limited_def)
  then show ?thesis
    unfolding ramfs_demo_def init brights_ramfs_create_def
    by (simp add: upd_at_def ramfs_init_file_perms_def) (simp add: blank_file_def)
qed

lemma ramfs_demo_reachable: "ramfs_reachable ramfs_demo"
proof -
  have "ramfs_reachable (brights_ramfs_init (replicate 32 blank_file))"
    by (rule ramfs_reachable.init) (auto simp: blank_file_def)
  then show ?thesis unfolding ramfs_demo_def by (rule ramfs_reachable.step) (rule ramfs_step.create)
qed

theorem ramfs_tree_invariant_witness:
  "ramfs_reachable ramfs_demo \<and> rf_in_use (ramfs_demo ! 0) \<and> canonical 127 128 ''/a''"
  using ramfs_tree_invariant [OF ramfs_demo_reachable, of 0] ramfs_demo_create ramfs_demo_reachable by auto

text \<open>C11: writing \<open>len\<close> bytes at offset \<open>off\<close> of a file (\<open>off\<close> inside the storage, no 64-bit overflow) stores
  and reports as many bytes as fit, reading them back returns exactly those bytes, all other bytes
  of the file and all other files stay as they were, and the file grows to cover the write.\<close>
theorem ramfs_write_read_roundtrip:
  fixes off len :: u64
  assumes "ramfs_reachable fs" "i < 32" "rf_in_use (fs ! i)" "\<not> rf_is_dir (fs ! i)"
    "unat off < 4096" "unat off + unat len < 2 ^ 64"
  defines "n \<equiv> min (unat len) (4096 - unat off)"
  shows "\<exists>fs'. brights_ramfs_write (int i) off src len fs = Some (fs', int n)
    \<and> brights_ramfs_read (int i) off len fs' = (map src [0..<n], int n)
    \<and> unat (rf_size (fs' ! i)) = max (unat (rf_size (fs ! i))) (unat off + n)
    \<and> (\<forall>j. j \<noteq> i \<longrightarrow> fs' ! j = fs ! j)
    \<and> (\<forall>k<4096. k < unat off \<or> unat off + n \<le> k \<longrightarrow> rf_data (fs' ! i) ! k = rf_data (fs ! i) ! k)"
  using ramfs_write_read [OF ramfs_inv_reachable [OF assms(1)] assms(2-6), of src] unfolding n_def by blast

theorem ramfs_write_read_roundtrip_witness:
  "\<exists>fs'. brights_ramfs_write 0 5 (\<lambda>k. of_nat k) 3 ramfs_demo = Some (fs', 3)
    \<and> brights_ramfs_read 0 5 3 fs' = ([0, 1, 2], 3)"
proof -
  have "[0..<3] = [0, 1, 2 :: nat]" by (simp add: upt_rec)
  then show ?thesis
    using ramfs_write_read_roundtrip [OF ramfs_demo_reachable, of 0 5 3 "\<lambda>k. of_nat k"] ramfs_demo_create
    by (simp add: blank_file_def) blast
qed

text \<open>Creating a file makes its path resolve to the new descriptor, and removing it again makes every
  path resolve as before the creation; creating the same path twice fails and changes nothing.\<close>
theorem ramfs_create_unlink_restores:
  assumes "ramfs_reachable fs" "brights_ramfs_create p fs = (fs1, r1)" "0 \<le> r1"
  shows "brights_ramfs_open p fs1 = r1
    \<and> (\<forall>fs2 r2. brights_ramfs_unlink p fs1 = (fs2, r2) \<and> 0 \<le> r2 \<longrightarrow>
         (\<forall>q. brights_ramfs_open q fs2 = brights_ramfs_open q fs))
    \<and> brights_ramfs_create p fs1 = (fs1, -1)"
proof -
  have inv: "ramfs_inv fs" using assms(1) by (rule ramfs_inv_reachable)
  note A = rc.add_ok [OF inv assms(2,3)]
  have "brights_ramfs_open q fs2 = brights_ramfs_open q fs"
    if "brights_ramfs_unlink p fs1 = (fs2, r2)" "0 \<le> r2" for fs2 r2 q
  proof (cases "normalize_path q 128 = normalize_path p 128")
    case True
    then show ?thesis
      using A rc.add_then_rem [OF inv assms(2,3) that] by (simp add: ramfs_open_eq)
  qed (use rc.add_then_rem [OF inv assms(2,3) that] in blast)
  moreover have "brights_ramfs_create p fs1 = (fs1, -1)"
  proof -
    obtain fs2 r2 where c: "brights_ramfs_create p fs1 = (fs2, r2)" by fastforce
    then have "r2 < 0 \<and> fs2 = fs1" by (rule rc.no_double_add [OF inv assms(2,3)])
    then show ?thesis using c by (auto simp: brights_ramfs_create_def split: option.splits)
  qed
  ultimately show ?thesis using A by blast
qed

theorem ramfs_create_unlink_restores_witness:
  "brights_ramfs_open (Some ''/a'') ramfs_demo = 0
   \<and> brights_ramfs_create (Some ''/a'') ramfs_demo = (ramfs_demo, -1)"
proof -
  have "ramfs_reachable (brights_ramfs_init (replicate 32 blank_file))"
    by (rule ramfs_reachable.init) (auto simp: blank_file_def)
  then show ?thesis
    using ramfs_create_unlink_restores [of _ "Some ''/a''" ramfs_demo 0] ramfs_demo_create by blast
qed

text \<open>A write whose offset plus length exceeds 64 bits escapes the clamp of \<open>brights_ramfs_write\<close> and
  stores outside the 4096 bytes of the file.\<close>
theorem ramfs_write_overflow_escapes:
  assumes "ramfs_reachable fs" "i < 32" "rf_in_use (fs ! i)" "\<not> rf_is_dir (fs ! i)"
    "unat off < 4096" "2 ^ 64 \<le> unat off + unat (len :: u64)"
  shows "brights_ramfs_write (int i) off src len fs = None"
  using ramfs_inv_reachable [OF assms(1)] assms(2-6) by (rule ramfs_write_wrap)

theorem ramfs_write_overflow_escapes_witness:
  "brights_ramfs_write 0 1 (\<lambda>k. 7) 0xFFFFFFFFFFFFFFFF ramfs_demo = None"
  using ramfs_write_overflow_escapes [OF ramfs_demo_reachable, of 0 1 "0xFFFFFFFFFFFFFFFF" "\<lambda>k. 7"] ramfs_demo_create
  by (simp add: blank_file_def)

text \<open>Listing a directory other than the root returns no entry of that directory: every name \<open>n\<close> it
  returns belongs to an entry whose path is the directory's path followed directly by \<open>n\<close> with no
  slash in between, that is, to a sibling of the directory.\<close>
theorem ramfs_listing_misses_children:
  assumes "canonical 127 128 d" "d \<noteq> [slash]" "\<forall>f\<in>set fs. cstr (rf_name f)"
    "brights_ramfs_get_dir_entries (Some d) mx fs = Some ns" "n \<in> set ns"
  shows "\<exists>f\<in>set fs. rf_in_use f \<and> rf_name f = d @ n \<and> slash \<notin> set n"
proof -
  have "normalize_path (Some d) 128 = Some d" using assms(1) by (rule rn.canon_fix)
  then have "ns = dir_entries_loop d (nat mx) fs"
    using assms(4) by (simp add: brights_ramfs_get_dir_entries_def BRIGHTS_RAMFS_MAX_NAME_def)
  moreover have "cstr d" using assms(1) cstr_join by (auto simp: canonical_def)
  ultimately show ?thesis using dir_entries_loop_members assms(3,5) by blast
qed

theorem ramfs_listing_misses_children_witness:
  "let fs = [blank_file\<lparr>rf_name := ''/a'', rf_is_dir := True, rf_in_use := True\<rparr>,
             blank_file\<lparr>rf_name := ''/a/x'', rf_in_use := True\<rparr>,
             blank_file\<lparr>rf_name := ''/ab'', rf_in_use := True\<rparr>]
   in brights_ramfs_get_dir_entries (Some ''/a'') 10 fs = Some [''b'']
      \<and> (\<exists>f\<in>set fs. rf_in_use f \<and> rf_name f = ''/a'' @ ''b'')"
proof -
  let ?fs = "[blank_file\<lparr>rf_name := ''/a'', rf_is_dir := True, rf_in_use := True\<rparr>,
             blank_file\<lparr>rf_name := ''/a/x'', rf_in_use := True\<rparr>,
             blank_file\<lparr>rf_name := ''/ab'', rf_in_use := True\<rparr>]"
  have norm: "normalize_path (Some ''/a'') 128 = Some ''/a''"
    by (simp add: normalize_path_eq path_fields_def cstr_def NUL_def join_def)
  then have g: "brights_ramfs_get_dir_entries (Some ''/a'') 10 ?fs = Some [''b'']"
    by (simp add: brights_ramfs_get_dir_entries_def BRIGHTS_RAMFS_MAX_NAME_def numeral_eq_Suc ccode_def)
  have "canonical 127 128 ''/a''" using norm by (rule rn.norm_canon)
  then show ?thesis
    using g ramfs_listing_misses_children [of "''/a''" ?fs 10 "[''b'']" "''b''"]
    by (simp add: cstr_def NUL_def blank_file_def)
qed

end
