(* ===== verification/Pipe.thy ===== *)
theory Pipe
  imports Kernel_Prelude Kutil
begin

text \<open>
  Pipes: the pipe table of \<open>kernel/pipe.c\<close> (4096-byte buffers) and the pipe buffers behind the
  pipe files of \<open>kernel/pipe_vfs.c\<close> (1024 bytes). Both move bytes through the same ring-buffer
  loops, \<open>ring_put\<close> and \<open>ring_get\<close>, with different sizes. Indices and fill levels stay below the buffer
  size and are natural numbers; a caller's source buffer is the list of its bytes.

  The locale \<open>byte_stream\<close> is the contract of a bounded byte stream, interpreted on both
  implementations; its lemma \<open>stream_integrity\<close> covers any interleaving of writes and reads
  of admissible sizes (all sizes here; datagram sockets, which also meet the contract, bound them).
\<close>

subsection \<open>The loops\<close>

fun ring_put :: "nat \<Rightarrow> u8 list \<Rightarrow> u8 list \<times> nat \<times> nat \<Rightarrow> (u8 list \<times> nat \<times> nat) \<times> nat" where
  "ring_put sz [] st = (st, 0)"
| "ring_put sz (b # bs) (buf, wr, len) =
     (if len \<ge> sz then ((buf, wr, len), 0)
      else (let (st, n) = ring_put sz bs (buf[wr := b], (wr + 1) mod sz, len + 1) in (st, Suc n)))"

fun ring_get :: "nat \<Rightarrow> nat \<Rightarrow> u8 list \<Rightarrow> nat \<times> nat \<Rightarrow> (nat \<times> nat) \<times> u8 list" where
  "ring_get sz 0 buf st = (st, [])"
| "ring_get sz (Suc n) buf (rd, len) =
     (if len = 0 then ((rd, len), [])
      else (let (st, bs) = ring_get sz n buf ((rd + 1) mod sz, len - 1) in (st, buf ! rd # bs)))"

subsection \<open>kernel/pipe.c\<close>

definition BRIGHTS_PIPE_BUF_SIZE :: nat where "BRIGHTS_PIPE_BUF_SIZE = 4096"
definition BRIGHTS_MAX_PIPES :: nat where "BRIGHTS_MAX_PIPES = 16"

record pipe =
  p_buf :: "u8 list"
  p_rd :: nat
  p_wr :: nat
  p_len :: nat
  read_end_open :: bool
  write_end_open :: bool

record pipe_state =
  pipe_table :: "pipe list"
  pipe_count :: nat

definition brights_pipe_create :: "pipe_state \<Rightarrow> pipe_state \<times> int" where
  "brights_pipe_create s =
     (if pipe_count s \<ge> BRIGHTS_MAX_PIPES then (s, -1)
      else
        (let idx = pipe_count s in
         (s\<lparr>pipe_count := idx + 1,
            pipe_table := upd_at idx (\<lambda>p. p\<lparr>p_rd := 0, p_wr := 0, p_len := 0, read_end_open := True,
                                              write_end_open := True\<rparr>) (pipe_table s)\<rparr>, int idx)))"

definition brights_pipe_get :: "int \<Rightarrow> pipe_state \<Rightarrow> pipe option" where
  "brights_pipe_get idx s =
     (if idx < 0 \<or> idx \<ge> int (pipe_count s) then None else Some (pipe_table s ! nat idx))"

definition brights_pipe_write :: "pipe \<Rightarrow> u8 list \<Rightarrow> pipe \<times> int" where
  "brights_pipe_write p src =
     (if \<not> write_end_open p then (p, -1)
      else (let ((buf, wr, len), n) = ring_put BRIGHTS_PIPE_BUF_SIZE src (p_buf p, p_wr p, p_len p)
            in (p\<lparr>p_buf := buf, p_wr := wr, p_len := len\<rparr>, int n)))"

definition brights_pipe_read :: "pipe \<Rightarrow> nat \<Rightarrow> pipe \<times> u8 list" where
  "brights_pipe_read p n =
     (let ((rd, len), bs) = ring_get BRIGHTS_PIPE_BUF_SIZE n (p_buf p) (p_rd p, p_len p)
      in (p\<lparr>p_rd := rd, p_len := len\<rparr>, bs))"

definition brights_pipe_close_read :: "pipe \<Rightarrow> pipe" where
  "brights_pipe_close_read p = p\<lparr>read_end_open := False\<rparr>"

definition brights_pipe_close_write :: "pipe \<Rightarrow> pipe" where
  "brights_pipe_close_write p = p\<lparr>write_end_open := False\<rparr>"

subsection \<open>The buffers of kernel/pipe_vfs.c\<close>

definition VPIPE_BUF_SIZE :: nat where "VPIPE_BUF_SIZE = 1024"

record vpipe =
  vp_buf :: "u8 list"
  vp_rd :: nat
  vp_wr :: nat
  vp_len :: nat
  vp_in_use :: bool

definition vpipe_read :: "vpipe \<Rightarrow> nat \<Rightarrow> vpipe \<times> u8 list" where
  "vpipe_read p n =
     (let ((rd, len), bs) = ring_get VPIPE_BUF_SIZE n (vp_buf p) (vp_rd p, vp_len p)
      in (p\<lparr>vp_rd := rd, vp_len := len\<rparr>, bs))"

definition vpipe_write :: "vpipe \<Rightarrow> u8 list \<Rightarrow> vpipe \<times> int" where
  "vpipe_write p src =
     (let ((buf, wr, len), n) = ring_put VPIPE_BUF_SIZE src (vp_buf p, vp_wr p, vp_len p)
      in (p\<lparr>vp_buf := buf, vp_wr := wr, vp_len := len\<rparr>, int n))"

subsection \<open>Facts about the loops\<close>

definition ring_ok :: "nat \<Rightarrow> u8 list \<Rightarrow> nat \<Rightarrow> nat \<Rightarrow> nat \<Rightarrow> bool" where
  "ring_ok sz buf rd wr len \<longleftrightarrow>
     0 < sz \<and> length buf = sz \<and> rd < sz \<and> len \<le> sz \<and> wr = (rd + len) mod sz"

lemma ring_put_ok:
  assumes "ring_ok sz buf rd wr len"
  shows "\<exists>buf' wr' len'. ring_put sz bs (buf, wr, len) = ((buf', wr', len'), min (length bs) (sz - len))
    \<and> ring_ok sz buf' rd wr' len'
    \<and> ring_bytes buf' sz rd len' = ring_bytes buf sz rd len @ take (sz - len) bs"
  using assms
proof (induction bs arbitrary: buf wr len)
  case (Cons b bs)
  show ?case
  proof (cases "len \<ge> sz")
    case True
    then show ?thesis using Cons.prems by (auto simp: ring_ok_def)
  next
    case False
    have "((rd + len) mod sz + 1) mod sz = (rd + len + 1) mod sz" by (rule mod_add_left_eq)
    then have ok: "ring_ok sz (buf[wr := b]) rd ((wr + 1) mod sz) (len + 1)"
      using Cons.prems False by (auto simp: ring_ok_def)
    have app: "ring_bytes (buf[wr := b]) sz rd (Suc len) = ring_bytes buf sz rd len @ [b]"
      using ring_bytes_push [of len sz buf rd b] Cons.prems False by (simp add: ring_ok_def)
    obtain buf' wr' len' where *: "ring_put sz bs (buf[wr := b], (wr + 1) mod sz, len + 1)
        = ((buf', wr', len'), min (length bs) (sz - (len + 1)))" "ring_ok sz buf' rd wr' len'"
        "ring_bytes buf' sz rd len' = ring_bytes (buf[wr := b]) sz rd (len + 1) @ take (sz - (len + 1)) bs"
      using Cons.IH [OF ok] by blast
    obtain k where k: "sz - len = Suc k" using False by (metis Suc_diff_Suc not_le)
    then have "sz - (len + 1) = k" by simp
    then show ?thesis using * app False k by auto
  qed
qed (auto simp: ring_ok_def)

lemma ring_get_ok:
  assumes "ring_ok sz buf rd wr len"
  shows "\<exists>rd' len'. ring_get sz n buf (rd, len) = ((rd', len'), take n (ring_bytes buf sz rd len))
    \<and> ring_ok sz buf rd' wr len' \<and> ring_bytes buf sz rd' len' = drop n (ring_bytes buf sz rd len)"
  using assms
proof (induction n arbitrary: rd len)
  case (Suc n)
  show ?case
  proof (cases "len = 0")
    case True
    then show ?thesis using Suc.prems by (auto simp: ring_bytes_def)
  next
    case False
    have "((rd + 1) mod sz + (len - 1)) mod sz = (rd + 1 + (len - 1)) mod sz" by (rule mod_add_left_eq)
    then have ok: "ring_ok sz buf ((rd + 1) mod sz) wr (len - 1)"
      using Suc.prems False by (auto simp: ring_ok_def)
    have pop: "ring_bytes buf sz rd len = buf ! rd # ring_bytes buf sz ((rd + 1) mod sz) (len - 1)"
      using ring_bytes_pop [of len rd sz buf] Suc.prems False by (simp add: ring_ok_def)
    obtain rd' len' where "ring_get sz n buf ((rd + 1) mod sz, len - 1)
        = ((rd', len'), take n (ring_bytes buf sz ((rd + 1) mod sz) (len - 1)))" "ring_ok sz buf rd' wr len'"
        "ring_bytes buf sz rd' len' = drop n (ring_bytes buf sz ((rd + 1) mod sz) (len - 1))"
      using Suc.IH [OF ok] by blast
    then show ?thesis using pop False by auto
  qed
qed simp

subsection \<open>Bounded byte streams\<close>

locale byte_stream =
  fixes put :: "'p \<Rightarrow> u8 list \<Rightarrow> 'p \<times> int"
    and get :: "'p \<Rightarrow> nat \<Rightarrow> 'p \<times> u8 list"
    and inv :: "'p \<Rightarrow> bool"
    and held :: "'p \<Rightarrow> u8 list"
    and cap :: nat
    and admissible :: "u8 list + nat \<Rightarrow> bool"
  assumes put_ok: "inv p \<Longrightarrow> admissible (Inl bs) \<Longrightarrow> \<exists>p'. put p bs = (p', int (min (length bs) (cap - length (held p)))) \<and> inv p'
      \<and> held p' = held p @ take (cap - length (held p)) bs"
    and get_ok: "inv p \<Longrightarrow> admissible (Inr n) \<Longrightarrow> \<exists>p'. get p n = (p', take n (held p)) \<and> inv p' \<and> held p' = drop n (held p)"
    and held_bound: "inv p \<Longrightarrow> length (held p) \<le> cap"
begin

text \<open>
  A run of writes (\<open>Inl\<close>, the bytes offered) and reads (\<open>Inr\<close>, the number asked for): the final
  buffer, the bytes accepted and the bytes delivered.
\<close>

fun run :: "'p \<Rightarrow> (u8 list + nat) list \<Rightarrow> 'p \<times> u8 list \<times> u8 list" where
  "run p [] = (p, [], [])"
| "run p (Inl bs # ops) =
     (case put p bs of (p', r) \<Rightarrow> case run p' ops of (q, a, d) \<Rightarrow> (q, take (nat r) bs @ a, d))"
| "run p (Inr n # ops) =
     (case get p n of (p', bs) \<Rightarrow> case run p' ops of (q, a, d) \<Rightarrow> (q, a, bs @ d))"

lemma stream_integrity:
  assumes "inv p" "list_all admissible ops" "run p ops = (q, accepted, delivered)"
  shows "inv q \<and> held p @ accepted = delivered @ held q \<and> length (held q) \<le> cap"
  using assms
proof (induction p ops arbitrary: q accepted delivered rule: run.induct)
  case (1 p)
  then show ?case using held_bound by auto
next
  case (2 p bs ops)
  obtain p' where p': "put p bs = (p', int (min (length bs) (cap - length (held p))))" "inv p'"
      "held p' = held p @ take (cap - length (held p)) bs"
    using put_ok [OF "2.prems"(1)] "2.prems"(2) by auto
  obtain a d where r: "run p' ops = (q, a, d)"
    and a: "accepted = take (min (length bs) (cap - length (held p))) bs @ a" "delivered = d"
    using "2.prems"(3) p'(1) by (auto split: prod.splits)
  have "inv q \<and> held p' @ a = d @ held q \<and> length (held q) \<le> cap"
    using "2.IH" [OF p'(1) [symmetric] p'(2) _ r] "2.prems"(2) by simp
  moreover have "take (min (length bs) (cap - length (held p))) bs = take (cap - length (held p)) bs"
    by (simp add: min_def)
  ultimately show ?case using a p'(3) by simp
next
  case (3 p n ops)
  obtain p' where p': "get p n = (p', take n (held p))" "inv p'" "held p' = drop n (held p)"
    using get_ok [OF "3.prems"(1)] "3.prems"(2) by auto
  obtain a d where r: "run p' ops = (q, a, d)" and a: "accepted = a" "delivered = take n (held p) @ d"
    using "3.prems"(3) p'(1) by (auto split: prod.splits)
  have "inv q \<and> held p' @ a = d @ held q \<and> length (held q) \<le> cap"
    using "3.IH" [OF p'(1) [symmetric] p'(2) _ r] "3.prems"(2) by simp
  then show ?case using a p'(3) by (metis append.assoc append_take_drop_id)
qed

end

definition pipe_inv :: "pipe \<Rightarrow> bool" where
  "pipe_inv p \<longleftrightarrow> ring_ok 4096 (p_buf p) (p_rd p) (p_wr p) (p_len p) \<and> write_end_open p"

definition pipe_held :: "pipe \<Rightarrow> u8 list" where
  "pipe_held p = ring_bytes (p_buf p) 4096 (p_rd p) (p_len p)"

definition vpipe_inv :: "vpipe \<Rightarrow> bool" where
  "vpipe_inv p \<longleftrightarrow> ring_ok 1024 (vp_buf p) (vp_rd p) (vp_wr p) (vp_len p)"

definition vpipe_held :: "vpipe \<Rightarrow> u8 list" where
  "vpipe_held p = ring_bytes (vp_buf p) 1024 (vp_rd p) (vp_len p)"

interpretation ps: byte_stream brights_pipe_write brights_pipe_read pipe_inv pipe_held 4096 "\<lambda>_. True"
proof unfold_locales
  fix p bs n
  assume inv: "pipe_inv p"
  then have ok: "ring_ok 4096 (p_buf p) (p_rd p) (p_wr p) (p_len p)" "write_end_open p"
    by (simp_all add: pipe_inv_def)
  show "\<exists>p'. brights_pipe_write p bs = (p', int (min (length bs) (4096 - length (pipe_held p)))) \<and> pipe_inv p'
      \<and> pipe_held p' = pipe_held p @ take (4096 - length (pipe_held p)) bs"
    using ring_put_ok [OF ok(1), of bs] ok(2)
    by (auto simp: brights_pipe_write_def BRIGHTS_PIPE_BUF_SIZE_def pipe_inv_def pipe_held_def)
  show "\<exists>p'. brights_pipe_read p n = (p', take n (pipe_held p)) \<and> pipe_inv p' \<and> pipe_held p' = drop n (pipe_held p)"
    using ring_get_ok [OF ok(1), of n] ok(2)
    by (auto simp: brights_pipe_read_def BRIGHTS_PIPE_BUF_SIZE_def pipe_inv_def pipe_held_def)
  show "length (pipe_held p) \<le> 4096" using ok(1) by (simp add: pipe_held_def ring_ok_def)
qed

interpretation vps: byte_stream vpipe_write vpipe_read vpipe_inv vpipe_held 1024 "\<lambda>_. True"
proof unfold_locales
  fix p bs n
  assume inv: "vpipe_inv p"
  then have ok: "ring_ok 1024 (vp_buf p) (vp_rd p) (vp_wr p) (vp_len p)" by (simp add: vpipe_inv_def)
  show "\<exists>p'. vpipe_write p bs = (p', int (min (length bs) (1024 - length (vpipe_held p)))) \<and> vpipe_inv p'
      \<and> vpipe_held p' = vpipe_held p @ take (1024 - length (vpipe_held p)) bs"
    using ring_put_ok [OF ok, of bs]
    by (auto simp: vpipe_write_def VPIPE_BUF_SIZE_def vpipe_inv_def vpipe_held_def)
  show "\<exists>p'. vpipe_read p n = (p', take n (vpipe_held p)) \<and> vpipe_inv p' \<and> vpipe_held p' = drop n (vpipe_held p)"
    using ring_get_ok [OF ok, of n]
    by (auto simp: vpipe_read_def VPIPE_BUF_SIZE_def vpipe_inv_def vpipe_held_def)
  show "length (vpipe_held p) \<le> 1024" using ok by (simp add: vpipe_held_def ring_ok_def)
qed

subsection \<open>Properties\<close>

text \<open>C27: over any interleaving of writes and reads, a pipe of \<open>pipe.c\<close> with its write end open neither
  loses, duplicates nor reorders bytes: what it held followed by the bytes it accepted is what it
  delivered followed by what it still holds, which never exceeds the buffer.\<close>
theorem pipe_stream_integrity:
  assumes "pipe_inv p" "ps.run p ops = (q, accepted, delivered)"
  shows "pipe_held p @ accepted = delivered @ pipe_held q \<and> length (pipe_held q) \<le> 4096 \<and> pipe_inv q"
  using ps.stream_integrity [OF assms(1) _ assms(2)] by (simp add: list_all_iff)

definition demo_pipe :: pipe where
  "demo_pipe = \<lparr>p_buf = replicate 4096 0, p_rd = 0, p_wr = 0, p_len = 0, read_end_open = True, write_end_open = True\<rparr>"

lemma demo_pipe_inv: "pipe_inv demo_pipe" "pipe_held demo_pipe = []"
  by (simp_all add: pipe_inv_def pipe_held_def demo_pipe_def ring_ok_def ring_bytes_def)

theorem pipe_stream_integrity_witness:
  "\<exists>q a d. ps.run demo_pipe [Inl [1, 2, 3], Inr 2] = (q, a, d) \<and> a = d @ pipe_held q"
proof -
  obtain q a d where r: "ps.run demo_pipe [Inl [1, 2, 3], Inr 2] = (q, a, d)" by (metis prod_cases3)
  then show ?thesis using pipe_stream_integrity [OF demo_pipe_inv(1) r] demo_pipe_inv(2) by auto
qed

text \<open>The same holds for the buffers behind the pipe files of \<open>pipe_vfs.c\<close>.\<close>
theorem vpipe_stream_integrity:
  assumes "vpipe_inv p" "vps.run p ops = (q, accepted, delivered)"
  shows "vpipe_held p @ accepted = delivered @ vpipe_held q \<and> length (vpipe_held q) \<le> 1024 \<and> vpipe_inv q"
  using vps.stream_integrity [OF assms(1) _ assms(2)] by (simp add: list_all_iff)

definition demo_vpipe :: vpipe where
  "demo_vpipe = \<lparr>vp_buf = replicate 1024 0, vp_rd = 1023, vp_wr = 1023, vp_len = 0, vp_in_use = True\<rparr>"

theorem vpipe_stream_integrity_witness:
  "\<exists>q a d. vps.run demo_vpipe [Inl [1, 2, 3], Inr 2] = (q, a, d) \<and> a = d @ vpipe_held q"
proof -
  have i: "vpipe_inv demo_vpipe" "vpipe_held demo_vpipe = []"
    by (simp_all add: vpipe_inv_def vpipe_held_def demo_vpipe_def ring_ok_def ring_bytes_def)
  obtain q a d where r: "vps.run demo_vpipe [Inl [1, 2, 3], Inr 2] = (q, a, d)" by (metis prod_cases3)
  then show ?thesis using vpipe_stream_integrity [OF i(1) r] i(2) by auto
qed

end
