(* ===== verification/Vfs.thy ===== *)
theory Vfs
  imports Kernel_Prelude Kutil Paths Ramfs Pipe
begin

text \<open>
  The virtual file system, \<open>kernel/fs/vfs2.c\<close>, with the three file systems behind it:
  \<open>kernel/fs/ramfs_vfs.c\<close>, \<open>kernel/fs/devfs_vfs.c\<close> and the pipe files of \<open>kernel/pipe_vfs.c\<close>.

  A pointer to a static table entry is its index: an open file is an index of the file pool, a
  mount an index of the mount table, an inode a reference into the inode table of its file
  system. The operation tables (\<open>vfs_sb_ops_t\<close>, \<open>vfs_file_ops_t\<close>) are constants of the program, so a
  pointer to one is a constructor of \<open>sbref\<close> or \<open>fops\<close> and a call through it a case distinction; a
  null entry is the branch that returns -1 or takes the default.

  The result \<open>None\<close> of \<open>brights_vfs2_write\<close> is a store outside a file's storage, and of
  \<open>brights_vfs2_read\<close> a terminal read that waits for more input than there is: \<open>tty_in\<close> holds the
  characters \<open>brights_tty_read_char_blocking\<close> will return, \<open>serial_out\<close> what was sent to the serial port.

  When a path is not in the path cache, \<open>brights_vfs2_resolve\<close> hands out a pointer to a local array with the path
  relative to the mount, which no longer exists when the caller reads it.  The field \<open>dead_frame\<close> says what string the
  caller then finds there, given the one the array held; nothing is assumed about it.
\<close>

datatype sbref = RamfsSb | DevfsSb | PipeSb
datatype fops = RamfsFops | DevfsFops | PipeReadFops | PipeWriteFops
datatype iref = RamfsInode nat | DevfsRoot | DevfsInode nat | PipeInode nat
datatype pdata = PInt int | PPipe nat

record vinode =
  in_ino :: u32
  in_mode :: u32
  in_size :: u64
  in_sb :: "sbref option"
  in_private :: pdata

record vfile =
  f_inode :: "iref option"
  f_pos :: u64
  f_flags :: u32
  f_fops :: "fops option"
  f_private :: pdata
  f_in_use :: bool

record vmount =
  m_prefix :: string
  m_sb :: "sbref option"
  m_active :: bool

record pcache =
  pc_path :: string
  pc_mount :: "nat option"
  pc_rel :: string

record devnode =
  dn_name :: string
  dn_inode :: vinode

record vfs =
  file_pool :: "vfile list"
  file_pool_bitmap :: u64
  mount_table :: "vmount list"
  mount_bitmap :: u8
  path_cache :: "pcache list"
  path_cache_next :: nat
  vfs_ramfs :: ramfs
  ramfs_vfs_inodes :: "vinode list"
  devfs_nodes :: "devnode list"
  devfs_root_inode :: vinode
  pipe_pool :: "vpipe list"
  pipe_inodes :: "vinode list"
  tty_in :: "u8 list"
  serial_out :: "u8 list"
  dead_frame :: "string \<Rightarrow> string"

definition VFS_S_IFREG :: u32 where "VFS_S_IFREG = 0x8000"
definition VFS_S_IFDIR :: u32 where "VFS_S_IFDIR = 0x4000"
definition VFS_S_IFCHR :: u32 where "VFS_S_IFCHR = 0x2000"
definition VFS_S_IFBLK :: u32 where "VFS_S_IFBLK = 0x6000"
definition VFS_O_WRONLY :: u32 where "VFS_O_WRONLY = 1"
definition VFS_O_CREAT :: u32 where "VFS_O_CREAT = 0x40"
definition VFS_O_TRUNC :: u32 where "VFS_O_TRUNC = 0x200"
definition VFS_O_APPEND :: u32 where "VFS_O_APPEND = 0x400"
definition VFS_MAX_FDS :: nat where "VFS_MAX_FDS = 32"
definition VFS_MAX_MOUNTS :: nat where "VFS_MAX_MOUNTS = 8"
definition VFS_FILE_POOL_SIZE :: nat where "VFS_FILE_POOL_SIZE = 64"
definition PATH_CACHE_SIZE :: nat where "PATH_CACHE_SIZE = 16"
definition RAMFS_VFS_MAX_INODES :: nat where "RAMFS_VFS_MAX_INODES = 64"

fun get_inode :: "iref \<Rightarrow> vfs \<Rightarrow> vinode" where
  "get_inode (RamfsInode i) s = ramfs_vfs_inodes s ! i"
| "get_inode DevfsRoot s = devfs_root_inode s"
| "get_inode (DevfsInode i) s = dn_inode (devfs_nodes s ! i)"
| "get_inode (PipeInode i) s = pipe_inodes s ! i"

fun upd_inode :: "iref \<Rightarrow> (vinode \<Rightarrow> vinode) \<Rightarrow> vfs \<Rightarrow> vfs" where
  "upd_inode (RamfsInode i) g s = s\<lparr>ramfs_vfs_inodes := upd_at i g (ramfs_vfs_inodes s)\<rparr>"
| "upd_inode DevfsRoot g s = s\<lparr>devfs_root_inode := g (devfs_root_inode s)\<rparr>"
| "upd_inode (DevfsInode i) g s =
     s\<lparr>devfs_nodes := upd_at i (\<lambda>n. n\<lparr>dn_inode := g (dn_inode n)\<rparr>) (devfs_nodes s)\<rparr>"
| "upd_inode (PipeInode i) g s = s\<lparr>pipe_inodes := upd_at i g (pipe_inodes s)\<rparr>"

definition upd_file :: "nat \<Rightarrow> (vfile \<Rightarrow> vfile) \<Rightarrow> vfs \<Rightarrow> vfs" where
  "upd_file i g s = s\<lparr>file_pool := upd_at i g (file_pool s)\<rparr>"

subsection \<open>String helpers\<close>

fun vfs_str_eq :: "string \<Rightarrow> string \<Rightarrow> bool" where
  "vfs_str_eq (a # as) (b # bs) = (if a = b then vfs_str_eq as bs else False)"
| "vfs_str_eq as bs = (as = [] \<and> bs = [])"

fun vfs_str_prefix :: "string \<Rightarrow> string \<Rightarrow> bool" where
  "vfs_str_prefix [] path = True"
| "vfs_str_prefix (p # ps) [] = False"
| "vfs_str_prefix (p # ps) (c # cs) = (if p \<noteq> c then False else vfs_str_prefix ps cs)"

definition vfs_str_copy :: "nat \<Rightarrow> string \<Rightarrow> string" where
  "vfs_str_copy cap src = take (cap - 1) src"

subsection \<open>Mounts and path resolution\<close>

definition brights_vfs2_init :: "vfs \<Rightarrow> vfs" where
  "brights_vfs2_init s =
     s\<lparr>file_pool_bitmap := 0, mount_bitmap := 0,
       file_pool := map (\<lambda>f. f\<lparr>f_in_use := False\<rparr>) (file_pool s),
       mount_table := map (\<lambda>m. m\<lparr>m_active := False\<rparr>) (mount_table s)\<rparr>"

definition find_mounted :: "string \<Rightarrow> vfs \<Rightarrow> nat option" where
  "find_mounted prefix s =
     first_idx (\<lambda>i. bit (mount_bitmap s) i \<and> vfs_str_eq (m_prefix (mount_table s ! i)) prefix)
       [0..<VFS_MAX_MOUNTS]"

definition brights_vfs2_mount :: "string option \<Rightarrow> sbref option \<Rightarrow> vfs \<Rightarrow> vfs \<times> int" where
  "brights_vfs2_mount prefix sb s =
     (case (prefix, sb) of
        (Some pre, Some b) \<Rightarrow>
          (case find_mounted pre s of
             Some i \<Rightarrow> (s, -1)
           | None \<Rightarrow>
               (case first_idx (\<lambda>i. \<not> bit (mount_bitmap s) i) [0..<VFS_MAX_MOUNTS] of
                  None \<Rightarrow> (s, -1)
                | Some i \<Rightarrow>
                    (s\<lparr>mount_table := upd_at i (\<lambda>m. m\<lparr>m_prefix := vfs_str_copy 128 pre, m_sb := Some b,
                                                       m_active := True\<rparr>) (mount_table s),
                       mount_bitmap := bit_on i (mount_bitmap s)\<rparr>, 0)))
      | _ \<Rightarrow> (s, -1))"

definition brights_vfs2_umount :: "string option \<Rightarrow> vfs \<Rightarrow> vfs \<times> int" where
  "brights_vfs2_umount prefix s =
     (case prefix of
        None \<Rightarrow> (s, -1)
      | Some pre \<Rightarrow>
          (case find_mounted pre s of
             None \<Rightarrow> (s, -1)
           | Some i \<Rightarrow>
               (s\<lparr>mount_table := upd_at i (\<lambda>m. m\<lparr>m_active := False\<rparr>) (mount_table s),
                  mount_bitmap := bit_off i (mount_bitmap s)\<rparr>, 0)))"

text \<open>One turn of the loop over the mount table: the best mount so far, its relative path and length.\<close>

definition resolve_step ::
  "string \<Rightarrow> vfs \<Rightarrow> nat \<Rightarrow> (nat \<times> string) option \<times> nat \<Rightarrow> (nat \<times> string) option \<times> nat" where
  "resolve_step nrm s i acc =
     (let m = mount_table s ! i; mp = m_prefix m; ml = length mp; best_len = snd acc in
      if \<not> m_active m then acc
      else if ml = 1 \<and> mp ! 0 = slash
      then (if best_len < 1 then (Some (i, vfs_str_copy 256 nrm), 1) else acc)
      else if vfs_str_prefix mp nrm \<and> (cchar nrm ml = NUL \<or> cchar nrm ml = slash) \<and> ml > best_len
      then (Some (i, vfs_str_copy 256 (if cchar nrm ml = NUL then [slash] else drop ml nrm)), ml)
      else acc)"

definition resolve_loop :: "string \<Rightarrow> vfs \<Rightarrow> (nat \<times> string) option" where
  "resolve_loop nrm s = fst (fold (resolve_step nrm s) [0..<VFS_MAX_MOUNTS] (None, 0))"

definition cache_find :: "string \<Rightarrow> vfs \<Rightarrow> nat option" where
  "cache_find full_path s =
     first_idx (\<lambda>e. pc_mount e \<noteq> None \<and> vfs_str_eq (pc_path e) full_path) (path_cache s)"

definition brights_vfs2_resolve :: "string option \<Rightarrow> vfs \<Rightarrow> vfs \<times> (nat \<times> string) option" where
  "brights_vfs2_resolve full_path s =
     (case full_path of
        None \<Rightarrow> (s, None)
      | Some p \<Rightarrow>
          (let fp = cstring_of p in
           case vfs_normalize fp 256 of
             None \<Rightarrow> (s, None)
           | Some nrm \<Rightarrow>
               (case cache_find fp s of
                  Some c \<Rightarrow> (s, Some (the (pc_mount (path_cache s ! c)), pc_rel (path_cache s ! c)))
                | None \<Rightarrow>
                    (case resolve_loop nrm s of
                       None \<Rightarrow> (s, None)
                     | Some (i, rel) \<Rightarrow>
                         (s\<lparr>path_cache := upd_at (path_cache_next s)
                              (\<lambda>e. e\<lparr>pc_mount := Some i, pc_path := vfs_str_copy 128 fp,
                                     pc_rel := vfs_str_copy 128 rel\<rparr>) (path_cache s),
                            path_cache_next := (path_cache_next s + 1) mod PATH_CACHE_SIZE\<rparr>,
                          Some (i, dead_frame s rel))))))"

subsection \<open>The file pool\<close>

definition brights_vfs2_file_alloc :: "vfs \<Rightarrow> vfs \<times> nat option" where
  "brights_vfs2_file_alloc s =
     (case first_idx (\<lambda>i. \<not> bit (file_pool_bitmap s) i) [0..<VFS_FILE_POOL_SIZE] of
        None \<Rightarrow> (s, None)
      | Some i \<Rightarrow>
          (s\<lparr>file_pool_bitmap := bit_on i (file_pool_bitmap s),
             file_pool := upd_at i (\<lambda>f. \<lparr>f_inode = None, f_pos = 0, f_flags = 0, f_fops = None,
                                         f_private = PInt 0, f_in_use = True\<rparr>) (file_pool s)\<rparr>,
           Some i))"

definition brights_vfs2_file_free :: "nat \<Rightarrow> vfs \<Rightarrow> vfs" where
  "brights_vfs2_file_free i s =
     s\<lparr>file_pool_bitmap := bit_off i (file_pool_bitmap s),
       file_pool := upd_at i (\<lambda>f. f\<lparr>f_in_use := False\<rparr>) (file_pool s)\<rparr>"

subsection \<open>The RAM file system behind the VFS\<close>

definition ramfs_sb_lookup :: "string \<Rightarrow> vfs \<Rightarrow> vfs \<times> iref option" where
  "ramfs_sb_lookup path s =
     (if cchar path 0 = slash \<and> cchar path 1 = NUL
      then (s\<lparr>ramfs_vfs_inodes := upd_at 0 (\<lambda>n. \<lparr>in_ino = 0, in_mode = VFS_S_IFDIR, in_size = 0,
                in_sb = Some RamfsSb, in_private = PInt 0\<rparr>) (ramfs_vfs_inodes s)\<rparr>, Some (RamfsInode 0))
      else
        (let idx = brights_ramfs_open (Some path) (vfs_ramfs s) in
         if idx < 0 then (s, None)
         else if idx \<ge> int RAMFS_VFS_MAX_INODES then (s, None)
         else (s\<lparr>ramfs_vfs_inodes := upd_at (nat idx)
                   (\<lambda>n. \<lparr>in_ino = of_int idx,
                         in_mode = (if brights_ramfs_is_dir_fd idx (vfs_ramfs s) then VFS_S_IFDIR else VFS_S_IFREG),
                         in_size = brights_ramfs_file_size idx (vfs_ramfs s),
                         in_sb = Some RamfsSb, in_private = PInt idx\<rparr>) (ramfs_vfs_inodes s)\<rparr>,
               Some (RamfsInode (nat idx)))))"

definition priv_idx :: "vfile \<Rightarrow> int" where
  "priv_idx f = (case f_private f of PInt i \<Rightarrow> i | PPipe i \<Rightarrow> int i)"

definition ramfs_vfs_read :: "nat \<Rightarrow> u64 \<Rightarrow> vfs \<Rightarrow> vfs \<times> u8 list \<times> int" where
  "ramfs_vfs_read fi count s =
     (let f = file_pool s ! fi in
      if f_inode f = None then (s, [], -1)
      else
        (let (bs, n) = brights_ramfs_read (priv_idx f) (f_pos f) count (vfs_ramfs s)
         in (if n > 0 then upd_file fi (\<lambda>f. f\<lparr>f_pos := f_pos f + of_int n\<rparr>) s else s, bs, n)))"

definition ramfs_vfs_write :: "nat \<Rightarrow> (nat \<Rightarrow> u8) \<Rightarrow> u64 \<Rightarrow> vfs \<Rightarrow> (vfs \<times> int) option" where
  "ramfs_vfs_write fi src count s =
     (let f = file_pool s ! fi; idx = priv_idx f in
      case f_inode f of
        None \<Rightarrow> Some (s, -1)
      | Some ino \<Rightarrow>
          (case brights_ramfs_write idx (f_pos f) src count (vfs_ramfs s) of
             None \<Rightarrow> None
           | Some (fs', n) \<Rightarrow>
               (let s1 = s\<lparr>vfs_ramfs := fs'\<rparr> in
                if n > 0 then
                  (let s2 = upd_file fi (\<lambda>f. f\<lparr>f_pos := f_pos f + of_int n\<rparr>) s1;
                       sz = brights_ramfs_file_size idx fs'
                   in Some (if sz > in_size (get_inode ino s2)
                            then upd_inode ino (\<lambda>n. n\<lparr>in_size := sz\<rparr>) s2 else s2, n))
                else Some (s1, n))))"

definition vfs_seek :: "u64 \<Rightarrow> u64 \<Rightarrow> u64 \<Rightarrow> int \<Rightarrow> u64 option" where
  "vfs_seek pos sz offset whence =
     (if whence = 0 then Some offset
      else if whence = 1 then Some (pos + offset)
      else if whence = 2 then Some (sz + offset)
      else None)"

definition ramfs_vfs_lseek :: "nat \<Rightarrow> u64 \<Rightarrow> int \<Rightarrow> vfs \<Rightarrow> vfs \<times> int" where
  "ramfs_vfs_lseek fi offset whence s =
     (let f = file_pool s ! fi in
      case f_inode f of
        None \<Rightarrow> (s, -1)
      | Some ino \<Rightarrow>
          (case vfs_seek (f_pos f) (in_size (get_inode ino s)) offset whence of
             None \<Rightarrow> (s, -1)
           | Some p \<Rightarrow> (upd_file fi (\<lambda>f. f\<lparr>f_pos := p\<rparr>) s, sint p)))"

text \<open>
  Listing a directory: is the entry \<open>name\<close> a direct child, and its base name. The root branch
  is kept although no table entry is named by the root path.
\<close>

definition readdir_is_child :: "string \<Rightarrow> string \<Rightarrow> bool" where
  "readdir_is_child dir_name name =
     (let dir_len = length dir_name in
      if dir_len = 1 \<and> dir_name ! 0 = slash
      then length (filter (\<lambda>c. c = slash) name) = 1 \<and> cchar name 0 = slash
      else (\<forall>j\<in>set [0..<dir_len]. cchar name j = cchar dir_name j) \<and> cchar name dir_len = slash
        \<and> slash \<notin> set (drop (dir_len + 1) name))"

definition readdir_base :: "nat \<Rightarrow> string \<Rightarrow> string" where
  "readdir_base dir_len name =
     (case kutil_strrchr (drop dir_len name) slash of
        None \<Rightarrow> name
      | Some k \<Rightarrow> drop (dir_len + k + 1) name)"

fun readdir_loop :: "nat list \<Rightarrow> ramfs \<Rightarrow> string \<Rightarrow> int \<Rightarrow> string \<Rightarrow> u64 \<Rightarrow> string \<times> u64" where
  "readdir_loop [] fs dir_name buf_size out pos = (out, pos)"
| "readdir_loop (i # is) fs dir_name buf_size out pos =
     (case brights_ramfs_name_at (int i) fs of
        None \<Rightarrow> readdir_loop is fs dir_name buf_size out pos
      | Some name \<Rightarrow>
          (if \<not> readdir_is_child dir_name name then readdir_loop is fs dir_name buf_size out pos
           else
             (let base = readdir_base (length dir_name) name in
              if int (length out) + int (length base) + 2 > buf_size then (out, pos)
              else readdir_loop is fs dir_name buf_size
                     ((if out \<noteq> [] then out @ [CHR 0x0A] else out) @ base
                       @ (if brights_ramfs_is_dir_fd (int i) fs then [slash] else []))
                     (of_nat i + 1))))"

definition ramfs_vfs_readdir :: "int \<Rightarrow> u64 \<Rightarrow> int \<Rightarrow> ramfs \<Rightarrow> (string \<times> u64) option" where
  "ramfs_vfs_readdir idx pos buf_size fs =
     (if \<not> brights_ramfs_is_dir_fd idx fs then None
      else case brights_ramfs_name_at idx fs of
        None \<Rightarrow> None
      | Some dir_name \<Rightarrow>
          Some (readdir_loop [unat pos..<brights_ramfs_count fs] fs dir_name buf_size [] pos))"

definition ramfs_sb_stat :: "string \<Rightarrow> vfs \<Rightarrow> (u64 \<times> u32) option" where
  "ramfs_sb_stat path s =
     (case brights_ramfs_stat (Some path) (vfs_ramfs s) of
        None \<Rightarrow> None
      | Some st \<Rightarrow> Some (st_size st, if st_is_dir st then VFS_S_IFDIR else VFS_S_IFREG))"

definition ramfs_sb_readdir :: "string \<Rightarrow> int \<Rightarrow> vfs \<Rightarrow> vfs \<times> string option" where
  "ramfs_sb_readdir dir_path buf_size s =
     (let idx = brights_ramfs_open (Some dir_path) (vfs_ramfs s) in
      if idx < 0 then (s, None)
      else if \<not> brights_ramfs_is_dir_fd idx (vfs_ramfs s) then (s, None)
      else (case ramfs_sb_lookup dir_path s of
              (s', None) \<Rightarrow> (s', None)
            | (s', Some ino) \<Rightarrow> (s', map_option fst (ramfs_vfs_readdir idx 0 buf_size (vfs_ramfs s')))))"

definition brights_ramfs_vfs_init :: "vfs \<Rightarrow> vfs" where
  "brights_ramfs_vfs_init s =
     s\<lparr>ramfs_vfs_inodes := map (\<lambda>n. \<lparr>in_ino = 0, in_mode = 0, in_size = 0, in_sb = None, in_private = PInt 0\<rparr>)
         (ramfs_vfs_inodes s)\<rparr>"

subsection \<open>The device file system\<close>

definition DEVFS_MAX_DEVICES :: nat where "DEVFS_MAX_DEVICES = 16"

text \<open>The first \<open>devfs_count\<close> nodes of the table are the list \<open>devfs_nodes\<close>.\<close>

definition devfs_add :: "string \<Rightarrow> u32 \<Rightarrow> u32 \<Rightarrow> vfs \<Rightarrow> vfs" where
  "devfs_add name ino mode s =
     (if length (devfs_nodes s) \<ge> DEVFS_MAX_DEVICES then s
      else s\<lparr>devfs_nodes := devfs_nodes s @
               [\<lparr>dn_name = name,
                 dn_inode = \<lparr>in_ino = ino, in_mode = mode, in_size = 0, in_sb = Some DevfsSb,
                             in_private = PInt (int (length (devfs_nodes s)))\<rparr>\<rparr>]\<rparr>)"

definition brights_devfs_vfs_init :: "vfs \<Rightarrow> vfs" where
  "brights_devfs_vfs_init s =
     devfs_add ''disk0'' 6 VFS_S_IFBLK (devfs_add ''kbd'' 5 VFS_S_IFCHR (devfs_add ''rtc'' 4 VFS_S_IFCHR
      (devfs_add ''zero'' 3 VFS_S_IFCHR (devfs_add ''null'' 2 VFS_S_IFCHR (devfs_add ''tty0'' 1 VFS_S_IFCHR
        (s\<lparr>devfs_nodes := []\<rparr>))))))"

definition devfs_sb_lookup :: "string \<Rightarrow> vfs \<Rightarrow> vfs \<times> iref option" where
  "devfs_sb_lookup path s =
     (if cchar path 0 = slash \<and> cchar path 1 = NUL
      then (s\<lparr>devfs_root_inode := \<lparr>in_ino = 0, in_mode = VFS_S_IFDIR, in_size = 0, in_sb = Some DevfsSb,
                in_private = PInt (-1)\<rparr>\<rparr>, Some DevfsRoot)
      else
        (let name = (if cchar path 0 = slash then tl path else path) in
         (s, map_option DevfsInode (first_idx (\<lambda>n. vfs_str_eq (dn_name n) name) (devfs_nodes s)))))"

definition devfs_sb_stat :: "string \<Rightarrow> vfs \<Rightarrow> vfs \<times> (u64 \<times> u32) option" where
  "devfs_sb_stat path s =
     (case devfs_sb_lookup path s of
        (s', None) \<Rightarrow> (s', None)
      | (s', Some r) \<Rightarrow> (s', Some (in_size (get_inode r s'), in_mode (get_inode r s'))))"

fun devfs_readdir_loop :: "string list \<Rightarrow> int \<Rightarrow> string \<Rightarrow> string" where
  "devfs_readdir_loop [] buf_size out = out"
| "devfs_readdir_loop (n # ns) buf_size out =
     (if int (length out) + int (length n) + 2 > buf_size then out
      else devfs_readdir_loop ns buf_size ((if out \<noteq> [] then out @ [CHR 0x0A] else out) @ n))"

definition devfs_sb_readdir :: "string \<Rightarrow> int \<Rightarrow> vfs \<Rightarrow> string option" where
  "devfs_sb_readdir dir_path buf_size s =
     (if cchar dir_path 0 \<noteq> slash \<or> cchar dir_path 1 \<noteq> NUL then None
      else Some (devfs_readdir_loop (map dn_name (devfs_nodes s)) buf_size []))"

definition devfs_tty_read :: "u64 \<Rightarrow> vfs \<Rightarrow> (vfs \<times> u8 list \<times> int) option" where
  "devfs_tty_read count s =
     (if length (tty_in s) < unat count then None
      else Some (s\<lparr>tty_in := drop (unat count) (tty_in s)\<rparr>, take (unat count) (tty_in s), sint count))"

fun brights_serial_write_ascii :: "u8 list \<Rightarrow> u8 list" where
  "brights_serial_write_ascii [] = []"
| "brights_serial_write_ascii (c # cs) =
     (if c = 0 then []
      else (if c = 10 then [13] else []) @ c # brights_serial_write_ascii cs)"

definition devfs_tty_write :: "(nat \<Rightarrow> u8) \<Rightarrow> u64 \<Rightarrow> vfs \<Rightarrow> vfs \<times> int" where
  "devfs_tty_write src count s =
     (s\<lparr>serial_out := serial_out s @
          concat (map (\<lambda>i. brights_serial_write_ascii [src i, 0]) [0..<unat count])\<rparr>, sint count)"

subsection \<open>Pipe files\<close>

definition brights_pipe_vfs_init :: "vfs \<Rightarrow> vfs" where
  "brights_pipe_vfs_init s =
     s\<lparr>pipe_pool := map (\<lambda>p. p\<lparr>vp_rd := 0, vp_wr := 0, vp_len := 0, vp_in_use := False\<rparr>) (pipe_pool s)\<rparr>"

definition pipe_read :: "nat \<Rightarrow> u64 \<Rightarrow> vfs \<Rightarrow> vfs \<times> u8 list \<times> int" where
  "pipe_read fi count s =
     (case f_private (file_pool s ! fi) of
        PInt _ \<Rightarrow> (s, [], -1)
      | PPipe pi \<Rightarrow>
          (let (p, bs) = vpipe_read (pipe_pool s ! pi) (unat count)
           in (s\<lparr>pipe_pool := (pipe_pool s)[pi := p]\<rparr>, bs, int (length bs))))"

definition pipe_write_data :: "nat \<Rightarrow> (nat \<Rightarrow> u8) \<Rightarrow> u64 \<Rightarrow> vfs \<Rightarrow> vfs \<times> int" where
  "pipe_write_data fi src count s =
     (case f_private (file_pool s ! fi) of
        PInt _ \<Rightarrow> (s, -1)
      | PPipe pi \<Rightarrow>
          (let (p, n) = vpipe_write (pipe_pool s ! pi) (map src [0..<unat count])
           in (s\<lparr>pipe_pool := (pipe_pool s)[pi := p]\<rparr>, n)))"

definition pipe_end :: "nat \<Rightarrow> nat \<Rightarrow> nat \<Rightarrow> u32 \<Rightarrow> fops \<Rightarrow> vfs \<Rightarrow> vfs" where
  "pipe_end fi k pi flags fo s =
     upd_file fi (\<lambda>f. f\<lparr>f_inode := Some (PipeInode k), f_pos := 0, f_flags := flags, f_fops := Some fo,
                        f_private := PPipe pi\<rparr>)
       (s\<lparr>pipe_inodes := upd_at k (\<lambda>n. \<lparr>in_ino = of_nat k, in_mode = VFS_S_IFREG, in_size = 0,
            in_sb = Some PipeSb, in_private = PPipe pi\<rparr>) (pipe_inodes s)\<rparr>)"

definition brights_pipe_vfs_create :: "vfs \<Rightarrow> vfs \<times> (nat \<times> nat) option" where
  "brights_pipe_vfs_create s =
     (case first_idx (\<lambda>p. \<not> vp_in_use p) (pipe_pool s) of
        None \<Rightarrow> (s, None)
      | Some pi \<Rightarrow>
          (let s1 = s\<lparr>pipe_pool := upd_at pi (\<lambda>p. p\<lparr>vp_rd := 0, vp_wr := 0, vp_len := 0, vp_in_use := True\<rparr>)
                        (pipe_pool s)\<rparr>;
               (s2, fr) = brights_vfs2_file_alloc s1;
               (s3, fw) = brights_vfs2_file_alloc s2
           in case (fr, fw) of
                (Some r, Some w) \<Rightarrow>
                  (pipe_end w (pi * 2 + 1) pi VFS_O_WRONLY PipeWriteFops (pipe_end r (pi * 2) pi 0 PipeReadFops s3),
                   Some (r, w))
              | _ \<Rightarrow>
                  (let s4 = (case fr of None \<Rightarrow> s3 | Some r \<Rightarrow> brights_vfs2_file_free r s3);
                       s5 = (case fw of None \<Rightarrow> s4 | Some w \<Rightarrow> brights_vfs2_file_free w s4)
                   in (s5\<lparr>pipe_pool := upd_at pi (\<lambda>p. p\<lparr>vp_in_use := False\<rparr>) (pipe_pool s5)\<rparr>, None))))"

subsection \<open>Operations of the VFS\<close>

text \<open>The mount's superblock of a resolved path, or \<open>None\<close> where the operations return -1.\<close>

definition resolve_sb :: "string option \<Rightarrow> vfs \<Rightarrow> vfs \<times> (sbref \<times> string) option" where
  "resolve_sb path s =
     (case brights_vfs2_resolve path s of
        (s', None) \<Rightarrow> (s', None)
      | (s', Some (i, rel)) \<Rightarrow> (s', map_option (\<lambda>b. (b, rel)) (m_sb (mount_table s' ! i))))"

definition lift_ramfs :: "(ramfs \<Rightarrow> ramfs \<times> int) \<Rightarrow> vfs \<Rightarrow> vfs \<times> int" where
  "lift_ramfs g s = (case g (vfs_ramfs s) of (fs, r) \<Rightarrow> (s\<lparr>vfs_ramfs := fs\<rparr>, r))"

definition sb_create :: "sbref \<Rightarrow> string \<Rightarrow> vfs \<Rightarrow> vfs \<times> int" where
  "sb_create b rel s =
     (case b of RamfsSb \<Rightarrow> lift_ramfs (brights_ramfs_create (Some rel)) s | DevfsSb \<Rightarrow> (s, -1) | PipeSb \<Rightarrow> (s, -1))"

definition sb_lookup :: "sbref \<Rightarrow> string \<Rightarrow> vfs \<Rightarrow> vfs \<times> iref option" where
  "sb_lookup b rel s =
     (case b of RamfsSb \<Rightarrow> ramfs_sb_lookup rel s | DevfsSb \<Rightarrow> devfs_sb_lookup rel s | PipeSb \<Rightarrow> (s, None))"

definition sb_fops :: "sbref \<Rightarrow> fops option" where
  "sb_fops b = (case b of RamfsSb \<Rightarrow> Some RamfsFops | DevfsSb \<Rightarrow> Some DevfsFops | PipeSb \<Rightarrow> None)"

definition brights_vfs2_open :: "string option \<Rightarrow> u32 \<Rightarrow> vfs \<Rightarrow> vfs \<times> nat option" where
  "brights_vfs2_open path flags s =
     (case path of
        None \<Rightarrow> (s, None)
      | Some _ \<Rightarrow>
          (case resolve_sb path s of
             (s1, None) \<Rightarrow> (s1, None)
           | (s1, Some (b, rel)) \<Rightarrow>
               (let s2 = (if flags AND VFS_O_CREAT \<noteq> 0 then fst (sb_create b rel s1) else s1) in
                case sb_lookup b rel s2 of
                  (s3, None) \<Rightarrow> (s3, None)
                | (s3, Some ino) \<Rightarrow>
                    (case brights_vfs2_file_alloc s3 of
                       (s4, None) \<Rightarrow> (s4, None)
                     | (s4, Some fi) \<Rightarrow>
                         (let n = get_inode ino s4;
                              s5 = upd_file fi (\<lambda>f. f\<lparr>f_inode := Some ino, f_pos := 0, f_flags := flags,
                                     f_fops := sb_fops b, f_private := in_private n\<rparr>) s4;
                              s6 = (if flags AND VFS_O_TRUNC \<noteq> 0 \<and> in_mode n = VFS_S_IFREG
                                    then upd_inode ino (\<lambda>n. n\<lparr>in_size := 0\<rparr>) s5 else s5);
                              s7 = (if flags AND VFS_O_APPEND \<noteq> 0
                                    then upd_file fi (\<lambda>f. f\<lparr>f_pos := in_size (get_inode ino s6)\<rparr>) s6 else s6)
                          in (s7, Some fi))))))"

text \<open>The close operations of the file systems do nothing.\<close>

definition brights_vfs2_close :: "nat \<Rightarrow> vfs \<Rightarrow> vfs \<times> int" where
  "brights_vfs2_close fi s =
     (if \<not> f_in_use (file_pool s ! fi) then (s, -1) else (brights_vfs2_file_free fi s, 0))"

definition brights_vfs2_read :: "nat \<Rightarrow> u64 \<Rightarrow> vfs \<Rightarrow> (vfs \<times> u8 list \<times> int) option" where
  "brights_vfs2_read fi count s =
     (let f = file_pool s ! fi in
      if \<not> f_in_use f then Some (s, [], -1)
      else case f_fops f of
        None \<Rightarrow> Some (s, [], -1)
      | Some RamfsFops \<Rightarrow> Some (ramfs_vfs_read fi count s)
      | Some DevfsFops \<Rightarrow> devfs_tty_read count s
      | Some PipeReadFops \<Rightarrow> Some (pipe_read fi count s)
      | Some PipeWriteFops \<Rightarrow> Some (s, [], -1))"

definition brights_vfs2_write :: "nat \<Rightarrow> (nat \<Rightarrow> u8) \<Rightarrow> u64 \<Rightarrow> vfs \<Rightarrow> (vfs \<times> int) option" where
  "brights_vfs2_write fi src count s =
     (let f = file_pool s ! fi in
      if \<not> f_in_use f then Some (s, -1)
      else case f_fops f of
        None \<Rightarrow> Some (s, -1)
      | Some RamfsFops \<Rightarrow> ramfs_vfs_write fi src count s
      | Some DevfsFops \<Rightarrow> Some (devfs_tty_write src count s)
      | Some PipeReadFops \<Rightarrow> Some (s, -1)
      | Some PipeWriteFops \<Rightarrow> Some (pipe_write_data fi src count s))"

definition brights_vfs2_lseek :: "nat \<Rightarrow> u64 \<Rightarrow> int \<Rightarrow> vfs \<Rightarrow> vfs \<times> int" where
  "brights_vfs2_lseek fi offset whence s =
     (let f = file_pool s ! fi in
      if \<not> f_in_use f then (s, -1)
      else if f_fops f = Some RamfsFops then ramfs_vfs_lseek fi offset whence s
      else
        (let p = (if whence = 2 \<and> f_inode f = None then Some (f_pos f)
                  else vfs_seek (f_pos f) (case f_inode f of None \<Rightarrow> 0 | Some ino \<Rightarrow> in_size (get_inode ino s))
                         offset whence)
         in case p of
              None \<Rightarrow> (s, -1)
            | Some q \<Rightarrow> (upd_file fi (\<lambda>f. f\<lparr>f_pos := q\<rparr>) s, sint q)))"

text \<open>The path operations: resolve, then call the file system, -1 where it has no such operation.\<close>

definition vfs_dispatch ::
  "string option \<Rightarrow> (sbref \<Rightarrow> string \<Rightarrow> vfs \<Rightarrow> vfs \<times> int) \<Rightarrow> vfs \<Rightarrow> vfs \<times> int" where
  "vfs_dispatch path g s =
     (case path of
        None \<Rightarrow> (s, -1)
      | Some _ \<Rightarrow> (case resolve_sb path s of (s1, None) \<Rightarrow> (s1, -1) | (s1, Some (b, rel)) \<Rightarrow> g b rel s1))"

definition brights_vfs2_create :: "string option \<Rightarrow> vfs \<Rightarrow> vfs \<times> int" where
  "brights_vfs2_create path s = vfs_dispatch path sb_create s"

definition brights_vfs2_mkdir :: "string option \<Rightarrow> vfs \<Rightarrow> vfs \<times> int" where
  "brights_vfs2_mkdir path s =
     vfs_dispatch path (\<lambda>b rel s. case b of RamfsSb \<Rightarrow> lift_ramfs (brights_ramfs_mkdir (Some rel)) s
                                   | _ \<Rightarrow> (s, -1)) s"

definition brights_vfs2_unlink :: "string option \<Rightarrow> vfs \<Rightarrow> vfs \<times> int" where
  "brights_vfs2_unlink path s =
     vfs_dispatch path (\<lambda>b rel s. case b of RamfsSb \<Rightarrow> lift_ramfs (brights_ramfs_unlink (Some rel)) s
                                   | _ \<Rightarrow> (s, -1)) s"

definition brights_vfs2_symlink :: "string option \<Rightarrow> string option \<Rightarrow> vfs \<Rightarrow> vfs \<times> int" where
  "brights_vfs2_symlink target linkpath s =
     (case target of
        None \<Rightarrow> (s, -1)
      | Some t \<Rightarrow>
          vfs_dispatch linkpath (\<lambda>b rel s. case b of RamfsSb \<Rightarrow> lift_ramfs (brights_ramfs_symlink t (Some rel)) s
                                            | _ \<Rightarrow> (s, -1)) s)"

definition brights_vfs2_chmod :: "string option \<Rightarrow> u32 \<Rightarrow> vfs \<Rightarrow> vfs \<times> int" where
  "brights_vfs2_chmod path mode s =
     vfs_dispatch path (\<lambda>b rel s. case b of RamfsSb \<Rightarrow> lift_ramfs (brights_ramfs_chmod (Some rel) mode) s
                                   | _ \<Rightarrow> (s, -1)) s"

definition brights_vfs2_chown :: "string option \<Rightarrow> u32 \<Rightarrow> u32 \<Rightarrow> vfs \<Rightarrow> vfs \<times> int" where
  "brights_vfs2_chown path uid gid s =
     vfs_dispatch path (\<lambda>b rel s. case b of RamfsSb \<Rightarrow> lift_ramfs (brights_ramfs_chown (Some rel) uid gid) s
                                   | _ \<Rightarrow> (s, -1)) s"

definition brights_vfs2_stat :: "string option \<Rightarrow> vfs \<Rightarrow> vfs \<times> (u64 \<times> u32) option" where
  "brights_vfs2_stat path s =
     (case path of
        None \<Rightarrow> (s, None)
      | Some _ \<Rightarrow>
          (case resolve_sb path s of
             (s1, None) \<Rightarrow> (s1, None)
           | (s1, Some (RamfsSb, rel)) \<Rightarrow> (s1, ramfs_sb_stat rel s1)
           | (s1, Some (DevfsSb, rel)) \<Rightarrow> devfs_sb_stat rel s1
           | (s1, Some (PipeSb, rel)) \<Rightarrow> (s1, None)))"

definition brights_vfs2_readdir :: "string option \<Rightarrow> int \<Rightarrow> vfs \<Rightarrow> vfs \<times> string option" where
  "brights_vfs2_readdir dir_path buf_size s =
     (case dir_path of
        None \<Rightarrow> (s, None)
      | Some _ \<Rightarrow>
          (case resolve_sb dir_path s of
             (s1, None) \<Rightarrow> (s1, None)
           | (s1, Some (RamfsSb, rel)) \<Rightarrow> ramfs_sb_readdir rel buf_size s1
           | (s1, Some (DevfsSb, rel)) \<Rightarrow> (s1, devfs_sb_readdir rel buf_size s1)
           | (s1, Some (PipeSb, rel)) \<Rightarrow> (s1, None)))"

definition brights_vfs2_readlink :: "string option \<Rightarrow> u64 \<Rightarrow> vfs \<Rightarrow> vfs \<times> string option" where
  "brights_vfs2_readlink path bufsize s =
     (case path of
        None \<Rightarrow> (s, None)
      | Some _ \<Rightarrow>
          (case resolve_sb path s of
             (s1, Some (RamfsSb, rel)) \<Rightarrow> (s1, brights_ramfs_readlink (Some rel) bufsize (vfs_ramfs s1))
           | (s1, _) \<Rightarrow> (s1, None)))"

subsection \<open>Descriptor tables\<close>

type_synonym fdtable = "nat option list"

definition brights_vfs2_fdtable_init :: "fdtable \<Rightarrow> fdtable" where
  "brights_vfs2_fdtable_init t = map (\<lambda>_. None) t"

definition brights_vfs2_fd_alloc :: "fdtable \<Rightarrow> nat option \<Rightarrow> fdtable \<times> int" where
  "brights_vfs2_fd_alloc t f =
     (case f of
        None \<Rightarrow> (t, -1)
      | Some _ \<Rightarrow> (case first_idx (\<lambda>e. e = None) t of None \<Rightarrow> (t, -1) | Some i \<Rightarrow> (t[i := f], int i)))"

definition brights_vfs2_fd_free :: "fdtable \<Rightarrow> int \<Rightarrow> fdtable" where
  "brights_vfs2_fd_free t fd = (if fd < 0 \<or> fd \<ge> int VFS_MAX_FDS then t else t[nat fd := None])"

definition brights_vfs2_fd_get :: "fdtable \<Rightarrow> int \<Rightarrow> nat option" where
  "brights_vfs2_fd_get t fd = (if fd < 0 \<or> fd \<ge> int VFS_MAX_FDS then None else t ! nat fd)"

subsection \<open>Longest-prefix resolution\<close>

lemma vfs_str_eq_iff [simp]: "vfs_str_eq a b \<longleftrightarrow> a = b"
  by (induction a b rule: vfs_str_eq.induct) auto

lemma vfs_str_prefix_iff [simp]: "vfs_str_prefix p s \<longleftrightarrow> take (length p) s = p"
  by (induction p s rule: vfs_str_prefix.induct) auto

text \<open>
  A mount covers a normalised path when its prefix is the root, or a prefix of the path that ends
  at a component boundary.
\<close>

definition covers :: "vmount \<Rightarrow> string \<Rightarrow> bool" where
  "covers m nrm \<longleftrightarrow> m_active m \<and> m_prefix m \<noteq> [] \<and>
     (m_prefix m = [slash] \<or> take (length (m_prefix m)) nrm = m_prefix m \<and>
        (cchar nrm (length (m_prefix m)) = NUL \<or> cchar nrm (length (m_prefix m)) = slash))"

definition rel_path :: "vmount \<Rightarrow> string \<Rightarrow> string" where
  "rel_path m nrm = vfs_str_copy 256
     (if m_prefix m = [slash] then nrm
      else if cchar nrm (length (m_prefix m)) = NUL then [slash] else drop (length (m_prefix m)) nrm)"

lemma resolve_step_eq:
  "resolve_step nrm s i acc =
     (if covers (mount_table s ! i) nrm \<and> length (m_prefix (mount_table s ! i)) > snd acc
      then (Some (i, rel_path (mount_table s ! i) nrm), length (m_prefix (mount_table s ! i)))
      else acc)"
proof -
  have root: "length p = 1 \<and> p ! 0 = slash \<longleftrightarrow> p = [slash]" for p :: string
    by (cases p) auto
  show ?thesis
    by (auto simp: resolve_step_def covers_def rel_path_def Let_def root [unfolded One_nat_def])
qed

definition best_of :: "string \<Rightarrow> vfs \<Rightarrow> nat list \<Rightarrow> (nat \<times> string) option \<times> nat \<Rightarrow> bool" where
  "best_of nrm s is acc \<longleftrightarrow>
     (\<forall>j\<in>set is. covers (mount_table s ! j) nrm \<longrightarrow> length (m_prefix (mount_table s ! j)) \<le> snd acc) \<and>
     (case fst acc of
        None \<Rightarrow> snd acc = 0
      | Some (i, rel) \<Rightarrow> i \<in> set is \<and> covers (mount_table s ! i) nrm \<and> rel = rel_path (mount_table s ! i) nrm
          \<and> snd acc = length (m_prefix (mount_table s ! i)))"

lemma best_of_step: "best_of nrm s is acc \<Longrightarrow> best_of nrm s (i # is) (resolve_step nrm s i acc)"
  by (force simp: best_of_def resolve_step_eq split: option.splits)

lemma best_of_fold:
  "best_of nrm s is acc \<Longrightarrow> best_of nrm s (rev js @ is) (fold (resolve_step nrm s) js acc)"
proof (induction js arbitrary: "is" acc)
  case (Cons j js)
  then show ?case using best_of_step [OF Cons.prems, of j] Cons.IH [of "j # is"] by simp
qed simp

lemma resolve_loop_best:
  "case resolve_loop nrm s of
     None \<Rightarrow> \<forall>j<VFS_MAX_MOUNTS. \<not> covers (mount_table s ! j) nrm
   | Some (i, rel) \<Rightarrow> i < VFS_MAX_MOUNTS \<and> covers (mount_table s ! i) nrm \<and> rel = rel_path (mount_table s ! i) nrm
       \<and> (\<forall>j<VFS_MAX_MOUNTS. covers (mount_table s ! j) nrm \<longrightarrow>
            length (m_prefix (mount_table s ! j)) \<le> length (m_prefix (mount_table s ! i)))"
proof -
  have "best_of nrm s [] (None, 0)" by (simp add: best_of_def)
  then have b: "best_of nrm s (rev [0..<VFS_MAX_MOUNTS] @ []) (fold (resolve_step nrm s) [0..<VFS_MAX_MOUNTS] (None, 0))"
    by (rule best_of_fold)
  have pos: "covers m nrm \<Longrightarrow> 0 < length (m_prefix m)" for m by (simp add: covers_def)
  show ?thesis
    using b pos by (force simp: best_of_def resolve_loop_def split: option.splits)
qed

lemma resolve_miss:
  assumes "vfs_normalize (cstring_of p) 256 = Some nrm" "cache_find (cstring_of p) s = None"
  shows "snd (brights_vfs2_resolve (Some p) s) = map_option (\<lambda>(i, rel). (i, dead_frame s rel)) (resolve_loop nrm s)"
  using assms by (auto simp: brights_vfs2_resolve_def Let_def split: option.splits)

text \<open>The cache entry of a resolved path answers the next call for it.\<close>

lemma resolve_cached:
  assumes cache: "length (path_cache s) = 16" "path_cache_next s < 16"
    and p: "length (cstring_of p) < 128" "vfs_normalize (cstring_of p) 256 = Some nrm" "cache_find (cstring_of p) s = None"
    and res: "resolve_loop nrm s = Some (i, rel)" and s2: "path_cache s2 = path_cache (fst (brights_vfs2_resolve (Some p) s))"
  shows "snd (brights_vfs2_resolve (Some p) s2) = Some (i, take 127 rel)"
proof -
  let ?fp = "cstring_of p" and ?k = "path_cache_next s"
  have c: "path_cache s2 = upd_at ?k (\<lambda>e. e\<lparr>pc_mount := Some i, pc_path := ?fp, pc_rel := take 127 rel\<rparr>) (path_cache s)"
    using s2 res p by (simp add: brights_vfs2_resolve_def vfs_str_copy_def)
  have hit: "cache_find ?fp s2 = Some ?k"
    using p(3) cache unfolding cache_find_def c first_idx_Some first_idx_None by (auto simp: nth_upd_at dest: nth_mem)
  have "path_cache s2 ! ?k = (path_cache s ! ?k)\<lparr>pc_mount := Some i, pc_path := ?fp, pc_rel := take 127 rel\<rparr>"
    using cache by (simp add: c)
  then show ?thesis using hit p(2) by (simp add: brights_vfs2_resolve_def Let_def)
qed

lemma resolve_keeps:
  "vfs_ramfs (fst (brights_vfs2_resolve p s)) = vfs_ramfs s"
  "file_pool (fst (brights_vfs2_resolve p s)) = file_pool s"
  "file_pool_bitmap (fst (brights_vfs2_resolve p s)) = file_pool_bitmap s"
  "ramfs_vfs_inodes (fst (brights_vfs2_resolve p s)) = ramfs_vfs_inodes s"
  "mount_table (fst (brights_vfs2_resolve p s)) = mount_table s"
  "mount_bitmap (fst (brights_vfs2_resolve p s)) = mount_bitmap s"
  by (auto simp: brights_vfs2_resolve_def Let_def split: option.splits)

lemma resolve_sb_keeps:
  assumes "resolve_sb p s = (s', r)"
  shows "vfs_ramfs s' = vfs_ramfs s" "file_pool s' = file_pool s" "file_pool_bitmap s' = file_pool_bitmap s"
    "ramfs_vfs_inodes s' = ramfs_vfs_inodes s"
proof -
  have "s' = fst (brights_vfs2_resolve p s)"
    using assms by (auto simp: resolve_sb_def split: prod.splits option.splits)
  then show "vfs_ramfs s' = vfs_ramfs s" "file_pool s' = file_pool s" "file_pool_bitmap s' = file_pool_bitmap s"
    "ramfs_vfs_inodes s' = ramfs_vfs_inodes s"
    by (simp_all add: resolve_keeps)
qed

subsection \<open>The file pool as a set of files in use\<close>

definition pool_inv :: "vfs \<Rightarrow> bool" where
  "pool_inv s \<longleftrightarrow> length (file_pool s) = 64 \<and> (\<forall>i<64. bit (file_pool_bitmap s) i \<longleftrightarrow> f_in_use (file_pool s ! i))"

lemma first_idx_upt: "first_idx P [0..<n] = Some i \<longleftrightarrow> i < n \<and> P i \<and> (\<forall>j<i. \<not> P j)"
  by (auto simp: first_idx_Some)

lemma file_alloc_ok:
  assumes "pool_inv s" "brights_vfs2_file_alloc s = (s', r)"
  shows "pool_inv s'"
    and "r = None \<Longrightarrow> s' = s \<and> (\<forall>i<64. f_in_use (file_pool s ! i))"
    and "r = Some i \<Longrightarrow> i < 64 \<and> \<not> f_in_use (file_pool s ! i) \<and> f_in_use (file_pool s' ! i)
           \<and> (\<forall>j<i. f_in_use (file_pool s ! j)) \<and> (\<forall>j. j \<noteq> i \<longrightarrow> file_pool s' ! j = file_pool s ! j)"
proof -
  note inv = assms(1) [unfolded pool_inv_def]
  show "pool_inv s'"
    using assms inv
    by (auto simp: brights_vfs2_file_alloc_def VFS_FILE_POOL_SIZE_def pool_inv_def bit_bit_on first_idx_upt
        nth_upd_at split: option.splits if_splits)
  show "s' = s \<and> (\<forall>i<64. f_in_use (file_pool s ! i))" if "r = None"
    using assms inv that
    by (auto simp: brights_vfs2_file_alloc_def VFS_FILE_POOL_SIZE_def first_idx_None split: option.splits)
  show "i < 64 \<and> \<not> f_in_use (file_pool s ! i) \<and> f_in_use (file_pool s' ! i)
      \<and> (\<forall>j<i. f_in_use (file_pool s ! j)) \<and> (\<forall>j. j \<noteq> i \<longrightarrow> file_pool s' ! j = file_pool s ! j)" if "r = Some i"
    using assms inv that
    by (auto simp: brights_vfs2_file_alloc_def VFS_FILE_POOL_SIZE_def first_idx_upt split: option.splits)
qed

lemma file_free_ok:
  assumes "pool_inv s" "i < 64"
  shows "pool_inv (brights_vfs2_file_free i s)"
  using assms by (auto simp: pool_inv_def brights_vfs2_file_free_def bit_bit_off nth_upd_at)

subsection \<open>Writing and reading through an open file\<close>

lemma create_regular:
  assumes "ramfs_inv fs" "brights_ramfs_create p fs = (fs', r)" "0 \<le> r"
  shows "r < 32" "rf_in_use (fs' ! nat r)" "\<not> rf_is_dir (fs' ! nat r)" "rf_size (fs' ! nat r) = 0"
proof -
  obtain path i where n: "ramfs_new_entry p fs = Some (path, i)" "r = int i"
    and fs': "fs' = upd_at i (\<lambda>f. ramfs_init_file_perms
       (f\<lparr>rf_name := path, rf_size := 0, rf_is_dir := False, rf_in_use := True\<rparr>) False) fs"
    using assms(2,3) by (auto simp: brights_ramfs_create_def split: option.splits)
  have i: "i < 32" using ramfs_new_entry_Some(1) [OF assms(1) n(1)] .
  then show "r < 32" "rf_in_use (fs' ! nat r)" "\<not> rf_is_dir (fs' ! nat r)" "rf_size (fs' ! nat r) = 0"
    using ramfs_invD(1) [OF assms(1)] by (simp_all add: n(2) fs' ramfs_init_file_perms_def)
qed

lemma create_not_root:
  assumes "brights_ramfs_create (Some rel) fs = (fs', r)" "0 \<le> r"
  shows "\<not> (cchar rel 0 = slash \<and> cchar rel 1 = NUL)"
proof
  assume a: "cchar rel 0 = slash \<and> cchar rel 1 = NUL"
  then obtain t where t: "rel = slash # t" by (cases rel) (auto simp: cchar_def NUL_def)
  then have "t = [] \<or> hd t = NUL" using a by (cases t) (auto simp: cchar_def)
  then have "cstring_of rel = [slash]" using t by (cases t) (auto simp: cstring_of_def NUL_def)
  then have "normalize_path (Some rel) 128 = Some [slash]"
    by (simp add: normalize_path_eq join_def)
  then show False
    using assms by (simp add: brights_ramfs_create_def ramfs_new_entry_def BRIGHTS_RAMFS_MAX_NAME_def)
qed

text \<open>An open RAM file: descriptor \<open>fi\<close> of the pool on entry \<open>i\<close> of the table, at position \<open>pos\<close>.\<close>

definition open_ramfile :: "vfs \<Rightarrow> nat \<Rightarrow> nat \<Rightarrow> u64 \<Rightarrow> bool" where
  "open_ramfile s fi i pos \<longleftrightarrow> fi < length (file_pool s) \<and> i < 32
     \<and> f_in_use (file_pool s ! fi) \<and> f_fops (file_pool s ! fi) = Some RamfsFops
     \<and> f_inode (file_pool s ! fi) = Some (RamfsInode i) \<and> f_private (file_pool s ! fi) = PInt (int i)
     \<and> f_pos (file_pool s ! fi) = pos \<and> rf_in_use (vfs_ramfs s ! i) \<and> \<not> rf_is_dir (vfs_ramfs s ! i)"

lemma open_ramfile_write:
  assumes "open_ramfile s fi i pos" "brights_ramfs_write (int i) pos src count (vfs_ramfs s) = Some (fs', n)" "0 \<le> n"
    "rf_in_use (fs' ! i)" "\<not> rf_is_dir (fs' ! i)"
  shows "\<exists>s'. brights_vfs2_write fi src count s = Some (s', n) \<and> vfs_ramfs s' = fs'
    \<and> open_ramfile s' fi i (pos + of_int n)"
proof -
  have "brights_vfs2_write fi src count s = ramfs_vfs_write fi src count s"
    using assms(1) by (simp add: brights_vfs2_write_def open_ramfile_def)
  moreover have "\<exists>s'. ramfs_vfs_write fi src count s = Some (s', n) \<and> vfs_ramfs s' = fs'
      \<and> open_ramfile s' fi i (pos + of_int n)"
    using assms by (cases "n = 0") (auto simp: ramfs_vfs_write_def open_ramfile_def priv_idx_def upd_file_def Let_def)
  ultimately show ?thesis by simp
qed

lemma open_ramfile_seek:
  assumes "open_ramfile s fi i pos"
  shows "\<exists>s'. brights_vfs2_lseek fi off 0 s = (s', sint off) \<and> vfs_ramfs s' = vfs_ramfs s \<and> open_ramfile s' fi i off"
  using assms
  by (auto simp: brights_vfs2_lseek_def ramfs_vfs_lseek_def vfs_seek_def open_ramfile_def upd_file_def Let_def)

lemma open_ramfile_read:
  assumes "open_ramfile s fi i pos" "brights_ramfs_read (int i) pos count (vfs_ramfs s) = (bs, n)"
  shows "\<exists>s'. brights_vfs2_read fi count s = Some (s', bs, n)"
  using assms by (auto simp: brights_vfs2_read_def ramfs_vfs_read_def open_ramfile_def priv_idx_def Let_def)

lemma open_created:
  assumes pool: "pool_inv s" "length (ramfs_vfs_inodes s) = 64" and free: "\<exists>i<64. \<not> f_in_use (file_pool s ! i)"
    and inv: "ramfs_inv (vfs_ramfs s)"
    and res: "resolve_sb (Some p) s = (s1, Some (RamfsSb, rel))"
    and cr: "brights_ramfs_create (Some rel) (vfs_ramfs s) = (fs', r)" "0 \<le> r"
  shows "\<exists>s2 fi. brights_vfs2_open (Some p) VFS_O_CREAT s = (s2, Some fi) \<and> vfs_ramfs s2 = fs'
    \<and> open_ramfile s2 fi (nat r) 0"
proof -
  note K = resolve_sb_keeps [OF res] and C = create_regular [OF inv cr]
  have op: "brights_ramfs_open (Some rel) fs' = r" using rc.add_ok [OF inv cr] by blast
  let ?s2 = "s1\<lparr>vfs_ramfs := fs'\<rparr>"
  have create: "fst (sb_create RamfsSb rel s1) = ?s2" using cr K by (simp add: sb_create_def lift_ramfs_def)
  obtain s3 where look: "sb_lookup RamfsSb rel ?s2 = (s3, Some (RamfsInode (nat r)))"
    and s3: "vfs_ramfs s3 = fs'" "file_pool s3 = file_pool s" "file_pool_bitmap s3 = file_pool_bitmap s"
      "in_private (get_inode (RamfsInode (nat r)) s3) = PInt r"
    using create_not_root [OF cr] op C(1) cr(2) K pool(2)
    by (auto simp: sb_lookup_def ramfs_sb_lookup_def RAMFS_VFS_MAX_INODES_def Let_def)
  obtain s4 q where al: "brights_vfs2_file_alloc s3 = (s4, q)" by fastforce
  have p3: "pool_inv s3" using pool(1) s3 by (simp add: pool_inv_def)
  have "q \<noteq> None" using file_alloc_ok(2) [OF p3 al] free s3 by auto
  then obtain fi where q: "q = Some fi" by auto
  have fi: "fi < 64" "f_in_use (file_pool s4 ! fi)" using file_alloc_ok(3) [OF p3 al q] by auto
  have p4: "pool_inv s4" using file_alloc_ok(1) [OF p3 al] .
  have s4: "vfs_ramfs s4 = fs'" "get_inode (RamfsInode (nat r)) s4 = get_inode (RamfsInode (nat r)) s3"
    using al s3 by (auto simp: brights_vfs2_file_alloc_def split: option.splits)
  have flags: "VFS_O_CREAT AND VFS_O_CREAT \<noteq> 0" "VFS_O_CREAT AND VFS_O_TRUNC = 0" "VFS_O_CREAT AND VFS_O_APPEND = 0"
    by (simp_all add: VFS_O_CREAT_def VFS_O_TRUNC_def VFS_O_APPEND_def)
  let ?s5 = "upd_file fi (\<lambda>f. f\<lparr>f_inode := Some (RamfsInode (nat r)), f_pos := 0, f_flags := VFS_O_CREAT,
      f_fops := Some RamfsFops, f_private := PInt r\<rparr>) s4"
  have "brights_vfs2_open (Some p) VFS_O_CREAT s = (?s5, Some fi)"
    using res create look al q flags s3(4) s4(2) by (simp add: brights_vfs2_open_def sb_fops_def Let_def)
  moreover have "open_ramfile ?s5 fi (nat r) 0"
    using fi p4 C s4(1) cr(2) by (simp add: open_ramfile_def upd_file_def pool_inv_def)
  moreover have "vfs_ramfs ?s5 = fs'" using s4(1) by (simp add: upd_file_def)
  ultimately show ?thesis by blast
qed

subsection \<open>Properties\<close>

text \<open>C28: a path of less than 128 characters that is not in the path cache resolves to the active mount with the longest
  prefix that ends at a component boundary of the normalised path, and fails to resolve exactly when no active
  mount covers it.  The rest of the path reaches the caller through an array that is gone by then, so it
  is what is left there; the next call for the same path takes it from the path cache, cut off at
  127 characters.\<close>
theorem vfs_resolve_longest_prefix:
  assumes "length (path_cache s) = 16" "path_cache_next s < 16" "length (cstring_of p) < 128"
    "vfs_normalize (cstring_of p) 256 = Some nrm" "cache_find (cstring_of p) s = None"
  shows "case brights_vfs2_resolve (Some p) s of
      (s', None) \<Rightarrow> s' = s \<and> (\<forall>j<VFS_MAX_MOUNTS. \<not> covers (mount_table s ! j) nrm)
    | (s', Some (i, out)) \<Rightarrow> i < VFS_MAX_MOUNTS \<and> covers (mount_table s ! i) nrm
        \<and> (\<forall>j<VFS_MAX_MOUNTS. covers (mount_table s ! j) nrm \<longrightarrow>
             length (m_prefix (mount_table s ! j)) \<le> length (m_prefix (mount_table s ! i)))
        \<and> out = dead_frame s (rel_path (mount_table s ! i) nrm)
        \<and> snd (brights_vfs2_resolve (Some p) s') = Some (i, take 127 (rel_path (mount_table s ! i) nrm))"
proof (cases "resolve_loop nrm s")
  case None
  then have "brights_vfs2_resolve (Some p) s = (s, None)" using assms(4,5) by (simp add: brights_vfs2_resolve_def)
  then show ?thesis using resolve_loop_best [of s nrm] None by simp
next
  case (Some ir)
  obtain i rel where ir: "ir = (i, rel)" by (cases ir)
  obtain s' where s': "brights_vfs2_resolve (Some p) s = (s', Some (i, dead_frame s rel))"
    using resolve_miss [OF assms(4,5)] Some ir by (cases "brights_vfs2_resolve (Some p) s") simp
  then have "snd (brights_vfs2_resolve (Some p) s') = Some (i, take 127 rel)"
    using resolve_cached [OF assms, of i rel s'] Some ir by simp
  then show ?thesis using resolve_loop_best [of s nrm] Some ir s' by simp
qed

definition blank_inode :: vinode where
  "blank_inode = \<lparr>in_ino = 0, in_mode = 0, in_size = 0, in_sb = None, in_private = PInt 0\<rparr>"

definition vfs_blank :: vfs where
  "vfs_blank = \<lparr>file_pool = replicate 64 \<lparr>f_inode = None, f_pos = 0, f_flags = 0, f_fops = None, f_private = PInt 0,
       f_in_use = False\<rparr>, file_pool_bitmap = 0,
     mount_table = replicate 8 \<lparr>m_prefix = [], m_sb = None, m_active = False\<rparr>, mount_bitmap = 0,
     path_cache = replicate 16 \<lparr>pc_path = [], pc_mount = None, pc_rel = []\<rparr>, path_cache_next = 0,
     vfs_ramfs = brights_ramfs_init (replicate 32 blank_file), ramfs_vfs_inodes = replicate 64 blank_inode,
     devfs_nodes = [], devfs_root_inode = blank_inode, pipe_pool = [], pipe_inodes = [], tty_in = [],
     serial_out = [], dead_frame = (\<lambda>r. r)\<rparr>"

text \<open>The mounts the kernel starts with: the RAM file system at the root, the devices below it.\<close>

definition vfs_demo :: vfs where
  "vfs_demo = fst (brights_vfs2_mount (Some ''/dev'') (Some DevfsSb)
     (fst (brights_vfs2_mount (Some ''/'') (Some RamfsSb) vfs_blank)))"

lemma vfs_demo_eq:
  "vfs_demo = vfs_blank\<lparr>mount_table := \<lparr>m_prefix = ''/'', m_sb = Some RamfsSb, m_active = True\<rparr> #
       \<lparr>m_prefix = ''/dev'', m_sb = Some DevfsSb, m_active = True\<rparr> #
       replicate 6 \<lparr>m_prefix = [], m_sb = None, m_active = False\<rparr>, mount_bitmap := 3\<rparr>"
proof -
  let ?b = "\<lparr>m_prefix = [], m_sb = None, m_active = False\<rparr>"
  have r: "[0..<8] = [0, 1, 2, 3, 4, 5, 6, 7 :: nat]" by (simp add: upt_rec)
  have r8: "replicate 8 ?b = ?b # replicate 7 ?b" by (simp add: numeral_eq_Suc)
  have r7: "replicate 7 ?b = ?b # replicate 6 ?b" by (simp add: numeral_eq_Suc)
  have m: "brights_vfs2_mount (Some ''/'') (Some RamfsSb) vfs_blank =
      (vfs_blank\<lparr>mount_table := \<lparr>m_prefix = ''/'', m_sb = Some RamfsSb, m_active = True\<rparr> # replicate 7 ?b,
         mount_bitmap := 1\<rparr>, 0)"
    by (simp add: brights_vfs2_mount_def find_mounted_def VFS_MAX_MOUNTS_def r r8 vfs_blank_def upd_at_def bit_on_def
        vfs_str_copy_def)
  show ?thesis
    unfolding vfs_demo_def m r7
    by (simp add: brights_vfs2_mount_def find_mounted_def VFS_MAX_MOUNTS_def r upd_at_def bit_on_def
        vfs_str_copy_def bit_1_iff)
qed

lemma vfs_demo_state:
  "length (path_cache vfs_demo) = 16" "path_cache_next vfs_demo = 0" "pool_inv vfs_demo"
  "length (ramfs_vfs_inodes vfs_demo) = 64" "\<not> f_in_use (file_pool vfs_demo ! 0)"
  "vfs_ramfs vfs_demo = brights_ramfs_init (replicate 32 blank_file)" "cache_find p vfs_demo = None"
  by (simp_all add: vfs_demo_eq vfs_blank_def pool_inv_def cache_find_def first_idx_None)

lemma vfs_demo_norm:
  "vfs_normalize (cstring_of ''/dev/null'') 256 = Some ''/dev/null''"
  "vfs_normalize (cstring_of ''/a'') 256 = Some ''/a''"
  by (simp_all add: vfs_normalize_eq path_fields_def join_def cstr_def NUL_def)

theorem vfs_resolve_longest_prefix_witness:
  "case brights_vfs2_resolve (Some ''/dev/null'') vfs_demo of
     (s', None) \<Rightarrow> False
   | (s', Some (i, out)) \<Rightarrow> i < VFS_MAX_MOUNTS \<and> 4 \<le> length (m_prefix (mount_table vfs_demo ! i))
       \<and> snd (brights_vfs2_resolve (Some ''/dev/null'') s') = Some (i, take 127 (rel_path (mount_table vfs_demo ! i) ''/dev/null''))"
proof -
  have "covers (mount_table vfs_demo ! 1) ''/dev/null''" "length (m_prefix (mount_table vfs_demo ! 1)) = 4"
    by (simp_all add: vfs_demo_eq covers_def cchar_def)
  moreover have "path_cache_next vfs_demo < 16" "length (cstring_of ''/dev/null'') < 128"
    by (simp_all add: vfs_demo_state cstring_of_def)
  ultimately show ?thesis
    using vfs_resolve_longest_prefix [OF vfs_demo_state(1) _ _ vfs_demo_norm(1) vfs_demo_state(7)]
    by (auto simp: VFS_MAX_MOUNTS_def split: option.splits prod.splits dest!: spec [of _ "Suc 0"])
qed

text \<open>C31: allocating and closing files keeps the pool bitmap and the in-use flags in step, for every
  one of the 64 files; allocation hands out the lowest unused file, leaves every other file as it
  was, and fails only when all 64 are in use; closing a file twice is an error.\<close>
theorem vfs_file_pool_consistent:
  assumes "pool_inv s"
  shows "(case brights_vfs2_file_alloc s of
       (s', None) \<Rightarrow> s' = s \<and> (\<forall>i<64. f_in_use (file_pool s ! i))
     | (s', Some i) \<Rightarrow> pool_inv s' \<and> i < 64 \<and> \<not> f_in_use (file_pool s ! i) \<and> f_in_use (file_pool s' ! i)
         \<and> (\<forall>j<i. f_in_use (file_pool s ! j)) \<and> (\<forall>j. j \<noteq> i \<longrightarrow> file_pool s' ! j = file_pool s ! j))
    \<and> (\<forall>i<64. pool_inv (fst (brights_vfs2_close i s))
         \<and> snd (brights_vfs2_close i s) = (if f_in_use (file_pool s ! i) then 0 else -1)
         \<and> brights_vfs2_close i (fst (brights_vfs2_close i s)) = (fst (brights_vfs2_close i s), -1))"
proof -
  have c: "pool_inv (fst (brights_vfs2_close i s))" "\<not> f_in_use (file_pool (fst (brights_vfs2_close i s)) ! i)"
    if "i < 64" for i
    using file_free_ok [OF assms that] assms that
    by (auto simp: brights_vfs2_close_def brights_vfs2_file_free_def pool_inv_def)
  show ?thesis
    using file_alloc_ok [OF assms] c
    by (auto simp: brights_vfs2_close_def split: prod.splits option.splits)
qed

theorem vfs_file_pool_consistent_witness:
  "snd (brights_vfs2_close 0 vfs_demo) = -1 \<and> pool_inv (fst (brights_vfs2_close 5 vfs_demo))"
  using vfs_file_pool_consistent [OF vfs_demo_state(3)] vfs_demo_state(5) by simp

text \<open>Opening a new file of a RAM file system mount with \<open>O_CREAT\<close>, writing up to 4096 bytes, seeking
  to the start and reading returns exactly the bytes written: path resolution, creation, the file
  pool, the file position and the storage work together.\<close>
theorem vfs_create_write_read:
  fixes len :: u64
  assumes pool: "pool_inv s" "length (ramfs_vfs_inodes s) = 64" "\<exists>i<64. \<not> f_in_use (file_pool s ! i)"
    and fs: "ramfs_reachable (vfs_ramfs s)"
    and res: "resolve_sb (Some p) s = (s1, Some (RamfsSb, rel))"
    and cr: "brights_ramfs_create (Some rel) (vfs_ramfs s) = (fs', r)" "0 \<le> r"
    and len: "unat len \<le> 4096"
  shows "\<exists>s2 fi s3 s4 s5. brights_vfs2_open (Some p) VFS_O_CREAT s = (s2, Some fi)
    \<and> brights_vfs2_write fi src len s2 = Some (s3, int (unat len))
    \<and> brights_vfs2_lseek fi 0 0 s3 = (s4, 0)
    \<and> brights_vfs2_read fi len s4 = Some (s5, map src [0..<unat len], int (unat len))"
proof -
  have inv: "ramfs_inv (vfs_ramfs s)" using fs by (rule ramfs_inv_reachable)
  have inv': "ramfs_inv fs'" using ramfs_inv_create [OF inv, of "Some rel"] cr(1) by simp
  note C = create_regular [OF inv cr]
  obtain s2 fi where s2: "brights_vfs2_open (Some p) VFS_O_CREAT s = (s2, Some fi)" "vfs_ramfs s2 = fs'"
    "open_ramfile s2 fi (nat r) 0"
    using open_created [OF pool inv res cr] by blast
  have i: "nat r < 32" using C(1) by simp
  have z: "unat (0 :: u64) + unat len < 2 ^ 64" using len by simp
  obtain fs2 where w: "brights_ramfs_write (int (nat r)) 0 src len fs' = Some (fs2, int (unat len))"
    "brights_ramfs_read (int (nat r)) 0 len fs2 = (map src [0..<unat len], int (unat len))"
    "rf_in_use (fs2 ! nat r)" "\<not> rf_is_dir (fs2 ! nat r)"
    using ramfs_write_read [OF inv' i C(2,3) _ z, of src] len by auto
  obtain s3 where s3: "brights_vfs2_write fi src len s2 = Some (s3, int (unat len))" "vfs_ramfs s3 = fs2"
    "open_ramfile s3 fi (nat r) (0 + of_int (int (unat len)))"
    using open_ramfile_write [OF s2(3) w(1) [folded s2(2)] _ w(3,4)] by auto
  obtain s4 where s4: "brights_vfs2_lseek fi 0 0 s3 = (s4, 0)" "vfs_ramfs s4 = fs2" "open_ramfile s4 fi (nat r) 0"
    using open_ramfile_seek [OF s3(3), of 0] s3(2) by auto
  show ?thesis using s2(1) s3(1) s4(1) open_ramfile_read [OF s4(3) w(2) [folded s4(2)]] by blast
qed

lemma vfs_demo_mounts:
  "mount_table vfs_demo = \<lparr>m_prefix = ''/'', m_sb = Some RamfsSb, m_active = True\<rparr> #
     \<lparr>m_prefix = ''/dev'', m_sb = Some DevfsSb, m_active = True\<rparr> #
     replicate 6 \<lparr>m_prefix = [], m_sb = None, m_active = False\<rparr>" "mount_bitmap vfs_demo = 3"
  by (simp_all add: vfs_demo_eq)

lemma vfs_demo_frame: "dead_frame vfs_demo r = r"
  by (simp add: vfs_demo_eq vfs_blank_def)

lemma upt_8: "[0..<8] = [0, 1, 2, 3, 4, 5, 6, 7 :: nat]" by (simp add: upt_rec)

lemma vfs_demo_resolve:
  "snd (brights_vfs2_resolve (Some ''/a'') vfs_demo) = Some (0, ''/a'')"
  "snd (brights_vfs2_resolve (Some ''/dev/null'') vfs_demo) = Some (1, ''/null'')"
  unfolding resolve_miss [OF vfs_demo_norm(1) vfs_demo_state(7)] resolve_miss [OF vfs_demo_norm(2) vfs_demo_state(7)]
  by (simp_all add: resolve_loop_def VFS_MAX_MOUNTS_def upt_8 resolve_step_eq covers_def rel_path_def
      vfs_str_copy_def cchar_def NUL_def vfs_demo_mounts vfs_demo_frame)

lemma vfs_demo_resolve_sb: "\<exists>s1. resolve_sb (Some ''/a'') vfs_demo = (s1, Some (RamfsSb, ''/a''))"
proof -
  have "m_sb (mount_table (fst (brights_vfs2_resolve (Some ''/a'') vfs_demo)) ! 0) = Some RamfsSb"
    unfolding resolve_keeps vfs_demo_mounts by simp
  then show ?thesis
    using vfs_demo_resolve(1) by (cases "brights_vfs2_resolve (Some ''/a'') vfs_demo") (simp add: resolve_sb_def)
qed

theorem vfs_create_write_read_witness:
  "\<exists>s2 fi s3 s4 s5. brights_vfs2_open (Some ''/a'') VFS_O_CREAT vfs_demo = (s2, Some fi)
    \<and> brights_vfs2_write fi (\<lambda>i. of_nat i) 2 s2 = Some (s3, 2) \<and> brights_vfs2_lseek fi 0 0 s3 = (s4, 0)
    \<and> brights_vfs2_read fi 2 s4 = Some (s5, [0, 1], 2)"
proof -
  obtain s1 where s1: "resolve_sb (Some ''/a'') vfs_demo = (s1, Some (RamfsSb, ''/a''))"
    using vfs_demo_resolve_sb by blast
  have fs: "ramfs_reachable (vfs_ramfs vfs_demo)"
    unfolding vfs_demo_state(6) by (rule ramfs_reachable.init) (auto simp: blank_file_def)
  have free: "\<exists>i<64. \<not> f_in_use (file_pool vfs_demo ! i)" by (rule exI [of _ 0]) (simp add: vfs_demo_state(5))
  have cr: "brights_ramfs_create (Some ''/a'') (vfs_ramfs vfs_demo) = (ramfs_demo, 0)"
    unfolding vfs_demo_state(6) using ramfs_demo_create by blast
  have "[0..<2] = [0, 1 :: nat]" by (simp add: upt_rec)
  then show ?thesis
    using vfs_create_write_read [OF vfs_demo_state(3,4) free fs s1 cr, of 2 "\<lambda>i. of_nat i"] by simp
qed

text \<open>Unmounting does not purge the path cache. A path of less than 128 characters that was resolved
  through a mount keeps resolving to that mount after the mount has been removed, instead of
  failing or reaching another mount.\<close>
theorem vfs_umount_leaves_cached_paths:
  assumes cache: "length (path_cache s) = 16" "path_cache_next s < 16"
    and p: "length (cstring_of p) < 128" "vfs_normalize (cstring_of p) 256 = Some nrm" "cache_find (cstring_of p) s = None"
    and res: "brights_vfs2_resolve (Some p) s = (s1, Some (i, out))"
    and um: "brights_vfs2_umount (Some pre) s1 = (s2, 0)" and i: "find_mounted pre s1 = Some i"
  shows "\<not> bit (mount_bitmap s2) i
    \<and> snd (brights_vfs2_resolve (Some p) s2) = Some (i, take 127 (rel_path (mount_table s ! i) nrm))"
proof -
  obtain rel where rel: "resolve_loop nrm s = Some (i, rel)"
    using resolve_miss [OF p(2,3)] res by (cases "resolve_loop nrm s") auto
  then have "rel = rel_path (mount_table s ! i) nrm" using resolve_loop_best [of s nrm] by simp
  moreover have "path_cache s2 = path_cache s1" "\<not> bit (mount_bitmap s2) i"
    using um i by (auto simp: brights_vfs2_umount_def bit_bit_off)
  ultimately show ?thesis using resolve_cached [OF cache p rel, of s2] res by simp
qed

theorem vfs_umount_leaves_cached_paths_witness:
  "\<exists>s1 s2. brights_vfs2_resolve (Some ''/dev/null'') vfs_demo = (s1, Some (1, ''/null''))
    \<and> brights_vfs2_umount (Some ''/dev'') s1 = (s2, 0) \<and> \<not> bit (mount_bitmap s2) 1
    \<and> snd (brights_vfs2_resolve (Some ''/dev/null'') s2) = Some (1, ''/null'')"
proof -
  obtain s1 where s1: "brights_vfs2_resolve (Some ''/dev/null'') vfs_demo = (s1, Some (1, ''/null''))"
    using vfs_demo_resolve(2) by (cases "brights_vfs2_resolve (Some ''/dev/null'') vfs_demo") simp
  have m: "mount_table s1 = mount_table vfs_demo" "mount_bitmap s1 = 3"
    using resolve_keeps(5,6) [of "Some ''/dev/null''" vfs_demo] s1 by (simp_all add: vfs_demo_mounts)
  have find: "find_mounted ''/dev'' s1 = Some 1"
    by (simp add: find_mounted_def VFS_MAX_MOUNTS_def upt_8 m vfs_demo_mounts)
  then obtain s2 where um: "brights_vfs2_umount (Some ''/dev'') s1 = (s2, 0)"
    by (simp add: brights_vfs2_umount_def)
  have l: "length (cstring_of ''/dev/null'') < 128" by (simp add: cstring_of_def)
  have n: "path_cache_next vfs_demo < 16" by (simp add: vfs_demo_state)
  have "rel_path (mount_table vfs_demo ! 1) ''/dev/null'' = ''/null''"
    by (simp add: rel_path_def vfs_str_copy_def cchar_def NUL_def vfs_demo_mounts)
  then show ?thesis
    using vfs_umount_leaves_cached_paths [OF vfs_demo_state(1) n l vfs_demo_norm(1) vfs_demo_state(7) s1 um find] s1 um
    by simp
qed

end
