(* ===== verification/Paging.thy ===== *)
theory Paging
  imports Kernel_Prelude Pmem
begin

text \<open>
  Page tables, \<open>arch/x86_64/paging.c\<close>. The state is the physical page allocator, physical memory
  as the 64-bit word at each address, the kernel's root table \<open>pml4_table\<close> (0 before
  initialisation), the control register and the log of invalidated TLB entries. The kernel runs
  on an identity mapping, so a pointer to a table is its physical address, and a null pointer is 0.

  The abstraction: \<open>tab\<close> follows a list of table indices to the table it leads to, \<open>leaf\<close> to the
  entry that translates an address. \<open>pt_inv\<close> says that the tables form a tree (no table is
  reached along two index lists) that is disjoint from the free pages; under it mapping and
  unmapping one page are updates of the translation at that page.
\<close>

record paging =
  pg_pmem :: pmem
  pg_mem :: "u64 \<Rightarrow> u64"
  pml4_table :: u64
  pg_cr3 :: u64
  pg_invlpg :: "u64 list"

definition BRIGHTS_PTE_PRESENT :: u64 where "BRIGHTS_PTE_PRESENT = 1"
definition BRIGHTS_PTE_WRITABLE :: u64 where "BRIGHTS_PTE_WRITABLE = 2"
definition BRIGHTS_PTE_USER :: u64 where "BRIGHTS_PTE_USER = 4"
definition BRIGHTS_PTE_HUGE :: u64 where "BRIGHTS_PTE_HUGE = 0x80"
definition PT_LEVEL_PML4 :: nat where "PT_LEVEL_PML4 = 3"
definition PT_LEVEL_PD :: nat where "PT_LEVEL_PD = 1"
definition PT_ENTRIES :: nat where "PT_ENTRIES = 512"

definition pt_shift :: "nat \<Rightarrow> nat" where
  "pt_shift level = [12, 21, 30, 39] ! level"

definition page_of :: "u64 \<Rightarrow> u64" where
  "page_of a = a AND NOT 0xFFF"

definition pg_store :: "u64 \<Rightarrow> u64 \<Rightarrow> paging \<Rightarrow> paging" where
  "pg_store a v s = s\<lparr>pg_mem := (pg_mem s)(a := v)\<rparr>"

definition zero_page :: "u64 \<Rightarrow> paging \<Rightarrow> paging" where
  "zero_page page s = s\<lparr>pg_mem := (\<lambda>a. if a - page < 4096 then 0 else pg_mem s a)\<rparr>"

definition brights_paging_get_cr3 :: "paging \<Rightarrow> u64" where
  "brights_paging_get_cr3 s = pg_cr3 s"

definition brights_paging_set_cr3 :: "u64 \<Rightarrow> paging \<Rightarrow> paging" where
  "brights_paging_set_cr3 cr3 s = s\<lparr>pg_cr3 := cr3\<rparr>"

definition brights_paging_flush_tlb :: "u64 \<Rightarrow> paging \<Rightarrow> paging" where
  "brights_paging_flush_tlb virt s = s\<lparr>pg_invlpg := virt # pg_invlpg s\<rparr>"

definition pg_free_page :: "u64 \<Rightarrow> paging \<Rightarrow> paging" where
  "pg_free_page p s = s\<lparr>pg_pmem := brights_pmem_free_page p (pg_pmem s)\<rparr>"

definition alloc_pt_page :: "paging \<Rightarrow> paging \<times> u64" where
  "alloc_pt_page s =
     (case brights_pmem_alloc_page (pg_pmem s) of
        (pm, page) \<Rightarrow>
          (let s1 = s\<lparr>pg_pmem := pm\<rparr> in if page = 0 then (s1, 0) else (zero_page page s1, page)))"

definition get_pte :: "u64 \<Rightarrow> u64 \<Rightarrow> nat \<Rightarrow> u64" where
  "get_pte table virt level = table + (drop_bit (pt_shift level) virt AND 0x1FF) * 8"

definition pt_flag :: "u64 \<Rightarrow> u64 \<Rightarrow> bool" where
  "pt_flag e f \<longleftrightarrow> e AND f \<noteq> 0"

subsection \<open>Walking the tables\<close>

text \<open>Make the entry present: False when the walk returns null here.\<close>

definition walk_entry :: "bool \<Rightarrow> u64 \<Rightarrow> paging \<Rightarrow> paging \<times> bool" where
  "walk_entry create pte s =
     (if \<not> pt_flag (pg_mem s pte) BRIGHTS_PTE_PRESENT then
        (if \<not> create then (s, False)
         else case alloc_pt_page s of
           (s1, new_table) \<Rightarrow>
             (if new_table = 0 then (s1, False)
              else (pg_store pte (new_table OR BRIGHTS_PTE_PRESENT OR BRIGHTS_PTE_WRITABLE) s1, True)))
      else (s, True))"

primrec walk_loop :: "nat \<Rightarrow> u64 \<Rightarrow> bool \<Rightarrow> bool \<Rightarrow> u64 \<Rightarrow> paging \<Rightarrow> paging \<times> u64" where
  "walk_loop 0 virt create stop_at_pd table s =
     (let pte = get_pte table virt 0 in
      case walk_entry create pte s of (s1, ok) \<Rightarrow> (s1, if ok then pte else 0))"
| "walk_loop (Suc l) virt create stop_at_pd table s =
     (let level = Suc l; pte = get_pte table virt level in
      case walk_entry create pte s of
        (s1, ok) \<Rightarrow>
          (if \<not> ok then (s1, 0)
           else if stop_at_pd \<and> level = PT_LEVEL_PD then (s1, pte)
           else if pt_flag (pg_mem s1 pte) BRIGHTS_PTE_HUGE then (s1, pte)
           else walk_loop l virt create stop_at_pd (page_of (pg_mem s1 pte)) s1))"

definition walk_page_table_ex :: "u64 \<Rightarrow> bool \<Rightarrow> bool \<Rightarrow> paging \<Rightarrow> paging \<times> u64" where
  "walk_page_table_ex virt create stop_at_pd s =
     (if pml4_table s = 0 then (s, 0) else walk_loop PT_LEVEL_PML4 virt create stop_at_pd (pml4_table s) s)"

definition walk_page_table :: "u64 \<Rightarrow> bool \<Rightarrow> paging \<Rightarrow> paging \<times> u64" where
  "walk_page_table virt create s = walk_page_table_ex virt create False s"

subsection \<open>Mapping and unmapping\<close>

definition brights_paging_map :: "u64 \<Rightarrow> u64 \<Rightarrow> u64 \<Rightarrow> paging \<Rightarrow> paging \<times> int" where
  "brights_paging_map virt0 phys0 flags s =
     (if pml4_table s = 0 then (s, -1)
      else
        (let virt = page_of virt0; phys = page_of phys0 in
         case walk_page_table virt True s of
           (s1, pte) \<Rightarrow>
             (if pte = 0 then (s1, -1)
              else (brights_paging_flush_tlb virt (pg_store pte (phys OR BRIGHTS_PTE_PRESENT OR flags) s1), 0))))"

definition brights_paging_map_2m :: "u64 \<Rightarrow> u64 \<Rightarrow> u64 \<Rightarrow> paging \<Rightarrow> paging \<times> int" where
  "brights_paging_map_2m virt phys flags s =
     (if pml4_table s = 0 then (s, -1)
      else if virt AND 0x1FFFFF \<noteq> 0 \<or> phys AND 0x1FFFFF \<noteq> 0 then (s, -1)
      else
        (case walk_page_table_ex virt True True s of
           (s1, pte) \<Rightarrow>
             (if pte = 0 then (s1, -1)
              else (brights_paging_flush_tlb virt
                      (pg_store pte ((phys AND NOT 0x1FFFFF) OR BRIGHTS_PTE_PRESENT OR BRIGHTS_PTE_HUGE
                                     OR (flags AND NOT BRIGHTS_PTE_HUGE)) s1), 0))))"

definition brights_paging_unmap :: "u64 \<Rightarrow> paging \<Rightarrow> paging" where
  "brights_paging_unmap virt0 s =
     (if pml4_table s = 0 then s
      else
        (let virt = page_of virt0 in
         case walk_page_table virt False s of
           (s1, pte) \<Rightarrow>
             (if pte \<noteq> 0 \<and> pt_flag (pg_mem s1 pte) BRIGHTS_PTE_PRESENT
              then brights_paging_flush_tlb virt (pg_store pte 0 s1) else s1)))"

definition brights_paging_unmap_2m :: "u64 \<Rightarrow> paging \<Rightarrow> paging" where
  "brights_paging_unmap_2m virt0 s =
     (if pml4_table s = 0 then s
      else
        (let virt = virt0 AND NOT 0x1FFFFF in
         case walk_page_table_ex virt False True s of
           (s1, pte) \<Rightarrow>
             (if pte \<noteq> 0 \<and> pt_flag (pg_mem s1 pte) BRIGHTS_PTE_PRESENT \<and> pt_flag (pg_mem s1 pte) BRIGHTS_PTE_HUGE
              then brights_paging_flush_tlb virt (pg_store pte 0 s1) else s1)))"

definition brights_paging_virt_to_phys :: "u64 \<Rightarrow> paging \<Rightarrow> u64" where
  "brights_paging_virt_to_phys virt s =
     (if pml4_table s = 0 then 0
      else
        (case walk_page_table virt False s of
           (s1, pte) \<Rightarrow>
             (if pte = 0 \<or> \<not> pt_flag (pg_mem s1 pte) BRIGHTS_PTE_PRESENT then 0
              else if pt_flag (pg_mem s1 pte) BRIGHTS_PTE_HUGE
              then (pg_mem s1 pte AND NOT 0x1FFFFF) OR (virt AND 0x1FFFFF)
              else (pg_mem s1 pte AND NOT 0xFFF) OR (virt AND 0xFFF))))"

definition brights_paging_init :: "paging \<Rightarrow> paging" where
  "brights_paging_init s = s\<lparr>pml4_table := brights_paging_get_cr3 s AND NOT 0xFFF\<rparr>"

definition brights_paging_mark_writable :: "u64 \<Rightarrow> paging \<Rightarrow> paging \<times> int" where
  "brights_paging_mark_writable virt0 s =
     (let virt = page_of virt0 in
      case walk_page_table virt False s of
        (s1, pte) \<Rightarrow>
          (if pte = 0 \<or> \<not> pt_flag (pg_mem s1 pte) BRIGHTS_PTE_PRESENT then (s1, -1)
           else (brights_paging_flush_tlb virt (pg_store pte (pg_mem s1 pte OR BRIGHTS_PTE_WRITABLE) s1), 0)))"

subsection \<open>Address spaces\<close>

definition pt_idx :: "nat \<Rightarrow> nat \<Rightarrow> u64 list" where
  "pt_idx a b = map of_nat [a..<b]"

definition copy_kernel_half :: "u64 \<Rightarrow> paging \<Rightarrow> paging" where
  "copy_kernel_half new_pml4 s =
     (if pml4_table s = 0 then s
      else let pml4 = pml4_table s in
           fold (\<lambda>i s. pg_store (new_pml4 + i * 8) (pg_mem s (pml4 + i * 8)) s) (pt_idx 256 512) s)"

definition brights_paging_create_address_space :: "paging \<Rightarrow> paging \<times> u64" where
  "brights_paging_create_address_space s =
     (case alloc_pt_page s of
        (s1, new_pml4) \<Rightarrow> (if new_pml4 = 0 then (s1, 0) else (copy_kernel_half new_pml4 s1, new_pml4)))"

text \<open>At level 0 the loop over the entries has no effect.\<close>

primrec free_pt_tree :: "nat \<Rightarrow> u64 \<Rightarrow> paging \<Rightarrow> paging" where
  "free_pt_tree 0 table s = pg_free_page table s"
| "free_pt_tree (Suc l) table s =
     pg_free_page table
       (fold (\<lambda>i s. let entry = pg_mem s (table + i * 8) in
                    if \<not> pt_flag entry BRIGHTS_PTE_PRESENT then s
                    else if pt_flag entry BRIGHTS_PTE_HUGE then s
                    else free_pt_tree l (page_of entry) s)
          (pt_idx 0 (if Suc l = PT_LEVEL_PML4 then 256 else PT_ENTRIES)) s)"

definition brights_paging_destroy_address_space :: "u64 \<Rightarrow> paging \<Rightarrow> paging" where
  "brights_paging_destroy_address_space cr3 s =
     (let pml4 = page_of cr3 in if pml4 \<noteq> 0 then free_pt_tree PT_LEVEL_PML4 pml4 s else s)"

definition clone_pt :: "u64 \<Rightarrow> u64 \<Rightarrow> paging \<Rightarrow> paging" where
  "clone_pt src_pt dst_pt s =
     fold (\<lambda>m s. let entry = pg_mem s (src_pt + m * 8) in
                 if \<not> pt_flag entry BRIGHTS_PTE_PRESENT then pg_store (dst_pt + m * 8) entry s
                 else pg_store (dst_pt + m * 8) (entry AND NOT BRIGHTS_PTE_WRITABLE)
                        (pg_store (src_pt + m * 8) (entry AND NOT BRIGHTS_PTE_WRITABLE) s))
       (pt_idx 0 PT_ENTRIES) s"

text \<open>The three outer loops have the same body; \<open>next\<close> is the loop inside.\<close>

definition clone_level :: "(u64 \<Rightarrow> u64 \<Rightarrow> paging \<Rightarrow> paging) \<Rightarrow> nat \<Rightarrow> u64 \<Rightarrow> u64 \<Rightarrow> paging \<Rightarrow> paging" where
  "clone_level next n src dst s =
     fold (\<lambda>i s. let entry = pg_mem s (src + i * 8) in
                 if \<not> pt_flag entry BRIGHTS_PTE_PRESENT then s
                 else if pt_flag entry BRIGHTS_PTE_HUGE then pg_store (dst + i * 8) entry s
                 else case alloc_pt_page s of
                   (s1, new) \<Rightarrow>
                     (if new = 0 then pg_store (dst + i * 8) 0 s1
                      else next (page_of entry) new
                             (pg_store (dst + i * 8) (new OR (pg_mem s1 (src + i * 8) AND 0xFFF)) s1)))
       (pt_idx 0 n) s"

definition brights_paging_clone_address_space :: "u64 \<Rightarrow> paging \<Rightarrow> paging \<times> u64" where
  "brights_paging_clone_address_space src_cr3 s =
     (let src_pml4 = page_of src_cr3 in
      case alloc_pt_page s of
        (s1, dst_pml4) \<Rightarrow>
          (if dst_pml4 = 0 then (s1, 0)
           else (clone_level (clone_level (clone_level clone_pt PT_ENTRIES) PT_ENTRIES) 256 src_pml4 dst_pml4
                   (copy_kernel_half dst_pml4 s1), dst_pml4)))"

subsection \<open>Bringing up memory management\<close>

text \<open>\<open>kernel/vm.c\<close>: the boot loader's memory map, clipped to the memory above 1 MB, at most 32 regions.\<close>

definition BRIGHTS_MAX_MEM_REGIONS :: nat where "BRIGHTS_MAX_MEM_REGIONS = 32"

fun vm_bootstrap_loop :: "mem_region list \<Rightarrow> mem_region list \<Rightarrow> mem_region list" where
  "vm_bootstrap_loop [] out = out"
| "vm_bootstrap_loop (r # rs) out =
     (if length out \<ge> BRIGHTS_MAX_MEM_REGIONS then out
      else
        (let end = rg_base r + rg_size r in
         if end \<le> 0x100000 then vm_bootstrap_loop rs out
         else
           (let base = (if rg_base r < 0x100000 then 0x100000 else rg_base r) in
            if end \<le> base then vm_bootstrap_loop rs out
            else vm_bootstrap_loop rs (out @ [\<lparr>rg_base = base, rg_size = end - base\<rparr>]))))"

definition brights_vm_bootstrap :: "mem_region list option \<Rightarrow> mem_region list" where
  "brights_vm_bootstrap regions = (case regions of None \<Rightarrow> [] | Some rs \<Rightarrow> vm_bootstrap_loop rs [])"

definition brights_vm_init :: "mem_region list \<Rightarrow> paging \<Rightarrow> paging" where
  "brights_vm_init brights_mem_regions s =
     brights_paging_init
       (s\<lparr>pg_pmem := brights_pmem_init
            (Some (if brights_mem_regions = [] then [\<lparr>rg_base = 0x100000, rg_size = 16 * 1024 * 1024\<rparr>]
                   else brights_mem_regions)) (pg_pmem s)\<rparr>)"

subsection \<open>Addresses\<close>

definition page_aligned :: "u64 \<Rightarrow> bool" where
  "page_aligned t \<longleftrightarrow> page_of t = t"

lemma bit_FFF: "bit (0xFFF :: u64) n \<longleftrightarrow> n < 12"
proof -
  have e: "(0xFFF :: u64) = mask 12" by (simp add: mask_eq_exp_minus_1)
  show ?thesis unfolding e bit_mask_iff by auto
qed

lemma bit_page_of: "bit (page_of a) n \<longleftrightarrow> 12 \<le> n \<and> bit a n"
  unfolding page_of_def bit_and_iff bit_not_iff bit_FFF by (auto dest: bit_imp_le_length)

lemma page_aligned_page_of [simp]: "page_aligned (page_of a)"
  by (simp add: page_aligned_def bit_word_eqI bit_page_of bit_eq_iff)

lemma small_bits: "d < (4096 :: u64) \<Longrightarrow> bit d n \<Longrightarrow> n < 12"
proof -
  assume a: "d < 4096" "bit d n"
  then have "unat d < 2 ^ 12" by (simp add: word_less_nat_alt)
  then have "take_bit 12 (unat d) = unat d" by (simp add: take_bit_nat_eq_self)
  then have "take_bit 12 d = d" by (metis unsigned_take_bit_eq word_unat_eq_iff)
  then show "n < 12" using a(2) by (metis bit_take_bit_iff)
qed

lemma aligned_bits: "page_aligned t \<Longrightarrow> bit t n \<Longrightarrow> 12 \<le> n"
  using bit_page_of [of t n] by (simp add: page_aligned_def)

lemma add_small:
  assumes "page_aligned t" "d < (4096 :: u64)"
  shows "t + d = t OR d" "page_of (t + d) = t"
proof -
  show e: "t + d = t OR d"
    using aligned_bits [OF assms(1)] small_bits [OF assms(2)] by (intro disjunctive_add) fastforce
  show "page_of (t + d) = t"
    unfolding e using aligned_bits [OF assms(1)] small_bits [OF assms(2)]
    by (intro bit_word_eqI) (fastforce simp: bit_page_of bit_simps)
qed

lemma in_page_iff: "page_aligned p \<Longrightarrow> a - p < 4096 \<longleftrightarrow> page_of a = p"
proof
  assume p: "page_aligned p" and "a - p < 4096"
  then show "page_of a = p" using add_small(2) [OF p, of "a - p"] by simp
next
  assume "page_aligned p" and a: "page_of a = p"
  have "a = page_of a OR (a AND 0xFFF)"
    by (rule bit_word_eqI) (unfold bit_or_iff bit_and_iff bit_FFF bit_page_of, auto)
  moreover have s: "a AND 0xFFF < (4096 :: u64)"
  proof -
    have "a AND 0xFFF \<le> 0xFFF" by (rule word_and_le1)
    then show ?thesis by (rule le_less_trans) simp
  qed
  ultimately have "a = p + (a AND 0xFFF)" using add_small(1) [of p "a AND 0xFFF"] a by auto
  then have "a - p = a AND 0xFFF" by (metis add_diff_cancel_left')
  then show "a - p < 4096" using s by simp
qed

lemma slot_small: "(i :: u64) < 512 \<Longrightarrow> i * 8 < 4096"
proof -
  assume "i < 512"
  then have u: "unat i < 512" by (simp add: word_less_nat_alt)
  then have "unat (i * 8) = unat i * 8" by (simp add: unat_word_ariths)
  then show ?thesis using u by (simp add: word_less_nat_alt)
qed

lemma page_of_slot [simp]: "page_aligned t \<Longrightarrow> i < 512 \<Longrightarrow> page_of (t + i * 8) = t"
  by (rule add_small(2)) (simp_all add: slot_small)

lemma slot_inj:
  assumes "page_aligned t" "page_aligned u" "i < 512" "j < (512 :: u64)"
  shows "t + i * 8 = u + j * 8 \<longleftrightarrow> t = u \<and> i = j"
proof
  assume e: "t + i * 8 = u + j * 8"
  then have t: "t = u" using page_of_slot [OF assms(1,3)] page_of_slot [OF assms(2,4)] by simp
  then have m: "i * 8 = j * 8" using e by simp
  have "unat i < 512" "unat j < 512" using assms(3,4) by (simp_all add: word_less_nat_alt)
  moreover from this have "unat (i * 8) = unat i * 8" "unat (j * 8) = unat j * 8"
    by (simp_all add: unat_word_ariths)
  ultimately have "unat i = unat j" using m by (metis mult_cancel2 zero_neq_numeral)
  then show "t = u \<and> i = j" using t by (simp add: word_unat_eq_iff)
qed simp

subsection \<open>The tables as a tree\<close>

fun tab :: "(u64 \<Rightarrow> u64) \<Rightarrow> u64 \<Rightarrow> u64 list \<Rightarrow> u64 option" where
  "tab m t [] = Some t"
| "tab m t (i # is) =
     (let e = m (t + i * 8) in if bit e 0 \<and> \<not> bit e 7 then tab m (page_of e) is else None)"

text \<open>The entry that translates an address, with the indices a huge page leaves unused.\<close>

fun leaf :: "(u64 \<Rightarrow> u64) \<Rightarrow> u64 \<Rightarrow> u64 list \<Rightarrow> (u64 \<times> u64 list) option" where
  "leaf m t [] = None"
| "leaf m t [i] = (let e = m (t + i * 8) in if bit e 0 then Some (e, []) else None)"
| "leaf m t (i # j # is) =
     (let e = m (t + i * 8) in
      if \<not> bit e 0 then None else if bit e 7 then Some (e, j # is) else leaf m (page_of e) (j # is))"

definition idx_ok :: "u64 list \<Rightarrow> bool" where
  "idx_ok is \<longleftrightarrow> (\<forall>i\<in>set is. i < 512)"

definition path_ok :: "u64 list \<Rightarrow> bool" where
  "path_ok is \<longleftrightarrow> length is \<le> 3 \<and> idx_ok is"

lemma idx_ok_simps [simp]: "idx_ok []" "idx_ok (i # is) \<longleftrightarrow> i < 512 \<and> idx_ok is" "idx_ok (is @ js) \<longleftrightarrow> idx_ok is \<and> idx_ok js"
  by (auto simp: idx_ok_def)

lemma pt_flag_present [simp]: "pt_flag e BRIGHTS_PTE_PRESENT \<longleftrightarrow> bit e 0"
  by (simp add: pt_flag_def BRIGHTS_PTE_PRESENT_def bit_iff_and_push_bit_not_eq_0)

lemma pt_flag_huge [simp]: "pt_flag e BRIGHTS_PTE_HUGE \<longleftrightarrow> bit e 7"
  by (simp add: pt_flag_def BRIGHTS_PTE_HUGE_def bit_iff_and_push_bit_not_eq_0 push_bit_eq_mult)

lemma tab_aligned: "page_aligned r \<Longrightarrow> tab m r is = Some t \<Longrightarrow> page_aligned t"
proof (induction "is" arbitrary: r)
  case (Cons i "is")
  then show ?case using Cons.IH [of "page_of (m (r + i * 8))"] by (simp add: Let_def split: if_splits)
qed simp

lemma tab_append: "tab m r (is @ js) = (case tab m r is of None \<Rightarrow> None | Some t \<Rightarrow> tab m t js)"
  by (induction "is" arbitrary: r) (auto simp: Let_def)

lemma leaf_append: "tab m r is = Some t \<Longrightarrow> js \<noteq> [] \<Longrightarrow> leaf m r (is @ js) = leaf m t js"
proof (induction "is" arbitrary: r)
  case (Cons i "is")
  obtain j js' where n: "is @ js = j # js'" using Cons.prems(2) by (metis append_is_Nil_conv neq_Nil_conv)
  show ?case using Cons by (simp add: Let_def n [symmetric] split: if_splits) (simp add: n)
qed simp

text \<open>The entries a lookup along \<open>js\<close> reads.\<close>

definition same_along :: "(u64 \<Rightarrow> u64) \<Rightarrow> (u64 \<Rightarrow> u64) \<Rightarrow> u64 \<Rightarrow> u64 list \<Rightarrow> bool" where
  "same_along m m' r js \<longleftrightarrow>
     (\<forall>ks k zs u. js = ks @ k # zs \<and> tab m r ks = Some u \<longrightarrow> m' (u + k * 8) = m (u + k * 8))"

lemma same_along_Cons:
  assumes "same_along m m' r (j # js)"
  shows "m' (r + j * 8) = m (r + j * 8)"
    and "bit (m (r + j * 8)) 0 \<Longrightarrow> \<not> bit (m (r + j * 8)) 7 \<Longrightarrow> same_along m m' (page_of (m (r + j * 8))) js"
proof -
  show "m' (r + j * 8) = m (r + j * 8)"
    using assms unfolding same_along_def by (metis append_Nil tab.simps(1))
  show "same_along m m' (page_of (m (r + j * 8))) js"
    if "bit (m (r + j * 8)) 0" "\<not> bit (m (r + j * 8)) 7"
    unfolding same_along_def
  proof (intro allI impI)
    fix ks k zs u
    assume a: "js = ks @ k # zs \<and> tab m (page_of (m (r + j * 8))) ks = Some u"
    then have "j # js = (j # ks) @ k # zs" "tab m r (j # ks) = Some u" using that by (auto simp: Let_def)
    then show "m' (u + k * 8) = m (u + k * 8)" using assms unfolding same_along_def by blast
  qed
qed

lemma tab_cong: "same_along m m' r js \<Longrightarrow> tab m' r js = tab m r js"
proof (induction js arbitrary: r)
  case (Cons j js)
  then show ?case using same_along_Cons [OF Cons.prems] by (auto simp: Let_def)
qed simp

lemma leaf_cong: "same_along m m' r js \<Longrightarrow> leaf m' r js = leaf m r js"
proof (induction m r js rule: leaf.induct)
  case (2 m t i)
  then show ?case using same_along_Cons(1) [OF 2] by (simp add: Let_def)
next
  case (3 m t i j "is")
  then show ?case using same_along_Cons [OF 3(2)] by (auto simp: Let_def)
qed simp

definition pt_inv :: "paging \<Rightarrow> bool" where
  "pt_inv s \<longleftrightarrow> pmem_inv (pg_pmem s) \<and> page_aligned (pmem_base (pg_pmem s)) \<and> page_aligned (pml4_table s)
     \<and> (\<forall>is t. path_ok is \<and> tab (pg_mem s) (pml4_table s) is = Some t \<longrightarrow> t \<noteq> 0 \<and> t \<notin> avail (pg_pmem s))
     \<and> (\<forall>is js t. path_ok is \<and> path_ok js \<and> tab (pg_mem s) (pml4_table s) is = Some t
          \<and> tab (pg_mem s) (pml4_table s) js = Some t \<longrightarrow> is = js)"

lemma pt_invD:
  assumes "pt_inv s"
  shows "pmem_inv (pg_pmem s)" "page_aligned (pmem_base (pg_pmem s))" "page_aligned (pml4_table s)"
    and "path_ok is \<Longrightarrow> tab (pg_mem s) (pml4_table s) is = Some t \<Longrightarrow> t \<noteq> 0 \<and> t \<notin> avail (pg_pmem s) \<and> page_aligned t"
    and "path_ok is \<Longrightarrow> path_ok js \<Longrightarrow> tab (pg_mem s) (pml4_table s) is = Some t
      \<Longrightarrow> tab (pg_mem s) (pml4_table s) js = Some t \<Longrightarrow> is = js"
    and "pml4_table s \<noteq> 0"
proof -
  note inv = assms [unfolded pt_inv_def]
  show "pmem_inv (pg_pmem s)" "page_aligned (pmem_base (pg_pmem s))" "page_aligned (pml4_table s)"
    using inv by blast+
  show "t \<noteq> 0 \<and> t \<notin> avail (pg_pmem s) \<and> page_aligned t"
    if "path_ok is" "tab (pg_mem s) (pml4_table s) is = Some t"
    using inv that tab_aligned by blast
  show "is = js" if "path_ok is" "path_ok js" "tab (pg_mem s) (pml4_table s) is = Some t"
    "tab (pg_mem s) (pml4_table s) js = Some t" using inv that by blast
  have "path_ok []" "tab (pg_mem s) (pml4_table s) [] = Some (pml4_table s)" by (simp_all add: path_ok_def)
  then show "pml4_table s \<noteq> 0" using inv by blast
qed

lemma page_aligned_mult: "page_aligned (x * 4096)"
proof -
  have "x * 4096 = push_bit 12 x" by (simp add: push_bit_eq_mult)
  then show ?thesis by (auto simp: page_aligned_def bit_eq_iff bit_page_of bit_push_bit_iff)
qed

lemma page_aligned_add:
  assumes "page_aligned a" "page_aligned b"
  shows "page_aligned (a + b)"
proof -
  have e: "t = drop_bit 12 t * 4096" if "page_aligned t" for t
  proof -
    have "t = push_bit 12 (drop_bit 12 t)"
      using aligned_bits [OF that] by (intro bit_word_eqI) (fastforce simp: bit_simps)
    then show ?thesis by (simp add: push_bit_eq_mult)
  qed
  have "a + b = (drop_bit 12 a + drop_bit 12 b) * 4096"
    using e [OF assms(1)] e [OF assms(2)] by (metis distrib_right)
  then show ?thesis using page_aligned_mult by metis
qed

lemma pt_inv_transfer:
  assumes inv: "pt_inv s" and pm: "pmem_inv (pg_pmem s')" "pmem_base (pg_pmem s') = pmem_base (pg_pmem s)"
      "avail (pg_pmem s') \<subseteq> avail (pg_pmem s)" and r: "pml4_table s' = pml4_table s"
    and tabs: "\<And>is. path_ok is \<Longrightarrow> tab (pg_mem s') (pml4_table s) is = tab (pg_mem s) (pml4_table s) is"
  shows "pt_inv s'"
  unfolding pt_inv_def r
proof (intro conjI allI impI; (elim conjE)?)
  show "pmem_inv (pg_pmem s')" "page_aligned (pmem_base (pg_pmem s'))" "page_aligned (pml4_table s)"
    using pt_invD(2,3) [OF inv] pm by simp_all
  fix "is" u assume i1: "path_ok is" "tab (pg_mem s') (pml4_table s) is = Some u"
  show "u \<noteq> 0" "u \<notin> avail (pg_pmem s')" using pt_invD(4) [OF inv i1(1), of u] tabs [OF i1(1)] i1(2) pm(3) by auto
  fix js assume i2: "path_ok js" "tab (pg_mem s') (pml4_table s) js = Some u"
  show "is = js"
    by (rule pt_invD(5) [OF inv i1(1) i2(1) trans [OF tabs [OF i1(1), symmetric] i1(2)] trans [OF tabs [OF i2(1), symmetric] i2(2)]])
qed

lemma avail_aligned:
  assumes "page_aligned (pmem_base p)" "a \<in> avail p"
  shows "page_aligned a"
proof -
  obtain i where "a = pmem_base p + of_nat i * 4096" using assms(2) by (auto simp: avail_def page_addr_def)
  then show ?thesis using assms(1) page_aligned_add page_aligned_mult by blast
qed

subsection \<open>One step of a table walk\<close>

text \<open>A page no table lives on can change without any lookup noticing.\<close>

lemma same_along_other_page:
  assumes inv: "pt_inv s" and js: "length js \<le> 4" "idx_ok js"
    and m: "\<And>a. m' a \<noteq> pg_mem s a \<Longrightarrow> page_of a = n"
    and n: "\<And>is. path_ok is \<Longrightarrow> tab (pg_mem s) (pml4_table s) is \<noteq> Some n"
  shows "same_along (pg_mem s) m' (pml4_table s) js"
  unfolding same_along_def
proof (intro allI impI)
  fix ks k zs u
  assume a: "js = ks @ k # zs \<and> tab (pg_mem s) (pml4_table s) ks = Some u"
  then have ks: "path_ok ks" "k < 512" using js by (auto simp: path_ok_def)
  then have "page_of (u + k * 8) = u" using pt_invD(4) [OF inv ks(1)] a by simp
  moreover have "u \<noteq> n" using n [OF ks(1)] a by auto
  ultimately show "m' (u + k * 8) = pg_mem s (u + k * 8)" using m [of "u + k * 8"] by auto
qed

text \<open>One entry of one table changes: only lookups through that entry notice.\<close>

lemma same_along_other_entry:
  assumes inv: "pt_inv s" and js: "length js \<le> 4" "idx_ok js"
    and pre: "path_ok pre" "tab (pg_mem s) (pml4_table s) pre = Some t" "i < 512"
    and other: "\<And>zs. js \<noteq> pre @ i # zs"
  shows "same_along (pg_mem s) ((pg_mem s)(t + i * 8 := e)) (pml4_table s) js"
  unfolding same_along_def
proof (intro allI impI)
  fix ks k zs u
  assume a: "js = ks @ k # zs \<and> tab (pg_mem s) (pml4_table s) ks = Some u"
  then have ks: "path_ok ks" "k < 512" using js by (auto simp: path_ok_def)
  have al: "page_aligned u" "page_aligned t" using pt_invD(4) [OF inv] ks(1) a pre by blast+
  have "u + k * 8 \<noteq> t + i * 8"
  proof
    assume "u + k * 8 = t + i * 8"
    then have "u = t" "k = i" using slot_inj [OF al ks(2) pre(3)] by auto
    then have "ks = pre" using pt_invD(5) [OF inv ks(1) pre(1)] a pre(2) by blast
    then show False using other a \<open>k = i\<close> by blast
  qed
  then show "((pg_mem s)(t + i * 8 := e)) (u + k * 8) = pg_mem s (u + k * 8)" by simp
qed

lemma alloc_pt_page_ok:
  assumes inv: "pt_inv s" and al: "alloc_pt_page s = (s', n)"
  shows "n = 0 \<Longrightarrow> s' = s"
    and "n \<noteq> 0 \<Longrightarrow> pt_inv s' \<and> pml4_table s' = pml4_table s \<and> page_aligned n \<and> n \<notin> avail (pg_pmem s')
      \<and> (\<forall>a. pg_mem s' a = (if page_of a = n then 0 else pg_mem s a))
      \<and> (\<forall>is. path_ok is \<longrightarrow> tab (pg_mem s') (pml4_table s) is = tab (pg_mem s) (pml4_table s) is
            \<and> tab (pg_mem s) (pml4_table s) is \<noteq> Some n)
      \<and> (\<forall>js. length js \<le> 4 \<and> idx_ok js \<longrightarrow> leaf (pg_mem s') (pml4_table s) js = leaf (pg_mem s) (pml4_table s) js)"
proof -
  note I = pt_invD [OF inv]
  obtain pm where a: "brights_pmem_alloc_page (pg_pmem s) = (pm, n)" and
    s': "s' = (if n = 0 then s\<lparr>pg_pmem := pm\<rparr> else zero_page n (s\<lparr>pg_pmem := pm\<rparr>))"
    using al by (auto simp: alloc_pt_page_def Let_def split: prod.splits if_splits)
  show "s' = s" if "n = 0" using pm.alloc_null [OF I(1)] a s' that by simp
  assume n0: "n \<noteq> 0"
  have av: "n \<in> avail (pg_pmem s)" "avail pm = avail (pg_pmem s) - {n}"
    using pm.alloc_page [OF I(1)] a n0 by auto
  have pm: "pmem_inv pm" using pm.alloc_ok [OF I(1)] a by simp
  have base: "pmem_base pm = pmem_base (pg_pmem s)"
    using a by (auto simp: brights_pmem_alloc_page_def split: option.splits if_splits)
  have na: "page_aligned n" using avail_aligned [OF I(2) av(1)] .
  have fresh: "tab (pg_mem s) (pml4_table s) is \<noteq> Some n" if "path_ok is" for "is"
    using I(4) [OF that] av(1) by blast
  have mem: "pg_mem s' = (\<lambda>a. if page_of a = n then 0 else pg_mem s a)"
    using s' n0 in_page_iff [OF na] by (auto simp: zero_page_def)
  have along: "same_along (pg_mem s) (pg_mem s') (pml4_table s) js" if "length js \<le> 4" "idx_ok js" for js
    by (rule same_along_other_page [OF inv that, of _ n]) (use fresh mem in \<open>auto split: if_splits\<close>)
  have tabs: "tab (pg_mem s') (pml4_table s) is = tab (pg_mem s) (pml4_table s) is" if "path_ok is" for "is"
    using that by (intro tab_cong along) (auto simp: path_ok_def)
  have oth: "pml4_table s' = pml4_table s" "pg_pmem s' = pm" using s' n0 by (simp_all add: zero_page_def)
  have "pt_inv s'"
    by (rule pt_inv_transfer [OF inv]) (use pm base av(2) oth tabs in auto)
  then show "pt_inv s' \<and> pml4_table s' = pml4_table s \<and> page_aligned n \<and> n \<notin> avail (pg_pmem s')
      \<and> (\<forall>a. pg_mem s' a = (if page_of a = n then 0 else pg_mem s a))
      \<and> (\<forall>is. path_ok is \<longrightarrow> tab (pg_mem s') (pml4_table s) is = tab (pg_mem s) (pml4_table s) is
            \<and> tab (pg_mem s) (pml4_table s) is \<noteq> Some n)
      \<and> (\<forall>js. length js \<le> 4 \<and> idx_ok js \<longrightarrow> leaf (pg_mem s') (pml4_table s) js = leaf (pg_mem s) (pml4_table s) js)"
    using oth na av(2) mem tabs fresh leaf_cong [OF along] by auto
qed

text \<open>Writing an entry of a last-level table.\<close>

lemma store_leaf_ok:
  fixes e :: u64
  assumes inv: "pt_inv s" and pre: "length pre = 3" "idx_ok pre" "tab (pg_mem s) (pml4_table s) pre = Some t" "i < 512"
  defines "s' \<equiv> pg_store (t + i * 8) e s"
  shows "pt_inv s'" "pml4_table s' = pml4_table s"
    and "leaf (pg_mem s') (pml4_table s) (pre @ [i]) = (if bit e 0 then Some (e, []) else None)"
    and "length js = 4 \<Longrightarrow> idx_ok js \<Longrightarrow> js \<noteq> pre @ [i] \<Longrightarrow>
      leaf (pg_mem s') (pml4_table s) js = leaf (pg_mem s) (pml4_table s) js"
    and "path_ok is \<Longrightarrow> tab (pg_mem s') (pml4_table s) is = tab (pg_mem s) (pml4_table s) is"
proof -
  have ok: "path_ok pre" using pre by (simp add: path_ok_def)
  have mem: "pg_mem s' = (pg_mem s)(t + i * 8 := e)" and oth: "pml4_table s' = pml4_table s" "pg_pmem s' = pg_pmem s"
    by (simp_all add: s'_def pg_store_def)
  show "pml4_table s' = pml4_table s" by (rule oth(1))
  show tabs: "tab (pg_mem s') (pml4_table s) is = tab (pg_mem s) (pml4_table s) is" if "path_ok is" for "is"
    unfolding mem by (rule tab_cong, rule same_along_other_entry [OF inv _ _ ok pre(3,4)]) (use that pre(1) in \<open>auto simp: path_ok_def\<close>)
  show "pt_inv s'" by (rule pt_inv_transfer [OF inv]) (use pt_invD(1) [OF inv] oth tabs in auto)
  show "leaf (pg_mem s') (pml4_table s) (pre @ [i]) = (if bit e 0 then Some (e, []) else None)"
    using leaf_append [of "pg_mem s'" "pml4_table s" pre t "[i]"] tabs [OF ok] pre(3) by (simp add: mem)
  show "leaf (pg_mem s') (pml4_table s) js = leaf (pg_mem s) (pml4_table s) js"
    if "length js = 4" "idx_ok js" "js \<noteq> pre @ [i]"
    unfolding mem by (rule leaf_cong, rule same_along_other_entry [OF inv _ _ ok pre(3,4)]) (use that pre(1) in auto)
qed

text \<open>Linking a fresh, zeroed table into an entry that was not present.\<close>

lemma link_bits:
  assumes "page_aligned n"
  shows "page_of (n OR 1 OR 2) = n" "bit (n OR 1 OR 2) 0" "\<not> bit (n OR 1 OR 2) 7"
proof -
  have e: "n OR 1 OR 2 = n + 3" using add_small(1) [OF assms, of 3] by (simp add: or.assoc)
  show "page_of (n OR 1 OR 2) = n" unfolding e by (rule add_small(2) [OF assms]) simp
  show "bit (n OR 1 OR 2) 0" by (simp add: bit_or_iff)
  show "\<not> bit (n OR 1 OR 2) 7" using aligned_bits [OF assms, of 7] by (auto simp: bit_or_iff)
qed

lemma link_ok:
  fixes n :: u64
  assumes inv: "pt_inv s"
    and pre: "length pre \<le> 2" "idx_ok pre" "tab (pg_mem s) (pml4_table s) pre = Some t" "i < 512" "\<not> bit (pg_mem s (t + i * 8)) 0"
    and n: "n \<noteq> 0" "page_aligned n" "n \<notin> avail (pg_pmem s)" "\<And>is. path_ok is \<Longrightarrow> tab (pg_mem s) (pml4_table s) is \<noteq> Some n"
      "\<And>a. page_of a = n \<Longrightarrow> pg_mem s a = 0"
  defines "s' \<equiv> pg_store (t + i * 8) (n OR BRIGHTS_PTE_PRESENT OR BRIGHTS_PTE_WRITABLE) s"
  shows "pt_inv s'" "pml4_table s' = pml4_table s"
    and "idx_ok zs \<Longrightarrow> tab (pg_mem s') (pml4_table s) (pre @ i # zs) = (if zs = [] then Some n else None)"
    and "path_ok is \<Longrightarrow> (\<And>zs. is \<noteq> pre @ i # zs) \<Longrightarrow>
      tab (pg_mem s') (pml4_table s) is = tab (pg_mem s) (pml4_table s) is"
    and "length js = 4 \<Longrightarrow> idx_ok js \<Longrightarrow> leaf (pg_mem s') (pml4_table s) js = leaf (pg_mem s) (pml4_table s) js"
proof -
  let ?r = "pml4_table s" and ?m = "pg_mem s" and ?e = "n OR 1 OR 2"
  have ok: "path_ok pre" using pre by (simp add: path_ok_def)
  have t: "page_aligned t" using pt_invD(4) [OF inv ok pre(3)] by simp
  have mem: "pg_mem s' = ?m(t + i * 8 := ?e)" and oth: "pml4_table s' = ?r" "pg_pmem s' = pg_pmem s"
    by (simp_all add: s'_def pg_store_def BRIGHTS_PTE_PRESENT_def BRIGHTS_PTE_WRITABLE_def)
  show "pml4_table s' = ?r" by (rule oth(1))
  note B = link_bits [OF n(2)]
  have along: "same_along ?m (pg_mem s') ?r js" if "length js \<le> 4" "idx_ok js" "\<And>zs. js \<noteq> pre @ i # zs" for js
    unfolding mem by (rule same_along_other_entry [OF inv that(1,2) ok pre(3,4) that(3)])
  show other: "tab (pg_mem s') ?r is = tab ?m ?r is" if "path_ok is" "\<And>zs. is \<noteq> pre @ i # zs" for "is"
    using that by (intro tab_cong along) (auto simp: path_ok_def)
  have tp: "tab (pg_mem s') ?r pre = Some t" using other [OF ok] pre(3) by simp
  have z: "pg_mem s' (n + z * 8) = 0" if "z < 512" for z
  proof -
    have "page_of (n + z * 8) = n" "page_of (t + i * 8) = t" using n(2) t pre(4) that by simp_all
    moreover have "t \<noteq> n" using n(4) [OF ok] pre(3) by auto
    ultimately have "n + z * 8 \<noteq> t + i * 8" by metis
    then show ?thesis using n(5) [OF \<open>page_of (n + z * 8) = n\<close>] by (simp add: mem)
  qed
  have at: "page_of (pg_mem s' (t + i * 8)) = n" "bit (pg_mem s' (t + i * 8)) 0" "\<not> bit (pg_mem s' (t + i * 8)) 7"
    using B unfolding mem fun_upd_same .
  show new: "tab (pg_mem s') ?r (pre @ i # zs) = (if zs = [] then Some n else None)" if "idx_ok zs" for zs
    using that z at by (cases zs) (simp_all add: tab_append tp Let_def)
  have cases': "(\<exists>zs. is = pre @ i # zs \<and> idx_ok zs) \<or> (\<forall>zs. is \<noteq> pre @ i # zs)" if "path_ok is" for "is"
    using that by (auto simp: path_ok_def)
  have tabD: "is = pre @ [i] \<and> u = n \<or> tab ?m ?r is = Some u" if "path_ok is" "tab (pg_mem s') ?r is = Some u" for "is" u
    using cases' [OF that(1)] new other [OF that(1)] that(2) by (auto split: if_splits)
  show "pt_inv s'"
    unfolding pt_inv_def oth
  proof (intro conjI allI impI; (elim conjE)?)
    show "pmem_inv (pg_pmem s)" "page_aligned (pmem_base (pg_pmem s))" "page_aligned ?r"
      using pt_invD(1-3) [OF inv] by auto
    fix "is" u assume i1: "path_ok is" "tab (pg_mem s') ?r is = Some u"
    show "u \<noteq> 0" "u \<notin> avail (pg_pmem s)" using tabD [OF i1] n(1,3) pt_invD(4) [OF inv i1(1)] by auto
    fix js assume i2: "path_ok js" "tab (pg_mem s') ?r js = Some u"
    show "is = js"
      using tabD [OF i1] tabD [OF i2] n(4) [OF i1(1)] n(4) [OF i2(1)] pt_invD(5) [OF inv i1(1) i2(1)] by auto
  qed
  show "leaf (pg_mem s') ?r js = leaf ?m ?r js" if "length js = 4" "idx_ok js"
  proof (cases "\<exists>zs. js = pre @ i # zs")
    case False
    then show ?thesis using that by (intro leaf_cong along) auto
  next
    case True
    then obtain zs where zs: "js = pre @ i # zs" by blast
    then have "zs \<noteq> []" using that(1) pre(1) by auto
    then obtain y ys where js: "js = pre @ i # y # ys" using zs by (cases zs) auto
    have y: "y < 512" using that(2) js by simp
    have "leaf (pg_mem s') ?r js = leaf (pg_mem s') n (y # ys)"
      using leaf_append [OF tp, of "i # y # ys"] at by (simp add: js)
    also have "\<dots> = None" using z [OF y] by (cases ys) (simp_all add: Let_def)
    also have "\<dots> = leaf ?m ?r js" using leaf_append [OF pre(3), of "i # y # ys"] pre(5) by (simp add: js)
    finally show ?thesis .
  qed
qed

subsection \<open>The walk\<close>

definition idx_at :: "u64 \<Rightarrow> nat \<Rightarrow> u64" where
  "idx_at v level = drop_bit (pt_shift level) v AND 0x1FF"

definition indices :: "u64 \<Rightarrow> u64 list" where
  "indices v = [idx_at v 3, idx_at v 2, idx_at v 1, idx_at v 0]"

lemma idx_at_less: "idx_at v l < 512"
proof -
  have "idx_at v l \<le> 0x1FF" unfolding idx_at_def by (rule word_and_le1)
  then show ?thesis by (rule le_less_trans) simp
qed

lemma indices_ok [simp]: "idx_ok (indices v)" "length (indices v) = 4"
  by (simp_all add: indices_def idx_at_less)

lemma take_indices:
  assumes "l \<le> 3"
  shows "indices v = take (3 - l) (indices v) @ idx_at v l # drop (4 - l) (indices v)"
    and "take (4 - l) (indices v) = take (3 - l) (indices v) @ [idx_at v l]"
    and "idx_ok (take n (indices v))"
proof -
  have "l = 0 \<or> l = 1 \<or> l = 2 \<or> l = 3" using assms by arith
  then show "indices v = take (3 - l) (indices v) @ idx_at v l # drop (4 - l) (indices v)"
    "take (4 - l) (indices v) = take (3 - l) (indices v) @ [idx_at v l]"
    by (elim disjE; simp add: indices_def numeral_eq_Suc)+
  show "idx_ok (take n (indices v))" using indices_ok(1) [of v] by (auto simp: idx_ok_def dest: in_set_takeD)
qed

lemma get_pte_idx: "get_pte t v l = t + idx_at v l * 8"
  by (simp add: get_pte_def idx_at_def)

text \<open>No entry above the last level maps a huge page on the way to \<open>v\<close>.\<close>

definition no_huge :: "paging \<Rightarrow> u64 \<Rightarrow> bool" where
  "no_huge s v \<longleftrightarrow> (case leaf (pg_mem s) (pml4_table s) (indices v) of None \<Rightarrow> True | Some (e, rest) \<Rightarrow> rest = [])"

text \<open>Two states with the same translations.\<close>

definition same_leaves :: "paging \<Rightarrow> paging \<Rightarrow> bool" where
  "same_leaves s s' \<longleftrightarrow> pt_inv s' \<and> pml4_table s' = pml4_table s \<and>
     (\<forall>js. length js = 4 \<and> idx_ok js \<longrightarrow> leaf (pg_mem s') (pml4_table s) js = leaf (pg_mem s) (pml4_table s) js)"

lemma same_leaves_refl: "pt_inv s \<Longrightarrow> same_leaves s s"
  by (simp add: same_leaves_def)

lemma same_leaves_trans: "same_leaves s s1 \<Longrightarrow> same_leaves s1 s2 \<Longrightarrow> same_leaves s s2"
  by (simp add: same_leaves_def)

lemma same_leaves_huge: "same_leaves s s' \<Longrightarrow> no_huge s v \<Longrightarrow> no_huge s' v"
  by (simp add: same_leaves_def no_huge_def)

lemma leaf_at_level:
  assumes "l \<le> 3" "tab (pg_mem s) (pml4_table s) (take (3 - l) (indices v)) = Some t"
  shows "leaf (pg_mem s) (pml4_table s) (indices v) = leaf (pg_mem s) t (idx_at v l # drop (4 - l) (indices v))"
  using leaf_append [OF assms(2), of "idx_at v l # drop (4 - l) (indices v)"] take_indices(1) [OF assms(1), of v] by simp

lemma tab_next_level:
  assumes "l \<le> 3" "tab m r (take (3 - l) (indices v)) = Some t"
    "bit (m (t + idx_at v l * 8)) 0" "\<not> bit (m (t + idx_at v l * 8)) 7"
  shows "tab m r (take (4 - l) (indices v)) = Some (page_of (m (t + idx_at v l * 8)))"
  using assms unfolding take_indices(2) [OF assms(1)] by (simp add: tab_append)

lemma walk_entry_inner:
  assumes inv: "pt_inv s" and l: "0 < l" "l \<le> 3" and t: "tab (pg_mem s) (pml4_table s) (take (3 - l) (indices v)) = Some t"
    and huge: "no_huge s v" and w: "walk_entry True (t + idx_at v l * 8) s = (s', ok)"
  shows "same_leaves s s'"
    and "ok \<Longrightarrow> tab (pg_mem s') (pml4_table s) (take (4 - l) (indices v)) = Some (page_of (pg_mem s' (t + idx_at v l * 8)))
      \<and> \<not> bit (pg_mem s' (t + idx_at v l * 8)) 7"
proof -
  let ?pre = "take (3 - l) (indices v)" and ?a = "t + idx_at v l * 8" and ?r = "pml4_table s"
  have pre: "length ?pre \<le> 2" "idx_ok ?pre" using l take_indices(3) [of 0 "3 - l" v] by auto
  have "same_leaves s s' \<and> (ok \<longrightarrow> tab (pg_mem s') ?r (take (4 - l) (indices v)) = Some (page_of (pg_mem s' ?a))
      \<and> \<not> bit (pg_mem s' ?a) 7)"
  proof (cases "bit (pg_mem s ?a) 0")
    case True
    have "drop (4 - l) (indices v) \<noteq> []" using l by simp
    then have "\<not> bit (pg_mem s ?a) 7"
      using huge True unfolding no_huge_def leaf_at_level [OF l(2) t]
      by (cases "drop (4 - l) (indices v)") (auto simp: Let_def)
    moreover have "s' = s" using w True by (simp add: walk_entry_def)
    ultimately show ?thesis using tab_next_level [OF l(2) t True] same_leaves_refl [OF inv] by simp
  next
    case False
    obtain s1 n where al: "alloc_pt_page s = (s1, n)" by fastforce
    show ?thesis
    proof (cases "n = 0")
      case True
      then have "s' = s" "\<not> ok" using w False al alloc_pt_page_ok(1) [OF inv al] by (auto simp: walk_entry_def)
      then show ?thesis using same_leaves_refl [OF inv] by simp
    next
      case n: False
      note A = alloc_pt_page_ok(2) [OF inv al n]
      have pok: "path_ok ?pre" using pre by (simp add: path_ok_def)
      have t1: "tab (pg_mem s1) (pml4_table s1) ?pre = Some t" using A pok t by simp
      have np: "\<not> bit (pg_mem s1 ?a) 0" using A False by simp
      have fresh: "tab (pg_mem s1) (pml4_table s1) is \<noteq> Some n" if "path_ok is" for "is" using A that by simp
      have na: "page_aligned n" "n \<notin> avail (pg_pmem s1)" "pt_inv s1" "pml4_table s1 = ?r" using A by auto
      have z: "pg_mem s1 a = 0" if "page_of a = n" for a using A that by simp
      note L = link_ok [OF na(3) pre t1 idx_at_less np n na(1,2) fresh z]
      have s': "s' = pg_store ?a (n OR BRIGHTS_PTE_PRESENT OR BRIGHTS_PTE_WRITABLE) s1" and ok: ok
        using w False al n by (auto simp: walk_entry_def)
      have "same_leaves s s'" using A L(1,2,5) s' by (simp add: same_leaves_def)
      moreover have "pg_mem s' ?a = n OR 1 OR 2"
        by (simp add: s' pg_store_def BRIGHTS_PTE_PRESENT_def BRIGHTS_PTE_WRITABLE_def)
      moreover have "tab (pg_mem s') ?r (take (4 - l) (indices v)) = Some n"
        using L(3) [of "[]"] s' na(4) unfolding take_indices(2) [OF l(2)] by simp
      ultimately show ?thesis using link_bits [OF na(1)] by (simp only: simp_thms)
    qed
  qed
  then show "same_leaves s s'"
    "ok \<Longrightarrow> tab (pg_mem s') ?r (take (4 - l) (indices v)) = Some (page_of (pg_mem s' ?a)) \<and> \<not> bit (pg_mem s' ?a) 7"
    by blast+
qed

lemma table_at_level:
  assumes "pt_inv s" "l \<le> 3" "tab (pg_mem s) (pml4_table s) (take (3 - l) (indices v)) = Some t"
  shows "t + idx_at v l * 8 \<noteq> 0" "page_aligned t"
proof -
  have "path_ok (take (3 - l) (indices v))" using take_indices(3) [of 0 "3 - l" v] by (simp add: path_ok_def)
  then have t: "t \<noteq> 0" "page_aligned t" using pt_invD(4) [OF assms(1)] assms(3) by blast+
  then show "page_aligned t" by blast
  have "page_of (t + idx_at v l * 8) = t" using t(2) idx_at_less by simp
  moreover have "page_of 0 = 0" by (simp add: page_of_def)
  ultimately show "t + idx_at v l * 8 \<noteq> 0" using t(1) by metis
qed

lemma pg_store_same: "pg_store a (pg_mem s a) s = s"
  by (simp add: pg_store_def)

lemma pg_store_twice: "pg_store a y (pg_store a x s) = pg_store a y s"
  by (simp add: pg_store_def)

text \<open>
  The walk that creates tables: it fails without effect on the translations, or ends at the
  last-level entry of the address, where it may have stored the page it allocated there.
\<close>

lemma walk_loop_create:
  assumes "pt_inv s" "l \<le> 3" "tab (pg_mem s) (pml4_table s) (take (3 - l) (indices v)) = Some t" "no_huge s v"
    "walk_loop l v True False t s = (s', pte)"
  shows "if pte = 0 then same_leaves s s'
    else \<exists>s1 t0 e. same_leaves s s1 \<and> tab (pg_mem s1) (pml4_table s) (take 3 (indices v)) = Some t0
      \<and> pte = t0 + idx_at v 0 * 8 \<and> s' = pg_store pte e s1"
  using assms
proof (induction l arbitrary: t s)
  case 0
  let ?a = "t + idx_at v 0 * 8"
  have nz: "?a \<noteq> 0" using table_at_level(1) [OF 0(1,2,3)] .
  obtain s2 ok where w: "walk_entry True ?a s = (s2, ok)" by fastforce
  then have res: "s' = s2" "pte = (if ok then ?a else 0)" using 0(5) by (simp_all add: get_pte_idx)
  have t3: "tab (pg_mem s) (pml4_table s) (take 3 (indices v)) = Some t" using 0(3) by simp
  show ?case
  proof (cases "bit (pg_mem s ?a) 0")
    case True
    then have "s' = s" "pte = ?a" using w res by (auto simp: walk_entry_def)
    then show ?thesis using nz t3 same_leaves_refl [OF 0(1)] pg_store_same [of ?a s] by (metis (no_types))
  next
    case False
    obtain s1 n where al: "alloc_pt_page s = (s1, n)" by fastforce
    show ?thesis
    proof (cases "n = 0")
      case True
      then have "s' = s" "pte = 0"
        using w res False al alloc_pt_page_ok(1) [OF 0(1) al] by (auto simp: walk_entry_def)
      then show ?thesis using same_leaves_refl [OF 0(1)] by simp
    next
      case n: False
      note A = alloc_pt_page_ok(2) [OF 0(1) al n]
      have "same_leaves s s1" using A by (simp add: same_leaves_def)
      moreover have "path_ok (take 3 (indices v))" using take_indices(3) [of 0 3 v] by (simp add: path_ok_def)
      then have "tab (pg_mem s1) (pml4_table s) (take 3 (indices v)) = Some t" using A t3 by simp
      moreover have "s' = pg_store ?a (n OR BRIGHTS_PTE_PRESENT OR BRIGHTS_PTE_WRITABLE) s1" "pte = ?a"
        using w res False al n by (auto simp: walk_entry_def)
      ultimately show ?thesis using nz by auto
    qed
  qed
next
  case (Suc l)
  let ?a = "t + idx_at v (Suc l) * 8"
  obtain s2 ok where w: "walk_entry True ?a s = (s2, ok)" by fastforce
  note I = walk_entry_inner [OF Suc.prems(1) _ Suc.prems(2,3,4) w]
  show ?case
  proof (cases ok)
    case False
    then show ?thesis using Suc.prems(5) w I(1) by (simp add: get_pte_idx)
  next
    case True
    have s2: "pt_inv s2" "pml4_table s2 = pml4_table s" using I(1) by (simp_all add: same_leaves_def)
    have J: "tab (pg_mem s2) (pml4_table s2) (take (3 - l) (indices v)) = Some (page_of (pg_mem s2 ?a))" "\<not> bit (pg_mem s2 ?a) 7"
      using I(2) [OF _ True] Suc.prems(2) s2 by simp_all
    have "walk_loop l v True False (page_of (pg_mem s2 ?a)) s2 = (s', pte)"
      using Suc.prems(5) w True J(2) by (simp add: get_pte_idx)
    from Suc.IH [OF s2(1) _ J(1) same_leaves_huge [OF I(1) Suc.prems(4)] this] Suc.prems(2)
    have "if pte = 0 then same_leaves s2 s'
      else \<exists>s1 t0 e. same_leaves s2 s1 \<and> tab (pg_mem s1) (pml4_table s2) (take 3 (indices v)) = Some t0
        \<and> pte = t0 + idx_at v 0 * 8 \<and> s' = pg_store pte e s1" by simp
    then show ?thesis using same_leaves_trans [OF I(1)] s2(2) by (auto split: if_splits)
  qed
qed

text \<open>The walk that only looks: it finds the entry of \<open>leaf\<close> and changes nothing.\<close>

lemma walk_loop_find:
  assumes "pt_inv s" "l \<le> 3" "tab (pg_mem s) (pml4_table s) (take (3 - l) (indices v)) = Some t"
  shows "case leaf (pg_mem s) (pml4_table s) (indices v) of
      None \<Rightarrow> walk_loop l v False False t s = (s, 0)
    | Some (e, rest) \<Rightarrow> \<exists>pte. walk_loop l v False False t s = (s, pte) \<and> pte \<noteq> 0 \<and> pg_mem s pte = e \<and> bit e 0
        \<and> (rest = [] \<longrightarrow> (\<exists>t0. tab (pg_mem s) (pml4_table s) (take 3 (indices v)) = Some t0 \<and> pte = t0 + idx_at v 0 * 8))"
  using assms
proof (induction l arbitrary: t)
  case 0
  have "leaf (pg_mem s) (pml4_table s) (indices v) = leaf (pg_mem s) t [idx_at v 0]"
    using leaf_at_level [OF 0(2,3)] by simp
  then show ?case
    using table_at_level(1) [OF 0] 0(3) by (auto simp: get_pte_idx walk_entry_def Let_def)
next
  case (Suc l)
  let ?a = "t + idx_at v (Suc l) * 8"
  obtain y ys where y: "drop (3 - l) (indices v) = y # ys"
    using Suc.prems(2) by (cases "drop (3 - l) (indices v)") auto
  have lf: "leaf (pg_mem s) (pml4_table s) (indices v) = leaf (pg_mem s) t (idx_at v (Suc l) # y # ys)"
    using leaf_at_level [OF Suc.prems(2,3)] y by simp
  note nz = table_at_level(1) [OF Suc.prems]
  show ?case
  proof (cases "bit (pg_mem s ?a) 0 \<and> \<not> bit (pg_mem s ?a) 7")
    case False
    then show ?thesis using lf nz by (auto simp: get_pte_idx walk_entry_def Let_def)
  next
    case True
    then have t': "tab (pg_mem s) (pml4_table s) (take (3 - l) (indices v)) = Some (page_of (pg_mem s ?a))"
      using tab_next_level [OF Suc.prems(2,3)] by simp
    have w: "walk_loop (Suc l) v False False t s = walk_loop l v False False (page_of (pg_mem s ?a)) s"
      using True by (simp add: get_pte_idx walk_entry_def)
    have "l \<le> 3" using Suc.prems(2) by simp
    then show ?thesis unfolding w by (rule Suc.IH [OF Suc.prems(1) _ t'])
  qed
qed

lemma indices_page_of [simp]: "indices (page_of v) = indices v"
proof -
  have "drop_bit n (page_of v) = drop_bit n v" if "12 \<le> n" for n
    using that by (intro bit_word_eqI) (auto simp: bit_simps bit_page_of)
  then show ?thesis by (simp add: indices_def idx_at_def pt_shift_def)
qed

definition translation :: "u64 \<Rightarrow> (u64 \<times> u64 list) option \<Rightarrow> u64" where
  "translation v lf = (case lf of None \<Rightarrow> 0 | Some (e, rest) \<Rightarrow>
     if bit e 7 then (e AND NOT 0x1FFFFF) OR (v AND 0x1FFFFF) else page_of e OR (v AND 0xFFF))"

lemma walk_eq: "pml4_table s \<noteq> 0 \<Longrightarrow> walk_page_table v c s = walk_loop 3 v c False (pml4_table s) s"
  by (simp add: walk_page_table_def walk_page_table_ex_def PT_LEVEL_PML4_def)

lemma walk_find:
  assumes "pt_inv s"
  shows "case leaf (pg_mem s) (pml4_table s) (indices v) of
      None \<Rightarrow> walk_page_table v False s = (s, 0)
    | Some (e, rest) \<Rightarrow> \<exists>pte. walk_page_table v False s = (s, pte) \<and> pte \<noteq> 0 \<and> pg_mem s pte = e \<and> bit e 0
        \<and> (rest = [] \<longrightarrow> (\<exists>t0. tab (pg_mem s) (pml4_table s) (take 3 (indices v)) = Some t0 \<and> pte = t0 + idx_at v 0 * 8))"
  unfolding walk_eq [OF pt_invD(6) [OF assms]] by (rule walk_loop_find [OF assms]) simp_all

lemma virt_to_phys_leaf:
  assumes "pt_inv s"
  shows "brights_paging_virt_to_phys v s = translation v (leaf (pg_mem s) (pml4_table s) (indices v))"
  using walk_find [OF assms, of v] pt_invD(6) [OF assms]
  by (auto simp: brights_paging_virt_to_phys_def translation_def page_of_def split: option.splits)

lemma pte_bits:
  assumes "page_aligned p" "flags < 4096" "\<not> bit flags 7"
  shows "bit (p OR BRIGHTS_PTE_PRESENT OR flags) 0" "\<not> bit (p OR BRIGHTS_PTE_PRESENT OR flags) 7"
    "page_of (p OR BRIGHTS_PTE_PRESENT OR flags) = p"
proof -
  show "bit (p OR BRIGHTS_PTE_PRESENT OR flags) 0" by (simp add: bit_or_iff BRIGHTS_PTE_PRESENT_def)
  show "\<not> bit (p OR BRIGHTS_PTE_PRESENT OR flags) 7"
    using aligned_bits [OF assms(1), of 7] assms(3) by (auto simp: bit_or_iff BRIGHTS_PTE_PRESENT_def)
  show "page_of (p OR BRIGHTS_PTE_PRESENT OR flags) = p"
    using aligned_bits [OF assms(1)] small_bits [OF assms(2)] small_bits [of 1]
    by (intro bit_word_eqI) (fastforce simp: bit_page_of bit_or_iff BRIGHTS_PTE_PRESENT_def)
qed

lemma store_last_ok:
  fixes w e :: u64
  assumes inv: "pt_inv s1" and t: "tab (pg_mem s1) (pml4_table s1) (take 3 (indices v)) = Some t0"
  defines "s' \<equiv> brights_paging_flush_tlb w (pg_store (t0 + idx_at v 0 * 8) e s1)"
  shows "pt_inv s'" "pml4_table s' = pml4_table s1"
    and "leaf (pg_mem s') (pml4_table s') (indices v) = (if bit e 0 then Some (e, []) else None)"
    and "indices v' \<noteq> indices v \<Longrightarrow>
      leaf (pg_mem s') (pml4_table s') (indices v') = leaf (pg_mem s1) (pml4_table s1) (indices v')"
proof -
  have iv: "take 3 (indices v) @ [idx_at v 0] = indices v" by (simp add: indices_def numeral_eq_Suc)
  have pre: "length (take 3 (indices v)) = 3" "idx_ok (take 3 (indices v))" using take_indices(3) [of 0 3 v] by simp_all
  note L = store_leaf_ok [where e = e, OF inv pre t idx_at_less [of v 0], unfolded iv]
  have f: "pg_mem s' = pg_mem (pg_store (t0 + idx_at v 0 * 8) e s1)" "pml4_table s' = pml4_table s1"
    using L(2) by (simp_all add: s'_def brights_paging_flush_tlb_def)
  show "pt_inv s'" using L(1) by (simp add: s'_def brights_paging_flush_tlb_def pt_inv_def)
  show "pml4_table s' = pml4_table s1" by (rule f(2))
  show "leaf (pg_mem s') (pml4_table s') (indices v) = (if bit e 0 then Some (e, []) else None)"
    unfolding f by (rule L(3))
  show "leaf (pg_mem s') (pml4_table s') (indices v') = leaf (pg_mem s1) (pml4_table s1) (indices v')"
    if "indices v' \<noteq> indices v" unfolding f using that by (intro L(4)) simp_all
qed

subsection \<open>When the walk finds memory\<close>

definition free_below :: "pmem \<Rightarrow> nat set" where
  "free_below p = {i \<in> free_set p. i < unat (pmem_total_pages p)}"

lemma alloc_page_succeeds:
  assumes "pmem_inv p" "free_below p \<noteq> {}" "brights_pmem_alloc_page p = (p', a)"
  shows "a \<noteq> 0" "card (free_below p') = card (free_below p) - 1" "pmem_inv p'"
proof -
  obtain i where i: "i \<in> free_set p" "i < unat (pmem_total_pages p)" using assms(2) by (auto simp: free_below_def)
  have "Min (free_set p) \<le> i" by (rule Min_le [OF free_set_finite i(1)])
  then have m: "Min (free_set p) < unat (pmem_total_pages p)" using i(2) by (rule le_less_trans)
  have "free_set p \<noteq> {}" using i(1) by blast
  note m = Min_in [OF free_set_finite this] m
  then have sp: "spec_alloc_page (free_set p) (unat (pmem_total_pages p)) = Some (Min (free_set p))"
    by (intro spec_alloc_page_Some) auto
  have a: "a = page_addr p (Min (free_set p))" "p' = (bitmap_set (Min (free_set p)) p)\<lparr>pmem_free_pages := pmem_free_pages p - 1\<rparr>"
    using alloc_page_refines [OF assms(1)] sp assms(3) by simp_all
  show "a \<noteq> 0" using pmem_inv_null [OF assms(1)] m(1) a(1) by (auto simp: avail_def)
  show "pmem_inv p'" using pm.alloc_ok [OF assms(1)] assms(3) by simp
  have "free_set p' = free_set p - {Min (free_set p)}" using take_page_inv [OF assms(1) m(1)] a(2) by simp
  then have "free_below p' = free_below p - {Min (free_set p)}" by (auto simp: free_below_def a(2) bitmap_set_def)
  moreover have "Min (free_set p) \<in> free_below p" using m by (simp add: free_below_def)
  ultimately show "card (free_below p') = card (free_below p) - 1" by (simp add: free_below_def)
qed

lemma walk_entry_succeeds:
  assumes "pmem_inv (pg_pmem s)" "0 < card (free_below (pg_pmem s))" "walk_entry True pte s = (s', ok)"
  shows "ok" "pmem_inv (pg_pmem s')" "card (free_below (pg_pmem s)) - 1 \<le> card (free_below (pg_pmem s'))"
proof -
  obtain p' a where al: "brights_pmem_alloc_page (pg_pmem s) = (p', a)" by fastforce
  have ne: "free_below (pg_pmem s) \<noteq> {}" using assms(2) by auto
  note A = alloc_page_succeeds [OF assms(1) ne al]
  show "ok" "pmem_inv (pg_pmem s')" "card (free_below (pg_pmem s)) - 1 \<le> card (free_below (pg_pmem s'))"
    using assms(1,3) al A
    by (auto simp: walk_entry_def alloc_pt_page_def zero_page_def pg_store_def Let_def split: if_splits)
qed

lemma walk_loop_succeeds:
  assumes "pt_inv s" "l \<le> 3" "tab (pg_mem s) (pml4_table s) (take (3 - l) (indices v)) = Some t" "no_huge s v"
    "Suc l \<le> card (free_below (pg_pmem s))" "walk_loop l v True False t s = (s', pte)"
  shows "pte \<noteq> 0"
  using assms
proof (induction l arbitrary: t s)
  case 0
  obtain s2 ok where w: "walk_entry True (t + idx_at v 0 * 8) s = (s2, ok)" by fastforce
  have "ok" using walk_entry_succeeds(1) [OF pt_invD(1) [OF 0(1)] _ w] 0(5) by simp
  then show ?case using 0(6) w table_at_level(1) [OF 0(1,2,3)] by (simp add: get_pte_idx)
next
  case (Suc l)
  let ?a = "t + idx_at v (Suc l) * 8"
  obtain s2 ok where w: "walk_entry True ?a s = (s2, ok)" by fastforce
  note I = walk_entry_inner [OF Suc.prems(1) _ Suc.prems(2,3,4) w]
  note W = walk_entry_succeeds [OF pt_invD(1) [OF Suc.prems(1)] _ w]
  have ok: "ok" "Suc l \<le> card (free_below (pg_pmem s2))" using W Suc.prems(5) by auto
  have s2: "pt_inv s2" "pml4_table s2 = pml4_table s" using I(1) by (simp_all add: same_leaves_def)
  have J: "tab (pg_mem s2) (pml4_table s2) (take (3 - l) (indices v)) = Some (page_of (pg_mem s2 ?a))" "\<not> bit (pg_mem s2 ?a) 7"
    using I(2) [OF _ ok(1)] Suc.prems(2) s2 by simp_all
  have "walk_loop l v True False (page_of (pg_mem s2 ?a)) s2 = (s', pte)"
    using Suc.prems(6) w ok J(2) by (simp add: get_pte_idx)
  then show ?case using Suc.IH [OF s2(1) _ J(1) same_leaves_huge [OF I(1) Suc.prems(4)] ok(2)] Suc.prems(2) by simp
qed

subsection \<open>Creating and destroying address spaces\<close>

lemma copy_entries:
  fixes s :: paging
  assumes "page_aligned n" "\<forall>i\<in>set xs. i < 512" "page_aligned r" "r \<noteq> n"
  defines "s' \<equiv> fold (\<lambda>i s. pg_store (n + i * 8) (pg_mem s (r + i * 8)) s) xs s"
  shows "pg_pmem s' = pg_pmem s" "pml4_table s' = pml4_table s"
    and "page_of a \<noteq> n \<Longrightarrow> pg_mem s' a = pg_mem s a"
    and "j < 512 \<Longrightarrow> pg_mem s' (n + j * 8) = (if j \<in> set xs then pg_mem s (r + j * 8) else pg_mem s (n + j * 8))"
proof -
  have "pg_pmem s' = pg_pmem s \<and> pml4_table s' = pml4_table s \<and> (page_of a \<noteq> n \<longrightarrow> pg_mem s' a = pg_mem s a) \<and>
    (j < 512 \<longrightarrow> pg_mem s' (n + j * 8) = (if j \<in> set xs then pg_mem s (r + j * 8) else pg_mem s (n + j * 8)))"
    using assms(2) unfolding s'_def
  proof (induction xs arbitrary: s)
    case (Cons x xs)
    have p: "page_of (n + x * 8) = n" using assms(1) Cons.prems by simp
    have r: "page_of (r + y * 8) = r" if "y < 512" for y using assms(3) that by simp
    have "r + j * 8 \<noteq> n + x * 8" if "j < 512" using p r [OF that] assms(4) by metis
    moreover have "n + j * 8 = n + x * 8 \<longleftrightarrow> j = x" if "j < 512"
      using slot_inj [OF assms(1,1) that, of x] Cons.prems by simp
    ultimately show ?case
      using Cons.IH [of "pg_store (n + x * 8) (pg_mem s (r + x * 8)) s"] Cons.prems p
      by (auto simp: pg_store_def)
  qed simp
  then show "pg_pmem s' = pg_pmem s" "pml4_table s' = pml4_table s"
    "page_of a \<noteq> n \<Longrightarrow> pg_mem s' a = pg_mem s a"
    "j < 512 \<Longrightarrow> pg_mem s' (n + j * 8) = (if j \<in> set xs then pg_mem s (r + j * 8) else pg_mem s (n + j * 8))"
    by blast+
qed

lemma set_pt_idx: "b \<le> 512 \<Longrightarrow> i \<in> set (pt_idx a b) \<longleftrightarrow> a \<le> unat i \<and> unat i < b"
proof
  assume b: "b \<le> 512"
  have u: "unat (of_nat k :: u64) = k" if "k < b" for k using that b by (simp add: unat_of_nat)
  show "i \<in> set (pt_idx a b) \<Longrightarrow> a \<le> unat i \<and> unat i < b" using u by (auto simp: pt_idx_def)
  show "a \<le> unat i \<and> unat i < b \<Longrightarrow> i \<in> set (pt_idx a b)"
    by (auto simp: pt_idx_def intro!: image_eqI [of _ _ "unat i"])
qed

lemma fold_skip: "\<forall>x\<in>set xs. f x s = s \<Longrightarrow> fold f xs s = s"
  by (induction xs) auto

subsection \<open>Properties\<close>

text \<open>C3: mapping a 4 KB page, in a state whose tables form a tree apart from the free pages and with no
  huge page in the way, either fails with -1 for lack of memory and leaves every translation as it
  was, or makes exactly the addresses of that virtual page translate to the physical page and
  leaves every other translation unchanged; the tables stay a tree.\<close>
theorem paging_map_updates_translation:
  assumes inv: "pt_inv s" and huge: "no_huge s v" and flags: "flags < 4096" "\<not> bit flags 7"
    and map: "brights_paging_map v p flags s = (s', r)"
  shows "pt_inv s' \<and> (r = 0 \<or> r = -1) \<and>
    brights_paging_virt_to_phys v' s' =
      (if r = 0 \<and> indices v' = indices v then page_of p OR (v' AND 0xFFF) else brights_paging_virt_to_phys v' s)"
proof -
  have nz: "pml4_table s \<noteq> 0" by (rule pt_invD(6) [OF inv])
  obtain s2 pte where w: "walk_loop 3 (page_of v) True False (pml4_table s) s = (s2, pte)" by fastforce
  have W: "if pte = 0 then same_leaves s s2
    else \<exists>s1 t0 e. same_leaves s s1 \<and> tab (pg_mem s1) (pml4_table s) (take 3 (indices v)) = Some t0
      \<and> pte = t0 + idx_at (page_of v) 0 * 8 \<and> s2 = pg_store pte e s1"
    using walk_loop_create [OF inv _ _ _ w, unfolded indices_page_of] huge by (simp add: no_huge_def)
  show ?thesis
  proof (cases "pte = 0")
    case True
    then have "s' = s2" "r = -1" using map w nz by (simp_all add: brights_paging_map_def walk_eq)
    then show ?thesis using W True by (simp add: same_leaves_def virt_to_phys_leaf [OF inv] virt_to_phys_leaf)
  next
    case False
    then obtain s1 t0 e where s1: "same_leaves s s1" "tab (pg_mem s1) (pml4_table s) (take 3 (indices v)) = Some t0"
      "pte = t0 + idx_at (page_of v) 0 * 8" "s2 = pg_store pte e s1" using W by auto
    have i0: "idx_at (page_of v) 0 = idx_at v 0" using indices_page_of [of v] by (simp add: indices_def)
    let ?e = "page_of p OR BRIGHTS_PTE_PRESENT OR flags"
    have s': "s' = brights_paging_flush_tlb (page_of v) (pg_store (t0 + idx_at v 0 * 8) ?e s1)" "r = 0"
      using map w nz False s1(3,4) i0 by (simp_all add: brights_paging_map_def walk_eq pg_store_twice)
    have inv1: "pt_inv s1" "pml4_table s1 = pml4_table s" using s1(1) by (simp_all add: same_leaves_def)
    note S = store_last_ok [where w = "page_of v" and e = ?e, OF inv1(1) s1(2) [folded inv1(2)], folded s'(1)]
    note B = pte_bits [OF page_aligned_page_of flags, of p]
    have "leaf (pg_mem s') (pml4_table s') (indices v) = Some (?e, [])" using S(3) B(1) by simp
    moreover have "leaf (pg_mem s') (pml4_table s') (indices v') = leaf (pg_mem s) (pml4_table s) (indices v')"
      if "indices v' \<noteq> indices v"
      using S(4) [OF that] s1(1) inv1(2) by (simp add: same_leaves_def)
    ultimately show ?thesis
      using S(1) s'(2) B virt_to_phys_leaf [OF S(1), of v'] virt_to_phys_leaf [OF inv, of v'] by (simp add: translation_def)
  qed
qed

text \<open>Unmapping a 4 KB page makes exactly the addresses of that page untranslated and leaves
  every other translation unchanged.\<close>
theorem paging_unmap_updates_translation:
  assumes inv: "pt_inv s" and huge: "no_huge s v"
  shows "pt_inv (brights_paging_unmap v s) \<and>
    brights_paging_virt_to_phys v' (brights_paging_unmap v s) =
      (if indices v' = indices v then 0 else brights_paging_virt_to_phys v' s)"
proof (cases "leaf (pg_mem s) (pml4_table s) (indices v)")
  case None
  then have "brights_paging_unmap v s = s"
    using walk_find [OF inv, of "page_of v"] by (simp add: brights_paging_unmap_def Let_def)
  then show ?thesis using None inv by (auto simp: virt_to_phys_leaf [OF inv] translation_def)
next
  case (Some er)
  then obtain e where e: "leaf (pg_mem s) (pml4_table s) (indices v) = Some (e, [])"
    using huge by (auto simp: no_huge_def split: prod.splits)
  obtain t0 where t0: "tab (pg_mem s) (pml4_table s) (take 3 (indices v)) = Some t0"
    and w: "walk_page_table (page_of v) False s = (s, t0 + idx_at (page_of v) 0 * 8)"
      "t0 + idx_at (page_of v) 0 * 8 \<noteq> 0" "bit (pg_mem s (t0 + idx_at (page_of v) 0 * 8)) 0"
    using walk_find [OF inv, of "page_of v"] e by auto
  have i0: "idx_at (page_of v) 0 = idx_at v 0" using indices_page_of [of v] by (simp add: indices_def)
  let ?s = "brights_paging_flush_tlb (page_of v) (pg_store (t0 + idx_at v 0 * 8) 0 s)"
  have s': "brights_paging_unmap v s = ?s"
    using w pt_invD(6) [OF inv] unfolding i0 by (simp add: brights_paging_unmap_def)
  note S = store_last_ok [where w = "page_of v" and e = 0, OF inv t0]
  show ?thesis
    unfolding s' using S(1,3) S(4) [of v'] virt_to_phys_leaf [OF S(1), of v'] virt_to_phys_leaf [OF inv, of v']
    by (auto simp: translation_def)
qed

text \<open>C4: mapping a page succeeds whenever at least four pages can be allocated, one for each level of
  the tables.\<close>
theorem paging_map_succeeds:
  assumes inv: "pt_inv s" and huge: "no_huge s v" and mem: "4 \<le> card (free_below (pg_pmem s))"
  shows "\<exists>s'. brights_paging_map v p flags s = (s', 0)"
proof -
  obtain s2 pte where w: "walk_loop 3 (page_of v) True False (pml4_table s) s = (s2, pte)" by fastforce
  have "no_huge s (page_of v)" using huge by (simp add: no_huge_def)
  then have "pte \<noteq> 0" using walk_loop_succeeds [OF inv _ _ _ _ w] mem by simp
  then show ?thesis using w pt_invD(6) [OF inv] by (simp add: brights_paging_map_def walk_eq)
qed

text \<open>C5: a new address space has an empty user half and the kernel half of the current one, its creation
  changes no translation, and destroying it gives its page back: the set of available pages is
  again what it was.\<close>
theorem paging_create_destroy_roundtrip:
  assumes inv: "pt_inv s" and cr: "brights_paging_create_address_space s = (s', cr3)" "cr3 \<noteq> 0"
  shows "(i < 512 \<longrightarrow> pg_mem s' (cr3 + i * 8) = (if unat i < 256 then 0 else pg_mem s (pml4_table s + i * 8)))
    \<and> brights_paging_virt_to_phys v s' = brights_paging_virt_to_phys v s
    \<and> avail (pg_pmem (brights_paging_destroy_address_space cr3 s')) = avail (pg_pmem s)"
proof -
  obtain s1 where al: "alloc_pt_page s = (s1, cr3)"
    using cr by (auto simp: brights_paging_create_address_space_def split: prod.splits if_splits)
  note A = alloc_pt_page_ok(2) [OF inv al cr(2)]
  have n: "page_aligned cr3" "pt_inv s1" "pml4_table s1 = pml4_table s" using A by auto
  have nr: "pml4_table s \<noteq> cr3" using A by (auto simp: path_ok_def dest: spec [of _ "[]"])
  have idx: "\<forall>i\<in>set (pt_idx 256 512). i < 512" by (simp add: set_pt_idx word_less_nat_alt)
  have s': "s' = fold (\<lambda>i s. pg_store (cr3 + i * 8) (pg_mem s (pml4_table s1 + i * 8)) s) (pt_idx 256 512) s1"
    using cr(1) al n(3) cr(2) pt_invD(6) [OF inv]
    by (simp add: brights_paging_create_address_space_def copy_kernel_half_def Let_def)
  note C = copy_entries [where s = s1, OF n(1) idx pt_invD(3) [OF n(2)] nr [folded n(3)], folded s']
  have ent: "pg_mem s' (cr3 + i * 8) = (if unat i < 256 then 0 else pg_mem s (pml4_table s + i * 8))" if "i < 512" for i
  proof -
    have "i \<in> set (pt_idx 256 512) \<longleftrightarrow> \<not> unat i < 256" using that by (auto simp: set_pt_idx word_less_nat_alt)
    moreover have "page_of (pml4_table s + i * 8) = pml4_table s" using pt_invD(3) [OF inv] that by simp
    ultimately show ?thesis using C(4) [OF that] A nr that n(1,3) by simp
  qed
  have along: "same_along (pg_mem s1) (pg_mem s') (pml4_table s1) js" if "length js \<le> 4" "idx_ok js" for js
    by (rule same_along_other_page [OF n(2) that, of _ cr3]) (use C(3) A in \<open>auto split: if_splits\<close>)
  have inv': "pt_inv s'"
    by (rule pt_inv_transfer [OF n(2)])
      (use C(1,2) pt_invD(1) [OF n(2)] tab_cong [OF along] in \<open>auto simp: path_ok_def\<close>)
  have tr: "brights_paging_virt_to_phys v s' = brights_paging_virt_to_phys v s"
    unfolding virt_to_phys_leaf [OF inv] virt_to_phys_leaf [OF inv'] C(2)
    using leaf_cong [OF along, of "indices v"] A by simp
  have z: "\<not> bit (pg_mem s' (cr3 + i * 8)) 0" if "i \<in> set (pt_idx 0 256)" for i
    using that ent [of i] by (simp add: set_pt_idx word_less_nat_alt)
  have d: "brights_paging_destroy_address_space cr3 s' = pg_free_page cr3 s'"
    using n(1) cr(2) z
    by (simp add: brights_paging_destroy_address_space_def page_aligned_def PT_LEVEL_PML4_def numeral_3_eq_3 fold_skip)
  have pm: "brights_pmem_alloc_page (pg_pmem s) = (pg_pmem s1, cr3)"
    using al cr(2) by (auto simp: alloc_pt_page_def zero_page_def Let_def split: prod.splits if_splits)
  have "avail (brights_pmem_free_page cr3 (pg_pmem s1)) = avail (pg_pmem s)"
    using pm.alloc_free_restores [OF pt_invD(1) [OF inv]] pm cr(2) by simp
  then show ?thesis using ent tr d C(1) by (simp add: pg_free_page_def)
qed

lemma vm_bootstrap_loop_ok:
  assumes "length out \<le> 32"
    and "\<forall>r\<in>set out. 0x100000 \<le> rg_base r \<and> 0 < rg_size r \<and> rg_base r < rg_base r + rg_size r"
  shows "length (vm_bootstrap_loop rs out) \<le> 32
    \<and> (\<forall>r\<in>set (vm_bootstrap_loop rs out). 0x100000 \<le> rg_base r \<and> 0 < rg_size r \<and> rg_base r < rg_base r + rg_size r)"
  using assms
proof (induction rs out rule: vm_bootstrap_loop.induct)
  case (2 r rs out)
  show ?case
  proof (cases "length out \<ge> BRIGHTS_MAX_MEM_REGIONS")
    case True
    then show ?thesis using 2(4,5) by simp
  next
    case False
    define e where "e = rg_base r + rg_size r"
    define b where "b = (if rg_base r < 0x100000 then 0x100000 else rg_base r)"
    have b: "0x100000 \<le> b" by (simp add: b_def not_less)
    show ?thesis
    proof (cases "e \<le> 0x100000 \<or> e \<le> b")
      case True
      then have "vm_bootstrap_loop (r # rs) out = vm_bootstrap_loop rs out"
        using False by (auto simp: Let_def e_def b_def)
      then show ?thesis using 2 False True by (auto simp: e_def b_def)
    next
      case k: False
      then have be: "b < e" "\<not> e \<le> 0x100000" by auto
      have "vm_bootstrap_loop (r # rs) out = vm_bootstrap_loop rs (out @ [\<lparr>rg_base = b, rg_size = e - b\<rparr>])"
        using False k by (simp add: Let_def e_def b_def)
      moreover have "0 < e - b" using be(1) by (simp add: word_gt_0)
      ultimately show ?thesis
        using 2(3) [of e b] False k b be 2(4,5) by (simp add: e_def [symmetric] b_def [symmetric] BRIGHTS_MAX_MEM_REGIONS_def)
    qed
  qed
qed simp

text \<open>A machine with four free pages and an empty root table outside them.\<close>

definition paging_demo :: paging where
  "paging_demo = \<lparr>pg_pmem = (bitmap_clear 0 (bitmap_clear 3 pmem_two))\<lparr>pmem_free_pages := 4\<rparr>,
     pg_mem = (\<lambda>a. 0), pml4_table = 0x8000, pg_cr3 = 0x8000, pg_invlpg = []\<rparr>"

lemma pmem_four_props:
  defines "p \<equiv> (bitmap_clear 0 (bitmap_clear 3 pmem_two))\<lparr>pmem_free_pages := 4\<rparr>"
  shows "pmem_inv p" "free_set p = {0, 1, 2, 3}" "pmem_base p = 0x100000" "pmem_total_pages p = 4"
proof -
  let ?q = "(bitmap_clear 3 pmem_two)\<lparr>pmem_free_pages := 3\<rparr>"
  have q: "pmem_inv ?q" "free_set ?q = {1, 2, 3}"
    using put_page_inv [OF pmem_two_props(1), of 3] pmem_two_props(2)
    by (auto simp: pmem_two_def pmem_one_def page_addr_def pmem_full_def PMEM_MAX_PAGES_def bitmap_clear_def)
  show "pmem_inv p" "free_set p = {0, 1, 2, 3}"
    using put_page_inv [OF q(1), of 0] q(2)
    by (auto simp: p_def pmem_two_def pmem_one_def page_addr_def pmem_full_def PMEM_MAX_PAGES_def bitmap_clear_def)
  show "pmem_base p = 0x100000" "pmem_total_pages p = 4"
    by (simp_all add: p_def pmem_two_def pmem_one_def pmem_full_def bitmap_clear_def)
qed

lemma paging_demo_ok: "pt_inv paging_demo" "no_huge paging_demo v" "4 \<le> card (free_below (pg_pmem paging_demo))"
  "leaf (pg_mem paging_demo) (pml4_table paging_demo) (indices v) = None"
proof -
  note P = pmem_four_props
  have al: "page_aligned 0x8000" "page_aligned 0x100000"
    using page_aligned_mult [of 8] page_aligned_mult [of 256] by simp_all
  have tab: "tab (\<lambda>a. 0) 0x8000 is = Some t \<longleftrightarrow> is = [] \<and> t = 0x8000" for "is" t by (cases "is") auto
  have "0x8000 \<notin> avail (pg_pmem paging_demo)"
    using P(2,3) by (auto simp: paging_demo_def avail_def page_addr_def)
  then show "pt_inv paging_demo" using P al by (simp add: pt_inv_def paging_demo_def tab)
  show "leaf (pg_mem paging_demo) (pml4_table paging_demo) (indices v) = None" by (simp add: paging_demo_def indices_def)
  then show "no_huge paging_demo v" by (simp add: no_huge_def)
  have "free_below (pg_pmem paging_demo) = {0, 1, 2, 3}" using P(2,4) by (auto simp: free_below_def paging_demo_def)
  then show "4 \<le> card (free_below (pg_pmem paging_demo))" by simp
qed

lemma paging_demo_map: "\<exists>s'. brights_paging_map 0x400000 0x9000 6 paging_demo = (s', 0)"
proof -
  obtain s2 pte where w: "walk_loop 3 (page_of 0x400000) True False (pml4_table paging_demo) paging_demo = (s2, pte)" by fastforce
  have "pte \<noteq> 0" using walk_loop_succeeds [OF paging_demo_ok(1) _ _ paging_demo_ok(2) _ w] paging_demo_ok(3) by simp
  then show ?thesis using w pt_invD(6) [OF paging_demo_ok(1)] by (simp add: brights_paging_map_def walk_eq)
qed

theorem paging_map_succeeds_witness: "\<exists>s'. brights_paging_map 0x400000 0x9000 6 paging_demo = (s', 0)"
  by (rule paging_map_succeeds [OF paging_demo_ok(1-3)])

lemma six_flags: "(6 :: u64) < 4096" "\<not> bit (6 :: u64) 7" by simp_all

theorem paging_map_updates_translation_witness:
  "\<exists>s'. brights_paging_map 0x400000 0x9000 6 paging_demo = (s', 0)
    \<and> brights_paging_virt_to_phys 0x400123 s' = 0x9123 \<and> brights_paging_virt_to_phys 0x500000 s' = 0"
proof -
  obtain s' where s': "brights_paging_map 0x400000 0x9000 6 paging_demo = (s', 0)" using paging_demo_map by blast
  note M = paging_map_updates_translation [OF paging_demo_ok(1) paging_demo_ok(2) [of "0x400000"] six_flags s']
  have i: "indices 0x400123 = indices 0x400000" "indices 0x500000 \<noteq> indices 0x400000"
    by (simp_all add: indices_def idx_at_def pt_shift_def drop_bit_word_numeral)
  have "page_of 0x9000 OR (0x400123 AND 0xFFF) = 0x9123" by (simp add: page_of_def)
  then show ?thesis
    using s' M [where v' = "0x400123"] M [where v' = "0x500000"] i virt_to_phys_leaf [OF paging_demo_ok(1), of "0x500000"] paging_demo_ok(4)
    by (simp add: translation_def)
qed

theorem paging_unmap_updates_translation_witness:
  "brights_paging_virt_to_phys 0x400000 (brights_paging_unmap 0x400123 paging_demo) = 0"
proof -
  have "indices 0x400000 = indices 0x400123"
    by (simp add: indices_def idx_at_def pt_shift_def drop_bit_word_numeral)
  then show ?thesis using paging_unmap_updates_translation [OF paging_demo_ok(1) paging_demo_ok(2) [of "0x400123"], of "0x400000"] by simp
qed

theorem paging_create_destroy_roundtrip_witness:
  "\<exists>s' cr3. brights_paging_create_address_space paging_demo = (s', cr3)
    \<and> avail (pg_pmem (brights_paging_destroy_address_space cr3 s')) = avail (pg_pmem paging_demo)"
proof -
  obtain p' a where al: "brights_pmem_alloc_page (pg_pmem paging_demo) = (p', a)" by fastforce
  have "free_below (pg_pmem paging_demo) \<noteq> {}" using paging_demo_ok(3) by auto
  from alloc_page_succeeds(1) [OF pt_invD(1) [OF paging_demo_ok(1)] this al]
  obtain s' where c: "brights_paging_create_address_space paging_demo = (s', a)" and "a \<noteq> 0"
    using al by (simp add: brights_paging_create_address_space_def alloc_pt_page_def Let_def)
  then show ?thesis using paging_create_destroy_roundtrip [OF paging_demo_ok(1) c] by blast
qed

end
