(* ===== verification/Elf.thy ===== *)
theory Elf
  imports Kernel_Prelude Paging
begin

text \<open>
  The ELF loader, \<open>kernel/elf.c\<close>. A file is the list of its bytes; its size is the length of the
  list. Reading a header field outside the file is the result \<open>None\<close>. The messages to the serial
  port stand for the kinds of failure, so each branch that prints a message and returns -1 is a
  constructor of \<open>elf_error\<close>. The copies into a fresh page (\<open>kutil_memset\<close>, \<open>kutil_memcpy\<close>) are byte stores
  into physical memory.
\<close>

record elf64_ehdr =
  e_ident :: "u8 list"
  e_type :: u64
  e_machine :: u64
  e_entry :: u64
  e_phoff :: u64
  e_phentsize :: u64
  e_phnum :: u64

record elf64_phdr =
  p_type :: u64
  p_flags :: u64
  p_offset :: u64
  p_vaddr :: u64
  p_filesz :: u64
  p_memsz :: u64

record elf64_load_info =
  ei_entry :: u64
  ei_stack_top :: u64
  ei_phdr :: u64
  ei_phnum :: u64
  ei_phentsize :: u64

datatype elf_error = BadArgs | BadMagic | WrongArch | NotExecutable | NoEntry | BadPhdr | PhdrOutOfRange
  | SegmentOutOfRange | PmemAllocFail | PagingMapFail | PhdrAllocFail | PhdrMapFail | StackAllocFail | StackMapFail

subsection \<open>Reading the headers\<close>

fun le_value :: "u8 list \<Rightarrow> u64" where
  "le_value [] = 0"
| "le_value (b # bs) = ucast b + 256 * le_value bs"

text \<open>The packed header of 64 bytes, read from a file of at least that size.\<close>

definition ehdr_of :: "u8 list \<Rightarrow> elf64_ehdr" where
  "ehdr_of buf =
     (let f = (\<lambda>n off. le_value (take n (drop off buf))) in
      \<lparr>e_ident = take 16 buf, e_type = f 2 16, e_machine = f 2 18, e_entry = f 8 24, e_phoff = f 8 32,
       e_phentsize = f 2 54, e_phnum = f 2 56\<rparr>)"

definition phdr_at :: "nat \<Rightarrow> u8 list \<Rightarrow> elf64_phdr option" where
  "phdr_at off buf =
     (if off + 56 \<le> length buf
      then (let f = (\<lambda>n k. le_value (take n (drop (off + k) buf))) in
            Some \<lparr>p_type = f 4 0, p_flags = f 4 4, p_offset = f 8 8, p_vaddr = f 8 16, p_filesz = f 8 32,
                  p_memsz = f 8 40\<rparr>)
      else None)"

fun phdrs_from :: "nat \<Rightarrow> nat \<Rightarrow> u8 list \<Rightarrow> elf64_phdr list option" where
  "phdrs_from 0 off buf = Some []"
| "phdrs_from (Suc n) off buf =
     (case phdr_at off buf of
        None \<Rightarrow> None
      | Some ph \<Rightarrow> (case phdrs_from n (off + 56) buf of None \<Rightarrow> None | Some phs \<Rightarrow> Some (ph # phs)))"

text \<open>The checks in the order of the code; \<open>None\<close> when the header is accepted.\<close>

definition elf_header_error :: "u8 list \<Rightarrow> elf_error option" where
  "elf_header_error buf =
     (let h = ehdr_of buf; size = of_nat (length buf) in
      if size < (64 :: u64) then Some BadArgs
      else if take 4 (e_ident h) \<noteq> [0x7F, 0x45, 0x4C, 0x46] then Some BadMagic
      else if e_ident h ! 4 \<noteq> 2 \<or> e_ident h ! 5 \<noteq> 1 \<or> e_machine h \<noteq> 0x3E then Some WrongArch
      else if e_type h \<noteq> 2 \<and> e_type h \<noteq> 3 then Some NotExecutable
      else if e_entry h = 0 then Some NoEntry
      else if e_phoff h = 0 \<or> e_phnum h = 0 \<or> e_phentsize h \<noteq> 56 then Some BadPhdr
      else if e_phoff h + e_phnum h * e_phentsize h > size then Some PhdrOutOfRange
      else None)"

definition align_down_4k :: "u64 \<Rightarrow> u64" where
  "align_down_4k v = v AND NOT 0xFFF"

definition align_up_4k :: "u64 \<Rightarrow> u64" where
  "align_up_4k v = (v + 0xFFF) AND NOT 0xFFF"

definition elf_max_vaddr :: "elf64_phdr list \<Rightarrow> u64" where
  "elf_max_vaddr phs =
     fold (\<lambda>ph mx. if p_type ph \<noteq> 1 then mx
                   else let seg_end = p_vaddr ph + p_memsz ph in if seg_end > mx then seg_end else mx) phs 0"

subsection \<open>Filling pages\<close>

definition pg_store_byte :: "u64 \<Rightarrow> u8 \<Rightarrow> paging \<Rightarrow> paging" where
  "pg_store_byte a b s =
     (let q = a AND NOT 7; k = 8 * unat (a AND 7)
      in pg_store q ((pg_mem s q AND NOT (push_bit k 0xFF)) OR push_bit k (ucast b)) s)"

fun pg_store_bytes :: "u64 \<Rightarrow> u8 list \<Rightarrow> paging \<Rightarrow> paging" where
  "pg_store_bytes a [] s = s"
| "pg_store_bytes a (b # bs) s = pg_store_bytes (a + 1) bs (pg_store_byte a b s)"

definition pg_alloc_page :: "paging \<Rightarrow> paging \<times> u64" where
  "pg_alloc_page s = (case brights_pmem_alloc_page (pg_pmem s) of (pm, page) \<Rightarrow> (s\<lparr>pg_pmem := pm\<rparr>, page))"

text \<open>The part of a segment's file data that belongs on the page at \<open>vaddr\<close>: destination offset, file offset, length.\<close>

definition seg_copy :: "elf64_phdr \<Rightarrow> u64 \<Rightarrow> (u64 \<times> u64 \<times> u64) option" where
  "seg_copy ph vaddr =
     (if p_filesz ph > 0 then
        (let copy_start = (if p_vaddr ph > vaddr then p_vaddr ph else vaddr);
             seg_data_end = p_vaddr ph + p_filesz ph;
             copy_end = (if seg_data_end < vaddr + 4096 then seg_data_end else vaddr + 4096)
         in if copy_start < copy_end
            then Some (copy_start - vaddr, p_offset ph + (copy_start - p_vaddr ph), copy_end - copy_start)
            else None)
      else None)"

definition elf_fill_page :: "u8 list \<Rightarrow> elf64_phdr \<Rightarrow> u64 \<Rightarrow> u64 \<Rightarrow> paging \<Rightarrow> paging option" where
  "elf_fill_page buf ph vaddr page s =
     (let s1 = zero_page page s in
      case seg_copy ph vaddr of
        None \<Rightarrow> Some s1
      | Some (dst_off, src_off, len) \<Rightarrow>
          (if unat src_off + unat len \<le> length buf
           then Some (pg_store_bytes (page + dst_off) (take (unat len) (drop (unat src_off) buf)) s1)
           else None))"

fun elf_map_pages :: "nat \<Rightarrow> u64 \<Rightarrow> u8 list \<Rightarrow> elf64_phdr \<Rightarrow> u64 \<Rightarrow> paging \<Rightarrow> (paging \<times> elf_error option) option" where
  "elf_map_pages 0 vaddr buf ph pte_flags s = Some (s, None)"
| "elf_map_pages (Suc n) vaddr buf ph pte_flags s =
     (case pg_alloc_page s of
        (s1, page) \<Rightarrow>
          (if page = 0 then Some (s1, Some PmemAllocFail)
           else case elf_fill_page buf ph vaddr page s1 of
             None \<Rightarrow> None
           | Some s2 \<Rightarrow>
               (case brights_paging_map vaddr page pte_flags s2 of
                  (s3, r) \<Rightarrow>
                    (if r \<noteq> 0 then Some (s3, Some PagingMapFail)
                     else elf_map_pages n (vaddr + 4096) buf ph pte_flags s3))))"

definition elf_seg_flags :: "elf64_phdr \<Rightarrow> u64" where
  "elf_seg_flags ph = BRIGHTS_PTE_PRESENT OR BRIGHTS_PTE_USER
     OR (if p_flags ph AND 2 \<noteq> 0 then BRIGHTS_PTE_WRITABLE else 0)"

fun elf_load_segments :: "elf64_phdr list \<Rightarrow> u8 list \<Rightarrow> paging \<Rightarrow> (paging \<times> elf_error option) option" where
  "elf_load_segments [] buf s = Some (s, None)"
| "elf_load_segments (ph # phs) buf s =
     (if p_type ph \<noteq> 1 then elf_load_segments phs buf s
      else if p_memsz ph = 0 then elf_load_segments phs buf s
      else if p_offset ph + p_filesz ph > of_nat (length buf) then Some (s, Some SegmentOutOfRange)
      else
        (let page_start = align_down_4k (p_vaddr ph);
             page_end = align_up_4k (p_vaddr ph + p_memsz ph);
             num_pages = (page_end - page_start) div 4096
         in case elf_map_pages (unat num_pages) page_start buf ph (elf_seg_flags ph) s of
              None \<Rightarrow> None
            | Some (s1, Some e) \<Rightarrow> Some (s1, Some e)
            | Some (s1, None) \<Rightarrow> elf_load_segments phs buf s1))"

fun elf_map_stack :: "nat \<Rightarrow> u64 \<Rightarrow> paging \<Rightarrow> paging \<times> elf_error option" where
  "elf_map_stack 0 sv s = (s, None)"
| "elf_map_stack (Suc n) sv s =
     (case pg_alloc_page s of
        (s1, sp) \<Rightarrow>
          (if sp = 0 then (s1, Some StackAllocFail)
           else case brights_paging_map sv sp (BRIGHTS_PTE_PRESENT OR BRIGHTS_PTE_WRITABLE OR BRIGHTS_PTE_USER)
                       (zero_page sp s1) of
             (s2, r) \<Rightarrow> (if r \<noteq> 0 then (s2, Some StackMapFail) else elf_map_stack n (sv + 4096) s2)))"

definition USER_STACK_PAGES :: nat where "USER_STACK_PAGES = 16"
definition USER_STACK_TOP :: u64 where "USER_STACK_TOP = 0x00007FFFFFFFFFFF"

definition elf_stack_base :: u64 where
  "elf_stack_base = align_down_4k (USER_STACK_TOP - of_nat USER_STACK_PAGES * 4096)"

text \<open>The page with the program headers, placed after the last segment.\<close>

definition elf_map_phdrs :: "u8 list \<Rightarrow> elf64_phdr list \<Rightarrow> paging \<Rightarrow> (paging \<times> (elf_error + u64)) option" where
  "elf_map_phdrs buf phs s =
     (let h = ehdr_of buf; mx = elf_max_vaddr phs in
      case pg_alloc_page s of
        (s1, page) \<Rightarrow>
          (if page = 0 then Some (s1, Inl PhdrAllocFail)
           else
             (let u1 = align_up_4k mx;
                  uaddr = align_up_4k (if u1 < mx then mx else u1);
                  n = unat (e_phnum h) * 56
              in if unat (e_phoff h) + n \<le> length buf
                 then (case brights_paging_map uaddr page (BRIGHTS_PTE_PRESENT OR BRIGHTS_PTE_USER)
                              (pg_store_bytes page (take n (drop (unat (e_phoff h)) buf)) (zero_page page s1)) of
                         (s2, r) \<Rightarrow> Some (s2, if r \<noteq> 0 then Inl PhdrMapFail else Inr uaddr))
                 else None)))"

definition brights_elf_load :: "u8 list \<Rightarrow> paging \<Rightarrow> (paging \<times> (elf_error + elf64_load_info)) option" where
  "brights_elf_load buf s =
     (case elf_header_error buf of
        Some e \<Rightarrow> Some (s, Inl e)
      | None \<Rightarrow>
          (let h = ehdr_of buf in
           case phdrs_from (unat (e_phnum h)) (unat (e_phoff h)) buf of
             None \<Rightarrow> None
           | Some phs \<Rightarrow>
               (case elf_load_segments phs buf s of
                  None \<Rightarrow> None
                | Some (s1, Some e) \<Rightarrow> Some (s1, Inl e)
                | Some (s1, None) \<Rightarrow>
                    (case elf_map_phdrs buf phs s1 of
                       None \<Rightarrow> None
                     | Some (s2, Inl e) \<Rightarrow> Some (s2, Inl e)
                     | Some (s2, Inr uaddr) \<Rightarrow>
                         (case elf_map_stack USER_STACK_PAGES elf_stack_base s2 of
                            (s3, Some e) \<Rightarrow> Some (s3, Inl e)
                          | (s3, None) \<Rightarrow>
                              Some (s3, Inr \<lparr>ei_entry = e_entry h,
                                             ei_stack_top = elf_stack_base + of_nat USER_STACK_PAGES * 4096,
                                             ei_phdr = uaddr, ei_phnum = e_phnum h,
                                             ei_phentsize = e_phentsize h\<rparr>))))))"

subsection \<open>Reads stay inside the file\<close>

lemma le_value_bound: "length bs \<le> 7 \<Longrightarrow> unat (le_value bs) < 256 ^ length bs"
proof (induction bs)
  case (Cons b bs)
  have "unat (le_value bs) < 256 ^ length bs" using Cons by simp
  moreover have "(256 :: nat) ^ length bs \<le> 256 ^ 6" using Cons.prems by (intro power_increasing) simp_all
  ultimately have l: "unat (le_value bs) < 256 ^ length bs" "unat (le_value bs) < 256 ^ 6" by auto
  have b: "unat b < 256" using unsigned_less [of b] by simp
  have "unat (ucast b :: u64) = unat b" using b by (simp add: unsigned_ucast_eq take_bit_nat_eq_self)
  moreover have "unat (256 * le_value bs) = 256 * unat (le_value bs)" using l(2) by (simp add: unat_word_ariths)
  ultimately have "unat (le_value (b # bs)) \<le> unat b + 256 * unat (le_value bs)"
    using l(2) b by (simp add: unat_word_ariths)
  then show ?case using b l(1) by simp
qed simp

lemma phnum_bound: "unat (e_phnum (ehdr_of buf)) < 65536"
proof -
  let ?bs = "take 2 (drop 56 buf)"
  have "length ?bs \<le> 2" by simp
  then have "(256 :: nat) ^ length ?bs \<le> 256 ^ 2" by (intro power_increasing) simp_all
  moreover have "unat (le_value ?bs) < 256 ^ length ?bs" using \<open>length ?bs \<le> 2\<close> by (intro le_value_bound) simp
  ultimately show ?thesis by (simp add: ehdr_of_def Let_def)
qed

lemma phdrs_from_Some: "off + n * 56 \<le> length buf \<Longrightarrow> \<exists>phs. phdrs_from n off buf = Some phs"
proof (induction n arbitrary: off)
  case (Suc n)
  have "off + 56 + n * 56 \<le> length buf" using Suc.prems by simp
  from Suc.IH [OF this] obtain phs where "phdrs_from n (off + 56) buf = Some phs" by blast
  then show ?case using Suc.prems by (simp add: phdr_at_def Let_def)
qed simp

definition phdr_no_wrap :: "elf64_phdr \<Rightarrow> bool" where
  "phdr_no_wrap ph \<longleftrightarrow> unat (p_offset ph) + unat (p_filesz ph) < 2 ^ 64 \<and> unat (p_vaddr ph) + unat (p_filesz ph) < 2 ^ 64"

lemma seg_copy_bounds:
  assumes w: "phdr_no_wrap ph" and c: "seg_copy ph vaddr = Some (d, so, len)"
  shows "unat so + unat len \<le> unat (p_offset ph) + unat (p_filesz ph)"
proof -
  define st where "st = (if p_vaddr ph > vaddr then p_vaddr ph else vaddr)"
  define e where "e = p_vaddr ph + p_filesz ph"
  define en where "en = (if e < vaddr + 4096 then e else vaddr + 4096)"
  have c': "st < en" "so = p_offset ph + (st - p_vaddr ph)" "len = en - st"
    using c unfolding seg_copy_def st_def en_def e_def by (auto simp: Let_def split: if_splits)
  have ue: "unat e = unat (p_vaddr ph) + unat (p_filesz ph)"
    using w by (simp add: e_def phdr_no_wrap_def unat_word_ariths)
  have "p_vaddr ph \<le> st" "en \<le> e" by (auto simp: st_def en_def)
  then have o: "unat (p_vaddr ph) \<le> unat st" "unat en \<le> unat e" "unat st < unat en"
    using c'(1) by (simp_all add: word_le_nat_alt word_less_nat_alt)
  have "unat len = unat en - unat st" using c'(1,3) by (simp add: unat_sub less_imp_le)
  moreover have d: "unat (st - p_vaddr ph) = unat st - unat (p_vaddr ph)" using \<open>p_vaddr ph \<le> st\<close> by (rule unat_sub)
  moreover have "unat (p_offset ph) + unat (st - p_vaddr ph) < 2 ^ 64"
    using w d o ue unfolding phdr_no_wrap_def by linarith
  then have "unat so = unat (p_offset ph) + (unat st - unat (p_vaddr ph))"
    using c'(2) d by (simp add: unat_word_ariths)
  ultimately show ?thesis using o ue by simp
qed

lemma elf_map_pages_reads:
  assumes "phdr_no_wrap ph" "unat (p_offset ph) + unat (p_filesz ph) \<le> length buf"
  shows "elf_map_pages n vaddr buf ph fl s \<noteq> None"
proof (induction n arbitrary: vaddr s)
  case (Suc n)
  have f: "elf_fill_page buf ph v page t \<noteq> None" for v page t
    using seg_copy_bounds [OF assms(1), of v] assms(2)
    by (fastforce simp: elf_fill_page_def Let_def split: option.splits)
  obtain s1 page where a: "pg_alloc_page s = (s1, page)" by fastforce
  obtain s2 where s2: "elf_fill_page buf ph vaddr page s1 = Some s2" using f by blast
  obtain s3 r where m: "brights_paging_map vaddr page fl s2 = (s3, r)" by fastforce
  show ?case using Suc.IH [of "vaddr + 4096" s3] by (simp add: a s2 m)
qed simp

lemma elf_load_segments_reads:
  assumes "\<forall>ph\<in>set phs. phdr_no_wrap ph" "length buf < 2 ^ 64"
  shows "elf_load_segments phs buf s \<noteq> None"
  using assms(1)
proof (induction phs arbitrary: s)
  case (Cons ph phs)
  have r: "unat (p_offset ph) + unat (p_filesz ph) \<le> length buf"
    if "\<not> p_offset ph + p_filesz ph > of_nat (length buf)"
  proof -
    have "unat (p_offset ph + p_filesz ph) = unat (p_offset ph) + unat (p_filesz ph)"
      using Cons.prems by (simp add: phdr_no_wrap_def unat_word_ariths)
    moreover have "unat (p_offset ph + p_filesz ph) \<le> unat (of_nat (length buf) :: u64)"
      using that by (simp add: word_less_nat_alt)
    moreover have "unat (of_nat (length buf) :: u64) = length buf" using assms(2) by (simp add: unat_of_nat)
    ultimately show ?thesis by simp
  qed
  let ?m = "elf_map_pages (unat ((align_up_4k (p_vaddr ph + p_memsz ph) - align_down_4k (p_vaddr ph)) div 4096))
      (align_down_4k (p_vaddr ph)) buf ph (elf_seg_flags ph) s"
  have m: "?m \<noteq> None" if "\<not> p_offset ph + p_filesz ph > of_nat (length buf)"
    using Cons.prems r [OF that] by (intro elf_map_pages_reads) simp_all
  show ?case
    using m Cons.IH Cons.prems by (cases ?m) (auto simp: Let_def split: option.splits)
qed simp

lemma table_fits:
  assumes "elf_header_error buf = None" "length buf < 2 ^ 64" "unat (e_phoff (ehdr_of buf)) + unat (e_phnum (ehdr_of buf)) * 56 < 2 ^ 64"
  shows "unat (e_phoff (ehdr_of buf)) + unat (e_phnum (ehdr_of buf)) * 56 \<le> length buf"
proof -
  let ?o = "e_phoff (ehdr_of buf)" and ?n = "e_phnum (ehdr_of buf)"
  have "\<not> ?o + ?n * 56 > of_nat (length buf)"
    using assms(1) by (auto simp: elf_header_error_def Let_def split: if_splits)
  then have "unat (?o + ?n * 56) \<le> unat (of_nat (length buf) :: u64)" by (simp add: word_less_nat_alt)
  moreover have m: "unat (?n * 56) = unat ?n * 56" using phnum_bound [of buf] by (simp add: unat_word_ariths)
  then have "unat (?o + ?n * 56) = unat ?o + unat ?n * 56" using assms(3) by (simp add: unat_word_ariths)
  ultimately show ?thesis using assms(2) by (simp add: unat_of_nat)
qed

subsection \<open>Properties\<close>

text \<open>C32: when no offset, size or address of the program headers wraps around, the loader never reads
  outside the file, whatever the file contains and however loading ends; the header checks alone
  leave the page tables and the allocator untouched.\<close>
theorem elf_load_reads_in_bounds:
  assumes len: "length buf < 2 ^ 64"
    and off: "unat (e_phoff (ehdr_of buf)) + unat (e_phnum (ehdr_of buf)) * 56 < 2 ^ 64"
    and phs: "\<And>phs ph. phdrs_from (unat (e_phnum (ehdr_of buf))) (unat (e_phoff (ehdr_of buf))) buf = Some phs
      \<Longrightarrow> ph \<in> set phs \<Longrightarrow> phdr_no_wrap ph"
  shows "brights_elf_load buf s \<noteq> None
    \<and> (elf_header_error buf \<noteq> None \<longrightarrow> map_option fst (brights_elf_load buf s) = Some s)"
proof (cases "elf_header_error buf")
  case (Some e)
  then show ?thesis by (simp add: brights_elf_load_def)
next
  case None
  note fit = table_fits [OF None len off]
  obtain phs' where p: "phdrs_from (unat (e_phnum (ehdr_of buf))) (unat (e_phoff (ehdr_of buf))) buf = Some phs'"
    using phdrs_from_Some [OF fit] by blast
  have nw: "\<forall>ph\<in>set phs'. phdr_no_wrap ph" using phs [OF p] by blast
  obtain s1 r1 where g: "elf_load_segments phs' buf s = Some (s1, r1)"
    using elf_load_segments_reads [OF nw len, of s] by fast
  have "elf_map_phdrs buf phs' s1 \<noteq> None"
    using fit by (simp add: elf_map_phdrs_def Let_def split: prod.split)
  then obtain s2 r2 where m: "elf_map_phdrs buf phs' s1 = Some (s2, r2)" by fast
  obtain s3 r3 where k: "elf_map_stack USER_STACK_PAGES elf_stack_base s2 = (s3, r3)" by fastforce
  show ?thesis
    using None p g m k by (cases r1; cases r2; cases r3) (simp_all add: brights_elf_load_def Let_def)
qed

definition elf_demo :: "u8 list" where
  "elf_demo =
    [0x7F, 0x45, 0x4C, 0x46, 2, 1, 0, 0, 0, 0, 0, 0, 0, 0, 0, 0, 2, 0, 0x3E, 0, 1, 0, 0, 0, 0,
     0x10, 0x40, 0, 0, 0, 0, 0, 0x40, 0, 0, 0, 0, 0, 0, 0, 0, 0, 0, 0, 0, 0, 0, 0, 0, 0, 0, 0,
     0x40, 0, 0x38, 0, 1, 0, 0, 0, 0, 0, 0, 0, 1, 0, 0, 0, 5, 0, 0, 0, 0, 0, 0, 0, 0, 0, 0, 0, 0,
     0x10, 0x40, 0, 0, 0, 0, 0, 0, 0, 0, 0, 0, 0, 0, 0, 0x78, 0, 0, 0, 0, 0, 0, 0, 0x78, 0, 0, 0,
     0, 0, 0, 0, 0, 0, 0, 0, 0, 0, 0, 0]"

lemma elf_demo_ehdr: "length elf_demo = 120" "e_phoff (ehdr_of elf_demo) = 64" "e_phnum (ehdr_of elf_demo) = 1"
  "elf_header_error elf_demo = None"
  by (simp_all add: elf_demo_def ehdr_of_def elf_header_error_def Let_def)

lemma elf_demo_phdr:
  "phdrs_from 1 64 elf_demo = Some [\<lparr>p_type = 1, p_flags = 5, p_offset = 0, p_vaddr = 0x401000, p_filesz = 120, p_memsz = 120\<rparr>]"
  by (simp add: phdr_at_def elf_demo_def Let_def)

theorem elf_load_reads_in_bounds_witness:
  "elf_header_error elf_demo = None \<and> brights_elf_load elf_demo paging_demo \<noteq> None"
proof -
  have "brights_elf_load elf_demo paging_demo \<noteq> None"
    by (rule elf_load_reads_in_bounds [THEN conjunct1])
      (use elf_demo_phdr in \<open>auto simp: elf_demo_ehdr phdr_no_wrap_def simp del: phdrs_from.simps\<close>)
  then show ?thesis using elf_demo_ehdr(4) by blast
qed

text \<open>The range check of the program header table is done in 64-bit arithmetic: a header whose table
  offset plus size passes \<open>2^64\<close> is accepted, and the loader then reads outside the file.\<close>
theorem elf_phoff_overflow_escapes:
  assumes "elf_header_error buf = None" "2 ^ 64 \<le> unat (e_phoff (ehdr_of buf)) + unat (e_phnum (ehdr_of buf)) * 56"
    "length buf < 2 ^ 63"
  shows "brights_elf_load buf s = None"
proof -
  have "unat (e_phnum (ehdr_of buf)) * 56 < 2 ^ 22" using phnum_bound [of buf] by simp
  moreover have "(2 :: nat) ^ 64 = 2 ^ 63 + 2 ^ 63" "(2 :: nat) ^ 22 < 2 ^ 63" by simp_all
  ultimately have o: "length buf < unat (e_phoff (ehdr_of buf))" using assms(2,3) by linarith
  have "unat (e_phnum (ehdr_of buf)) \<noteq> 0"
    using assms(1) by (auto simp: elf_header_error_def Let_def unat_eq_0 split: if_splits)
  then obtain n where "unat (e_phnum (ehdr_of buf)) = Suc n" using not0_implies_Suc by blast
  then have "phdrs_from (unat (e_phnum (ehdr_of buf))) (unat (e_phoff (ehdr_of buf))) buf = None"
    using o by (simp add: phdr_at_def)
  then show ?thesis using assms(1) by (simp add: brights_elf_load_def Let_def)
qed

definition elf_bad_phoff :: "u8 list" where
  "elf_bad_phoff =
    [0x7F, 0x45, 0x4C, 0x46, 2, 1, 0, 0, 0, 0, 0, 0, 0, 0, 0, 0, 2, 0, 0x3E, 0, 1, 0, 0, 0, 0,
     0x10, 0x40, 0, 0, 0, 0, 0, 0xF0, 0xFF, 0xFF, 0xFF, 0xFF, 0xFF, 0xFF, 0xFF, 0, 0, 0, 0, 0, 0,
     0, 0, 0, 0, 0, 0, 0x40, 0, 0x38, 0, 1, 0, 0, 0, 0, 0, 0, 0]"

lemma elf_bad_phoff_ehdr: "length elf_bad_phoff = 64" "e_phoff (ehdr_of elf_bad_phoff) = 0xFFFFFFFFFFFFFFF0"
  "e_phnum (ehdr_of elf_bad_phoff) = 1" "elf_header_error elf_bad_phoff = None"
  by (simp_all add: elf_bad_phoff_def ehdr_of_def elf_header_error_def Let_def)

theorem elf_phoff_overflow_escapes_witness:
  "elf_header_error elf_bad_phoff = None \<and> brights_elf_load elf_bad_phoff paging_demo = None"
  using elf_phoff_overflow_escapes [OF elf_bad_phoff_ehdr(4)] by (simp add: elf_bad_phoff_ehdr)

end
