(* ===== verification/Proc.thy ===== *)
theory Proc
  imports Kernel_Prelude Paths Vfs Syshook Paging Elf
begin

text \<open>
  Processes, \<open>kernel/proc.c\<close>: the table of 64 processes, the pid index and the bitmap of used slots,
  with the components its operations call: the virtual file system, the page tables (with the
  page allocator) and the system-call hooks.

  A pointer to a process is its slot. A store outside the array \<open>pid_to_index\<close> of 256 entries, and an
  ELF read outside the file, is the result \<open>None\<close>. \<open>brights_enter_user_from_syscall\<close> does not return;
  \<open>brights_proc_exec_continue\<close> gives the arguments it is called with.
\<close>

datatype proc_state = ProcUnused | ProcRunnable | ProcRunning | ProcSleeping | ProcZombie

record regs =
  r15 :: u64
  r14 :: u64
  r13 :: u64
  r12 :: u64
  r11 :: u64
  r10 :: u64
  r9 :: u64
  r8 :: u64
  rbp :: u64
  rdi :: u64
  rsi :: u64
  rdx :: u64
  rcx :: u64
  rbx :: u64
  rax :: u64
  rip :: u64
  cs :: u64
  rflags :: u64
  rsp :: u64
  ss :: u64

record proc_info =
  pr_pid :: u32
  pr_ppid :: u32
  pr_state :: proc_state
  pr_name :: string
  pr_exit_code :: int
  pr_fds :: fdtable
  pr_cwd :: string
  pr_is_user :: bool
  pr_cr3 :: u64
  pr_user_entry :: u64
  pr_user_stack_top :: u64
  pr_brk :: u64
  pr_brk_start :: u64
  pr_kernel_stack :: u64
  pr_ctx :: regs

record procs =
  proc_table :: "proc_info list"
  pid_to_index :: "u32 list"
  free_slots_bitmap :: u64
  next_pid :: u32
  current_pid :: u32
  k_vfs :: vfs
  k_paging :: paging
  k_hooks :: syshook

definition BRIGHTS_PROC_MAX :: nat where "BRIGHTS_PROC_MAX = 64"
definition BRIGHTS_PROC_NAME_LEN :: nat where "BRIGHTS_PROC_NAME_LEN = 32"
definition BRIGHTS_PROC_CWD_LEN :: nat where "BRIGHTS_PROC_CWD_LEN = 128"
definition BRIGHTS_PROC_KSTACK_SIZE :: u64 where "BRIGHTS_PROC_KSTACK_SIZE = 8192"

definition proc_str_copy :: "nat \<Rightarrow> string \<Rightarrow> string" where
  "proc_str_copy cap src = take (cap - 1) src"

definition upd_proc :: "nat \<Rightarrow> (proc_info \<Rightarrow> proc_info) \<Rightarrow> procs \<Rightarrow> procs" where
  "upd_proc i g s = s\<lparr>proc_table := upd_at i g (proc_table s)\<rparr>"

definition no_fds :: fdtable where
  "no_fds = replicate VFS_MAX_FDS None"

subsection \<open>Finding processes\<close>

definition proc_get_by_pid :: "u32 \<Rightarrow> procs \<Rightarrow> nat option" where
  "proc_get_by_pid pid s =
     (if pid = 0 \<or> pid \<ge> 256 then None
      else
        (let idx = pid_to_index s ! unat pid in
         if unat idx \<ge> BRIGHTS_PROC_MAX then None
         else if pr_pid (proc_table s ! unat idx) \<noteq> pid \<or> pr_state (proc_table s ! unat idx) = ProcUnused then None
         else Some (unat idx)))"

definition proc_get_current :: "procs \<Rightarrow> nat option" where
  "proc_get_current s = proc_get_by_pid (current_pid s) s"

definition proc_find_free_slot :: "procs \<Rightarrow> int" where
  "proc_find_free_slot s =
     (let bitmap = NOT (free_slots_bitmap s) in if bitmap = 0 then -1 else int (ctz bitmap))"

definition proc_mark_slot_used :: "nat \<Rightarrow> procs \<Rightarrow> procs" where
  "proc_mark_slot_used slot s = s\<lparr>free_slots_bitmap := bit_on slot (free_slots_bitmap s)\<rparr>"

text \<open>The scan by pid that the operations on user processes use.\<close>

definition proc_scan :: "u32 \<Rightarrow> procs \<Rightarrow> nat option" where
  "proc_scan pid s = first_idx (\<lambda>p. pr_pid p = pid \<and> pr_state p \<noteq> ProcUnused) (proc_table s)"

definition proc_first_unused :: "procs \<Rightarrow> nat option" where
  "proc_first_unused s = first_idx (\<lambda>p. pr_state p = ProcUnused) (proc_table s)"

subsection \<open>Creating processes\<close>

definition brights_proc_init :: "procs \<Rightarrow> procs" where
  "brights_proc_init s =
     s\<lparr>free_slots_bitmap := 0,
       pid_to_index := map (\<lambda>_. of_nat BRIGHTS_PROC_MAX) (pid_to_index s),
       proc_table := map (\<lambda>p. p\<lparr>pr_pid := 0, pr_ppid := 0, pr_state := ProcUnused, pr_name := [], pr_exit_code := 0,
         pr_fds := no_fds, pr_cwd := [slash], pr_is_user := False, pr_cr3 := 0, pr_user_entry := 0,
         pr_user_stack_top := 0, pr_brk := 0, pr_brk_start := 0, pr_kernel_stack := 0\<rparr>) (proc_table s),
       next_pid := 1, current_pid := 0\<rparr>"

text \<open>The working directory of a new process: the parent's, or the root.\<close>

definition inherited_cwd :: "procs \<Rightarrow> string" where
  "inherited_cwd s =
     (case proc_get_current s of
        None \<Rightarrow> [slash]
      | Some i \<Rightarrow> proc_str_copy BRIGHTS_PROC_CWD_LEN (pr_cwd (proc_table s ! i)))"

definition brights_proc_spawn_kernel :: "string option \<Rightarrow> procs \<Rightarrow> (procs \<times> int) option" where
  "brights_proc_spawn_kernel name s =
     (let slot = proc_find_free_slot s in
      if slot < 0 then Some (s, -1)
      else
        (let i = nat slot; pid = next_pid s;
             s1 = upd_proc i (\<lambda>p. p\<lparr>pr_pid := pid, pr_ppid := current_pid s, pr_state := ProcRunnable,
                    pr_exit_code := 0, pr_is_user := False, pr_cr3 := 0, pr_user_entry := 0, pr_user_stack_top := 0,
                    pr_brk := 0, pr_brk_start := 0, pr_kernel_stack := 0,
                    pr_name := proc_str_copy BRIGHTS_PROC_NAME_LEN (case name of None \<Rightarrow> ''kernel'' | Some n \<Rightarrow> n),
                    pr_fds := no_fds\<rparr>) (s\<lparr>next_pid := pid + 1\<rparr>);
             s2 = upd_proc i (\<lambda>p. p\<lparr>pr_cwd := inherited_cwd s1\<rparr>) s1
         in if unat pid \<ge> length (pid_to_index s) then None
            else Some (proc_mark_slot_used i (s2\<lparr>pid_to_index := (pid_to_index s2)[unat pid := of_nat i]\<rparr>), sint pid)))"

definition user_regs :: "u64 \<Rightarrow> u64 \<Rightarrow> regs" where
  "user_regs entry stack_top =
     \<lparr>r15 = 0, r14 = 0, r13 = 0, r12 = 0, r11 = 0, r10 = 0, r9 = 0, r8 = 0, rbp = 0, rdi = 0, rsi = 0, rdx = 0,
      rcx = 0, rbx = 0, rax = 0, rip = entry, cs = 0x2B, rflags = 0x202, rsp = stack_top, ss = 0x23\<rparr>"

text \<open>The kernel stack: one page of the allocator, \<open>kernel_stack\<close> 8192 bytes above it.\<close>

definition alloc_kstack :: "procs \<Rightarrow> procs \<times> u64" where
  "alloc_kstack s =
     (case brights_pmem_alloc_page (pg_pmem (k_paging s)) of
        (pm, page) \<Rightarrow>
          (s\<lparr>k_paging := (k_paging s)\<lparr>pg_pmem := pm\<rparr>\<rparr>, if page \<noteq> 0 then page + BRIGHTS_PROC_KSTACK_SIZE else 0))"

definition brights_proc_spawn_user :: "string option \<Rightarrow> u64 \<Rightarrow> u64 \<Rightarrow> procs \<Rightarrow> procs \<times> int" where
  "brights_proc_spawn_user name entry stack_top s =
     (case proc_first_unused s of
        None \<Rightarrow> (s, -1)
      | Some i \<Rightarrow>
          (let pid = next_pid s;
               s1 = upd_proc i (\<lambda>p. p\<lparr>pr_pid := pid, pr_ppid := current_pid s, pr_state := ProcRunnable,
                      pr_exit_code := 0, pr_is_user := True, pr_user_entry := entry, pr_user_stack_top := stack_top,
                      pr_brk := 0, pr_brk_start := 0\<rparr>) (s\<lparr>next_pid := pid + 1\<rparr>);
               (pg, cr3) = brights_paging_create_address_space (k_paging s1);
               s2 = upd_proc i (\<lambda>p. p\<lparr>pr_cr3 := cr3\<rparr>) (s1\<lparr>k_paging := pg\<rparr>);
               (s3, kst) = alloc_kstack s2;
               s4 = upd_proc i (\<lambda>p. p\<lparr>pr_kernel_stack := kst,
                      pr_name := proc_str_copy BRIGHTS_PROC_NAME_LEN (case name of None \<Rightarrow> ''user'' | Some n \<Rightarrow> n),
                      pr_fds := no_fds\<rparr>) s3;
               s5 = upd_proc i (\<lambda>p. p\<lparr>pr_cwd := inherited_cwd s4, pr_ctx := user_regs entry stack_top\<rparr>) s4
           in (s5, sint pid)))"

definition brights_proc_fork :: "procs \<Rightarrow> procs \<times> int" where
  "brights_proc_fork s =
     (case proc_get_current s of
        None \<Rightarrow> (s, -1)
      | Some pi \<Rightarrow>
          (case proc_first_unused s of
             None \<Rightarrow> (s, -1)
           | Some ci \<Rightarrow>
               (let parent = proc_table s ! pi; pid = next_pid s;
                    s1 = upd_proc ci (\<lambda>p. p\<lparr>pr_pid := pid, pr_ppid := pr_pid parent, pr_state := ProcRunnable,
                           pr_exit_code := 0, pr_name := proc_str_copy BRIGHTS_PROC_NAME_LEN (pr_name parent),
                           pr_cwd := proc_str_copy BRIGHTS_PROC_CWD_LEN (pr_cwd parent),
                           pr_is_user := pr_is_user parent, pr_fds := pr_fds parent\<rparr>) (s\<lparr>next_pid := pid + 1\<rparr>);
                    (pg, cr3) = (if pr_is_user parent \<and> pr_cr3 parent \<noteq> 0
                                 then brights_paging_clone_address_space (pr_cr3 parent) (k_paging s1)
                                 else (k_paging s1, 0));
                    s2 = upd_proc ci (\<lambda>p. p\<lparr>pr_cr3 := cr3\<rparr>) (s1\<lparr>k_paging := pg\<rparr>)
                in if pr_is_user parent \<and> pr_cr3 parent \<noteq> 0 \<and> cr3 = 0
                   then (upd_proc ci (\<lambda>p. p\<lparr>pr_state := ProcUnused\<rparr>) s2, -1)
                   else
                     (let (s3, kst) = alloc_kstack s2
                      in (upd_proc ci (\<lambda>p. p\<lparr>pr_user_entry := pr_user_entry parent,
                            pr_user_stack_top := pr_user_stack_top parent, pr_brk := pr_brk parent,
                            pr_brk_start := pr_brk_start parent, pr_kernel_stack := kst,
                            pr_ctx := (pr_ctx parent)\<lparr>rax := 0\<rparr>\<rparr>) s3, sint pid)))))"

subsection \<open>State, information and accessors\<close>

definition brights_proc_set_state :: "u32 \<Rightarrow> proc_state \<Rightarrow> procs \<Rightarrow> procs \<times> int" where
  "brights_proc_set_state pid state s =
     (case proc_get_by_pid pid s of
        None \<Rightarrow> (s, -1)
      | Some i \<Rightarrow> (upd_proc i (\<lambda>p. p\<lparr>pr_state := state\<rparr>) s, 0))"

definition brights_proc_count :: "proc_state \<Rightarrow> procs \<Rightarrow> nat" where
  "brights_proc_count state s = length (filter (\<lambda>p. pr_state p = state) (proc_table s))"

definition brights_proc_total :: "procs \<Rightarrow> nat" where
  "brights_proc_total s = length (filter (\<lambda>p. pr_state p \<noteq> ProcUnused) (proc_table s))"

definition brights_proc_info_at :: "u32 \<Rightarrow> procs \<Rightarrow> proc_info option \<times> int" where
  "brights_proc_info_at index s =
     (if unat index \<ge> BRIGHTS_PROC_MAX then (None, -1)
      else let p = proc_table s ! unat index in (Some p, if pr_state p = ProcUnused then -1 else 0))"

definition brights_proc_get_by_pid :: "u32 \<Rightarrow> procs \<Rightarrow> proc_info option" where
  "brights_proc_get_by_pid pid s =
     (if pid = 0 then None else map_option (\<lambda>i. proc_table s ! i) (proc_scan pid s))"

definition brights_proc_current :: "procs \<Rightarrow> u32" where
  "brights_proc_current s = current_pid s"

definition brights_proc_set_current :: "u32 \<Rightarrow> procs \<Rightarrow> procs" where
  "brights_proc_set_current pid s = s\<lparr>current_pid := pid\<rparr>"

definition brights_proc_fd_table :: "procs \<Rightarrow> fdtable option" where
  "brights_proc_fd_table s = map_option (\<lambda>i. pr_fds (proc_table s ! i)) (proc_get_current s)"

definition brights_proc_get_cwd :: "procs \<Rightarrow> string" where
  "brights_proc_get_cwd s =
     (case proc_get_current s of None \<Rightarrow> [slash] | Some i \<Rightarrow> pr_cwd (proc_table s ! i))"

definition brights_proc_set_cwd :: "string option \<Rightarrow> procs \<Rightarrow> procs \<times> int" where
  "brights_proc_set_cwd path s =
     (case path of
        None \<Rightarrow> (s, -1)
      | Some p \<Rightarrow>
          (case proc_get_current s of
             None \<Rightarrow> (s, -1)
           | Some i \<Rightarrow> (upd_proc i (\<lambda>q. q\<lparr>pr_cwd := proc_str_copy BRIGHTS_PROC_CWD_LEN p\<rparr>) s, 0)))"

text \<open>Absolute and relative paths end in the same normalisation; the buffer \<open>combined\<close> has 256 bytes.\<close>

definition combined_path :: "string \<Rightarrow> string \<Rightarrow> string" where
  "combined_path cwd path =
     (let c1 = take 254 cwd;
          c2 = (if c1 \<noteq> [] \<and> last c1 \<noteq> slash \<and> path \<noteq> [] \<and> length c1 < 254 then c1 @ [slash] else c1)
      in c2 @ take (254 - length c2) path)"

definition brights_proc_resolve_path :: "string option \<Rightarrow> int \<Rightarrow> procs \<Rightarrow> string option" where
  "brights_proc_resolve_path path cap s =
     (case path of
        None \<Rightarrow> None
      | Some p \<Rightarrow>
          (if cap < 2 then None
           else if cchar (cstring_of p) 0 = slash then vfs_normalize p (nat cap)
           else vfs_normalize (combined_path (brights_proc_get_cwd s) (cstring_of p)) (nat cap)))"

definition brights_proc_get_cr3 :: "u32 \<Rightarrow> procs \<Rightarrow> u64" where
  "brights_proc_get_cr3 pid s = (case proc_scan pid s of None \<Rightarrow> 0 | Some i \<Rightarrow> pr_cr3 (proc_table s ! i))"

definition brights_proc_set_brk :: "u32 \<Rightarrow> u64 \<Rightarrow> procs \<Rightarrow> procs \<times> int" where
  "brights_proc_set_brk pid new_brk s =
     (case proc_scan pid s of
        None \<Rightarrow> (s, -1)
      | Some i \<Rightarrow>
          (upd_proc i (\<lambda>p. p\<lparr>pr_brk_start := (if pr_brk_start p = 0 then new_brk else pr_brk_start p),
                            pr_brk := new_brk\<rparr>) s, 0))"

definition brights_proc_get_brk :: "u32 \<Rightarrow> procs \<Rightarrow> u64" where
  "brights_proc_get_brk pid s = (case proc_scan pid s of None \<Rightarrow> 0 | Some i \<Rightarrow> pr_brk (proc_table s ! i))"

definition brights_proc_kernel_stack :: "procs \<Rightarrow> u64" where
  "brights_proc_kernel_stack s =
     (case proc_get_current s of None \<Rightarrow> 0 | Some i \<Rightarrow> pr_kernel_stack (proc_table s ! i))"

subsection \<open>Exit and exec\<close>

definition close_fd :: "nat option \<Rightarrow> vfs \<Rightarrow> vfs" where
  "close_fd f v = (case f of None \<Rightarrow> v | Some fi \<Rightarrow> fst (brights_vfs2_close fi v))"

definition release_memory :: "proc_info \<Rightarrow> paging \<Rightarrow> paging" where
  "release_memory p pg =
     (let pg1 = (if pr_cr3 p \<noteq> 0 \<and> pr_is_user p \<and> pr_cr3 p \<noteq> brights_paging_get_cr3 pg
                 then brights_paging_destroy_address_space (pr_cr3 p) pg else pg)
      in if pr_kernel_stack p \<noteq> 0 then pg_free_page (pr_kernel_stack p - BRIGHTS_PROC_KSTACK_SIZE) pg1 else pg1)"

definition brights_proc_exit :: "u32 \<Rightarrow> int \<Rightarrow> procs \<Rightarrow> procs \<times> int" where
  "brights_proc_exit pid exit_code s =
     (if pid = 0 then (s, -1)
      else case proc_scan pid s of
        None \<Rightarrow> (s, -1)
      | Some i \<Rightarrow>
          (let p = proc_table s ! i in
           (upd_proc i (\<lambda>p. p\<lparr>pr_fds := map (\<lambda>_. None) (pr_fds p), pr_state := ProcZombie, pr_exit_code := exit_code\<rparr>)
              (s\<lparr>k_vfs := fold close_fd (pr_fds p) (k_vfs s),
                 k_hooks := brights_syshook_cleanup_pid pid (k_hooks s),
                 k_paging := release_memory p (k_paging s)\<rparr>), 0)))"

definition brights_proc_exec :: "u8 list \<Rightarrow> procs \<Rightarrow> (procs \<times> elf64_load_info option) option" where
  "brights_proc_exec elf_data s =
     (case proc_get_current s of
        None \<Rightarrow> Some (s, None)
      | Some i \<Rightarrow>
          (if \<not> pr_is_user (proc_table s ! i) then Some (s, None)
           else
             (let pg1 = brights_paging_destroy_address_space (pr_cr3 (proc_table s ! i)) (k_paging s);
                  (pg2, cr3) = brights_paging_create_address_space pg1;
                  s1 = upd_proc i (\<lambda>p. p\<lparr>pr_cr3 := cr3\<rparr>) (s\<lparr>k_paging := pg2\<rparr>)
              in if cr3 = 0 then Some (s1, None)
                 else case brights_elf_load elf_data pg2 of
                   None \<Rightarrow> None
                 | Some (pg3, Inl e) \<Rightarrow>
                     (let pg4 = brights_paging_destroy_address_space cr3 pg3
                      in Some (upd_proc i (\<lambda>p. p\<lparr>pr_cr3 := brights_paging_get_cr3 pg4\<rparr>) (s1\<lparr>k_paging := pg4\<rparr>), None))
                 | Some (pg3, Inr info) \<Rightarrow>
                     Some (upd_proc i (\<lambda>p. p\<lparr>pr_user_entry := ei_entry info, pr_user_stack_top := ei_stack_top info,
                             pr_brk := 0, pr_brk_start := 0, pr_ctx := user_regs (ei_entry info) (ei_stack_top info)\<rparr>)
                             (s1\<lparr>k_paging := pg3\<rparr>), Some info))))"

definition brights_proc_exec_continue :: "procs \<Rightarrow> (u64 \<times> u64 \<times> u64) option" where
  "brights_proc_exec_continue s =
     (case proc_get_current s of
        None \<Rightarrow> None
      | Some i \<Rightarrow>
          (let p = proc_table s ! i in
           if \<not> pr_is_user p then None else Some (pr_user_entry p, pr_user_stack_top p, pr_cr3 p)))"

subsection \<open>The pid index\<close>

text \<open>
  What holds while only kernel processes exist: a process in use has a marked slot, a pid below the
  next one, and the index leads from its pid to its slot.
\<close>

definition proc_inv :: "procs \<Rightarrow> bool" where
  "proc_inv s \<longleftrightarrow> length (proc_table s) = 64 \<and> length (pid_to_index s) = 256 \<and> 0 < unat (next_pid s)
     \<and> (\<forall>i<64. pr_state (proc_table s ! i) \<noteq> ProcUnused \<longrightarrow>
          bit (free_slots_bitmap s) i \<and> 0 < unat (pr_pid (proc_table s ! i))
          \<and> unat (pr_pid (proc_table s ! i)) < min 256 (unat (next_pid s))
          \<and> pid_to_index s ! unat (pr_pid (proc_table s ! i)) = of_nat i)"

lemma unat_u32_small: "i < 64 \<Longrightarrow> unat (of_nat i :: u32) = i"
  by (simp add: unat_of_nat)

lemma proc_get_by_pid_iff:
  assumes "proc_inv s"
  shows "proc_get_by_pid pid s = Some i \<longleftrightarrow>
    i < 64 \<and> pid \<noteq> 0 \<and> pr_pid (proc_table s ! i) = pid \<and> pr_state (proc_table s ! i) \<noteq> ProcUnused"
proof
  assume "proc_get_by_pid pid s = Some i"
  then show "i < 64 \<and> pid \<noteq> 0 \<and> pr_pid (proc_table s ! i) = pid \<and> pr_state (proc_table s ! i) \<noteq> ProcUnused"
    by (auto simp: proc_get_by_pid_def BRIGHTS_PROC_MAX_def Let_def split: if_splits)
next
  assume a: "i < 64 \<and> pid \<noteq> 0 \<and> pr_pid (proc_table s ! i) = pid \<and> pr_state (proc_table s ! i) \<noteq> ProcUnused"
  then have p: "unat pid < 256" "pid_to_index s ! unat pid = of_nat i" using assms by (auto simp: proc_inv_def)
  then have "\<not> 256 \<le> pid" by (simp add: word_le_nat_alt)
  then show "proc_get_by_pid pid s = Some i"
    using a p(2) unat_u32_small [of i] by (simp add: proc_get_by_pid_def BRIGHTS_PROC_MAX_def Let_def)
qed

lemma proc_get_by_pid_cong:
  assumes "proc_inv s" "proc_inv s'"
    and "\<And>i. i < 64 \<Longrightarrow> (pr_pid (proc_table s' ! i) = pid \<and> pr_state (proc_table s' ! i) \<noteq> ProcUnused)
      \<longleftrightarrow> (pr_pid (proc_table s ! i) = pid \<and> pr_state (proc_table s ! i) \<noteq> ProcUnused)"
  shows "proc_get_by_pid pid s' = proc_get_by_pid pid s"
proof -
  have "proc_get_by_pid pid s' = Some i \<longleftrightarrow> proc_get_by_pid pid s = Some i" for i
    unfolding proc_get_by_pid_iff [OF assms(1)] proc_get_by_pid_iff [OF assms(2)] using assms(3) [of i] by blast
  then show ?thesis by (metis not_None_eq)
qed

lemma proc_find_free_slot_Some:
  assumes "free_slots_bitmap s \<noteq> - 1"
  shows "proc_find_free_slot s = int (ctz (NOT (free_slots_bitmap s)))"
    "ctz (NOT (free_slots_bitmap s)) < 64" "\<not> bit (free_slots_bitmap s) (ctz (NOT (free_slots_bitmap s)))"
proof -
  have n: "NOT (free_slots_bitmap s) \<noteq> 0" using assms not_zero_iff by blast
  then show "proc_find_free_slot s = int (ctz (NOT (free_slots_bitmap s)))" by (simp add: proc_find_free_slot_def Let_def)
  show "ctz (NOT (free_slots_bitmap s)) < 64" using ctz_bit(2) [OF n] by simp
  show "\<not> bit (free_slots_bitmap s) (ctz (NOT (free_slots_bitmap s)))"
    using ctz_bit [OF n] by (simp add: bit_not_iff)
qed

lemma sint_pid: "unat (p :: u32) < 256 \<Longrightarrow> sint p = int (unat p)"
proof -
  assume a: "unat p < 256"
  have u: "uint p = int (unat p)" by simp
  then have "uint p < 256" "0 \<le> uint p" using a by linarith+
  moreover have "(256 :: int) < 2 ^ 31" "- (2 ^ 31) \<le> (0 :: int)" by simp_all
  ultimately have "- (2 ^ 31) \<le> uint p" "uint p < 2 ^ 31" by linarith+
  then have "signed_take_bit 31 (uint p) = uint p" by (rule signed_take_bit_int_eq_self)
  moreover have "sint p = signed_take_bit (LENGTH(32) - Suc 0) (uint p)" by (rule sint_uint)
  then have "sint p = signed_take_bit 31 (uint p)" by simp
  ultimately show ?thesis unfolding u [symmetric] by (simp only:)
qed

lemma upd_proc_simps [simp]:
  "proc_table (upd_proc i g s) = upd_at i g (proc_table s)" "pid_to_index (upd_proc i g s) = pid_to_index s"
  "free_slots_bitmap (upd_proc i g s) = free_slots_bitmap s" "next_pid (upd_proc i g s) = next_pid s"
  "current_pid (upd_proc i g s) = current_pid s" "k_vfs (upd_proc i g s) = k_vfs s"
  "k_paging (upd_proc i g s) = k_paging s" "k_hooks (upd_proc i g s) = k_hooks s"
  by (simp_all add: upd_proc_def)

lemma spawn_kernel_eq:
  assumes inv: "proc_inv s" and room: "free_slots_bitmap s \<noteq> - 1" and pid: "unat (next_pid s) < 256"
  defines "i \<equiv> ctz (NOT (free_slots_bitmap s))"
  shows "\<exists>s' p. brights_proc_spawn_kernel name s = Some (s', int (unat (next_pid s)))
    \<and> proc_table s' = (proc_table s)[i := p] \<and> pr_pid p = next_pid s \<and> pr_ppid p = current_pid s
    \<and> pr_state p = ProcRunnable \<and> pr_fds p = no_fds \<and> \<not> pr_is_user p
    \<and> pid_to_index s' = (pid_to_index s)[unat (next_pid s) := of_nat i]
    \<and> free_slots_bitmap s' = bit_on i (free_slots_bitmap s) \<and> next_pid s' = next_pid s + 1
    \<and> k_vfs s' = k_vfs s \<and> k_paging s' = k_paging s \<and> k_hooks s' = k_hooks s"
  using assms sint_pid [OF pid] proc_find_free_slot_Some(1,2) [OF room]
  by (simp add: brights_proc_spawn_kernel_def Let_def proc_inv_def proc_mark_slot_used_def upd_at_def)
    (rule exI, rule conjI [OF refl], simp)

lemma spawn_kernel_inv:
  assumes inv: "proc_inv s" and room: "free_slots_bitmap s \<noteq> - 1" and pid: "unat (next_pid s) < 256"
  defines "i \<equiv> ctz (NOT (free_slots_bitmap s))"
  shows "\<exists>s'. brights_proc_spawn_kernel name s = Some (s', int (unat (next_pid s))) \<and> proc_inv s'
    \<and> pr_state (proc_table s ! i) = ProcUnused
    \<and> proc_get_by_pid (next_pid s) s' = Some i \<and> pr_state (proc_table s' ! i) = ProcRunnable
    \<and> pr_ppid (proc_table s' ! i) = current_pid s
    \<and> (\<forall>q. q \<noteq> next_pid s \<longrightarrow> proc_get_by_pid q s' = proc_get_by_pid q s)
    \<and> (\<forall>j. j \<noteq> i \<longrightarrow> proc_table s' ! j = proc_table s ! j)"
proof -
  note F = proc_find_free_slot_Some(2,3) [OF room, folded i_def]
  note I = inv [unfolded proc_inv_def]
  obtain s' p where s': "brights_proc_spawn_kernel name s = Some (s', int (unat (next_pid s)))"
    "proc_table s' = (proc_table s)[i := p]" "pr_pid p = next_pid s" "pr_ppid p = current_pid s" "pr_state p = ProcRunnable"
    "pid_to_index s' = (pid_to_index s)[unat (next_pid s) := of_nat i]"
    "free_slots_bitmap s' = bit_on i (free_slots_bitmap s)" "next_pid s' = next_pid s + 1"
    using spawn_kernel_eq [OF inv room pid, of name] unfolding i_def by blast
  have un: "pr_state (proc_table s ! i) = ProcUnused" using I F by blast
  have nx: "unat (next_pid s + 1) = unat (next_pid s) + 1" using pid by (simp add: unat_word_ariths)
  have at: "proc_table s' ! j = (if j = i then p else proc_table s ! j)" if "j < 64" for j
    using that I by (simp add: s'(2) nth_list_update)
  have inv': "proc_inv s'"
    unfolding proc_inv_def
  proof (intro conjI allI impI)
    show "length (proc_table s') = 64" "length (pid_to_index s') = 256" "0 < unat (next_pid s')"
      using I nx by (simp_all add: s'(2,6,8))
    fix j :: nat assume j: "j < 64" "pr_state (proc_table s' ! j) \<noteq> ProcUnused"
    have "bit (free_slots_bitmap s') j \<and> 0 < unat (pr_pid (proc_table s' ! j))
      \<and> unat (pr_pid (proc_table s' ! j)) < min 256 (unat (next_pid s'))
      \<and> pid_to_index s' ! unat (pr_pid (proc_table s' ! j)) = of_nat j"
    proof (cases "j = i")
      case True
      then show ?thesis using I pid nx F(1) by (simp add: at s' bit_bit_on)
    next
      case False
      then have "bit (free_slots_bitmap s) j" "0 < unat (pr_pid (proc_table s ! j))"
        "unat (pr_pid (proc_table s ! j)) < min 256 (unat (next_pid s))"
        "pid_to_index s ! unat (pr_pid (proc_table s ! j)) = of_nat j" using I j at by auto
      then show ?thesis using False j(1) nx by (auto simp: at s'(6,7,8) bit_bit_on)
    qed
    then show "bit (free_slots_bitmap s') j" "0 < unat (pr_pid (proc_table s' ! j))"
      "unat (pr_pid (proc_table s' ! j)) < min 256 (unat (next_pid s'))"
      "pid_to_index s' ! unat (pr_pid (proc_table s' ! j)) = of_nat j" by blast+
  qed
  have g: "proc_get_by_pid (next_pid s) s' = Some i"
    using proc_get_by_pid_iff [OF inv'] at [OF F(1)] s' F(1) I by (auto simp: unat_gt_0)
  have o: "proc_get_by_pid q s' = proc_get_by_pid q s" if "q \<noteq> next_pid s" for q
    by (rule proc_get_by_pid_cong [OF inv inv']) (use at that un s' in auto)
  show ?thesis using s'(1,2) inv' un g o at [OF F(1)] s'(4,5) by auto
qed

subsection \<open>Closing the files of a process\<close>

lemma close_fd_pool:
  assumes "pool_inv v" "\<forall>fi. f = Some fi \<longrightarrow> fi < 64"
  shows "pool_inv (close_fd f v)"
    and "f = Some fi \<Longrightarrow> \<not> f_in_use (file_pool (close_fd f v) ! fi)"
    and "\<not> f_in_use (file_pool v ! g) \<Longrightarrow> g < 64 \<Longrightarrow> \<not> f_in_use (file_pool (close_fd f v) ! g)"
    and "f \<noteq> Some g \<Longrightarrow> file_pool (close_fd f v) ! g = file_pool v ! g"
  using assms
  by (auto simp: close_fd_def brights_vfs2_close_def brights_vfs2_file_free_def pool_inv_def bit_bit_off nth_upd_at
      split: option.splits)

lemma close_fds_pool:
  assumes "pool_inv v" "\<forall>fi. Some fi \<in> set fs \<longrightarrow> fi < 64"
  shows "pool_inv (fold close_fd fs v)"
    and "Some fi \<in> set fs \<or> \<not> f_in_use (file_pool v ! fi) \<Longrightarrow> fi < 64 \<Longrightarrow> \<not> f_in_use (file_pool (fold close_fd fs v) ! fi)"
    and "Some g \<notin> set fs \<Longrightarrow> file_pool (fold close_fd fs v) ! g = file_pool v ! g"
proof -
  have "pool_inv (fold close_fd fs v)
    \<and> ((Some fi \<in> set fs \<or> \<not> f_in_use (file_pool v ! fi)) \<and> fi < 64 \<longrightarrow> \<not> f_in_use (file_pool (fold close_fd fs v) ! fi))
    \<and> (Some g \<notin> set fs \<longrightarrow> file_pool (fold close_fd fs v) ! g = file_pool v ! g)"
    using assms
  proof (induction fs arbitrary: v)
    case (Cons f fs)
    have f: "\<forall>fi. f = Some fi \<longrightarrow> fi < 64" using Cons.prems(2) by auto
    note C = close_fd_pool [OF Cons.prems(1) f]
    from Cons.IH [OF C(1)] Cons.prems(2)
    have IH: "pool_inv (fold close_fd fs (close_fd f v))"
      "(Some fi \<in> set fs \<or> \<not> f_in_use (file_pool (close_fd f v) ! fi)) \<and> fi < 64
        \<longrightarrow> \<not> f_in_use (file_pool (fold close_fd fs (close_fd f v)) ! fi)"
      "Some g \<notin> set fs \<longrightarrow> file_pool (fold close_fd fs (close_fd f v)) ! g = file_pool (close_fd f v) ! g" by auto
    show ?case using IH C(2) [of fi] C(3) [of fi] C(4) [of g] by auto
  qed simp
  then show "pool_inv (fold close_fd fs v)"
    "Some fi \<in> set fs \<or> \<not> f_in_use (file_pool v ! fi) \<Longrightarrow> fi < 64 \<Longrightarrow> \<not> f_in_use (file_pool (fold close_fd fs v) ! fi)"
    "Some g \<notin> set fs \<Longrightarrow> file_pool (fold close_fd fs v) ! g = file_pool v ! g" by blast+
qed

subsection \<open>Resolving paths against the working directory\<close>

lemma last_join:
  assumes "clean_segs smax segs" "segs \<noteq> []"
  shows "last (join segs) \<noteq> slash"
proof -
  obtain ss x where segs: "segs = ss @ [x]" using assms(2) by (metis append_butlast_last_id)
  then have "clean_seg smax x" using assms(1) by (simp add: clean_segs_def)
  then have x: "x \<noteq> []" "slash \<notin> set x" by (auto simp: clean_seg_def)
  then have "last x \<noteq> slash" by (metis last_in_set)
  then show ?thesis using x(1) by (simp add: segs join_snoc)
qed

lemma combined_fields:
  assumes "clean_segs 63 segs" "length (join segs) + 1 + length p \<le> 254"
  shows "path_fields (combined_path (join segs) p) = segs @ path_fields p"
proof -
  have t: "take 254 (join segs) = join segs" using assms(2) by simp
  consider "segs = []" | "p = []" | "segs \<noteq> []" "p \<noteq> []" by blast
  then show ?thesis
  proof cases
    case 1
    then have "combined_path (join segs) p = slash # p"
      using assms(2) by (simp add: combined_path_def join_def Let_def)
    then show ?thesis using 1 by simp
  next
    case 2
    then show ?thesis using t path_fields_join [OF assms(1)] by (simp add: combined_path_def Let_def)
  next
    case 3
    have "join segs \<noteq> []" by (simp add: join_def)
    then have "combined_path (join segs) p = join segs @ slash # p"
      using last_join [OF assms(1) 3(1)] 3 assms(2) t by (simp add: combined_path_def Let_def)
    then show ?thesis using path_fields_join [OF assms(1)] by (simp add: path_fields_append)
  qed
qed

lemma combined_cstr: "cstr cwd \<Longrightarrow> cstr p \<Longrightarrow> cstr (combined_path cwd p)"
  by (auto simp: combined_path_def Let_def NUL_def)

subsection \<open>Properties\<close>

text \<open>While only kernel processes exist and a slot is free, spawning one returns the next pid, puts a
  runnable process with the caller as parent into a slot that was unused, makes exactly that pid
  resolve to it, and leaves every other process and every other pid alone. Once the pid counter
  has passed 255 the same call stores outside the pid index.\<close>
theorem proc_spawn_kernel_registers:
  assumes inv: "proc_inv s" and room: "free_slots_bitmap s \<noteq> - 1"
  defines "i \<equiv> ctz (NOT (free_slots_bitmap s))"
  shows "if unat (next_pid s) < 256
    then \<exists>s'. brights_proc_spawn_kernel name s = Some (s', int (unat (next_pid s))) \<and> proc_inv s'
      \<and> pr_state (proc_table s ! i) = ProcUnused
      \<and> proc_get_by_pid (next_pid s) s' = Some i \<and> pr_state (proc_table s' ! i) = ProcRunnable
      \<and> pr_ppid (proc_table s' ! i) = current_pid s
      \<and> (\<forall>q. q \<noteq> next_pid s \<longrightarrow> proc_get_by_pid q s' = proc_get_by_pid q s)
      \<and> (\<forall>j. j \<noteq> i \<longrightarrow> proc_table s' ! j = proc_table s ! j)
    else brights_proc_spawn_kernel name s = None"
proof (cases "unat (next_pid s) < 256")
  case True
  then show ?thesis using spawn_kernel_inv [OF inv room True] by (simp add: i_def)
next
  case False
  then show ?thesis
    using inv proc_find_free_slot_Some(1) [OF room]
    by (simp add: brights_proc_spawn_kernel_def Let_def proc_inv_def)
qed

definition blank_regs :: regs where
  "blank_regs = user_regs 0 0"

definition blank_proc :: proc_info where
  "blank_proc = \<lparr>pr_pid = 0, pr_ppid = 0, pr_state = ProcUnused, pr_name = [], pr_exit_code = 0, pr_fds = no_fds,
     pr_cwd = [slash], pr_is_user = False, pr_cr3 = 0, pr_user_entry = 0, pr_user_stack_top = 0, pr_brk = 0,
     pr_brk_start = 0, pr_kernel_stack = 0, pr_ctx = blank_regs\<rparr>"

definition procs_demo :: procs where
  "procs_demo = brights_proc_init \<lparr>proc_table = replicate 64 blank_proc, pid_to_index = replicate 256 0,
     free_slots_bitmap = 0, next_pid = 1, current_pid = 0, k_vfs = vfs_demo, k_paging = paging_demo,
     k_hooks = \<lparr>hook_table = [], sh_initialized = True, sh_created = 0, sh_dispatched = 0\<rparr>\<rparr>"

lemma procs_demo_fields:
  "proc_table procs_demo = replicate 64 blank_proc" "pid_to_index procs_demo = replicate 256 64"
  "free_slots_bitmap procs_demo = 0" "next_pid procs_demo = 1" "current_pid procs_demo = 0"
  "k_vfs procs_demo = vfs_demo" "k_paging procs_demo = paging_demo"
  by (simp_all add: procs_demo_def brights_proc_init_def blank_proc_def BRIGHTS_PROC_MAX_def)

lemma procs_demo_inv: "proc_inv procs_demo" "free_slots_bitmap procs_demo \<noteq> - 1"
  by (simp_all add: proc_inv_def procs_demo_fields) (simp add: blank_proc_def)

theorem proc_spawn_kernel_registers_witness:
  "\<exists>s'. brights_proc_spawn_kernel (Some ''init'') procs_demo = Some (s', 1)
    \<and> proc_get_by_pid 1 s' = Some (ctz (NOT (free_slots_bitmap procs_demo)))"
proof -
  have "unat (next_pid procs_demo) < 256" by (simp add: procs_demo_fields)
  then show ?thesis
    using proc_spawn_kernel_registers [OF procs_demo_inv, of "Some ''init''"] procs_demo_fields(4) by auto
qed

text \<open>C17: exiting a process that exists turns it into a zombie with the given code, empties its descriptor
  table, closes every file that was in it and no other, leaves no system-call hook owned by it, and does not
  touch any other process; exiting an unknown pid is an error without effect.\<close>
theorem proc_exit_releases:
  assumes "pid \<noteq> 0" "pool_inv (k_vfs s)" "sh_initialized (k_hooks s)"
    "\<forall>p\<in>set (proc_table s). \<forall>fi. Some fi \<in> set (pr_fds p) \<longrightarrow> fi < 64"
  shows "case proc_scan pid s of
     None \<Rightarrow> brights_proc_exit pid code s = (s, -1)
   | Some i \<Rightarrow> \<exists>s'. brights_proc_exit pid code s = (s', 0)
       \<and> pr_state (proc_table s' ! i) = ProcZombie \<and> pr_exit_code (proc_table s' ! i) = code
       \<and> (\<forall>f\<in>set (pr_fds (proc_table s' ! i)). f = None)
       \<and> pool_inv (k_vfs s')
       \<and> (\<forall>fi<64. if Some fi \<in> set (pr_fds (proc_table s ! i)) then \<not> f_in_use (file_pool (k_vfs s') ! fi)
            else file_pool (k_vfs s') ! fi = file_pool (k_vfs s) ! fi)
       \<and> (\<forall>h\<in>set (hook_table (k_hooks s')). \<not> (hk_active h \<and> owner_pid h = pid))
       \<and> (\<forall>j. j \<noteq> i \<longrightarrow> proc_table s' ! j = proc_table s ! j)"
proof (cases "proc_scan pid s")
  case None
  then show ?thesis by (simp add: brights_proc_exit_def)
next
  case (Some i)
  then have i: "i < length (proc_table s)" by (simp add: proc_scan_def first_idx_Some)
  then have fds: "\<forall>fi. Some fi \<in> set (pr_fds (proc_table s ! i)) \<longrightarrow> fi < 64" using assms(4) nth_mem by blast
  note C = close_fds_pool [OF assms(2) fds]
  have "\<not> (hk_active h \<and> owner_pid h = pid)" if "h \<in> set (hook_table (brights_syshook_cleanup_pid pid (k_hooks s)))" for h
    using that assms(1,3) by (auto simp: brights_syshook_cleanup_pid_def hook_release_def split: if_splits)
  then show ?thesis
    using Some i assms(1) C by (auto simp: brights_proc_exit_def Let_def)
qed

definition procs_one :: procs where
  "procs_one = procs_demo\<lparr>proc_table := (replicate 64 blank_proc)[0 := blank_proc\<lparr>pr_pid := 7, pr_state := ProcRunning,
       pr_fds := no_fds[0 := Some 0]\<rparr>], k_vfs := fst (brights_vfs2_file_alloc vfs_demo)\<rparr>"

theorem proc_exit_releases_witness:
  "\<exists>s'. brights_proc_exit 7 3 procs_one = (s', 0) \<and> pr_exit_code (proc_table s' ! 0) = 3
    \<and> \<not> f_in_use (file_pool (k_vfs s') ! 0) \<and> brights_proc_exit 8 3 procs_one = (procs_one, -1)"
proof -
  have pool: "pool_inv (k_vfs procs_one)"
    using file_alloc_ok(1) [OF vfs_demo_state(3)] by (simp add: procs_one_def prod_eq_iff)
  have hk: "sh_initialized (k_hooks procs_one)" by (simp add: procs_one_def procs_demo_def brights_proc_init_def)
  have r: "replicate 64 blank_proc = blank_proc # replicate 63 blank_proc" by (simp add: numeral_eq_Suc)
  have n: "no_fds = None # replicate 31 None" by (simp add: no_fds_def VFS_MAX_FDS_def numeral_eq_Suc)
  have t: "proc_table procs_one = blank_proc\<lparr>pr_pid := 7, pr_state := ProcRunning, pr_fds := Some 0 # replicate 31 None\<rparr>
      # replicate 63 blank_proc"
    unfolding procs_one_def by (simp add: r n)
  have fds: "\<forall>p\<in>set (proc_table procs_one). \<forall>fi. Some fi \<in> set (pr_fds p) \<longrightarrow> fi < 64"
    unfolding t by (auto simp: blank_proc_def no_fds_def)
  have sc: "proc_scan 7 procs_one = Some 0" "proc_scan 8 procs_one = None"
    unfolding proc_scan_def t by (simp_all add: first_idx_None blank_proc_def)
  have f0: "Some 0 \<in> set (pr_fds (proc_table procs_one ! 0))" unfolding t by simp
  obtain s' where s': "brights_proc_exit 7 3 procs_one = (s', 0)" "pr_exit_code (proc_table s' ! 0) = 3"
    "\<forall>fi<64. if Some fi \<in> set (pr_fds (proc_table procs_one ! 0)) then \<not> f_in_use (file_pool (k_vfs s') ! fi)
       else file_pool (k_vfs s') ! fi = file_pool (k_vfs procs_one) ! fi"
    using proc_exit_releases [OF _ pool hk fds, of 7 3] sc(1) by auto
  have "\<not> f_in_use (file_pool (k_vfs s') ! 0)" using s'(3) f0 by (auto dest: spec [of _ 0])
  then show ?thesis using s' proc_exit_releases [OF _ pool hk fds, of 8 3] sc(2) by auto
qed

text \<open>C18: a resolved path is always canonical. An absolute path resolves independently of the process; a
  relative path resolves like its fields appended to those of the working directory, as long as
  the two fit into the buffer of 254 characters.\<close>
theorem proc_resolve_path_spec:
  assumes cap: "2 \<le> cap"
  shows "(\<forall>q. brights_proc_resolve_path (Some p) cap s = Some q \<longrightarrow> canonical 63 (nat cap) q)
    \<and> (cchar (cstring_of p) 0 = slash \<longrightarrow> brights_proc_resolve_path (Some p) cap s = vfs_normalize p (nat cap))
    \<and> (cchar (cstring_of p) 0 \<noteq> slash \<and> clean_segs 63 segs \<and> brights_proc_get_cwd s = join segs
        \<and> length (join segs) + 1 + length (cstring_of p) \<le> 254 \<longrightarrow>
        brights_proc_resolve_path (Some p) cap s =
          (case resolve_segs 63 (path_fields (cstring_of p)) segs of
             None \<Rightarrow> None
           | Some out \<Rightarrow> if length (join out) < nat cap then Some (join out) else None))"
proof (intro conjI impI allI)
  have c2: "2 \<le> nat cap" using cap by simp
  note canon = path_normalizer.norm_canon [OF vfs_path_normalizer [OF c2]]
  show "canonical 63 (nat cap) q" if "brights_proc_resolve_path (Some p) cap s = Some q" for q
    using that canon cap by (auto simp: brights_proc_resolve_path_def split: if_splits)
  show "brights_proc_resolve_path (Some p) cap s = vfs_normalize p (nat cap)" if "cchar (cstring_of p) 0 = slash"
    using that cap by (simp add: brights_proc_resolve_path_def)
  assume a: "cchar (cstring_of p) 0 \<noteq> slash \<and> clean_segs 63 segs \<and> brights_proc_get_cwd s = join segs
        \<and> length (join segs) + 1 + length (cstring_of p) \<le> 254"
  have cs: "cstring_of (combined_path (join segs) (cstring_of p)) = combined_path (join segs) (cstring_of p)"
    using a cstr_join [of 63 segs] by (intro cstring_of_id combined_cstr) simp_all
  have "resolve_segs 63 (path_fields (combined_path (join segs) (cstring_of p))) [] = resolve_segs 63 (path_fields (cstring_of p)) segs"
    using a resolve_segs_id [of 63 "[]" segs] by (simp add: combined_fields resolve_segs_append)
  then show "brights_proc_resolve_path (Some p) cap s =
      (case resolve_segs 63 (path_fields (cstring_of p)) segs of
         None \<Rightarrow> None | Some out \<Rightarrow> if length (join out) < nat cap then Some (join out) else None)"
    using a cap by (simp add: brights_proc_resolve_path_def vfs_normalize_eq [OF c2] cs)
qed

theorem proc_resolve_path_spec_witness:
  "brights_proc_resolve_path (Some ''bin/../etc'') 128 procs_demo = Some ''/etc''"
proof -
  have cwd: "brights_proc_get_cwd procs_demo = join []"
    by (simp add: brights_proc_get_cwd_def proc_get_current_def proc_get_by_pid_def procs_demo_fields join_def)
  show ?thesis
    using proc_resolve_path_spec [of 128 "''bin/../etc''" procs_demo "[]"] cwd
    by (simp add: path_fields_def join_def cstr_def NUL_def cchar_def clean_segs_def)
qed

text \<open>User processes are not entered into the pid index and their slot is not marked used. The first
  user process after initialisation exists, but when it is current the kernel does not find it, so
  it has no descriptor table and cannot fork; and spawning a kernel process overwrites it.\<close>
theorem proc_user_process_lost:
  assumes len: "length (proc_table s0) = 64" "length (pid_to_index s0) = 256"
    and sp: "brights_proc_spawn_user name entry stk (brights_proc_init s0) = (s1, pid)"
  shows "pid = 1 \<and> brights_proc_get_by_pid 1 s1 \<noteq> None
    \<and> brights_proc_fd_table (brights_proc_set_current 1 s1) = None
    \<and> brights_proc_fork (brights_proc_set_current 1 s1) = (brights_proc_set_current 1 s1, -1)
    \<and> (\<exists>s2. brights_proc_spawn_kernel kname s1 = Some (s2, 2) \<and> brights_proc_get_by_pid 1 s2 = None)"
proof -
  define g where "g = (\<lambda>p. p\<lparr>pr_pid := (0 :: u32), pr_ppid := 0, pr_state := ProcUnused, pr_name := [], pr_exit_code := 0,
         pr_fds := no_fds, pr_cwd := [slash], pr_is_user := False, pr_cr3 := 0, pr_user_entry := 0,
         pr_user_stack_top := 0, pr_brk := 0, pr_brk_start := 0, pr_kernel_stack := 0\<rparr> :: proc_info)"
  have g: "pr_state (g p) = ProcUnused" for p by (simp add: g_def)
  obtain t ts where t: "proc_table s0 = t # ts" using len(1) by (cases "proc_table s0") auto
  have init: "proc_table (brights_proc_init s0) = g t # map g ts"
    "pid_to_index (brights_proc_init s0) = replicate 256 64" "free_slots_bitmap (brights_proc_init s0) = 0"
    "next_pid (brights_proc_init s0) = 1"
    using t len(2) by (simp_all add: brights_proc_init_def g_def BRIGHTS_PROC_MAX_def map_replicate_const)
  have "proc_first_unused (brights_proc_init s0) = Some 0" by (simp add: proc_first_unused_def init g)
  then obtain p where p: "pid = 1" "proc_table s1 = p # map g ts" "pr_pid p = 1" "pr_state p = ProcRunnable"
    "pid_to_index s1 = replicate 256 64" "free_slots_bitmap s1 = 0" "next_pid s1 = 2"
    using sp init
    by (auto simp: brights_proc_spawn_user_def alloc_kstack_def upd_at_def Let_def split: prod.splits)
  have cur: "proc_get_current (brights_proc_set_current 1 s1) = None"
    by (simp add: proc_get_current_def proc_get_by_pid_def brights_proc_set_current_def p(5) BRIGHTS_PROC_MAX_def)
  have ctz0: "ctz (NOT (0 :: u64)) = 0" by (rule ctz_eqI) simp_all
  have sl: "proc_find_free_slot s1 = 0" by (simp add: proc_find_free_slot_def p(6) ctz0 [simplified])
  have sg: "sint (2 :: u32) = 2" by simp
  obtain s2 q where s2: "brights_proc_spawn_kernel kname s1 = Some (s2, 2)" "proc_table s2 = q # map g ts" "pr_pid q = 2"
    using sl p(2,5,7) sg by (simp add: brights_proc_spawn_kernel_def Let_def proc_mark_slot_used_def upd_at_def)
  have "first_idx (\<lambda>p. pr_pid p = 1 \<and> pr_state p \<noteq> ProcUnused) (map g ts) = None" using g by (auto simp: first_idx_None)
  then have "brights_proc_get_by_pid 1 s2 = None" by (simp add: brights_proc_get_by_pid_def proc_scan_def s2)
  moreover have "brights_proc_get_by_pid 1 s1 \<noteq> None" by (simp add: brights_proc_get_by_pid_def proc_scan_def p)
  ultimately show ?thesis
    using p(1) cur s2(1) by (simp add: brights_proc_fd_table_def brights_proc_fork_def)
qed

theorem proc_user_process_lost_witness:
  "\<exists>s1. brights_proc_spawn_user None 0x401000 0x7FFFF000 (brights_proc_init procs_demo) = (s1, 1)
    \<and> brights_proc_fork (brights_proc_set_current 1 s1) = (brights_proc_set_current 1 s1, -1)"
proof -
  obtain s1 pid where sp: "brights_proc_spawn_user None 0x401000 0x7FFFF000 (brights_proc_init procs_demo) = (s1, pid)"
    by fastforce
  have "length (proc_table procs_demo) = 64" "length (pid_to_index procs_demo) = 256" by (simp_all add: procs_demo_fields)
  then show ?thesis using sp proc_user_process_lost [OF _ _ sp] by auto
qed

end
