(* ===== verification/Sched.thy ===== *)
theory Sched
  imports Kernel_Prelude Proc
begin

text \<open>
  The scheduler, \<open>kernel/sched.c\<close>: an array of slots, each the index of a process in the process
  table, a bitmap of runnable slots and a round-robin search for the next one.

  The trap frame of the interrupted process is \<open>None\<close> for a null pointer; its vector and error code
  are never touched here and are left out. The stack pointer of the task state segment is \<open>tss_rsp0\<close>.
  Slot numbers and indices are natural numbers below 64, except in the bitmap search, whose mask
  arithmetic is on 64-bit words: a shift by 64 or more is undefined in C and is taken as the x86
  shift instruction does it, modulo 64.
\<close>

record sched =
  sched_ticks :: u64
  sched_dispatches :: u64
  pid_to_slot :: "nat list"
  slot_count :: nat
  runnable_bitmap :: u64
  current_slot :: nat
  sched_pid :: u32
  total_runnable :: u32
  current_trap_frame :: "regs option"
  timeslice_remaining :: u32
  tss_rsp0 :: u64
  s_procs :: procs

definition BRIGHTS_SCHED_MAX_PROC :: nat where "BRIGHTS_SCHED_MAX_PROC = 64"
definition BRIGHTS_SCHED_QUANTUM :: u32 where "BRIGHTS_SCHED_QUANTUM = 10"

definition get_proc_by_slot :: "nat \<Rightarrow> sched \<Rightarrow> nat option" where
  "get_proc_by_slot slot s = (if slot \<ge> slot_count s then None else Some (pid_to_slot s ! slot))"

definition proc_at :: "nat \<Rightarrow> sched \<Rightarrow> proc_info" where
  "proc_at i s = proc_table (s_procs s) ! i"

definition upd_sproc :: "nat \<Rightarrow> (proc_info \<Rightarrow> proc_info) \<Rightarrow> sched \<Rightarrow> sched" where
  "upd_sproc i g s = s\<lparr>s_procs := upd_proc i g (s_procs s)\<rparr>"

text \<open>\<open>None\<close> is the result \<open>0xFFFFFFFF\<close>.\<close>

definition shl1 :: "nat \<Rightarrow> u64" where
  "shl1 n = push_bit (n mod 64) 1"

definition find_next_runnable :: "nat \<Rightarrow> sched \<Rightarrow> nat option" where
  "find_next_runnable start s =
     (let bitmap = runnable_bitmap s in
      if bitmap = 0 then None
      else
        (let high = (if start > 0 \<and> start < 64 then bitmap AND NOT (shl1 start - 1) else 0) in
         if high \<noteq> 0 then Some (ctz high)
         else
           (let low = bitmap AND (shl1 start - 1) in
            if low \<noteq> 0 then Some (ctz low) else Some (ctz bitmap))))"

definition brights_sched_init :: "sched \<Rightarrow> sched" where
  "brights_sched_init s =
     s\<lparr>sched_ticks := 0, sched_dispatches := 0, runnable_bitmap := 0, current_slot := 0, sched_pid := 0,
       total_runnable := 0, slot_count := 0, timeslice_remaining := BRIGHTS_SCHED_QUANTUM\<rparr>"

definition brights_sched_ticks :: "sched \<Rightarrow> u64" where
  "brights_sched_ticks s = sched_ticks s"

definition brights_sched_dispatches :: "sched \<Rightarrow> u64" where
  "brights_sched_dispatches s = sched_dispatches s"

definition brights_sched_mark_dispatch :: "sched \<Rightarrow> sched" where
  "brights_sched_mark_dispatch s =
     s\<lparr>sched_dispatches := sched_dispatches s + 1, timeslice_remaining := BRIGHTS_SCHED_QUANTUM\<rparr>"

subsection \<open>Adding and removing processes\<close>

definition brights_sched_add_process :: "u32 \<Rightarrow> sched \<Rightarrow> sched \<times> int" where
  "brights_sched_add_process pid s =
     (if pid = 0 \<or> slot_count s \<ge> BRIGHTS_SCHED_MAX_PROC then (s, -1)
      else if \<exists>i\<in>set [0..<slot_count s]. (of_nat (pid_to_slot s ! i) :: u32) = pid then (s, 0)
      else case first_idx (\<lambda>p. pr_pid p = pid) (take BRIGHTS_SCHED_MAX_PROC (proc_table (s_procs s))) of
        None \<Rightarrow> (s, -1)
      | Some i \<Rightarrow>
          (s\<lparr>slot_count := slot_count s + 1,
             pid_to_slot := (pid_to_slot s)[slot_count s := i],
             runnable_bitmap := bit_on (slot_count s) (runnable_bitmap s),
             total_runnable := total_runnable s + 1\<rparr>, 0))"

text \<open>The compaction loop moves the entries behind slot \<open>i\<close> one place down.\<close>

definition compact_slots :: "nat \<Rightarrow> nat \<Rightarrow> nat list \<Rightarrow> nat list" where
  "compact_slots i n xs = fold (\<lambda>j xs. xs[j := xs ! (j + 1)]) [i..<n - 1] xs"

definition brights_sched_remove_process :: "u32 \<Rightarrow> sched \<Rightarrow> sched \<times> int" where
  "brights_sched_remove_process pid s =
     (case first_idx (\<lambda>i. pr_pid (proc_at (pid_to_slot s ! i) s) = pid) [0..<slot_count s] of
        None \<Rightarrow> (s, -1)
      | Some i \<Rightarrow>
          (let n = slot_count s - 1 in
           (s\<lparr>total_runnable := (if bit (runnable_bitmap s) i then total_runnable s - 1 else total_runnable s),
              runnable_bitmap := bit_off i (runnable_bitmap s),
              pid_to_slot := compact_slots i (slot_count s) (pid_to_slot s),
              slot_count := n,
              current_slot := (if current_slot s \<ge> n \<and> n > 0 then 0 else current_slot s)\<rparr>, 0)))"

subsection \<open>Switching\<close>

text \<open>Making slot \<open>next\<close> current: the tail that \<open>schedule\<close> and \<open>yield\<close> share.\<close>

definition dispatch_slot :: "nat \<Rightarrow> nat \<Rightarrow> sched \<Rightarrow> sched" where
  "dispatch_slot next i s =
     brights_sched_mark_dispatch
       (upd_sproc i (\<lambda>p. p\<lparr>pr_state := ProcRunning\<rparr>) (s\<lparr>current_slot := next, sched_pid := pr_pid (proc_at i s)\<rparr>))"

definition brights_sched_schedule :: "sched \<Rightarrow> sched \<times> int" where
  "brights_sched_schedule s =
     (if total_runnable s = 0 then (s\<lparr>sched_pid := 0\<rparr>, -1)
      else case find_next_runnable (current_slot s) s of
        None \<Rightarrow> (s\<lparr>sched_pid := 0\<rparr>, -1)
      | Some next \<Rightarrow>
          (case get_proc_by_slot next s of
             None \<Rightarrow> (s\<lparr>sched_pid := 0\<rparr>, -1)
           | Some i \<Rightarrow> (dispatch_slot next i s, 0)))"

definition brights_sched_current_pid :: "sched \<Rightarrow> u32" where
  "brights_sched_current_pid s = sched_pid s"

definition brights_sched_set_trap_frame :: "regs option \<Rightarrow> sched \<Rightarrow> sched" where
  "brights_sched_set_trap_frame tf s = s\<lparr>current_trap_frame := tf\<rparr>"

definition brights_sched_get_trap_frame :: "sched \<Rightarrow> regs option" where
  "brights_sched_get_trap_frame s = current_trap_frame s"

definition save_context :: "nat \<Rightarrow> sched \<Rightarrow> sched" where
  "save_context slot s =
     (case get_proc_by_slot slot s of
        None \<Rightarrow> s
      | Some i \<Rightarrow>
          (case current_trap_frame s of
             None \<Rightarrow> s
           | Some tf \<Rightarrow>
               upd_sproc i (\<lambda>p. p\<lparr>pr_ctx :=
                 \<lparr>r15 = r15 tf, r14 = r14 tf, r13 = r13 tf, r12 = r12 tf, r11 = r11 tf, r10 = r10 tf, r9 = r9 tf,
                  r8 = r8 tf, rbp = rbp tf, rdi = rdi tf, rsi = rsi tf, rdx = rdx tf, rcx = rcx tf, rbx = rbx tf,
                  rax = rax tf, rip = rip tf, cs = cs tf, rflags = rflags tf, rsp = rsp tf, ss = ss tf\<rparr>\<rparr>) s))"

definition restore_context :: "nat \<Rightarrow> sched \<Rightarrow> sched" where
  "restore_context slot s =
     (case get_proc_by_slot slot s of
        None \<Rightarrow> s
      | Some i \<Rightarrow>
          (case current_trap_frame s of
             None \<Rightarrow> s
           | Some tf \<Rightarrow>
               (let p = proc_at i s; c = pr_ctx p;
                    s1 = s\<lparr>current_trap_frame := Some
                           \<lparr>r15 = r15 c, r14 = r14 c, r13 = r13 c, r12 = r12 c, r11 = r11 c, r10 = r10 c, r9 = r9 c,
                            r8 = r8 c, rbp = rbp c, rdi = rdi c, rsi = rsi c, rdx = rdx c, rcx = rcx c, rbx = rbx c,
                            rax = rax c, rip = rip c, cs = cs c, rflags = rflags c, rsp = rsp c, ss = ss c\<rparr>\<rparr>;
                    s2 = (if pr_is_user p \<and> pr_cr3 p \<noteq> 0
                          then s1\<lparr>s_procs := (s_procs s1)\<lparr>k_paging :=
                                 brights_paging_set_cr3 (pr_cr3 p) (k_paging (s_procs s1))\<rparr>\<rparr> else s1)
                in if pr_is_user p \<and> pr_kernel_stack p > 0 then s2\<lparr>tss_rsp0 := pr_kernel_stack p\<rparr> else s2)))"

definition brights_sched_yield :: "sched \<Rightarrow> sched \<times> int" where
  "brights_sched_yield s =
     (if sched_pid s = 0 \<or> total_runnable s \<le> 1 then (s, -1)
      else
        (let s1 = save_context (current_slot s) s;
             s2 = (case get_proc_by_slot (current_slot s1) s1 of
                     None \<Rightarrow> s1
                   | Some i \<Rightarrow>
                       (if pr_state (proc_at i s1) = ProcRunning
                        then upd_sproc i (\<lambda>p. p\<lparr>pr_state := ProcRunnable\<rparr>) s1 else s1))
         in case find_next_runnable (current_slot s2 + 1) s2 of
              None \<Rightarrow> (s2, -1)
            | Some next \<Rightarrow>
                (case get_proc_by_slot next s2 of
                   None \<Rightarrow> (s2, -1)
                 | Some i \<Rightarrow> (restore_context next (dispatch_slot next i s2), 0))))"

definition brights_sched_tick :: "sched \<Rightarrow> sched" where
  "brights_sched_tick s =
     (let s1 = s\<lparr>sched_ticks := sched_ticks s + 1\<rparr> in
      if sched_pid s1 \<noteq> 0 then
        (let s2 = s1\<lparr>timeslice_remaining := timeslice_remaining s1 - 1\<rparr>
         in if timeslice_remaining s2 = 0 then fst (brights_sched_yield s2) else s2)
      else s1)"

subsection \<open>The round-robin search\<close>

lemma upt_split: "a \<le> m \<Longrightarrow> m < b \<Longrightarrow> [a..<b] = [a..<m] @ m # [Suc m..<b]"
  by (metis le_add_diff_inverse less_imp_le upt_add_eq_append upt_conv_Cons)

lemma ctz_hd_filter:
  assumes "(w :: u64) \<noteq> 0"
  shows "\<exists>rest. filter (bit w) [0..<64] = ctz w # rest"
proof -
  note c = ctz_bit [OF assms]
  have "[0..<64] = [0..<ctz w] @ ctz w # [Suc (ctz w)..<64]" using c(2) by (intro upt_split) simp_all
  then show ?thesis using c(1) ctz_least [of _ w] by (simp add: filter_empty_conv)
qed

lemma shl1_mask: "n < 64 \<Longrightarrow> shl1 n - 1 = mask n"
  by (simp add: shl1_def mask_eq_exp_minus_1 push_bit_eq_mult)

lemma filter_high: "n \<le> 64 \<Longrightarrow> filter (bit ((w :: u64) AND NOT (mask n))) [0..<64] = filter (bit w) [n..<64]"
proof -
  assume n: "n \<le> 64"
  have s: "[0..<64] = [0..<n] @ [n..<64]" using n by (metis le_add_diff_inverse upt_add_eq_append zero_le add_0)
  have "filter (bit (w AND NOT (mask n))) [0..<n] = []" by (simp add: filter_empty_conv bit_simps)
  moreover have "filter (bit (w AND NOT (mask n))) [n..<64] = filter (bit w) [n..<64]"
    by (rule filter_cong) (auto simp: bit_simps)
  ultimately show ?thesis by (simp add: s)
qed

lemma filter_low: "n \<le> 64 \<Longrightarrow> filter (bit ((w :: u64) AND mask n)) [0..<64] = filter (bit w) [0..<n]"
proof -
  assume n: "n \<le> 64"
  have s: "[0..<64] = [0..<n] @ [n..<64]" using n by (metis le_add_diff_inverse upt_add_eq_append zero_le add_0)
  have "filter (bit (w AND mask n)) [n..<64] = []" by (simp add: filter_empty_conv bit_simps)
  moreover have "filter (bit (w AND mask n)) [0..<n] = filter (bit w) [0..<n]"
    using n by (intro filter_cong) (auto simp: bit_simps)
  ultimately show ?thesis by (simp add: s)
qed

text \<open>The reference: the first runnable slot in cyclic order from \<open>start\<close>.\<close>

definition next_in_turn :: "nat \<Rightarrow> u64 \<Rightarrow> nat option" where
  "next_in_turn start bitmap =
     (case filter (bit bitmap) ([start..<64] @ [0..<start]) of [] \<Rightarrow> None | j # _ \<Rightarrow> Some j)"

lemma find_next_runnable_eq:
  assumes "start < 64"
  shows "find_next_runnable start s = next_in_turn start (runnable_bitmap s)"
proof (cases "runnable_bitmap s = 0")
  case True
  then show ?thesis by (simp add: find_next_runnable_def next_in_turn_def Let_def)
next
  case False
  let ?b = "runnable_bitmap s"
  define high where "high = ?b AND NOT (mask start)"
  define low where "low = ?b AND mask start"
  have H: "filter (bit high) [0..<64] = filter (bit ?b) [start..<64]"
    and L: "filter (bit low) [0..<64] = filter (bit ?b) [0..<start]"
    using assms by (simp_all add: high_def low_def filter_high filter_low)
  show ?thesis
  proof (cases "high = 0")
    case False
    then obtain rest where "filter (bit ?b) [start..<64] = ctz high # rest" using ctz_hd_filter H by metis
    then have "next_in_turn start ?b = Some (ctz high)" by (simp add: next_in_turn_def)
    moreover have "find_next_runnable start s = Some (ctz high)"
    proof (cases "start = 0")
      case True
      then have "high = ?b" by (simp add: high_def)
      then show ?thesis using True \<open>?b \<noteq> 0\<close> by (simp add: find_next_runnable_def shl1_def Let_def)
    next
      case pos: False
      then show ?thesis
        using False \<open>?b \<noteq> 0\<close> assms unfolding high_def
        by (simp add: find_next_runnable_def shl1_mask Let_def)
    qed
    ultimately show ?thesis by simp
  next
    case True
    then have e: "filter (bit ?b) [start..<64] = []" using H by (simp add: filter_empty_conv)
    have "low \<noteq> 0"
    proof
      assume "low = 0"
      moreover have "?b = high OR low"
        unfolding high_def low_def by (rule bit_word_eqI) (auto simp: bit_simps)
      ultimately have "?b = 0" using True by simp
      then show False using \<open>?b \<noteq> 0\<close> by simp
    qed
    then obtain rest where "filter (bit ?b) [0..<start] = ctz low # rest" using ctz_hd_filter L by metis
    then have "next_in_turn start ?b = Some (ctz low)" using e by (simp add: next_in_turn_def)
    moreover have "find_next_runnable start s = Some (ctz low)"
      using True \<open>low \<noteq> 0\<close> \<open>?b \<noteq> 0\<close> assms unfolding high_def low_def
      by (simp add: find_next_runnable_def shl1_mask Let_def)
    ultimately show ?thesis by simp
  qed
qed

text \<open>The states in which every slot is runnable.\<close>

definition sched_inv :: "sched \<Rightarrow> bool" where
  "sched_inv s \<longleftrightarrow> slot_count s \<le> 64 \<and> slot_count s \<le> length (pid_to_slot s) \<and> current_slot s < slot_count s
     \<and> (\<forall>j<64. bit (runnable_bitmap s) j \<longleftrightarrow> j < slot_count s)
     \<and> unat (total_runnable s) = slot_count s \<and> sched_pid s \<noteq> 0
     \<and> (\<forall>j < slot_count s. pid_to_slot s ! j < length (proc_table (s_procs s)) \<and> pr_pid (proc_at (pid_to_slot s ! j) s) \<noteq> 0)"

lemma next_slot:
  assumes "\<forall>j<64. bit b j \<longleftrightarrow> j < n" "n \<le> 64" "c < n" "runnable_bitmap s = b"
  shows "find_next_runnable (c + 1) s = Some ((c + 1) mod n)"
proof (cases "c + 1 < 64")
  case True
  show ?thesis
  proof (cases "c + 1 < n")
    case lt: True
    then have "[c + 1..<64] = (c + 1) # [Suc (c + 1)..<64]" using assms(2) by (simp add: upt_conv_Cons)
    moreover have "bit b (c + 1)" using assms(1) True lt by blast
    ultimately show ?thesis using find_next_runnable_eq [OF True] assms(4) lt by (simp add: next_in_turn_def)
  next
    case False
    then have n: "n = c + 1" using assms(3) by simp
    have "filter (bit b) [c + 1..<64] = []" using assms(1) n by (auto simp: filter_empty_conv)
    moreover have "[0..<c + 1] = 0 # [1..<c + 1]" by (simp add: upt_conv_Cons)
    moreover have "bit b 0" using assms(1,3) by auto
    ultimately show ?thesis
      using find_next_runnable_eq [OF True] assms(4) n by (simp add: next_in_turn_def del: upt_Suc)
  qed
next
  case False
  then have c: "c = 63" "n = 64" using assms(2,3) by simp_all
  have b: "bit b 0" using assms(1) c by simp
  then have "b \<noteq> 0" by auto
  moreover have "ctz b = 0" using b by (intro ctz_eqI) simp_all
  ultimately show ?thesis using assms(4) c by (simp add: find_next_runnable_def shl1_def Let_def)
qed

subsection \<open>Yielding\<close>

lemma sched_invD:
  assumes "sched_inv s" "j < slot_count s"
  shows "get_proc_by_slot j s = Some (pid_to_slot s ! j)" "pid_to_slot s ! j < length (proc_table (s_procs s))"
    "pr_pid (proc_at (pid_to_slot s ! j) s) \<noteq> 0"
  using assms by (auto simp: sched_inv_def get_proc_by_slot_def)

lemma regs_eta:
  "\<lparr>r15 = r15 c, r14 = r14 c, r13 = r13 c, r12 = r12 c, r11 = r11 c, r10 = r10 c, r9 = r9 c, r8 = r8 c, rbp = rbp c,
    rdi = rdi c, rsi = rsi c, rdx = rdx c, rcx = rcx c, rbx = rbx c, rax = rax c, rip = rip c, cs = cs c,
    rflags = rflags c, rsp = rsp c, ss = ss c\<rparr> = (c :: regs)"
  by (cases c) simp

lemma save_context_eq:
  "get_proc_by_slot c s = Some i \<Longrightarrow> save_context c s =
     (case current_trap_frame s of None \<Rightarrow> s | Some tf \<Rightarrow> upd_sproc i (\<lambda>p. p\<lparr>pr_ctx := tf\<rparr>) s)"
  by (simp add: save_context_def regs_eta split: option.splits)

lemma restore_frame:
  "slot_count (restore_context c s) = slot_count s" "pid_to_slot (restore_context c s) = pid_to_slot s"
  "runnable_bitmap (restore_context c s) = runnable_bitmap s" "current_slot (restore_context c s) = current_slot s"
  "sched_pid (restore_context c s) = sched_pid s" "total_runnable (restore_context c s) = total_runnable s"
  "timeslice_remaining (restore_context c s) = timeslice_remaining s"
  "proc_table (s_procs (restore_context c s)) = proc_table (s_procs s)"
  "get_proc_by_slot c s = Some i \<Longrightarrow> current_trap_frame (restore_context c s) =
     (case current_trap_frame s of None \<Rightarrow> None | Some tf \<Rightarrow> Some (pr_ctx (proc_at i s)))"
  by (auto simp: restore_context_def regs_eta Let_def split: option.splits)

lemma upd_sproc_simps [simp]:
  "slot_count (upd_sproc i g s) = slot_count s" "pid_to_slot (upd_sproc i g s) = pid_to_slot s"
  "runnable_bitmap (upd_sproc i g s) = runnable_bitmap s" "current_slot (upd_sproc i g s) = current_slot s"
  "sched_pid (upd_sproc i g s) = sched_pid s" "total_runnable (upd_sproc i g s) = total_runnable s"
  "current_trap_frame (upd_sproc i g s) = current_trap_frame s"
  "proc_table (s_procs (upd_sproc i g s)) = upd_at i g (proc_table (s_procs s))"
  by (simp_all add: upd_sproc_def)

text \<open>The state with the interrupted process saved and put back among the runnable ones.\<close>

definition switched_out :: "nat \<Rightarrow> sched \<Rightarrow> proc_info" where
  "switched_out i s = (let p = proc_at i s;
     q = (case current_trap_frame s of None \<Rightarrow> p | Some tf \<Rightarrow> p\<lparr>pr_ctx := tf\<rparr>)
     in if pr_state p = ProcRunning then q\<lparr>pr_state := ProcRunnable\<rparr> else q)"

lemma yield_ok:
  assumes inv: "sched_inv s" and two: "2 \<le> slot_count s"
  defines "c \<equiv> current_slot s" and "n \<equiv> (current_slot s + 1) mod slot_count s"
  defines "i \<equiv> pid_to_slot s ! c" and "k \<equiv> pid_to_slot s ! n"
  shows "\<exists>s'. brights_sched_yield s = (s', 0) \<and> slot_count s' = slot_count s \<and> pid_to_slot s' = pid_to_slot s
    \<and> runnable_bitmap s' = runnable_bitmap s \<and> total_runnable s' = total_runnable s
    \<and> current_slot s' = n \<and> timeslice_remaining s' = BRIGHTS_SCHED_QUANTUM
    \<and> sched_pid s' = pr_pid (proc_at k s)
    \<and> proc_table (s_procs s') = upd_at k (\<lambda>p. p\<lparr>pr_state := ProcRunning\<rparr>) ((proc_table (s_procs s))[i := switched_out i s])
    \<and> current_trap_frame s' = (case current_trap_frame s of None \<Rightarrow> None
         | Some tf \<Rightarrow> Some (if k = i then tf else pr_ctx (proc_at k s)))"
proof -
  have n: "n < slot_count s" using two by (simp add: n_def)
  have c: "c < slot_count s" using inv by (simp add: sched_inv_def c_def)
  note C = sched_invD [OF inv c, folded i_def] and N = sched_invD [OF inv n, folded k_def]
  have tr: "\<not> total_runnable s \<le> 1" "sched_pid s \<noteq> 0" using inv two by (auto simp: sched_inv_def word_le_nat_alt)
  define s2 where "s2 = upd_sproc i (\<lambda>_. switched_out i s) s"
  have sv: "save_context c s = (case current_trap_frame s of None \<Rightarrow> s | Some tf \<Rightarrow> upd_sproc i (\<lambda>p. p\<lparr>pr_ctx := tf\<rparr>) s)"
    by (rule save_context_eq [OF C(1)])
  have at: "proc_at i (upd_sproc i g s) = g (proc_at i s)" for g using C(2) by (simp add: proc_at_def)
  have twice: "upd_sproc i g (upd_sproc i f s) = upd_sproc i (\<lambda>p. g (f p)) s" for f g
    using C(2) by (simp add: upd_sproc_def upd_proc_def upd_at_def)
  have same: "upd_sproc i g s = s2" if "g (proc_at i s) = switched_out i s" for g
    using that by (simp add: s2_def upd_sproc_def upd_proc_def upd_at_def proc_at_def)
  define f :: "proc_info \<Rightarrow> proc_info" where "f = (\<lambda>p. case current_trap_frame s of None \<Rightarrow> p | Some tf \<Rightarrow> p\<lparr>pr_ctx := tf\<rparr>)"
  have id: "upd_sproc i (\<lambda>p. p) s = s" by (simp add: upd_sproc_def upd_proc_def upd_at_def)
  have s1: "save_context c s = upd_sproc i f s" unfolding sv f_def by (simp add: id split: option.splits)
  have gs1: "get_proc_by_slot (current_slot (upd_sproc i f s)) (upd_sproc i f s) = Some i"
    using C(1) by (auto simp: get_proc_by_slot_def c_def split: if_splits)
  have st: "pr_state (f p) = pr_state p" for p by (simp add: f_def split: option.splits)
  have s2: "(case get_proc_by_slot (current_slot (save_context c s)) (save_context c s) of
       None \<Rightarrow> save_context c s
     | Some i \<Rightarrow> if pr_state (proc_at i (save_context c s)) = ProcRunning
         then upd_sproc i (\<lambda>p. p\<lparr>pr_state := ProcRunnable\<rparr>) (save_context c s) else save_context c s) = s2"
    unfolding s1 gs1 option.case at st twice
    by (auto intro!: same simp: switched_out_def f_def Let_def)
  have f2: "slot_count s2 = slot_count s" "pid_to_slot s2 = pid_to_slot s" "runnable_bitmap s2 = runnable_bitmap s"
    "current_slot s2 = c" "total_runnable s2 = total_runnable s" "current_trap_frame s2 = current_trap_frame s"
    "proc_table (s_procs s2) = (proc_table (s_procs s))[i := switched_out i s]"
    by (simp_all add: s2_def c_def upd_at_def)
  have nx: "find_next_runnable (c + 1) s2 = Some n"
    using next_slot [of "runnable_bitmap s" "slot_count s" c s2] inv c f2 by (simp add: sched_inv_def n_def c_def)
  have gp: "get_proc_by_slot n s2 = Some k" using N(1) f2 by (auto simp: get_proc_by_slot_def split: if_splits)
  have y: "brights_sched_yield s = (restore_context n (dispatch_slot n k s2), 0)"
    unfolding brights_sched_yield_def Let_def using tr s2 [unfolded c_def] nx gp f2(4)
    by (simp add: c_def)
  have gd: "get_proc_by_slot n (dispatch_slot n k s2) = Some k"
    using gp by (auto simp: dispatch_slot_def brights_sched_mark_dispatch_def get_proc_by_slot_def split: if_splits)
  have pk: "pr_pid (proc_at k s2) = pr_pid (proc_at k s)"
    using C(2) by (auto simp: proc_at_def f2 nth_list_update switched_out_def Let_def split: option.splits)
  have ck: "pr_ctx (proc_at k (dispatch_slot n k s2)) =
      (if k = i then case current_trap_frame s of None \<Rightarrow> pr_ctx (proc_at k s) | Some tf \<Rightarrow> tf else pr_ctx (proc_at k s))"
    using N(2) C(2)
    by (auto simp: proc_at_def dispatch_slot_def brights_sched_mark_dispatch_def f2 nth_list_update switched_out_def Let_def
        split: option.splits)
  show ?thesis
    unfolding y using restore_frame(9) [OF gd] pk ck
    by (auto simp: restore_frame dispatch_slot_def brights_sched_mark_dispatch_def f2 split: option.splits)
qed

lemma switched_out_pid: "pr_pid (switched_out i s) = pr_pid (proc_at i s)"
  by (simp add: switched_out_def Let_def split: option.splits)

lemma yield_pids:
  assumes "proc_table (s_procs s') = upd_at k (\<lambda>p. p\<lparr>pr_state := ProcRunning\<rparr>) ((proc_table (s_procs s))[i := switched_out i s])"
    and "j < length (proc_table (s_procs s))"
  shows "pr_pid (proc_at j s') = pr_pid (proc_at j s)"
proof -
  have "pr_pid ((proc_table (s_procs s))[i := switched_out i s] ! j) = pr_pid (proc_table (s_procs s) ! j)"
    using assms(2) switched_out_pid [of i s] by (cases "j = i") (simp_all add: proc_at_def)
  then show ?thesis using assms by (auto simp: proc_at_def nth_upd_at)
qed

lemma yield_inv:
  assumes "sched_inv s" "2 \<le> slot_count s" "brights_sched_yield s = (s', r)"
  shows "sched_inv s' \<and> slot_count s' = slot_count s \<and> pid_to_slot s' = pid_to_slot s
    \<and> current_slot s' = (current_slot s + 1) mod slot_count s \<and> timeslice_remaining s' = BRIGHTS_SCHED_QUANTUM
    \<and> sched_pid s' = pr_pid (proc_at (pid_to_slot s ! current_slot s') s)
    \<and> (\<forall>j < length (proc_table (s_procs s)). pr_pid (proc_at j s') = pr_pid (proc_at j s))
    \<and> length (proc_table (s_procs s')) = length (proc_table (s_procs s))"
proof -
  let ?n = "(current_slot s + 1) mod slot_count s" and ?i = "pid_to_slot s ! current_slot s"
  note Y = yield_ok [OF assms(1,2)]
  have t: "proc_table (s_procs s') = upd_at (pid_to_slot s ! ?n) (\<lambda>p. p\<lparr>pr_state := ProcRunning\<rparr>)
      ((proc_table (s_procs s))[?i := switched_out ?i s])" using Y assms(3) by auto
  have f: "slot_count s' = slot_count s" "pid_to_slot s' = pid_to_slot s" "runnable_bitmap s' = runnable_bitmap s"
    "total_runnable s' = total_runnable s" "current_slot s' = ?n" "timeslice_remaining s' = BRIGHTS_SCHED_QUANTUM"
    "sched_pid s' = pr_pid (proc_at (pid_to_slot s ! ?n) s)" using Y assms(3) by auto
  have n: "?n < slot_count s" using assms(2) by simp
  have len: "length (proc_table (s_procs s')) = length (proc_table (s_procs s))" by (simp add: t)
  have pids: "pr_pid (proc_at j s') = pr_pid (proc_at j s)" if "j < length (proc_table (s_procs s))" for j
    using yield_pids [OF t that] .
  have "sched_inv s'"
    unfolding sched_inv_def f(1-5) len
    using assms(1) n f(7) pids sched_invD [OF assms(1)] by (auto simp: sched_inv_def)
  then show ?thesis using f pids len by simp
qed

subsection \<open>Preemption by the timer\<close>

lemma tick_counts:
  assumes "sched_inv s" "1 < unat (timeslice_remaining s)"
  shows "brights_sched_tick s = s\<lparr>sched_ticks := sched_ticks s + 1, timeslice_remaining := timeslice_remaining s - 1\<rparr>"
proof -
  have "timeslice_remaining s - 1 \<noteq> 0"
  proof
    assume "timeslice_remaining s - 1 = 0"
    then have "timeslice_remaining s = 1" by simp
    then show False using assms(2) by simp
  qed
  then show ?thesis using assms(1) by (simp add: brights_sched_tick_def sched_inv_def Let_def)
qed

lemma sched_inv_timer [simp]:
  "sched_inv (s\<lparr>sched_ticks := a, timeslice_remaining := b\<rparr>) = sched_inv s"
  "proc_at j (s\<lparr>sched_ticks := a, timeslice_remaining := b\<rparr>) = proc_at j s"
  by (simp_all add: sched_inv_def proc_at_def)

text \<open>When the time slice runs out, the next slot runs.\<close>

definition same_slots :: "sched \<Rightarrow> sched \<Rightarrow> bool" where
  "same_slots s s' \<longleftrightarrow> slot_count s' = slot_count s \<and> pid_to_slot s' = pid_to_slot s
     \<and> (\<forall>j < slot_count s. pr_pid (proc_at (pid_to_slot s ! j) s') = pr_pid (proc_at (pid_to_slot s ! j) s))"

lemma tick_yields:
  assumes "sched_inv s" "2 \<le> slot_count s" "unat (timeslice_remaining s) = 1"
  shows "sched_inv (brights_sched_tick s) \<and> same_slots s (brights_sched_tick s)
    \<and> current_slot (brights_sched_tick s) = (current_slot s + 1) mod slot_count s
    \<and> timeslice_remaining (brights_sched_tick s) = BRIGHTS_SCHED_QUANTUM
    \<and> sched_pid (brights_sched_tick s) = pr_pid (proc_at (pid_to_slot s ! current_slot (brights_sched_tick s)) s)"
proof -
  let ?s = "s\<lparr>sched_ticks := sched_ticks s + 1, timeslice_remaining := 0\<rparr>"
  have one: "timeslice_remaining s = 1" using assms(3) by (metis unsigned_1 word_unat_eq_iff)
  have t: "brights_sched_tick s = fst (brights_sched_yield ?s)"
    using assms(1) one by (simp add: brights_sched_tick_def sched_inv_def Let_def)
  obtain s' r where y: "brights_sched_yield ?s = (s', r)" by fastforce
  have i: "sched_inv ?s" "2 \<le> slot_count ?s" using assms(1,2) by simp_all
  note Y = yield_inv [OF i y]
  have "same_slots s s'" using Y sched_invD(2) [OF assms(1)] by (simp add: same_slots_def)
  then show ?thesis using Y unfolding t y by simp
qed

lemma quantum_expires:
  assumes "sched_inv s" "2 \<le> slot_count s" "unat (timeslice_remaining s) = Suc t"
  shows "let s' = (brights_sched_tick ^^ Suc t) s in sched_inv s' \<and> same_slots s s'
    \<and> current_slot s' = (current_slot s + 1) mod slot_count s \<and> timeslice_remaining s' = BRIGHTS_SCHED_QUANTUM
    \<and> sched_pid s' = pr_pid (proc_at (pid_to_slot s ! current_slot s') s)"
  using assms
proof (induction t arbitrary: s)
  case 0
  then show ?case using tick_yields [OF 0(1,2)] by simp
next
  case (Suc t)
  let ?s = "s\<lparr>sched_ticks := sched_ticks s + 1, timeslice_remaining := timeslice_remaining s - 1\<rparr>"
  have t1: "brights_sched_tick s = ?s" using Suc.prems by (intro tick_counts) simp_all
  have "timeslice_remaining s \<noteq> 0" using Suc.prems(3) by auto
  then have u: "unat (timeslice_remaining ?s) = Suc t" using Suc.prems(3) by (simp add: unat_minus_one)
  have "(brights_sched_tick ^^ Suc (Suc t)) s = (brights_sched_tick ^^ Suc t) (brights_sched_tick s)"
    by (rule funpow_Suc_right [THEN fun_cong, unfolded comp_apply])
  moreover have "same_slots ?s x = same_slots s x" for x by (simp add: same_slots_def)
  ultimately show ?case using Suc.IH [of ?s] Suc.prems(1,2) u unfolding t1 by (simp add: Let_def del: funpow.simps)
qed

lemma same_slots_trans: "same_slots s a \<Longrightarrow> same_slots a b \<Longrightarrow> same_slots s b"
  by (simp add: same_slots_def)

lemma turns:
  assumes "sched_inv s" "2 \<le> slot_count s" "0 < unat (timeslice_remaining s)" "unat (timeslice_remaining s) \<le> 10"
  shows "\<exists>k \<le> 10 * Suc m. let s' = (brights_sched_tick ^^ k) s in sched_inv s' \<and> same_slots s s'
    \<and> current_slot s' = (current_slot s + Suc m) mod slot_count s \<and> timeslice_remaining s' = BRIGHTS_SCHED_QUANTUM
    \<and> sched_pid s' = pr_pid (proc_at (pid_to_slot s ! current_slot s') s)"
  using assms
proof (induction m arbitrary: s)
  case 0
  obtain t where t: "unat (timeslice_remaining s) = Suc t" using 0(3) gr0_implies_Suc by blast
  then show ?case using quantum_expires [OF 0(1,2) t] 0(4) by (intro exI [of _ "Suc t"]) simp
next
  case (Suc m)
  obtain t where t: "unat (timeslice_remaining s) = Suc t" using Suc.prems(3) gr0_implies_Suc by blast
  define s1 where "s1 = (brights_sched_tick ^^ Suc t) s"
  have Q: "sched_inv s1" "same_slots s s1" "current_slot s1 = (current_slot s + 1) mod slot_count s"
    "timeslice_remaining s1 = BRIGHTS_SCHED_QUANTUM"
    using quantum_expires [OF Suc.prems(1,2) t] by (simp_all add: s1_def Let_def del: funpow.simps)
  have n: "slot_count s1 = slot_count s" "pid_to_slot s1 = pid_to_slot s" using Q(2) by (simp_all add: same_slots_def)
  have "0 < unat (timeslice_remaining s1)" "unat (timeslice_remaining s1) \<le> 10" "2 \<le> slot_count s1"
    using Q(4) n Suc.prems(2) by (simp_all add: BRIGHTS_SCHED_QUANTUM_def)
  from Suc.IH [OF Q(1) this(3,1,2)] obtain k where k: "k \<le> 10 * Suc m"
    "let s' = (brights_sched_tick ^^ k) s1 in sched_inv s' \<and> same_slots s1 s'
      \<and> current_slot s' = (current_slot s1 + Suc m) mod slot_count s1 \<and> timeslice_remaining s' = BRIGHTS_SCHED_QUANTUM
      \<and> sched_pid s' = pr_pid (proc_at (pid_to_slot s1 ! current_slot s') s1)" by blast
  let ?s' = "(brights_sched_tick ^^ k) s1"
  have e: "(brights_sched_tick ^^ (k + Suc t)) s = ?s'" unfolding s1_def funpow_add by (rule comp_apply)
  have cs: "current_slot ?s' = (current_slot s + Suc (Suc m)) mod slot_count s"
    using k(2) Q(3) n by (simp add: Let_def mod_add_left_eq [of _ "slot_count s" "Suc m", simplified])
  then have lt: "current_slot ?s' < slot_count s" using Suc.prems(2) by simp
  have pid: "pr_pid (proc_at (pid_to_slot s1 ! current_slot ?s') s1) = pr_pid (proc_at (pid_to_slot s ! current_slot ?s') s)"
    using Q(2) lt n(2) by (simp add: same_slots_def)
  have "k + Suc t \<le> 10 * Suc (Suc m)" using k(1) t Suc.prems(4) by simp
  then show ?case
    using k(2) cs pid same_slots_trans [OF Q(2)] unfolding Let_def
    by (intro exI [of _ "k + Suc t"], unfold e, intro conjI) (simp_all del: funpow.simps)
qed

subsection \<open>Compaction\<close>

lemma compact_slots_nth:
  assumes "i < n" "n \<le> length xs" "j < n - 1"
  shows "compact_slots i n xs ! j = (if j < i then xs ! j else xs ! (j + 1))"
proof -
  have "fold (\<lambda>j xs. xs[j := xs ! (j + 1)]) [i..<m] xs ! j = (if j < i \<or> m \<le> j then xs ! j else xs ! (j + 1))
      \<and> length (fold (\<lambda>j xs. xs[j := xs ! (j + 1)]) [i..<m] xs) = length xs
      \<and> (\<forall>l \<ge> m. fold (\<lambda>j xs. xs[j := xs ! (j + 1)]) [i..<m] xs ! l = xs ! l)"
    if "i \<le> m" "m \<le> n - 1" for m
    using that
  proof (induction m)
    case (Suc m)
    show ?case
    proof (cases "i = Suc m")
      case False
      then have IH: "fold (\<lambda>j xs. xs[j := xs ! (j + 1)]) [i..<m] xs ! j = (if j < i \<or> m \<le> j then xs ! j else xs ! (j + 1))"
        "length (fold (\<lambda>j xs. xs[j := xs ! (j + 1)]) [i..<m] xs) = length xs"
        "\<forall>l \<ge> m. fold (\<lambda>j xs. xs[j := xs ! (j + 1)]) [i..<m] xs ! l = xs ! l" using Suc by auto
      have "m < length xs" using Suc.prems assms(2) by simp
      then show ?thesis using IH False Suc.prems by (auto simp: nth_list_update)
    qed simp
  qed simp
  from this [of "n - 1"] show ?thesis using assms by (auto simp: compact_slots_def)
qed

subsection \<open>Properties\<close>

text \<open>The two masked scans of \<open>find_next_runnable\<close> find the first runnable slot in cyclic order from
  the given one.\<close>
theorem sched_search_round_robin:
  assumes "start < 64"
  shows "find_next_runnable start s =
    (case filter (bit (runnable_bitmap s)) ([start..<64] @ [0..<start]) of [] \<Rightarrow> None | j # _ \<Rightarrow> Some j)"
  using find_next_runnable_eq [OF assms] by (simp add: next_in_turn_def)

definition sched_demo :: sched where
  "sched_demo = \<lparr>sched_ticks = 0, sched_dispatches = 1, pid_to_slot = [0, 1, 2] @ replicate 61 0, slot_count = 3,
     runnable_bitmap = 7, current_slot = 0, sched_pid = 1, total_runnable = 3, current_trap_frame = Some blank_regs,
     timeslice_remaining = 10, tss_rsp0 = 0,
     s_procs = procs_demo\<lparr>proc_table :=
       [blank_proc\<lparr>pr_pid := 1, pr_state := ProcRunning\<rparr>, blank_proc\<lparr>pr_pid := 2, pr_state := ProcRunnable\<rparr>,
        blank_proc\<lparr>pr_pid := 3, pr_state := ProcRunnable\<rparr>]\<rparr>\<rparr>"

lemma less_3_cases: "(j :: nat) < 3 \<longleftrightarrow> j = 0 \<or> j = 1 \<or> j = 2" by arith

lemma sched_demo_fields:
  "slot_count sched_demo = 3" "current_slot sched_demo = 0" "pid_to_slot sched_demo = [0, 1, 2] @ replicate 61 0"
  "runnable_bitmap sched_demo = 7" "timeslice_remaining sched_demo = 10" "current_trap_frame sched_demo = Some blank_regs"
  "proc_table (s_procs sched_demo) =
    [blank_proc\<lparr>pr_pid := 1, pr_state := ProcRunning\<rparr>, blank_proc\<lparr>pr_pid := 2, pr_state := ProcRunnable\<rparr>,
     blank_proc\<lparr>pr_pid := 3, pr_state := ProcRunnable\<rparr>]"
  "sched_pid sched_demo = 1" "total_runnable sched_demo = 3"
  by (simp_all add: sched_demo_def)

lemma sched_demo_inv: "sched_inv sched_demo"
proof -
  have m: "(7 :: u64) = mask 3" by (simp add: mask_eq_exp_minus_1)
  have "bit (runnable_bitmap sched_demo) j \<longleftrightarrow> j < 3" if "j < 64" for j
    unfolding sched_demo_fields m bit_mask_iff using that by simp
  moreover have "pid_to_slot sched_demo ! j < length (proc_table (s_procs sched_demo))
      \<and> pr_pid (proc_at (pid_to_slot sched_demo ! j) sched_demo) \<noteq> 0" if "j < 3" for j
    using that unfolding less_3_cases by (auto simp: sched_demo_fields proc_at_def)
  ultimately show ?thesis by (simp add: sched_inv_def sched_demo_fields)
qed

theorem sched_search_round_robin_witness: "find_next_runnable 1 sched_demo = Some 1"
proof -
  have "[1..<64] = 1 # [2..<64 :: nat]" by (simp add: upt_conv_Cons)
  then show ?thesis using sched_search_round_robin [of 1 sched_demo] by (simp add: sched_demo_fields del: upt_Suc)
qed

text \<open>C7: with two or more runnable processes the timer never starves one: from any state with all slots
  runnable, every process is running after at most ten ticks for each process in the table.\<close>
theorem sched_no_starvation:
  assumes inv: "sched_inv s" and two: "2 \<le> slot_count s"
    and slice: "0 < unat (timeslice_remaining s)" "unat (timeslice_remaining s) \<le> 10" and j: "j < slot_count s"
  shows "\<exists>k \<le> 10 * slot_count s. current_slot ((brights_sched_tick ^^ k) s) = j
    \<and> brights_sched_current_pid ((brights_sched_tick ^^ k) s) = pr_pid (proc_at (pid_to_slot s ! j) s)"
proof -
  let ?n = "slot_count s" and ?c = "current_slot s"
  have c: "?c < ?n" using inv by (simp add: sched_inv_def)
  define m where "m = (if ?c < j then j - ?c - 1 else j + ?n - ?c - 1)"
  have m: "Suc m \<le> ?n" "(?c + Suc m) mod ?n = j" using c j by (auto simp: m_def)
  from turns [OF inv two slice, of m] obtain k where k: "k \<le> 10 * Suc m"
    "current_slot ((brights_sched_tick ^^ k) s) = (?c + Suc m) mod ?n"
    "sched_pid ((brights_sched_tick ^^ k) s) = pr_pid (proc_at (pid_to_slot s ! current_slot ((brights_sched_tick ^^ k) s)) s)"
    unfolding Let_def by blast
  have "k \<le> 10 * ?n" using k(1) m(1) by simp
  then show ?thesis using k(2,3) m(2) by (auto simp: brights_sched_current_pid_def)
qed

theorem sched_no_starvation_witness:
  "\<exists>k \<le> 30. brights_sched_current_pid ((brights_sched_tick ^^ k) sched_demo) = 3"
proof -
  have "2 < slot_count sched_demo" by (simp add: sched_demo_fields)
  then show ?thesis
    using sched_no_starvation [OF sched_demo_inv, of 2] by (simp add: sched_demo_fields proc_at_def) blast
qed

text \<open>C8: a context switch saves the registers of the interrupted process in its own entry, loads those of
  the next process in turn, changes their states accordingly and touches no third process.\<close>
theorem sched_yield_switches_context:
  assumes inv: "sched_inv s" and two: "2 \<le> slot_count s" and tf: "current_trap_frame s = Some tf"
  defines "i \<equiv> pid_to_slot s ! current_slot s" and "k \<equiv> pid_to_slot s ! ((current_slot s + 1) mod slot_count s)"
  assumes ik: "i \<noteq> k" and run: "pr_state (proc_at i s) = ProcRunning"
  shows "\<exists>s'. brights_sched_yield s = (s', 0)
    \<and> pr_ctx (proc_at i s') = tf \<and> pr_state (proc_at i s') = ProcRunnable
    \<and> current_trap_frame s' = Some (pr_ctx (proc_at k s)) \<and> pr_state (proc_at k s') = ProcRunning
    \<and> (\<forall>l. l \<noteq> i \<and> l \<noteq> k \<longrightarrow> proc_at l s' = proc_at l s)"
proof -
  obtain s' where y: "brights_sched_yield s = (s', 0)"
    and t: "proc_table (s_procs s') = upd_at k (\<lambda>p. p\<lparr>pr_state := ProcRunning\<rparr>) ((proc_table (s_procs s))[i := switched_out i s])"
    and f: "current_trap_frame s' = Some (pr_ctx (proc_at k s))"
    using yield_ok [OF inv two, folded i_def k_def] tf ik by auto
  have "i < length (proc_table (s_procs s))" "k < length (proc_table (s_procs s))"
    using sched_invD(2) [OF inv] inv two by (auto simp: i_def k_def sched_inv_def)
  then show ?thesis
    using y f ik run tf by (auto simp: proc_at_def t switched_out_def Let_def)
qed

theorem sched_yield_switches_context_witness:
  "\<exists>s'. brights_sched_yield sched_demo = (s', 0) \<and> pr_state (proc_at 0 s') = ProcRunnable
    \<and> pr_state (proc_at 1 s') = ProcRunning"
  using sched_yield_switches_context [OF sched_demo_inv _ sched_demo_fields(6)]
  by (simp add: sched_demo_fields proc_at_def) blast

text \<open>Removing a process moves the later slots down but not their bits. Whenever the removed process
  was not in the last slot, the process that moves into its slot is no longer marked runnable, so
  the search never selects it, while the bit of the last slot, now unused, stays set.\<close>
theorem sched_remove_shifts_wrong:
  assumes inv: "sched_inv s"
    and i: "first_idx (\<lambda>i. pr_pid (proc_at (pid_to_slot s ! i) s) = pid) [0..<slot_count s] = Some i" "i + 1 < slot_count s"
    and rm: "brights_sched_remove_process pid s = (s', r)"
  shows "r = 0 \<and> get_proc_by_slot i s' = Some (pid_to_slot s ! (i + 1)) \<and> \<not> bit (runnable_bitmap s') i
    \<and> (\<forall>start<64. find_next_runnable start s' \<noteq> Some i)
    \<and> bit (runnable_bitmap s') (slot_count s') \<and> get_proc_by_slot (slot_count s') s' = None"
proof -
  have i0: "i < slot_count s" using i(2) by simp
  have len: "slot_count s \<le> length (pid_to_slot s)" "slot_count s \<le> 64" using inv by (simp_all add: sched_inv_def)
  have s': "r = 0" "slot_count s' = slot_count s - 1" "runnable_bitmap s' = bit_off i (runnable_bitmap s)"
    "pid_to_slot s' = compact_slots i (slot_count s) (pid_to_slot s)"
    using rm i(1) by (auto simp: brights_sched_remove_process_def Let_def)
  have nb: "\<not> bit (runnable_bitmap s') i" by (simp add: s' bit_bit_off)
  have "find_next_runnable start s' \<noteq> Some i" if "start < 64" for start
  proof
    assume "find_next_runnable start s' = Some i"
    then have "i \<in> set (filter (bit (runnable_bitmap s')) ([start..<64] @ [0..<start]))"
      unfolding find_next_runnable_eq [OF that] next_in_turn_def
      by (cases "filter (bit (runnable_bitmap s')) ([start..<64] @ [0..<start])") auto
    then show False using nb by auto
  qed
  moreover have "get_proc_by_slot i s' = Some (pid_to_slot s ! (i + 1))"
    using i(2) compact_slots_nth [OF i0 len(1), of i] by (simp add: get_proc_by_slot_def s')
  moreover have "bit (runnable_bitmap s') (slot_count s')"
    using inv i(2) len(2) by (auto simp: s' bit_bit_off sched_inv_def)
  ultimately show ?thesis using s'(1) nb by (simp add: get_proc_by_slot_def)
qed

theorem sched_remove_shifts_wrong_witness:
  "\<exists>s'. brights_sched_remove_process 1 sched_demo = (s', 0) \<and> get_proc_by_slot 0 s' = Some 1
    \<and> \<not> bit (runnable_bitmap s') 0"
proof -
  obtain s' r where rm: "brights_sched_remove_process 1 sched_demo = (s', r)" by fastforce
  have f: "first_idx (\<lambda>i. pr_pid (proc_at (pid_to_slot sched_demo ! i) sched_demo) = 1) [0..<slot_count sched_demo] = Some 0"
    by (simp add: sched_demo_fields proc_at_def upt_conv_Cons)
  show ?thesis
    using sched_remove_shifts_wrong [OF sched_demo_inv f _ rm] rm by (simp add: sched_demo_fields)
qed

end
