(* ===== verification/Kmalloc.thy ===== *)
theory Kmalloc
  imports Pmem
begin

text \<open>
  The kernel heap of \<open>kernel/kmalloc.c\<close>: ten slab classes whose pages come from the physical page
  allocator, and a best-fit free list inside a static array of 8 MB for everything else.

  Both structures live inside the memory they manage, so the model has an explicit store: one map
  per field of \<open>slab_page_t\<close> and \<open>kmalloc_block_t\<close> from the address of the object to the value of
  the field, and the quadwords of the slab blocks, of which the first holds \<open>slab_free_t.next\<close> while
  the block is free.  Addresses are natural numbers (pointer arithmetic stays inside a page or the
  array), 0 is the null pointer, sizes and counters are 64-bit words and the counts of a slab page
  16-bit words, with the wrap-around of the code.  A walk along a list is a \<open>partial_function\<close>: its
  value is \<open>None\<close> if the list never ends.

  The heap is proved against a list of address-size pairs (\<open>heap_inv\<close>): allocation is best fit,
  release merges with both neighbours, and the one undoes the other.  The slabs are proved against
  the set of blocks handed out (\<open>slab_live\<close>).
\<close>

record kmalloc =
  km_pmem :: pmem
  sp_next :: "nat \<Rightarrow> nat"
  sp_class_idx :: "nat \<Rightarrow> u16"
  sp_free_count :: "nat \<Rightarrow> u16"
  sp_total_count :: "nat \<Rightarrow> u16"
  sp_free_list :: "nat \<Rightarrow> nat"
  km_qword :: "nat \<Rightarrow> u64"
  sc_pages :: "nat list"
  sc_block_size :: "nat list"
  recent_pages :: "nat list"
  kb_size :: "nat \<Rightarrow> u64"
  kb_next :: "nat \<Rightarrow> nat"
  kmalloc_heap :: nat
  free_list :: nat
  kmalloc_total_used :: u64
  kmalloc_slab_used :: u64
  kmalloc_heap_used :: u64

definition SLAB_CLASSES :: nat where
  "SLAB_CLASSES = 10"

definition slab_sizes :: "nat list" where
  "slab_sizes = [16, 32, 64, 128, 256, 512, 1024, 2048, 4096, 8192]"

definition SLAB_PAGE_T_SIZE :: u64 where
  "SLAB_PAGE_T_SIZE = 24"

definition KMALLOC_BLOCK_T_SIZE :: u64 where
  "KMALLOC_BLOCK_T_SIZE = 16"

definition KMALLOC_HEAP_SIZE :: u64 where
  "KMALLOC_HEAP_SIZE = 8 * 1024 * 1024"

definition KMALLOC_ALIGN :: u64 where
  "KMALLOC_ALIGN = 16"

definition KMALLOC_MIN_BLOCK :: u64 where
  "KMALLOC_MIN_BLOCK = 32"

definition align_up :: "u64 \<Rightarrow> u64 \<Rightarrow> u64" where
  "align_up v a = (v + (a - 1)) AND NOT (a - 1)"

definition km_store :: "nat \<Rightarrow> u64 \<Rightarrow> kmalloc \<Rightarrow> kmalloc" where
  "km_store a v s = s\<lparr>km_qword := (km_qword s)(a := v)\<rparr>"

text \<open>The trailing bytes of a length that is no multiple of eight are the low bytes of the next
  quadword.\<close>

definition zero_mem :: "nat \<Rightarrow> nat \<Rightarrow> kmalloc \<Rightarrow> kmalloc" where
  "zero_mem ptr len s =
     (let qwords = len div 8;
          s1 = fold (\<lambda>i s. km_store (ptr + 8 * i) 0 s) [0..<qwords] s;
          r = len mod 8;
          p = ptr + 8 * qwords
      in if r \<noteq> 0 then km_store p (km_qword s1 p AND NOT (mask (8 * r))) s1 else s1)"

definition poison_mem :: "nat \<Rightarrow> nat \<Rightarrow> kmalloc \<Rightarrow> kmalloc" where
  "poison_mem ptr len s =
     (let qwords = len div 8;
          s1 = fold (\<lambda>i s. km_store (ptr + 8 * i) 0xCCCCCCCCCCCCCCCC s) [0..<qwords] s;
          r = len mod 8;
          p = ptr + 8 * qwords
      in if r \<noteq> 0
         then km_store p ((km_qword s1 p AND NOT (mask (8 * r))) OR (0xCCCCCCCCCCCCCCCC AND mask (8 * r))) s1
         else s1)"

definition slab_header :: nat where
  "slab_header = unat (align_up SLAB_PAGE_T_SIZE 16)"

definition slab_build_list :: "nat \<Rightarrow> nat \<Rightarrow> nat \<Rightarrow> kmalloc \<Rightarrow> kmalloc \<times> nat" where
  "slab_build_list data block_size num_blocks s =
     fold (\<lambda>i (s, head). let block = data + i * block_size in (km_store block (of_nat head) s, block))
       [0..<num_blocks] (s, 0)"

definition slab_page_init :: "nat \<Rightarrow> kmalloc \<Rightarrow> kmalloc \<times> nat" where
  "slab_page_init class_idx s =
     (case brights_pmem_alloc_page (km_pmem s) of
        (pm, pg) \<Rightarrow>
          (let s1 = s\<lparr>km_pmem := pm\<rparr> in
           if pg = 0 then (s1, 0)
           else
             (let block_size = slab_sizes ! class_idx;
                  header_size = slab_header;
                  num_blocks = (4096 - header_size) div block_size
              in if num_blocks = 0 then (s1, 0)
                 else
                   (let page = unat pg;
                        s2 = s1\<lparr>sp_class_idx := (sp_class_idx s1)(page := of_nat class_idx),
                                sp_free_count := (sp_free_count s1)(page := of_nat num_blocks),
                                sp_total_count := (sp_total_count s1)(page := of_nat num_blocks),
                                sp_next := (sp_next s1)(page := 0)\<rparr>;
                        (s3, head) = slab_build_list (page + header_size) block_size num_blocks s2
                    in (s3\<lparr>sp_free_list := (sp_free_list s3)(page := head)\<rparr>, page)))))"

definition brights_kmalloc_init :: "kmalloc \<Rightarrow> kmalloc" where
  "brights_kmalloc_init s =
     s\<lparr>sc_block_size := slab_sizes, sc_pages := replicate SLAB_CLASSES 0, recent_pages := replicate SLAB_CLASSES 0,
       free_list := kmalloc_heap s,
       kb_size := (kb_size s)(kmalloc_heap s := KMALLOC_HEAP_SIZE),
       kb_next := (kb_next s)(kmalloc_heap s := 0),
       kmalloc_total_used := 0, kmalloc_slab_used := 0, kmalloc_heap_used := 0\<rparr>"

definition find_slab_class :: "u64 \<Rightarrow> nat option" where
  "find_slab_class sz =
     (if sz = 0 \<or> sz > of_nat (slab_sizes ! (SLAB_CLASSES - 1)) then None
      else first_idx (\<lambda>i. of_nat (slab_sizes ! i) \<ge> sz \<and> (i = 0 \<or> of_nat (slab_sizes ! (i - 1)) < sz))
             [0..<SLAB_CLASSES])"

subsection \<open>Allocation\<close>

text \<open>The body that occurs three times in \<open>brights_kmalloc\<close>: unlink the first free block of a slab
  page, account for it and clear it.\<close>

definition slab_take :: "nat \<Rightarrow> nat \<Rightarrow> kmalloc \<Rightarrow> kmalloc \<times> nat" where
  "slab_take class_idx page s =
     (let block = sp_free_list s page;
          block_size = sc_block_size s ! class_idx
      in (zero_mem block block_size
            (s\<lparr>sp_free_list := (sp_free_list s)(page := unat (km_qword s block)),
               sp_free_count := (sp_free_count s)(page := sp_free_count s page - 1),
               kmalloc_slab_used := kmalloc_slab_used s + of_nat block_size,
               kmalloc_total_used := kmalloc_total_used s + of_nat block_size\<rparr>), block))"

definition slab_has_free :: "kmalloc \<Rightarrow> nat \<Rightarrow> bool" where
  "slab_has_free s sp \<longleftrightarrow> sp_free_count s sp > 0 \<and> sp_free_list s sp \<noteq> 0"

partial_function (option) find_slab_page :: "kmalloc \<Rightarrow> nat \<Rightarrow> nat option" where
  "find_slab_page s sp =
     (if sp = 0 then Some 0
      else if slab_has_free s sp then Some sp
      else find_slab_page s (sp_next s sp))"

definition slab_alloc :: "nat \<Rightarrow> kmalloc \<Rightarrow> (kmalloc \<times> nat) option" where
  "slab_alloc class_idx s =
     (let recent = recent_pages s ! class_idx in
      if recent \<noteq> 0 \<and> slab_has_free s recent then Some (slab_take class_idx recent s)
      else case find_slab_page s (sc_pages s ! class_idx) of
             None \<Rightarrow> None
           | Some sp \<Rightarrow>
               (if sp \<noteq> 0 then Some (slab_take class_idx sp (s\<lparr>recent_pages := (recent_pages s)[class_idx := sp]\<rparr>))
                else case slab_page_init class_idx s of
                  (s1, new_page) \<Rightarrow>
                    (if new_page = 0 then Some (s1, 0)
                     else Some (slab_take class_idx new_page
                            (s1\<lparr>sp_next := (sp_next s1)(new_page := sc_pages s1 ! class_idx),
                                sc_pages := (sc_pages s1)[class_idx := new_page]\<rparr>)))))"

partial_function (option) find_best_fit ::
  "kmalloc \<Rightarrow> u64 \<Rightarrow> nat \<Rightarrow> nat \<Rightarrow> nat \<Rightarrow> nat \<Rightarrow> u64 \<Rightarrow> (nat \<times> nat) option" where
  "find_best_fit s total_size cur prev best_fit best_fit_prev best_fit_size =
     (if cur = 0 then Some (best_fit, best_fit_prev)
      else if kb_size s cur \<ge> total_size \<and> kb_size s cur < best_fit_size
      then find_best_fit s total_size (kb_next s cur) cur cur prev (kb_size s cur)
      else find_best_fit s total_size (kb_next s cur) cur best_fit best_fit_prev best_fit_size)"

definition heap_request :: "u64 \<Rightarrow> u64" where
  "heap_request sz =
     (let total_size = align_up (sz + KMALLOC_BLOCK_T_SIZE) KMALLOC_ALIGN
      in if total_size < KMALLOC_MIN_BLOCK then KMALLOC_MIN_BLOCK else total_size)"

definition heap_split :: "nat \<Rightarrow> u64 \<Rightarrow> kmalloc \<Rightarrow> kmalloc" where
  "heap_split best_fit total_size s =
     (if kb_size s best_fit \<ge> total_size + KMALLOC_MIN_BLOCK then
        (let new_block = best_fit + unat total_size;
             s1 = s\<lparr>kb_size := (kb_size s)(new_block := kb_size s best_fit - total_size),
                    kb_next := (kb_next s)(new_block := kb_next s best_fit)\<rparr>
         in s1\<lparr>kb_size := (kb_size s1)(best_fit := total_size),
               kb_next := (kb_next s1)(best_fit := new_block)\<rparr>)
      else s)"

definition heap_unlink :: "nat \<Rightarrow> nat \<Rightarrow> kmalloc \<Rightarrow> kmalloc" where
  "heap_unlink best_fit best_fit_prev s =
     (if best_fit_prev \<noteq> 0 then s\<lparr>kb_next := (kb_next s)(best_fit_prev := kb_next s best_fit)\<rparr>
      else s\<lparr>free_list := kb_next s best_fit\<rparr>)"

definition heap_alloc :: "u64 \<Rightarrow> kmalloc \<Rightarrow> (kmalloc \<times> nat) option" where
  "heap_alloc sz s =
     (if sz > - 1 - KMALLOC_BLOCK_T_SIZE then Some (s, 0)
      else
        (let total_size = heap_request sz in
         case find_best_fit s total_size (free_list s) 0 0 0 (- 1) of
           None \<Rightarrow> None
         | Some (best_fit, best_fit_prev) \<Rightarrow>
             (if best_fit = 0 then Some (s, 0)
              else
                (let s1 = heap_unlink best_fit best_fit_prev (heap_split best_fit total_size s)
                 in Some (s1\<lparr>kmalloc_heap_used := kmalloc_heap_used s1 + kb_size s1 best_fit,
                             kmalloc_total_used := kmalloc_total_used s1 + kb_size s1 best_fit\<rparr>,
                          best_fit + unat KMALLOC_BLOCK_T_SIZE)))))"

definition brights_kmalloc :: "u64 \<Rightarrow> kmalloc \<Rightarrow> (kmalloc \<times> nat) option" where
  "brights_kmalloc sz s =
     (if sz = 0 then Some (s, 0)
      else case find_slab_class sz of
             None \<Rightarrow> heap_alloc sz s
           | Some class_idx \<Rightarrow>
               (case slab_alloc class_idx s of
                  None \<Rightarrow> None
                | Some (s1, block) \<Rightarrow> (if block \<noteq> 0 then Some (s1, block) else heap_alloc sz s1)))"

subsection \<open>Release\<close>

partial_function (option) find_slab_owner :: "kmalloc \<Rightarrow> nat \<Rightarrow> nat \<Rightarrow> nat option" where
  "find_slab_owner s ptr sp =
     (if sp = 0 then Some 0
      else if sp \<le> ptr \<and> ptr < sp + 4096 then Some sp
      else find_slab_owner s ptr (sp_next s sp))"

fun find_slab_of :: "kmalloc \<Rightarrow> nat \<Rightarrow> nat list \<Rightarrow> (nat \<times> nat) option option" where
  "find_slab_of s ptr [] = Some None"
| "find_slab_of s ptr (i # is) =
     (case find_slab_owner s ptr (sc_pages s ! i) of
        None \<Rightarrow> None
      | Some sp \<Rightarrow> (if sp \<noteq> 0 then Some (Some (i, sp)) else find_slab_of s ptr is))"

definition slab_put :: "nat \<Rightarrow> nat \<Rightarrow> nat \<Rightarrow> kmalloc \<Rightarrow> kmalloc" where
  "slab_put class_idx sp ptr s =
     (let block_size = slab_sizes ! class_idx;
          header_start = sp + slab_header
      in if ptr < header_start \<or> sp + 4096 \<le> ptr then s
         else if (ptr - header_start) mod block_size \<noteq> 0 then s
         else
           (let s1 = km_store ptr (of_nat (sp_free_list s sp)) (poison_mem ptr block_size s)
            in s1\<lparr>sp_free_list := (sp_free_list s1)(sp := ptr),
                  sp_free_count := (sp_free_count s1)(sp := sp_free_count s1 sp + 1),
                  kmalloc_slab_used := kmalloc_slab_used s1 - of_nat block_size,
                  kmalloc_total_used := kmalloc_total_used s1 - of_nat block_size\<rparr>))"

partial_function (option) find_position :: "kmalloc \<Rightarrow> nat \<Rightarrow> nat \<Rightarrow> nat \<Rightarrow> (nat \<times> nat) option" where
  "find_position s block prev cur =
     (if cur \<noteq> 0 \<and> cur < block then find_position s block cur (kb_next s cur)
      else Some (prev, cur))"

definition heap_link :: "nat \<Rightarrow> nat \<Rightarrow> nat \<Rightarrow> kmalloc \<Rightarrow> kmalloc" where
  "heap_link block prev cur s =
     (let s1 = s\<lparr>kb_next := (kb_next s)(block := cur)\<rparr>
      in if prev \<noteq> 0 then s1\<lparr>kb_next := (kb_next s1)(prev := block)\<rparr> else s1\<lparr>free_list := block\<rparr>)"

definition heap_merge_next :: "nat \<Rightarrow> kmalloc \<Rightarrow> kmalloc" where
  "heap_merge_next block s =
     (let nx = kb_next s block in
      if nx \<noteq> 0 \<and> block + unat (kb_size s block) = nx
      then s\<lparr>kb_size := (kb_size s)(block := kb_size s block + kb_size s nx),
             kb_next := (kb_next s)(block := kb_next s nx)\<rparr>
      else s)"

definition heap_merge_prev :: "nat \<Rightarrow> nat \<Rightarrow> kmalloc \<Rightarrow> kmalloc" where
  "heap_merge_prev block prev s =
     (if prev \<noteq> 0 \<and> prev + unat (kb_size s prev) = block
      then s\<lparr>kb_size := (kb_size s)(prev := kb_size s prev + kb_size s block),
             kb_next := (kb_next s)(prev := kb_next s block)\<rparr>
      else s)"

definition heap_free :: "nat \<Rightarrow> kmalloc \<Rightarrow> kmalloc option" where
  "heap_free ptr s =
     (let block = ptr - unat KMALLOC_BLOCK_T_SIZE;
          s1 = s\<lparr>kmalloc_heap_used := kmalloc_heap_used s - kb_size s block,
                 kmalloc_total_used := kmalloc_total_used s - kb_size s block\<rparr>
      in case find_position s1 block 0 (free_list s1) of
           None \<Rightarrow> None
         | Some (prev, cur) \<Rightarrow>
             Some (heap_merge_prev block prev (heap_merge_next block (heap_link block prev cur s1))))"

definition brights_kfree :: "nat \<Rightarrow> kmalloc \<Rightarrow> kmalloc option" where
  "brights_kfree ptr s =
     (if ptr = 0 then Some s
      else case find_slab_of s ptr [0..<SLAB_CLASSES] of
             None \<Rightarrow> None
           | Some (Some (i, sp)) \<Rightarrow> Some (slab_put i sp ptr s)
           | Some None \<Rightarrow> heap_free ptr s)"

definition brights_kmalloc_used :: "kmalloc \<Rightarrow> u64" where
  "brights_kmalloc_used s = kmalloc_total_used s"

definition brights_kmalloc_capacity :: u64 where
  "brights_kmalloc_capacity = KMALLOC_HEAP_SIZE + of_nat SLAB_CLASSES * 4096"

subsection \<open>The heap as a list of regions\<close>

text \<open>The free list is read as a list of address-size pairs, in address order, such that no two
  regions touch: \<open>brights_kfree\<close> merges neighbours.\<close>

type_synonym region = "nat \<times> nat"

definition spaced :: "region list \<Rightarrow> bool" where
  "spaced xs \<longleftrightarrow> sorted_wrt (\<lambda>x y. fst x + snd x < fst y) xs"

definition heap_chain :: "kmalloc \<Rightarrow> nat \<Rightarrow> region list \<Rightarrow> nat \<Rightarrow> bool" where
  "heap_chain s a xs b \<longleftrightarrow> links (kb_next s) a (map fst xs) b \<and> (\<forall>x\<in>set xs. unat (kb_size s (fst x)) = snd x)"

definition heap_inv :: "kmalloc \<Rightarrow> region list \<Rightarrow> bool" where
  "heap_inv s xs \<longleftrightarrow> heap_chain s (free_list s) xs 0 \<and> spaced xs \<and> 0 < kmalloc_heap s
     \<and> (\<forall>x\<in>set xs. kmalloc_heap s \<le> fst x \<and> fst x + snd x \<le> kmalloc_heap s + 0x800000 \<and> 32 \<le> snd x)"

definition slab_view :: "kmalloc \<Rightarrow> kmalloc" where
  "slab_view s = s\<lparr>kb_size := (\<lambda>_. 0), kb_next := (\<lambda>_. 0), free_list := 0, kmalloc_heap_used := 0,
                   kmalloc_total_used := 0\<rparr>"

lemma heap_chain_simps [simp]:
  "heap_chain s a [] b \<longleftrightarrow> a = b"
  "heap_chain s a (x # xs) b \<longleftrightarrow> a = fst x \<and> fst x \<noteq> 0 \<and> unat (kb_size s (fst x)) = snd x
     \<and> heap_chain s (kb_next s (fst x)) xs b"
  "heap_chain s a (xs @ ys) b \<longleftrightarrow> (\<exists>c. heap_chain s a xs c \<and> heap_chain s c ys b)"
  by (auto simp: heap_chain_def)

lemma heap_chain_cong:
  assumes "\<And>x. x \<in> set xs \<Longrightarrow> kb_next t (fst x) = kb_next s (fst x) \<and> kb_size t (fst x) = kb_size s (fst x)"
  shows "heap_chain t a xs b \<longleftrightarrow> heap_chain s a xs b"
proof -
  have "links (kb_next t) a (map fst xs) b \<longleftrightarrow> links (kb_next s) a (map fst xs) b"
    by (rule links_cong) (use assms in auto)
  then show ?thesis using assms by (auto simp: heap_chain_def)
qed

lemma spaced_simps [simp]:
  "spaced []" "spaced (x # xs) \<longleftrightarrow> (\<forall>y\<in>set xs. fst x + snd x < fst y) \<and> spaced xs"
  "spaced (xs @ ys) \<longleftrightarrow> spaced xs \<and> spaced ys \<and> (\<forall>x\<in>set xs. \<forall>y\<in>set ys. fst x + snd x < fst y)"
  by (auto simp: spaced_def sorted_wrt_append)

subsubsection \<open>Best fit\<close>

fun best_scan :: "nat \<Rightarrow> nat \<Rightarrow> nat \<Rightarrow> nat \<times> nat \<Rightarrow> region list \<Rightarrow> nat \<times> nat" where
  "best_scan want bfs prev r [] = r"
| "best_scan want bfs prev r (x # xs) =
     (if want \<le> snd x \<and> snd x < bfs then best_scan want (snd x) (fst x) (fst x, prev) xs
      else best_scan want bfs (fst x) r xs)"

lemma find_best_fit_scan:
  "heap_chain s cur xs 0 \<Longrightarrow>
     find_best_fit s want cur prev bf bfp bfs = Some (best_scan (unat want) (unat bfs) prev (bf, bfp) xs)"
proof (induction xs arbitrary: cur prev bf bfp bfs)
  case Nil
  then show ?case by (subst find_best_fit.simps) simp
next
  case (Cons x xs)
  then show ?case
    by (subst find_best_fit.simps) (auto simp: word_le_nat_alt word_less_nat_alt)
qed

definition best_at :: "nat \<Rightarrow> region list \<Rightarrow> nat \<Rightarrow> region list \<Rightarrow> bool" where
  "best_at want ys n zs \<longleftrightarrow> want \<le> n
     \<and> (\<forall>y\<in>set ys. want \<le> snd y \<longrightarrow> n < snd y) \<and> (\<forall>z\<in>set zs. want \<le> snd z \<longrightarrow> n \<le> snd z)"

lemma best_scan_spec:
  "(best_scan want bfs prev r xs = r \<and> (\<forall>x\<in>set xs. want \<le> snd x \<longrightarrow> bfs \<le> snd x)) \<or>
   (\<exists>ys a n zs. xs = ys @ (a, n) # zs \<and> n < bfs \<and> best_at want ys n zs
      \<and> best_scan want bfs prev r xs = (a, if ys = [] then prev else fst (last ys)))"
proof (induction xs arbitrary: bfs prev r)
  case Nil
  then show ?case by simp
next
  case (Cons x xs)
  obtain a n where x: "x = (a, n)" by fastforce
  show ?case
  proof (cases "want \<le> n \<and> n < bfs")
    case True
    from Cons.IH [of n a "(a, prev)"]
    consider "best_scan want n a (a, prev) xs = (a, prev)" "\<forall>x\<in>set xs. want \<le> snd x \<longrightarrow> n \<le> snd x"
      | ys b m zs where "xs = ys @ (b, m) # zs" "m < n" "best_at want ys m zs"
          "best_scan want n a (a, prev) xs = (b, if ys = [] then a else fst (last ys))"
      by blast
    then show ?thesis
    proof cases
      case 1
      then show ?thesis using True x
        by (intro disjI2 exI [of _ "[]"] exI [of _ a] exI [of _ n] exI [of _ xs]) (auto simp: best_at_def)
    next
      case (2 ys b m zs)
      have r: "best_scan want bfs prev r (x # xs) = best_scan want n a (a, prev) xs" using True x by simp
      show ?thesis using 2(1-3) True x unfolding r 2(4)
        by (intro disjI2 exI [of _ "x # ys"] exI [of _ b] exI [of _ m] exI [of _ zs]) (auto simp: best_at_def)
    qed
  next
    case False
    from Cons.IH [of bfs a r]
    consider "best_scan want bfs a r xs = r" "\<forall>x\<in>set xs. want \<le> snd x \<longrightarrow> bfs \<le> snd x"
      | ys b m zs where "xs = ys @ (b, m) # zs" "m < bfs" "best_at want ys m zs"
          "best_scan want bfs a r xs = (b, if ys = [] then a else fst (last ys))"
      by blast
    then show ?thesis
    proof cases
      case 1
      then show ?thesis using False x by (intro disjI1) auto
    next
      case (2 ys b m zs)
      have r: "best_scan want bfs prev r (x # xs) = best_scan want bfs a r xs" using False x by auto
      show ?thesis using 2(1-3) False x unfolding r 2(4)
        by (intro disjI2 exI [of _ "x # ys"] exI [of _ b] exI [of _ m] exI [of _ zs]) (auto simp: best_at_def)
    qed
  qed
qed

lemma heap_chain_distinct: "heap_chain s a xs 0 \<Longrightarrow> distinct (map fst xs)"
  using links_distinct by (auto simp: heap_chain_def)

lemma slab_view_simps [simp]:
  "slab_view (heap_split a t s) = slab_view s" "slab_view (heap_unlink a p s) = slab_view s"
  "slab_view (heap_link a p c s) = slab_view s" "slab_view (heap_merge_next a s) = slab_view s"
  "slab_view (heap_merge_prev a p s) = slab_view s"
  by (simp_all add: slab_view_def heap_split_def heap_unlink_def heap_link_def heap_merge_next_def
      heap_merge_prev_def Let_def)

definition used_view :: "kmalloc \<Rightarrow> nat \<times> u64 \<times> u64" where
  "used_view s = (kmalloc_heap s, kmalloc_heap_used s, kmalloc_total_used s)"

lemma used_view_simps [simp]:
  "used_view (heap_split a t s) = used_view s" "used_view (heap_unlink a p s) = used_view s"
  "used_view (heap_link a p c s) = used_view s" "used_view (heap_merge_next a s) = used_view s"
  "used_view (heap_merge_prev a p s) = used_view s"
  by (simp_all add: used_view_def heap_split_def heap_unlink_def heap_link_def heap_merge_next_def
      heap_merge_prev_def Let_def)

lemma used_view_heap: "used_view s = used_view t \<Longrightarrow> kmalloc_heap s = kmalloc_heap t"
  by (simp add: used_view_def)

lemma heap_unlink_chain:
  assumes "heap_chain s (free_list s) (ys @ (a, m) # ws) 0"
  defines "t \<equiv> heap_unlink a (if ys = [] then 0 else fst (last ys)) s"
  shows "heap_chain t (free_list t) (ys @ ws) 0" "kb_size t = kb_size s"
proof -
  show "kb_size t = kb_size s" by (simp add: t_def heap_unlink_def)
  show "heap_chain t (free_list t) (ys @ ws) 0"
  proof (cases ys rule: rev_cases)
    case Nil
    then have "heap_chain s (kb_next s a) ws 0" using assms(1) by simp
    moreover have "t = s\<lparr>free_list := kb_next s a\<rparr>" using Nil by (simp add: t_def heap_unlink_def)
    ultimately show ?thesis using Nil by (simp add: heap_chain_def)
  next
    case (snoc us x)
    obtain p k where x: "x = (p, k)" by fastforce
    from assms(1) snoc x have c: "heap_chain s (free_list s) us p" "p \<noteq> 0" "unat (kb_size s p) = k"
        "heap_chain s (kb_next s a) ws 0" by auto
    from heap_chain_distinct [OF assms(1)] snoc x have p: "p \<notin> fst ` set us" "p \<notin> fst ` set ws" by auto
    have t: "t = s\<lparr>kb_next := (kb_next s)(p := kb_next s a)\<rparr>"
      using c(2) snoc x by (simp add: t_def heap_unlink_def)
    have "heap_chain t b us d \<longleftrightarrow> heap_chain s b us d" "heap_chain t b ws d \<longleftrightarrow> heap_chain s b ws d" for b d
      by (rule heap_chain_cong; use p t in force)+
    then show ?thesis using c snoc x t by simp
  qed
qed

definition taken :: "nat \<Rightarrow> nat \<Rightarrow> nat" where
  "taken want n = (if want + 32 \<le> n then want else n)"

definition leftover :: "nat \<Rightarrow> nat \<Rightarrow> nat \<Rightarrow> region list" where
  "leftover want a n = (if want + 32 \<le> n then [(a + want, n - want)] else [])"

lemma heap_inv_regionD:
  assumes "heap_inv s xs" "(a, n) \<in> set xs"
  shows "kmalloc_heap s \<le> a" "a + n \<le> kmalloc_heap s + 0x800000" "32 \<le> n" "n \<le> 0x800000"
    and "unat (kb_size s a) = n"
  using assms by (force simp: heap_inv_def heap_chain_def)+

lemma heap_split_chain:
  assumes "heap_inv s (ys @ (a, n) # zs)" "0 < unat t" "unat t \<le> n"
  defines "u \<equiv> heap_split a t s"
  shows "heap_chain u (free_list u) (ys @ (a, taken (unat t) n) # leftover (unat t) a n @ zs) 0"
proof -
  note a = heap_inv_regionD [OF assms(1), of a n, simplified]
  have fit: "t + KMALLOC_MIN_BLOCK \<le> kb_size s a \<longleftrightarrow> unat t + 32 \<le> n"
  proof -
    have "unat (t + 32) = unat t + 32" using a assms(3) by (subst unat_add_lem [THEN iffD1]) simp_all
    then show ?thesis using a(5) by (simp add: word_le_nat_alt KMALLOC_MIN_BLOCK_def)
  qed
  from assms(1) have c: "heap_chain s (free_list s) ys a" "a \<noteq> 0" "heap_chain s (kb_next s a) zs 0"
    by (auto simp: heap_inv_def)
  show ?thesis
  proof (cases "unat t + 32 \<le> n")
    case True
    let ?b = "a + unat t"
    have out: "\<forall>x\<in>set (ys @ zs). fst x \<noteq> a \<and> fst x \<noteq> ?b"
      using assms(1,2) True by (auto simp: heap_inv_def)
    have u: "u = s\<lparr>kb_size := (kb_size s)(?b := kb_size s a - t, a := t),
                   kb_next := (kb_next s)(?b := kb_next s a, a := ?b)\<rparr>"
      using True fit assms(2) by (simp add: u_def heap_split_def Let_def fun_upd_twist)
    have "unat (kb_size s a - t) = n - unat t"
      using a(5) assms(3) by (simp add: unat_sub word_le_nat_alt)
    moreover have "heap_chain u b ys d \<longleftrightarrow> heap_chain s b ys d" "heap_chain u b zs d \<longleftrightarrow> heap_chain s b zs d" for b d
      by (rule heap_chain_cong; use out u in force)+
    ultimately show ?thesis using c True u assms(2) by (simp add: taken_def leftover_def)
  next
    case False
    then have "u = s" using fit by (simp add: u_def heap_split_def)
    then show ?thesis using c a(5) False by (simp add: taken_def leftover_def)
  qed
qed

lemma heap_take_inv:
  assumes "heap_inv s (ys @ (a, n) # zs)" "0 < unat t" "unat t \<le> n"
  defines "u \<equiv> heap_unlink a (if ys = [] then 0 else fst (last ys)) (heap_split a t s)"
  shows "heap_inv u (ys @ leftover (unat t) a n @ zs)" "unat (kb_size u a) = taken (unat t) n"
proof -
  note c = heap_split_chain [OF assms(1-3)]
  note r = heap_unlink_chain [OF c, folded u_def]
  from c r(2) show "unat (kb_size u a) = taken (unat t) n" by auto
  have "used_view u = used_view s" by (simp add: u_def)
  then have h: "kmalloc_heap u = kmalloc_heap s" by (rule used_view_heap)
  from assms(1-3) r(1) h show "heap_inv u (ys @ leftover (unat t) a n @ zs)"
    by (force simp: heap_inv_def leftover_def)
qed

lemma heap_request_pos: "32 \<le> unat (heap_request sz)"
  by (simp add: heap_request_def Let_def KMALLOC_MIN_BLOCK_def word_less_nat_alt)

lemma heap_alloc_cases:
  assumes inv: "heap_inv s xs" and sz: "\<not> sz > - 1 - KMALLOC_BLOCK_T_SIZE"
  defines "T \<equiv> unat (heap_request sz)"
  obtains (full) "\<forall>x\<in>set xs. snd x < T" "heap_alloc sz s = Some (s, 0)"
  | (fit) ys a n zs t where "xs = ys @ (a, n) # zs" "best_at T ys n zs"
      "heap_alloc sz s = Some (t, a + 16)" "heap_inv t (ys @ leftover T a n @ zs)"
      "unat (kb_size t a) = taken T n" "slab_view t = slab_view s" "kmalloc_heap t = kmalloc_heap s"
      "kmalloc_heap_used t = kmalloc_heap_used s + kb_size t a"
      "kmalloc_total_used t = kmalloc_total_used s + kb_size t a"
proof -
  have small: "snd x < 2 ^ 64 - 1" if "x \<in> set xs" for x
    using heap_inv_regionD(4) [OF inv, of "fst x" "snd x"] that by simp
  have scan: "find_best_fit s (heap_request sz) (free_list s) 0 0 0 (- 1)
      = Some (best_scan T (2 ^ 64 - 1) 0 (0, 0) xs)"
    using inv find_best_fit_scan [of s "free_list s" xs "heap_request sz" 0 0 0 "- 1"]
    by (simp add: heap_inv_def T_def unsigned_minus_1_eq_mask mask_eq_exp_minus_1)
  from best_scan_spec [of T "2 ^ 64 - 1" 0 "(0, 0)" xs]
  consider "best_scan T (2 ^ 64 - 1) 0 (0, 0) xs = (0, 0)" "\<forall>x\<in>set xs. T \<le> snd x \<longrightarrow> 2 ^ 64 - 1 \<le> snd x"
    | ys a n zs where "xs = ys @ (a, n) # zs" "best_at T ys n zs"
        "best_scan T (2 ^ 64 - 1) 0 (0, 0) xs = (a, if ys = [] then 0 else fst (last ys))"
    by blast
  then show ?thesis
  proof cases
    case 1
    then have "\<forall>x\<in>set xs. snd x < T" using small by (meson not_le)
    then show ?thesis using full 1(1) scan sz by (simp add: heap_alloc_def)
  next
    case (2 ys a n zs)
    let ?u = "heap_unlink a (if ys = [] then 0 else fst (last ys)) (heap_split a (heap_request sz) s)"
    define t where "t = ?u\<lparr>kmalloc_heap_used := kmalloc_heap_used ?u + kb_size ?u a,
                           kmalloc_total_used := kmalloc_total_used ?u + kb_size ?u a\<rparr>"
    have T: "0 < T" "T \<le> n" using heap_request_pos [of sz] 2(2) by (simp_all add: T_def best_at_def)
    note u = heap_take_inv [OF inv [unfolded 2(1)] T [unfolded T_def], folded T_def]
    have uv: "used_view ?u = used_view s" "slab_view ?u = slab_view s" by simp_all
    have "a \<noteq> 0" using heap_inv_regionD(1) [OF inv, of a n] 2(1) inv by (auto simp: heap_inv_def)
    then have res: "heap_alloc sz s = Some (t, a + 16)"
      using scan sz 2(3) by (simp add: heap_alloc_def Let_def t_def KMALLOC_BLOCK_T_SIZE_def)
    have ti: "heap_inv t (ys @ leftover T a n @ zs)"
      using u(1) by (simp add: heap_inv_def heap_chain_def t_def)
    have "unat (kb_size t a) = taken T n" "slab_view t = slab_view s" "kmalloc_heap t = kmalloc_heap s"
      "kmalloc_heap_used t = kmalloc_heap_used s + kb_size t a"
      "kmalloc_total_used t = kmalloc_total_used s + kb_size t a"
      using u(2) uv by (simp_all add: t_def slab_view_def used_view_def)
    with 2(1,2) res ti show ?thesis by (rule fit)
  qed
qed

subsubsection \<open>Release into the heap\<close>

fun join :: "region list \<Rightarrow> region list" where
  "join ((a, n) # (b, m) # xs) = (if a + n = b then (a, n + m) # xs else (a, n) # (b, m) # xs)"
| "join xs = xs"

definition put_region :: "region \<Rightarrow> region list \<Rightarrow> region list \<Rightarrow> region list" where
  "put_region r ys zs = (if ys = [] then join (r # zs) else butlast ys @ join (last ys # join (r # zs)))"

lemma find_position_walk:
  "links (kb_next s) cur (ys @ zs) 0 \<Longrightarrow> \<forall>y\<in>set ys. y < block \<Longrightarrow> \<forall>z\<in>set zs. block < z \<Longrightarrow>
     find_position s block prev cur = Some (if ys = [] then prev else last ys, if zs = [] then 0 else hd zs)"
proof (induction ys arbitrary: prev cur)
  case Nil
  then show ?case by (subst find_position.simps) (cases zs; auto)
next
  case (Cons y ys)
  then show ?case by (subst find_position.simps) auto
qed

definition free_fits :: "kmalloc \<Rightarrow> nat \<Rightarrow> nat \<Rightarrow> region list \<Rightarrow> region list \<Rightarrow> bool" where
  "free_fits s b n ys zs \<longleftrightarrow> unat (kb_size s b) = n \<and> 32 \<le> n \<and> kmalloc_heap s \<le> b
     \<and> b + n \<le> kmalloc_heap s + 0x800000
     \<and> (\<forall>y\<in>set ys. fst y + snd y \<le> b) \<and> (\<forall>z\<in>set zs. b + n \<le> fst z)"

lemma free_fits_side:
  assumes "heap_inv s (ys @ zs)" "free_fits s b n ys zs"
  shows "\<forall>y\<in>set ys. fst y < b" "\<forall>z\<in>set zs. b < fst z"
proof -
  have "fst y < b" if y: "y \<in> set ys" for y
  proof -
    have "fst y + snd y \<le> b" "32 \<le> snd y"
      using assms y heap_inv_regionD(3) [OF assms(1), of "fst y" "snd y"] by (auto simp: free_fits_def)
    then show ?thesis by simp
  qed
  then show "\<forall>y\<in>set ys. fst y < b" ..
  show "\<forall>z\<in>set zs. b < fst z" using assms(2) by (fastforce simp: free_fits_def)
qed

lemma heap_link_chain:
  assumes "heap_inv s (ys @ zs)" "free_fits s b n ys zs"
  defines "t \<equiv> heap_link b (if ys = [] then 0 else fst (last ys)) (if zs = [] then 0 else fst (hd zs)) s"
  shows "heap_chain t (free_list t) (ys @ (b, n) # zs) 0" "kb_size t = kb_size s"
proof -
  show "kb_size t = kb_size s" by (simp add: t_def heap_link_def Let_def)
  have b: "b \<noteq> 0" "unat (kb_size s b) = n" using assms(1,2) by (auto simp: heap_inv_def free_fits_def)
  note side = free_fits_side [OF assms(1,2)]
  then have out: "\<forall>x\<in>set (ys @ zs). fst x \<noteq> b" by auto
  from assms(1) obtain c where c: "heap_chain s (free_list s) ys c" "heap_chain s c zs 0"
    by (auto simp: heap_inv_def)
  then have cz: "c = (if zs = [] then 0 else fst (hd zs))" by (cases zs) auto
  show "heap_chain t (free_list t) (ys @ (b, n) # zs) 0"
  proof (cases ys rule: rev_cases)
    case Nil
    have t: "t = s\<lparr>kb_next := (kb_next s)(b := c), free_list := b\<rparr>"
      using Nil cz by (simp add: t_def heap_link_def Let_def)
    have "heap_chain t c zs 0 \<longleftrightarrow> heap_chain s c zs 0" by (rule heap_chain_cong) (use out t in force)
    then show ?thesis using Nil b c t by simp
  next
    case (snoc us x)
    obtain p k where x: "x = (p, k)" by fastforce
    have us: "heap_chain s (free_list s) us p" "p \<noteq> 0" "unat (kb_size s p) = k" using c snoc x by auto
    from assms(1) have "distinct (map fst (ys @ zs))" unfolding heap_inv_def by (blast dest: heap_chain_distinct)
    with snoc x have p: "p \<notin> fst ` set us" "p \<notin> fst ` set zs" by auto
    have pb: "p \<noteq> b" using out snoc x by auto
    have t: "t = s\<lparr>kb_next := (kb_next s)(b := c, p := b)\<rparr>"
      using snoc x us cz by (simp add: t_def heap_link_def Let_def)
    have "heap_chain t d us e \<longleftrightarrow> heap_chain s d us e" "heap_chain t d zs e \<longleftrightarrow> heap_chain s d zs e" for d e
      by (rule heap_chain_cong; use out p snoc t in force)+
    then show ?thesis using us b c pb snoc x t by simp
  qed
qed

definition regions :: "region list \<Rightarrow> nat set" where
  "regions xs = (\<Union>x\<in>set xs. {fst x..<fst x + snd x})"

lemma regions_simps [simp]:
  "regions [] = {}" "regions (x # xs) = {fst x..<fst x + snd x} \<union> regions xs"
  "regions (xs @ ys) = regions xs \<union> regions ys"
  by (auto simp: regions_def)

lemma join_regions: "regions (join xs) = regions xs"
  by (induction xs rule: join.induct) auto

lemma join_within:
  "\<forall>x\<in>set xs. lo \<le> fst x \<and> fst x + snd x \<le> hi \<and> 32 \<le> snd x \<Longrightarrow>
   \<forall>x\<in>set (join xs). lo \<le> fst x \<and> fst x + snd x \<le> hi \<and> (32::nat) \<le> snd x"
  by (induction xs rule: join.induct) auto

lemma join_spaced: "spaced xs \<Longrightarrow> \<forall>x\<in>set xs. a + n \<le> fst x \<Longrightarrow> spaced (join ((a, n) # xs))"
  by (cases xs) fastforce+

lemma join_ge: "\<forall>x\<in>set xs. a \<le> fst x \<Longrightarrow> \<forall>x\<in>set (join ((a, n) # xs)). a \<le> fst x"
  by (cases xs) (fastforce split: if_splits)+

lemma join_hd: "\<exists>m xs'. join ((a, n) # xs) = (a, m) # xs' \<and> m \<le> n + (if xs = [] then 0 else snd (hd xs))"
  by (cases xs) auto

lemma heap_merge_next_chain:
  assumes "heap_chain s (free_list s) (us @ (a, n) # ws) 0" "\<forall>x\<in>set ((a, n) # ws). snd x < 2 ^ 63"
  defines "t \<equiv> heap_merge_next a s"
  shows "heap_chain t (free_list t) (us @ join ((a, n) # ws)) 0"
proof (cases ws)
  case Nil
  then show ?thesis using assms(1) by (auto simp: t_def heap_merge_next_def)
next
  case (Cons w vs)
  obtain c m where w: "w = (c, m)" by fastforce
  from assms(1) Cons w have c: "heap_chain s (free_list s) us a" "a \<noteq> 0" "unat (kb_size s a) = n"
    "kb_next s a = c" "c \<noteq> 0" "unat (kb_size s c) = m" "heap_chain s (kb_next s c) vs 0" by auto
  show ?thesis
  proof (cases "a + n = c")
    case True
    from heap_chain_distinct [OF assms(1)] have a: "a \<notin> fst ` set us" "a \<notin> fst ` set vs" using Cons by auto
    have t: "t = s\<lparr>kb_size := (kb_size s)(a := kb_size s a + kb_size s c), kb_next := (kb_next s)(a := kb_next s c)\<rparr>"
      using True c by (simp add: t_def heap_merge_next_def Let_def)
    have "n + m < 2 ^ 64" using assms(2) Cons w by simp
    then have "unat (kb_size s a + kb_size s c) = n + m" using c by (simp add: unat_add_lem [THEN iffD1])
    moreover have "heap_chain t d us e \<longleftrightarrow> heap_chain s d us e" "heap_chain t d vs e \<longleftrightarrow> heap_chain s d vs e" for d e
      by (rule heap_chain_cong; use a t in force)+
    ultimately show ?thesis using c True Cons w t by simp
  next
    case False
    then have "t = s" using c by (simp add: t_def heap_merge_next_def)
    then show ?thesis using assms(1) False Cons w by simp
  qed
qed

lemma heap_merge_prev_eq:
  "kb_next s prev = block \<Longrightarrow> block \<noteq> 0 \<Longrightarrow> prev \<noteq> 0 \<Longrightarrow> heap_merge_prev block prev s = heap_merge_next prev s"
  by (simp add: heap_merge_prev_def heap_merge_next_def Let_def)

lemma heap_merge_chain:
  assumes ch: "heap_chain s (free_list s) (ys @ (b, n) # zs) 0"
    and small: "\<forall>x\<in>set (ys @ (b, n) # zs). snd x < 2 ^ 62"
  defines "t \<equiv> heap_merge_prev b (if ys = [] then 0 else fst (last ys)) (heap_merge_next b s)"
  shows "heap_chain t (free_list t) (put_region (b, n) ys zs) 0"
proof -
  define u where "u = heap_merge_next b s"
  have small': "snd x < 2 ^ 63" if "x \<in> set (ys @ (b, n) # zs)" for x using bspec [OF small that] by simp
  have u: "heap_chain u (free_list u) (ys @ join ((b, n) # zs)) 0"
    unfolding u_def by (rule heap_merge_next_chain [OF ch]) (intro ballI small'; auto)
  show ?thesis
  proof (cases ys rule: rev_cases)
    case Nil
    then show ?thesis using u by (simp add: t_def u_def put_region_def heap_merge_prev_def)
  next
    case (snoc us x)
    obtain p k where x: "x = (p, k)" by fastforce
    obtain m vs where j: "join ((b, n) # zs) = (b, m) # vs" "m \<le> n + (if zs = [] then 0 else snd (hd zs))"
      using join_hd by blast
    from small have "\<forall>x\<in>set zs. snd x < 2 ^ 62" "n < 2 ^ 62" by auto
    with j(2) have m: "m < 2 ^ 63" by (cases zs) auto
    have vs: "set vs \<subseteq> set zs" using j(1) by (cases zs) (auto split: if_splits)
    from u snoc x j(1) have up: "kb_next u p = b" "b \<noteq> 0" "p \<noteq> 0" by auto
    have bnd: "\<forall>x\<in>set ((p, k) # (b, m) # vs). snd x < 2 ^ 63"
      using small' [of "(p, k)"] small' m vs snoc x by (fastforce simp del: power_numeral)
    have "t = heap_merge_next p u" using heap_merge_prev_eq [OF up] snoc x by (simp add: t_def u_def)
    moreover have "heap_chain u (free_list u) (us @ (p, k) # (b, m) # vs) 0" using u snoc x j(1) by simp
    ultimately show ?thesis
      using heap_merge_next_chain [OF _ bnd, of u us] snoc x j(1) by (simp add: put_region_def)
  qed
qed

lemma put_region_props:
  assumes "spaced (ys @ zs)" "\<forall>y\<in>set ys. fst y + snd y \<le> b" "\<forall>z\<in>set zs. b + n \<le> fst z"
    and "\<forall>x\<in>set ((b, n) # ys @ zs). lo \<le> fst x \<and> fst x + snd x \<le> hi \<and> 32 \<le> snd x"
  shows "spaced (put_region (b, n) ys zs)"
    and "\<forall>x\<in>set (put_region (b, n) ys zs). lo \<le> fst x \<and> fst x + snd x \<le> hi \<and> (32::nat) \<le> snd x"
    and "regions (put_region (b, n) ys zs) = {b..<b + n} \<union> regions (ys @ zs)"
proof -
  have r: "spaced (join ((b, n) # zs))" by (rule join_spaced) (use assms in auto)
  have w: "\<forall>x\<in>set (join ((b, n) # zs)). lo \<le> fst x \<and> fst x + snd x \<le> hi \<and> 32 \<le> snd x"
    by (rule join_within) (use assms(4) in auto)
  have ge: "\<forall>x\<in>set (join ((b, n) # zs)). b \<le> fst x" by (rule join_ge) (use assms(3) in fastforce)
  show "spaced (put_region (b, n) ys zs)"
  proof (cases ys rule: rev_cases)
    case Nil
    then show ?thesis using r by (simp add: put_region_def)
  next
    case (snoc us x)
    obtain p k where x: "x = (p, k)" by fastforce
    have "spaced (join ((p, k) # join ((b, n) # zs)))"
      by (rule join_spaced [OF r]) (use ge assms(2) snoc x in fastforce)
    moreover have "\<forall>y\<in>set (join ((p, k) # join ((b, n) # zs))). p \<le> fst y"
      by (rule join_ge) (use ge assms(2) snoc x in fastforce)
    ultimately show ?thesis using assms(1) snoc x by (fastforce simp: put_region_def)
  qed
  show "\<forall>x\<in>set (put_region (b, n) ys zs). lo \<le> fst x \<and> fst x + snd x \<le> hi \<and> 32 \<le> snd x"
  proof (cases ys rule: rev_cases)
    case Nil
    then show ?thesis using w by (simp add: put_region_def)
  next
    case (snoc us x)
    have "\<forall>x\<in>set (join (x # join ((b, n) # zs))). lo \<le> fst x \<and> fst x + snd x \<le> hi \<and> 32 \<le> snd x"
      by (rule join_within) (use w assms(4) snoc in auto)
    then show ?thesis using assms(4) snoc by (auto simp: put_region_def)
  qed
  show "regions (put_region (b, n) ys zs) = {b..<b + n} \<union> regions (ys @ zs)"
    by (cases ys rule: rev_cases) (auto simp: put_region_def join_regions)
qed

lemma heap_free_ok:
  assumes inv: "heap_inv s (ys @ zs)" and fits: "free_fits s b n ys zs"
  shows "\<exists>t. heap_free (b + 16) s = Some t \<and> heap_inv t (put_region (b, n) ys zs) \<and> slab_view t = slab_view s
    \<and> kmalloc_heap t = kmalloc_heap s \<and> kmalloc_heap_used t = kmalloc_heap_used s - kb_size s b
    \<and> kmalloc_total_used t = kmalloc_total_used s - kb_size s b"
proof -
  define r where "r = s\<lparr>kmalloc_heap_used := kmalloc_heap_used s - kb_size s b,
                        kmalloc_total_used := kmalloc_total_used s - kb_size s b\<rparr>"
  let ?prev = "if ys = [] then 0 else fst (last ys)" and ?cur = "if zs = [] then 0 else fst (hd zs)"
  define u where "u = heap_link b ?prev ?cur r"
  define t where "t = heap_merge_prev b ?prev (heap_merge_next b u)"
  have ri: "heap_inv r (ys @ zs)" "free_fits r b n ys zs"
    using inv fits by (simp_all add: r_def heap_inv_def heap_chain_def free_fits_def)
  note side = free_fits_side [OF ri]
  have "links (kb_next r) (free_list r) (map fst ys @ map fst zs) 0"
    using ri(1) by (simp add: heap_inv_def heap_chain_def)
  then have "find_position r b 0 (free_list r) = Some (?prev, ?cur)"
    using find_position_walk [of r "free_list r" "map fst ys" "map fst zs" b 0] side
    by (simp add: last_map hd_map)
  moreover have "heap_free (b + 16) s = (case find_position r b 0 (free_list r) of None \<Rightarrow> None
      | Some (prev, cur) \<Rightarrow> Some (heap_merge_prev b prev (heap_merge_next b (heap_link b prev cur r))))"
    unfolding heap_free_def KMALLOC_BLOCK_T_SIZE_def Let_def r_def by (simp cong: option.case_cong)
  ultimately have res: "heap_free (b + 16) s = Some t" unfolding t_def u_def by simp
  note u = heap_link_chain [OF ri, folded u_def]
  have "snd x < 2 ^ 62" if "x \<in> set (ys @ (b, n) # zs)" for x
    using heap_inv_regionD(4) [OF ri(1), of "fst x" "snd x"] that fits by (auto simp: free_fits_def)
  then have ch: "heap_chain t (free_list t) (put_region (b, n) ys zs) 0"
    unfolding t_def by (intro heap_merge_chain [OF u(1)] ballI)
  have uv: "used_view t = used_view r" "slab_view t = slab_view r" by (simp_all add: t_def u_def)
  have "\<forall>x\<in>set ((b, n) # ys @ zs). kmalloc_heap r \<le> fst x \<and> fst x + snd x \<le> kmalloc_heap r + 0x800000 \<and> 32 \<le> snd x"
    using ri by (auto simp: heap_inv_def free_fits_def)
  note pr = put_region_props [OF _ _ _ this]
  have "heap_inv t (put_region (b, n) ys zs)"
    using ch pr(1,2) ri uv(1) by (simp add: heap_inv_def free_fits_def used_view_def)
  with res uv show ?thesis by (simp add: r_def used_view_def slab_view_def)
qed

lemma put_region_undo:
  assumes "spaced (ys @ (a, n) # zs)" "want \<le> n"
  shows "put_region (a, taken want n) ys (leftover want a n @ zs) = ys @ (a, n) # zs"
proof -
  have "join ((a, taken want n) # leftover want a n @ zs) = (a, n) # zs"
    using assms by (cases zs) (auto simp: taken_def leftover_def)
  moreover have "fst (last ys) + snd (last ys) \<noteq> a" if "ys \<noteq> []"
    using assms(1) that by (cases ys rule: rev_cases) auto
  ultimately show ?thesis by (cases ys rule: rev_cases) (auto simp: put_region_def split: prod.splits)
qed

lemma alloc_fits:
  assumes "heap_inv s (ys @ (a, n) # zs)" "want \<le> n" "32 \<le> want"
    and "kmalloc_heap t = kmalloc_heap s" "unat (kb_size t a) = taken want n"
  shows "free_fits t a (taken want n) ys (leftover want a n @ zs)"
proof -
  note a = heap_inv_regionD [OF assms(1), of a n, simplified]
  from assms(1) have "\<forall>y\<in>set ys. fst y + snd y < a" "\<forall>z\<in>set zs. a + n < fst z" by (auto simp: heap_inv_def)
  then show ?thesis
    using a assms(2-5) by (fastforce simp: free_fits_def taken_def leftover_def)
qed

subsection \<open>The slabs as a set of blocks\<close>

abbreviation qnext :: "kmalloc \<Rightarrow> nat \<Rightarrow> nat" where
  "qnext s b \<equiv> unat (km_qword s b)"

definition slab_count :: "nat \<Rightarrow> nat" where
  "slab_count i = (4096 - slab_header) div slab_sizes ! i"

definition slab_block :: "nat \<Rightarrow> nat \<Rightarrow> nat \<Rightarrow> nat" where
  "slab_block i p j = p + slab_header + j * slab_sizes ! i"

definition slab_blocks :: "nat \<Rightarrow> nat \<Rightarrow> nat set" where
  "slab_blocks i p = slab_block i p ` {..<slab_count i}"

definition page_ok :: "kmalloc \<Rightarrow> nat \<Rightarrow> nat \<Rightarrow> nat list \<Rightarrow> bool" where
  "page_ok s i p fs \<longleftrightarrow> links (qnext s) (sp_free_list s p) fs 0 \<and> set fs \<subseteq> slab_blocks i p
     \<and> length fs = unat (sp_free_count s p)"

definition off_heap :: "kmalloc \<Rightarrow> nat \<Rightarrow> bool" where
  "off_heap s p \<longleftrightarrow> p + 4096 \<le> kmalloc_heap s \<or> kmalloc_heap s + 0x800000 \<le> p"

definition slab_page_of :: "kmalloc \<Rightarrow> nat \<Rightarrow> bool" where
  "slab_page_of s p \<longleftrightarrow> page_owned (of_nat p) (km_pmem s) \<and> p < 2 ^ 64 \<and> off_heap s p"

text \<open>\<open>P\<close> gives the pages of each class and \<open>F\<close> the free blocks of each page, in list order.\<close>

definition slab_inv :: "kmalloc \<Rightarrow> (nat \<Rightarrow> nat list) \<Rightarrow> (nat \<Rightarrow> nat list) \<Rightarrow> bool" where
  "slab_inv s P F \<longleftrightarrow> pmem_inv (km_pmem s) \<and> sc_block_size s = slab_sizes
     \<and> length (sc_pages s) = 10 \<and> length (recent_pages s) = 10
     \<and> (\<forall>i<10. links (sp_next s) (sc_pages s ! i) (P i) 0
           \<and> (recent_pages s ! i \<noteq> 0 \<longrightarrow> recent_pages s ! i \<in> set (P i))
           \<and> (\<forall>p\<in>set (P i). slab_page_of s p \<and> page_ok s i p (F p)))
     \<and> (\<forall>i<10. \<forall>j<10. i \<noteq> j \<longrightarrow> set (P i) \<inter> set (P j) = {})
     \<and> (\<forall>q\<in>avail (km_pmem s). off_heap s (unat q))"

definition slab_live :: "kmalloc \<Rightarrow> (nat \<times> nat) set" where
  "slab_live s = {(b, n). \<exists>i ps p fs. i < 10 \<and> n = slab_sizes ! i \<and> links (sp_next s) (sc_pages s ! i) ps 0
     \<and> p \<in> set ps \<and> b \<in> slab_blocks i p \<and> links (qnext s) (sp_free_list s p) fs 0 \<and> b \<notin> set fs}"

definition live_of :: "(nat \<Rightarrow> nat list) \<Rightarrow> (nat \<Rightarrow> nat list) \<Rightarrow> (nat \<times> nat) set" where
  "live_of P F = {(b, n). \<exists>i p. i < 10 \<and> n = slab_sizes ! i \<and> p \<in> set (P i) \<and> b \<in> slab_blocks i p - set (F p)}"

lemma slab_live_eq:
  assumes "slab_inv s P F"
  shows "slab_live s = live_of P F"
proof -
  have P: "links (sp_next s) (sc_pages s ! i) ps 0 \<longleftrightarrow> ps = P i" if "i < 10" for i ps
    using assms that links_unique by (auto simp: slab_inv_def)
  have F: "links (qnext s) (sp_free_list s p) fs 0 \<longleftrightarrow> fs = F p" if "i < 10" "p \<in> set (P i)" for i p fs
    using assms that links_unique by (auto simp: slab_inv_def page_ok_def)
  have "x \<in> slab_live s \<longleftrightarrow> x \<in> live_of P F" for x
  proof
    assume "x \<in> slab_live s"
    then obtain i ps p fs where "i < 10" "snd x = slab_sizes ! i" "links (sp_next s) (sc_pages s ! i) ps 0"
      "p \<in> set ps" "fst x \<in> slab_blocks i p" "links (qnext s) (sp_free_list s p) fs 0" "fst x \<notin> set fs"
      unfolding slab_live_def by force
    moreover from this have "ps = P i" "fs = F p" using P F by auto
    ultimately show "x \<in> live_of P F" unfolding live_of_def by force
  next
    assume "x \<in> live_of P F"
    then obtain i p where "i < 10" "snd x = slab_sizes ! i" "p \<in> set (P i)" "fst x \<in> slab_blocks i p" "fst x \<notin> set (F p)"
      unfolding live_of_def by force
    moreover from this have "links (sp_next s) (sc_pages s ! i) (P i) 0" "links (qnext s) (sp_free_list s p) (F p) 0"
      using P F by auto
    ultimately show "x \<in> slab_live s" unfolding slab_live_def by force
  qed
  then show ?thesis by blast
qed

subsubsection \<open>Blocks of a page\<close>

lemma slab_header_val [simp]: "slab_header = 32"
  by (simp add: slab_header_def align_up_def SLAB_PAGE_T_SIZE_def)

lemma less_10_cases: "i < (10::nat) \<Longrightarrow> i = 0 \<or> i = 1 \<or> i = 2 \<or> i = 3 \<or> i = 4 \<or> i = 5 \<or> i = 6 \<or> i = 7 \<or> i = 8 \<or> i = 9"
  by presburger

lemma slab_size_props:
  assumes "i < 10"
  shows "16 \<le> slab_sizes ! i" "8 dvd slab_sizes ! i" "slab_count i \<le> 254" "0 < slab_count i \<longleftrightarrow> i < 8"
  using less_10_cases [OF assms] by (auto simp: slab_sizes_def slab_count_def)

lemma slab_block_within:
  assumes "b \<in> slab_blocks i p"
  shows "p + 32 \<le> b" "b + slab_sizes ! i \<le> p + 4096" "(b - (p + 32)) mod slab_sizes ! i = 0"
proof -
  obtain j where j: "j < slab_count i" "b = p + 32 + j * slab_sizes ! i"
    using assms by (auto simp: slab_blocks_def slab_block_def)
  have "Suc j * slab_sizes ! i \<le> slab_count i * slab_sizes ! i" using j(1) by (intro mult_right_mono) auto
  also have "\<dots> \<le> 4064" unfolding slab_count_def by (simp add: div_times_less_eq_dividend)
  finally show "b + slab_sizes ! i \<le> p + 4096" using j(2) by simp
  show "p + 32 \<le> b" "(b - (p + 32)) mod slab_sizes ! i = 0" using j(2) by simp_all
qed

lemma slab_block_apart:
  assumes "b \<in> slab_blocks i p" "c \<in> slab_blocks i p" "b \<noteq> c"
  shows "b + slab_sizes ! i \<le> c \<or> c + slab_sizes ! i \<le> b"
proof -
  obtain j k where jk: "b = p + 32 + j * slab_sizes ! i" "c = p + 32 + k * slab_sizes ! i"
    using assms by (auto simp: slab_blocks_def slab_block_def)
  then have "Suc j \<le> k \<or> Suc k \<le> j" using assms(3) by (metis Suc_leI linorder_neq_iff)
  then show ?thesis
    using jk mult_right_mono [of "Suc j" k "slab_sizes ! i"] mult_right_mono [of "Suc k" j "slab_sizes ! i"] by auto
qed

lemma fold_km_store:
  "fold (\<lambda>i s. km_store (ptr + 8 * i) v s) [0..<k] s
     = s\<lparr>km_qword := (\<lambda>a. if \<exists>i<k. a = ptr + 8 * i then v else km_qword s a)\<rparr>"
proof (induction k)
  case 0
  then show ?case by simp
next
  case (Suc k)
  have "(\<lambda>a. if \<exists>i<k. a = ptr + 8 * i then v else km_qword s a)(ptr + 8 * k := v)
      = (\<lambda>a. if \<exists>i<Suc k. a = ptr + 8 * i then v else km_qword s a)"
    by (auto simp: fun_eq_iff less_Suc_eq)
  then show ?case using Suc by (simp add: km_store_def)
qed

text \<open>What filling a block of whole quadwords does to the store.\<close>

definition filled :: "nat \<Rightarrow> nat \<Rightarrow> u64 \<Rightarrow> (nat \<Rightarrow> u64) \<Rightarrow> nat \<Rightarrow> u64" where
  "filled ptr len v q a = (if \<exists>i<len div 8. a = ptr + 8 * i then v else q a)"

lemma fill_eq:
  assumes "8 dvd len"
  shows "zero_mem ptr len s = s\<lparr>km_qword := filled ptr len 0 (km_qword s)\<rparr>"
    and "poison_mem ptr len s = s\<lparr>km_qword := filled ptr len 0xCCCCCCCCCCCCCCCC (km_qword s)\<rparr>"
  using assms by (simp_all add: zero_mem_def poison_mem_def Let_def fold_km_store filled_def [abs_def] dvd_eq_mod_eq_0)

lemma filled_outside: "a < ptr \<or> ptr + len \<le> a \<Longrightarrow> filled ptr len v q a = q a"
  by (auto simp: filled_def)

lemma pages_apart:
  assumes "pmem_inv pm" "i < PMEM_MAX_PAGES" "j < PMEM_MAX_PAGES" "page_addr pm i \<noteq> page_addr pm j"
  shows "unat (page_addr pm i) + 4096 \<le> unat (page_addr pm j) \<or> unat (page_addr pm j) + 4096 \<le> unat (page_addr pm i)"
    and "unat (page_addr pm i) + 4096 < 2 ^ 64"
proof -
  have b: "unat (pmem_base pm) + PMEM_MAX_PAGES * 4096 < 2 ^ 64" using assms(1) by (simp add: pmem_inv_def)
  note u = unat_page_addr [OF _ b]
  show "unat (page_addr pm i) + 4096 < 2 ^ 64" using u [OF assms(2)] b assms(2) by simp
  have "i < j \<or> j < i" using assms(4) by (metis linorder_neq_iff)
  then show "unat (page_addr pm i) + 4096 \<le> unat (page_addr pm j) \<or> unat (page_addr pm j) + 4096 \<le> unat (page_addr pm i)"
    using u [OF assms(2)] u [OF assms(3)] by auto
qed

lemma slab_invD:
  assumes "slab_inv s P F" "i < 10"
  shows "links (sp_next s) (sc_pages s ! i) (P i) 0"
    and "p \<in> set (P i) \<Longrightarrow> slab_page_of s p" and "p \<in> set (P i) \<Longrightarrow> page_ok s i p (F p)"
    and "recent_pages s ! i \<noteq> 0 \<Longrightarrow> recent_pages s ! i \<in> set (P i)"
    and "pmem_inv (km_pmem s)" "sc_block_size s = slab_sizes" "length (sc_pages s) = 10" "length (recent_pages s) = 10"
  using assms by (auto simp: slab_inv_def)

lemma slab_class_unique:
  assumes "slab_inv s P F" "i < 10" "j < 10" "p \<in> set (P i)" "p \<in> set (P j)"
  shows "j = i"
proof (rule ccontr)
  assume "j \<noteq> i"
  then have "set (P j) \<inter> set (P i) = {}" using assms(1-3) by (simp add: slab_inv_def)
  then show False using assms(4,5) by blast
qed

lemma slab_page_index:
  assumes "slab_page_of s p"
  obtains k where "k < PMEM_MAX_PAGES" "p = unat (page_addr (km_pmem s) k)" "page_addr (km_pmem s) k = of_nat p" "p \<noteq> 0"
proof -
  from assms obtain k where k: "k < PMEM_MAX_PAGES" "of_nat p = page_addr (km_pmem s) k" "p < 2 ^ 64" "(of_nat p :: u64) \<noteq> 0"
    by (auto simp: slab_page_of_def page_owned_def)
  have "unat (of_nat p :: u64) = p" using k(3) by (simp add: unat_of_nat take_bit_nat_eq_self)
  then have "p = unat (page_addr (km_pmem s) k)" using k(2) by simp
  moreover have "p \<noteq> 0" using k(4) by (cases "p = 0") auto
  ultimately show ?thesis using k(1) k(2) [symmetric] that by blast
qed

lemma slab_pages_apart:
  assumes "pmem_inv (km_pmem s)" "slab_page_of s p" "slab_page_of s q" "p \<noteq> q"
  shows "p + 4096 \<le> q \<or> q + 4096 \<le> p"
proof -
  obtain k where k: "k < PMEM_MAX_PAGES" "p = unat (page_addr (km_pmem s) k)" by (rule slab_page_index [OF assms(2)])
  obtain l where l: "l < PMEM_MAX_PAGES" "q = unat (page_addr (km_pmem s) l)" by (rule slab_page_index [OF assms(3)])
  have "page_addr (km_pmem s) k \<noteq> page_addr (km_pmem s) l" using k(2) l(2) assms(4) by metis
  then show ?thesis using pages_apart(1) [OF assms(1) k(1) l(1)] k l by simp
qed

lemma page_ok_frame:
  assumes "page_ok s i q fs" "sp_free_list t q = sp_free_list s q" "sp_free_count t q = sp_free_count s q"
    and "\<And>a. q + 32 \<le> a \<Longrightarrow> a < q + 4096 \<Longrightarrow> i < 10 \<Longrightarrow> km_qword t a = km_qword s a" "i < 10"
  shows "page_ok t i q fs"
proof -
  have "qnext t b = qnext s b" if b: "b \<in> set fs" for b
  proof -
    have "b \<in> slab_blocks i q" using assms(1) b by (auto simp: page_ok_def)
    then have "q + 32 \<le> b" "b < q + 4096"
      using slab_block_within(1,2) [of b i q] slab_size_props(1) [OF assms(5)] by auto
    then show ?thesis using assms(4,5) by simp
  qed
  then have "links (qnext t) a fs 0 \<longleftrightarrow> links (qnext s) a fs 0" for a by (intro links_cong)
  then show ?thesis using assms(1-3) by (simp add: page_ok_def)
qed

text \<open>An operation that touches one slab page keeps the invariant if it keeps that page well formed.\<close>

lemma slab_inv_one_page:
  assumes inv: "slab_inv s P F" and i: "i < 10" "p \<in> set (P i)" and new: "page_ok t i p fs"
    and same: "km_pmem t = km_pmem s" "sc_pages t = sc_pages s" "sc_block_size t = sc_block_size s"
      "sp_next t = sp_next s" "kmalloc_heap t = kmalloc_heap s" "length (recent_pages t) = 10"
    and recent: "\<And>j. j < 10 \<Longrightarrow> recent_pages t ! j \<noteq> 0 \<Longrightarrow> recent_pages t ! j \<in> set (P j)"
    and lists: "\<And>q. q \<noteq> p \<Longrightarrow> sp_free_list t q = sp_free_list s q \<and> sp_free_count t q = sp_free_count s q"
    and words: "\<And>a. a < p + 32 \<or> p + 4096 \<le> a \<Longrightarrow> km_qword t a = km_qword s a"
  shows "slab_inv t P (F(p := fs))"
proof -
  have "page_ok t j q ((F(p := fs)) q)" if j: "j < 10" "q \<in> set (P j)" for j q
  proof (cases "q = p")
    case True
    then have "j = i" using slab_class_unique [OF inv i(1) j(1) i(2)] j(2) by simp
    then show ?thesis using new True by simp
  next
    case False
    have "p + 4096 \<le> q \<or> q + 4096 \<le> p"
      using slab_pages_apart [OF slab_invD(5) [OF inv i(1)] slab_invD(2) [OF inv i] slab_invD(2) [OF inv j]] False by simp
    then have "page_ok t j q (F q)"
      by (intro page_ok_frame [OF slab_invD(3) [OF inv j]] words conjunct1 [OF lists [OF False]]
          conjunct2 [OF lists [OF False]]) (use j(1) in auto)
    then show ?thesis using False by simp
  qed
  moreover have "slab_page_of t q \<longleftrightarrow> slab_page_of s q" "off_heap t q \<longleftrightarrow> off_heap s q" for q
    by (simp_all add: slab_page_of_def off_heap_def same)
  ultimately show ?thesis using inv recent same by (simp add: slab_inv_def)
qed

lemma slab_take_ok:
  assumes inv: "slab_inv s P F" and i: "i < 10" "p \<in> set (P i)" and f: "F p = b # fs"
  defines "t \<equiv> fst (slab_take i p s)"
  shows "snd (slab_take i p s) = b" "b \<noteq> 0" "slab_inv t P (F(p := fs))"
    and "\<forall>k < slab_sizes ! i div 8. km_qword t (b + 8 * k) = 0"
    and "kb_size t = kb_size s" "kb_next t = kb_next s" "free_list t = free_list s" "kmalloc_heap t = kmalloc_heap s"
proof -
  note ok = slab_invD(3) [OF inv i, unfolded f page_ok_def]
  then have b: "sp_free_list s p = b" "b \<noteq> 0" "links (qnext s) (qnext s b) fs 0" "b \<in> slab_blocks i p"
      "set fs \<subseteq> slab_blocks i p" "Suc (length fs) = unat (sp_free_count s p)" "distinct (b # fs)"
    using links_distinct by fastforce+
  have t: "slab_take i p s = (s\<lparr>sp_free_list := (sp_free_list s)(p := qnext s b),
      sp_free_count := (sp_free_count s)(p := sp_free_count s p - 1),
      kmalloc_slab_used := kmalloc_slab_used s + of_nat (slab_sizes ! i),
      kmalloc_total_used := kmalloc_total_used s + of_nat (slab_sizes ! i),
      km_qword := filled b (slab_sizes ! i) 0 (km_qword s)\<rparr>, b)"
    using b(1) slab_invD(6) [OF inv i(1)] fill_eq(1) [OF slab_size_props(2) [OF i(1)]]
    by (simp add: slab_take_def Let_def)
  note w = slab_block_within [OF b(4)]
  have "qnext t c = qnext s c" if c: "c \<in> set fs" for c
  proof -
    have "c \<in> slab_blocks i p" "b \<noteq> c" using c b(5,7) by auto
    then have "c < b \<or> b + slab_sizes ! i \<le> c"
      using slab_block_apart [OF b(4)] slab_size_props(1) [OF i(1)] by fastforce
    then show ?thesis by (simp add: t_def t filled_outside)
  qed
  then have l: "links (qnext t) (qnext s b) fs 0" using b(3) links_cong [of fs "qnext t" "qnext s"] by simp
  have "unat (sp_free_count s p - 1) = unat (sp_free_count s p) - 1"
    using b(6) by (intro unat_minus_one) auto
  then have "page_ok t i p fs" using l b(5,6) by (simp add: page_ok_def t_def t)
  then show "slab_inv t P (F(p := fs))"
    using slab_invD(4,8) [OF inv] i(1) w
    by (intro slab_inv_one_page [OF inv i]) (auto simp: t_def t intro!: filled_outside)
  show "snd (slab_take i p s) = b" "b \<noteq> 0" "kb_size t = kb_size s" "kb_next t = kb_next s" "free_list t = free_list s"
    "kmalloc_heap t = kmalloc_heap s" "\<forall>k < slab_sizes ! i div 8. km_qword t (b + 8 * k) = 0"
    using b(2) by (auto simp: t_def t filled_def)
qed

lemma slab_page_top:
  assumes "slab_inv s P F" "i < 10" "p \<in> set (P i)"
  shows "p + 4096 < 2 ^ 64"
proof -
  obtain k where k: "k < PMEM_MAX_PAGES" "p = unat (page_addr (km_pmem s) k)"
    by (rule slab_page_index [OF slab_invD(2) [OF assms]])
  then show ?thesis
    using unat_page_addr [OF k(1)] slab_invD(5) [OF assms(1,2)] by (simp add: pmem_inv_def)
qed

lemma page_ok_bounds:
  assumes "page_ok s i p fs" "i < 10"
  shows "length fs \<le> 254" "sp_free_list s p < p + 4096"
proof -
  have l: "links (qnext s) (sp_free_list s p) fs 0" "set fs \<subseteq> slab_blocks i p" using assms by (auto simp: page_ok_def)
  have "length fs = card (set fs)" using links_distinct [OF l(1)] by (simp add: distinct_card)
  also have "\<dots> \<le> card (slab_blocks i p)" using l(2) by (intro card_mono) (simp_all add: slab_blocks_def)
  also have "\<dots> \<le> slab_count i" unfolding slab_blocks_def by (rule order.trans [OF card_image_le]) simp_all
  also have "\<dots> \<le> 254" by (rule slab_size_props(3) [OF assms(2)])
  finally show "length fs \<le> 254" .
  show "sp_free_list s p < p + 4096"
  proof (cases fs)
    case Nil
    then show ?thesis using l by simp
  next
    case (Cons c cs)
    then have "c \<in> slab_blocks i p" "sp_free_list s p = c" using l by auto
    then show ?thesis using slab_block_within(2) [of c i p] slab_size_props(1) [OF assms(2)] by simp
  qed
qed

lemma slab_put_ok:
  assumes inv: "slab_inv s P F" and i: "i < 10" "p \<in> set (P i)" and b: "b \<in> slab_blocks i p" "b \<notin> set (F p)"
  defines "t \<equiv> slab_put i p b s"
  shows "slab_inv t P (F(p := b # F p))"
    and "kb_size t = kb_size s" "kb_next t = kb_next s" "free_list t = free_list s" "kmalloc_heap t = kmalloc_heap s"
proof -
  note w = slab_block_within [OF b(1)] and n = slab_size_props [OF i(1)]
  note ok = slab_invD(3) [OF inv i] and top = slab_page_top [OF inv i]
  note bnd = page_ok_bounds [OF ok i(1)]
  define q where "q = (filled b (slab_sizes ! i) 0xCCCCCCCCCCCCCCCC (km_qword s))(b := of_nat (sp_free_list s p))"
  have t: "t = s\<lparr>km_qword := q, sp_free_list := (sp_free_list s)(p := b),
      sp_free_count := (sp_free_count s)(p := sp_free_count s p + 1),
      kmalloc_slab_used := kmalloc_slab_used s - of_nat (slab_sizes ! i),
      kmalloc_total_used := kmalloc_total_used s - of_nat (slab_sizes ! i)\<rparr>"
    using w n(1) by (simp add: t_def slab_put_def Let_def fill_eq(2) [OF n(2)] km_store_def q_def)
  have out: "q a = km_qword s a" if "a < b \<or> b + slab_sizes ! i \<le> a" for a
    using that n(1) by (auto simp: q_def filled_outside)
  have "unat (q b) = sp_free_list s p"
    using bnd(2) top by (simp add: q_def unat_of_nat take_bit_nat_eq_self)
  moreover have "unat (q c) = qnext s c" if c: "c \<in> set (F p)" for c
  proof -
    have "c \<in> slab_blocks i p" "b \<noteq> c" using c ok b(2) by (auto simp: page_ok_def)
    then have "c < b \<or> b + slab_sizes ! i \<le> c" using slab_block_apart [OF b(1)] n(1) by fastforce
    then show ?thesis by (simp add: out)
  qed
  then have "links (\<lambda>c. unat (q c)) a (F p) 0 \<longleftrightarrow> links (qnext s) a (F p) 0" for a by (intro links_cong)
  moreover have "unat (sp_free_count s p + 1) = Suc (unat (sp_free_count s p))"
    using bnd(1) ok by (simp add: page_ok_def unat_word_ariths)
  ultimately have "page_ok t i p (b # F p)"
    using ok w b(1) by (simp add: page_ok_def t)
  then show "slab_inv t P (F(p := b # F p))"
    using slab_invD(4,8) [OF inv] i(1) w
    by (intro slab_inv_one_page [OF inv i]) (auto simp: t intro!: out)
  show "kb_size t = kb_size s" "kb_next t = kb_next s" "free_list t = free_list s" "kmalloc_heap t = kmalloc_heap s"
    by (simp_all add: t)
qed

lemma slab_build_list_ok:
  assumes "0 < n" "0 < data" "data + k * n < 2 ^ 64"
  shows "\<exists>q. slab_build_list data n k s = (s\<lparr>km_qword := q\<rparr>, if k = 0 then 0 else data + (k - 1) * n)
    \<and> links (\<lambda>b. unat (q b)) (if k = 0 then 0 else data + (k - 1) * n) (rev (map (\<lambda>j. data + j * n) [0..<k])) 0
    \<and> (\<forall>a. a \<notin> (\<lambda>j. data + j * n) ` {..<k} \<longrightarrow> q a = km_qword s a)"
  using assms(3)
proof (induction k)
  case 0
  then show ?case by (intro exI [of _ "km_qword s"]) (simp add: slab_build_list_def)
next
  case (Suc k)
  define h where "h = (if k = 0 then 0 else data + (k - 1) * n)"
  let ?b = "data + k * n" and ?old = "rev (map (\<lambda>j. data + j * n) [0..<k])"
  from Suc obtain q where q: "slab_build_list data n k s = (s\<lparr>km_qword := q\<rparr>, h)"
      "links (\<lambda>b. unat (q b)) h ?old 0"
      "\<forall>a. a \<notin> (\<lambda>j. data + j * n) ` {..<k} \<longrightarrow> q a = km_qword s a" by (auto simp: h_def)
  have "h \<le> ?b" by (cases k) (auto simp: h_def)
  then have h: "unat (of_nat h :: u64) = h" using Suc.prems by (simp add: unat_of_nat take_bit_nat_eq_self)
  have "links (\<lambda>b. unat ((q(?b := of_nat h)) b)) h ?old 0 \<longleftrightarrow> links (\<lambda>b. unat (q b)) h ?old 0"
    by (rule links_cong) (use assms(1) in auto)
  moreover have "slab_build_list data n (Suc k) s = (s\<lparr>km_qword := q(?b := of_nat h)\<rparr>, ?b)"
    using q(1) by (simp add: slab_build_list_def km_store_def Let_def)
  ultimately show ?case
    using q h assms(2) by (intro exI [of _ "q(?b := of_nat h)"]) (simp add: lessThan_Suc fun_upd_def)
qed

lemma page_owned_alloc:
  assumes "pmem_inv pm" "page_owned q pm"
  shows "page_owned q (fst (brights_pmem_alloc_page pm))"
  using assms(1)
proof (cases rule: alloc_page_cases)
  case none
  then show ?thesis using assms(2) by simp
next
  case (page k)
  have "free_set (fst (brights_pmem_alloc_page pm)) = free_set pm - {k}"
    using take_page_inv(2) [OF assms(1) page(1)] page(4) by simp
  moreover have "page_addr (fst (brights_pmem_alloc_page pm)) = page_addr pm"
    using page(4) by (simp add: page_addr_def fun_eq_iff bitmap_set_def)
  ultimately show ?thesis using assms(2) by (auto simp: page_owned_def)
qed

lemma off_heap_same: "kmalloc_heap t = kmalloc_heap s \<Longrightarrow> off_heap t = off_heap s"
  by (simp add: off_heap_def fun_eq_iff)

text \<open>A page from the allocator, formatted and linked in front of the pages of its class.\<close>

definition slab_push :: "nat \<Rightarrow> kmalloc \<times> nat \<Rightarrow> kmalloc" where
  "slab_push i r = (fst r)\<lparr>sp_next := (sp_next (fst r))(snd r := sc_pages (fst r) ! i),
                           sc_pages := (sc_pages (fst r))[i := snd r]\<rparr>"

lemma slab_page_init_eq:
  assumes pg: "brights_pmem_alloc_page (km_pmem s) = (pm, pg)" "pg \<noteq> 0" and i: "i < 8" and top: "unat pg + 4096 < 2 ^ 64"
  defines "np \<equiv> unat pg" and "k \<equiv> slab_count i"
  shows "\<exists>q. slab_push i (slab_page_init i s) = s\<lparr>km_pmem := pm, sp_class_idx := (sp_class_idx s)(np := of_nat i),
        sp_free_count := (sp_free_count s)(np := of_nat k), sp_total_count := (sp_total_count s)(np := of_nat k),
        sp_next := (sp_next s)(np := sc_pages s ! i), sc_pages := (sc_pages s)[i := np],
        km_qword := q, sp_free_list := (sp_free_list s)(np := slab_block i np (k - 1))\<rparr>
    \<and> snd (slab_page_init i s) = np
    \<and> links (\<lambda>b. unat (q b)) (slab_block i np (k - 1)) (rev (map (slab_block i np) [0..<k])) 0
    \<and> (\<forall>a. a < np + 32 \<or> np + 4096 \<le> a \<longrightarrow> q a = km_qword s a)"
proof -
  note n = slab_size_props [of i]
  have k: "k = 4064 div slab_sizes ! i" "k \<noteq> 0" using i n by (simp_all add: k_def slab_count_def)
  let ?s2 = "s\<lparr>km_pmem := pm, sp_class_idx := (sp_class_idx s)(np := of_nat i),
       sp_free_count := (sp_free_count s)(np := of_nat k), sp_total_count := (sp_total_count s)(np := of_nat k),
       sp_next := (sp_next s)(np := 0)\<rparr>"
  have "k * slab_sizes ! i \<le> 4064" unfolding k(1) by (simp add: div_times_less_eq_dividend)
  then have fit: "np + 32 + k * slab_sizes ! i < 2 ^ 64" using top unfolding np_def by simp
  obtain q where q: "slab_build_list (np + 32) (slab_sizes ! i) k ?s2 = (?s2\<lparr>km_qword := q\<rparr>, slab_block i np (k - 1))"
      "links (\<lambda>b. unat (q b)) (slab_block i np (k - 1)) (rev (map (slab_block i np) [0..<k])) 0"
      "\<forall>a. a \<notin> slab_block i np ` {..<k} \<longrightarrow> q a = km_qword s a"
    using slab_build_list_ok [OF _ _ fit, of ?s2] n(1) i k(2) by (auto simp: slab_block_def [abs_def])
  have init: "slab_page_init i s = (?s2\<lparr>km_qword := q, sp_free_list := (sp_free_list s)(np := slab_block i np (k - 1))\<rparr>, np)"
    using pg q(1) k by (simp add: slab_page_init_def Let_def np_def k_def)
  have "q a = km_qword s a" if a: "a < np + 32 \<or> np + 4096 \<le> a" for a
  proof -
    have "a \<notin> slab_blocks i np"
    proof
      assume "a \<in> slab_blocks i np"
      from slab_block_within(1,2) [OF this] show False using a n(1) i by simp
    qed
    then show ?thesis using q(3) by (simp add: slab_blocks_def k_def)
  qed
  with init q(2) show ?thesis by (intro exI [of _ q]) (simp add: slab_push_def)
qed

lemma slab_fresh_ok:
  assumes inv: "slab_inv s P F" and i: "i < 8" and pg: "snd (brights_pmem_alloc_page (km_pmem s)) \<noteq> 0"
  defines "r \<equiv> slab_page_init i s"
  defines "np \<equiv> snd r" and "t \<equiv> slab_push i r" and "fs \<equiv> rev (map (slab_block i (snd r)) [0..<slab_count i])"
  shows "np \<noteq> 0" "\<forall>j<10. np \<notin> set (P j)" "slab_inv t (P(i := np # P i)) (F(np := fs))"
    and "kb_size t = kb_size s" "kb_next t = kb_next s" "free_list t = free_list s" "kmalloc_heap t = kmalloc_heap s"
proof -
  have i10: "i < 10" using i by simp
  note pinv = slab_invD(5) [OF inv i10]
  obtain pm pg' where al: "brights_pmem_alloc_page (km_pmem s) = (pm, pg')" by fastforce
  have pg': "pg' \<noteq> 0" "pg' \<in> avail (km_pmem s)" "avail pm = avail (km_pmem s) - {pg'}" "page_owned pg' pm" "pmem_inv pm"
    using pg al pm.alloc_page [OF pinv] pm.alloc_ok [OF pinv] by auto
  obtain l where l: "l < PMEM_MAX_PAGES" "pg' = page_addr (km_pmem s) l"
    using pg'(2) by (auto simp: avail_def free_set_def)
  have top: "unat pg' + 4096 < 2 ^ 64"
    using unat_page_addr [OF l(1)] pinv l by (simp add: pmem_inv_def)
  obtain q where q: "t = s\<lparr>km_pmem := pm, sp_class_idx := (sp_class_idx s)(np := of_nat i),
        sp_free_count := (sp_free_count s)(np := of_nat (slab_count i)),
        sp_total_count := (sp_total_count s)(np := of_nat (slab_count i)),
        sp_next := (sp_next s)(np := sc_pages s ! i), sc_pages := (sc_pages s)[i := np],
        km_qword := q, sp_free_list := (sp_free_list s)(np := slab_block i np (slab_count i - 1))\<rparr>"
      and np: "np = unat pg'" and ln: "links (\<lambda>b. unat (q b)) (slab_block i np (slab_count i - 1)) fs 0"
      and out: "\<And>a. a < np + 32 \<or> np + 4096 \<le> a \<Longrightarrow> q a = km_qword s a"
    using slab_page_init_eq [OF al pg'(1) i top] unfolding t_def r_def np_def fs_def by auto
  have np0: "np \<noteq> 0" "of_nat np = pg'" using pg'(1) np by (simp_all add: unat_eq_0)
  then show "np \<noteq> 0" by simp
  have new: "np \<notin> set (P j)" if "j < 10" for j
  proof
    assume "np \<in> set (P j)"
    then have "page_owned pg' (km_pmem s)" using slab_invD(2) [OF inv that, of np] np0(2) by (simp add: slab_page_of_def)
    then show False using pm.owned_disjoint pg'(2) by blast
  qed
  then show "\<forall>j<10. np \<notin> set (P j)" by blast
  show heap: "kb_size t = kb_size s" "kb_next t = kb_next s" "free_list t = free_list s" "kmalloc_heap t = kmalloc_heap s"
    by (simp_all add: q)
  have len: "length fs = slab_count i" "set fs = slab_blocks i np"
    by (auto simp: fs_def np_def slab_blocks_def atLeast0LessThan)
  have newok: "page_ok t i np fs"
    using ln len slab_size_props(3) [OF i10] by (simp add: page_ok_def q unat_of_nat take_bit_nat_eq_self)
  have newpg: "slab_page_of t np"
  proof -
    have "off_heap s np" using inv pg'(2) by (simp add: slab_inv_def np)
    then show ?thesis using pg'(4) top np np0 by (simp add: slab_page_of_def off_heap_def q)
  qed
  have old: "slab_page_of t p \<and> page_ok t j p (F p)" if j: "j < 10" "p \<in> set (P j)" for j p
  proof -
    note sp = slab_invD(2) [OF inv j]
    then have t: "slab_page_of t p"
      using page_owned_alloc [OF pinv, of "of_nat p"] al by (simp add: slab_page_of_def off_heap_def q)
    have "np \<noteq> p" using new j by blast
    moreover have "np + 4096 \<le> p \<or> p + 4096 \<le> np"
      using slab_pages_apart [OF _ newpg t] calculation pg'(5) by (simp add: q)
    ultimately have "page_ok t j p (F p)"
      by (intro page_ok_frame [OF slab_invD(3) [OF inv j]]) (auto simp: q j intro!: out)
    with t show ?thesis by simp
  qed
  show "slab_inv t (P(i := np # P i)) (F(np := fs))"
    unfolding slab_inv_def
  proof (intro conjI allI impI ballI)
    fix j assume j: "j < (10::nat)"
    show "links (sp_next t) (sc_pages t ! j) ((P(i := np # P i)) j) 0"
      using slab_invD(1,7) [OF inv] j new i10 np0 by (auto simp: q links_upd_other nth_list_update)
    show "recent_pages t ! j \<in> set ((P(i := np # P i)) j)" if "recent_pages t ! j \<noteq> 0"
      using slab_invD(4) [OF inv j] that by (auto simp: q)
    fix p assume p: "p \<in> set ((P(i := np # P i)) j)"
    show "slab_page_of t p" using p old [OF j, of p] newpg by (auto split: if_splits)
    show "page_ok t j p ((F(np := fs)) p)"
      using p old [OF j, of p] newok new [OF j] by (auto split: if_splits)
  next
    fix j k :: nat assume "j < 10" "k < 10" "j \<noteq> k"
    then show "set ((P(i := np # P i)) j) \<inter> set ((P(i := np # P i)) k) = {}"
      using inv new by (auto simp: slab_inv_def)
  next
    fix c assume "c \<in> avail (km_pmem t)"
    then show "off_heap t (unat c)"
      using pg'(3) inv by (simp add: q slab_inv_def off_heap_def)
  qed (use inv pg'(5) in \<open>simp_all add: q slab_inv_def\<close>)
qed

lemma slab_owner_unique:
  assumes "slab_inv s P F" "i < 10" "j < 10" "p \<in> set (P i)" "q \<in> set (P j)"
    and "b \<in> slab_blocks i p" "c \<in> slab_blocks j q" "c < b + slab_sizes ! i" "b < c + slab_sizes ! j"
  shows "q = p \<and> j = i \<and> c = b"
proof -
  note w = slab_block_within [OF assms(6)] slab_block_within [OF assms(7)]
  have "q = p"
  proof (rule ccontr)
    assume "q \<noteq> p"
    from slab_pages_apart [OF slab_invD(5) [OF assms(1,2)] slab_invD(2) [OF assms(1,2,4)] slab_invD(2) [OF assms(1,3,5)]] this
    have "p + 4096 \<le> q \<or> q + 4096 \<le> p" by simp
    then show False using w assms(8,9) by linarith
  qed
  moreover have ji: "j = i" using slab_class_unique [OF assms(1-4)] assms(5) calculation by simp
  moreover have "c = b"
  proof (rule ccontr)
    assume "c \<noteq> b"
    with slab_block_apart [OF assms(6), of c] assms(7) calculation
    have "b + slab_sizes ! i \<le> c \<or> c + slab_sizes ! i \<le> b" by simp
    then show False using assms(8,9) ji by simp
  qed
  ultimately show ?thesis by simp
qed

lemma slab_owner_same:
  assumes "slab_inv s P F" "i < 10" "j < 10" "p \<in> set (P i)" "q \<in> set (P j)" "b \<in> slab_blocks i p" "b \<in> slab_blocks j q"
  shows "q = p \<and> j = i"
  using slab_owner_unique [OF assms] slab_size_props(1) [OF assms(2)] slab_size_props(1) [OF assms(3)] by simp

lemma live_ofI: "i < 10 \<Longrightarrow> p \<in> set (P i) \<Longrightarrow> b \<in> slab_blocks i p \<Longrightarrow> b \<notin> set (F p) \<Longrightarrow> (b, slab_sizes ! i) \<in> live_of P F"
  unfolding live_of_def by blast

lemma live_ofE:
  assumes "x \<in> live_of P F"
  obtains i p where "i < 10" "p \<in> set (P i)" "fst x \<in> slab_blocks i p" "fst x \<notin> set (F p)" "x = (fst x, slab_sizes ! i)"
  using assms unfolding live_of_def by force

lemma live_put:
  assumes inv: "slab_inv s P F" and i: "i < 10" "p \<in> set (P i)" and b: "b \<in> slab_blocks i p" "b \<notin> set fs"
    and f: "\<And>q. q \<noteq> p \<Longrightarrow> F' q = F q" "F' p = b # fs" "F p = fs"
  shows "live_of P F = insert (b, slab_sizes ! i) (live_of P F')" "(b, slab_sizes ! i) \<notin> live_of P F'"
proof -
  have "x \<noteq> (b, slab_sizes ! i) \<and> x \<in> live_of P F" if "x \<in> live_of P F'" for x
    using that
  proof (cases rule: live_ofE)
    case (1 j q)
    have "fst x \<noteq> b" using slab_owner_same [OF inv i(1) 1(1) i(2) 1(2) b(1)] 1(3,4) f(2) by auto
    moreover have "fst x \<notin> set (F q)" using 1(4) f by (cases "q = p") auto
    ultimately show ?thesis using live_ofI [of j q P "fst x" F] 1(1-3,5) by (metis fst_conv)
  qed
  moreover have "x = (b, slab_sizes ! i) \<or> x \<in> live_of P F'" if "x \<in> live_of P F" for x
    using that
  proof (cases rule: live_ofE)
    case (1 j q)
    show ?thesis
    proof (cases "fst x = b")
      case True
      then show ?thesis using slab_owner_same [OF inv i(1) 1(1) i(2) 1(2) b(1)] 1(3,5) by simp
    next
      case False
      then have "fst x \<notin> set (F' q)" using 1(4) f by (cases "q = p") auto
      then show ?thesis using live_ofI [of j q P "fst x" F'] 1(1-3,5) by metis
    qed
  qed
  moreover have "(b, slab_sizes ! i) \<in> live_of P F" using live_ofI [of i p P b F] i b f(3) by simp
  ultimately show "live_of P F = insert (b, slab_sizes ! i) (live_of P F')" "(b, slab_sizes ! i) \<notin> live_of P F'" by blast+
qed

lemma live_fresh:
  assumes "\<forall>j<10. np \<notin> set (P j)" "slab_blocks i np \<subseteq> set fs"
  shows "live_of (P(i := np # P i)) (F(np := fs)) = live_of P F"
proof -
  have "x \<in> live_of P F" if "x \<in> live_of (P(i := np # P i)) (F(np := fs))" for x
    using that
  proof (cases rule: live_ofE)
    case (1 j q)
    then have "q \<noteq> np" using assms by (cases "j = i") auto
    then show ?thesis using 1 live_ofI [of j q P "fst x" F] by (auto split: if_splits)
  qed
  moreover have "x \<in> live_of (P(i := np # P i)) (F(np := fs))" if "x \<in> live_of P F" for x
    using that
  proof (cases rule: live_ofE)
    case (1 j q)
    then have "q \<noteq> np" using assms(1) by auto
    then show ?thesis using 1 live_ofI [of j q "P(i := np # P i)" "fst x" "F(np := fs)"] by (cases "j = i") auto
  qed
  ultimately show ?thesis by blast
qed

lemma find_slab_page_walk:
  "links (sp_next s) sp ps 0 \<Longrightarrow>
     find_slab_page s sp = Some (case find (slab_has_free s) ps of None \<Rightarrow> 0 | Some p \<Rightarrow> p)"
proof (induction ps arbitrary: sp)
  case Nil
  then show ?case by (subst find_slab_page.simps) simp
next
  case (Cons p ps)
  then show ?case by (subst find_slab_page.simps) auto
qed

lemma slab_has_free_iff: "page_ok s i p fs \<Longrightarrow> slab_has_free s p \<longleftrightarrow> fs \<noteq> []"
  by (cases fs) (auto simp: page_ok_def slab_has_free_def word_less_nat_alt)

lemma find_SomeD: "find Q xs = Some x \<Longrightarrow> x \<in> set xs \<and> Q x"
  by (auto simp: find_Some_iff)

subsubsection \<open>Allocation and release of a block\<close>

definition heap_same :: "kmalloc \<Rightarrow> kmalloc \<Rightarrow> bool" where
  "heap_same t s \<longleftrightarrow> kb_size t = kb_size s \<and> kb_next t = kb_next s \<and> free_list t = free_list s
     \<and> kmalloc_heap t = kmalloc_heap s"

lemma heap_same_inv: "heap_same t s \<Longrightarrow> heap_inv t xs \<longleftrightarrow> heap_inv s xs"
  by (simp add: heap_same_def heap_inv_def heap_chain_def)

definition handed_out :: "kmalloc \<Rightarrow> kmalloc \<Rightarrow> nat \<Rightarrow> nat \<Rightarrow> bool" where
  "handed_out s t b n \<longleftrightarrow> b \<noteq> 0 \<and> (\<exists>P F. slab_inv t P F) \<and> heap_same t s
     \<and> (b, n) \<notin> slab_live s \<and> slab_live t = insert (b, n) (slab_live s) \<and> (\<forall>k<n div 8. km_qword t (b + 8 * k) = 0)"

lemma slab_take_handed:
  assumes inv: "slab_inv s P F" and i: "i < 10" "p \<in> set (P i)" and f: "F p \<noteq> []"
  shows "\<exists>t b. slab_take i p s = (t, b) \<and> handed_out s t b (slab_sizes ! i)"
proof -
  obtain b fs where bf: "F p = b # fs" using f by (cases "F p") auto
  obtain t c where tc: "slab_take i p s = (t, c)" by fastforce
  note tk = slab_take_ok [OF inv i bf, unfolded tc, simplified]
  have "page_ok s i p (b # fs)" using slab_invD(3) [OF inv i] bf by simp
  then have "distinct (b # fs)" "b \<in> slab_blocks i p"
    unfolding page_ok_def by (auto simp del: links.simps dest!: links_distinct)
  then have b: "b \<in> slab_blocks i p" "b \<notin> set fs" by simp_all
  note live = live_put [OF tk(3) i b, of F]
  show ?thesis
    using tk live bf slab_live_eq [OF inv] slab_live_eq [OF tk(3)] tc
    by (auto simp: handed_out_def heap_same_def)
qed

lemma handed_out_via:
  assumes "handed_out u t b n" "slab_live u = slab_live s" "heap_same u s"
  shows "handed_out s t b n"
  using assms by (auto simp: handed_out_def heap_same_def)

lemma slab_alloc_ok:
  assumes inv: "slab_inv s P F" and i: "i < 8"
  shows "(\<exists>t b. slab_alloc i s = Some (t, b) \<and> handed_out s t b (slab_sizes ! i))
    \<or> snd (brights_pmem_alloc_page (km_pmem s)) = 0 \<and> slab_alloc i s = Some (s, 0)"
proof -
  have i10: "i < 10" using i by simp
  let ?r = "recent_pages s ! i"
  have free: "slab_has_free s p \<longleftrightarrow> F p \<noteq> []" if "p \<in> set (P i)" for p
    using slab_has_free_iff slab_invD(3) [OF inv i10 that] by blast
  note walk = find_slab_page_walk [OF slab_invD(1) [OF inv i10]]
  consider (recent) "?r \<noteq> 0" "slab_has_free s ?r"
    | (found) p where "\<not> (?r \<noteq> 0 \<and> slab_has_free s ?r)" "find (slab_has_free s) (P i) = Some p"
    | (fresh) "\<not> (?r \<noteq> 0 \<and> slab_has_free s ?r)" "find (slab_has_free s) (P i) = None" by blast
  then show ?thesis
  proof cases
    case recent
    then have "?r \<in> set (P i)" using slab_invD(4) [OF inv i10] by simp
    then show ?thesis using slab_take_handed [OF inv i10] free recent by (auto simp: slab_alloc_def)
  next
    case (found p)
    from find_SomeD [OF found(2)] have p: "p \<in> set (P i)" "slab_has_free s p" by auto
    then have p0: "p \<noteq> 0" using links_nonzero [OF slab_invD(1) [OF inv i10]] by metis
    define u where "u = s\<lparr>recent_pages := (recent_pages s)[i := p]\<rparr>"
    have page: "page_ok u = page_ok s" "slab_page_of u = slab_page_of s" "off_heap u = off_heap s"
      by (simp_all add: u_def page_ok_def slab_page_of_def off_heap_def fun_eq_iff)
    have u: "slab_inv u P F"
      using inv p(1) i10 by (auto simp: slab_inv_def page) (auto simp: u_def nth_list_update split: if_splits)
    obtain t b where "slab_take i p u = (t, b)" "handed_out u t b (slab_sizes ! i)"
      using slab_take_handed [OF u i10 p(1)] free p by auto
    moreover have "slab_live u = slab_live s" using slab_live_eq [OF inv] slab_live_eq [OF u] by simp
    moreover have "heap_same u s" by (simp add: u_def heap_same_def)
    ultimately show ?thesis
      using found walk p0 handed_out_via by (auto simp: slab_alloc_def u_def)
  next
    case fresh
    show ?thesis
    proof (cases "snd (brights_pmem_alloc_page (km_pmem s)) = 0")
      case True
      then have "brights_pmem_alloc_page (km_pmem s) = (km_pmem s, 0)"
        using pm.alloc_null [OF slab_invD(5) [OF inv i10]] by (metis prod.collapse)
      then have "slab_page_init i s = (s, 0)" by (simp add: slab_page_init_def)
      then show ?thesis using True fresh walk by (auto simp: slab_alloc_def)
    next
      case False
      let ?R = "slab_page_init i s"
      let ?fs = "rev (map (slab_block i (snd ?R)) [0..<slab_count i])"
      note fr = slab_fresh_ok [OF inv i False]
      have "?fs \<noteq> []" using slab_size_props(4) [OF i10] i by simp
      then obtain t b where tb: "slab_take i (snd ?R) (slab_push i ?R) = (t, b)"
          "handed_out (slab_push i ?R) t b (slab_sizes ! i)"
        using slab_take_handed [OF fr(3) i10, of "snd ?R"] by auto
      have "slab_live (slab_push i ?R) = slab_live s"
        using live_fresh [OF fr(2), of i ?fs F] slab_live_eq [OF inv] slab_live_eq [OF fr(3)]
        by (auto simp: slab_blocks_def atLeast0LessThan)
      moreover have "heap_same (slab_push i ?R) s" using fr(4-7) by (simp add: heap_same_def)
      ultimately have "handed_out s t b (slab_sizes ! i)" using handed_out_via tb(2) by blast
      moreover have "slab_alloc i s = Some (t, b)"
        using fresh walk fr(1) tb(1) by (auto simp: slab_alloc_def slab_push_def case_prod_unfold)
      ultimately show ?thesis by blast
    qed
  qed
qed

lemma find_slab_owner_walk:
  "links (sp_next s) sp ps 0 \<Longrightarrow>
     find_slab_owner s ptr sp = Some (case find (\<lambda>p. p \<le> ptr \<and> ptr < p + 4096) ps of None \<Rightarrow> 0 | Some p \<Rightarrow> p)"
proof (induction ps arbitrary: sp)
  case Nil
  then show ?case by (subst find_slab_owner.simps) simp
next
  case (Cons p ps)
  then show ?case by (subst find_slab_owner.simps) auto
qed

lemma find_slab_of_none:
  assumes inv: "slab_inv s P F" and "\<forall>i\<in>set is. i < 10 \<and> (\<forall>p\<in>set (P i). ptr < p \<or> p + 4096 \<le> ptr)"
  shows "find_slab_of s ptr is = Some None"
  using assms(2)
proof (induction "is")
  case Nil
  then show ?case by simp
next
  case (Cons i "is")
  have "find (\<lambda>p. p \<le> ptr \<and> ptr < p + 4096) (P i) = None"
    using Cons.prems by (auto simp: find_None_iff)
  then show ?case using Cons find_slab_owner_walk [OF slab_invD(1) [OF inv]] by simp
qed

lemma find_slab_of_some:
  assumes inv: "slab_inv s P F" and p: "i < 10" "p \<in> set (P i)" "p \<le> ptr" "ptr < p + 4096"
    and "set is \<subseteq> {..<10}" "i \<in> set is"
  shows "find_slab_of s ptr is = Some (Some (i, p))"
  using assms(6,7)
proof (induction "is")
  case Nil
  then show ?case by simp
next
  case (Cons j "is")
  have uniq: "q = p \<and> j = i" if q: "q \<in> set (P j)" "q \<le> ptr" "ptr < q + 4096" for q
  proof -
    have j: "j < 10" using Cons.prems by simp
    have "q = p"
      using slab_pages_apart [OF slab_invD(5) [OF inv j] slab_invD(2) [OF inv p(1,2)] slab_invD(2) [OF inv j q(1)]] q p(3,4)
      by fastforce
    then show ?thesis using slab_class_unique [OF inv p(1) j p(2)] q(1) by simp
  qed
  have j10: "j < 10" using Cons.prems by simp
  note walk = find_slab_owner_walk [OF slab_invD(1) [OF inv j10], of ptr]
  show ?case
  proof (cases "find (\<lambda>p. p \<le> ptr \<and> ptr < p + 4096) (P j)")
    case None
    then have "j \<noteq> i" using p by (auto simp: find_None_iff)
    then show ?thesis using Cons None walk by simp
  next
    case (Some q)
    from find_SomeD [OF Some] have "q = p" "j = i" using uniq by auto
    moreover have "p \<noteq> 0" using links_nonzero [OF slab_invD(1) [OF inv p(1)]] p(2) by metis
    ultimately show ?thesis using Some walk by simp
  qed
qed

end
