(* ===== verification/Kheap.thy ===== *)
theory Kheap
  imports Kmalloc
begin

text \<open>
  What the kernel heap of \<open>kernel/kmalloc.c\<close> promises its callers, on the model of theory \<open>Kmalloc\<close>:
  small blocks are fresh, cleared and disjoint through any sequence of calls, large ones are best
  fit and returned without fragmentation; and the two places where the code breaks the promise, the
  page lost by every request between 2049 and 8192 bytes and the size computation that wraps.
\<close>

lemma slab_view_fields:
  assumes "slab_view t = slab_view s"
  shows "km_pmem t = km_pmem s" "sp_next t = sp_next s" "sp_free_list t = sp_free_list s"
    "sp_free_count t = sp_free_count s" "km_qword t = km_qword s" "sc_pages t = sc_pages s"
    "sc_block_size t = sc_block_size s" "recent_pages t = recent_pages s" "kmalloc_heap t = kmalloc_heap s"
  using arg_cong [OF assms, of km_pmem] arg_cong [OF assms, of sp_next] arg_cong [OF assms, of sp_free_list]
    arg_cong [OF assms, of sp_free_count] arg_cong [OF assms, of km_qword] arg_cong [OF assms, of sc_pages]
    arg_cong [OF assms, of sc_block_size] arg_cong [OF assms, of recent_pages] arg_cong [OF assms, of kmalloc_heap]
  by (simp_all add: slab_view_def)

lemma slab_view_inv:
  assumes "slab_view t = slab_view s"
  shows "slab_inv t = slab_inv s" "slab_live t = slab_live s"
  by (simp_all add: fun_eq_iff slab_inv_def slab_live_def page_ok_def slab_page_of_def off_heap_def
      slab_view_fields [OF assms])

definition km_inv :: "kmalloc \<Rightarrow> bool" where
  "km_inv s \<longleftrightarrow> (\<exists>P F. slab_inv s P F) \<and> (\<exists>xs. heap_inv s xs)"

lemma find_slab_class_eq:
  "find_slab_class sz =
     (let n = unat sz in
      if n = 0 \<or> n > 8192 then None
      else Some (if n \<le> 16 then 0 else if n \<le> 32 then 1 else if n \<le> 64 then 2 else if n \<le> 128 then 3
        else if n \<le> 256 then 4 else if n \<le> 512 then 5 else if n \<le> 1024 then 6 else if n \<le> 2048 then 7
        else if n \<le> 4096 then 8 else 9))"
  by (simp add: find_slab_class_def slab_sizes_def SLAB_CLASSES_def upt_rec word_le_nat_alt word_less_nat_alt
      Let_def unat_eq_0)

lemma find_slab_class_small:
  assumes "0 < unat sz" "unat sz \<le> 2048"
  shows "\<exists>i<8. find_slab_class sz = Some i \<and> unat sz \<le> slab_sizes ! i"
  using assms by (auto simp: find_slab_class_eq Let_def slab_sizes_def)

lemma slab_live_disjoint:
  assumes inv: "slab_inv s P F" and x: "x \<in> slab_live s" "y \<in> slab_live s" "x \<noteq> y"
  shows "{fst x..<fst x + snd x} \<inter> {fst y..<fst y + snd y} = {}"
proof (rule ccontr)
  assume "{fst x..<fst x + snd x} \<inter> {fst y..<fst y + snd y} \<noteq> {}"
  then have lt: "fst y < fst x + snd x" "fst x < fst y + snd y" by auto
  from x(1) [unfolded slab_live_eq [OF inv]] obtain i p where
    i: "i < 10" "p \<in> set (P i)" "fst x \<in> slab_blocks i p" "x = (fst x, slab_sizes ! i)" by (rule live_ofE)
  from x(2) [unfolded slab_live_eq [OF inv]] obtain j q where
    j: "j < 10" "q \<in> set (P j)" "fst y \<in> slab_blocks j q" "y = (fst y, slab_sizes ! j)" by (rule live_ofE)
  have "fst y = fst x \<and> j = i"
    using slab_owner_unique [OF inv i(1) j(1) i(2) j(2) i(3) j(3)] lt i(4) j(4) by (metis snd_conv)
  then show False using i(4) j(4) x(3) by metis
qed

lemma heap_alloc_inv:
  assumes "heap_inv s xs"
  shows "\<exists>t b ys. heap_alloc sz s = Some (t, b) \<and> heap_inv t ys \<and> slab_view t = slab_view s"
proof (cases "sz > - 1 - KMALLOC_BLOCK_T_SIZE")
  case True
  then show ?thesis using assms by (auto simp: heap_alloc_def)
next
  case False
  from heap_alloc_cases [OF assms False] show ?thesis by cases (use assms in blast)+
qed

lemma kmalloc_small:
  assumes inv: "slab_inv s P F" "heap_inv s xs" and sz: "0 < unat sz" "unat sz \<le> 2048"
  shows "\<exists>t b n. brights_kmalloc sz s = Some (t, b) \<and> km_inv t \<and> unat sz \<le> n \<and>
    (handed_out s t b n \<or> snd (brights_pmem_alloc_page (km_pmem s)) = 0 \<and> slab_live t = slab_live s)"
proof -
  obtain i where i: "i < 8" "find_slab_class sz = Some i" "unat sz \<le> slab_sizes ! i"
    using find_slab_class_small [OF sz] by blast
  have sz0: "sz \<noteq> 0" using sz(1) by auto
  from slab_alloc_ok [OF inv(1) i(1)] show ?thesis
  proof
    assume "\<exists>t b. slab_alloc i s = Some (t, b) \<and> handed_out s t b (slab_sizes ! i)"
    then obtain t b where t: "slab_alloc i s = Some (t, b)" "handed_out s t b (slab_sizes ! i)" by blast
    then have "km_inv t" using heap_same_inv inv(2) by (auto simp: km_inv_def handed_out_def)
    then show ?thesis using t i sz0 by (auto simp: brights_kmalloc_def handed_out_def)
  next
    assume a: "snd (brights_pmem_alloc_page (km_pmem s)) = 0 \<and> slab_alloc i s = Some (s, 0)"
    obtain t b ys where t: "heap_alloc sz s = Some (t, b)" "heap_inv t ys" "slab_view t = slab_view s"
      using heap_alloc_inv [OF inv(2)] by blast
    then have "km_inv t" "slab_live t = slab_live s"
      using inv(1) slab_view_inv [OF t(3)] by (auto simp: km_inv_def)
    then show ?thesis using t(1) a i sz0 by (auto simp: brights_kmalloc_def)
  qed
qed

lemma kfree_live:
  assumes inv: "slab_inv s P F" "heap_inv s xs" and b: "(b, n) \<in> slab_live s"
  shows "\<exists>t. brights_kfree b s = Some t \<and> km_inv t \<and> slab_live t = slab_live s - {(b, n)} \<and> heap_same t s"
proof -
  from b [unfolded slab_live_eq [OF inv(1)]] obtain i p where
    i: "i < 10" "p \<in> set (P i)" "b \<in> slab_blocks i p" "b \<notin> set (F p)" "n = slab_sizes ! i"
    by (rule live_ofE) auto
  note w = slab_block_within [OF i(3)] and pt = slab_put_ok [OF inv(1) i(1-4)]
  have "find_slab_of s b [0..<SLAB_CLASSES] = Some (Some (i, p))"
    by (rule find_slab_of_some [OF inv(1) i(1,2)])
      (use w slab_size_props(1) [OF i(1)] i(1) in \<open>auto simp: SLAB_CLASSES_def\<close>)
  then have r: "brights_kfree b s = Some (slab_put i p b s)" using w by (simp add: brights_kfree_def)
  have hs: "heap_same (slab_put i p b s) s" using pt(2-5) by (simp add: heap_same_def)
  then have "km_inv (slab_put i p b s)" using pt(1) heap_same_inv inv(2) by (auto simp: km_inv_def)
  moreover have "slab_live (slab_put i p b s) = slab_live s - {(b, n)}"
    using live_put [OF inv(1) i(1-4), of "F(p := b # F p)"] slab_live_eq [OF inv(1)] slab_live_eq [OF pt(1)] i(5)
    by auto
  ultimately show ?thesis using r hs by blast
qed

subsection \<open>Any sequence of requests\<close>

datatype request = Alloc u64 | Release nat

text \<open>The contract of a block allocator, for requests of the sizes \<open>small\<close>: \<open>live\<close> are the blocks
  handed out, as address and length.\<close>

locale block_allocator =
  fixes alloc :: "u64 \<Rightarrow> 's \<Rightarrow> ('s \<times> nat) option"
    and free :: "nat \<Rightarrow> 's \<Rightarrow> 's option"
    and live :: "'s \<Rightarrow> (nat \<times> nat) set"
    and ok :: "'s \<Rightarrow> bool"
    and small :: "u64 \<Rightarrow> bool"
  assumes alloc_law: "ok s \<Longrightarrow> small sz \<Longrightarrow> \<exists>t b n. alloc sz s = Some (t, b) \<and> ok t \<and> unat sz \<le> n
        \<and> (live t = live s \<or> (b, n) \<notin> live s \<and> live t = insert (b, n) (live s))"
    and free_law: "ok s \<Longrightarrow> (b, n) \<in> live s \<Longrightarrow> \<exists>t. free b s = Some t \<and> ok t \<and> live t = live s - {(b, n)}"
    and live_apart: "ok s \<Longrightarrow> x \<in> live s \<Longrightarrow> y \<in> live s \<Longrightarrow> x \<noteq> y \<Longrightarrow>
        {fst x..<fst x + snd x} \<inter> {fst y..<fst y + snd y} = {}"
begin

fun run :: "request list \<Rightarrow> 's \<Rightarrow> 's option" where
  "run [] s = Some s"
| "run (Alloc sz # rs) s = (case alloc sz s of None \<Rightarrow> None | Some (t, b) \<Rightarrow> run rs t)"
| "run (Release b # rs) s = (case free b s of None \<Rightarrow> None | Some t \<Rightarrow> run rs t)"

fun lawful :: "request list \<Rightarrow> 's \<Rightarrow> bool" where
  "lawful [] s \<longleftrightarrow> True"
| "lawful (Alloc sz # rs) s \<longleftrightarrow> small sz \<and> (case alloc sz s of None \<Rightarrow> True | Some (t, b) \<Rightarrow> lawful rs t)"
| "lawful (Release b # rs) s \<longleftrightarrow> b \<in> fst ` live s \<and> (case free b s of None \<Rightarrow> True | Some t \<Rightarrow> lawful rs t)"

lemma run_ok: "ok s \<Longrightarrow> lawful rs s \<Longrightarrow> \<exists>t. run rs s = Some t \<and> ok t"
proof (induction rs arbitrary: s)
  case (Cons r rs)
  show ?case
  proof (cases r)
    case (Alloc sz)
    then show ?thesis using Cons alloc_law [OF Cons.prems(1), of sz] by fastforce
  next
    case (Release b)
    then obtain n where "(b, n) \<in> live s" using Cons.prems(2) by auto
    from free_law [OF Cons.prems(1) this] show ?thesis using Release Cons by fastforce
  qed
qed simp

lemma run_apart:
  assumes "ok s" "lawful rs s"
  shows "\<exists>t. run rs s = Some t \<and> (\<forall>x\<in>live t. \<forall>y\<in>live t. x \<noteq> y \<longrightarrow>
    {fst x..<fst x + snd x} \<inter> {fst y..<fst y + snd y} = {})"
  using run_ok [OF assms] live_apart by blast

lemma alloc_free_live:
  assumes "ok s" "small sz" "alloc sz s = Some (t, b)" "live t \<noteq> live s"
  shows "\<exists>u. free b t = Some u \<and> live u = live s"
proof -
  obtain n where n: "(b, n) \<notin> live s" "live t = insert (b, n) (live s)" "ok t"
    using alloc_law [OF assms(1,2)] assms(3,4) by auto
  then show ?thesis using free_law [OF n(3), of b n] by auto
qed

end

definition slab_sized :: "u64 \<Rightarrow> bool" where
  "slab_sized sz \<longleftrightarrow> 0 < sz \<and> sz \<le> 2048"

interpretation sl: block_allocator brights_kmalloc brights_kfree slab_live km_inv slab_sized
proof (unfold_locales, goal_cases)
  case (1 s sz)
  then obtain P F xs where inv: "slab_inv s P F" "heap_inv s xs" by (auto simp: km_inv_def)
  have "0 < unat sz" "unat sz \<le> 2048" using 1(2) by (simp_all add: slab_sized_def word_less_nat_alt word_le_nat_alt)
  from kmalloc_small [OF inv this] show ?case unfolding handed_out_def by blast
next
  case (2 s b n)
  then show ?case using kfree_live by (fastforce simp: km_inv_def)
next
  case (3 s x y)
  then obtain P F where "slab_inv s P F" by (auto simp: km_inv_def)
  from slab_live_disjoint [OF this 3(2-4)] show ?case .
qed

subsection \<open>Requests above the largest usable class\<close>

lemma slab_alloc_large:
  assumes inv: "slab_inv s P F" and i: "i = 8 \<or> i = 9"
  defines "t \<equiv> s\<lparr>km_pmem := fst (brights_pmem_alloc_page (km_pmem s))\<rparr>"
  shows "slab_alloc i s = Some (t, 0)" "slab_inv t P F" "slab_live t = slab_live s"
proof -
  have i10: "i < 10" using i by auto
  have none: "\<not> slab_has_free s p" if p: "p \<in> set (P i)" for p
  proof -
    have "slab_blocks i p = {}" using slab_size_props(4) [OF i10] i by (auto simp: slab_blocks_def)
    then have "F p = []" using slab_invD(3) [OF inv i10 p] by (simp add: page_ok_def)
    then show ?thesis using slab_has_free_iff [OF slab_invD(3) [OF inv i10 p]] by simp
  qed
  then have nf: "find (slab_has_free s) (P i) = None" by (auto simp: find_None_iff)
  have nr: "\<not> (recent_pages s ! i \<noteq> 0 \<and> slab_has_free s (recent_pages s ! i))"
    using none slab_invD(4) [OF inv i10] by blast
  have "slab_page_init i s = (t, 0)"
    using i by (auto simp: slab_page_init_def Let_def t_def slab_sizes_def case_prod_unfold)
  then show "slab_alloc i s = Some (t, 0)"
    using find_slab_page_walk [OF slab_invD(1) [OF inv i10]] nf nr by (auto simp: slab_alloc_def)
  note pinv = slab_invD(5) [OF inv i10]
  have pages: "page_ok t = page_ok s" "off_heap t = off_heap s"
    by (simp_all add: t_def page_ok_def off_heap_def fun_eq_iff)
  have own: "slab_page_of t p" if "slab_page_of s p" for p
    using that page_owned_alloc [OF pinv] by (simp add: slab_page_of_def t_def off_heap_def)
  have av: "avail (km_pmem t) \<subseteq> avail (km_pmem s)"
    using pm.alloc_page [OF pinv] pm.alloc_null [OF pinv] by (cases "snd (brights_pmem_alloc_page (km_pmem s)) = 0") (auto simp: t_def)
  show ti: "slab_inv t P F"
    using inv pm.alloc_ok [OF pinv] own av
    unfolding slab_inv_def pages by (auto simp: t_def)
  show "slab_live t = slab_live s" using slab_live_eq [OF inv] slab_live_eq [OF ti] by simp
qed

lemma find_slab_class_cases:
  obtains (zero) "sz = 0" | (small) "0 < unat sz" "unat sz \<le> 2048"
  | (large) i where "2048 < unat sz" "unat sz \<le> 8192" "find_slab_class sz = Some i" "i = 8 \<or> i = 9"
  | (heap) "8192 < unat sz" "find_slab_class sz = None"
proof -
  consider "sz = 0" | "0 < unat sz" "unat sz \<le> 2048" | "2048 < unat sz" "unat sz \<le> 8192" | "8192 < unat sz"
    by (metis linorder_not_less unat_gt_0)
  then show ?thesis
    by cases (use that in \<open>auto simp: find_slab_class_eq Let_def split: if_splits\<close>)
qed

lemma kmalloc_large:
  assumes inv: "slab_inv s P F" "heap_inv s xs" and sz: "2048 < unat sz" "unat sz \<le> 8192"
  shows "\<exists>t b ys. brights_kmalloc sz s = Some (t, b) \<and> slab_inv t P F \<and> heap_inv t ys \<and> slab_live t = slab_live s
     \<and> km_pmem t = fst (brights_pmem_alloc_page (km_pmem s)) \<and> sc_pages t = sc_pages s
     \<and> heap_alloc sz (s\<lparr>km_pmem := fst (brights_pmem_alloc_page (km_pmem s))\<rparr>) = Some (t, b)"
proof -
  obtain i where i: "find_slab_class sz = Some i" "i = 8 \<or> i = 9"
    using sz by (auto simp: find_slab_class_eq Let_def)
  note l = slab_alloc_large [OF inv(1) i(2)]
  let ?u = "s\<lparr>km_pmem := fst (brights_pmem_alloc_page (km_pmem s))\<rparr>"
  have "heap_inv ?u xs" using inv(2) by (simp add: heap_inv_def heap_chain_def)
  then obtain t b ys where t: "heap_alloc sz ?u = Some (t, b)" "heap_inv t ys" "slab_view t = slab_view ?u"
    using heap_alloc_inv by blast
  have "sz \<noteq> 0" using sz by auto
  then show ?thesis
    using t i l slab_view_inv [OF t(3)] slab_view_fields [OF t(3)] by (auto simp: brights_kmalloc_def)
qed

lemma kmalloc_any:
  assumes inv: "slab_inv s P F" "heap_inv s xs"
  shows "\<exists>t b. brights_kmalloc sz s = Some (t, b) \<and> km_inv t"
proof (cases sz rule: find_slab_class_cases)
  case zero
  then show ?thesis using inv by (auto simp: brights_kmalloc_def km_inv_def)
next
  case small
  then show ?thesis using kmalloc_small [OF inv] by blast
next
  case large
  then show ?thesis using kmalloc_large [OF inv large(1,2)] by (auto simp: km_inv_def)
next
  case heap
  obtain t b ys where t: "heap_alloc sz s = Some (t, b)" "heap_inv t ys" "slab_view t = slab_view s"
    using heap_alloc_inv [OF inv(2)] by blast
  have "sz \<noteq> 0" using heap(1) by auto
  then show ?thesis using t heap inv slab_view_inv [OF t(3)] by (auto simp: brights_kmalloc_def km_inv_def)
qed

lemma handed_out_fresh:
  assumes "handed_out s t p n" "0 < n"
  shows "p \<notin> fst ` slab_live s"
proof
  assume "p \<in> fst ` slab_live s"
  then obtain m where m: "(p, m) \<in> slab_live s" by auto
  obtain P F where ti: "slab_inv t P F" using assms(1) by (auto simp: handed_out_def)
  have "(p, m) \<in> live_of P F" using m assms(1) slab_live_eq [OF ti] by (simp add: handed_out_def)
  then have "16 \<le> m" by (rule live_ofE) (use slab_size_props(1) in auto)
  moreover have "(p, n) \<noteq> (p, m)" using m assms(1) by (auto simp: handed_out_def)
  then have "{p..<p + n} \<inter> {p..<p + m} = {}"
    using slab_live_disjoint [OF ti, of "(p, n)" "(p, m)"] m assms(1) by (simp add: handed_out_def)
  ultimately show False using assms(2) by auto
qed

lemma kmalloc_live_mono:
  assumes "km_inv s" "brights_kmalloc sz s = Some (t, b)"
  shows "km_inv t \<and> slab_live s \<subseteq> slab_live t"
proof -
  obtain P F xs where inv: "slab_inv s P F" "heap_inv s xs" using assms(1) by (auto simp: km_inv_def)
  have "km_inv t" using kmalloc_any [OF inv, of sz] assms(2) by simp
  moreover have "slab_live s \<subseteq> slab_live t"
  proof (cases sz rule: find_slab_class_cases)
    case zero
    then show ?thesis using assms(2) by (simp add: brights_kmalloc_def)
  next
    case small
    then show ?thesis using kmalloc_small [OF inv small] assms(2) by (auto simp: handed_out_def)
  next
    case large
    then show ?thesis using kmalloc_large [OF inv large(1,2)] assms(2) by auto
  next
    case heap
    then have "sz \<noteq> 0" by auto
    then have "heap_alloc sz s = Some (t, b)" using heap assms(2) by (simp add: brights_kmalloc_def)
    then have "slab_view t = slab_view s" using heap_alloc_inv [OF inv(2), of sz] by auto
    from slab_view_inv(2) [OF this] show ?thesis by simp
  qed
  ultimately show ?thesis ..
qed

lemma fill_pmem [simp]: "km_pmem (zero_mem p n s) = km_pmem s"
  unfolding zero_mem_def Let_def fold_km_store by (simp add: km_store_def)

lemma build_pmem: "km_pmem (fst (slab_build_list d n k s)) = km_pmem s"
  by (induction k) (auto simp: slab_build_list_def km_store_def Let_def split: prod.splits)

lemma slab_alloc_pmem:
  assumes "slab_alloc i s = Some (t, b)"
  shows "km_pmem t = km_pmem s \<or> km_pmem t = fst (brights_pmem_alloc_page (km_pmem s))"
proof -
  have take: "km_pmem (fst (slab_take i p u)) = km_pmem u" for p u by (simp add: slab_take_def Let_def)
  have init: "km_pmem (fst (slab_page_init i s)) = fst (brights_pmem_alloc_page (km_pmem s))"
    using build_pmem by (simp add: slab_page_init_def Let_def case_prod_unfold)
  consider (old) p u where "slab_alloc i s = Some (slab_take i p u)" "km_pmem u = km_pmem s"
    | (fresh) "slab_alloc i s = Some (fst (slab_page_init i s), 0)"
    | (new) p u where "slab_alloc i s = Some (slab_take i p u)" "km_pmem u = km_pmem (fst (slab_page_init i s))"
  proof -
    let ?r = "recent_pages s ! i"
    consider "?r \<noteq> 0 \<and> slab_has_free s ?r" | "\<not> (?r \<noteq> 0 \<and> slab_has_free s ?r)" by blast
    then show thesis
    proof cases
      case 1
      then show ?thesis using old [of ?r s] by (simp add: slab_alloc_def)
    next
      case 2
      obtain sp where sp: "find_slab_page s (sc_pages s ! i) = Some sp"
        using assms 2 by (auto simp: slab_alloc_def Let_def split: option.splits)
      show ?thesis
      proof (cases "sp = 0")
        case True
        then show ?thesis
          using 2 sp fresh new [of "snd (slab_page_init i s)" "slab_push i (slab_page_init i s)"]
          by (cases "snd (slab_page_init i s) = 0") (auto simp: slab_alloc_def slab_push_def case_prod_unfold)
      next
        case False
        then show ?thesis
          using 2 sp old [of sp "s\<lparr>recent_pages := (recent_pages s)[i := sp]\<rparr>"] by (auto simp: slab_alloc_def)
      qed
    qed
  qed
  then show ?thesis by cases (use assms take init in \<open>metis fst_conv option.inject\<close>)+
qed

lemma kmalloc_pmem:
  assumes "km_inv s" "brights_kmalloc sz s = Some (t, b)"
  shows "km_pmem t = km_pmem s \<or> km_pmem t = fst (brights_pmem_alloc_page (km_pmem s))"
proof -
  have hp: "km_pmem v = km_pmem u" if "heap_alloc sz u = Some (v, b)" "heap_inv u xs" for u v xs
    using heap_alloc_inv [OF that(2), of sz] that(1) slab_view_fields(1) [of v u] by auto
  obtain P F xs where inv: "slab_inv s P F" "heap_inv s xs" using assms(1) by (auto simp: km_inv_def)
  show ?thesis
  proof (cases sz rule: find_slab_class_cases)
    case zero
    then show ?thesis using assms(2) by (simp add: brights_kmalloc_def)
  next
    case small
    obtain i where i: "i < 8" "find_slab_class sz = Some i" using find_slab_class_small [OF small] by blast
    have "sz \<noteq> 0" using small by auto
    then show ?thesis
      using slab_alloc_ok [OF inv(1) i(1)] slab_alloc_pmem [of i s] assms(2) i(2) hp [of s t xs] inv(2)
      by (auto simp: brights_kmalloc_def handed_out_def)
  next
    case large
    then show ?thesis using kmalloc_large [OF inv large(1,2)] assms(2) by auto
  next
    case heap
    then have "sz \<noteq> 0" by auto
    then show ?thesis using heap assms(2) hp [of s t xs] inv(2) by (auto simp: brights_kmalloc_def)
  qed
qed

lemma kfree_heap:
  assumes inv: "slab_inv s P F" "heap_inv s (ys @ zs)" and fits: "free_fits s b n ys zs"
  shows "\<exists>t. brights_kfree (b + 16) s = Some t \<and> heap_inv t (put_region (b, n) ys zs) \<and> slab_view t = slab_view s
    \<and> kmalloc_heap_used t = kmalloc_heap_used s - kb_size s b \<and> kmalloc_total_used t = kmalloc_total_used s - kb_size s b"
proof -
  have b: "kmalloc_heap s \<le> b" "b + n \<le> kmalloc_heap s + 0x800000" "32 \<le> n" using fits by (auto simp: free_fits_def)
  have "b + 16 < p \<or> p + 4096 \<le> b + 16" if "i < 10" "p \<in> set (P i)" for i p
    using slab_invD(2) [OF inv(1) that] b by (auto simp: slab_page_of_def off_heap_def)
  then have "find_slab_of s (b + 16) [0..<SLAB_CLASSES] = Some None"
    by (intro find_slab_of_none [OF inv(1)]) (auto simp: SLAB_CLASSES_def)
  then show ?thesis using heap_free_ok [OF inv(2) fits] by (auto simp: brights_kfree_def)
qed

subsection \<open>The size of a heap request\<close>

lemma align_up_16: "unat (align_up v 16) = unat (v + 15) div 16 * 16"
proof -
  have "align_up v 16 = (v + 15) AND NOT (mask 4)" by (simp add: align_up_def mask_eq_exp_minus_1)
  then show ?thesis by (simp add: unat_and_not_mask)
qed

lemma heap_request_val:
  assumes "0 < unat sz" "unat sz + 31 < 2 ^ 64"
  shows "unat (heap_request sz) = (unat sz + 31) div 16 * 16"
proof -
  have "unat (sz + 16 + 15) = unat sz + 31"
    using assms(2) by (simp add: add.assoc unat_word_ariths)
  then have a: "unat (align_up (sz + 16) 16) = (unat sz + 31) div 16 * 16" by (simp add: align_up_16)
  moreover have "2 \<le> (unat sz + 31) div 16" using assms(1) by (simp add: less_eq_div_iff_mult_less_eq)
  ultimately have "\<not> align_up (sz + 16) 16 < 32" by (simp add: word_less_nat_alt)
  with a show ?thesis
    by (simp add: heap_request_def KMALLOC_BLOCK_T_SIZE_def KMALLOC_ALIGN_def KMALLOC_MIN_BLOCK_def Let_def)
qed

lemma heap_request_wraps:
  assumes "2 ^ 64 - 31 \<le> unat sz"
  shows "unat (heap_request sz) = 32"
proof -
  have "unat sz < 2 ^ 64" using unsigned_less [of sz] by simp
  then have "unat (sz + 16 + 15) = unat sz + 31 - 2 ^ 64"
    using assms by (simp add: add.assoc unat_word_ariths mod_if)
  then have "unat (sz + 16 + 15) < 31" using \<open>unat sz < 2 ^ 64\<close> assms by linarith
  then have "unat (align_up (sz + 16) 16) < 32" by (simp add: align_up_16)
  then have "align_up (sz + 16) 16 < 32" by (simp add: word_less_nat_alt)
  then show ?thesis
    by (simp add: heap_request_def KMALLOC_BLOCK_T_SIZE_def KMALLOC_ALIGN_def KMALLOC_MIN_BLOCK_def Let_def)
qed

lemma regions_take:
  assumes "spaced (ys @ (a, n) # zs)" "want \<le> n"
  shows "regions (ys @ leftover want a n @ zs) = regions (ys @ (a, n) # zs) - {a..<a + taken want n}"
proof -
  have "\<forall>y\<in>set ys. fst y + snd y < a" "\<forall>z\<in>set zs. a + n < fst z" using assms(1) by auto
  then have "regions ys \<inter> {a..<a + n} = {}" "regions zs \<inter> {a..<a + n} = {}" by (fastforce simp: regions_def)+
  then show ?thesis using assms(2) by (auto simp: leftover_def taken_def)
qed

subsection \<open>The reachable states\<close>

definition kmalloc_boot :: "kmalloc \<Rightarrow> bool" where
  "kmalloc_boot s \<longleftrightarrow> pmem_inv (km_pmem s) \<and> 0 < kmalloc_heap s \<and> (\<forall>q\<in>avail (km_pmem s). off_heap s (unat q))"

lemma kmalloc_init_inv:
  assumes "kmalloc_boot s"
  shows "slab_inv (brights_kmalloc_init s) (\<lambda>_. []) F"
    and "heap_inv (brights_kmalloc_init s) [(kmalloc_heap s, 0x800000)]"
  using assms
  by (auto simp: kmalloc_boot_def slab_inv_def heap_inv_def brights_kmalloc_init_def SLAB_CLASSES_def slab_sizes_def
      off_heap_def KMALLOC_HEAP_SIZE_def)

text \<open>Steps from boot: any request, the release of a slab block that is out, and the release of a
  heap block that does not overlap the free list.\<close>

inductive kmalloc_reachable :: "kmalloc \<Rightarrow> bool" where
  boot: "kmalloc_boot s \<Longrightarrow> kmalloc_reachable (brights_kmalloc_init s)"
| alloc: "kmalloc_reachable s \<Longrightarrow> brights_kmalloc sz s = Some (t, b) \<Longrightarrow> kmalloc_reachable t"
| release: "kmalloc_reachable s \<Longrightarrow> (b, n) \<in> slab_live s \<Longrightarrow> brights_kfree b s = Some t \<Longrightarrow> kmalloc_reachable t"
| release_heap: "kmalloc_reachable s \<Longrightarrow> heap_inv s (ys @ zs) \<Longrightarrow> free_fits s b n ys zs \<Longrightarrow>
    brights_kfree (b + 16) s = Some t \<Longrightarrow> kmalloc_reachable t"

lemma reachable_inv: "kmalloc_reachable s \<Longrightarrow> km_inv s"
proof (induction rule: kmalloc_reachable.induct)
  case (boot s)
  then show ?case using kmalloc_init_inv by (auto simp: km_inv_def)
next
  case (alloc s sz t b)
  then obtain P F xs where "slab_inv s P F" "heap_inv s xs" by (auto simp: km_inv_def)
  from kmalloc_any [OF this, of sz] alloc(2) show ?case by auto
next
  case (release s b n t)
  then show ?case using sl.free_law by fastforce
next
  case (release_heap s ys zs b n t)
  then obtain P F where P: "slab_inv s P F" by (auto simp: km_inv_def)
  from kfree_heap [OF P release_heap(2,3)] release_heap(4)
  have t: "heap_inv t (put_region (b, n) ys zs)" "slab_view t = slab_view s" by auto
  then show ?case using P slab_view_inv(1) [OF t(2)] unfolding km_inv_def by metis
qed

text \<open>Machines with the heap array at 1 GB, for the examples.\<close>

definition km_machine :: "pmem \<Rightarrow> kmalloc" where
  "km_machine pm = brights_kmalloc_init \<lparr>km_pmem = pm, sp_next = (\<lambda>_. 0), sp_class_idx = (\<lambda>_. 0),
     sp_free_count = (\<lambda>_. 0), sp_total_count = (\<lambda>_. 0), sp_free_list = (\<lambda>_. 0), km_qword = (\<lambda>_. 0),
     sc_pages = [], sc_block_size = [], recent_pages = [], kb_size = (\<lambda>_. 0), kb_next = (\<lambda>_. 0),
     kmalloc_heap = 0x40000000, free_list = 0, kmalloc_total_used = 0, kmalloc_slab_used = 0, kmalloc_heap_used = 0\<rparr>"

lemma km_machine_props:
  assumes "pmem_inv pm" "\<forall>q\<in>avail pm. unat q < 0x3FFFF000"
  shows "kmalloc_reachable (km_machine pm)" "km_inv (km_machine pm)" "heap_inv (km_machine pm) [(0x40000000, 0x800000)]"
    "km_pmem (km_machine pm) = pm"
proof -
  show r: "kmalloc_reachable (km_machine pm)"
    unfolding km_machine_def using assms by (intro boot) (fastforce simp: kmalloc_boot_def off_heap_def)
  then show "km_inv (km_machine pm)" by (rule reachable_inv)
  show "heap_inv (km_machine pm) [(0x40000000, 0x800000)]" "km_pmem (km_machine pm) = pm"
    by (simp_all add: km_machine_def heap_inv_def brights_kmalloc_init_def KMALLOC_HEAP_SIZE_def)
qed

lemma demo_page_addrs: "page_addr pmem_one (Suc 0) = 0x101000" "page_addr pmem_two (Suc 0) = 0x101000" "page_addr pmem_two 2 = 0x102000"
  by (simp_all add: pmem_two_def pmem_one_def pmem_full_def bitmap_clear_def page_addr_def)

lemma demo_avail: "avail pmem_one = {0x101000}" "avail pmem_two = {0x101000, 0x102000}"
  by (simp_all add: avail_def pmem_one_props(2) pmem_two_props(2) demo_page_addrs)

definition km_demo :: kmalloc where
  "km_demo = km_machine pmem_one"

lemma km_demo_props:
  "kmalloc_reachable km_demo" "km_inv km_demo" "heap_inv km_demo [(0x40000000, 0x800000)]"
  "snd (brights_pmem_alloc_page (km_pmem km_demo)) = 0x101000"
proof -
  note m = km_machine_props [OF pmem_one_props(1)]
  show "kmalloc_reachable km_demo" "km_inv km_demo" "heap_inv km_demo [(0x40000000, 0x800000)]"
    unfolding km_demo_def by (rule m; simp add: demo_avail)+
  have "pmem_total_pages pmem_one = 4" by (simp add: pmem_one_def pmem_full_def bitmap_clear_def)
  then show "snd (brights_pmem_alloc_page (km_pmem km_demo)) = 0x101000"
    using alloc_page_refines [OF pmem_one_props(1)] m(4)
    by (simp add: spec_alloc_page_def pmem_one_props(2) km_demo_def demo_avail demo_page_addrs)
qed

lemma heap_size_ok: "unat sz \<le> 2 ^ 64 - 17 \<Longrightarrow> \<not> sz > - 1 - KMALLOC_BLOCK_T_SIZE"
  by (simp add: KMALLOC_BLOCK_T_SIZE_def word_less_nat_alt)

lemma kmalloc_is_heap: "8192 < unat sz \<Longrightarrow> brights_kmalloc sz s = heap_alloc sz s"
  by (auto simp: brights_kmalloc_def find_slab_class_eq Let_def)

lemma heap_alloc_free:
  assumes inv: "slab_inv s P F" "heap_inv s xs" and al: "heap_alloc sz s = Some (t, p)" "p \<noteq> 0"
  shows "\<exists>u. brights_kfree p t = Some u \<and> heap_inv u xs \<and> slab_view u = slab_view s
    \<and> kmalloc_heap_used u = kmalloc_heap_used s \<and> kmalloc_total_used u = kmalloc_total_used s"
proof -
  have sz: "\<not> sz > - 1 - KMALLOC_BLOCK_T_SIZE" using al by (auto simp: heap_alloc_def)
  from heap_alloc_cases [OF inv(2) sz] show ?thesis
  proof cases
    case 1
    then show ?thesis using al by simp
  next
    case fit: (2 ys a n zs r)
    then have r: "r = t" "p = a + 16" using al(1) by simp_all
    let ?T = "unat (heap_request sz)"
    have T: "?T \<le> n" using fit(2) by (simp add: best_at_def)
    have fits: "free_fits t a (taken ?T n) ys (leftover ?T a n @ zs)"
      by (rule alloc_fits [OF _ T heap_request_pos]) (use inv(2) fit r in auto)
    have si: "slab_inv t P F" using inv(1) slab_view_inv(1) [OF fit(6)] r by simp
    have hi: "heap_inv t (ys @ leftover ?T a n @ zs)" using fit(4) r by simp
    have "put_region (a, taken ?T n) ys (leftover ?T a n @ zs) = xs"
      using put_region_undo [OF _ T, of ys a zs] inv(2) fit(1) by (simp add: heap_inv_def)
    then show ?thesis using kfree_heap [OF si hi fits] fit(6,8,9) r by auto
  qed
qed

lemma two_blocks: "\<exists>s p n d m. km_inv s \<and> (p, n) \<in> slab_live s \<and> (d, m) \<in> slab_live s \<and> d \<noteq> p"
proof -
  let ?s = "km_machine pmem_two"
  have r: "km_inv ?s" "km_pmem ?s = pmem_two" by (rule km_machine_props [OF pmem_two_props(1)]; simp add: demo_avail)+
  have tot: "pmem_total_pages pmem_two = 4" by (simp add: pmem_two_def pmem_one_def pmem_full_def bitmap_clear_def)
  have pg: "snd (brights_pmem_alloc_page pmem_two) = 0x101000"
    using alloc_page_refines [OF pmem_two_props(1)] tot by (simp add: spec_alloc_page_def pmem_two_props(2) demo_page_addrs)
  define pm where "pm = fst (brights_pmem_alloc_page pmem_two)"
  have al: "brights_pmem_alloc_page pmem_two =
      ((bitmap_set 1 pmem_two)\<lparr>pmem_free_pages := pmem_free_pages pmem_two - 1\<rparr>, page_addr pmem_two 1)"
    using alloc_page_refines [OF pmem_two_props(1)] tot by (simp add: spec_alloc_page_def pmem_two_props(2))
  have fs: "free_set pm = {2}" "pmem_inv pm"
    using take_page_inv [OF pmem_two_props(1), of 1] al pmem_two_props(2) by (auto simp: pm_def)
  have "page_addr pm 2 = 0x102000" "pmem_total_pages pm = 4"
    using tot demo_page_addrs(3) by (simp_all add: pm_def al page_addr_def bitmap_set_def)
  then have pg2: "snd (brights_pmem_alloc_page pm) \<noteq> 0"
    using alloc_page_refines [OF fs(2)] fs(1) by (simp add: spec_alloc_page_def)
  obtain P F xs where i1: "slab_inv ?s P F" "heap_inv ?s xs" using r(1) by (auto simp: km_inv_def)
  obtain t p n where t: "brights_kmalloc 64 ?s = Some (t, p)" "km_inv t" "64 \<le> n" "handed_out ?s t p n"
    using kmalloc_small [OF i1, of 64] pg r(2) by auto
  have "snd (brights_pmem_alloc_page (km_pmem t)) \<noteq> 0"
    using kmalloc_pmem [OF r(1) t(1)] pg pg2 r(2) by (auto simp: pm_def)
  moreover obtain P F xs where i2: "slab_inv t P F" "heap_inv t xs" using t(2) by (auto simp: km_inv_def)
  ultimately obtain u d m where u: "km_inv u" "64 \<le> m" "handed_out t u d m"
    using kmalloc_small [OF i2, of 64] by auto
  have "(p, n) \<in> slab_live t" using t(4) by (simp add: handed_out_def)
  moreover have "d \<notin> fst ` slab_live t" by (rule handed_out_fresh [OF u(3)]) (use u(2) in simp)
  ultimately have "d \<noteq> p" by force
  moreover have "(p, n) \<in> slab_live u" "(d, m) \<in> slab_live u" using u(3) t(4) by (simp_all add: handed_out_def)
  ultimately show ?thesis using u(1) by blast
qed

subsection \<open>Properties\<close>

text \<open>C6: in every state the kernel reaches from boot by requests of any size and releases of blocks
  that are out, the heap is well formed (every list it walks ends, every free block lies in its page
  or in the heap array), a further request of any size returns, and no two slab blocks that are out
  overlap.\<close>
theorem kmalloc_reachable_safe:
  assumes "kmalloc_reachable s"
  shows "km_inv s \<and> (\<forall>sz. brights_kmalloc sz s \<noteq> None) \<and>
    (\<forall>x\<in>slab_live s. \<forall>y\<in>slab_live s. x \<noteq> y \<longrightarrow> {fst x..<fst x + snd x} \<inter> {fst y..<fst y + snd y} = {})"
proof -
  have inv: "km_inv s" by (rule reachable_inv [OF assms])
  then obtain P F xs where "slab_inv s P F" "heap_inv s xs" by (auto simp: km_inv_def)
  then have "brights_kmalloc sz s \<noteq> None" for sz using kmalloc_any [of s P F xs sz] by auto
  then show ?thesis using inv sl.live_apart by blast
qed

theorem kmalloc_reachable_safe_witness:
  "km_inv km_demo \<and> (\<forall>sz. brights_kmalloc sz km_demo \<noteq> None)"
  using kmalloc_reachable_safe [OF km_demo_props(1)] by blast

text \<open>A request of 1 to 2048 bytes, while the page allocator has a page left, returns a block of
  at least that size whose quadwords are all zero, that was not out before and overlaps no block that
  is out; every other block stays out and the best-fit heap is untouched.\<close>
theorem kmalloc_slab_fresh:
  assumes "km_inv s" "0 < unat sz" "unat sz \<le> 2048" "snd (brights_pmem_alloc_page (km_pmem s)) \<noteq> 0"
  shows "\<exists>t b n. brights_kmalloc sz s = Some (t, b) \<and> km_inv t \<and> b \<noteq> 0 \<and> unat sz \<le> n
    \<and> (\<forall>k<n div 8. km_qword t (b + 8 * k) = 0)
    \<and> slab_live t = insert (b, n) (slab_live s) \<and> heap_same t s
    \<and> (\<forall>x\<in>slab_live s. {b..<b + n} \<inter> {fst x..<fst x + snd x} = {})"
proof -
  obtain P F xs where inv: "slab_inv s P F" "heap_inv s xs" using assms(1) by (auto simp: km_inv_def)
  obtain t b n where t: "brights_kmalloc sz s = Some (t, b)" "km_inv t" "unat sz \<le> n" "handed_out s t b n"
    using kmalloc_small [OF inv assms(2,3)] assms(4) by blast
  have "{b..<b + n} \<inter> {fst x..<fst x + snd x} = {}" if "x \<in> slab_live s" for x
  proof -
    have "(b, n) \<noteq> x" "(b, n) \<in> slab_live t" "x \<in> slab_live t" using t(4) that by (auto simp: handed_out_def)
    then show ?thesis using sl.live_apart [OF t(2), of "(b, n)" x] by simp
  qed
  with t show ?thesis unfolding handed_out_def by blast
qed

theorem kmalloc_slab_fresh_witness:
  "\<exists>t b n. brights_kmalloc 24 km_demo = Some (t, b) \<and> 24 \<le> n \<and> slab_live t = insert (b, n) (slab_live km_demo)"
  using kmalloc_slab_fresh [OF km_demo_props(2), of 24] km_demo_props(4) by auto

text \<open>\<open>brights_kfree\<close> of a slab block that is out returns and takes exactly that block back.\<close>
theorem kfree_slab_exact:
  assumes "km_inv s" "(b, n) \<in> slab_live s"
  shows "\<exists>t. brights_kfree b s = Some t \<and> km_inv t \<and> slab_live t = slab_live s - {(b, n)} \<and> heap_same t s"
  using assms kfree_live by (auto simp: km_inv_def)

theorem kfree_slab_exact_witness:
  "\<exists>s t b. brights_kfree b s = Some t \<and> slab_live t = slab_live km_demo"
proof -
  have small: "slab_sized 24" by (simp add: slab_sized_def)
  obtain P F where P: "slab_inv km_demo P F" using km_demo_props(2) by (auto simp: km_inv_def)
  obtain s b n where s: "km_inv s" "handed_out km_demo s b n"
    using kmalloc_small [OF P km_demo_props(3), of 24] km_demo_props(4) by auto
  then show ?thesis
    using kfree_slab_exact [OF s(1), of b n] unfolding handed_out_def by (metis Diff_insert_absorb insertI1)
qed

text \<open>A request above 8192 bytes is served from the free list by best fit: if some free region
  holds the rounded request, the smallest such region is used, the block lies inside it, exactly its
  bytes leave the free memory and the list stays sorted and merged; otherwise the result is null and
  nothing changes.\<close>
theorem kmalloc_heap_best_fit:
  assumes "heap_inv s xs" "8192 < unat sz" "unat sz + 31 < 2 ^ 64"
  defines "T \<equiv> (unat sz + 31) div 16 * 16"
  shows "if \<forall>x\<in>set xs. snd x < T then brights_kmalloc sz s = Some (s, 0)
    else \<exists>t a n m ys. brights_kmalloc sz s = Some (t, a + 16) \<and> (a, n) \<in> set xs \<and> T \<le> m \<and> m \<le> n
      \<and> (\<forall>x\<in>set xs. T \<le> snd x \<longrightarrow> n \<le> snd x)
      \<and> heap_inv t ys \<and> regions ys = regions xs - {a..<a + m} \<and> {a..<a + m} \<subseteq> regions xs"
proof -
  have T: "unat (heap_request sz) = T" using heap_request_val assms by simp
  have sz: "\<not> sz > - 1 - KMALLOC_BLOCK_T_SIZE" by (rule heap_size_ok) (use assms(3) in simp)
  from heap_alloc_cases [OF assms(1) sz, unfolded T] show ?thesis
  proof cases
    case 1
    then show ?thesis using kmalloc_is_heap [OF assms(2)] by simp
  next
    case fit: (2 ys a n zs t)
    have n: "T \<le> n" "\<forall>x\<in>set xs. T \<le> snd x \<longrightarrow> n \<le> snd x" using fit(1,2) by (auto simp: best_at_def)
    have "spaced (ys @ (a, n) # zs)" using assms(1) fit(1) by (simp add: heap_inv_def)
    note rt = regions_take [OF this n(1), folded fit(1)]
    have m: "T \<le> taken T n" "taken T n \<le> n" using n(1) by (auto simp: taken_def)
    then have sub: "{a..<a + taken T n} \<subseteq> regions xs" using fit(1) by auto
    have big: "\<not> (\<forall>x\<in>set xs. snd x < T)" using fit(1) n(1) by (auto simp: not_less)
    show ?thesis
      unfolding if_not_P [OF big]
      by (rule exI [of _ t], rule exI [of _ a], rule exI [of _ n], rule exI [of _ "taken T n"],
          rule exI [of _ "ys @ leftover T a n @ zs"])
        (use fit(1,3,4) n m rt sub kmalloc_is_heap [OF assms(2)] in simp)
  qed
qed

theorem kmalloc_heap_best_fit_witness:
  "\<exists>t. brights_kmalloc 0x10000 km_demo = Some (t, 0x40000010)"
  using kmalloc_heap_best_fit [OF km_demo_props(3), of "0x10000"] by auto

text \<open>C9: releasing a block of the best-fit heap right after it was allocated restores the free list,
  region by region, and the counters: splitting and merging leave no fragment.\<close>
theorem kmalloc_heap_roundtrip:
  assumes "km_inv s" "heap_inv s xs" "8192 < unat sz" "brights_kmalloc sz s = Some (t, p)" "p \<noteq> 0"
  shows "\<exists>u. brights_kfree p t = Some u \<and> heap_inv u xs \<and> slab_view u = slab_view s
    \<and> kmalloc_heap_used u = kmalloc_heap_used s \<and> brights_kmalloc_used u = brights_kmalloc_used s"
proof -
  obtain P F where "slab_inv s P F" using assms(1) by (auto simp: km_inv_def)
  from heap_alloc_free [OF this assms(2) _ assms(5), of sz t] show ?thesis
    using assms(4) kmalloc_is_heap [OF assms(3)] by (simp add: brights_kmalloc_used_def)
qed

theorem kmalloc_heap_roundtrip_witness:
  "\<exists>t p u. brights_kmalloc 0x10000 km_demo = Some (t, p) \<and> p \<noteq> 0 \<and> brights_kfree p t = Some u
     \<and> heap_inv u [(0x40000000, 0x800000)]"
proof -
  have u: "unat (heap_request 0x10000) \<le> 0x800000" using heap_request_val [of "0x10000"] by simp
  have sz: "\<not> (0x10000 :: u64) > - 1 - KMALLOC_BLOCK_T_SIZE" by (rule heap_size_ok) simp
  obtain t p where tp: "brights_kmalloc 0x10000 km_demo = Some (t, p)" "p \<noteq> 0"
    using kmalloc_is_heap [of "0x10000" km_demo] u
    by (cases rule: heap_alloc_cases [OF km_demo_props(3) sz]) auto
  then show ?thesis using kmalloc_heap_roundtrip [OF km_demo_props(2,3) _ tp] by auto
qed

text \<open>A request of 2049 to 8192 bytes loses a physical page for good: the page is taken from the
  allocator, belongs to no slab, holds no block, and is not given back when the block is released.\<close>
theorem kmalloc_page_leak:
  assumes "km_inv s" "2048 < unat sz" "unat sz \<le> 8192" "snd (brights_pmem_alloc_page (km_pmem s)) = pg" "pg \<noteq> 0"
  shows "\<exists>t b. brights_kmalloc sz s = Some (t, b) \<and> avail (km_pmem t) = avail (km_pmem s) - {pg} \<and> pg \<in> avail (km_pmem s)
    \<and> sc_pages t = sc_pages s \<and> slab_live t = slab_live s
    \<and> (b \<noteq> 0 \<longrightarrow> (\<exists>u. brights_kfree b t = Some u \<and> avail (km_pmem u) = avail (km_pmem t) \<and> slab_live u = slab_live t))"
proof -
  obtain P F xs where inv: "slab_inv s P F" "heap_inv s xs" using assms(1) by (auto simp: km_inv_def)
  have i0: "(0::nat) < 10" by simp
  let ?u = "s\<lparr>km_pmem := fst (brights_pmem_alloc_page (km_pmem s))\<rparr>"
  obtain t b where t: "brights_kmalloc sz s = Some (t, b)" "slab_live t = slab_live s"
      "km_pmem t = fst (brights_pmem_alloc_page (km_pmem s))" "sc_pages t = sc_pages s" "heap_alloc sz ?u = Some (t, b)"
    using kmalloc_large [OF inv assms(2,3)] by blast
  have av: "pg \<in> avail (km_pmem s)" "avail (km_pmem t) = avail (km_pmem s) - {pg}"
    using pm.alloc_page [OF slab_invD(5) [OF inv(1) i0]] assms(4,5) t(3) by auto
  have "\<exists>u. brights_kfree b t = Some u \<and> avail (km_pmem u) = avail (km_pmem t) \<and> slab_live u = slab_live t" if "b \<noteq> 0"
  proof -
    have "heap_inv ?u xs" using inv(2) by (simp add: heap_inv_def heap_chain_def)
    from heap_alloc_free [OF slab_alloc_large(2) [OF inv(1), of 8] this t(5) that]
    obtain u where u: "brights_kfree b t = Some u" "slab_view u = slab_view ?u" by auto
    have "slab_live ?u = slab_live s" using slab_alloc_large(3) [OF inv(1), of 8] by simp
    then show ?thesis using u slab_view_inv(2) [OF u(2)] slab_view_fields(1) [OF u(2)] t(2,3) by simp
  qed
  with t av show ?thesis by blast
qed

theorem kmalloc_page_leak_witness:
  "\<exists>t b. brights_kmalloc 4096 km_demo = Some (t, b) \<and> avail (km_pmem t) = avail (km_pmem km_demo) - {0x101000}
     \<and> slab_live t = slab_live km_demo"
  using kmalloc_page_leak [OF km_demo_props(2), of 4096 "0x101000"] km_demo_props(4) by auto

text \<open>The overflow check does not cover the rounding: a request between 31 and 17 bytes below
  \<open>2 ^ 64\<close> passes it, the rounded size wraps to 0, and the caller gets a block of less than 64 bytes.\<close>
theorem kmalloc_size_wraps:
  assumes "heap_inv s xs" "xs \<noteq> []" "2 ^ 64 - 31 \<le> unat sz" "unat sz \<le> 2 ^ 64 - 17"
  shows "\<exists>t a. brights_kmalloc sz s = Some (t, a + 16) \<and> unat (kb_size t a) < 64"
proof -
  have T: "unat (heap_request sz) = 32" by (rule heap_request_wraps [OF assms(3)])
  have k: "brights_kmalloc sz s = heap_alloc sz s" by (rule kmalloc_is_heap) (use assms(3) in simp)
  obtain a n where "(a, n) \<in> set xs" using assms(2) by (cases xs) auto
  then have big: "\<not> (\<forall>x\<in>set xs. snd x < 32)" using heap_inv_regionD(3) [OF assms(1)] by fastforce
  from heap_alloc_cases [OF assms(1) heap_size_ok [OF assms(4)], unfolded T] show ?thesis
  proof cases
    case 1
    then show ?thesis using big by simp
  next
    case fit: (2 ys a n zs t)
    then show ?thesis using k by (auto simp: taken_def split: if_splits)
  qed
qed

theorem kmalloc_size_wraps_witness:
  "\<exists>t a. brights_kmalloc (- 20) km_demo = Some (t, a + 16) \<and> unat (kb_size t a) < 64"
  using kmalloc_size_wraps [OF km_demo_props(3), of "- 20"] by simp

end
