(* ===== verification/Cache.thy ===== *)
theory Cache
  imports Kheap Kmem "HOL-Library.Monad_Syntax"
begin

text \<open>
  The object cache of \<open>kernel/cache.c\<close>: entries in a hash table with chaining and in a doubly linked
  list in order of use, memory from the kernel heap of theory \<open>Kmalloc\<close>.

  Entries and cache headers are objects in an explicit store, partial maps from addresses; an address
  whose object has been freed is undefined in the map.  Every operation returns an option, \<open>None\<close>
  meaning that it reads or writes a freed object (or, for the walks along a chain, never ends).  The
  bytes of data buffers are in the store of theory \<open>Kmem\<close>.  The value of \<open>brights_clock_ms\<close> at each
  call is an argument.  The cleanup function of a configuration is a flag; the pointers it is called
  with are recorded.

  \<open>cache_entry_t\<close> has a single field \<open>next\<close>, used by the chain of the bucket and by the list of
  use alike.  The list is kept well formed (\<open>lru_inv\<close>); the chains are not, and the properties at the
  end say what follows.
\<close>

record cache_entry =
  ce_key :: u64
  ce_data :: nat
  ce_size :: u64
  ce_access_time :: u64
  ce_create_time :: u64
  ce_prev :: nat
  ce_next :: nat

record cache_stats =
  st_hits :: u64
  st_misses :: u64
  st_evictions :: u64
  st_inserts :: u64
  st_size_current :: u64
  st_size_max :: u64
  st_entries_current :: u64
  st_entries_max :: u64

record cache_config =
  cc_name :: string
  cc_max_size :: u64
  cc_max_entries :: u32
  cc_ttl_seconds :: u32
  cc_cleanup_func :: bool

record cache =
  ch_config :: cache_config
  ch_stats :: cache_stats
  ch_table_ptr :: nat
  ch_table :: "nat list"
  ch_table_size :: u32
  ch_lru_head :: nat
  ch_lru_tail :: nat
  ch_lock :: u32

record cache_world =
  cw_km :: kmalloc
  cw_mem :: mem
  cw_entries :: "nat \<Rightarrow> cache_entry option"
  cw_caches :: "nat \<Rightarrow> cache option"
  cw_cleaned :: "nat list"
  global_caches :: "nat list"

definition CACHE_MAX_TYPES :: nat where
  "CACHE_MAX_TYPES = 16"

definition CACHE_T_SIZE :: u64 where
  "CACHE_T_SIZE = 160"

definition CACHE_ENTRY_T_SIZE :: u64 where
  "CACHE_ENTRY_T_SIZE = 56"

subsection \<open>The store\<close>

definition upd_entry :: "nat \<Rightarrow> (cache_entry \<Rightarrow> cache_entry) \<Rightarrow> cache_world \<Rightarrow> cache_world option" where
  "upd_entry a f w = (case cw_entries w a of None \<Rightarrow> None | Some e \<Rightarrow> Some (w\<lparr>cw_entries := (cw_entries w)(a \<mapsto> f e)\<rparr>))"

definition upd_cache :: "nat \<Rightarrow> (cache \<Rightarrow> cache) \<Rightarrow> cache_world \<Rightarrow> cache_world option" where
  "upd_cache c f w = (case cw_caches w c of None \<Rightarrow> None | Some k \<Rightarrow> Some (w\<lparr>cw_caches := (cw_caches w)(c \<mapsto> f k)\<rparr>))"

definition upd_stats :: "nat \<Rightarrow> (cache_stats \<Rightarrow> cache_stats) \<Rightarrow> cache_world \<Rightarrow> cache_world option" where
  "upd_stats c f = upd_cache c (\<lambda>k. k\<lparr>ch_stats := f (ch_stats k)\<rparr>)"

definition cw_alloc :: "u64 \<Rightarrow> cache_world \<Rightarrow> (cache_world \<times> nat) option" where
  "cw_alloc sz w = (case brights_kmalloc sz (cw_km w) of None \<Rightarrow> None | Some (km, p) \<Rightarrow> Some (w\<lparr>cw_km := km\<rparr>, p))"

definition cw_free :: "nat \<Rightarrow> cache_world \<Rightarrow> cache_world option" where
  "cw_free p w = (case brights_kfree p (cw_km w) of None \<Rightarrow> None | Some km \<Rightarrow> Some (w\<lparr>cw_km := km\<rparr>))"

definition free_entry :: "nat \<Rightarrow> cache_world \<Rightarrow> cache_world option" where
  "free_entry a w = cw_free a (w\<lparr>cw_entries := (cw_entries w)(a := None)\<rparr>)"

subsection \<open>Hash table and list of use\<close>

definition cache_hash :: "u64 \<Rightarrow> u32 \<Rightarrow> u32" where
  "cache_hash key table_size = ucast ((key * 2654435761) mod ucast table_size)"

partial_function (option) chain_find :: "u64 \<Rightarrow> nat \<Rightarrow> cache_world \<Rightarrow> nat option" where
  "chain_find key entry w =
     (if entry = 0 then Some 0
      else do {
        e \<leftarrow> cw_entries w entry;
        if ce_key e = key then Some entry else chain_find key (ce_next e) w
      })"

definition cache_find_entry :: "nat \<Rightarrow> u64 \<Rightarrow> cache_world \<Rightarrow> nat option" where
  "cache_find_entry c key w = do {
     k \<leftarrow> cw_caches w c;
     chain_find key (ch_table k ! unat (cache_hash key (ch_table_size k))) w
   }"

definition cache_remove_from_lru :: "nat \<Rightarrow> nat \<Rightarrow> cache_world \<Rightarrow> cache_world option" where
  "cache_remove_from_lru c entry w = do {
     e \<leftarrow> cw_entries w entry;
     w1 \<leftarrow> (if ce_prev e \<noteq> 0 then upd_entry (ce_prev e) (\<lambda>p. p\<lparr>ce_next := ce_next e\<rparr>) w
            else upd_cache c (\<lambda>k. k\<lparr>ch_lru_head := ce_next e\<rparr>) w);
     e1 \<leftarrow> cw_entries w1 entry;
     w2 \<leftarrow> (if ce_next e1 \<noteq> 0 then upd_entry (ce_next e1) (\<lambda>n. n\<lparr>ce_prev := ce_prev e1\<rparr>) w1
            else upd_cache c (\<lambda>k. k\<lparr>ch_lru_tail := ce_prev e1\<rparr>) w1);
     upd_entry entry (\<lambda>e. e\<lparr>ce_prev := 0, ce_next := 0\<rparr>) w2
   }"

definition cache_add_to_lru :: "nat \<Rightarrow> nat \<Rightarrow> cache_world \<Rightarrow> cache_world option" where
  "cache_add_to_lru c entry w = do {
     k \<leftarrow> cw_caches w c;
     w1 \<leftarrow> upd_entry entry (\<lambda>e. e\<lparr>ce_prev := 0, ce_next := ch_lru_head k\<rparr>) w;
     w2 \<leftarrow> (if ch_lru_head k \<noteq> 0 then upd_entry (ch_lru_head k) (\<lambda>h. h\<lparr>ce_prev := entry\<rparr>) w1 else Some w1);
     upd_cache c (\<lambda>k. k\<lparr>ch_lru_head := entry, ch_lru_tail := (if ch_lru_tail k = 0 then entry else ch_lru_tail k)\<rparr>) w2
   }"

text \<open>The loop over \<open>slot\<close> in \<open>cache_remove_entry\<close>: \<open>pred\<close> is the entry whose field \<open>slot\<close> points to,
  or 0 while it points into the table.\<close>

partial_function (option) chain_unlink ::
  "nat \<Rightarrow> nat \<Rightarrow> nat \<Rightarrow> nat \<Rightarrow> nat \<Rightarrow> cache_world \<Rightarrow> cache_world option" where
  "chain_unlink c index entry pred cur w =
     (if cur = 0 then Some w
      else if cur = entry then do {
        e \<leftarrow> cw_entries w entry;
        if pred = 0 then upd_cache c (\<lambda>k. k\<lparr>ch_table := (ch_table k)[index := ce_next e]\<rparr>) w
        else upd_entry pred (\<lambda>p. p\<lparr>ce_next := ce_next e\<rparr>) w
      }
      else do {
        e \<leftarrow> cw_entries w cur;
        chain_unlink c index entry cur (ce_next e) w
      })"

definition cleanup_data :: "cache \<Rightarrow> nat \<Rightarrow> cache_world \<Rightarrow> cache_world" where
  "cleanup_data k data w = (if cc_cleanup_func (ch_config k) then w\<lparr>cw_cleaned := data # cw_cleaned w\<rparr> else w)"

definition cache_remove_entry :: "nat \<Rightarrow> nat \<Rightarrow> cache_world \<Rightarrow> cache_world option" where
  "cache_remove_entry c entry w = do {
     k \<leftarrow> cw_caches w c;
     e \<leftarrow> cw_entries w entry;
     let index = unat (cache_hash (ce_key e) (ch_table_size k));
     w1 \<leftarrow> chain_unlink c index entry 0 (ch_table k ! index) w;
     w2 \<leftarrow> cache_remove_from_lru c entry w1;
     w3 \<leftarrow> upd_stats c (\<lambda>s. s\<lparr>st_size_current := st_size_current s - ce_size e,
                             st_entries_current := st_entries_current s - 1\<rparr>) w2;
     let w4 = (if ce_data e \<noteq> 0 then cleanup_data k (ce_data e) w3 else w3);
     w5 \<leftarrow> (if ce_data e \<noteq> 0 then cw_free (ce_data e) w4 else Some w4);
     free_entry entry w5
   }"

definition cache_evict_lru :: "nat \<Rightarrow> cache_world \<Rightarrow> cache_world option" where
  "cache_evict_lru c w = do {
     k \<leftarrow> cw_caches w c;
     if ch_lru_tail k = 0 then Some w
     else do {
       w1 \<leftarrow> cache_remove_entry c (ch_lru_tail k) w;
       upd_stats c (\<lambda>s. s\<lparr>st_evictions := st_evictions s + 1\<rparr>) w1
     }
   }"

subsection \<open>Operations\<close>

definition cache_full :: "cache_stats \<Rightarrow> u64 \<Rightarrow> bool" where
  "cache_full s sz \<longleftrightarrow> st_entries_current s \<ge> st_entries_max s \<or> st_size_current s + sz > st_size_max s"

definition put_existing :: "nat \<Rightarrow> nat \<Rightarrow> nat \<Rightarrow> u64 \<Rightarrow> u64 \<Rightarrow> cache_world \<Rightarrow> (cache_world \<times> int) option" where
  "put_existing c existing data sz now w = do {
     w1 \<leftarrow> cache_remove_from_lru c existing w;
     e \<leftarrow> cw_entries w1 existing;
     (w2, failed) \<leftarrow> (if ce_size e \<noteq> sz then do {
         (u, new_data) \<leftarrow> cw_alloc sz w1;
         if new_data = 0 then Some (u, True)
         else do {
           u1 \<leftarrow> (if ce_data e \<noteq> 0 then cw_free (ce_data e) u else Some u);
           u2 \<leftarrow> upd_entry existing (\<lambda>e. e\<lparr>ce_data := new_data\<rparr>) u1;
           u3 \<leftarrow> upd_stats c (\<lambda>s. s\<lparr>st_size_current := st_size_current s - ce_size e + sz\<rparr>) u2;
           u4 \<leftarrow> upd_entry existing (\<lambda>e. e\<lparr>ce_size := sz\<rparr>) u3;
           Some (u4, False)
         }
       } else Some (w1, False));
     if failed then Some (w2, -1)
     else do {
       e2 \<leftarrow> cw_entries w2 existing;
       let w3 = w2\<lparr>cw_mem := kutil_memcpy (ce_data e2) data (unat sz) (cw_mem w2)\<rparr>;
       w4 \<leftarrow> upd_entry existing (\<lambda>e. e\<lparr>ce_access_time := now\<rparr>) w3;
       w5 \<leftarrow> cache_add_to_lru c existing w4;
       Some (w5, 0)
     }
   }"

definition put_new :: "nat \<Rightarrow> u64 \<Rightarrow> nat \<Rightarrow> u64 \<Rightarrow> u64 \<Rightarrow> cache_world \<Rightarrow> (cache_world \<times> int) option" where
  "put_new c key data sz now w = do {
     (w1, entry) \<leftarrow> cw_alloc CACHE_ENTRY_T_SIZE w;
     if entry = 0 then Some (w1, -1)
     else do {
       (w2, buf) \<leftarrow> cw_alloc sz w1;
       if buf = 0 then do { w3 \<leftarrow> cw_free entry w2; Some (w3, -1) }
       else do {
         k \<leftarrow> cw_caches w2 c;
         let index = unat (cache_hash key (ch_table_size k));
         let w3 = w2\<lparr>cw_mem := kutil_memcpy buf data (unat sz) (cw_mem w2),
                     cw_entries := (cw_entries w2)(entry \<mapsto>
                       \<lparr>ce_key = key, ce_data = buf, ce_size = sz, ce_access_time = now, ce_create_time = now,
                        ce_prev = 0, ce_next = ch_table k ! index\<rparr>)\<rparr>;
         w4 \<leftarrow> upd_cache c (\<lambda>k. k\<lparr>ch_table := (ch_table k)[index := entry]\<rparr>) w3;
         w5 \<leftarrow> cache_add_to_lru c entry w4;
         w6 \<leftarrow> upd_stats c (\<lambda>s. s\<lparr>st_inserts := st_inserts s + 1, st_entries_current := st_entries_current s + 1,
                                 st_size_current := st_size_current s + sz\<rparr>) w5;
         Some (w6, 0)
       }
     }
   }"

definition cache_put :: "nat \<Rightarrow> u64 \<Rightarrow> nat \<Rightarrow> u64 \<Rightarrow> u64 \<Rightarrow> cache_world \<Rightarrow> (cache_world \<times> int) option" where
  "cache_put c key data sz now w =
     (if c = 0 \<or> data = 0 \<or> sz = 0 then Some (w, -1)
      else do {
        existing \<leftarrow> cache_find_entry c key w;
        if existing \<noteq> 0 then put_existing c existing data sz now w
        else do {
          k \<leftarrow> cw_caches w c;
          w1 \<leftarrow> (if cache_full (ch_stats k) sz then cache_evict_lru c w else Some w);
          k1 \<leftarrow> cw_caches w1 c;
          if cache_full (ch_stats k1) sz then Some (w1, -1)
          else put_new c key data sz now w1
        }
      })"

text \<open>\<open>cache_get\<close> returns the data pointer and the size through its two out parameters; \<open>out\<close> says
  whether the caller passed both.  The clock is read up to twice.\<close>

definition cache_get :: "nat \<Rightarrow> u64 \<Rightarrow> bool \<Rightarrow> u64 \<Rightarrow> u64 \<Rightarrow> cache_world \<Rightarrow> (cache_world \<times> int \<times> (nat \<times> u64) option) option" where
  "cache_get c key out now now2 w =
     (if c = 0 \<or> \<not> out then Some (w, -1, None)
      else do {
        entry \<leftarrow> cache_find_entry c key w;
        if entry = 0 then do {
          w1 \<leftarrow> upd_stats c (\<lambda>s. s\<lparr>st_misses := st_misses s + 1\<rparr>) w;
          Some (w1, -1, None)
        }
        else do {
          k \<leftarrow> cw_caches w c;
          e \<leftarrow> cw_entries w entry;
          let ttl = cc_ttl_seconds (ch_config k);
          if ttl > 0 \<and> (now - ce_create_time e) div 1000 \<ge> ucast ttl then do {
            w1 \<leftarrow> cache_remove_entry c entry w;
            w2 \<leftarrow> upd_stats c (\<lambda>s. s\<lparr>st_misses := st_misses s + 1\<rparr>) w1;
            Some (w2, -1, None)
          }
          else do {
            w1 \<leftarrow> upd_entry entry (\<lambda>e. e\<lparr>ce_access_time := now2\<rparr>) w;
            w2 \<leftarrow> cache_remove_from_lru c entry w1;
            w3 \<leftarrow> cache_add_to_lru c entry w2;
            w4 \<leftarrow> upd_stats c (\<lambda>s. s\<lparr>st_hits := st_hits s + 1\<rparr>) w3;
            Some (w4, 0, Some (ce_data e, ce_size e))
          }
        }
      })"

definition cache_remove :: "nat \<Rightarrow> u64 \<Rightarrow> cache_world \<Rightarrow> (cache_world \<times> int) option" where
  "cache_remove c key w =
     (if c = 0 then Some (w, -1)
      else do {
        entry \<leftarrow> cache_find_entry c key w;
        if entry = 0 then Some (w, -1)
        else do { w1 \<leftarrow> cache_remove_entry c entry w; Some (w1, 0) }
      })"

definition cache_contains :: "nat \<Rightarrow> u64 \<Rightarrow> cache_world \<Rightarrow> int option" where
  "cache_contains c key w =
     (if c = 0 then Some 0
      else do { entry \<leftarrow> cache_find_entry c key w; Some (if entry \<noteq> 0 then 1 else 0) })"

partial_function (option) clear_chain :: "cache \<Rightarrow> nat \<Rightarrow> cache_world \<Rightarrow> cache_world option" where
  "clear_chain k entry w =
     (if entry = 0 then Some w
      else do {
        e \<leftarrow> cw_entries w entry;
        let w1 = cleanup_data k (ce_data e) w;
        w2 \<leftarrow> (if ce_data e \<noteq> 0 then cw_free (ce_data e) w1 else Some w1);
        w3 \<leftarrow> free_entry entry w2;
        clear_chain k (ce_next e) w3
      })"

fun clear_buckets :: "nat \<Rightarrow> nat list \<Rightarrow> cache_world \<Rightarrow> cache_world option" where
  "clear_buckets c [] w = Some w"
| "clear_buckets c (i # is) w = do {
     k \<leftarrow> cw_caches w c;
     w1 \<leftarrow> clear_chain k (ch_table k ! i) w;
     w2 \<leftarrow> upd_cache c (\<lambda>k. k\<lparr>ch_table := (ch_table k)[i := 0]\<rparr>) w1;
     clear_buckets c is w2
   }"

definition cache_clear :: "nat \<Rightarrow> cache_world \<Rightarrow> (cache_world \<times> int) option" where
  "cache_clear c w =
     (if c = 0 then Some (w, -1)
      else do {
        k \<leftarrow> cw_caches w c;
        w1 \<leftarrow> clear_buckets c [0..<unat (ch_table_size k)] w;
        w2 \<leftarrow> upd_cache c (\<lambda>k. k\<lparr>ch_lru_head := 0, ch_lru_tail := 0\<rparr>) w1;
        w3 \<leftarrow> upd_stats c (\<lambda>s. s\<lparr>st_size_current := 0, st_entries_current := 0, st_evictions := 0\<rparr>) w2;
        Some (w3, 0)
      })"

definition cache_create :: "cache_config option \<Rightarrow> bool \<Rightarrow> cache_world \<Rightarrow> (cache_world \<times> int \<times> nat) option" where
  "cache_create config out w =
     (case config of
        None \<Rightarrow> Some (w, -1, 0)
      | Some cfg \<Rightarrow>
          if \<not> out then Some (w, -1, 0)
          else if cc_max_size cfg = 0 \<or> cc_max_entries cfg = 0 then Some (w, -1, 0)
          else do {
            (w1, c) \<leftarrow> cw_alloc CACHE_T_SIZE w;
            if c = 0 then Some (w1, -1, 0)
            else do {
              let table_size = (if cc_max_entries cfg div 4 < 16 then 16 else cc_max_entries cfg div 4);
              (w2, table) \<leftarrow> cw_alloc (ucast table_size * 8) w1;
              if table = 0 then do { w3 \<leftarrow> cw_free c w2; Some (w3, -1, 0) }
              else Some (w2\<lparr>cw_caches := (cw_caches w2)(c \<mapsto>
                     \<lparr>ch_config = cfg,
                      ch_stats = \<lparr>st_hits = 0, st_misses = 0, st_evictions = 0, st_inserts = 0, st_size_current = 0,
                                  st_size_max = cc_max_size cfg, st_entries_current = 0,
                                  st_entries_max = ucast (cc_max_entries cfg)\<rparr>,
                      ch_table_ptr = table, ch_table = replicate (unat table_size) 0, ch_table_size = table_size,
                      ch_lru_head = 0, ch_lru_tail = 0, ch_lock = 0\<rparr>)\<rparr>, 0, c)
            }
          })"

definition cache_destroy :: "nat \<Rightarrow> cache_world \<Rightarrow> (cache_world \<times> int) option" where
  "cache_destroy c w =
     (if c = 0 then Some (w, -1)
      else do {
        (w1, r) \<leftarrow> cache_clear c w;
        k \<leftarrow> cw_caches w1 c;
        w2 \<leftarrow> (if ch_table_ptr k \<noteq> 0 then cw_free (ch_table_ptr k) w1 else Some w1);
        w3 \<leftarrow> cw_free c (w2\<lparr>cw_caches := (cw_caches w2)(c := None)\<rparr>);
        Some (w3, 0)
      })"

definition cache_get_stats :: "nat \<Rightarrow> cache_world \<Rightarrow> cache_stats option" where
  "cache_get_stats c w = (if c = 0 then None else map_option ch_stats (cw_caches w c))"

definition cache_reset_stats :: "nat \<Rightarrow> cache_world \<Rightarrow> cache_world option" where
  "cache_reset_stats c w =
     (if c = 0 then Some w
      else upd_stats c (\<lambda>s. s\<lparr>st_hits := 0, st_misses := 0, st_evictions := 0, st_inserts := 0\<rparr>) w)"

fun hash_string_loop :: "char list \<Rightarrow> u64 \<Rightarrow> u64" where
  "hash_string_loop [] hash = hash"
| "hash_string_loop (ch # str) hash = hash_string_loop str (hash * 31 + of_int (sint (of_char ch :: u8)))"

definition cache_hash_string :: "string option \<Rightarrow> u64" where
  "cache_hash_string str = (case str of None \<Rightarrow> 0 | Some s \<Rightarrow> hash_string_loop s 0)"

fun hash_data_loop :: "u8 list \<Rightarrow> u64 \<Rightarrow> u64" where
  "hash_data_loop [] hash = hash"
| "hash_data_loop (b # bs) hash = hash_data_loop bs (hash * 31 + ucast b)"

definition cache_hash_data :: "u8 list option \<Rightarrow> u64" where
  "cache_hash_data data = (case data of None \<Rightarrow> 0 | Some bytes \<Rightarrow> if length bytes = 0 then 0 else hash_data_loop bytes 0)"

subsection \<open>The global caches\<close>

definition cache_cfg :: "string \<Rightarrow> u64 \<Rightarrow> u32 \<Rightarrow> u32 \<Rightarrow> cache_config" where
  "cache_cfg name max_size max_entries ttl =
     \<lparr>cc_name = name, cc_max_size = max_size, cc_max_entries = max_entries, cc_ttl_seconds = ttl, cc_cleanup_func = False\<rparr>"

fun create_caches :: "(nat \<times> cache_config) list \<Rightarrow> cache_world \<Rightarrow> cache_world option" where
  "create_caches [] w = Some w"
| "create_caches ((i, cfg) # cs) w = do {
     (w1, r, c) \<leftarrow> cache_create (Some cfg) True w;
     create_caches cs (if r = 0 then w1\<lparr>global_caches := (global_caches w1)[i := c]\<rparr> else w1)
   }"

definition brights_cache_init :: "cache_world \<Rightarrow> cache_world option" where
  "brights_cache_init w =
     create_caches [(0, cache_cfg ''dns'' (64 * 1024) 256 300), (1, cache_cfg ''path'' (128 * 1024) 512 0),
                    (2, cache_cfg ''inode'' (256 * 1024) 1024 0), (3, cache_cfg ''buffer'' (1024 * 1024) 2048 0)] w"

fun destroy_caches :: "nat list \<Rightarrow> cache_world \<Rightarrow> cache_world option" where
  "destroy_caches [] w = Some w"
| "destroy_caches (i # is) w =
     (if global_caches w ! i \<noteq> 0 then do {
        (w1, r) \<leftarrow> cache_destroy (global_caches w ! i) w;
        destroy_caches is (w1\<lparr>global_caches := (global_caches w1)[i := 0]\<rparr>)
      } else destroy_caches is w)"

definition brights_cache_cleanup :: "cache_world \<Rightarrow> cache_world option" where
  "brights_cache_cleanup w = destroy_caches [0..<CACHE_MAX_TYPES] w"

subsection \<open>The list of use\<close>

definition nx :: "cache_world \<Rightarrow> nat \<Rightarrow> nat" where
  "nx w a = (case cw_entries w a of None \<Rightarrow> 0 | Some e \<Rightarrow> ce_next e)"

definition pv :: "cache_world \<Rightarrow> nat \<Rightarrow> nat" where
  "pv w a = (case cw_entries w a of None \<Rightarrow> 0 | Some e \<Rightarrow> ce_prev e)"

text \<open>The entries of the list, most recently used first: \<open>next\<close> leads from the head through them, \<open>prev\<close>
  from the tail back.\<close>

definition lru_inv :: "cache_world \<Rightarrow> nat \<Rightarrow> nat list \<Rightarrow> bool" where
  "lru_inv w c ls \<longleftrightarrow> (\<exists>k. cw_caches w c = Some k \<and> links (nx w) (ch_lru_head k) ls 0
     \<and> links (pv w) (ch_lru_tail k) (rev ls) 0) \<and> set ls \<subseteq> dom (cw_entries w)"

text \<open>Everything but the links: what moving an entry in the list must not change.\<close>

definition unlinked :: "cache_entry \<Rightarrow> cache_entry" where
  "unlinked e = e\<lparr>ce_prev := 0, ce_next := 0\<rparr>"

definition headless :: "cache \<Rightarrow> cache" where
  "headless k = k\<lparr>ch_lru_head := 0, ch_lru_tail := 0\<rparr>"

definition links_only :: "cache_world \<Rightarrow> cache_world \<Rightarrow> bool" where
  "links_only w w' \<longleftrightarrow> cw_km w' = cw_km w \<and> cw_mem w' = cw_mem w \<and> cw_cleaned w' = cw_cleaned w
     \<and> global_caches w' = global_caches w
     \<and> map_option unlinked \<circ> cw_entries w' = map_option unlinked \<circ> cw_entries w
     \<and> map_option headless \<circ> cw_caches w' = map_option headless \<circ> cw_caches w"

lemma links_only_refl [simp]: "links_only w w"
  by (simp add: links_only_def)

lemma links_only_trans: "links_only u v \<Longrightarrow> links_only v w \<Longrightarrow> links_only u w"
  by (simp add: links_only_def)

lemma links_only_entry:
  assumes "links_only w w'"
  shows "map_option unlinked (cw_entries w' a) = map_option unlinked (cw_entries w a)"
    and "map_option headless (cw_caches w' c) = map_option headless (cw_caches w c)"
proof -
  have "(map_option unlinked \<circ> cw_entries w') a = (map_option unlinked \<circ> cw_entries w) a"
    "(map_option headless \<circ> cw_caches w') c = (map_option headless \<circ> cw_caches w) c"
    using assms by (simp_all only: links_only_def)
  then show "map_option unlinked (cw_entries w' a) = map_option unlinked (cw_entries w a)"
    "map_option headless (cw_caches w' c) = map_option headless (cw_caches w c)" by simp_all
qed

lemma links_only_dom: "links_only w w' \<Longrightarrow> dom (cw_entries w') = dom (cw_entries w)"
proof (rule set_eqI)
  fix a
  assume "links_only w w'"
  then have "(map_option unlinked (cw_entries w' a) = None) = (map_option unlinked (cw_entries w a) = None)"
    by (simp only: links_only_entry)
  then show "a \<in> dom (cw_entries w') \<longleftrightarrow> a \<in> dom (cw_entries w)" by (simp add: domIff)
qed

lemma links_only_alive:
  assumes "links_only w w'" "cw_entries w a = Some e"
  obtains e' where "cw_entries w' a = Some e'" "unlinked e' = unlinked e"
  using links_only_entry(1) [OF assms(1), of a] assms(2) by auto

lemma upd_entry_links:
  assumes "cw_entries w a = Some e" "\<And>e. unlinked (f e) = unlinked e"
  shows "\<exists>w'. upd_entry a f w = Some w' \<and> links_only w w' \<and> cw_entries w' = (cw_entries w)(a \<mapsto> f e)
    \<and> cw_caches w' = cw_caches w"
  using assms by (auto simp: upd_entry_def links_only_def fun_eq_iff)

lemma upd_cache_links:
  assumes "cw_caches w c = Some k" "\<And>k. headless (f k) = headless k"
  shows "\<exists>w'. upd_cache c f w = Some w' \<and> links_only w w' \<and> cw_entries w' = cw_entries w
    \<and> cw_caches w' = (cw_caches w)(c \<mapsto> f k)"
  using assms by (auto simp: upd_cache_def links_only_def fun_eq_iff)

lemma nx_upd: "cw_entries w' = (cw_entries w)(a \<mapsto> e) \<Longrightarrow> nx w' = (nx w)(a := ce_next e)"
  by (auto simp: nx_def fun_eq_iff)

lemma pv_upd: "cw_entries w' = (cw_entries w)(a \<mapsto> e) \<Longrightarrow> pv w' = (pv w)(a := ce_prev e)"
  by (auto simp: pv_def fun_eq_iff)

lemma nx_pv_same: "cw_entries w' = cw_entries w \<Longrightarrow> nx w' = nx w \<and> pv w' = pv w"
  by (auto simp: nx_def pv_def fun_eq_iff)

lemma lru_neighbours:
  assumes "lru_inv w c (ys @ a # zs)" "cw_entries w a = Some e" "cw_caches w c = Some k"
  shows "ce_next e = (if zs = [] then 0 else hd zs)" "ce_prev e = (if ys = [] then 0 else last ys)"
    and "distinct (ys @ a # zs)" "0 \<notin> set (ys @ a # zs)"
    and "links (nx w) (ch_lru_head k) ys a" "links (nx w) (ce_next e) zs 0"
    and "links (pv w) (ch_lru_tail k) (rev zs) a" "links (pv w) (ce_prev e) (rev ys) 0"
proof -
  have n: "links (nx w) (ch_lru_head k) (ys @ a # zs) 0" "links (pv w) (ch_lru_tail k) (rev (ys @ a # zs)) 0"
    using assms(1,3) by (auto simp: lru_inv_def)
  then show "links (nx w) (ch_lru_head k) ys a" and nz: "links (nx w) (ce_next e) zs 0"
    and "links (pv w) (ch_lru_tail k) (rev zs) a" and py: "links (pv w) (ce_prev e) (rev ys) 0"
    using assms(2) by (auto simp: nx_def pv_def)
  show "distinct (ys @ a # zs)" by (rule links_distinct [OF n(1)])
  show "0 \<notin> set (ys @ a # zs)" by (rule links_nonzero [OF n(1)])
  show "ce_next e = (if zs = [] then 0 else hd zs)" using nz by (cases zs) auto
  show "ce_prev e = (if ys = [] then 0 else last ys)" using py by (cases ys rule: rev_cases) auto
qed

lemma skip_next:
  assumes n: "links (nx w) (ch_lru_head k) (ys @ a # zs) 0" and k: "cw_caches w c = Some k" and e: "cw_entries w a = Some e"
    and p: "ce_prev e = (if ys = [] then 0 else last ys)" and dom: "set ys \<subseteq> dom (cw_entries w)"
  shows "\<exists>w1 k1 e1. (if ce_prev e \<noteq> 0 then upd_entry (ce_prev e) (\<lambda>p. p\<lparr>ce_next := ce_next e\<rparr>) w
        else upd_cache c (\<lambda>k. k\<lparr>ch_lru_head := ce_next e\<rparr>) w) = Some w1
    \<and> links_only w w1 \<and> cw_entries w1 a = Some e1 \<and> ce_next e1 = ce_next e \<and> ce_prev e1 = ce_prev e
    \<and> cw_caches w1 c = Some k1 \<and> ch_lru_tail k1 = ch_lru_tail k \<and> links (nx w1) (ch_lru_head k1) (ys @ zs) 0
    \<and> pv w1 = pv w"
proof -
  have ae: "nx w a = ce_next e" using e by (simp add: nx_def)
  show ?thesis
  proof (cases ys rule: rev_cases)
    case Nil
    obtain w1 where w1: "upd_cache c (\<lambda>k. k\<lparr>ch_lru_head := ce_next e\<rparr>) w = Some w1" "links_only w w1"
        "cw_entries w1 = cw_entries w" "cw_caches w1 = (cw_caches w)(c \<mapsto> k\<lparr>ch_lru_head := ce_next e\<rparr>)"
      using upd_cache_links [OF k, of "\<lambda>k. k\<lparr>ch_lru_head := ce_next e\<rparr>"] by (auto simp: headless_def)
    then show ?thesis
      using p Nil e links_bypass(1) [OF n Nil] ae nx_pv_same [OF w1(3)]
      by (intro exI [of _ w1] exI [of _ "k\<lparr>ch_lru_head := ce_next e\<rparr>"] exI [of _ e]) simp
  next
    case (snoc us x)
    obtain ex where x: "cw_entries w x = Some ex" using dom snoc by auto
    have xa: "x \<noteq> a" "x \<noteq> 0" "ce_prev e = x" using links_distinct [OF n] links_nonzero [OF n] p snoc by auto
    obtain w1 where w1: "upd_entry x (\<lambda>p. p\<lparr>ce_next := ce_next e\<rparr>) w = Some w1" "links_only w w1"
        "cw_entries w1 = (cw_entries w)(x \<mapsto> ex\<lparr>ce_next := ce_next e\<rparr>)" "cw_caches w1 = cw_caches w"
      using upd_entry_links [OF x, of "\<lambda>p. p\<lparr>ce_next := ce_next e\<rparr>"] by (auto simp: unlinked_def)
    have "pv w1 = pv w" using pv_upd [OF w1(3)] x by (simp add: pv_def fun_upd_idem_iff)
    moreover have "links (nx w1) (ch_lru_head k) (ys @ zs) 0"
      using links_bypass(2) [OF n] nx_upd [OF w1(3)] ae snoc by (simp del: links_append)
    ultimately show ?thesis
      using w1 xa e k by (intro exI [of _ w1] exI [of _ k] exI [of _ e]) (simp del: links_append)
  qed
qed

lemma skip_prev:
  assumes n: "links (pv w) (ch_lru_tail k) (us @ a # ys) 0" and k: "cw_caches w c = Some k" and e: "cw_entries w a = Some e"
    and p: "ce_next e = (if us = [] then 0 else last us)" and dom: "set us \<subseteq> dom (cw_entries w)"
  shows "\<exists>w1 k1 e1. (if ce_next e \<noteq> 0 then upd_entry (ce_next e) (\<lambda>n. n\<lparr>ce_prev := ce_prev e\<rparr>) w
        else upd_cache c (\<lambda>k. k\<lparr>ch_lru_tail := ce_prev e\<rparr>) w) = Some w1
    \<and> links_only w w1 \<and> cw_entries w1 a = Some e1
    \<and> cw_caches w1 c = Some k1 \<and> ch_lru_head k1 = ch_lru_head k \<and> links (pv w1) (ch_lru_tail k1) (us @ ys) 0
    \<and> nx w1 = nx w"
proof -
  have ae: "pv w a = ce_prev e" using e by (simp add: pv_def)
  show ?thesis
  proof (cases us rule: rev_cases)
    case Nil
    obtain w1 where w1: "upd_cache c (\<lambda>k. k\<lparr>ch_lru_tail := ce_prev e\<rparr>) w = Some w1" "links_only w w1"
        "cw_entries w1 = cw_entries w" "cw_caches w1 = (cw_caches w)(c \<mapsto> k\<lparr>ch_lru_tail := ce_prev e\<rparr>)"
      using upd_cache_links [OF k, of "\<lambda>k. k\<lparr>ch_lru_tail := ce_prev e\<rparr>"] by (auto simp: headless_def)
    then show ?thesis
      using p Nil e links_bypass(1) [OF n Nil] ae nx_pv_same [OF w1(3)]
      by (intro exI [of _ w1] exI [of _ "k\<lparr>ch_lru_tail := ce_prev e\<rparr>"] exI [of _ e]) simp
  next
    case (snoc vs x)
    obtain ex where x: "cw_entries w x = Some ex" using dom snoc by auto
    have xa: "x \<noteq> a" "x \<noteq> 0" "ce_next e = x" using links_distinct [OF n] links_nonzero [OF n] p snoc by auto
    obtain w1 where w1: "upd_entry x (\<lambda>n. n\<lparr>ce_prev := ce_prev e\<rparr>) w = Some w1" "links_only w w1"
        "cw_entries w1 = (cw_entries w)(x \<mapsto> ex\<lparr>ce_prev := ce_prev e\<rparr>)" "cw_caches w1 = cw_caches w"
      using upd_entry_links [OF x, of "\<lambda>n. n\<lparr>ce_prev := ce_prev e\<rparr>"] by (auto simp: unlinked_def)
    have "nx w1 = nx w" using nx_upd [OF w1(3)] x by (simp add: nx_def fun_upd_idem_iff)
    moreover have "links (pv w1) (ch_lru_tail k) (us @ ys) 0"
      using links_bypass(2) [OF n] pv_upd [OF w1(3)] ae snoc by (simp del: links_append)
    ultimately show ?thesis
      using w1 xa e k by (intro exI [of _ w1] exI [of _ k] exI [of _ e]) (simp del: links_append)
  qed
qed

lemma remove_from_lru_ok:
  assumes inv: "lru_inv w c (ys @ a # zs)"
  shows "\<exists>w'. cache_remove_from_lru c a w = Some w' \<and> lru_inv w' c (ys @ zs) \<and> links_only w w' \<and> nx w' a = 0"
proof -
  obtain e k where e: "cw_entries w a = Some e" and k: "cw_caches w c = Some k" using inv by (auto simp: lru_inv_def)
  note nb = lru_neighbours [OF inv e k]
  have n: "links (nx w) (ch_lru_head k) (ys @ a # zs) 0" "links (pv w) (ch_lru_tail k) (rev zs @ a # rev ys) 0"
    and dom: "set ys \<subseteq> dom (cw_entries w)" "set zs \<subseteq> dom (cw_entries w)"
    using inv k by (auto simp: lru_inv_def)
  obtain w1 k1 e1 where w1: "(if ce_prev e \<noteq> 0 then upd_entry (ce_prev e) (\<lambda>p. p\<lparr>ce_next := ce_next e\<rparr>) w
        else upd_cache c (\<lambda>k. k\<lparr>ch_lru_head := ce_next e\<rparr>) w) = Some w1"
      "links_only w w1" "cw_entries w1 a = Some e1" "ce_next e1 = ce_next e" "ce_prev e1 = ce_prev e"
      "cw_caches w1 c = Some k1" "ch_lru_tail k1 = ch_lru_tail k" "links (nx w1) (ch_lru_head k1) (ys @ zs) 0" "pv w1 = pv w"
    using skip_next [OF n(1) k e nb(2) dom(1)] by blast
  have "links (pv w1) (ch_lru_tail k1) (rev zs @ a # rev ys) 0" using n(2) w1(7,9) by simp
  moreover have "ce_next e1 = (if rev zs = [] then 0 else last (rev zs))" using w1(4) nb(1) by (simp add: last_rev)
  moreover have "set (rev zs) \<subseteq> dom (cw_entries w1)" using dom(2) links_only_dom [OF w1(2)] by simp
  ultimately obtain w2 k2 e2 where w2: "(if ce_next e1 \<noteq> 0 then upd_entry (ce_next e1) (\<lambda>n. n\<lparr>ce_prev := ce_prev e1\<rparr>) w1
        else upd_cache c (\<lambda>k. k\<lparr>ch_lru_tail := ce_prev e1\<rparr>) w1) = Some w2"
      "links_only w1 w2" "cw_entries w2 a = Some e2" "cw_caches w2 c = Some k2"
      "ch_lru_head k2 = ch_lru_head k1" "links (pv w2) (ch_lru_tail k2) (rev zs @ rev ys) 0" "nx w2 = nx w1"
    using skip_prev [of w1 k1 "rev zs" a "rev ys" c e1] w1(3,6) by blast
  obtain w3 where w3: "upd_entry a (\<lambda>e. e\<lparr>ce_prev := 0, ce_next := 0\<rparr>) w2 = Some w3" "links_only w2 w3"
      "cw_entries w3 = (cw_entries w2)(a \<mapsto> e2\<lparr>ce_prev := 0, ce_next := 0\<rparr>)" "cw_caches w3 = cw_caches w2"
    using upd_entry_links [OF w2(3), of "\<lambda>e. e\<lparr>ce_prev := 0, ce_next := 0\<rparr>"] by (auto simp: unlinked_def)
  have lo: "links_only w w3" using w1(2) w2(2) w3(2) links_only_trans by blast
  have "links (nx w3) (ch_lru_head k2) (ys @ zs) 0" "links (pv w3) (ch_lru_tail k2) (rev (ys @ zs)) 0"
    using w1(8) w2(5-7) nb(3) nx_upd [OF w3(3)] pv_upd [OF w3(3)] by (simp_all add: links_upd_other del: links_append)
  then have "lru_inv w3 c (ys @ zs)"
    using w2(4) w3(4) dom links_only_dom [OF lo] by (auto simp: lru_inv_def simp del: links_append)
  moreover have "cache_remove_from_lru c a w = Some w3"
    using e w1(1,3) w2(1) w3(1) by (simp add: cache_remove_from_lru_def)
  moreover have "nx w3 a = 0" using w3(3) by (simp add: nx_def)
  ultimately show ?thesis using lo by blast
qed

lemma add_to_lru_ok:
  assumes inv: "lru_inv w c ls" and a: "a \<in> dom (cw_entries w)" "a \<notin> set ls" "a \<noteq> 0"
  shows "\<exists>w'. cache_add_to_lru c a w = Some w' \<and> lru_inv w' c (a # ls) \<and> links_only w w'"
proof -
  obtain e k where e: "cw_entries w a = Some e" and k: "cw_caches w c = Some k" using inv a by (auto simp: lru_inv_def)
  have n: "links (nx w) (ch_lru_head k) ls 0" "links (pv w) (ch_lru_tail k) (rev ls) 0" and dom: "set ls \<subseteq> dom (cw_entries w)"
    using inv k by (auto simp: lru_inv_def)
  let ?h = "ch_lru_head k"
  obtain w1 where w1: "upd_entry a (\<lambda>e. e\<lparr>ce_prev := 0, ce_next := ?h\<rparr>) w = Some w1" "links_only w w1"
      "cw_entries w1 = (cw_entries w)(a \<mapsto> e\<lparr>ce_prev := 0, ce_next := ?h\<rparr>)" "cw_caches w1 = cw_caches w"
    using upd_entry_links [OF e, of "\<lambda>e. e\<lparr>ce_prev := 0, ce_next := ?h\<rparr>"] by (auto simp: unlinked_def)
  have u: "nx w1 = (nx w)(a := ?h)" "pv w1 = (pv w)(a := 0)" using nx_upd [OF w1(3)] pv_upd [OF w1(3)] by simp_all
  obtain w2 where w2: "(if ?h \<noteq> 0 then upd_entry ?h (\<lambda>h. h\<lparr>ce_prev := a\<rparr>) w1 else Some w1) = Some w2" "links_only w1 w2"
      "cw_caches w2 = cw_caches w1" "nx w2 = nx w1" "pv w2 = (if ls = [] then pv w1 else (pv w1)(hd ls := a))"
  proof (cases ls)
    case Nil
    then show ?thesis using that [of w1] n(1) by simp
  next
    case (Cons x us)
    then have x: "?h = x" "x \<noteq> 0" "x \<noteq> a" using n(1) a by auto
    obtain ex where ex: "cw_entries w1 x = Some ex" using Cons dom x(3) w1(3) by auto
    obtain w2 where w2: "upd_entry x (\<lambda>h. h\<lparr>ce_prev := a\<rparr>) w1 = Some w2" "links_only w1 w2"
        "cw_entries w2 = (cw_entries w1)(x \<mapsto> ex\<lparr>ce_prev := a\<rparr>)" "cw_caches w2 = cw_caches w1"
      using upd_entry_links [OF ex, of "\<lambda>h. h\<lparr>ce_prev := a\<rparr>"] by (auto simp: unlinked_def)
    moreover have "nx w2 = nx w1" using nx_upd [OF w2(3)] ex by (simp add: nx_def fun_upd_idem_iff)
    ultimately show ?thesis using that [of w2] x Cons pv_upd [OF w2(3)] by simp
  qed
  let ?g = "\<lambda>k. k\<lparr>ch_lru_head := a, ch_lru_tail := (if ch_lru_tail k = 0 then a else ch_lru_tail k)\<rparr>"
  have k2: "cw_caches w2 c = Some k" using k w1(4) w2(3) by simp
  obtain w3 where w3: "upd_cache c ?g w2 = Some w3" "links_only w2 w3" "cw_entries w3 = cw_entries w2"
      "cw_caches w3 = (cw_caches w2)(c \<mapsto> ?g k)"
    using upd_cache_links [OF k2, of ?g] by (auto simp: headless_def)
  have lo: "links_only w w3" using w1(2) w2(2) w3(2) links_only_trans by blast
  have v: "nx w3 = (nx w)(a := ?h)" "pv w3 = (if ls = [] then (pv w)(a := 0) else (pv w)(a := 0, hd ls := a))"
    using nx_pv_same [OF w3(3)] w2(4,5) u by simp_all
  have "links (nx w3) a (a # ls) 0" using n(1) a by (simp add: v links_upd_other)
  moreover have "links (pv w3) (ch_lru_tail (?g k)) (rev (a # ls)) 0"
  proof (cases "ls = []")
    case True
    then show ?thesis using n a by (simp add: v)
  next
    case False
    have "last (rev ls) = hd ls" "hd ls \<noteq> a" using False a by (auto simp: last_rev)
    moreover have "ch_lru_tail k \<noteq> 0" using n(2) False by (cases "rev ls") auto
    ultimately show ?thesis
      using links_snoc [OF n(2) _ _ a(3)] False a(2) by (simp add: v fun_upd_twist del: links_append)
  qed
  ultimately have "lru_inv w3 c (a # ls)"
    using w3(4) a(1) dom links_only_dom [OF lo] by (auto simp: lru_inv_def simp del: links.simps links_append)
  moreover have "cache_add_to_lru c a w = Some w3"
    using k w1(1) w2(1) w3(1) by (simp add: cache_add_to_lru_def)
  ultimately show ?thesis using lo by blast
qed

subsection \<open>The chains\<close>

definition key_of :: "cache_world \<Rightarrow> nat \<Rightarrow> u64" where
  "key_of w a = (case cw_entries w a of None \<Rightarrow> 0 | Some e \<Rightarrow> ce_key e)"

definition bucket :: "cache \<Rightarrow> u64 \<Rightarrow> nat" where
  "bucket k key = unat (cache_hash key (ch_table_size k))"

text \<open>A slot of the table is empty or names an entry of the list with the right hash.\<close>

definition table_inv :: "cache_world \<Rightarrow> nat \<Rightarrow> nat list \<Rightarrow> bool" where
  "table_inv w c ls \<longleftrightarrow> (\<exists>k. cw_caches w c = Some k \<and> length (ch_table k) = unat (ch_table_size k) \<and> ch_table_size k \<noteq> 0
     \<and> (\<forall>i<length (ch_table k). ch_table k ! i \<noteq> 0 \<longrightarrow> ch_table k ! i \<in> set ls \<and> bucket k (key_of w (ch_table k ! i)) = i))"

definition cache_good :: "cache_world \<Rightarrow> nat \<Rightarrow> nat list \<Rightarrow> bool" where
  "cache_good w c ls \<longleftrightarrow> c \<noteq> 0 \<and> lru_inv w c ls \<and> table_inv w c ls"

definition since :: "nat \<Rightarrow> nat list \<Rightarrow> nat list" where
  "since a ls = dropWhile (\<lambda>x. x \<noteq> a) ls"

definition first_key :: "cache_world \<Rightarrow> u64 \<Rightarrow> nat list \<Rightarrow> nat" where
  "first_key w key us = (case find (\<lambda>a. key_of w a = key) us of None \<Rightarrow> 0 | Some a \<Rightarrow> a)"

lemma since_split: "a \<notin> set ys \<Longrightarrow> since a (ys @ a # zs) = a # zs"
  by (auto simp: since_def dropWhile_append3)

lemma since_notin: "a \<notin> set ls \<Longrightarrow> since a ls = []"
  by (auto simp: since_def)

lemma chain_find_walk:
  "links (nx w) a us 0 \<Longrightarrow> set us \<subseteq> dom (cw_entries w) \<Longrightarrow> chain_find key a w = Some (first_key w key us)"
proof (induction us arbitrary: a)
  case Nil
  then show ?case by (subst chain_find.simps) (simp add: first_key_def)
next
  case (Cons x us)
  then obtain e where "cw_entries w x = Some e" by auto
  then show ?case using Cons
    by (subst chain_find.simps) (auto simp: first_key_def key_of_def nx_def)
qed

lemma cache_hash_less: "n \<noteq> 0 \<Longrightarrow> unat (cache_hash key n) < unat n"
proof -
  assume "n \<noteq> 0"
  then have "0 < unat n" by (simp add: unat_gt_0)
  have "unat ((key * 2654435761) mod ucast n :: u64) = unat (key * 2654435761) mod unat n"
    by (simp add: unat_mod)
  moreover have "unat (key * 2654435761) mod unat n < unat n" using \<open>0 < unat n\<close> by simp
  moreover have "unat n < 2 ^ 32" using unsigned_less [of n] by simp
  ultimately show ?thesis
    by (simp add: cache_hash_def unsigned_ucast_eq take_bit_nat_eq_self)
qed

lemma lru_suffix:
  assumes "lru_inv w c ls" "a \<in> set ls"
  shows "links (nx w) a (since a ls) 0" "set (since a ls) \<subseteq> dom (cw_entries w)"
proof -
  obtain ys zs where ls: "ls = ys @ a # zs" "a \<notin> set ys" using assms(2) by (meson split_list_first)
  then show "links (nx w) a (since a ls) 0" "set (since a ls) \<subseteq> dom (cw_entries w)"
    using assms(1) by (auto simp: lru_inv_def since_split)
qed

lemma find_entry_eq:
  assumes good: "cache_good w c ls" and k: "cw_caches w c = Some k"
  shows "cache_find_entry c key w = Some (first_key w key (since (ch_table k ! bucket k key) ls))"
proof -
  let ?b = "ch_table k ! bucket k key"
  have i: "bucket k key < length (ch_table k)"
    using good k cache_hash_less by (auto simp: cache_good_def table_inv_def bucket_def)
  have nz: "0 \<notin> set ls" using good links_nonzero by (fastforce simp: cache_good_def lru_inv_def)
  have "chain_find key ?b w = Some (first_key w key (since ?b ls))"
  proof (cases "?b = 0")
    case True
    then show ?thesis using nz since_notin [of 0 ls] by (subst chain_find.simps) (simp add: first_key_def)
  next
    case False
    then have "?b \<in> set ls" using good k i by (auto simp: cache_good_def table_inv_def)
    then show ?thesis using chain_find_walk lru_suffix good by (auto simp: cache_good_def)
  qed
  then show ?thesis using k by (simp add: cache_find_entry_def bucket_def)
qed

lemma first_keyD:
  assumes "first_key w key us = a" "a \<noteq> 0"
  shows "a \<in> set us \<and> key_of w a = key"
proof -
  obtain b where "find (\<lambda>a. key_of w a = key) us = Some b" "a = b"
    using assms by (auto simp: first_key_def split: option.splits)
  then show ?thesis by (auto dest: find_SomeD)
qed

lemma first_key_none: "\<forall>x\<in>set us. key_of w x \<noteq> key \<Longrightarrow> first_key w key us = 0"
proof -
  assume "\<forall>x\<in>set us. key_of w x \<noteq> key"
  then have "find (\<lambda>a. key_of w a = key) us = None" by (auto simp: find_None_iff)
  then show ?thesis by (simp add: first_key_def)
qed

text \<open>Payload of an entry and table of a cache survive every change of links.\<close>

lemma links_only_key: "links_only w w' \<Longrightarrow> key_of w' a = key_of w a"
  using links_only_entry(1) [of w w' a]
  by (cases "cw_entries w a"; cases "cw_entries w' a") (auto simp: key_of_def unlinked_def dest: arg_cong [of _ _ ce_key])

lemma links_only_table:
  assumes "links_only w w'" "cw_caches w c = Some k"
  obtains k' where "cw_caches w' c = Some k'" "ch_table k' = ch_table k" "ch_table_size k' = ch_table_size k"
    "ch_stats k' = ch_stats k" "ch_config k' = ch_config k"
proof -
  obtain k' where k': "cw_caches w' c = Some k'" "headless k' = headless k"
    using links_only_entry(2) [OF assms(1), of c] assms(2) by auto
  have "ch_table k' = ch_table k" "ch_table_size k' = ch_table_size k" "ch_stats k' = ch_stats k" "ch_config k' = ch_config k"
    using arg_cong [OF k'(2), of ch_table] arg_cong [OF k'(2), of ch_table_size] arg_cong [OF k'(2), of ch_stats]
      arg_cong [OF k'(2), of ch_config] by (simp_all add: headless_def)
  with k'(1) that show ?thesis by blast
qed

lemma links_only_table_inv:
  assumes "links_only w w'" "table_inv w c ls" "set ls \<subseteq> set ls'"
  shows "table_inv w' c ls'"
proof -
  obtain k where k: "cw_caches w c = Some k" using assms(2) by (auto simp: table_inv_def)
  obtain k' where "cw_caches w' c = Some k'" "ch_table k' = ch_table k" "ch_table_size k' = ch_table_size k"
    by (rule links_only_table [OF assms(1) k])
  then show ?thesis
    using assms k links_only_key [OF assms(1)] by (auto simp: table_inv_def bucket_def)
qed

lemma upd_stats_ok:
  assumes "cw_caches w c = Some k"
  shows "\<exists>w'. upd_stats c f w = Some w' \<and> cw_entries w' = cw_entries w \<and> cw_km w' = cw_km w \<and> cw_mem w' = cw_mem w
    \<and> cw_caches w' = (cw_caches w)(c \<mapsto> k\<lparr>ch_stats := f (ch_stats k)\<rparr>)
    \<and> (\<forall>ls. lru_inv w' c ls = lru_inv w c ls) \<and> (\<forall>ls. table_inv w' c ls = table_inv w c ls)"
proof -
  define w' where "w' = w\<lparr>cw_caches := (cw_caches w)(c \<mapsto> k\<lparr>ch_stats := f (ch_stats k)\<rparr>)\<rparr>"
  have e: "cw_entries w' = cw_entries w" by (simp add: w'_def)
  have "upd_stats c f w = Some w'" using assms by (simp add: upd_stats_def upd_cache_def w'_def)
  moreover have "lru_inv w' c ls = lru_inv w c ls" for ls
    using assms nx_pv_same [OF e] e by (simp add: lru_inv_def w'_def)
  moreover have "table_inv w' c ls = table_inv w c ls" for ls
    using assms by (simp add: table_inv_def w'_def bucket_def key_of_def)
  ultimately show ?thesis using e by (auto simp: w'_def)
qed

lemma touch_ok:
  assumes "cw_entries w a = Some e" "\<And>e. ce_key (f e) = ce_key e \<and> ce_next (f e) = ce_next e \<and> ce_prev (f e) = ce_prev e"
  shows "\<exists>w'. upd_entry a f w = Some w' \<and> cw_entries w' = (cw_entries w)(a \<mapsto> f e) \<and> cw_caches w' = cw_caches w
    \<and> (\<forall>x. key_of w' x = key_of w x) \<and> (\<forall>ls. lru_inv w' c ls = lru_inv w c ls) \<and> (\<forall>ls. table_inv w' c ls = table_inv w c ls)"
proof -
  define w' where "w' = w\<lparr>cw_entries := (cw_entries w)(a \<mapsto> f e)\<rparr>"
  have "nx w' = nx w" "pv w' = pv w" "dom (cw_entries w') = dom (cw_entries w)" "cw_caches w' = cw_caches w"
    using assms by (auto simp: w'_def nx_def pv_def fun_eq_iff)
  moreover have "key_of w' x = key_of w x" for x using assms by (simp add: key_of_def w'_def)
  moreover have "upd_entry a f w = Some w'" using assms(1) by (simp add: upd_entry_def w'_def)
  ultimately show ?thesis by (auto simp: lru_inv_def table_inv_def w'_def)
qed

lemma move_to_front:
  assumes good: "cache_good w c ls" and a: "a \<in> set ls"
  shows "\<exists>w1 w2. cache_remove_from_lru c a w = Some w1 \<and> cache_add_to_lru c a w1 = Some w2
    \<and> cache_good w2 c (a # remove1 a ls) \<and> links_only w w2"
proof -
  have inv: "lru_inv w c ls" using good by (simp add: cache_good_def)
  obtain ys zs where ls: "ls = ys @ a # zs" "a \<notin> set ys" using a by (meson split_list_first)
  have nz: "a \<noteq> 0" "a \<notin> set zs"
    using inv ls links_nonzero links_distinct by (fastforce simp: lru_inv_def simp del: links_append links.simps)+
  obtain w1 where w1: "cache_remove_from_lru c a w = Some w1" "lru_inv w1 c (ys @ zs)" "links_only w w1"
    using remove_from_lru_ok inv ls(1) by blast
  have "a \<in> dom (cw_entries w1)" using inv ls(1) links_only_dom [OF w1(3)] by (auto simp: lru_inv_def)
  then obtain w2 where w2: "cache_add_to_lru c a w1 = Some w2" "lru_inv w2 c (a # ys @ zs)" "links_only w1 w2"
    using add_to_lru_ok [OF w1(2), of a] ls(2) nz by auto
  have "links_only w w2" using links_only_trans [OF w1(3) w2(3)] .
  moreover have "remove1 a ls = ys @ zs" using ls by (simp add: remove1_append)
  moreover have "table_inv w2 c (a # ys @ zs)"
    by (rule links_only_table_inv [OF calculation(1), of c ls]) (use good ls in \<open>auto simp: cache_good_def\<close>)
  ultimately show ?thesis using good w1(1) w2(1,2) by (simp add: cache_good_def)
qed

lemma get_hit:
  assumes good: "cache_good w c ls" and k: "cw_caches w c = Some k" and e: "cw_entries w a = Some e"
    and fnd: "cache_find_entry c key w = Some a" "a \<noteq> 0"
    and fresh: "\<not> (cc_ttl_seconds (ch_config k) > 0 \<and> (now - ce_create_time e) div 1000 \<ge> ucast (cc_ttl_seconds (ch_config k)))"
  shows "\<exists>w' k'. cache_get c key True now now2 w = Some (w', 0, Some (ce_data e, ce_size e))
    \<and> cache_good w' c (a # remove1 a ls) \<and> (\<forall>x. key_of w' x = key_of w x)
    \<and> cw_caches w' c = Some k' \<and> ch_table k' = ch_table k \<and> ch_table_size k' = ch_table_size k"
proof -
  have a: "a \<in> set ls"
    using fnd find_entry_eq [OF good k, of key] first_keyD [of w key _ a] by (auto simp: since_def dest: set_dropWhileD)
  obtain w1 where w1: "upd_entry a (\<lambda>e. e\<lparr>ce_access_time := now2\<rparr>) w = Some w1" "cw_caches w1 = cw_caches w"
      "\<forall>x. key_of w1 x = key_of w x" "\<forall>ls. lru_inv w1 c ls = lru_inv w c ls" "\<forall>ls. table_inv w1 c ls = table_inv w c ls"
    using touch_ok [OF e, of "\<lambda>e. e\<lparr>ce_access_time := now2\<rparr>" c] by auto
  then have good1: "cache_good w1 c ls" using good by (simp add: cache_good_def)
  obtain w2 w3 where w3: "cache_remove_from_lru c a w1 = Some w2" "cache_add_to_lru c a w2 = Some w3"
      "cache_good w3 c (a # remove1 a ls)" "links_only w1 w3"
    using move_to_front [OF good1 a] by blast
  have "cw_caches w1 c = Some k" using w1(2) k by simp
  then obtain k3 where k3: "cw_caches w3 c = Some k3" "ch_table k3 = ch_table k" "ch_table_size k3 = ch_table_size k"
    by (rule links_only_table [OF w3(4)])
  obtain w4 where w4: "upd_stats c (\<lambda>s. s\<lparr>st_hits := st_hits s + 1\<rparr>) w3 = Some w4" "cw_entries w4 = cw_entries w3"
      "cw_caches w4 c = Some (k3\<lparr>ch_stats := (ch_stats k3)\<lparr>st_hits := st_hits (ch_stats k3) + 1\<rparr>\<rparr>)"
      "\<forall>ls. lru_inv w4 c ls = lru_inv w3 c ls" "\<forall>ls. table_inv w4 c ls = table_inv w3 c ls"
    using upd_stats_ok [OF k3(1), of "\<lambda>s. s\<lparr>st_hits := st_hits s + 1\<rparr>"] by auto
  have c0: "c \<noteq> 0" using good by (simp add: cache_good_def)
  have get: "cache_get c key True now now2 w = Some (w4, 0, Some (ce_data e, ce_size e))"
    using c0 fnd k e fresh w1(1) w3(1,2) w4(1) by (auto simp: cache_get_def Let_def)
  have "cache_good w4 c (a # remove1 a ls)" using w3(3) w4(4,5) by (simp add: cache_good_def)
  moreover have "key_of w4 x = key_of w x" for x
    using links_only_key [OF w3(4), of x] w1(3) w4(2) by (simp add: key_of_def)
  ultimately show ?thesis using get w4(3) k3 by auto
qed

subsection \<open>Eviction\<close>

lemma chain_unlink_last:
  assumes "links (nx w) b (us @ [t]) 0" "set (us @ [t]) \<subseteq> dom (cw_entries w)" "t \<notin> set us"
  shows "chain_unlink c i t pred b w =
    (let p = (if us = [] then pred else last us) in
     if p = 0 then upd_cache c (\<lambda>k. k\<lparr>ch_table := (ch_table k)[i := 0]\<rparr>) w
     else upd_entry p (\<lambda>p. p\<lparr>ce_next := 0\<rparr>) w)"
  using assms
proof (induction us arbitrary: b pred)
  case Nil
  then obtain e where e: "cw_entries w t = Some e" by auto
  then show ?case using Nil by (subst chain_unlink.simps) (auto simp: nx_def)
next
  case (Cons x us)
  then obtain e where e: "cw_entries w x = Some e" by auto
  have "nx w x = ce_next e" using e by (simp add: nx_def)
  then have "links (nx w) (ce_next e) (us @ [t]) 0" using Cons.prems(1) by auto
  then have IH: "chain_unlink c i t x (ce_next e) w =
    (let p = (if us = [] then x else last us) in
     if p = 0 then upd_cache c (\<lambda>k. k\<lparr>ch_table := (ch_table k)[i := 0]\<rparr>) w
     else upd_entry p (\<lambda>p. p\<lparr>ce_next := 0\<rparr>) w)" using Cons by auto
  have "b = x" "x \<noteq> 0" "x \<noteq> t" using Cons.prems by auto
  then show ?case using IH e by (subst chain_unlink.simps) simp
qed

lemma remove_after_unlink:
  assumes "cw_entries w t = Some e" "ce_prev e = x" "ce_next e = 0" "x \<noteq> 0" "x \<noteq> t"
    "upd_entry x (\<lambda>p. p\<lparr>ce_next := 0\<rparr>) w = Some w1"
  shows "cache_remove_from_lru c t w1 = cache_remove_from_lru c t w"
proof -
  obtain ex where ex: "cw_entries w x = Some ex" "w1 = w\<lparr>cw_entries := (cw_entries w)(x \<mapsto> ex\<lparr>ce_next := 0\<rparr>)\<rparr>"
    using assms(6) by (auto simp: upd_entry_def split: option.splits)
  then have "upd_entry x (\<lambda>p. p\<lparr>ce_next := 0\<rparr>) w1 = upd_entry x (\<lambda>p. p\<lparr>ce_next := 0\<rparr>) w"
    by (simp add: upd_entry_def)
  moreover have "cw_entries w1 t = Some e" using ex assms(1,5) by simp
  ultimately show ?thesis using assms by (simp add: cache_remove_from_lru_def)
qed

lemma forget_entry:
  assumes "cw_entries w' = (cw_entries w)(t := None)" "cw_caches w' = cw_caches w" "t \<notin> set ys"
  shows "lru_inv w c ys \<Longrightarrow> lru_inv w' c ys" "table_inv w c ys \<Longrightarrow> table_inv w' c ys"
proof -
  have "links (nx w') a us 0 = links (nx w) a us 0" "links (pv w') a us 0 = links (pv w) a us 0" if "t \<notin> set us" for a us
    using that assms(1) by (auto intro!: links_cong simp: nx_def pv_def)
  then show "lru_inv w c ys \<Longrightarrow> lru_inv w' c ys" using assms by (auto simp: lru_inv_def)
  have "key_of w' x = key_of w x" if "x \<in> set ys" for x using that assms(1,3) by (auto simp: key_of_def)
  then show "table_inv w c ys \<Longrightarrow> table_inv w' c ys" using assms(2) by (auto simp: table_inv_def)
qed

lemma live_nonzero: "km_inv s \<Longrightarrow> (b, n) \<in> slab_live s \<Longrightarrow> b \<noteq> 0"
  by (auto simp: km_inv_def slab_live_eq elim!: live_ofE dest!: slab_block_within(1))

text \<open>Taking the last entry out of its chain and out of the list.\<close>

lemma unlink_last:
  assumes good: "cache_good w c (ys @ [t])" and k: "cw_caches w c = Some k" and e: "cw_entries w t = Some e"
  defines "i \<equiv> bucket k (ce_key e)"
  shows "\<exists>w1 w2 k2. chain_unlink c i t 0 (ch_table k ! i) w = Some w1 \<and> cache_remove_from_lru c t w1 = Some w2
    \<and> lru_inv w2 c ys \<and> table_inv w2 c ys \<and> cw_caches w2 c = Some k2 \<and> ch_stats k2 = ch_stats k
    \<and> ch_config k2 = ch_config k \<and> cw_km w2 = cw_km w \<and> cw_mem w2 = cw_mem w"
proof -
  have inv: "lru_inv w c (ys @ t # [])" and tab: "table_inv w c (ys @ [t])" using good by (simp_all add: cache_good_def)
  note nb = lru_neighbours [OF inv e k]
  let ?b = "ch_table k ! i"
  have i: "i < length (ch_table k)"
    using tab k cache_hash_less by (auto simp: table_inv_def bucket_def i_def)
  have key: "key_of w t = ce_key e" using e by (simp add: key_of_def)
  have slot: "j = i" if "j < length (ch_table k)" "ch_table k ! j = t" for j
    using tab k that nb(4) key by (auto simp: table_inv_def i_def)
  show ?thesis
  proof (cases "?b = t")
    case True
    define w1 where "w1 = w\<lparr>cw_caches := (cw_caches w)(c \<mapsto> k\<lparr>ch_table := (ch_table k)[i := 0]\<rparr>)\<rparr>"
    have "chain_unlink c i t 0 ?b w = Some w1"
      using chain_unlink_last [of w ?b "[]" t c i 0] True nb(1,4) e k by (auto simp: upd_cache_def w1_def nx_def)
    moreover have "lru_inv w1 c (ys @ t # [])"
      using inv k nx_pv_same [of w1 w] by (simp add: lru_inv_def w1_def)
    then obtain w2 where w2: "cache_remove_from_lru c t w1 = Some w2" "lru_inv w2 c (ys @ [])" "links_only w1 w2"
      using remove_from_lru_ok by blast
    have "table_inv w1 c ys"
      using tab k slot i by (auto simp: table_inv_def w1_def nth_list_update key_of_def bucket_def)
    from links_only_table_inv [OF w2(3) this] have "table_inv w2 c ys" by simp
    moreover obtain k2 where "cw_caches w2 c = Some k2" "ch_stats k2 = ch_stats k" "ch_config k2 = ch_config k"
      using links_only_table [OF w2(3), of c "k\<lparr>ch_table := (ch_table k)[i := 0]\<rparr>"] by (auto simp: w1_def)
    ultimately show ?thesis using w2 by (auto simp: links_only_def w1_def)
  next
    case False
    obtain w2 where w2: "cache_remove_from_lru c t w = Some w2" "lru_inv w2 c (ys @ [])" "links_only w w2"
      using remove_from_lru_ok inv by blast
    have "\<exists>w1. chain_unlink c i t 0 ?b w = Some w1 \<and> cache_remove_from_lru c t w1 = Some w2"
    proof (cases "?b = 0")
      case True
      then show ?thesis using w2(1) by (subst chain_unlink.simps) simp
    next
      case b0: False
      then have "?b \<in> set ys" using tab k i False by (auto simp: table_inv_def)
      then obtain us vs where ys: "ys = us @ ?b # vs" "?b \<notin> set us" by (meson split_list_first)
      let ?x = "last ys"
      have xin: "?x \<in> set ys" using ys(1) by simp
      moreover have "0 \<notin> set ys" "t \<notin> set ys" using nb(3,4) by simp_all
      ultimately have "?x \<noteq> 0" "?x \<noteq> t" by metis+
      then have x: "last (?b # vs) = ?x" "?x \<noteq> 0" "?x \<noteq> t" "ce_prev e = ?x" "ce_next e = 0"
        using nb(1,2) ys(1) by simp_all
      have "links (nx w) ?b ((?b # vs) @ [t]) 0" "set ((?b # vs) @ [t]) \<subseteq> dom (cw_entries w)"
        using inv k ys(1) by (auto simp: lru_inv_def)
      then have un: "chain_unlink c i t 0 ?b w = upd_entry ?x (\<lambda>p. p\<lparr>ce_next := 0\<rparr>) w"
        using chain_unlink_last [of w ?b "?b # vs" t c i 0] nb(3) ys(1) x(1,2) by simp
      obtain ex where "cw_entries w ?x = Some ex" using inv xin by (auto simp: lru_inv_def)
      then obtain w1 where w1: "upd_entry ?x (\<lambda>p. p\<lparr>ce_next := 0\<rparr>) w = Some w1" by (simp add: upd_entry_def)
      show ?thesis using un w1 w2(1) remove_after_unlink [OF e x(4,5,2,3) w1] by simp
    qed
    moreover have "table_inv w2 c ys"
    proof -
      have T: "length (ch_table k) = unat (ch_table_size k)" "ch_table_size k \<noteq> 0"
        "\<And>j. j < length (ch_table k) \<Longrightarrow> ch_table k ! j \<noteq> 0 \<Longrightarrow>
           ch_table k ! j \<in> set (ys @ [t]) \<and> bucket k (key_of w (ch_table k ! j)) = j"
        using tab k by (auto simp: table_inv_def)
      have "ch_table k ! j \<noteq> t" if "j < length (ch_table k)" for j using slot [OF that] False by blast
      with T have "table_inv w c ys" unfolding table_inv_def by (intro exI [of _ k]) (auto simp: k)
      from links_only_table_inv [OF w2(3) this] show ?thesis by simp
    qed
    moreover obtain k2 where "cw_caches w2 c = Some k2" "ch_stats k2 = ch_stats k" "ch_config k2 = ch_config k"
      by (rule links_only_table [OF w2(3) k])
    ultimately show ?thesis using w2 by (auto simp: links_only_def)
  qed
qed

lemma cw_free_live:
  assumes "km_inv (cw_km w)" "(b, n) \<in> slab_live (cw_km w)"
  shows "\<exists>w'. cw_free b w = Some w' \<and> km_inv (cw_km w') \<and> slab_live (cw_km w') = slab_live (cw_km w) - {(b, n)}
    \<and> cw_entries w' = cw_entries w \<and> cw_caches w' = cw_caches w \<and> cw_mem w' = cw_mem w"
  using sl.free_law [OF assms] by (auto simp: cw_free_def)

lemma evict_ok:
  assumes good: "cache_good w c (ys @ [t])" and k: "cw_caches w c = Some k" and e: "cw_entries w t = Some e"
    and heap: "km_inv (cw_km w)" "(ce_data e, n) \<in> slab_live (cw_km w)" "(t, m) \<in> slab_live (cw_km w)" "ce_data e \<noteq> t"
  shows "\<exists>w' k'. cache_evict_lru c w = Some w' \<and> cache_good w' c ys \<and> cw_entries w' t = None
    \<and> km_inv (cw_km w') \<and> slab_live (cw_km w') = slab_live (cw_km w) - {(ce_data e, n), (t, m)}
    \<and> cw_caches w' c = Some k' \<and> st_entries_current (ch_stats k') = st_entries_current (ch_stats k) - 1
    \<and> st_size_current (ch_stats k') = st_size_current (ch_stats k) - ce_size e
    \<and> st_evictions (ch_stats k') = st_evictions (ch_stats k) + 1"
proof -
  let ?i = "bucket k (ce_key e)"
  obtain w1 w2 k2 where w2: "chain_unlink c ?i t 0 (ch_table k ! ?i) w = Some w1" "cache_remove_from_lru c t w1 = Some w2"
      "lru_inv w2 c ys" "table_inv w2 c ys" "cw_caches w2 c = Some k2" "ch_stats k2 = ch_stats k"
      "ch_config k2 = ch_config k" "cw_km w2 = cw_km w" "cw_mem w2 = cw_mem w"
    using unlink_last [OF good k e] by blast
  let ?f = "\<lambda>s. s\<lparr>st_size_current := st_size_current s - ce_size e, st_entries_current := st_entries_current s - 1\<rparr>"
  obtain w3 where w3: "upd_stats c ?f w2 = Some w3" "cw_entries w3 = cw_entries w2" "cw_km w3 = cw_km w2"
      "cw_caches w3 = (cw_caches w2)(c \<mapsto> k2\<lparr>ch_stats := ?f (ch_stats k2)\<rparr>)"
      "\<forall>ls. lru_inv w3 c ls = lru_inv w2 c ls" "\<forall>ls. table_inv w3 c ls = table_inv w2 c ls"
    using upd_stats_ok [OF w2(5), of ?f] by auto
  define w4 where "w4 = cleanup_data k (ce_data e) w3"
  have w4: "cw_entries w4 = cw_entries w3" "cw_caches w4 = cw_caches w3" "cw_km w4 = cw_km w3"
    by (simp_all add: w4_def cleanup_data_def)
  have d0: "ce_data e \<noteq> 0" by (rule live_nonzero [OF heap(1,2)])
  obtain w5 where w5: "cw_free (ce_data e) w4 = Some w5" "km_inv (cw_km w5)"
      "slab_live (cw_km w5) = slab_live (cw_km w) - {(ce_data e, n)}" "cw_entries w5 = cw_entries w4" "cw_caches w5 = cw_caches w4"
    using cw_free_live [of w4 "ce_data e" n] heap w2(8) w3(3) w4(3) by auto
  let ?v = "w5\<lparr>cw_entries := (cw_entries w5)(t := None)\<rparr>"
  have "(t, m) \<in> slab_live (cw_km ?v)" using w5(3) heap(3,4) by auto
  then obtain w6 where w6: "cw_free t ?v = Some w6" "km_inv (cw_km w6)"
      "slab_live (cw_km w6) = slab_live (cw_km w) - {(ce_data e, n), (t, m)}"
      "cw_entries w6 = (cw_entries w5)(t := None)" "cw_caches w6 = cw_caches w5"
    using cw_free_live [of ?v t m] w5(2,3) by auto
  have rem: "cache_remove_entry c t w = Some w6"
    using k e w2(1,2) w3(1) d0 w5(1) w6(1) by (simp add: cache_remove_entry_def bucket_def w4_def free_entry_def Let_def)
  have tys: "t \<notin> set ys" "t \<noteq> 0" "ch_lru_tail k = t" "c \<noteq> 0"
    using lru_neighbours(3,4) [of w c ys t "[]", OF _ e k] good k by (auto simp: cache_good_def lru_inv_def)
  have inv6: "lru_inv w6 c ys" "table_inv w6 c ys"
  proof -
    have c: "cw_entries w6 = (cw_entries w3)(t := None)" "cw_caches w6 = cw_caches w3" using w4 w5(4,5) w6(4,5) by simp_all
    show "lru_inv w6 c ys" using forget_entry(1) [OF c tys(1)] w2(3) w3(5) by simp
    show "table_inv w6 c ys" using forget_entry(2) [OF c tys(1)] w2(4) w3(6) by simp
  qed
  have k6: "cw_caches w6 c = Some (k2\<lparr>ch_stats := ?f (ch_stats k2)\<rparr>)" using w3(4) w4 w5 w6 by simp
  obtain w7 where w7: "upd_stats c (\<lambda>s. s\<lparr>st_evictions := st_evictions s + 1\<rparr>) w6 = Some w7" "cw_entries w7 = cw_entries w6"
      "cw_km w7 = cw_km w6" "\<forall>ls. lru_inv w7 c ls = lru_inv w6 c ls" "\<forall>ls. table_inv w7 c ls = table_inv w6 c ls"
      "cw_caches w7 c = Some (k2\<lparr>ch_stats := (?f (ch_stats k2))\<lparr>st_evictions := st_evictions (?f (ch_stats k2)) + 1\<rparr>\<rparr>)"
    using upd_stats_ok [OF k6, of "\<lambda>s. s\<lparr>st_evictions := st_evictions s + 1\<rparr>"] by auto
  have "cache_evict_lru c w = Some w7" using k tys(2,3) rem w7(1) by (simp add: cache_evict_lru_def)
  moreover have "cache_good w7 c ys" using inv6 w7(4,5) tys(4) by (simp add: cache_good_def)
  ultimately show ?thesis using w6(2-4) w7(2,3,6) w2(6) by simp
qed

subsection \<open>Clearing\<close>

lemma free_entry_entries: "free_entry a w = Some w' \<Longrightarrow> cw_entries w' = (cw_entries w)(a := None) \<and> cw_caches w' = cw_caches w"
  by (auto simp: free_entry_def cw_free_def split: option.splits)

lemma cw_free_entries: "cw_free a w = Some w' \<Longrightarrow> cw_entries w' = cw_entries w \<and> cw_caches w' = cw_caches w"
  by (auto simp: cw_free_def split: option.splits)

lemma cleanup_entries [simp]: "cw_entries (cleanup_data k d w) = cw_entries w" "cw_caches (cleanup_data k d w) = cw_caches w"
  by (simp_all add: cleanup_data_def)

text \<open>One step of the loop, when it does not fault, frees the entry and changes no other.\<close>

lemma clear_chain_step:
  assumes "cw_entries w a = Some e" "a \<noteq> 0"
  shows "clear_chain k a w = None \<or> (\<exists>w'. clear_chain k a w = clear_chain k (ce_next e) w'
    \<and> cw_entries w' = (cw_entries w)(a := None) \<and> cw_caches w' = cw_caches w)"
proof -
  define w1 where "w1 = cleanup_data k (ce_data e) w"
  consider "(if ce_data e \<noteq> 0 then cw_free (ce_data e) w1 else Some w1) = None"
    | w2 where "(if ce_data e \<noteq> 0 then cw_free (ce_data e) w1 else Some w1) = Some w2" "free_entry a w2 = None"
    | w2 w3 where "(if ce_data e \<noteq> 0 then cw_free (ce_data e) w1 else Some w1) = Some w2" "free_entry a w2 = Some w3"
    by (metis not_Some_eq)
  then show ?thesis
  proof cases
    case 1
    then have "clear_chain k a w = None" using assms by (subst clear_chain.simps) (auto simp: w1_def Let_def split: if_splits)
    then show ?thesis ..
  next
    case (2 w2)
    then have "clear_chain k a w = None" using assms by (subst clear_chain.simps) (auto simp: w1_def Let_def split: if_splits)
    then show ?thesis ..
  next
    case (3 w2 w3)
    have "cw_entries w2 = cw_entries w" "cw_caches w2 = cw_caches w"
      using 3(1) cw_free_entries [of "ce_data e" w1 w2] by (auto simp: w1_def split: if_splits)
    moreover have "clear_chain k a w = clear_chain k (ce_next e) w3"
      using assms 3 by (subst clear_chain.simps) (auto simp: w1_def Let_def split: if_splits)
    ultimately show ?thesis using free_entry_entries [OF 3(2)] by auto
  qed
qed

lemma clear_chain_faults:
  assumes "links (nx w) a us b" "b \<noteq> 0" "cw_entries w b = None" "set us \<subseteq> dom (cw_entries w)" "distinct us"
  shows "clear_chain k a w = None"
  using assms
proof (induction us arbitrary: a w)
  case Nil
  then show ?case by (subst clear_chain.simps) simp
next
  case (Cons x us)
  then obtain e where e: "cw_entries w x = Some e" by auto
  have ax: "a = x" "x \<noteq> 0" using Cons.prems(1) by auto
  from clear_chain_step [OF e ax(2), of k] show ?case
  proof
    assume "clear_chain k x w = None"
    then show ?thesis using ax by simp
  next
    assume "\<exists>w'. clear_chain k x w = clear_chain k (ce_next e) w' \<and> cw_entries w' = (cw_entries w)(x := None)
      \<and> cw_caches w' = cw_caches w"
    then obtain w' where w': "clear_chain k x w = clear_chain k (ce_next e) w'" "cw_entries w' = (cw_entries w)(x := None)"
      by blast
    have "links (nx w') (ce_next e) us b \<longleftrightarrow> links (nx w) (ce_next e) us b"
      using Cons.prems(5) w'(2) by (intro links_cong) (auto simp: nx_def)
    moreover have "nx w x = ce_next e" using e by (simp add: nx_def)
    ultimately have "links (nx w') (ce_next e) us b" using Cons.prems(1) by simp
    moreover have "cw_entries w' b = None" using Cons.prems(3) w'(2) by simp
    moreover have "set us \<subseteq> dom (cw_entries w')"
      unfolding w'(2) dom_fun_upd using Cons.prems(4,5) by auto
    ultimately have "clear_chain k (ce_next e) w' = None" using Cons.IH Cons.prems(2,5) by simp
    then show ?thesis using ax w'(1) by simp
  qed
qed

lemma clear_chain_frees:
  assumes "links (nx w) a us 0" "set us \<subseteq> dom (cw_entries w)" "clear_chain k a w = Some w'"
  shows "cw_entries w' = (\<lambda>x. if x \<in> set us then None else cw_entries w x)" "cw_caches w' = cw_caches w"
  using assms
proof (induction us arbitrary: a w)
  case Nil
  { case 1 then show ?case by (subst (asm) clear_chain.simps) simp }
  { case 2 then show ?case by (subst (asm) clear_chain.simps) simp }
next
  case (Cons x us)
  have step: "\<exists>v (e :: cache_entry). clear_chain k (ce_next e) v = Some w' \<and> cw_entries v = (cw_entries w)(x := None) \<and> cw_caches v = cw_caches w
      \<and> links (nx v) (ce_next e) us 0 \<and> set us \<subseteq> dom (cw_entries v)"
    if p: "links (nx w) a (x # us) 0" "set (x # us) \<subseteq> dom (cw_entries w)" "clear_chain k a w = Some w'" for a w
  proof -
    obtain e where e: "cw_entries w x = Some e" using p(2) by auto
    have ax: "a = x" "x \<noteq> 0" "x \<notin> set us" using p(1) links_distinct [OF p(1)] by auto
    obtain v where v: "clear_chain k x w = clear_chain k (ce_next e) v" "cw_entries v = (cw_entries w)(x := None)"
        "cw_caches v = cw_caches w"
      using clear_chain_step [OF e ax(2), of k] p(3) ax(1) by auto
    have "links (nx v) (ce_next e) us 0 \<longleftrightarrow> links (nx w) (ce_next e) us 0"
      using ax(3) v(2) by (intro links_cong) (auto simp: nx_def)
    moreover have "nx w x = ce_next e" using e by (simp add: nx_def)
    moreover have "set us \<subseteq> dom (cw_entries v)" unfolding v(2) dom_fun_upd using p(2) ax(3) by auto
    ultimately show ?thesis using p(1,3) v ax by (intro exI [of _ v] exI [of _ e]) simp
  qed
  { case 1
    from step [OF this] obtain v and e :: cache_entry where v: "clear_chain k (ce_next e) v = Some w'" "cw_entries v = (cw_entries w)(x := None)"
      "links (nx v) (ce_next e) us 0" "set us \<subseteq> dom (cw_entries v)" by blast
    from Cons.IH(1) [OF v(3,4,1)] v(2) show ?case by auto }
  { case 2
    from step [OF this] obtain v and e :: cache_entry where v: "clear_chain k (ce_next e) v = Some w'" "cw_caches v = cw_caches w"
      "links (nx v) (ce_next e) us 0" "set us \<subseteq> dom (cw_entries v)" by blast
    from Cons.IH(2) [OF v(3,4,1)] v(2) show ?case by simp }
qed

lemma clear_buckets_append:
  "clear_buckets c (xs @ ys) w = do { w1 \<leftarrow> clear_buckets c xs w; clear_buckets c ys w1 }"
  by (induction xs arbitrary: w) (auto simp: bind_eq_None_conv split: Option.bind_splits)

lemma clear_buckets_empty:
  assumes "cw_caches w c = Some k" "\<forall>i\<in>set xs. ch_table k ! i = 0"
  shows "clear_buckets c xs w = Some w"
  using assms(2)
proof (induction xs)
  case (Cons i xs)
  have "clear_chain k 0 w = Some w" by (subst clear_chain.simps) simp
  moreover have "upd_cache c (\<lambda>k. k\<lparr>ch_table := (ch_table k)[i := 0]\<rparr>) w = Some w"
  proof -
    have "(ch_table k)[i := 0] = ch_table k" using Cons.prems by (metis list.set_intros(1) list_update_id)
    then have "k\<lparr>ch_table := (ch_table k)[i := 0]\<rparr> = k" by simp
    then show ?thesis using assms(1) by (simp add: upd_cache_def fun_upd_idem)
  qed
  ultimately show ?case using Cons assms(1) by simp
qed simp

lemma two_buckets_fault:
  assumes inv: "lru_inv w c ls" and k: "cw_caches w c = Some k"
    and a: "ch_table k ! i = a" "a \<in> set ls" and b: "ch_table k ! j = b" "b \<in> set ls" "j \<noteq> i"
    and mid: "\<forall>l\<in>set ys. ch_table k ! l = 0"
  shows "clear_buckets c (i # ys @ [j]) w = None"
proof (cases "clear_chain k a w")
  case None
  then show ?thesis using k a by simp
next
  case (Some w1)
  note suf = lru_suffix [OF inv a(2)]
  note fr = clear_chain_frees [OF suf Some]
  define k2 where "k2 = k\<lparr>ch_table := (ch_table k)[i := 0]\<rparr>"
  define w2 where "w2 = w1\<lparr>cw_caches := (cw_caches w1)(c \<mapsto> k2)\<rparr>"
  have w2: "upd_cache c (\<lambda>k. k\<lparr>ch_table := (ch_table k)[i := 0]\<rparr>) w1 = Some w2" "cw_caches w2 c = Some k2"
    "cw_entries w2 = (\<lambda>x. if x \<in> set (since a ls) then None else cw_entries w x)"
    using fr k by (simp_all add: upd_cache_def w2_def k2_def)
  have "ch_table k2 ! l = 0" if "l \<in> set ys" for l
    using that mid by (cases "l = i"; cases "i < length (ch_table k)") (auto simp: k2_def list_update_beyond)
  then have ys: "clear_buckets c ys w2 = Some w2" using clear_buckets_empty [OF w2(2)] by blast
  have bj: "ch_table k2 ! j = b" using b by (simp add: k2_def)
  obtain ps qs where ls: "ls = ps @ a # qs" "a \<notin> set ps" using a(2) by (meson split_list_first)
  have sa: "since a ls = a # qs" using ls since_split by simp
  have nz: "0 \<notin> set ls" "distinct ls" using inv links_nonzero links_distinct by (auto simp: lru_inv_def)
  have "clear_chain k2 b w2 = None"
  proof (cases "b \<in> set (since a ls)")
    case True
    then have "cw_entries w2 b = None" using w2(3) by simp
    moreover have "b \<noteq> 0" using b nz by metis
    ultimately show ?thesis using clear_chain_faults [of w2 b "[]" b] by simp
  next
    case False
    then have "b \<in> set ps" using b(2) ls(1) sa by auto
    then obtain us vs where ps: "ps = us @ b # vs" by (meson split_list)
    have "links (nx w) b (b # vs) a" "set (b # vs) \<subseteq> dom (cw_entries w)" using inv k ls(1) ps by (auto simp: lru_inv_def)
    moreover have fr: "\<forall>x\<in>set (b # vs). cw_entries w2 x = cw_entries w x"
      using w2(3) sa nz(2) ls(1) ps by auto
    moreover have "links (nx w2) b (b # vs) a \<longleftrightarrow> links (nx w) b (b # vs) a"
      by (rule links_cong) (use fr in \<open>auto simp: nx_def\<close>)
    moreover have "cw_entries w2 a = None" "a \<noteq> 0" "distinct (b # vs)" using w2(3) sa nz ls(1) ps by auto
    ultimately show ?thesis
      by (intro clear_chain_faults [of w2 b "b # vs" a]) (simp_all add: subset_iff domIff del: links.simps)
  qed
  then have "clear_buckets c [j] w2 = None" using w2(2) bj by simp
  then show ?thesis using k a Some w2(1) ys by (simp add: clear_buckets_append)
qed

lemma split_two:
  assumes "i < n" "j < n" "i \<noteq> j" "P i" "P j"
  shows "\<exists>xs i ys j zs. [0..<n] = xs @ i # ys @ j # zs \<and> P i \<and> P j \<and> i \<noteq> j \<and> (\<forall>l\<in>set xs. \<not> P l) \<and> (\<forall>l\<in>set ys. \<not> P l)"
proof -
  have "i \<in> set [0..<n]" using assms by simp
  then obtain xs a us where x: "[0..<n] = xs @ a # us" "P a" "\<forall>l\<in>set xs. \<not> P l"
    using assms(4) split_list_first_prop [of "[0..<n]" P] by blast
  have "distinct (xs @ a # us)" using x(1) by (metis distinct_upt)
  have "i \<in> set (a # us)" "j \<in> set (a # us)" using x assms by (metis Un_iff atLeastLessThan_iff set_append set_upt zero_le)+
  then have "\<exists>l\<in>set us. P l" using assms by auto
  then obtain ys b zs where y: "us = ys @ b # zs" "P b" "\<forall>l\<in>set ys. \<not> P l" using split_list_first_prop [of us P] by blast
  then have "a \<noteq> b" using \<open>distinct (xs @ a # us)\<close> by auto
  then show ?thesis using x y by blast
qed

lemma clear_two_buckets:
  assumes good: "cache_good w c ls" and k: "cw_caches w c = Some k"
    and "i < length (ch_table k)" "j < length (ch_table k)" "i \<noteq> j" "ch_table k ! i \<noteq> 0" "ch_table k ! j \<noteq> 0"
  shows "cache_clear c w = None"
proof -
  let ?n = "length (ch_table k)"
  obtain xs a ys b zs where sp: "[0..<?n] = xs @ a # ys @ b # zs" "ch_table k ! a \<noteq> 0" "ch_table k ! b \<noteq> 0" "a \<noteq> b"
      "\<forall>l\<in>set xs. ch_table k ! l = 0" "\<forall>l\<in>set ys. ch_table k ! l = 0"
    using split_two [of i ?n j "\<lambda>l. ch_table k ! l \<noteq> 0"] assms(3-7) by (metis (no_types, lifting))
  have "a \<in> set [0..<?n]" "b \<in> set [0..<?n]" unfolding sp(1) by simp_all
  then have "ch_table k ! a \<in> set ls" "ch_table k ! b \<in> set ls" using good k sp(2,3) by (auto simp: cache_good_def table_inv_def)
  then have "clear_buckets c (a # ys @ [b]) w = None"
    using two_buckets_fault [OF _ k refl _ refl _ _ sp(6)] good sp(4) by (auto simp: cache_good_def)
  then have "clear_buckets c ((xs @ a # ys @ [b]) @ zs) w = None"
    using clear_buckets_empty [OF k sp(5)] by (simp only: clear_buckets_append) simp
  moreover have "unat (ch_table_size k) = ?n" using good k by (auto simp: cache_good_def table_inv_def)
  ultimately show ?thesis using good k sp(1) by (simp add: cache_clear_def cache_good_def del: clear_buckets.simps)
qed

subsection \<open>Insertion\<close>

text \<open>The entries are blocks the heap has handed out.\<close>

definition entries_out :: "cache_world \<Rightarrow> bool" where
  "entries_out w \<longleftrightarrow> km_inv (cw_km w) \<and> dom (cw_entries w) \<subseteq> fst ` slab_live (cw_km w)"

lemma alloc_fresh:
  assumes "entries_out w" "snd (brights_pmem_alloc_page (km_pmem (cw_km w))) \<noteq> 0" "0 < unat sz" "unat sz \<le> 2048"
  shows "\<exists>w' p n. cw_alloc sz w = Some (w', p) \<and> p \<noteq> 0 \<and> p \<notin> dom (cw_entries w) \<and> entries_out w'
    \<and> (p, n) \<in> slab_live (cw_km w') \<and> cw_entries w' = cw_entries w \<and> cw_caches w' = cw_caches w \<and> cw_mem w' = cw_mem w"
proof -
  obtain P F xs where inv: "slab_inv (cw_km w) P F" "heap_inv (cw_km w) xs"
    using assms(1) by (auto simp: entries_out_def km_inv_def)
  obtain t p n where t: "brights_kmalloc sz (cw_km w) = Some (t, p)" "km_inv t" "unat sz \<le> n" "handed_out (cw_km w) t p n"
    using kmalloc_small [OF inv assms(3,4)] assms(2) by blast
  have "p \<notin> fst ` slab_live (cw_km w)" by (rule handed_out_fresh [OF t(4)]) (use t(3) assms(3) in simp)
  moreover have "slab_live t = insert (p, n) (slab_live (cw_km w))" "p \<noteq> 0" using t(4) by (auto simp: handed_out_def)
  ultimately show ?thesis
    using t(1,2) assms(1)
    by (intro exI [of _ "w\<lparr>cw_km := t\<rparr>"] exI [of _ p] exI [of _ n]) (auto simp: cw_alloc_def entries_out_def)
qed

lemma alloc_any:
  assumes "km_inv (cw_km w)"
  shows "\<exists>w' p. cw_alloc sz w = Some (w', p) \<and> km_inv (cw_km w') \<and> slab_live (cw_km w) \<subseteq> slab_live (cw_km w')
    \<and> cw_entries w' = cw_entries w \<and> cw_caches w' = cw_caches w \<and> cw_mem w' = cw_mem w"
proof -
  obtain P F xs where inv: "slab_inv (cw_km w) P F" "heap_inv (cw_km w) xs" using assms by (auto simp: km_inv_def)
  obtain t p where "brights_kmalloc sz (cw_km w) = Some (t, p)" using kmalloc_any [OF inv, of sz] by blast
  with kmalloc_live_mono [OF assms this] show ?thesis by (auto simp: cw_alloc_def)
qed

lemma lru_inv_other:
  assumes "lru_inv w c ls" "cw_entries w' = (cw_entries w)(p \<mapsto> e)" "p \<notin> dom (cw_entries w)"
    and "cw_caches w' c = Some k'" "cw_caches w c = Some k" "ch_lru_head k' = ch_lru_head k" "ch_lru_tail k' = ch_lru_tail k"
  shows "lru_inv w' c ls"
proof -
  have "p \<notin> set ls" using assms(1,3) by (auto simp: lru_inv_def)
  then have "links (nx w') a ls 0 = links (nx w) a ls 0" "links (pv w') a (rev ls) 0 = links (pv w) a (rev ls) 0" for a
    using nx_upd [OF assms(2)] pv_upd [OF assms(2)] by (simp_all add: links_upd_other)
  then show ?thesis using assms by (auto simp: lru_inv_def)
qed

lemma put_new_ok:
  assumes good: "cache_good w c ls" and heap: "entries_out w" "snd (brights_pmem_alloc_page (km_pmem (cw_km w))) \<noteq> 0"
    and k: "cw_caches w c = Some k"
  shows "(\<exists>w'. put_new c key data sz now w = Some (w', -1) \<and> cache_good w' c ls \<and> cw_entries w' = cw_entries w
      \<and> cw_caches w' = cw_caches w) \<or>
    (\<exists>w' p d e k'. put_new c key data sz now w = Some (w', 0) \<and> cache_good w' c (p # ls) \<and> entries_out w'
      \<and> p \<notin> dom (cw_entries w) \<and> cw_entries w' p = Some e \<and> ce_key e = key \<and> ce_data e = d \<and> ce_size e = sz
      \<and> (\<forall>x. x \<noteq> p \<longrightarrow> key_of w' x = key_of w x)
      \<and> cw_mem w' = kutil_memcpy d data (unat sz) (cw_mem w) \<and> cw_caches w' c = Some k' \<and> ch_table_size k' = ch_table_size k
      \<and> ch_table k' = (ch_table k)[bucket k key := p])"
proof -
  obtain w1 p n where w1: "cw_alloc CACHE_ENTRY_T_SIZE w = Some (w1, p)" "p \<noteq> 0" "p \<notin> dom (cw_entries w)" "entries_out w1"
      "(p, n) \<in> slab_live (cw_km w1)" "cw_entries w1 = cw_entries w" "cw_caches w1 = cw_caches w" "cw_mem w1 = cw_mem w"
    using alloc_fresh [OF heap, of CACHE_ENTRY_T_SIZE] by (auto simp: CACHE_ENTRY_T_SIZE_def)
  obtain w2 d where w2: "cw_alloc sz w1 = Some (w2, d)" "km_inv (cw_km w2)" "slab_live (cw_km w1) \<subseteq> slab_live (cw_km w2)"
      "cw_entries w2 = cw_entries w1" "cw_caches w2 = cw_caches w1" "cw_mem w2 = cw_mem w1"
    using alloc_any [of w1 sz] w1(4) by (auto simp: entries_out_def)
  show ?thesis
  proof (cases "d = 0")
    case True
    obtain w3 where w3: "cw_free p w2 = Some w3" "cw_entries w3 = cw_entries w2" "cw_caches w3 = cw_caches w2"
      using cw_free_live [OF w2(2), of p n] w1(5) w2(3) by auto
    have same: "cw_entries w3 = cw_entries w" "cw_caches w3 = cw_caches w" using w1 w2 w3 by simp_all
    then have "cache_good w3 c ls"
      using good nx_pv_same [OF same(1)] by (simp add: cache_good_def lru_inv_def table_inv_def key_of_def)
    then show ?thesis using w1(1,2) w2(1) True w3(1) same by (auto simp: put_new_def)
  next
    case False
    let ?i = "bucket k key"
    define e0 where "e0 = \<lparr>ce_key = key, ce_data = d, ce_size = sz, ce_access_time = now, ce_create_time = now,
      ce_prev = 0, ce_next = ch_table k ! ?i\<rparr>"
    define k4 where "k4 = k\<lparr>ch_table := (ch_table k)[?i := p]\<rparr>"
    define w4 where "w4 = w2\<lparr>cw_mem := kutil_memcpy d data (unat sz) (cw_mem w2), cw_entries := (cw_entries w2)(p \<mapsto> e0),
      cw_caches := (cw_caches w2)(c \<mapsto> k4)\<rparr>"
    have e4: "cw_entries w4 = (cw_entries w)(p \<mapsto> e0)" "cw_caches w4 c = Some k4" using w1 w2 by (simp_all add: w4_def)
    have lru4: "lru_inv w4 c ls"
      by (rule lru_inv_other [OF _ e4(1) w1(3) e4(2) k]) (use good in \<open>simp_all add: cache_good_def k4_def\<close>)
    have pls: "p \<notin> set ls" using good w1(3) by (auto simp: cache_good_def lru_inv_def)
    have key4: "key_of w4 p = key" "\<And>x. x \<noteq> p \<Longrightarrow> key_of w4 x = key_of w x" using e4(1) by (simp_all add: key_of_def e0_def)
    have tab: "length (ch_table k) = unat (ch_table_size k)" "ch_table_size k \<noteq> 0"
        "\<And>j. j < length (ch_table k) \<Longrightarrow> ch_table k ! j \<noteq> 0 \<Longrightarrow> ch_table k ! j \<in> set ls \<and> bucket k (key_of w (ch_table k ! j)) = j"
      using good k by (auto simp: cache_good_def table_inv_def)
    have tab4: "table_inv w4 c (p # ls)"
      unfolding table_inv_def
    proof (intro exI conjI allI impI)
      show "cw_caches w4 c = Some k4" by (rule e4(2))
      show "length (ch_table k4) = unat (ch_table_size k4)" "ch_table_size k4 \<noteq> 0" using tab by (simp_all add: k4_def)
      fix j assume j: "j < length (ch_table k4)" "ch_table k4 ! j \<noteq> 0"
      have "ch_table k4 ! j \<in> set (p # ls) \<and> bucket k4 (key_of w4 (ch_table k4 ! j)) = j"
      proof (cases "j = ?i")
        case True
        then have "ch_table k4 ! j = p" using j(1) by (simp add: k4_def)
        then show ?thesis using True key4(1) by (simp add: bucket_def k4_def)
      next
        case False
        then have "ch_table k4 ! j = ch_table k ! j" by (simp add: k4_def)
        moreover from this have "ch_table k ! j \<in> set ls" "bucket k (key_of w (ch_table k ! j)) = j"
          using tab(3) [of j] j by (simp_all add: k4_def)
        moreover from this have "ch_table k ! j \<noteq> p" using pls by metis
        ultimately show ?thesis using key4(2) by (simp add: bucket_def k4_def)
      qed
      then show "ch_table k4 ! j \<in> set (p # ls)" "bucket k4 (key_of w4 (ch_table k4 ! j)) = j" by simp_all
    qed
    obtain w5 where w5: "cache_add_to_lru c p w4 = Some w5" "lru_inv w5 c (p # ls)" "links_only w4 w5"
      using add_to_lru_ok [OF lru4, of p] e4(1) pls w1(2) by auto
    have "cw_entries w4 p = Some e0" using e4(1) by simp
    then obtain e5 where e5: "cw_entries w5 p = Some e5" "unlinked e5 = unlinked e0" by (rule links_only_alive [OF w5(3)])
    have e5f: "ce_key e5 = key" "ce_data e5 = d" "ce_size e5 = sz"
      using arg_cong [OF e5(2), of ce_key] arg_cong [OF e5(2), of ce_data] arg_cong [OF e5(2), of ce_size]
      by (simp_all add: unlinked_def e0_def)
    obtain k5 where k5: "cw_caches w5 c = Some k5" "ch_table k5 = ch_table k4" "ch_table_size k5 = ch_table_size k4"
      by (rule links_only_table [OF w5(3) e4(2)])
    let ?f = "\<lambda>s. s\<lparr>st_inserts := st_inserts s + 1, st_entries_current := st_entries_current s + 1,
      st_size_current := st_size_current s + sz\<rparr>"
    obtain w6 where w6: "upd_stats c ?f w5 = Some w6" "cw_entries w6 = cw_entries w5" "cw_km w6 = cw_km w5" "cw_mem w6 = cw_mem w5"
        "cw_caches w6 c = Some (k5\<lparr>ch_stats := ?f (ch_stats k5)\<rparr>)"
        "\<forall>ls. lru_inv w6 c ls = lru_inv w5 c ls" "\<forall>ls. table_inv w6 c ls = table_inv w5 c ls"
      using upd_stats_ok [OF k5(1), of ?f] by auto
    have res: "put_new c key data sz now w = Some (w6, 0)"
      using w1(1,2,7) w2(1,5) False k w5(1) w6(1)
      by (simp add: put_new_def Let_def bucket_def upd_cache_def w4_def e0_def k4_def)
    have "table_inv w5 c (p # ls)" by (rule links_only_table_inv [OF w5(3) tab4]) simp
    then have "cache_good w6 c (p # ls)" using good w5(2) w6(6,7) by (simp add: cache_good_def)
    moreover have "entries_out w6"
    proof -
      have km: "cw_km w6 = cw_km w2" using w6(3) w5(3) by (simp add: links_only_def w4_def)
      have "dom (cw_entries w6) = insert p (dom (cw_entries w))" using w6(2) links_only_dom [OF w5(3)] e4(1) by simp
      moreover have "dom (cw_entries w) \<subseteq> fst ` slab_live (cw_km w2)" "p \<in> fst ` slab_live (cw_km w2)"
        using w1(4,6) image_mono [OF w2(3), of fst] imageI [OF w1(5), of fst] unfolding entries_out_def
        by (simp_all add: subset_iff)
      ultimately show ?thesis using km w2(2) by (simp add: entries_out_def)
    qed
    moreover have "key_of w6 x = key_of w x" if "x \<noteq> p" for x
      using links_only_key [OF w5(3), of x] key4(2) [OF that] w6(2) by (simp add: key_of_def)
    moreover have "cw_mem w6 = kutil_memcpy d data (unat sz) (cw_mem w)"
      using w1(8) w2(6) w6(4) w5(3) by (simp add: links_only_def w4_def)
    ultimately show ?thesis
      using res w1(3) e5(1) e5f w6(2,5) k5(2,3) by (intro disjI2) (auto simp: k4_def)
  qed
qed

subsection \<open>Example states\<close>

definition demo_cache :: "nat list \<Rightarrow> nat \<Rightarrow> nat \<Rightarrow> cache" where
  "demo_cache table head tail =
     \<lparr>ch_config = cache_cfg ''demo'' 4096 64 0,
      ch_stats = \<lparr>st_hits = 0, st_misses = 0, st_evictions = 0, st_inserts = 0, st_size_current = 0,
                  st_size_max = 4096, st_entries_current = 0, st_entries_max = 64\<rparr>,
      ch_table_ptr = 8, ch_table = table, ch_table_size = 16, ch_lru_head = head, ch_lru_tail = tail, ch_lock = 0\<rparr>"

definition demo_entry :: "u64 \<Rightarrow> nat \<Rightarrow> nat \<Rightarrow> nat \<Rightarrow> cache_entry" where
  "demo_entry key data prev next =
     \<lparr>ce_key = key, ce_data = data, ce_size = 16, ce_access_time = 0, ce_create_time = 0, ce_prev = prev, ce_next = next\<rparr>"

definition demo_world :: "kmalloc \<Rightarrow> (nat \<Rightarrow> cache_entry option) \<Rightarrow> cache \<Rightarrow> cache_world" where
  "demo_world km es k =
     \<lparr>cw_km = km, cw_mem = (\<lambda>_. 0), cw_entries = es, cw_caches = [8 \<mapsto> k], cw_cleaned = [], global_caches = replicate 16 0\<rparr>"

text \<open>Three entries as three insertions leave them: keys 1 and 17 share bucket 1, key 2 is in bucket 2.\<close>

definition three_entries :: cache_world where
  "three_entries = demo_world km_demo
     [64 \<mapsto> demo_entry 1 1000 128 0, 128 \<mapsto> demo_entry 17 2000 192 64, 192 \<mapsto> demo_entry 2 3000 0 128]
     (demo_cache ((replicate 16 0)[1 := 128, 2 := 192]) 192 64)"

lemma demo_hash: "cache_hash 1 16 = 1" "cache_hash 17 16 = 1" "cache_hash 2 16 = 2"
  by (simp_all add: cache_hash_def)

lemma three_entries_good:
  "cache_good three_entries 8 [192, 128, 64]"
  "cw_caches three_entries 8 = Some (demo_cache ((replicate 16 0)[1 := 128, 2 := 192]) 192 64)"
  "key_of three_entries 64 = 1" "key_of three_entries 128 = 17" "key_of three_entries 192 = 2"
proof -
  show k: "key_of three_entries 64 = 1" "key_of three_entries 128 = 17" "key_of three_entries 192 = 2"
    and c: "cw_caches three_entries 8 = Some (demo_cache ((replicate 16 0)[1 := 128, 2 := 192]) 192 64)"
    by (simp_all add: key_of_def three_entries_def demo_world_def demo_entry_def)
  have "lru_inv three_entries 8 [192, 128, 64]"
    by (simp add: lru_inv_def three_entries_def demo_world_def demo_cache_def demo_entry_def nx_def pv_def)
  moreover have "table_inv three_entries 8 [192, 128, 64]"
    using k c demo_hash by (auto simp: table_inv_def demo_cache_def bucket_def nth_list_update split: if_splits)
  ultimately show "cache_good three_entries 8 [192, 128, 64]" by (simp add: cache_good_def)
qed

definition empty_cache :: cache_world where
  "empty_cache = demo_world km_demo Map.empty (demo_cache (replicate 16 0) 0 0)"

lemma empty_cache_good:
  "cache_good empty_cache 8 []" "cw_caches empty_cache 8 = Some (demo_cache (replicate 16 0) 0 0)"
  by (simp_all add: cache_good_def lru_inv_def table_inv_def empty_cache_def demo_world_def demo_cache_def)

definition one_entry :: "kmalloc \<Rightarrow> nat \<Rightarrow> nat \<Rightarrow> cache_world" where
  "one_entry s p d = demo_world s [p \<mapsto> demo_entry 1 d 0 0] (demo_cache ((replicate 16 0)[1 := p]) p p)"

lemma one_entry_good:
  assumes "p \<noteq> 0"
  shows "cache_good (one_entry s p d) 8 [p]"
    and "cw_caches (one_entry s p d) 8 = Some (demo_cache ((replicate 16 0)[1 := p]) p p)"
proof -
  show c: "cw_caches (one_entry s p d) 8 = Some (demo_cache ((replicate 16 0)[1 := p]) p p)"
    by (simp add: one_entry_def demo_world_def)
  have "key_of (one_entry s p d) p = 1" by (simp add: key_of_def one_entry_def demo_world_def demo_entry_def)
  then have "table_inv (one_entry s p d) 8 [p]"
    using c demo_hash by (auto simp: table_inv_def demo_cache_def bucket_def nth_list_update split: if_splits)
  moreover have "lru_inv (one_entry s p d) 8 [p]"
    using assms c by (simp add: lru_inv_def demo_cache_def) (simp add: one_entry_def demo_world_def demo_entry_def nx_def pv_def)
  ultimately show "cache_good (one_entry s p d) 8 [p]" by (simp add: cache_good_def)
qed

subsection \<open>Properties\<close>

text \<open>What a lookup finds.  In a well-formed cache, because the chains share the field \<open>next\<close> with the
  list of use, \<open>cache_find_entry\<close> walks not the bucket but the list of use from the entry the bucket's
  slot names: it returns the first entry with the key that has not been used since that entry was, and 0
  if there is none.\<close>
theorem cache_lookup_exact:
  assumes "cache_good w c ls" "cw_caches w c = Some k"
  shows "cache_find_entry c key w =
    Some (case find (\<lambda>a. key_of w a = key) (dropWhile (\<lambda>a. a \<noteq> ch_table k ! bucket k key) ls) of
            None \<Rightarrow> 0 | Some a \<Rightarrow> a)"
  using find_entry_eq [OF assms] by (simp add: first_key_def since_def)

theorem cache_lookup_exact_witness:
  "cache_find_entry 8 1 three_entries = Some 64"
  using cache_lookup_exact [OF three_entries_good(1,2), of 1] three_entries_good(3-5) demo_hash
  by (simp add: demo_cache_def bucket_def)

text \<open>A hit returns the entry's data and moves the entry to the front of the list of use, but unless the
  entry is the one its bucket's slot names, the hit takes it out of the chain: the same key is reported
  absent right afterwards, while the entry still occupies its memory and its place in the statistics.\<close>
theorem cache_hit_hides_entry:
  assumes "cache_good w c ls" "cw_caches w c = Some k" "distinct (map (key_of w) ls)"
    and "cache_find_entry c key w = Some a" "a \<noteq> 0" "cw_entries w a = Some e" "cc_ttl_seconds (ch_config k) = 0"
  shows "\<exists>w'. cache_get c key True now now2 w = Some (w', 0, Some (ce_data e, ce_size e))
    \<and> cache_good w' c (a # remove1 a ls)
    \<and> cache_contains c key w' = Some (if ch_table k ! bucket k key = a then 1 else 0)"
proof -
  let ?b = "ch_table k ! bucket k key"
  obtain w' k' where w': "cache_get c key True now now2 w = Some (w', 0, Some (ce_data e, ce_size e))"
      "cache_good w' c (a # remove1 a ls)" "\<forall>x. key_of w' x = key_of w x" "cw_caches w' c = Some k'"
      "ch_table k' = ch_table k" "ch_table_size k' = ch_table_size k"
    using get_hit [OF assms(1,2,6,4,5), of now now2] assms(7) by auto
  have key: "a \<in> set ls" "key_of w a = key"
    using assms(4,5) find_entry_eq [OF assms(1,2), of key] first_keyD [of w key _ a]
    by (auto simp: since_def dest: set_dropWhileD)
  have "distinct ls" using assms(3) by (simp add: distinct_map)
  then have other: "key_of w x \<noteq> key" if "x \<in> set (remove1 a ls)" for x
    using that key assms(3) by (auto simp: distinct_map inj_on_def)
  have "cache_find_entry c key w' = Some (first_key w' key (since ?b (a # remove1 a ls)))"
    using find_entry_eq [OF w'(2,4), of key] w'(5,6) by (simp add: bucket_def)
  moreover have "first_key w' key (since ?b (a # remove1 a ls)) = (if ?b = a then a else 0)"
  proof (cases "?b = a")
    case True
    then show ?thesis using key(2) w'(3) by (simp add: since_def first_key_def)
  next
    case False
    have "\<forall>x\<in>set (since ?b (a # remove1 a ls)). key_of w' x \<noteq> key"
      using False other w'(3) by (auto simp: since_def dest: set_dropWhileD)
    then show ?thesis using first_key_none False by simp
  qed
  ultimately have "cache_contains c key w' = Some (if ?b = a then 1 else 0)"
    using w'(2) assms(5) by (simp add: cache_contains_def cache_good_def)
  with w'(1,2) show ?thesis by blast
qed

theorem cache_hit_hides_entry_witness:
  "\<exists>w'. cache_get 8 1 True 0 0 three_entries = Some (w', 0, Some (1000, 16)) \<and> cache_contains 8 1 w' = Some 0"
proof -
  note g = three_entries_good
  have "cache_find_entry 8 1 three_entries = Some 64"
    using find_entry_eq [OF g(1,2), of 1] g(3-5) demo_hash by (simp add: demo_cache_def bucket_def since_def first_key_def)
  then show ?thesis
    using cache_hit_hides_entry [OF g(1,2) _ _ _ _ _, of 1 64 "demo_entry 1 1000 128 0" 0 0] g(3-5) demo_hash
    by (auto simp: demo_cache_def cache_cfg_def bucket_def three_entries_def demo_world_def demo_entry_def)
qed

text \<open>C39: \<open>cache_evict_lru\<close> removes exactly the least recently used entry, gives its two blocks back to the
  heap, corrects the counts and leaves the cache well formed.\<close>
theorem cache_evict_least_recent:
  assumes "cache_good w c (ys @ [t])" "cw_caches w c = Some k" "cw_entries w t = Some e" "km_inv (cw_km w)"
    and "(ce_data e, n) \<in> slab_live (cw_km w)" "(t, m) \<in> slab_live (cw_km w)" "ce_data e \<noteq> t"
  shows "\<exists>w' k'. cache_evict_lru c w = Some w' \<and> cache_good w' c ys \<and> cw_entries w' t = None
    \<and> km_inv (cw_km w') \<and> slab_live (cw_km w') = slab_live (cw_km w) - {(ce_data e, n), (t, m)}
    \<and> cw_caches w' c = Some k' \<and> st_entries_current (ch_stats k') = st_entries_current (ch_stats k) - 1
    \<and> st_size_current (ch_stats k') = st_size_current (ch_stats k) - ce_size e
    \<and> st_evictions (ch_stats k') = st_evictions (ch_stats k) + 1"
  using evict_ok [OF assms] .

theorem cache_evict_least_recent_witness:
  "\<exists>w c t w'. cache_good w c [t] \<and> cache_evict_lru c w = Some w' \<and> cache_good w' c [] \<and> cw_entries w' t = None"
proof -
  obtain s p n d m where s: "km_inv s" "(p, n) \<in> slab_live s" "(d, m) \<in> slab_live s" "d \<noteq> p" using two_blocks by blast
  note g = one_entry_good [OF live_nonzero [OF s(1,2)], of s d]
  have e: "cw_entries (one_entry s p d) p = Some (demo_entry 1 d 0 0)" "cw_km (one_entry s p d) = s"
    by (simp_all add: one_entry_def demo_world_def)
  have "ce_data (demo_entry 1 d 0 0) = d" by (simp add: demo_entry_def)
  then obtain w' where "cache_evict_lru 8 (one_entry s p d) = Some w'" "cache_good w' 8 []" "cw_entries w' p = None"
    using cache_evict_least_recent [of "one_entry s p d" 8 "[]" p, OF _ g(2) e(1), of m n] g(1) e(2) s by auto
  then show ?thesis using g(1) by blast
qed

text \<open>\<open>cache_put\<close> of a key that is not found, in a cache with room, either fails for lack of memory and
  leaves the cache as it was, or inserts the key in front: the next lookup finds the new entry, with the
  bytes of the caller, and the cache is well formed.\<close>
theorem cache_put_inserts:
  assumes "cache_good w c ls" "entries_out w" "snd (brights_pmem_alloc_page (km_pmem (cw_km w))) \<noteq> 0"
    and "cw_caches w c = Some k" "cache_find_entry c key w = Some 0" "\<not> cache_full (ch_stats k) sz" "data \<noteq> 0" "sz \<noteq> 0"
  shows "(\<exists>w'. cache_put c key data sz now w = Some (w', -1) \<and> cache_good w' c ls) \<or>
    (\<exists>w' p e. cache_put c key data sz now w = Some (w', 0) \<and> cache_good w' c (p # ls) \<and> entries_out w'
      \<and> cache_find_entry c key w' = Some p \<and> cw_entries w' p = Some e \<and> ce_key e = key \<and> ce_size e = sz
      \<and> (disjoint_ranges (ce_data e) data (unat sz) \<longrightarrow> (\<forall>i<unat sz. cw_mem w' (ce_data e + i) = cw_mem w (data + i))))"
proof -
  have put: "cache_put c key data sz now w = put_new c key data sz now w"
    using assms by (simp add: cache_put_def cache_good_def)
  from put_new_ok [OF assms(1-4), of key data sz now] show ?thesis
  proof
    assume "\<exists>w'. put_new c key data sz now w = Some (w', - 1) \<and> cache_good w' c ls \<and> cw_entries w' = cw_entries w
      \<and> cw_caches w' = cw_caches w"
    then show ?thesis using put by auto
  next
    assume "\<exists>w' p d e k'. put_new c key data sz now w = Some (w', 0) \<and> cache_good w' c (p # ls) \<and> entries_out w'
      \<and> p \<notin> dom (cw_entries w) \<and> cw_entries w' p = Some e \<and> ce_key e = key \<and> ce_data e = d \<and> ce_size e = sz
      \<and> (\<forall>x. x \<noteq> p \<longrightarrow> key_of w' x = key_of w x)
      \<and> cw_mem w' = kutil_memcpy d data (unat sz) (cw_mem w) \<and> cw_caches w' c = Some k' \<and> ch_table_size k' = ch_table_size k
      \<and> ch_table k' = (ch_table k)[bucket k key := p]"
    then obtain w' p e k' where w': "put_new c key data sz now w = Some (w', 0)" "cache_good w' c (p # ls)" "entries_out w'"
        "cw_entries w' p = Some e" "ce_key e = key" "ce_size e = sz" "cw_mem w' = kutil_memcpy (ce_data e) data (unat sz) (cw_mem w)"
        "cw_caches w' c = Some k'" "ch_table_size k' = ch_table_size k" "ch_table k' = (ch_table k)[bucket k key := p]" by blast
    have "bucket k key < length (ch_table k)"
      using assms(1,4) cache_hash_less by (auto simp: cache_good_def table_inv_def bucket_def)
    moreover have "key_of w' p = key" using w'(4,5) by (simp add: key_of_def)
    ultimately have "cache_find_entry c key w' = Some p"
      using find_entry_eq [OF w'(2,8), of key] w'(9,10) by (simp add: bucket_def since_def first_key_def)
    then show ?thesis using put w'(1-7) kc.cp_content by (intro disjI2) auto
  qed
qed

theorem cache_put_inserts_witness:
  "(\<exists>w'. cache_put 8 1 5000 16 0 empty_cache = Some (w', -1) \<and> cache_good w' 8 []) \<or>
   (\<exists>w' p. cache_put 8 1 5000 16 0 empty_cache = Some (w', 0) \<and> cache_find_entry 8 1 w' = Some p)"
proof -
  note g = empty_cache_good
  have "cache_find_entry 8 1 empty_cache = Some 0"
    using find_entry_eq [OF g(1,2), of 1] by (simp add: since_def first_key_def)
  moreover have "entries_out empty_cache" "snd (brights_pmem_alloc_page (km_pmem (cw_km empty_cache))) \<noteq> 0"
    using km_demo_props(2,4) by (simp_all add: entries_out_def empty_cache_def demo_world_def)
  ultimately show ?thesis
    using cache_put_inserts [OF g(1) _ _ g(2), of 1 16 5000 0] by (auto simp: demo_cache_def cache_full_def)
qed

text \<open>\<open>cache_clear\<close>, and with it \<open>cache_destroy\<close>, of a well-formed cache with entries in two buckets
  always accesses freed memory: the walk of one bucket goes on into the entries of the other.\<close>
theorem cache_clear_use_after_free:
  assumes "cache_good w c ls" "cw_caches w c = Some k"
    and "i < length (ch_table k)" "j < length (ch_table k)" "i \<noteq> j" "ch_table k ! i \<noteq> 0" "ch_table k ! j \<noteq> 0"
  shows "cache_clear c w = None \<and> cache_destroy c w = None"
proof -
  have "cache_clear c w = None" by (rule clear_two_buckets [OF assms])
  then show ?thesis using assms(1) by (simp add: cache_destroy_def cache_good_def)
qed

theorem cache_clear_use_after_free_witness:
  "cache_clear 8 three_entries = None \<and> cache_destroy 8 three_entries = None"
  using cache_clear_use_after_free [OF three_entries_good(1,2), of 1 2] by (simp add: demo_cache_def)

end
