(* ===== verification/Packet.thy ===== *)
theory Packet
  imports Kernel_Prelude Kutil "HOL-Library.Monad_Syntax"
begin

unbundle bit_operations_syntax

text \<open>
  The packet formats of \<open>kernel/net/net.c\<close>: the packed header structs with their bytes in memory
  (the machine is little-endian), the Internet checksum, and the text form of addresses.

  A buffer is the list of its bytes, and a pointer into one is the list of the bytes from there to
  its end.  \<open>bytes_at\<close> and \<open>put_bytes\<close> are the two accesses; \<open>None\<close> is an access past the end.
  Each header has an encoder \<open>*_bytes\<close> (the struct's memory image) and a decoder \<open>*_of\<close> (the
  fields read through a pointer cast), shown inverse to each other.
\<close>

subsection \<open>Buffers\<close>

definition bytes_at :: "u8 list \<Rightarrow> nat \<Rightarrow> nat \<Rightarrow> u8 list option" where
  "bytes_at buf off n = (if off + n \<le> length buf then Some (take n (drop off buf)) else None)"

definition put_bytes :: "nat \<Rightarrow> u8 list \<Rightarrow> u8 list \<Rightarrow> u8 list option" where
  "put_bytes off bs buf =
     (if off + length bs \<le> length buf then Some (take off buf @ bs @ drop (off + length bs) buf) else None)"

definition le16 :: "u16 \<Rightarrow> u8 list" where
  "le16 w = [ucast w, ucast (drop_bit 8 w)]"

definition le32 :: "u32 \<Rightarrow> u8 list" where
  "le32 w = [ucast w, ucast (drop_bit 8 w), ucast (drop_bit 16 w), ucast (drop_bit 24 w)]"

definition un16 :: "u8 list \<Rightarrow> nat \<Rightarrow> u16" where
  "un16 bs i = ucast (bs ! i) OR push_bit 8 (ucast (bs ! (i + 1)))"

definition un32 :: "u8 list \<Rightarrow> nat \<Rightarrow> u32" where
  "un32 bs i = ucast (bs ! i) OR push_bit 8 (ucast (bs ! (i + 1)))
     OR push_bit 16 (ucast (bs ! (i + 2))) OR push_bit 24 (ucast (bs ! (i + 3)))"

definition bswap16 :: "u16 \<Rightarrow> u16" where
  "bswap16 w = drop_bit 8 w OR push_bit 8 w"

definition bswap32 :: "u32 \<Rightarrow> u32" where
  "bswap32 w = drop_bit 24 w OR (drop_bit 8 w AND 0xFF00) OR (push_bit 8 w AND 0xFF0000) OR push_bit 24 w"

subsection \<open>Headers\<close>

definition ETH_TYPE_IP :: u16 where "ETH_TYPE_IP = 0x0800"
definition ETH_TYPE_ARP :: u16 where "ETH_TYPE_ARP = 0x0806"
definition IP_PROTO_ICMP :: u8 where "IP_PROTO_ICMP = 1"
definition IP_PROTO_TCP :: u8 where "IP_PROTO_TCP = 6"
definition IP_PROTO_UDP :: u8 where "IP_PROTO_UDP = 17"
definition ICMP_ECHO_REPLY :: u8 where "ICMP_ECHO_REPLY = 0"
definition ICMP_ECHO_REQUEST :: u8 where "ICMP_ECHO_REQUEST = 8"
definition TCP_SYN :: u8 where "TCP_SYN = 0x02"
definition TCP_ACK :: u8 where "TCP_ACK = 0x10"
definition TCP_FIN :: u8 where "TCP_FIN = 0x01"
definition TCP_PSH :: u8 where "TCP_PSH = 0x08"

record eth_hdr =
  eth_dst :: "u8 list"
  eth_src :: "u8 list"
  eth_type :: u16

definition eth_bytes :: "eth_hdr \<Rightarrow> u8 list" where
  "eth_bytes h = eth_dst h @ eth_src h @ le16 (eth_type h)"

definition eth_of :: "u8 list \<Rightarrow> eth_hdr" where
  "eth_of bs = \<lparr>eth_dst = take 6 bs, eth_src = take 6 (drop 6 bs), eth_type = un16 bs 12\<rparr>"

record arp_hdr =
  hw_type :: u16
  proto_type :: u16
  hw_size :: u8
  proto_size :: u8
  opcode :: u16
  sender_mac :: "u8 list"
  sender_ip :: u32
  target_mac :: "u8 list"
  target_ip :: u32

definition arp_bytes :: "arp_hdr \<Rightarrow> u8 list" where
  "arp_bytes h = le16 (hw_type h) @ le16 (proto_type h) @ [hw_size h, proto_size h] @ le16 (opcode h)
     @ sender_mac h @ le32 (sender_ip h) @ target_mac h @ le32 (target_ip h)"

definition arp_of :: "u8 list \<Rightarrow> arp_hdr" where
  "arp_of bs = \<lparr>hw_type = un16 bs 0, proto_type = un16 bs 2, hw_size = bs ! 4, proto_size = bs ! 5,
     opcode = un16 bs 6, sender_mac = take 6 (drop 8 bs), sender_ip = un32 bs 14,
     target_mac = take 6 (drop 18 bs), target_ip = un32 bs 24\<rparr>"

record ip_hdr =
  ver_ihl :: u8
  tos :: u8
  total_len :: u16
  ident :: u16
  flags_frag :: u16
  ttl :: u8
  protocol :: u8
  checksum :: u16
  src_ip :: u32
  dst_ip :: u32

definition ip_bytes :: "ip_hdr \<Rightarrow> u8 list" where
  "ip_bytes h = [ver_ihl h, tos h] @ le16 (total_len h) @ le16 (ident h) @ le16 (flags_frag h)
     @ [ttl h, protocol h] @ le16 (checksum h) @ le32 (src_ip h) @ le32 (dst_ip h)"

definition ip_of :: "u8 list \<Rightarrow> ip_hdr" where
  "ip_of bs = \<lparr>ver_ihl = bs ! 0, tos = bs ! 1, total_len = un16 bs 2, ident = un16 bs 4,
     flags_frag = un16 bs 6, ttl = bs ! 8, protocol = bs ! 9, checksum = un16 bs 10,
     src_ip = un32 bs 12, dst_ip = un32 bs 16\<rparr>"

record icmp_hdr =
  icmp_type :: u8
  icmp_code :: u8
  icmp_checksum :: u16
  icmp_ident :: u16
  icmp_seq :: u16

definition icmp_bytes :: "icmp_hdr \<Rightarrow> u8 list" where
  "icmp_bytes h = [icmp_type h, icmp_code h] @ le16 (icmp_checksum h) @ le16 (icmp_ident h) @ le16 (icmp_seq h)"

definition icmp_of :: "u8 list \<Rightarrow> icmp_hdr" where
  "icmp_of bs = \<lparr>icmp_type = bs ! 0, icmp_code = bs ! 1, icmp_checksum = un16 bs 2,
     icmp_ident = un16 bs 4, icmp_seq = un16 bs 6\<rparr>"

record udp_hdr =
  udp_src_port :: u16
  udp_dst_port :: u16
  udp_length :: u16
  udp_checksum :: u16

definition udp_bytes :: "udp_hdr \<Rightarrow> u8 list" where
  "udp_bytes h = le16 (udp_src_port h) @ le16 (udp_dst_port h) @ le16 (udp_length h) @ le16 (udp_checksum h)"

definition udp_of :: "u8 list \<Rightarrow> udp_hdr" where
  "udp_of bs = \<lparr>udp_src_port = un16 bs 0, udp_dst_port = un16 bs 2, udp_length = un16 bs 4,
     udp_checksum = un16 bs 6\<rparr>"

record tcp_hdr =
  tcp_src_port :: u16
  tcp_dst_port :: u16
  tcp_seq_no :: u32
  tcp_ack_no :: u32
  tcp_data_off :: u8
  tcp_flags :: u8
  tcp_window :: u16
  tcp_checksum :: u16
  tcp_urgent :: u16

definition tcp_bytes :: "tcp_hdr \<Rightarrow> u8 list" where
  "tcp_bytes h = le16 (tcp_src_port h) @ le16 (tcp_dst_port h) @ le32 (tcp_seq_no h) @ le32 (tcp_ack_no h)
     @ [tcp_data_off h, tcp_flags h] @ le16 (tcp_window h) @ le16 (tcp_checksum h) @ le16 (tcp_urgent h)"

definition tcp_of :: "u8 list \<Rightarrow> tcp_hdr" where
  "tcp_of bs = \<lparr>tcp_src_port = un16 bs 0, tcp_dst_port = un16 bs 2, tcp_seq_no = un32 bs 4,
     tcp_ack_no = un32 bs 8, tcp_data_off = bs ! 12, tcp_flags = bs ! 13, tcp_window = un16 bs 14,
     tcp_checksum = un16 bs 16, tcp_urgent = un16 bs 18\<rparr>"

subsection \<open>The Internet checksum\<close>

text \<open>The summing loop over exactly the \<open>len\<close> bytes of the argument, then the folding loop.\<close>

fun sum_words :: "u8 list \<Rightarrow> u32 \<Rightarrow> u32" where
  "sum_words (a # b # bs) acc = sum_words bs (acc + ucast (un16 [a, b] 0))"
| "sum_words [a] acc = acc + ucast a"
| "sum_words [] acc = acc"

lemma fold_word_unat: "unat (s AND 0xFFFF :: u32) = unat s mod 65536" "unat (drop_bit 16 s :: u32) = unat s div 65536"
proof -
  have m: "(0xFFFF :: u32) = mask 16" by (simp add: mask_eq_exp_minus_1)
  show "unat (s AND 0xFFFF :: u32) = unat s mod 65536"
    unfolding m take_bit_eq_mask [symmetric] by (simp add: unsigned_take_bit_eq) (simp add: take_bit_eq_mod)
  show "unat (drop_bit 16 s :: u32) = unat s div 65536"
    using unsigned_less [of s, where ?'a = nat]
    by (simp only: unsigned_drop_bit_eq) (simp add: drop_bit_eq_div take_bit_nat_eq_self)
qed

lemma fold_step_unat: "unat ((s AND 0xFFFF) + drop_bit 16 s :: u32) = unat s mod 65536 + unat s div 65536"
proof -
  have "unat s < 2 ^ 32" using unsigned_less [of s] by simp
  then have "unat s div 65536 < 65536" by simp
  moreover have "unat s mod 65536 < 65536" by simp
  ultimately have "unat s mod 65536 + unat s div 65536 < 2 ^ 32" by simp
  then show ?thesis using unat_add_lem [of "s AND 0xFFFF" "drop_bit 16 s"] by (simp add: fold_word_unat)
qed

lemma fold_step_less: "drop_bit 16 s \<noteq> 0 \<Longrightarrow> unat ((s AND 0xFFFF) + drop_bit 16 s :: u32) < unat s"
proof -
  assume "drop_bit 16 s \<noteq> 0"
  then have "unat s div 65536 \<noteq> 0" by (metis fold_word_unat(2) unsigned_eq_0_iff)
  moreover have "unat s = 65536 * (unat s div 65536) + unat s mod 65536" by simp
  ultimately show ?thesis unfolding fold_step_unat by linarith
qed

function fold_sum :: "u32 \<Rightarrow> u32" where
  "fold_sum s = (if drop_bit 16 s \<noteq> 0 then fold_sum ((s AND 0xFFFF) + drop_bit 16 s) else s)"
  by auto
termination by (relation "measure unat") (simp_all add: fold_step_less)

declare fold_sum.simps [simp del]

definition ip_checksum :: "u8 list \<Rightarrow> u16" where
  "ip_checksum bs = ucast (NOT (fold_sum (sum_words bs 0)))"

subsection \<open>Addresses as text\<close>

text \<open>The state of the loop is the three octets already closed by a dot, the index of the current
  part and its value; \<open>None\<close> is the early \<open>return 0\<close>.\<close>

fun ip_parse_loop :: "string \<Rightarrow> u32 \<times> u32 \<times> u32 \<Rightarrow> nat \<Rightarrow> u32 \<Rightarrow> ((u32 \<times> u32 \<times> u32) \<times> nat \<times> u32) option" where
  "ip_parse_loop [] abc part val = Some (abc, part, val)"
| "ip_parse_loop (ch # str) (a, b, c) part val =
     (if is_digit ch then ip_parse_loop str (a, b, c) part (val * 10 + word_of_int (byte_of ch - byte_of CHR ''0''))
      else if ch = CHR ''.'' then
        (if part = 0 then ip_parse_loop str (val, b, c) (part + 1) 0
         else if part = 1 then ip_parse_loop str (a, val, c) (part + 1) 0
         else if part = 2 then ip_parse_loop str (a, b, val) (part + 1) 0
         else None)
      else None)"

definition brights_ip_parse :: "string \<Rightarrow> u32" where
  "brights_ip_parse str =
     (case ip_parse_loop str (0, 0, 0) 0 0 of
        None \<Rightarrow> 0
      | Some ((a, b, c), part, d) \<Rightarrow>
          (if part \<noteq> 3 then 0 else push_bit 24 a OR push_bit 16 b OR push_bit 8 c OR d))"

definition zero_plus :: "nat \<Rightarrow> char" where
  "zero_plus n = char_of (48 + n)"

definition octet_text :: "nat \<Rightarrow> string" where
  "octet_text a =
     (if a \<ge> 100 then [zero_plus (a div 100), zero_plus (a div 10 mod 10), zero_plus (a mod 10)]
      else if a \<ge> 10 then [zero_plus (a div 10), zero_plus (a mod 10)]
      else [zero_plus a])"

definition brights_ip_to_str :: "u32 \<Rightarrow> string" where
  "brights_ip_to_str ip =
     (let a = unat (drop_bit 24 ip AND 0xFF); b = unat (drop_bit 16 ip AND 0xFF);
          c = unat (drop_bit 8 ip AND 0xFF); d = unat (ip AND 0xFF)
      in octet_text a @ ''.'' @ octet_text b @ ''.'' @ octet_text c @ ''.'' @ octet_text d)"

subsection \<open>Encoding and decoding\<close>

lemma length_le [simp]: "length (le16 w) = 2" "length (le32 v) = 4"
  by (simp_all add: le16_def le32_def)

lemma un16_le16: "un16 (le16 w) 0 = w"
  by (rule bit_word_eqI) (auto simp: un16_def le16_def bit_simps)

lemma un32_le32: "un32 (le32 w) 0 = w"
proof (rule bit_word_eqI)
  fix i
  assume "i < LENGTH(32)"
  then obtain j where j: "j < 8" "i = j \<or> i = j + 8 \<or> i = j + 16 \<or> i = j + 24"
    using byte_split [of i] by auto
  have "un32 (le32 w) 0 = ucast (ucast w :: u8) OR push_bit 8 (ucast (ucast (drop_bit 8 w) :: u8))
     OR push_bit 16 (ucast (ucast (drop_bit 16 w) :: u8)) OR push_bit 24 (ucast (ucast (drop_bit 24 w) :: u8))"
    by (simp add: un32_def le32_def)
  moreover have "bit (un32 (le32 w) 0) (j + k) = bit w (j + k)" if "k = 0 \<or> k = 8 \<or> k = 16 \<or> k = 24" for k
    unfolding calculation using j(1) that
    by (elim disjE) (simp_all add: bit_or_iff bit_push_bit_iff bit_ucast_iff bit_drop_bit_eq add.commute)
  ultimately show "bit (un32 (le32 w) 0) i = bit w i"
    using j(2) by (metis add.right_neutral)
qed

lemma join16: "ucast (ucast w :: u8) OR push_bit 8 (ucast (ucast (drop_bit 8 w) :: u8)) = (w :: u16)"
  using un16_le16 [of w] by (simp add: un16_def le16_def)

lemma join32: "ucast (ucast w :: u8) OR push_bit 8 (ucast (ucast (drop_bit 8 w) :: u8))
     OR push_bit 16 (ucast (ucast (drop_bit 16 w) :: u8)) OR push_bit 24 (ucast (ucast (drop_bit 24 w) :: u8)) = (w :: u32)"
  using un32_le32 [of w] by (simp add: un32_def le32_def)

lemma six_bytes: "length (m :: 'a list) = 6 \<longleftrightarrow> (\<exists>a b c d e f. m = [a, b, c, d, e, f])"
  by (auto simp: length_Suc_conv eval_nat_numeral)

lemmas packet_codec = le16_def le32_def un16_def un32_def

lemma length_hdr [simp]:
  "length (eth_dst e) = 6 \<Longrightarrow> length (eth_src e) = 6 \<Longrightarrow> length (eth_bytes e) = 14"
  "length (sender_mac a) = 6 \<Longrightarrow> length (target_mac a) = 6 \<Longrightarrow> length (arp_bytes a) = 28"
  "length (ip_bytes i) = 20" "length (icmp_bytes c) = 8" "length (udp_bytes u) = 8" "length (tcp_bytes t) = 20"
  by (simp_all add: eth_bytes_def arp_bytes_def ip_bytes_def icmp_bytes_def udp_bytes_def tcp_bytes_def)

lemma eth_of_bytes: "length (eth_dst h) = 6 \<Longrightarrow> length (eth_src h) = 6 \<Longrightarrow> eth_of (eth_bytes h @ r) = h"
  by (auto simp: six_bytes eth_of_def eth_bytes_def packet_codec join16)

lemma arp_of_bytes: "length (sender_mac h) = 6 \<Longrightarrow> length (target_mac h) = 6 \<Longrightarrow> arp_of (arp_bytes h @ r) = h"
  by (auto simp: six_bytes arp_of_def arp_bytes_def packet_codec join16 join32)

lemma ip_of_bytes: "ip_of (ip_bytes h @ r) = h"
  by (simp add: ip_of_def ip_bytes_def packet_codec join16 join32)

lemma icmp_of_bytes: "icmp_of (icmp_bytes h @ r) = h"
  by (simp add: icmp_of_def icmp_bytes_def packet_codec join16)

lemma udp_of_bytes: "udp_of (udp_bytes h @ r) = h"
  by (simp add: udp_of_def udp_bytes_def packet_codec join16)

lemma tcp_of_bytes: "tcp_of (tcp_bytes h @ r) = h"
  by (simp add: tcp_of_def tcp_bytes_def packet_codec join16 join32)

lemma un16_at: "un16 (pre @ le16 w @ post) (length pre) = w"
  using un16_le16 [of w] by (simp add: un16_def nth_append)

lemma un32_at: "un32 (pre @ le32 w @ post) (length pre) = w"
  using un32_le32 [of w] by (simp add: un32_def nth_append numeral_2_eq_2)

lemma un16_atI: "bs = pre @ le16 w @ post \<Longrightarrow> length pre = n \<Longrightarrow> un16 bs n = w"
  using un16_at by blast

lemma un32_atI: "bs = pre @ le32 w @ post \<Longrightarrow> length pre = n \<Longrightarrow> un32 bs n = w"
  using un32_at by blast

lemma bytes_at_mid: "bytes_at (pre @ bs @ post) (length pre) (length bs) = Some bs"
  by (simp add: bytes_at_def)

lemma put_bytes_mid: "length old = length bs \<Longrightarrow> put_bytes (length pre) bs (pre @ old @ post) = Some (pre @ bs @ post)"
  by (simp add: put_bytes_def)

lemma bswap16_htons: "bswap16 w = kutil_htons w"
  by (simp add: bswap16_def kutil_htons_def)

lemma bswap16_twice [simp]: "bswap16 (bswap16 w) = w"
  by (simp add: bswap16_htons kutil_htons_involution)

lemma bswap32_htonl: "bswap32 w = kutil_htonl w"
proof -
  have "drop_bit 24 w AND 0xFF = drop_bit 24 w" "push_bit 24 w AND 0xFF000000 = push_bit 24 w"
    by (rule bit_word_eqI, simp only: bit_and_iff htonl_mask_bits bit_drop_bit_eq bit_push_bit_iff comp_def,
        auto dest: bit_imp_le_length)+
  then show ?thesis by (simp only: bswap32_def kutil_htonl_def)
qed

lemma bswap32_twice [simp]: "bswap32 (bswap32 w) = w"
  by (simp add: bswap32_htonl kutil_htonl_involution)

subsection \<open>The checksum against RFC 1071\<close>

text \<open>The reference: 16-bit ones' complement addition with the carry brought round at every step,
  over the little-endian words of the data, a last odd byte being a word of its own.\<close>

definition oc_add :: "nat \<Rightarrow> nat \<Rightarrow> nat" where
  "oc_add a b = (if a + b > 65535 then a + b - 65535 else a + b)"

fun words_of :: "u8 list \<Rightarrow> nat list" where
  "words_of (a # b # bs) = (unat a + 256 * unat b) # words_of bs"
| "words_of [a] = [unat a]"
| "words_of [] = []"

definition oc_sum :: "u8 list \<Rightarrow> nat" where
  "oc_sum bs = fold oc_add (words_of bs) 0"

text \<open>Both sides reduce to the residue modulo 65535 whose representative of 0 is 65535 for every
  positive sum.\<close>

definition oc_rep :: "nat \<Rightarrow> nat" where
  "oc_rep n = (if n = 0 then 0 else (n - 1) mod 65535 + 1)"

lemma oc_rep_le: "oc_rep n \<le> 65535"
proof -
  have "(n - 1) mod 65535 < 65535" by simp
  then have "(n - 1) mod 65535 + 1 \<le> 65535" by linarith
  then show ?thesis unfolding oc_rep_def by presburger
qed

lemma oc_rep_small: "n \<le> 65535 \<Longrightarrow> oc_rep n = n"
  by (simp add: oc_rep_def)

lemma oc_rep_cong: "m mod 65535 = n mod 65535 \<Longrightarrow> (m = 0 \<longleftrightarrow> n = 0) \<Longrightarrow> oc_rep m = oc_rep n"
proof -
  assume a: "m mod 65535 = n mod 65535" "m = 0 \<longleftrightarrow> n = 0"
  have "(m - 1) mod 65535 = (n - 1) mod 65535" if "m \<noteq> 0" "n \<noteq> 0"
    using a(1) that by (cases m; cases n) (simp_all add: mod_Suc split: if_splits)
  then show ?thesis using a by (auto simp: oc_rep_def)
qed

lemma oc_rep_mod: "oc_rep n mod 65535 = n mod 65535"
proof (cases "n = 0")
  case False
  then have "((n - 1) mod 65535 + 1) mod 65535 = (n - 1 + 1) mod 65535" by (rule_tac mod_add_left_eq)
  then show ?thesis using False by (simp add: oc_rep_def)
qed (simp add: oc_rep_def)

lemma oc_rep_zero [simp]: "oc_rep n = 0 \<longleftrightarrow> n = 0"
  by (simp add: oc_rep_def)

lemma oc_add_rep: "b \<le> 65535 \<Longrightarrow> oc_add (oc_rep a) b = oc_rep (a + b)"
proof -
  assume b: "b \<le> 65535"
  have "oc_add (oc_rep a) b \<le> 65535" using b oc_rep_le [of a] by (auto simp: oc_add_def)
  then have "oc_add (oc_rep a) b = oc_rep (oc_add (oc_rep a) b)" by (simp add: oc_rep_small)
  also have "\<dots> = oc_rep (a + b)"
  proof (rule oc_rep_cong)
    have "oc_add x b mod 65535 = (x + b) mod 65535" for x
      using le_mod_geq [of 65535 "x + b"] by (simp add: oc_add_def)
    then show "oc_add (oc_rep a) b mod 65535 = (a + b) mod 65535"
      by (metis mod_add_left_eq oc_rep_mod)
    show "oc_add (oc_rep a) b = 0 \<longleftrightarrow> a + b = 0" using oc_rep_le [of a] by (auto simp: oc_add_def)
  qed
  finally show ?thesis .
qed

lemma words_of_le: "w \<in> set (words_of bs) \<Longrightarrow> w \<le> 65535"
proof (induction bs rule: words_of.induct)
  case (1 a b bs)
  have "unat a < 256" "unat b < 256" using unsigned_less [of a] unsigned_less [of b] by simp_all
  then show ?case using 1 by auto
next
  case (2 a)
  have "unat a < 256" using unsigned_less [of a] by simp
  then show ?case using 2 by simp
qed simp

lemma oc_add_commute: "oc_add a b = oc_add b a"
  by (simp add: oc_add_def add.commute)

lemma fold_oc_add: "\<forall>w \<in> set ws. w \<le> 65535 \<Longrightarrow> fold oc_add ws (oc_rep a) = oc_rep (a + sum_list ws)"
proof (induction ws arbitrary: a)
  case (Cons w ws)
  have "oc_add w (oc_rep a) = oc_rep (a + w)" using Cons.prems oc_add_rep [of w a] by (simp add: oc_add_commute)
  then show ?case using Cons by (simp add: add.assoc)
qed simp

lemma oc_sum_rep: "oc_sum bs = oc_rep (sum_list (words_of bs))"
  using fold_oc_add [of "words_of bs" 0] words_of_le by (simp add: oc_sum_def oc_rep_def)

lemma unat_fold_sum: "unat (fold_sum s) = oc_rep (unat s)"
proof (induction s rule: fold_sum.induct)
  case (1 s)
  show ?case
  proof (cases "drop_bit 16 s \<noteq> 0")
    case True
    have "unat s = 65535 * (unat s div 65536) + (unat s mod 65536 + unat s div 65536)"
      using mult_div_mod_eq [of 65536 "unat s"] by linarith
    then have "unat s mod 65535 = (unat s mod 65536 + unat s div 65536) mod 65535"
      using mod_mult_self4 [of 65535 "unat s div 65536" "unat s mod 65536 + unat s div 65536"] by simp
    moreover have "unat s = 0 \<longleftrightarrow> unat s mod 65536 + unat s div 65536 = 0" by auto
    ultimately have "oc_rep (unat s mod 65536 + unat s div 65536) = oc_rep (unat s)"
      by (intro oc_rep_cong) auto
    then show ?thesis using 1 [OF True] True by (subst fold_sum.simps) (simp only: fold_step_unat if_True not_False_eq_True)
  next
    case False
    then have "unat s div 65536 = 0" using fold_word_unat(2) [of s] by simp
    then have "unat s \<le> 65535" by auto
    then show ?thesis using False by (subst fold_sum.simps) (simp add: oc_rep_small)
  qed
qed

lemma unat_less_u8: "unat (w :: u8) < 256"
  using unsigned_less [of w, where ?'a = nat] by simp

lemma unat_less_u16: "unat (w :: u16) < 65536"
  using unsigned_less [of w, where ?'a = nat] by simp

lemma unat_widen:
  "unat (ucast (w :: u8) :: u32) = unat w" "unat (ucast (v :: u16) :: u32) = unat v"
  using unat_less_u8 [of w] unat_less_u16 [of v] by (simp_all add: unsigned_ucast_eq take_bit_nat_eq_self)

lemma unat_un16: "unat (ucast (un16 [a, b] 0) :: u32) = unat a + 256 * unat b"
proof -
  have ab: "unat a < 256" "unat b < 256" using unsigned_less [of a] unsigned_less [of b] by simp_all
  have "(ucast (un16 [a, b] 0) :: u32) = ucast a + push_bit 8 (ucast b)"
  proof -
    have "(ucast (un16 [a, b] 0) :: u32) = ucast a OR push_bit 8 (ucast b)"
      by (rule bit_word_eqI) (auto simp: un16_def bit_simps dest: bit_imp_le_length)
    moreover have "(ucast a :: u32) AND push_bit 8 (ucast b) = 0"
      by (rule bit_word_eqI) (auto simp: bit_simps dest: bit_imp_le_length)
    ultimately show ?thesis by (simp add: disjunctive_add_eq_or)
  qed
  moreover have "unat (ucast a :: u32) = unat a" by (rule unat_widen)
  moreover have "unat (push_bit 8 (ucast b) :: u32) = 256 * unat b"
    using ab by (simp only: unsigned_push_bit_eq) (simp add: unat_widen push_bit_eq_mult take_bit_nat_eq_self)
  ultimately show ?thesis
    using ab unat_add_lem [of "ucast a :: u32" "push_bit 8 (ucast b)"] by simp
qed

lemma unat_sum_words:
  "unat acc + sum_list (words_of bs) < 2 ^ 32 \<Longrightarrow> unat (sum_words bs acc) = unat acc + sum_list (words_of bs)"
proof (induction bs acc rule: sum_words.induct)
  case (1 a b bs acc)
  have "unat (acc + ucast (un16 [a, b] 0)) = unat acc + (unat a + 256 * unat b)"
    using 1 unat_add_lem [of acc "ucast (un16 [a, b] 0)"] by (simp add: unat_un16)
  then show ?case using 1 by simp
next
  case (2 a acc)
  then show ?case using unat_add_lem [of acc "ucast a"] by (simp add: unat_widen)
qed simp

lemma sum_words_of_bound: "2 * sum_list (words_of bs) \<le> 65535 * (length bs + 1)"
proof (induction bs rule: words_of.induct)
  case (1 a b bs)
  have "unat a + 256 * unat b \<le> 65535" using words_of_le [of _ "[a, b]"] by simp
  then show ?case using 1 by simp
next
  case (2 a)
  have "unat a \<le> 65535" using words_of_le [of _ "[a]"] by simp
  then show ?case by simp
qed simp

lemma words_of_append: "even (length xs) \<Longrightarrow> words_of (xs @ ys) = words_of xs @ words_of ys"
  by (induction xs rule: words_of.induct) simp_all

lemma words_of_le16: "sum_list (words_of (le16 w)) = unat w"
proof -
  have "unat (ucast w :: u8) + 256 * unat (ucast (drop_bit 8 w) :: u8) = unat (ucast (un16 (le16 w) 0) :: u32)"
    using unat_un16 by (simp add: le16_def)
  also have "\<dots> = unat w"
    by (simp add: un16_le16 unat_widen)
  finally show ?thesis by (simp add: le16_def)
qed

lemma unat_not_u16: "unat (NOT w :: u16) = 65535 - unat w"
proof -
  have "NOT w = - 1 - w" by (simp add: not_eq_complement)
  moreover have "w \<le> - 1" by simp
  moreover have "unat (- 1 :: u16) = 65535" by (simp add: unsigned_minus_1_eq_mask mask_eq_exp_minus_1)
  ultimately show ?thesis using unat_sub [of w "- 1"] by simp
qed

lemma ip_checksum_rep:
  assumes "length bs \<le> 131072"
  shows "unat (ip_checksum bs) = 65535 - oc_rep (sum_list (words_of bs))"
proof -
  define f where "f = fold_sum (sum_words bs 0)"
  have "unat (sum_words bs 0) = sum_list (words_of bs)"
    using unat_sum_words [of 0 bs] sum_words_of_bound [of bs] assms by simp
  then have f: "unat f = oc_rep (sum_list (words_of bs))" by (simp add: f_def unat_fold_sum)
  have "(ucast (NOT f) :: u16) = NOT (ucast f)"
    by (rule bit_word_eqI) (auto simp: bit_simps)
  moreover have "unat (ucast f :: u16) = unat f"
    using f oc_rep_le [of "sum_list (words_of bs)"] by (simp add: unsigned_ucast_eq take_bit_nat_eq_self)
  ultimately show ?thesis using f unat_not_u16 [of "ucast f"] by (simp add: ip_checksum_def f_def)
qed

lemma ip_checksum_fills_in:
  assumes "even (length pre)" "length pre + length post + 2 \<le> 131072"
  shows "ip_checksum (pre @ le16 (ip_checksum (pre @ [0, 0] @ post)) @ post) = 0"
proof -
  define S where "S = sum_list (words_of pre) + sum_list (words_of post)"
  define c where "c = ip_checksum (pre @ [0, 0] @ post)"
  have even: "words_of (pre @ le16 c @ post) = words_of pre @ words_of (le16 c) @ words_of post"
    using assms(1) by (simp add: words_of_append)
  have "sum_list (words_of (pre @ [0, 0] @ post)) = S" using assms(1) by (simp add: words_of_append S_def)
  then have c: "unat c = 65535 - oc_rep S" using assms(2) ip_checksum_rep [of "pre @ [0, 0] @ post"] by (simp add: c_def)
  have "(S + (65535 - oc_rep S)) mod 65535 = 0"
  proof -
    have "(S + (65535 - oc_rep S)) mod 65535 = (oc_rep S + (65535 - oc_rep S)) mod 65535"
      by (metis mod_add_left_eq oc_rep_mod)
    then show ?thesis using oc_rep_le [of S] by simp
  qed
  moreover have "S + (65535 - oc_rep S) \<noteq> 0" by (cases "S = 0") (simp_all add: oc_rep_def)
  ultimately have "oc_rep (S + (65535 - oc_rep S)) = oc_rep 65535"
    by (intro oc_rep_cong) simp_all
  then have "oc_rep (S + (65535 - oc_rep S)) = 65535" by (simp add: oc_rep_small)
  moreover have "sum_list (words_of (pre @ le16 c @ post)) = S + unat c"
    by (simp add: even words_of_le16 S_def)
  ultimately have "unat (ip_checksum (pre @ le16 c @ post)) = 0"
    using assms(2) c ip_checksum_rep [of "pre @ le16 c @ post"] by simp
  then show ?thesis unfolding c_def unsigned_eq_0_iff .
qed

subsection \<open>Text of addresses\<close>

lemma zero_plus_digit:
  assumes "k < 10"
  shows "is_digit (zero_plus k)" "byte_of (zero_plus k) - byte_of CHR ''0'' = int k"
proof -
  have "(of_char (zero_plus k) :: nat) = 48 + k" using assms by (simp add: zero_plus_def)
  then have "byte_of (zero_plus k) = int (48 + k)" unfolding byte_of_def by (metis of_nat_of_char)
  moreover have "byte_of CHR ''0'' = 48" "byte_of CHR ''9'' = 57" by (simp_all add: byte_of_def)
  ultimately show "is_digit (zero_plus k)" "byte_of (zero_plus k) - byte_of CHR ''0'' = int k"
    using assms by (simp_all add: is_digit_def)
qed

lemma ip_parse_digit:
  "k < 10 \<Longrightarrow> ip_parse_loop (zero_plus k # str) (a, b, c) part val = ip_parse_loop str (a, b, c) part (val * 10 + of_nat k)"
  by (simp add: zero_plus_digit)

lemma ip_parse_octet:
  assumes "n < 256"
  shows "ip_parse_loop (octet_text n @ str) (a, b, c) part 0 = ip_parse_loop str (a, b, c) part (of_nat n)"
proof -
  have d: "n div 100 < 10" "n div 10 mod 10 < 10" "n mod 10 < 10" using assms by auto
  have three: "(of_nat (n div 100) * 10 + of_nat (n div 10 mod 10)) * 10 + of_nat (n mod 10) = (of_nat n :: u32)"
  proof -
    have "n div 100 * 10 + n div 10 mod 10 = n div 10" using div_mult2_eq [of n 10 10] by simp
    then have "(n div 100 * 10 + n div 10 mod 10) * 10 + n mod 10 = n" by simp
    then have "of_nat ((n div 100 * 10 + n div 10 mod 10) * 10 + n mod 10) = (of_nat n :: u32)" by (rule arg_cong)
    then show ?thesis by (simp only: of_nat_add of_nat_mult of_nat_numeral)
  qed
  have two: "of_nat (n div 10) * 10 + of_nat (n mod 10) = (of_nat n :: u32)"
  proof -
    have "of_nat (n div 10 * 10 + n mod 10) = (of_nat n :: u32)" by simp
    then show ?thesis by (simp only: of_nat_add of_nat_mult of_nat_numeral)
  qed
  consider "n \<ge> 100" | "10 \<le> n" "n < 100" | "n < 10" by linarith
  then show ?thesis
  proof cases
    case 1
    then show ?thesis unfolding octet_text_def append_Cons if_P [OF 1]
      by (simp only: ip_parse_digit [OF d(1)] ip_parse_digit [OF d(2)] ip_parse_digit [OF d(3)] three append_Nil
          mult_zero_left add_0)
  next
    case 2
    then have "n div 10 < 10" by auto
    then show ?thesis using 2 d(3) two by (simp add: octet_text_def ip_parse_digit del: ip_parse_loop.simps(2))
  qed (simp add: octet_text_def ip_parse_digit del: ip_parse_loop.simps(2))
qed

lemma ip_parse_dot:
  "ip_parse_loop (CHR ''.'' # str) (a, b, c) part val =
     (if part = 0 then ip_parse_loop str (val, b, c) 1 0
      else if part = 1 then ip_parse_loop str (a, val, c) 2 0
      else if part = 2 then ip_parse_loop str (a, b, val) 3 0 else None)"
proof -
  have "\<not> is_digit CHR ''.''" by (simp add: is_digit_def byte_of_def)
  then show ?thesis by (simp add: numeral_2_eq_2 numeral_3_eq_3)
qed

lemma low_byte: "(w :: u32) AND 0xFF = ucast (ucast w :: u8)"
  by (rule bit_word_eqI) (simp only: bit_and_iff htonl_mask_bits, auto simp: bit_simps)

subsection \<open>Properties\<close>

text \<open>C34: \<open>ip_checksum\<close>, which adds 16-bit words in a 32-bit accumulator and folds the carries at the
  end, is the complement of the ones' complement sum of RFC 1071 with its carry at every addition,
  for all data of up to 128 KiB: the accumulator does not overflow and the folding loop ends.\<close>
theorem ip_checksum_rfc1071:
  assumes "length bs \<le> 131072"
  shows "unat (ip_checksum bs) = 65535 - oc_sum bs"
  using ip_checksum_rep [OF assms] by (simp add: oc_sum_rep)

theorem ip_checksum_rfc1071_witness: "unat (ip_checksum [0xFF, 0xFF, 0x01, 0x00, 0x7F]) = 65535 - 0x80"
proof -
  have "oc_sum [0xFF, 0xFF, 0x01, 0x00, 0x7F] = 0x80" by (simp add: oc_sum_def oc_add_def)
  then show ?thesis using ip_checksum_rfc1071 [of "[0xFF, 0xFF, 0x01, 0x00, 0x7F]"] by simp
qed

text \<open>The text of every address parses back to that address.\<close>
theorem ip_text_roundtrip: "brights_ip_parse (brights_ip_to_str ip) = ip"
proof -
  have oct: "unat (w AND 0xFF :: u32) < 256" for w :: u32
    using unat_less_u8 [of "ucast w"] by (simp add: low_byte unat_widen)
  have "ip_parse_loop (brights_ip_to_str ip) (0, 0, 0) 0 0 =
      Some ((drop_bit 24 ip AND 0xFF, drop_bit 16 ip AND 0xFF, drop_bit 8 ip AND 0xFF), 3, ip AND 0xFF)"
    using oct ip_parse_octet [where str = "[]"] by (simp add: brights_ip_to_str_def ip_parse_octet ip_parse_dot del: ip_parse_loop.simps(2))
  then show ?thesis
    using join32 [of ip] by (simp add: brights_ip_parse_def low_byte or.commute or.left_commute)
qed

end
