(* ===== verification/Net.thy ===== *)
theory Net
  imports Packet
begin

unbundle bit_operations_syntax

text \<open>
  The network stack of \<open>kernel/net/net.c\<close>: drivers and interfaces, ARP, IP, ICMP, UDP and TCP
  handlers, and the socket calls, over one state record with the static variables of the source.

  A driver's operations are function pointers into other code: the record keeps what \<open>init\<close> returns
  and what \<open>send\<close> returns for a frame, and \<open>None\<close> for a null pointer.  Every frame handed to a
  driver is appended, with the driver's index, to the list \<open>sent\<close>.  A received frame is the list of
  the bytes of the driver's buffer together with the length the driver reports.  The result \<open>None\<close>
  of an operation is an access past the end of a buffer.
\<close>

subsection \<open>State\<close>

definition BRIGHTS_NET_MAX_IF :: nat where "BRIGHTS_NET_MAX_IF = 4"
definition BRIGHTS_NET_MAX_DRIVERS :: nat where "BRIGHTS_NET_MAX_DRIVERS = 4"
definition BRIGHTS_NET_MAX_SOCKETS :: nat where "BRIGHTS_NET_MAX_SOCKETS = 32"
definition BRIGHTS_NET_BUF_SIZE :: nat where "BRIGHTS_NET_BUF_SIZE = 1518"
definition BRIGHTS_ARP_CACHE_SIZE :: nat where "BRIGHTS_ARP_CACHE_SIZE = 16"

record brights_net_driver_t =
  drv_name :: string
  drv_initialized :: bool
  ops_init :: "int option"
  ops_send :: "(u8 list \<Rightarrow> int) option"
  ops_recv :: "(int \<times> u8 list) option"
  ops_poll :: "int option"

record brights_netif_t =
  if_name :: string
  if_mac :: "u8 list"
  if_ip_addr :: u32
  if_netmask :: u32
  if_gateway :: u32
  if_up :: bool
  if_driver_idx :: int

record arp_entry_t =
  ae_ip :: u32
  ae_mac :: "u8 list"
  ae_valid :: bool

record brights_socket_t =
  sk_in_use :: bool
  sk_domain :: int
  sk_type :: int
  sk_local_ip :: u32
  sk_local_port :: u16
  sk_remote_ip :: u32
  sk_remote_port :: u16
  sk_recv_buf :: "u8 list"
  sk_recv_len :: u32
  sk_tcp_state :: u32
  sk_tcp_seq :: u32
  sk_tcp_ack :: u32

record net_services =
  dhcp_state :: u8
  dhcp_xid :: u32
  dns_server1 :: u32
  dns_server2 :: u32
  dns_id_counter :: u16
  http_state :: u8

record net =
  netifs :: "brights_netif_t list"
  netif_count :: nat
  net_drivers :: "brights_net_driver_t list"
  arp_cache :: "arp_entry_t list"
  sockets :: "brights_socket_t list"
  next_port :: u32
  services :: net_services
  sent :: "(nat \<times> u8 list) list"

subsection \<open>Drivers and transmission\<close>

definition brights_net_register_driver :: "brights_net_driver_t option \<Rightarrow> net \<Rightarrow> net \<times> int" where
  "brights_net_register_driver driver s =
     (if length (net_drivers s) \<ge> BRIGHTS_NET_MAX_DRIVERS then (s, -1)
      else (case driver of
              None \<Rightarrow> (s, -1)
            | Some d \<Rightarrow>
                (if ops_init d = None \<or> ops_send d = None then (s, -1)
                 else if ops_init d \<noteq> Some 0 then (s, -1)
                 else (s\<lparr>net_drivers := net_drivers s @ [d\<lparr>drv_initialized := True\<rparr>]\<rparr>, 0))))"

definition brights_net_get_driver :: "int \<Rightarrow> net \<Rightarrow> (nat \<times> brights_net_driver_t) option" where
  "brights_net_get_driver if_idx s =
     (if if_idx < 0 \<or> if_idx \<ge> int (netif_count s) then None
      else
        (let idx = if_driver_idx (netifs s ! nat if_idx) in
         if idx < 0 then None
         else if idx \<ge> int (length (net_drivers s)) then None
         else Some (nat idx, net_drivers s ! nat idx)))"

definition brights_net_send :: "u8 list \<Rightarrow> u32 \<Rightarrow> net \<Rightarrow> (net \<times> int) option" where
  "brights_net_send frame len s =
     (if len = 0 \<or> unat len > BRIGHTS_NET_BUF_SIZE then Some (s, -1)
      else
        (case first_idx if_up (take (netif_count s) (netifs s)) of
           None \<Rightarrow> Some (s, -1)
         | Some if_idx \<Rightarrow>
             (case brights_net_get_driver (int if_idx) s of
                None \<Rightarrow> Some (s, -1)
              | Some (k, driver) \<Rightarrow>
                  do {
                    bs \<leftarrow> bytes_at frame 0 (unat len);
                    send \<leftarrow> ops_send driver;
                    Some (s\<lparr>sent := sent s @ [(k, bs)]\<rparr>, send bs)
                  })))"

definition alloc_port :: "net \<Rightarrow> net \<times> u16" where
  "alloc_port s =
     (let p = ucast (next_port s); n = next_port s + 1 in
      (s\<lparr>next_port := (if n > 65535 then 49152 else n)\<rparr>, p))"

subsection \<open>ARP\<close>

definition arp_cache_find :: "u32 \<Rightarrow> net \<Rightarrow> nat option" where
  "arp_cache_find ip s = first_idx (\<lambda>e. ae_valid e \<and> ae_ip e = ip) (arp_cache s)"

definition arp_cache_add :: "u32 \<Rightarrow> u8 list \<Rightarrow> net \<Rightarrow> net \<times> int" where
  "arp_cache_add ip mac s =
     (case first_idx (\<lambda>e. \<not> ae_valid e) (arp_cache s) of
        None \<Rightarrow> (s, -1)
      | Some i \<Rightarrow> (s\<lparr>arp_cache := upd_at i (\<lambda>e. \<lparr>ae_ip = ip, ae_mac = take 6 mac, ae_valid = True\<rparr>) (arp_cache s)\<rparr>, 0))"

definition brights_arp_resolve :: "u32 \<Rightarrow> net \<Rightarrow> u8 list option" where
  "brights_arp_resolve ip s =
     (case arp_cache_find ip s of None \<Rightarrow> None | Some idx \<Rightarrow> Some (ae_mac (arp_cache s ! idx)))"

definition empty_frame :: "u8 list" where
  "empty_frame = replicate BRIGHTS_NET_BUF_SIZE 0"

definition brights_arp_request :: "u32 \<Rightarrow> net \<Rightarrow> (net \<times> int) option" where
  "brights_arp_request ip s =
     (if netif_count s = 0 then Some (s, -1)
      else
        (let iface = netifs s ! 0;
             eth = \<lparr>eth_dst = replicate 6 0xFF, eth_src = if_mac iface, eth_type = 0x0608\<rparr>;
             arp = \<lparr>hw_type = 0x0100, proto_type = 0x0008, hw_size = 6, proto_size = 4, opcode = 0x0100,
                    sender_mac = if_mac iface, sender_ip = if_ip_addr iface,
                    target_mac = replicate 6 0, target_ip = ip\<rparr>
         in do {
              f1 \<leftarrow> put_bytes 0 (eth_bytes eth) empty_frame;
              frame \<leftarrow> put_bytes 14 (arp_bytes arp) f1;
              (s', _) \<leftarrow> brights_net_send frame 42 s;
              Some (s', 0)
            }))"

definition arp_handle :: "u8 list \<Rightarrow> u32 \<Rightarrow> net \<Rightarrow> net option" where
  "arp_handle frame len s =
     (if len < 42 then Some s
      else do {
        bs \<leftarrow> bytes_at frame 14 28;
        let arp = arp_of bs;
        if netif_count s = 0 then Some s
        else
          (let iface = netifs s ! 0;
               s1 = fst (arp_cache_add (sender_ip arp) (sender_mac arp) s)
           in if opcode arp = 0x0100 \<and> target_ip arp = if_ip_addr iface then
                (let eth = \<lparr>eth_dst = sender_mac arp, eth_src = if_mac iface, eth_type = 0x0608\<rparr>;
                     rarp = \<lparr>hw_type = 0x0100, proto_type = 0x0008, hw_size = 6, proto_size = 4, opcode = 0x0200,
                             sender_mac = if_mac iface, sender_ip = if_ip_addr iface,
                             target_mac = sender_mac arp, target_ip = sender_ip arp\<rparr>
                 in do {
                      f1 \<leftarrow> put_bytes 0 (eth_bytes eth) empty_frame;
                      reply \<leftarrow> put_bytes 14 (arp_bytes rarp) f1;
                      (s2, _) \<leftarrow> brights_net_send reply 42 s1;
                      Some s2
                    })
              else Some s1)
      })"

subsection \<open>IP and ICMP\<close>

text \<open>The header \<open>brights_ip_send\<close> builds, before and after its checksum is filled in.\<close>

definition ip_header :: "u32 \<Rightarrow> u32 \<Rightarrow> u8 \<Rightarrow> u32 \<Rightarrow> ip_hdr" where
  "ip_header src dst proto len =
     (let t = 20 + len in
      \<lparr>ver_ihl = 0x45, tos = 0, total_len = ucast (drop_bit 8 t OR push_bit 8 t), ident = 0, flags_frag = 0,
       ttl = 64, protocol = proto, checksum = 0, src_ip = src, dst_ip = dst\<rparr>)"

definition ip_header_sum :: "ip_hdr \<Rightarrow> ip_hdr" where
  "ip_header_sum h = h\<lparr>checksum := ip_checksum (ip_bytes h)\<rparr>"

definition brights_ip_send :: "u32 \<Rightarrow> u8 \<Rightarrow> u8 list option \<Rightarrow> u32 \<Rightarrow> net \<Rightarrow> (net \<times> int) option" where
  "brights_ip_send dst proto data len s =
     (if netif_count s = 0 then Some (s, -1)
      else
        (let iface = netifs s ! 0;
             ip = ip_header_sum (ip_header (if_ip_addr iface) dst proto len)
         in do {
              f1 \<leftarrow> put_bytes 14 (ip_bytes ip) empty_frame;
              f2 \<leftarrow> (case data of
                       None \<Rightarrow> Some f1
                     | Some d \<Rightarrow> (if len > 0 then do { bs \<leftarrow> bytes_at d 0 (unat len); put_bytes 34 bs f1 }
                                 else Some f1));
              case brights_arp_resolve dst s of
                None \<Rightarrow> do { (s', _) \<leftarrow> brights_arp_request dst s; Some (s', -1) }
              | Some mac \<Rightarrow>
                  do {
                    frame \<leftarrow> put_bytes 0 (eth_bytes \<lparr>eth_dst = mac, eth_src = if_mac iface, eth_type = 0x0008\<rparr>) f2;
                    (s', _) \<leftarrow> brights_net_send frame (14 + (20 + len)) s;
                    Some (s', 0)
                  }
            }))"

definition brights_icmp_echo_request :: "u32 \<Rightarrow> net \<Rightarrow> (net \<times> int) option" where
  "brights_icmp_echo_request dst s =
     (let icmp = \<lparr>icmp_type = ICMP_ECHO_REQUEST, icmp_code = 0, icmp_checksum = 0, icmp_ident = 0x1234, icmp_seq = 0x0001\<rparr>;
          icmp' = icmp\<lparr>icmp_checksum := ip_checksum (icmp_bytes icmp)\<rparr>
      in brights_ip_send dst IP_PROTO_ICMP (Some (icmp_bytes icmp')) 8 s)"

definition icmp_handle :: "u8 list \<Rightarrow> u32 \<Rightarrow> u32 \<Rightarrow> net \<Rightarrow> net option" where
  "icmp_handle data len src s =
     (if len < 8 then Some s
      else do {
        bs \<leftarrow> bytes_at data 0 8;
        let icmp = icmp_of bs;
        if icmp_type icmp = ICMP_ECHO_REQUEST then
          (let icmp1 = icmp\<lparr>icmp_type := ICMP_ECHO_REPLY, icmp_checksum := 0\<rparr>
           in do {
                d1 \<leftarrow> put_bytes 0 (icmp_bytes icmp1) data;
                body \<leftarrow> bytes_at d1 0 (unat len);
                d2 \<leftarrow> put_bytes 0 (icmp_bytes (icmp1\<lparr>icmp_checksum := ip_checksum body\<rparr>)) d1;
                (s', _) \<leftarrow> brights_ip_send src IP_PROTO_ICMP (Some d2) len s;
                Some s'
              })
        else Some s
      })"

subsection \<open>UDP\<close>

definition brights_udp_send :: "u32 \<Rightarrow> u16 \<Rightarrow> u16 \<Rightarrow> u8 list \<Rightarrow> u32 \<Rightarrow> net \<Rightarrow> (net \<times> int) option" where
  "brights_udp_send dst src_port dst_port data len s =
     (let n = 8 + (ucast len :: u64);
          udp = \<lparr>udp_src_port = bswap16 src_port, udp_dst_port = bswap16 dst_port,
                 udp_length = ucast (drop_bit 8 n OR push_bit 8 n), udp_checksum = 0\<rparr>
      in brights_ip_send dst IP_PROTO_UDP (Some (udp_bytes udp)) 8 s)"

text \<open>The copy into a socket's buffer both receive paths end in.\<close>

definition sock_store :: "u8 list \<Rightarrow> nat \<Rightarrow> u32 \<Rightarrow> brights_socket_t \<Rightarrow> brights_socket_t option" where
  "sock_store data off n sk =
     do {
       bs \<leftarrow> bytes_at data off (unat n);
       buf \<leftarrow> put_bytes (unat (sk_recv_len sk)) bs (sk_recv_buf sk);
       Some (sk\<lparr>sk_recv_buf := buf, sk_recv_len := sk_recv_len sk + n\<rparr>)
     }"

definition udp_deliver :: "u8 list \<Rightarrow> u32 \<Rightarrow> u32 \<Rightarrow> u16 \<Rightarrow> brights_socket_t \<Rightarrow> brights_socket_t option" where
  "udp_deliver data len src port sk =
     (let room = 4096 - (ucast (sk_recv_len sk) :: u64);
          n = (if (ucast (len - 8) :: u64) > room then ucast room else len - 8)
      in if n > 0 then
           do {
             sk' \<leftarrow> sock_store data 8 n sk;
             Some (sk'\<lparr>sk_remote_ip := src, sk_remote_port := port\<rparr>)
           }
         else Some sk)"

definition udp_handle :: "u8 list \<Rightarrow> u32 \<Rightarrow> u32 \<Rightarrow> net \<Rightarrow> net option" where
  "udp_handle data len src s =
     (if len < 8 then Some s
      else do {
        bs \<leftarrow> bytes_at data 0 8;
        let udp = udp_of bs;
        (case first_idx (\<lambda>sk. sk_in_use sk \<and> sk_type sk = 2 \<and> sk_local_port sk = bswap16 (udp_dst_port udp)) (sockets s) of
           None \<Rightarrow> Some s
         | Some i \<Rightarrow>
             do {
               sk \<leftarrow> udp_deliver data len src (bswap16 (udp_src_port udp)) (sockets s ! i);
               Some (s\<lparr>sockets := (sockets s)[i := sk]\<rparr>)
             })
      })"

subsection \<open>TCP\<close>

definition tcp_segment :: "u16 \<Rightarrow> u16 \<Rightarrow> u32 \<Rightarrow> u32 \<Rightarrow> u8 \<Rightarrow> tcp_hdr" where
  "tcp_segment src_port dst_port seq ack flags =
     \<lparr>tcp_src_port = src_port, tcp_dst_port = dst_port, tcp_seq_no = seq, tcp_ack_no = ack, tcp_data_off = 0x50,
      tcp_flags = flags, tcp_window = 0xFFFF, tcp_checksum = 0, tcp_urgent = 0\<rparr>"

definition tcp_syn_socket :: "u32 \<Rightarrow> u16 \<Rightarrow> u16 \<Rightarrow> net \<Rightarrow> brights_socket_t \<Rightarrow> brights_socket_t" where
  "tcp_syn_socket dst dst_port port s sk =
     (let sk1 = sk\<lparr>sk_in_use := True, sk_domain := 1, sk_type := 1, sk_remote_ip := dst, sk_remote_port := dst_port,
                 sk_local_port := port, sk_tcp_state := 1, sk_tcp_seq := 1000, sk_tcp_ack := 0, sk_recv_len := 0\<rparr>
      in if netif_count s > 0 then sk1\<lparr>sk_local_ip := if_ip_addr (netifs s ! 0)\<rparr> else sk1)"

definition brights_tcp_connect :: "u32 \<Rightarrow> u16 \<Rightarrow> net \<Rightarrow> (net \<times> int) option" where
  "brights_tcp_connect dst dst_port s =
     (case first_idx (\<lambda>sk. \<not> sk_in_use sk) (sockets s) of
        None \<Rightarrow> Some (s, -1)
      | Some i \<Rightarrow>
          (let (s1, port) = alloc_port s;
               sk = tcp_syn_socket dst dst_port port s (sockets s ! i);
               s2 = s1\<lparr>sockets := (sockets s1)[i := sk]\<rparr>;
               tcp = tcp_segment (bswap16 port) (bswap16 dst_port) (bswap32 (sk_tcp_seq sk)) 0 TCP_SYN
           in do {
                (s3, _) \<leftarrow> brights_ip_send dst IP_PROTO_TCP (Some (tcp_bytes tcp)) 20 s2;
                Some (s3, int i)
              }))"

definition tcp_matches :: "u32 \<Rightarrow> tcp_hdr \<Rightarrow> brights_socket_t \<Rightarrow> bool" where
  "tcp_matches src tcp sk \<longleftrightarrow> sk_in_use sk \<and> sk_remote_ip sk = src
     \<and> sk_remote_port sk = bswap16 (tcp_src_port tcp) \<and> sk_local_port sk = bswap16 (tcp_dst_port tcp)"

text \<open>Replacing the socket and sending a header with its sequence numbers back to the sender.\<close>

definition tcp_reply :: "nat \<Rightarrow> brights_socket_t \<Rightarrow> tcp_hdr \<Rightarrow> u8 \<Rightarrow> u32 \<Rightarrow> net \<Rightarrow> net option" where
  "tcp_reply i sk tcp flags src s =
     (let reply = tcp_segment (tcp_dst_port tcp) (tcp_src_port tcp) (bswap32 (sk_tcp_seq sk)) (bswap32 (sk_tcp_ack sk)) flags
      in do {
           (s', _) \<leftarrow> brights_ip_send src IP_PROTO_TCP (Some (tcp_bytes reply)) 20 (s\<lparr>sockets := (sockets s)[i := sk]\<rparr>);
           Some s'
         })"

definition tcp_data :: "nat \<Rightarrow> u8 list \<Rightarrow> u32 \<Rightarrow> tcp_hdr \<Rightarrow> u32 \<Rightarrow> net \<Rightarrow> net option" where
  "tcp_data i data len tcp src s =
     (let sk = sockets s ! i;
          off = drop_bit 4 (ucast (tcp_data_off tcp) :: u32) * 4;
          avail = 4096 - sk_recv_len sk;
          n = (if len - off > avail then avail else len - off)
      in if len - off > 0 \<and> n > 0 then
           do {
             sk' \<leftarrow> sock_store data (unat off) n sk;
             tcp_reply i (sk'\<lparr>sk_tcp_ack := bswap32 (tcp_seq_no tcp) + n\<rparr>) tcp TCP_ACK src s
           }
         else Some s)"

definition tcp_handle :: "u8 list \<Rightarrow> u32 \<Rightarrow> u32 \<Rightarrow> net \<Rightarrow> net option" where
  "tcp_handle data len src s =
     (if len < 20 then Some s
      else do {
        bs \<leftarrow> bytes_at data 0 20;
        let tcp = tcp_of bs;
        let seq = bswap32 (tcp_seq_no tcp);
        (case first_idx (tcp_matches src tcp) (sockets s) of
           None \<Rightarrow> Some s
         | Some i \<Rightarrow>
             (let sk = sockets s ! i in
              if tcp_flags tcp AND TCP_SYN \<noteq> 0 then
                tcp_reply i (sk\<lparr>sk_tcp_state := 2, sk_tcp_ack := seq + 1\<rparr>) tcp (TCP_SYN OR TCP_ACK) src s
              else if tcp_flags tcp AND TCP_ACK \<noteq> 0 then
                (if sk_tcp_state sk = 1
                 then Some (s\<lparr>sockets := (sockets s)[i := sk\<lparr>sk_tcp_state := 2, sk_tcp_ack := seq\<rparr>]\<rparr>)
                 else Some s)
              else if tcp_flags tcp AND TCP_FIN \<noteq> 0 then
                tcp_reply i (sk\<lparr>sk_tcp_state := 3, sk_tcp_ack := seq + 1\<rparr>) tcp TCP_ACK src s
              else if tcp_flags tcp AND TCP_PSH \<noteq> 0 \<or> tcp_flags tcp AND TCP_ACK \<noteq> 0 \<and> len > 20 then
                tcp_data i data len tcp src s
              else Some s))
      })"

subsection \<open>Reception\<close>

definition ip_handle :: "u8 list \<Rightarrow> u32 \<Rightarrow> net \<Rightarrow> net option" where
  "ip_handle frame len s =
     (if len < 34 then Some s
      else do {
        bs \<leftarrow> bytes_at frame 14 20;
        let ip = ip_of bs;
        let ip_hdr_len = (ucast (ver_ihl ip) AND 0x0F) * 4;
        let t = (ucast (total_len ip) :: u32);
        let payload_len = (drop_bit 8 t OR push_bit 8 t) - ip_hdr_len;
        let payload = drop (14 + unat ip_hdr_len) frame;
        if netif_count s = 0 then Some s
        else if dst_ip ip \<noteq> if_ip_addr (netifs s ! 0) \<and> dst_ip ip \<noteq> 0xFFFFFFFF then Some s
        else if protocol ip = IP_PROTO_ICMP then icmp_handle payload payload_len (src_ip ip) s
        else if protocol ip = IP_PROTO_UDP then udp_handle payload payload_len (src_ip ip) s
        else if protocol ip = IP_PROTO_TCP then tcp_handle payload payload_len (src_ip ip) s
        else Some s
      })"

definition brights_net_recv :: "u8 list \<Rightarrow> u32 \<Rightarrow> net \<Rightarrow> net option" where
  "brights_net_recv frame len s =
     (if len < 14 then Some s
      else do {
        bs \<leftarrow> bytes_at frame 0 14;
        let type = bswap16 (eth_type (eth_of bs));
        if type = ETH_TYPE_ARP then arp_handle frame len s
        else if type = ETH_TYPE_IP then ip_handle frame len s
        else Some s
      })"

subsection \<open>Sockets\<close>

definition bad_socket :: "int \<Rightarrow> net \<Rightarrow> bool" where
  "bad_socket fd s \<longleftrightarrow> fd < 0 \<or> fd \<ge> int BRIGHTS_NET_MAX_SOCKETS \<or> \<not> sk_in_use (sockets s ! nat fd)"

definition brights_socket :: "int \<Rightarrow> int \<Rightarrow> net \<Rightarrow> net \<times> int" where
  "brights_socket domain type s =
     (case first_idx (\<lambda>sk. \<not> sk_in_use sk) (sockets s) of
        None \<Rightarrow> (s, -1)
      | Some i \<Rightarrow>
          (let sk = (sockets s ! i)\<lparr>sk_in_use := True, sk_domain := domain, sk_type := type, sk_local_port := 0,
                      sk_remote_ip := 0, sk_remote_port := 0, sk_tcp_state := 0, sk_recv_len := 0\<rparr>;
               sk' = (if netif_count s > 0 then sk\<lparr>sk_local_ip := if_ip_addr (netifs s ! 0)\<rparr> else sk)
           in (s\<lparr>sockets := (sockets s)[i := sk']\<rparr>, int i)))"

definition brights_bind :: "int \<Rightarrow> u32 \<Rightarrow> u16 \<Rightarrow> net \<Rightarrow> net \<times> int" where
  "brights_bind fd addr port s =
     (if bad_socket fd s then (s, -1)
      else (s\<lparr>sockets := upd_at (nat fd) (\<lambda>sk. sk\<lparr>sk_local_ip := addr, sk_local_port := port\<rparr>) (sockets s)\<rparr>, 0))"

definition brights_listen :: "int \<Rightarrow> net \<Rightarrow> net \<times> int" where
  "brights_listen fd s =
     (if bad_socket fd s then (s, -1)
      else (s\<lparr>sockets := upd_at (nat fd) (\<lambda>sk. sk\<lparr>sk_tcp_state := 0\<rparr>) (sockets s)\<rparr>, 0))"

definition brights_accept :: "int \<Rightarrow> net \<Rightarrow> int \<times> (u32 \<times> u16) option" where
  "brights_accept fd s =
     (if bad_socket fd s then (-1, None)
      else (let sk = sockets s ! nat fd in
            if sk_tcp_state sk = 2 then (fd, Some (sk_remote_ip sk, sk_remote_port sk)) else (-1, None)))"

definition brights_connect :: "int \<Rightarrow> u32 \<Rightarrow> u16 \<Rightarrow> net \<Rightarrow> (net \<times> int) option" where
  "brights_connect fd addr port s =
     (if bad_socket fd s then Some (s, -1)
      else
        (let s1 = s\<lparr>sockets := upd_at (nat fd) (\<lambda>sk. sk\<lparr>sk_remote_ip := addr, sk_remote_port := port\<rparr>) (sockets s)\<rparr>
         in if sk_type (sockets s ! nat fd) = 1 then brights_tcp_connect addr port s1 else Some (s1, 0)))"

definition sock_segment :: "brights_socket_t \<Rightarrow> u8 \<Rightarrow> tcp_hdr" where
  "sock_segment sk flags =
     tcp_segment (bswap16 (sk_local_port sk)) (bswap16 (sk_remote_port sk)) (bswap32 (sk_tcp_seq sk)) (bswap32 (sk_tcp_ack sk)) flags"

definition brights_send :: "int \<Rightarrow> u8 list \<Rightarrow> u32 \<Rightarrow> net \<Rightarrow> (net \<times> int) option" where
  "brights_send fd buf len s =
     (if bad_socket fd s then Some (s, -1)
      else
        (let sk = sockets s ! nat fd in
         if sk_type sk = 2 then brights_udp_send (sk_remote_ip sk) (sk_local_port sk) (sk_remote_port sk) buf len s
         else if sk_type sk = 1 then
           (if sk_tcp_state sk \<noteq> 2 then Some (s, -1)
            else do {
              (s1, ret) \<leftarrow> brights_ip_send (sk_remote_ip sk) IP_PROTO_TCP
                             (Some (tcp_bytes (sock_segment sk (TCP_ACK OR TCP_PSH)))) 20 s;
              Some (if ret = 0
                    then (s1\<lparr>sockets := upd_at (nat fd) (\<lambda>sk. sk\<lparr>sk_tcp_seq := sk_tcp_seq sk + len\<rparr>) (sockets s1)\<rparr>,
                          sint len)
                    else (s1, -1))
            })
         else Some (s, -1)))"

text \<open>The shifting loop of \<open>brights_recv\<close>, one assignment per index.\<close>

definition shift_bytes :: "nat \<Rightarrow> nat \<Rightarrow> u8 list \<Rightarrow> u8 list" where
  "shift_bytes k n buf = fold (\<lambda>i b. b[i := b ! (i + k)]) [0..<n] buf"

definition sock_recv :: "u32 \<Rightarrow> brights_socket_t \<Rightarrow> brights_socket_t \<times> u8 list" where
  "sock_recv len sk =
     (if sk_recv_len sk = 0 then (sk, [])
      else
        (let n = (if len > sk_recv_len sk then sk_recv_len sk else len);
             out = take (unat n) (sk_recv_buf sk);
             rest = unat (sk_recv_len sk) - unat n;
             buf = (if n < sk_recv_len sk then shift_bytes (unat n) rest (sk_recv_buf sk) else sk_recv_buf sk)
         in (sk\<lparr>sk_recv_buf := buf, sk_recv_len := sk_recv_len sk - n\<rparr>, out)))"

definition brights_recv :: "int \<Rightarrow> u32 \<Rightarrow> net \<Rightarrow> net \<times> int \<times> u8 list" where
  "brights_recv fd len s =
     (if bad_socket fd s then (s, -1, [])
      else (let (sk, out) = sock_recv len (sockets s ! nat fd)
            in (s\<lparr>sockets := (sockets s)[nat fd := sk]\<rparr>, int (length out), out)))"

definition brights_close :: "int \<Rightarrow> net \<Rightarrow> (net \<times> int) option" where
  "brights_close fd s =
     (if bad_socket fd s then Some (s, -1)
      else
        (let sk = sockets s ! nat fd in
         do {
           s1 \<leftarrow> (if sk_type sk = 1 \<and> sk_tcp_state sk = 2
                  then map_option fst (brights_ip_send (sk_remote_ip sk) IP_PROTO_TCP
                         (Some (tcp_bytes (sock_segment sk (TCP_FIN OR TCP_ACK)))) 20 s)
                  else Some s);
           Some (s1\<lparr>sockets := upd_at (nat fd) (\<lambda>sk. sk\<lparr>sk_in_use := False\<rparr>) (sockets s1)\<rparr>, 0)
         }))"

subsection \<open>Interfaces and initialisation\<close>

definition brights_netif_add :: "string \<Rightarrow> u8 list \<Rightarrow> net \<Rightarrow> net \<times> int" where
  "brights_netif_add name mac s =
     (if netif_count s \<ge> BRIGHTS_NET_MAX_IF then (s, -1)
      else
        (s\<lparr>netifs := (netifs s)[netif_count s :=
              \<lparr>if_name = take 15 name, if_mac = take 6 mac, if_ip_addr = 0, if_netmask = 0, if_gateway = 0,
               if_up = False, if_driver_idx = int (netif_count s)\<rparr>],
            netif_count := netif_count s + 1\<rparr>,
         int (netif_count s)))"

definition netif_update :: "string \<Rightarrow> (brights_netif_t \<Rightarrow> brights_netif_t) \<Rightarrow> net \<Rightarrow> net \<times> int" where
  "netif_update name f s =
     (case first_idx (\<lambda>n. cchar (if_name n) 0 = cchar name 0) (take (netif_count s) (netifs s)) of
        None \<Rightarrow> (s, -1)
      | Some i \<Rightarrow> (s\<lparr>netifs := upd_at i f (netifs s)\<rparr>, 0))"

definition brights_netif_set_ip :: "string \<Rightarrow> u32 \<Rightarrow> u32 \<Rightarrow> u32 \<Rightarrow> net \<Rightarrow> net \<times> int" where
  "brights_netif_set_ip name ip netmask gateway =
     netif_update name (\<lambda>n. n\<lparr>if_ip_addr := ip, if_netmask := netmask, if_gateway := gateway\<rparr>)"

definition brights_netif_up :: "string \<Rightarrow> net \<Rightarrow> net \<times> int" where
  "brights_netif_up name = netif_update name (\<lambda>n. n\<lparr>if_up := True\<rparr>)"

definition brights_netif_down :: "string \<Rightarrow> net \<Rightarrow> net \<times> int" where
  "brights_netif_down name = netif_update name (\<lambda>n. n\<lparr>if_up := False\<rparr>)"

definition brights_dhcp_client_init :: "net_services \<Rightarrow> net_services" where
  "brights_dhcp_client_init v = v\<lparr>dhcp_state := 0, dhcp_xid := 0x12345678\<rparr>"

definition server_of :: "string option \<Rightarrow> u32 \<Rightarrow> u32" where
  "server_of name old =
     (case name of
        None \<Rightarrow> old
      | Some t \<Rightarrow>
          (case kutil_parse_ipv4 t of
             None \<Rightarrow> old
           | Some (a, b, c, d) \<Rightarrow>
               push_bit 24 (word_of_int a) OR push_bit 16 (word_of_int b) OR push_bit 8 (word_of_int c) OR word_of_int d))"

definition brights_dns_init :: "string option \<Rightarrow> string option \<Rightarrow> net_services \<Rightarrow> net_services" where
  "brights_dns_init nameserver1 nameserver2 v =
     v\<lparr>dns_server1 := server_of nameserver1 (dns_server1 v), dns_server2 := server_of nameserver2 (dns_server2 v)\<rparr>"

definition brights_http_init :: "net_services \<Rightarrow> net_services" where
  "brights_http_init v = v\<lparr>http_state := 0\<rparr>"

definition zero_socket :: brights_socket_t where
  "zero_socket = \<lparr>sk_in_use = False, sk_domain = 0, sk_type = 0, sk_local_ip = 0, sk_local_port = 0, sk_remote_ip = 0,
     sk_remote_port = 0, sk_recv_buf = replicate 4096 0, sk_recv_len = 0, sk_tcp_state = 0, sk_tcp_seq = 0, sk_tcp_ack = 0\<rparr>"

definition brights_net_init :: "net \<Rightarrow> net" where
  "brights_net_init s =
     s\<lparr>netif_count := 0,
       arp_cache := replicate BRIGHTS_ARP_CACHE_SIZE \<lparr>ae_ip = 0, ae_mac = replicate 6 0, ae_valid = False\<rparr>,
       sockets := replicate BRIGHTS_NET_MAX_SOCKETS zero_socket,
       services := brights_http_init (brights_dns_init (Some ''8.8.8.8'') (Some ''8.8.4.4'')
                     (brights_dhcp_client_init (services s)))\<rparr>"

end
