(* ===== verification/Netlaws.thy ===== *)
theory Netlaws
  imports Net Pipe
begin

unbundle bit_operations_syntax

text \<open>
  What the network stack of \<open>Net\<close> does: the invariant of its tables over every sequence of calls,
  the exact frames it sends, the ARP exchange between two hosts, echo replies, the bytes a
  datagram socket delivers (through the contract \<open>byte_stream\<close> of \<open>Pipe\<close>), and the receive-path
  defects the model exhibits.
\<close>

subsection \<open>The invariant\<close>

definition socket_ok :: "brights_socket_t \<Rightarrow> bool" where
  "socket_ok sk \<longleftrightarrow> length (sk_recv_buf sk) = 4096 \<and> sk_recv_len sk \<le> 4096"

definition net_inv :: "net \<Rightarrow> bool" where
  "net_inv s \<longleftrightarrow> length (netifs s) = 4 \<and> netif_count s \<le> 4 \<and> list_all (\<lambda>n. length (if_mac n) = 6) (netifs s)
     \<and> length (net_drivers s) \<le> 4 \<and> list_all (\<lambda>d. ops_send d \<noteq> None) (net_drivers s)
     \<and> length (arp_cache s) = 16 \<and> list_all (\<lambda>e. length (ae_mac e) = 6) (arp_cache s)
     \<and> length (sockets s) = 32 \<and> list_all socket_ok (sockets s)
     \<and> 49152 \<le> next_port s \<and> next_port s \<le> 65535"

lemma net_inv_sent [simp]: "net_inv (s\<lparr>sent := x\<rparr>) \<longleftrightarrow> net_inv s"
  by (simp add: net_inv_def)

lemma net_inv_sockets:
  "net_inv s \<Longrightarrow> length ss = 32 \<Longrightarrow> list_all socket_ok ss \<Longrightarrow> net_inv (s\<lparr>sockets := ss\<rparr>)"
  by (simp add: net_inv_def)

lemma list_all_update: "list_all P xs \<Longrightarrow> P x \<Longrightarrow> list_all P (xs[i := x])"
  using set_update_subset_insert [of xs i x] by (auto simp: list_all_iff)

lemma list_all_upd_at: "list_all P xs \<Longrightarrow> (i < length xs \<Longrightarrow> P (f (xs ! i))) \<Longrightarrow> list_all P (upd_at i f xs)"
  by (cases "i < length xs") (simp_all add: upd_at_def list_all_update list_update_beyond)

lemma net_inv_socket_update:
  "net_inv s \<Longrightarrow> socket_ok sk \<Longrightarrow> net_inv (s\<lparr>sockets := (sockets s)[i := sk]\<rparr>)"
  by (simp add: net_inv_def list_all_update)

lemma net_inv_socket_upd_at:
  "net_inv s \<Longrightarrow> (socket_ok (sockets s ! i) \<Longrightarrow> socket_ok (f (sockets s ! i))) \<Longrightarrow>
   net_inv (s\<lparr>sockets := upd_at i f (sockets s)\<rparr>)"
  by (simp add: net_inv_def) (metis list_all_upd_at list_all_length)

lemma net_inv_socketD: "net_inv s \<Longrightarrow> i < 32 \<Longrightarrow> socket_ok (sockets s ! i)"
  by (simp add: net_inv_def list_all_length)

lemma net_inv_ifaceD: "net_inv s \<Longrightarrow> netif_count s > 0 \<Longrightarrow> length (if_mac (netifs s ! 0)) = 6"
  by (simp add: net_inv_def list_all_length)

lemma net_inv_resolveD: "net_inv s \<Longrightarrow> brights_arp_resolve ip s = Some mac \<Longrightarrow> length mac = 6"
  by (auto simp: net_inv_def brights_arp_resolve_def arp_cache_find_def list_all_length
      dest: first_idx_SomeD split: option.splits)

subsection \<open>Transmission\<close>

text \<open>The driver a frame goes to: that of the first interface that is up.\<close>

definition link :: "net \<Rightarrow> nat option" where
  "link s = (case first_idx if_up (take (netif_count s) (netifs s)) of
               None \<Rightarrow> None | Some i \<Rightarrow> map_option fst (brights_net_get_driver (int i) s))"

definition outgoing :: "net \<Rightarrow> u8 list \<Rightarrow> (nat \<times> u8 list) list" where
  "outgoing s f = (case link s of None \<Rightarrow> [] | Some k \<Rightarrow> [(k, f)])"

lemma get_driver_send:
  "net_inv s \<Longrightarrow> brights_net_get_driver i s = Some (k, d) \<Longrightarrow> \<exists>f. ops_send d = Some f"
  by (auto simp: brights_net_get_driver_def net_inv_def list_all_length Let_def split: if_splits)

lemma net_send_exact:
  assumes "net_inv s" "0 < len" "unat len \<le> 1518" "unat len \<le> length frame"
  shows "\<exists>r. brights_net_send frame len s = Some (s\<lparr>sent := sent s @ outgoing s (take (unat len) frame)\<rparr>, r)"
proof -
  have "len \<noteq> 0" using assms(2) by auto
  then show ?thesis
    using assms get_driver_send [OF assms(1)]
    by (fastforce simp: brights_net_send_def BRIGHTS_NET_BUF_SIZE_def outgoing_def link_def bytes_at_def
        split: option.splits)
qed

lemma put_empty:
  "length bs = n \<Longrightarrow> n \<le> 1518 \<Longrightarrow> put_bytes 0 bs empty_frame = Some (bs @ replicate (1518 - n) 0)"
  by (simp add: put_bytes_def empty_frame_def BRIGHTS_NET_BUF_SIZE_def)

lemma put_next:
  "length a = m \<Longrightarrow> length b = n \<Longrightarrow> n \<le> k \<Longrightarrow>
   put_bytes m b (a @ replicate k 0) = Some (a @ b @ replicate (k - n) 0)"
  by (simp add: put_bytes_def)

definition arp_frame :: "u8 list \<Rightarrow> brights_netif_t \<Rightarrow> u16 \<Rightarrow> u8 list \<Rightarrow> u32 \<Rightarrow> u8 list" where
  "arp_frame dst iface op tmac ip =
     eth_bytes \<lparr>eth_dst = dst, eth_src = if_mac iface, eth_type = 0x0608\<rparr>
     @ arp_bytes \<lparr>hw_type = 0x0100, proto_type = 0x0008, hw_size = 6, proto_size = 4, opcode = op,
                  sender_mac = if_mac iface, sender_ip = if_ip_addr iface, target_mac = tmac, target_ip = ip\<rparr>"

lemma length_arp_frame [simp]:
  "length dst = 6 \<Longrightarrow> length (if_mac i) = 6 \<Longrightarrow> length tm = 6 \<Longrightarrow> length (arp_frame dst i op tm ip) = 42"
  by (simp add: arp_frame_def)

lemma arp_frame_sent:
  assumes "net_inv s" "length dst = 6" "length (if_mac i) = 6" "length tm = 6"
  shows "\<exists>f1 f2 r. put_bytes 0 (eth_bytes \<lparr>eth_dst = dst, eth_src = if_mac i, eth_type = 0x0608\<rparr>) empty_frame = Some f1
      \<and> put_bytes 14 (arp_bytes \<lparr>hw_type = 0x0100, proto_type = 0x0008, hw_size = 6, proto_size = 4, opcode = op,
                  sender_mac = if_mac i, sender_ip = if_ip_addr i, target_mac = tm, target_ip = ip\<rparr>) f1 = Some f2
      \<and> brights_net_send f2 42 s = Some (s\<lparr>sent := sent s @ outgoing s (arp_frame dst i op tm ip)\<rparr>, r)"
proof -
  let ?e = "eth_bytes \<lparr>eth_dst = dst, eth_src = if_mac i, eth_type = 0x0608\<rparr>"
  let ?a = "arp_bytes \<lparr>hw_type = 0x0100, proto_type = 0x0008, hw_size = 6, proto_size = 4, opcode = op,
                  sender_mac = if_mac i, sender_ip = if_ip_addr i, target_mac = tm, target_ip = ip\<rparr>"
  have len: "length ?e = 14" "length ?a = 28" using assms by simp_all
  have "\<exists>r. brights_net_send (?e @ ?a @ replicate 1476 0) 42 s
      = Some (s\<lparr>sent := sent s @ outgoing s (take 42 (?e @ ?a @ replicate 1476 0))\<rparr>, r)"
    using net_send_exact [OF assms(1), of 42 "?e @ ?a @ replicate 1476 0"] len by simp
  moreover have "take 42 (?e @ ?a @ replicate 1476 0) = arp_frame dst i op tm ip"
    using len by (simp add: arp_frame_def)
  ultimately show ?thesis
    using put_empty [OF len(1)] put_next [OF len(1,2), of 1504] by simp
qed

lemma arp_request_exact:
  assumes "net_inv s" "netif_count s > 0"
  shows "brights_arp_request ip s
    = Some (s\<lparr>sent := sent s @ outgoing s (arp_frame (replicate 6 0xFF) (netifs s ! 0) 0x0100 (replicate 6 0) ip)\<rparr>, 0)"
  using arp_frame_sent [OF assms(1), of "replicate 6 0xFF" "netifs s ! 0" "replicate 6 0" "0x0100" ip]
    net_inv_ifaceD [OF assms] assms(2)
  by (auto simp: brights_arp_request_def Let_def)

definition ip_frame :: "u8 list \<Rightarrow> brights_netif_t \<Rightarrow> u32 \<Rightarrow> u8 \<Rightarrow> u8 list \<Rightarrow> u8 list" where
  "ip_frame mac iface dst proto d =
     eth_bytes \<lparr>eth_dst = mac, eth_src = if_mac iface, eth_type = 0x0008\<rparr>
     @ ip_bytes (ip_header_sum (ip_header (if_ip_addr iface) dst proto (of_nat (length d)))) @ d"

lemma length_ip_frame [simp]:
  "length mac = 6 \<Longrightarrow> length (if_mac i) = 6 \<Longrightarrow> length (ip_frame mac i dst p d) = 34 + length d"
  by (simp add: ip_frame_def)

lemma ip_send_exact:
  assumes inv: "net_inv s" and up: "netif_count s > 0" and d: "unat len \<le> length d" "unat len \<le> 1484"
  shows "brights_ip_send dst proto (Some d) len s =
    (case brights_arp_resolve dst s of
       None \<Rightarrow> Some (s\<lparr>sent := sent s @ outgoing s (arp_frame (replicate 6 0xFF) (netifs s ! 0) 0x0100 (replicate 6 0) dst)\<rparr>, -1)
     | Some mac \<Rightarrow> Some (s\<lparr>sent := sent s @ outgoing s (ip_frame mac (netifs s ! 0) dst proto (take (unat len) d))\<rparr>, 0))"
proof -
  let ?i = "netifs s ! 0"
  let ?h = "ip_bytes (ip_header_sum (ip_header (if_ip_addr ?i) dst proto len))"
  let ?p = "take (unat len) d"
  have h: "length ?h = 20" by simp
  have f1: "put_bytes 14 ?h empty_frame = Some (replicate 14 0 @ ?h @ replicate 1484 0)"
    by (simp add: put_bytes_def empty_frame_def BRIGHTS_NET_BUF_SIZE_def)
  have f2: "(if len > 0 then do { bs \<leftarrow> bytes_at d 0 (unat len); put_bytes 34 bs (replicate 14 0 @ ?h @ replicate 1484 0) }
      else Some (replicate 14 0 @ ?h @ replicate 1484 0)) = Some (replicate 14 0 @ ?h @ ?p @ replicate (1484 - unat len) 0)"
    using d h put_next [of "replicate 14 0 @ ?h" 34 ?p "unat len" 1484]
    by (auto simp: bytes_at_def word_gt_0 min_absorb2)
  have plen: "length ?p = unat len" using d(1) by simp
  have hdr: "ip_frame mac ?i dst proto ?p = eth_bytes \<lparr>eth_dst = mac, eth_src = if_mac ?i, eth_type = 0x0008\<rparr> @ ?h @ ?p" for mac
    using plen by (simp add: ip_frame_def)
  show ?thesis
  proof (cases "brights_arp_resolve dst s")
    case None
    then show ?thesis using up f1 f2 arp_request_exact [OF inv up]
      by (simp add: brights_ip_send_def Let_def)
  next
    case (Some mac)
    let ?e = "eth_bytes \<lparr>eth_dst = mac, eth_src = if_mac ?i, eth_type = 0x0008\<rparr>"
    let ?f = "?e @ ?h @ ?p @ replicate (1484 - unat len) 0"
    have e: "length ?e = 14" using net_inv_resolveD [OF inv Some] net_inv_ifaceD [OF inv up] by simp
    have f3: "put_bytes 0 ?e (replicate 14 0 @ ?h @ ?p @ replicate (1484 - unat len) 0) = Some ?f"
      using e by (simp add: put_bytes_def)
    have un: "unat (14 + (20 + len)) = 34 + unat len"
      using d(2) unat_add_lem [of 34 len] by (simp flip: add.assoc)
    have "\<exists>r. brights_net_send ?f (14 + (20 + len)) s
        = Some (s\<lparr>sent := sent s @ outgoing s (take (34 + unat len) ?f)\<rparr>, r)"
    proof -
      have pos: "0 < 14 + (20 + len)" unfolding word_less_nat_alt un by simp
      have b: "unat (14 + (20 + len)) \<le> 1518" "unat (14 + (20 + len)) \<le> length ?f"
        unfolding un using e h plen d(2) by simp_all
      show ?thesis using net_send_exact [OF inv pos b] unfolding un .
    qed
    moreover have "take (34 + unat len) ?f = ip_frame mac ?i dst proto ?p" using e h plen by (simp add: hdr)
    ultimately show ?thesis using Some up f1 f2 f3
      by (auto simp: brights_ip_send_def Let_def)
  qed
qed

lemma ip_header_verifies:
  assumes "checksum h = 0"
  shows "ip_checksum (ip_bytes (ip_header_sum h)) = 0"
proof -
  define pre where "pre = [ver_ihl h, tos h] @ le16 (total_len h) @ le16 (ident h) @ le16 (flags_frag h) @ [ttl h, protocol h]"
  define post where "post = le32 (src_ip h) @ le32 (dst_ip h)"
  have z: "le16 0 = [0, 0]" by (simp add: le16_def)
  have "ip_bytes h = pre @ [0, 0] @ post" using assms z by (simp add: ip_bytes_def pre_def post_def)
  moreover have "ip_bytes (ip_header_sum h) = pre @ le16 (ip_checksum (ip_bytes h)) @ post"
    by (simp add: ip_bytes_def ip_header_sum_def pre_def post_def)
  moreover have "even (length pre)" "length pre + length post + 2 \<le> 131072" by (simp_all add: pre_def post_def)
  ultimately show ?thesis using ip_checksum_fills_in [of pre post] by simp
qed

subsection \<open>ARP\<close>

lemma arp_cache_add_frame [simp]:
  "netifs (fst (arp_cache_add ip mac s)) = netifs s" "netif_count (fst (arp_cache_add ip mac s)) = netif_count s"
  "net_drivers (fst (arp_cache_add ip mac s)) = net_drivers s" "sent (fst (arp_cache_add ip mac s)) = sent s"
  "sockets (fst (arp_cache_add ip mac s)) = sockets s"
  by (simp_all add: arp_cache_add_def split: option.split)

lemma link_cong:
  "netifs t = netifs s \<Longrightarrow> netif_count t = netif_count s \<Longrightarrow> net_drivers t = net_drivers s \<Longrightarrow> link t = link s"
  by (simp add: link_def brights_net_get_driver_def Let_def split: option.split)

lemma outgoing_arp_add [simp]: "outgoing (fst (arp_cache_add ip mac s)) f = outgoing s f"
  using link_cong [of "fst (arp_cache_add ip mac s)" s] by (simp add: outgoing_def)

lemma arp_cache_add_inv: "net_inv s \<Longrightarrow> length mac = 6 \<Longrightarrow> net_inv (fst (arp_cache_add ip mac s))"
  by (auto simp: arp_cache_add_def net_inv_def list_all_upd_at split: option.split)

lemma arp_add_resolve:
  assumes "brights_arp_resolve ip s = None" "\<exists>e \<in> set (arp_cache s). \<not> ae_valid e" "length mac = 6"
  shows "brights_arp_resolve ip (fst (arp_cache_add ip mac s)) = Some mac"
proof -
  have none: "\<forall>e \<in> set (arp_cache s). \<not> (ae_valid e \<and> ae_ip e = ip)"
    using assms(1) by (auto simp: brights_arp_resolve_def arp_cache_find_def first_idx_None split: option.splits)
  obtain i where i: "first_idx (\<lambda>e. \<not> ae_valid e) (arp_cache s) = Some i"
    using assms(2) by (metis first_idx_None not_None_eq)
  then have "i < length (arp_cache s)" by (simp add: first_idx_Some)
  then have "first_idx (\<lambda>e. ae_valid e \<and> ae_ip e = ip)
      (upd_at i (\<lambda>e. \<lparr>ae_ip = ip, ae_mac = take 6 mac, ae_valid = True\<rparr>) (arp_cache s)) = Some i"
    using none by (auto simp: first_idx_Some)
  then show ?thesis
    using i assms(3) \<open>i < length (arp_cache s)\<close> by (simp add: brights_arp_resolve_def arp_cache_find_def arp_cache_add_def)
qed

lemma hdr_of_bytes [simp]:
  "length (eth_dst e) = 6 \<Longrightarrow> length (eth_src e) = 6 \<Longrightarrow> eth_of (eth_bytes e) = e"
  "length (sender_mac a) = 6 \<Longrightarrow> length (target_mac a) = 6 \<Longrightarrow> arp_of (arp_bytes a) = a"
  "ip_of (ip_bytes i) = i" "icmp_of (icmp_bytes c) = c" "udp_of (udp_bytes u) = u" "tcp_of (tcp_bytes t) = t"
  using eth_of_bytes [of e "[]"] arp_of_bytes [of a "[]"] ip_of_bytes [of i "[]"] icmp_of_bytes [of c "[]"]
    udp_of_bytes [of u "[]"] tcp_of_bytes [of t "[]"] by simp_all

lemma arp_recv:
  assumes inv: "net_inv s" and up: "netif_count s > 0"
    and len: "length dst = 6" "length (if_mac i) = 6" "length tm = 6"
  shows "brights_net_recv (arp_frame dst i op tm ip @ pad) 42 s =
    (let s1 = fst (arp_cache_add (if_ip_addr i) (if_mac i) s) in
     Some (if op = 0x0100 \<and> ip = if_ip_addr (netifs s ! 0)
           then s1\<lparr>sent := sent s @ outgoing s (arp_frame (if_mac i) (netifs s ! 0) 0x0200 (if_mac i) (if_ip_addr i))\<rparr>
           else s1))"
proof -
  let ?e = "eth_bytes \<lparr>eth_dst = dst, eth_src = if_mac i, eth_type = 0x0608\<rparr>"
  let ?h = "\<lparr>hw_type = 0x0100, proto_type = 0x0008, hw_size = 6, proto_size = 4, opcode = op,
             sender_mac = if_mac i, sender_ip = if_ip_addr i, target_mac = tm, target_ip = ip\<rparr>"
  let ?s1 = "fst (arp_cache_add (if_ip_addr i) (if_mac i) s)"
  have f: "arp_frame dst i op tm ip @ pad = ?e @ arp_bytes ?h @ pad" by (simp add: arp_frame_def)
  have e: "length ?e = 14" "length (arp_bytes ?h) = 28" using len by simp_all
  have at: "bytes_at (?e @ arp_bytes ?h @ pad) 0 14 = Some ?e" "bytes_at (?e @ arp_bytes ?h @ pad) 14 28 = Some (arp_bytes ?h)"
    using e by (simp_all add: bytes_at_def)
  have "bswap16 0x0608 = ETH_TYPE_ARP" by (simp add: bswap16_def ETH_TYPE_ARP_def)
  then have "brights_net_recv (arp_frame dst i op tm ip @ pad) 42 s = arp_handle (?e @ arp_bytes ?h @ pad) 42 s"
    using len by (simp add: brights_net_recv_def f at)
  moreover obtain f1 f2 r where "put_bytes 0 (eth_bytes \<lparr>eth_dst = if_mac i, eth_src = if_mac (netifs s ! 0), eth_type = 0x0608\<rparr>) empty_frame = Some f1"
    "put_bytes 14 (arp_bytes \<lparr>hw_type = 0x0100, proto_type = 0x0008, hw_size = 6, proto_size = 4, opcode = 0x0200,
       sender_mac = if_mac (netifs s ! 0), sender_ip = if_ip_addr (netifs s ! 0), target_mac = if_mac i, target_ip = if_ip_addr i\<rparr>) f1 = Some f2"
    "brights_net_send f2 42 ?s1 = Some (?s1\<lparr>sent := sent ?s1 @ outgoing ?s1 (arp_frame (if_mac i) (netifs s ! 0) 0x0200 (if_mac i) (if_ip_addr i))\<rparr>, r)"
    using arp_frame_sent [OF arp_cache_add_inv [OF inv len(2)] len(2) net_inv_ifaceD [OF inv up] len(2)] by blast
  ultimately show ?thesis using up len by (simp add: arp_handle_def Let_def at)
qed

subsection \<open>Delivery of IP packets\<close>

text \<open>The length \<open>ip_handle\<close> computes for a packet whose sender wrote the length \<open>t\<close>: the swap is done
  in an \<open>int\<close> and not cut back to 16 bits, so the low byte appears a second time at bit 16.\<close>

lemma swapped_length:
  assumes "unat (t :: u32) < 65536"
  shows "(let w = (ucast (ucast (drop_bit 8 t OR push_bit 8 t) :: u16) :: u32) in drop_bit 8 w OR push_bit 8 w)
    = t + push_bit 16 (t AND 0xFF)"
proof -
  have hi: "\<not> bit t n" if "16 \<le> n" for n
  proof -
    have "t = take_bit 16 t" using assms by (simp add: take_bit_eq_mod word_unat_eq_iff unat_mod_distrib)
    then show ?thesis using that by (metis bit_take_bit_iff not_less)
  qed
  have "t + push_bit 16 (t AND 0xFF) = t OR push_bit 16 (t AND 0xFF)"
  proof (rule disjunctive_add_eq_or)
    show "t AND push_bit 16 (t AND 0xFF) = 0"
      by (rule bit_word_eqI) (auto simp: bit_and_iff bit_push_bit_iff hi)
  qed
  moreover have "(let w = (ucast (ucast (drop_bit 8 t OR push_bit 8 t) :: u16) :: u32) in drop_bit 8 w OR push_bit 8 w)
      = t OR push_bit 16 (t AND 0xFF)"
  proof (rule bit_word_eqI)
    fix i
    assume "i < LENGTH(32)"
    then obtain j where j: "j < 8" "i = j \<or> i = j + 8 \<or> i = j + 16 \<or> i = j + 24" using byte_split [of i] by auto
    show "bit (let w = (ucast (ucast (drop_bit 8 t OR push_bit 8 t) :: u16) :: u32) in drop_bit 8 w OR push_bit 8 w) i
        = bit (t OR push_bit 16 (t AND 0xFF)) i"
      using j hi unfolding Let_def bit_or_iff bit_and_iff htonl_mask_bits bit_push_bit_iff bit_drop_bit_eq bit_ucast_iff comp_def
      by (elim disjE) (simp_all add: add.commute)
  qed
  ultimately show ?thesis by simp
qed

definition ip_dispatch :: "u8 \<Rightarrow> u8 list \<Rightarrow> u32 \<Rightarrow> u32 \<Rightarrow> net \<Rightarrow> net option" where
  "ip_dispatch proto data len src s =
     (if proto = IP_PROTO_ICMP then icmp_handle data len src s
      else if proto = IP_PROTO_UDP then udp_handle data len src s
      else if proto = IP_PROTO_TCP then tcp_handle data len src s
      else Some s)"

lemma unat_of_nat_u32: "n < 4294967296 \<Longrightarrow> unat (of_nat n :: u32) = n"
  by (simp add: unsigned_of_nat take_bit_nat_eq_self)

lemma ip_handle_dispatch:
  assumes "bytes_at frame 14 20 = Some (ip_bytes h)" "\<not> len < 34" "ver_ihl h = 0x45"
    "netif_count s > 0" "dst_ip h = if_ip_addr (netifs s ! 0)"
  shows "ip_handle frame len s = ip_dispatch (protocol h) (drop 34 frame)
    ((let w = (ucast (total_len h) :: u32) in drop_bit 8 w OR push_bit 8 w) - 20) (src_ip h) s"
  using assms by (simp add: ip_handle_def ip_dispatch_def Let_def)

lemma ip_recv:
  assumes up: "netif_count s > 0" and mine: "if_ip_addr (netifs s ! 0) = dst"
    and len: "length mac = 6" "length (if_mac i) = 6" "length d \<le> 1484"
  shows "brights_net_recv (ip_frame mac i dst proto d @ pad) (of_nat (34 + length d)) s =
    ip_dispatch proto (d @ pad)
      (of_nat (length d) + push_bit 16 ((20 + of_nat (length d)) AND 0xFF)) (if_ip_addr i) s"
proof -
  let ?e = "eth_bytes \<lparr>eth_dst = mac, eth_src = if_mac i, eth_type = 0x0008\<rparr>"
  let ?h = "ip_header_sum (ip_header (if_ip_addr i) dst proto (of_nat (length d)))"
  let ?f = "?e @ ip_bytes ?h @ d @ pad"
  let ?t = "20 + of_nat (length d) :: u32"
  have un: "unat (of_nat (34 + length d) :: u32) = 34 + length d" "unat ?t = 20 + length d"
    using len(3) unat_of_nat_u32 [of "34 + length d"] unat_of_nat_u32 [of "20 + length d"] by simp_all
  have big: "\<not> (of_nat (34 + length d) :: u32) < 14" "\<not> (of_nat (34 + length d) :: u32) < 34"
    unfolding word_less_nat_alt un by simp_all
  have f: "ip_frame mac i dst proto d @ pad = ?f" by (simp add: ip_frame_def)
  have e: "length ?e = 14" using len by simp
  have at: "bytes_at ?f 0 14 = Some ?e" "bytes_at ?f 14 20 = Some (ip_bytes ?h)" "drop 34 ?f = d @ pad"
    using e by (simp_all add: bytes_at_def)
  have "bswap16 0x0008 = ETH_TYPE_IP" "ETH_TYPE_IP \<noteq> ETH_TYPE_ARP" by (simp_all add: bswap16_def ETH_TYPE_IP_def ETH_TYPE_ARP_def)
  then have "brights_net_recv ?f (of_nat (34 + length d)) s = ip_handle ?f (of_nat (34 + length d)) s"
    using len big by (simp add: brights_net_recv_def at del: of_nat_add of_nat_numeral)
  also have "\<dots> = ip_dispatch proto (d @ pad) (?t + push_bit 16 (?t AND 0xFF) - 20) (if_ip_addr i) s"
  proof -
    have fields: "ver_ihl ?h = 0x45" "total_len ?h = ucast (drop_bit 8 ?t OR push_bit 8 ?t)" "dst_ip ?h = dst"
      "src_ip ?h = if_ip_addr i" "protocol ?h = proto"
      by (simp_all add: ip_header_sum_def ip_header_def Let_def)
    have "unat ?t < 65536" using un len(3) by simp
    from swapped_length [OF this] show ?thesis
      using ip_handle_dispatch [OF at(2) big(2) fields(1) up] fields mine unfolding at(3) by simp
  qed
  also have "?t + push_bit 16 (?t AND 0xFF) - 20 = of_nat (length d) + push_bit 16 (?t AND 0xFF)" by simp
  finally show ?thesis by (simp only: f)
qed

subsection \<open>The invariant under every operation\<close>

lemma sent_same [simp]: "s\<lparr>sent := sent s\<rparr> = s"
  by simp

lemma net_send_shape: "brights_net_send f n s = Some (t, r) \<Longrightarrow> \<exists>e. t = s\<lparr>sent := e\<rparr>"
  by (auto simp: brights_net_send_def bind_eq_Some_conv split: if_splits option.splits prod.splits intro: exI [of _ "sent s"])

lemma arp_request_shape: "brights_arp_request ip s = Some (t, r) \<Longrightarrow> \<exists>e. t = s\<lparr>sent := e\<rparr>"
  by (auto simp: brights_arp_request_def Let_def bind_eq_Some_conv split: if_splits
      intro: exI [of _ "sent s"] dest: net_send_shape)

lemma ip_send_shape: "brights_ip_send dst p d n s = Some (t, r) \<Longrightarrow> \<exists>e. t = s\<lparr>sent := e\<rparr>"
  by (auto simp: brights_ip_send_def Let_def bind_eq_Some_conv split: if_splits option.splits
      intro: exI [of _ "sent s"] dest: net_send_shape arp_request_shape)

lemma ip_send_inv: "brights_ip_send dst p d n s = Some (t, r) \<Longrightarrow> net_inv s \<Longrightarrow> net_inv t"
  using ip_send_shape by fastforce

lemma ip_send_total:
  assumes "net_inv s" "unat len \<le> length d" "unat len \<le> 1484"
  shows "\<exists>e r. brights_ip_send dst p (Some d) len s = Some (s\<lparr>sent := e\<rparr>, r)"
proof (cases "netif_count s > 0")
  case True
  then show ?thesis using ip_send_exact [OF assms(1) True assms(2,3)] by (auto split: option.splits)
next
  case False
  then show ?thesis by (auto simp: brights_ip_send_def intro: exI [of _ "sent s"])
qed

lemma alloc_port_inv:
  assumes "net_inv s"
  shows "net_inv (fst (alloc_port s))" "sockets (fst (alloc_port s)) = sockets s" "netifs (fst (alloc_port s)) = netifs s"
    "netif_count (fst (alloc_port s)) = netif_count s"
proof -
  have b: "49152 \<le> unat (next_port s)" "unat (next_port s) \<le> 65535"
    using assms by (simp_all add: net_inv_def word_le_nat_alt)
  then have "unat (next_port s + 1) = unat (next_port s) + 1" using unat_add_lem [of "next_port s" 1] by simp
  then show "net_inv (fst (alloc_port s))"
    using assms b by (auto simp: alloc_port_def net_inv_def Let_def word_le_nat_alt word_less_nat_alt)
qed (simp_all add: alloc_port_def Let_def)

lemma first_idx_less: "first_idx P xs = Some i \<Longrightarrow> i < length xs"
  by (simp add: first_idx_Some)

lemma tcp_connect_total:
  assumes inv: "net_inv s"
  shows "\<exists>t r. brights_tcp_connect dst port s = Some (t, r) \<and> net_inv t"
proof (cases "first_idx (\<lambda>sk. \<not> sk_in_use sk) (sockets s)")
  case (Some i)
  have i: "i < 32" using first_idx_less [OF Some] inv by (simp add: net_inv_def)
  obtain s1 p where a: "alloc_port s = (s1, p)" by fastforce
  have s1: "net_inv s1" "sockets s1 = sockets s" using alloc_port_inv [OF inv] a by auto
  define sk where "sk = tcp_syn_socket dst port p s (sockets s ! i)"
  have "socket_ok sk" using net_inv_socketD [OF inv i] by (simp add: sk_def tcp_syn_socket_def socket_ok_def Let_def)
  then have inv2: "net_inv (s1\<lparr>sockets := (sockets s1)[i := sk]\<rparr>)" by (rule net_inv_socket_update [OF s1(1)])
  obtain e r where "brights_ip_send dst IP_PROTO_TCP
      (Some (tcp_bytes (tcp_segment (bswap16 p) (bswap16 port) (bswap32 (sk_tcp_seq sk)) 0 TCP_SYN))) 20
      (s1\<lparr>sockets := (sockets s1)[i := sk]\<rparr>) = Some (s1\<lparr>sockets := (sockets s1)[i := sk], sent := e\<rparr>, r)"
    using ip_send_total [OF inv2, of 20] by fastforce
  then show ?thesis using inv2 net_inv_sent by (simp add: brights_tcp_connect_def Some a Let_def flip: sk_def)
qed (simp add: brights_tcp_connect_def inv)

lemma sock_store_ok: "sock_store data off n sk = Some sk' \<Longrightarrow> socket_ok sk \<Longrightarrow> socket_ok sk'"
proof -
  assume a: "sock_store data off n sk = Some sk'" "socket_ok sk"
  then obtain bs buf where b: "bytes_at data off (unat n) = Some bs" "put_bytes (unat (sk_recv_len sk)) bs (sk_recv_buf sk) = Some buf"
    "sk' = sk\<lparr>sk_recv_buf := buf, sk_recv_len := sk_recv_len sk + n\<rparr>"
    by (auto simp: sock_store_def bind_eq_Some_conv)
  have "length bs = unat n" using b(1) by (auto simp: bytes_at_def split: if_splits)
  then have "unat (sk_recv_len sk) + unat n \<le> 4096" "length buf = 4096"
    using a(2) b(2) by (auto simp: put_bytes_def socket_ok_def split: if_splits)
  moreover from this have "unat (sk_recv_len sk + n) = unat (sk_recv_len sk) + unat n"
    using unat_add_lem [of "sk_recv_len sk" n] by simp
  ultimately show ?thesis using b(3) by (simp add: socket_ok_def word_le_nat_alt)
qed

lemma bytes_at_length: "bytes_at buf off n = Some bs \<Longrightarrow> length bs = n"
  by (auto simp: bytes_at_def split: if_splits)

lemma length_arp_of [simp]: "length bs = 28 \<Longrightarrow> length (sender_mac (arp_of bs)) = 6"
  by (simp add: arp_of_def)

lemma arp_handle_inv:
  assumes "arp_handle frame len s = Some t" "net_inv s"
  shows "net_inv t"
proof -
  have add: "net_inv (fst (arp_cache_add ip (sender_mac (arp_of bs)) s))" if "bytes_at frame 14 28 = Some bs" for bs ip
    using that assms(2) bytes_at_length arp_cache_add_inv by simp
  show ?thesis
    using assms add
    by (fastforce simp: arp_handle_def Let_def bind_eq_Some_conv split: if_splits dest!: net_send_shape)
qed

lemma icmp_handle_inv: "icmp_handle data len src s = Some t \<Longrightarrow> net_inv s \<Longrightarrow> net_inv t"
  by (fastforce simp: icmp_handle_def Let_def bind_eq_Some_conv split: if_splits dest: ip_send_inv)

lemma udp_deliver_ok: "udp_deliver data len src port sk = Some sk' \<Longrightarrow> socket_ok sk \<Longrightarrow> socket_ok sk'"
  by (auto simp: udp_deliver_def Let_def bind_eq_Some_conv socket_ok_def split: if_splits dest!: sock_store_ok)

lemma first_socket_ok:
  assumes "net_inv s" "first_idx P (sockets s) = Some i"
  shows "socket_ok (sockets s ! i)" "i < 32"
  using net_inv_socketD [OF assms(1)] first_idx_less [OF assms(2)] assms(1) by (simp_all add: net_inv_def)

lemma udp_handle_inv: "udp_handle data len src s = Some t \<Longrightarrow> net_inv s \<Longrightarrow> net_inv t"
  by (auto simp: udp_handle_def Let_def bind_eq_Some_conv split: if_splits option.splits
      intro!: net_inv_socket_update elim!: udp_deliver_ok intro: first_socket_ok)

lemma tcp_reply_inv: "tcp_reply i sk tcp flags src s = Some t \<Longrightarrow> net_inv s \<Longrightarrow> socket_ok sk \<Longrightarrow> net_inv t"
  by (auto simp: tcp_reply_def Let_def bind_eq_Some_conv dest!: ip_send_inv intro: net_inv_socket_update)

lemma tcp_data_inv: "tcp_data i data len tcp src s = Some t \<Longrightarrow> net_inv s \<Longrightarrow> i < 32 \<Longrightarrow> net_inv t"
  using net_inv_socketD [of s i]
  by (auto simp: tcp_data_def Let_def bind_eq_Some_conv split: if_splits dest!: sock_store_ok tcp_reply_inv)
    (simp_all add: socket_ok_def)

lemma tcp_handle_inv:
  assumes "tcp_handle data len src s = Some t" "net_inv s"
  shows "net_inv t"
proof -
  obtain bs where short: "len < 20 \<and> t = s \<or> \<not> len < 20 \<and> bytes_at data 0 20 = Some bs"
    using assms(1) by (auto simp: tcp_handle_def bind_eq_Some_conv split: if_splits)
  show ?thesis
  proof (cases "len < 20 \<or> first_idx (tcp_matches src (tcp_of bs)) (sockets s) = None")
    case True
    then show ?thesis using short assms by (auto simp: tcp_handle_def)
  next
    case False
    then obtain i where i: "first_idx (tcp_matches src (tcp_of bs)) (sockets s) = Some i" by auto
    note ok = first_socket_ok [OF assms(2) i]
    have ok': "socket_ok ((sockets s ! i)\<lparr>sk_tcp_state := a, sk_tcp_ack := b\<rparr>)" for a b
      using ok(1) by (simp add: socket_ok_def)
    show ?thesis
      using assms(1) False i short tcp_reply_inv [OF _ assms(2) ok'] tcp_data_inv [OF _ assms(2) ok(2)]
        net_inv_socket_update [OF assms(2) ok', of i] assms(2)
      by (simp add: tcp_handle_def Let_def split: if_splits) blast+
  qed
qed

lemma ip_handle_inv: "ip_handle frame len s = Some t \<Longrightarrow> net_inv s \<Longrightarrow> net_inv t"
  by (auto simp: ip_handle_def Let_def bind_eq_Some_conv split: if_splits
      intro: icmp_handle_inv udp_handle_inv tcp_handle_inv)

lemma net_recv_inv: "brights_net_recv frame len s = Some t \<Longrightarrow> net_inv s \<Longrightarrow> net_inv t"
  by (auto simp: brights_net_recv_def Let_def bind_eq_Some_conv split: if_splits intro: arp_handle_inv ip_handle_inv)

subsection \<open>The receive buffer of a socket\<close>

definition sk_held :: "brights_socket_t \<Rightarrow> u8 list" where
  "sk_held sk = take (unat (sk_recv_len sk)) (sk_recv_buf sk)"

lemma length_sk_held: "socket_ok sk \<Longrightarrow> length (sk_held sk) = unat (sk_recv_len sk)" "socket_ok sk \<Longrightarrow> unat (sk_recv_len sk) \<le> 4096"
  by (simp_all add: sk_held_def socket_ok_def word_le_nat_alt)

lemma shift_bytes_eq: "k + n \<le> length buf \<Longrightarrow> shift_bytes k n buf = take n (drop k buf) @ drop n buf"
proof (induction n)
  case (Suc n)
  then have IH: "fold (\<lambda>i b. b[i := b ! (i + k)]) [0..<n] buf = take n (drop k buf) @ drop n buf"
    by (simp add: shift_bytes_def)
  have "(take n (drop k buf) @ drop n buf) ! (n + k) = buf ! (n + k)" "drop n buf = buf ! n # drop (Suc n) buf"
    using Suc.prems by (simp_all add: nth_append Cons_nth_drop_Suc)
  moreover have "take (Suc n) (drop k buf) = take n (drop k buf) @ [buf ! (n + k)]"
    using Suc.prems by (simp add: take_Suc_conv_app_nth add.commute)
  ultimately show ?case
    using Suc.prems IH by (simp add: shift_bytes_def list_update_append)
qed (simp add: shift_bytes_def)

lemma sock_recv_law:
  assumes ok: "socket_ok sk"
  shows "\<exists>sk'. sock_recv len sk = (sk', take (unat len) (sk_held sk)) \<and> socket_ok sk' \<and> sk_held sk' = drop (unat len) (sk_held sk)
    \<and> sk_in_use sk' = sk_in_use sk \<and> sk_type sk' = sk_type sk \<and> sk_local_port sk' = sk_local_port sk"
proof (cases "sk_recv_len sk = 0")
  case True
  then show ?thesis using ok by (simp add: sock_recv_def sk_held_def)
next
  case False
  define n where "n = (if len > sk_recv_len sk then sk_recv_len sk else len)"
  have n: "unat n = min (unat len) (unat (sk_recv_len sk))" "unat n \<le> unat (sk_recv_len sk)"
    by (auto simp: n_def word_less_nat_alt word_le_nat_alt)
  have le: "unat (sk_recv_len sk) \<le> 4096" "length (sk_recv_buf sk) = 4096" using ok length_sk_held(2) by (auto simp: socket_ok_def)
  have minus: "unat (sk_recv_len sk - n) = unat (sk_recv_len sk) - unat n" using n(2) by (simp add: unat_sub word_le_nat_alt)
  define buf where "buf = (if n < sk_recv_len sk then shift_bytes (unat n) (unat (sk_recv_len sk) - unat n) (sk_recv_buf sk) else sk_recv_buf sk)"
  have buf: "length buf = 4096" "take (unat (sk_recv_len sk) - unat n) buf = drop (unat n) (sk_held sk)"
    using le n(2) by (auto simp: buf_def shift_bytes_eq sk_held_def word_less_nat_alt drop_take)
  have "sock_recv len sk = (sk\<lparr>sk_recv_buf := buf, sk_recv_len := sk_recv_len sk - n\<rparr>, take (unat n) (sk_recv_buf sk))"
    using False by (simp add: sock_recv_def Let_def n_def buf_def)
  moreover have "take (unat n) (sk_recv_buf sk) = take (unat len) (sk_held sk)" using n(1) by (simp add: sk_held_def)
  moreover have "drop (unat n) (sk_held sk) = drop (unat len) (sk_held sk)"
    using n(1) length_sk_held(1) [OF ok] by (simp add: min_def)
  moreover have "unat (sk_recv_len sk) - unat n \<le> 4096" using le by simp
  ultimately show ?thesis using buf minus by (simp add: socket_ok_def sk_held_def word_le_nat_alt)
qed

lemma udp_deliver_law:
  assumes ok: "socket_ok sk" and d: "length hdr = 8" "length bs \<le> 65527"
  shows "\<exists>sk'. udp_deliver (hdr @ bs) (of_nat (8 + length bs)) src port sk = Some sk' \<and> socket_ok sk'
    \<and> sk_held sk' = sk_held sk @ take (4096 - length (sk_held sk)) bs
    \<and> sk_in_use sk' = sk_in_use sk \<and> sk_type sk' = sk_type sk \<and> sk_local_port sk' = sk_local_port sk"
proof -
  let ?r = "unat (sk_recv_len sk)"
  define room where "room = 4096 - (ucast (sk_recv_len sk) :: u64)"
  define l where "l = (of_nat (8 + length bs) - 8 :: u32)"
  have r: "?r \<le> 4096" "length (sk_recv_buf sk) = 4096" using ok length_sk_held by (auto simp: socket_ok_def)
  have room: "unat room = 4096 - ?r" using r by (simp add: room_def unat_sub word_le_nat_alt)
  have l: "unat l = length bs" using d(2) by (simp add: l_def unat_of_nat_u32)
  define n where "n = (if (ucast l :: u64) > room then ucast room else l)"
  have ur: "unat (ucast room :: u32) = 4096 - ?r" using room by (simp add: unsigned_ucast_eq take_bit_nat_eq_self)
  have n: "unat n = min (length bs) (4096 - ?r)"
    using l room ur by (auto simp: n_def word_less_nat_alt)
  have held: "length (sk_held sk) = ?r" using length_sk_held [OF ok] by simp
  have eq: "udp_deliver (hdr @ bs) (of_nat (8 + length bs)) src port sk =
      (if n > 0 then do { sk' \<leftarrow> sock_store (hdr @ bs) 8 n sk; Some (sk'\<lparr>sk_remote_ip := src, sk_remote_port := port\<rparr>) }
       else Some sk)"
    unfolding udp_deliver_def Let_def n_def l_def room_def by (rule refl)
  show ?thesis
  proof (cases "n > 0")
    case True
    let ?p = "take (unat n) bs"
    have p: "bytes_at (hdr @ bs) 8 (unat n) = Some ?p" using d n by (simp add: bytes_at_def)
    have lp: "length ?p = unat n" using n by simp
    have "put_bytes ?r ?p (sk_recv_buf sk) = Some (take ?r (sk_recv_buf sk) @ ?p @ drop (?r + unat n) (sk_recv_buf sk))"
      using lp n r by (simp add: put_bytes_def)
    moreover have fits: "?r + unat n \<le> 4096" using n r by simp
    then have "unat (sk_recv_len sk + n) = ?r + unat n" using unat_add_lem [of "sk_recv_len sk" n] by simp
    moreover have "?p = take (4096 - ?r) bs" using n by (simp add: min_def)
    ultimately show ?thesis
      using True p lp r fits held unfolding eq sock_store_def
      by (simp add: socket_ok_def sk_held_def word_le_nat_alt)
  next
    case False
    then have "n = 0" by (simp add: word_gt_0)
    then have "length bs = 0 \<or> 4096 - ?r = 0" using n by (auto simp: min_def split: if_splits)
    then show ?thesis using False ok held unfolding eq by auto
  qed
qed

text \<open>A datagram for \<open>port\<close> with the given payload, the state in which socket \<open>i\<close> is the one bound to
  that port, and the two operations on it: handling the datagram and reading from the socket.\<close>

definition udp_dgram :: "u16 \<Rightarrow> u16 \<Rightarrow> u8 list \<Rightarrow> u8 list" where
  "udp_dgram sport port bs =
     udp_bytes \<lparr>udp_src_port = bswap16 sport, udp_dst_port = bswap16 port,
                udp_length = bswap16 (of_nat (8 + length bs)), udp_checksum = 0\<rparr> @ bs"

definition udp_bound :: "u16 \<Rightarrow> nat \<Rightarrow> net \<Rightarrow> bool" where
  "udp_bound port i s \<longleftrightarrow> net_inv s \<and>
     first_idx (\<lambda>sk. sk_in_use sk \<and> sk_type sk = 2 \<and> sk_local_port sk = port) (sockets s) = Some i"

definition udp_put :: "u16 \<Rightarrow> u16 \<Rightarrow> u32 \<Rightarrow> nat \<Rightarrow> net \<Rightarrow> u8 list \<Rightarrow> net \<times> int" where
  "udp_put sport port src i s bs =
     (case udp_handle (udp_dgram sport port bs) (of_nat (8 + length bs)) src s of
        None \<Rightarrow> (s, -1)
      | Some t \<Rightarrow> (t, int (unat (sk_recv_len (sockets t ! i))) - int (unat (sk_recv_len (sockets s ! i)))))"

definition sock_get :: "nat \<Rightarrow> net \<Rightarrow> nat \<Rightarrow> net \<times> u8 list" where
  "sock_get i s n = (case brights_recv (int i) (of_nat n) s of (t, r, out) \<Rightarrow> (t, out))"

definition udp_admissible :: "u8 list + nat \<Rightarrow> bool" where
  "udp_admissible op = (case op of Inl bs \<Rightarrow> length bs \<le> 65527 | Inr n \<Rightarrow> n < 4294967296)"

lemma first_idx_update_same: "first_idx P xs = Some i \<Longrightarrow> P x \<Longrightarrow> first_idx P (xs[i := x]) = Some i"
  by (auto simp: first_idx_Some)

lemma udp_bound_update:
  assumes "udp_bound port i s" "socket_ok sk" "sk_in_use sk = sk_in_use (sockets s ! i)" "sk_type sk = sk_type (sockets s ! i)"
    "sk_local_port sk = sk_local_port (sockets s ! i)"
  shows "udp_bound port i (s\<lparr>sockets := (sockets s)[i := sk]\<rparr>)"
proof -
  have f: "first_idx (\<lambda>sk. sk_in_use sk \<and> sk_type sk = 2 \<and> sk_local_port sk = port) (sockets s) = Some i" and inv: "net_inv s"
    using assms(1) by (auto simp: udp_bound_def)
  then have "sk_in_use sk \<and> sk_type sk = 2 \<and> sk_local_port sk = port"
    using assms(3-5) by (simp add: first_idx_Some)
  then show ?thesis using f inv assms(2) by (simp add: udp_bound_def first_idx_update_same net_inv_socket_update)
qed

lemma udp_boundD:
  assumes "udp_bound port i s"
  shows "net_inv s" "socket_ok (sockets s ! i)" "i < 32" "i < length (sockets s)" "\<not> bad_socket (int i) s"
    "first_idx (\<lambda>sk. sk_in_use sk \<and> sk_type sk = 2 \<and> sk_local_port sk = port) (sockets s) = Some i"
proof -
  show f: "first_idx (\<lambda>sk. sk_in_use sk \<and> sk_type sk = 2 \<and> sk_local_port sk = port) (sockets s) = Some i" and inv: "net_inv s"
    using assms by (auto simp: udp_bound_def)
  show "socket_ok (sockets s ! i)" "i < 32" by (rule first_socket_ok [OF inv f])+
  then show "i < length (sockets s)" "\<not> bad_socket (int i) s"
    using f inv by (simp_all add: bad_socket_def BRIGHTS_NET_MAX_SOCKETS_def first_idx_Some net_inv_def)
qed

lemma udp_put_law:
  assumes b: "udp_bound port i s" and len: "length bs \<le> 65527"
  shows "\<exists>p'. udp_put sport port src i s bs = (p', int (min (length bs) (4096 - length (sk_held (sockets s ! i)))))
    \<and> udp_bound port i p' \<and> sk_held (sockets p' ! i) = sk_held (sockets s ! i) @ take (4096 - length (sk_held (sockets s ! i))) bs"
proof -
  note D = udp_boundD [OF b]
  obtain sk where sk: "udp_deliver (udp_dgram sport port bs) (of_nat (8 + length bs)) src sport (sockets s ! i) = Some sk"
    "socket_ok sk" "sk_held sk = sk_held (sockets s ! i) @ take (4096 - length (sk_held (sockets s ! i))) bs"
    "sk_in_use sk = sk_in_use (sockets s ! i)" "sk_type sk = sk_type (sockets s ! i)" "sk_local_port sk = sk_local_port (sockets s ! i)"
    using udp_deliver_law [OF D(2) _ len] unfolding udp_dgram_def by (metis length_hdr(5))
  have big: "\<not> (of_nat (8 + length bs) :: u32) < 8"
    unfolding word_less_nat_alt using len unat_of_nat_u32 [of "8 + length bs"] by simp
  have "bytes_at (udp_dgram sport port bs) 0 8 = Some (take 8 (udp_dgram sport port bs))"
    by (simp add: bytes_at_def udp_dgram_def)
  moreover have "udp_of (take 8 (udp_dgram sport port bs)) = \<lparr>udp_src_port = bswap16 sport, udp_dst_port = bswap16 port,
      udp_length = bswap16 (of_nat (8 + length bs)), udp_checksum = 0\<rparr>"
    by (simp add: udp_dgram_def)
  ultimately have h: "udp_handle (udp_dgram sport port bs) (of_nat (8 + length bs)) src s = Some (s\<lparr>sockets := (sockets s)[i := sk]\<rparr>)"
    using big D(6) sk(1) by (simp add: udp_handle_def del: of_nat_add of_nat_numeral)
  have "int (unat (sk_recv_len sk)) - int (unat (sk_recv_len (sockets s ! i))) = int (min (length bs) (4096 - length (sk_held (sockets s ! i))))"
    using arg_cong [OF sk(3), of length] length_sk_held(1) [OF sk(2)] length_sk_held(1) [OF D(2)] by simp
  then show ?thesis
    using h D(4) sk udp_bound_update [OF b sk(2,4-6)] by (simp add: udp_put_def del: of_nat_add)
qed

lemma sock_get_law:
  assumes b: "udp_bound port i s" and n: "n < 4294967296"
  shows "\<exists>p'. sock_get i s n = (p', take n (sk_held (sockets s ! i))) \<and> udp_bound port i p'
    \<and> sk_held (sockets p' ! i) = drop n (sk_held (sockets s ! i))"
proof -
  note D = udp_boundD [OF b]
  have "unat (of_nat n :: u32) = n" using n by (simp add: unat_of_nat_u32)
  then obtain sk where sk: "sock_recv (of_nat n) (sockets s ! i) = (sk, take n (sk_held (sockets s ! i)))" "socket_ok sk"
      "sk_held sk = drop n (sk_held (sockets s ! i))" "sk_in_use sk = sk_in_use (sockets s ! i)"
      "sk_type sk = sk_type (sockets s ! i)" "sk_local_port sk = sk_local_port (sockets s ! i)"
    using sock_recv_law [OF D(2), of "of_nat n"] by auto
  then show ?thesis
    using D(4,5) udp_bound_update [OF b sk(2,4-6)] by (simp add: sock_get_def brights_recv_def)
qed

interpretation us: byte_stream "udp_put sport port src i" "sock_get i" "udp_bound port i"
  "\<lambda>s. sk_held (sockets s ! i)" 4096 udp_admissible for sport port src i
proof unfold_locales
  show "length (sk_held (sockets s ! i)) \<le> 4096" if "udp_bound port i s" for s
    using length_sk_held udp_boundD(2) [OF that] by simp
qed (simp_all add: udp_put_law sock_get_law udp_admissible_def)

subsection \<open>Sequences of calls\<close>

text \<open>Every function of \<open>net.h\<close> that changes the state of the stack, and the registration of a driver, as one step;
  the pure queries (\<open>brights_arp_resolve\<close>, \<open>brights_accept\<close>, the conversions of addresses) are left out.
  \<open>Call_frame\<close> is the reception of a frame by the driver.\<close>

datatype net_call =
    Call_init
  | Call_driver "brights_net_driver_t option"
  | Call_netif_add string "u8 list"
  | Call_set_ip string u32 u32 u32
  | Call_up string
  | Call_down string
  | Call_arp_request u32
  | Call_echo_request u32
  | Call_net_send "u8 list" u32
  | Call_ip_send u32 u8 "u8 list option" u32
  | Call_udp_send u32 u16 u16 "u8 list" u32
  | Call_tcp_connect u32 u16
  | Call_socket int int
  | Call_bind int u32 u16
  | Call_listen int
  | Call_connect int u32 u16
  | Call_send int "u8 list" u32
  | Call_recv int u32
  | Call_close int
  | Call_frame "u8 list" u32

fun net_exec :: "net_call \<Rightarrow> net \<Rightarrow> net option" where
  "net_exec Call_init s = Some (brights_net_init s)"
| "net_exec (Call_driver d) s = Some (fst (brights_net_register_driver d s))"
| "net_exec (Call_netif_add name mac) s = Some (fst (brights_netif_add name mac s))"
| "net_exec (Call_set_ip name ip netmask gateway) s = Some (fst (brights_netif_set_ip name ip netmask gateway s))"
| "net_exec (Call_up name) s = Some (fst (brights_netif_up name s))"
| "net_exec (Call_down name) s = Some (fst (brights_netif_down name s))"
| "net_exec (Call_arp_request ip) s = map_option fst (brights_arp_request ip s)"
| "net_exec (Call_echo_request ip) s = map_option fst (brights_icmp_echo_request ip s)"
| "net_exec (Call_net_send f len) s = map_option fst (brights_net_send f len s)"
| "net_exec (Call_ip_send dst pr d len) s = map_option fst (brights_ip_send dst pr d len s)"
| "net_exec (Call_udp_send dst sp dp d len) s = map_option fst (brights_udp_send dst sp dp d len s)"
| "net_exec (Call_tcp_connect dst dp) s = map_option fst (brights_tcp_connect dst dp s)"
| "net_exec (Call_socket domain ty) s = Some (fst (brights_socket domain ty s))"
| "net_exec (Call_bind fd a p) s = Some (fst (brights_bind fd a p s))"
| "net_exec (Call_listen fd) s = Some (fst (brights_listen fd s))"
| "net_exec (Call_connect fd a p) s = map_option fst (brights_connect fd a p s)"
| "net_exec (Call_send fd buf len) s = map_option fst (brights_send fd buf len s)"
| "net_exec (Call_recv fd len) s = Some (fst (brights_recv fd len s))"
| "net_exec (Call_close fd) s = map_option fst (brights_close fd s)"
| "net_exec (Call_frame f len) s = brights_net_recv f len s"

fun net_run :: "net_call list \<Rightarrow> net \<Rightarrow> net option" where
  "net_run [] s = Some s"
| "net_run (c # cs) s = net_exec c s \<bind> net_run cs"

text \<open>What a caller owes: an address of six bytes, and buffers of the length it names.\<close>

fun call_ok :: "net_call \<Rightarrow> bool" where
  "call_ok (Call_netif_add name mac) \<longleftrightarrow> length mac \<ge> 6"
| "call_ok (Call_net_send f len) \<longleftrightarrow> unat len \<le> length f"
| "call_ok (Call_ip_send dst pr (Some d) len) \<longleftrightarrow> unat len \<le> length d"
| "call_ok _ \<longleftrightarrow> True"

text \<open>The two calls that may access memory outside a buffer all the same.\<close>

fun may_fault :: "net_call \<Rightarrow> net \<Rightarrow> bool" where
  "may_fault (Call_frame f len) s \<longleftrightarrow> True"
| "may_fault (Call_ip_send dst pr (Some d) len) s \<longleftrightarrow> 1484 < unat len \<and> 0 < netif_count s"
| "may_fault _ s \<longleftrightarrow> False"

lemma may_fault_iff:
  "may_fault c s \<longleftrightarrow> (\<exists>f len. c = Call_frame f len)
     \<or> (\<exists>dst pr d len. c = Call_ip_send dst pr (Some d) len \<and> 1484 < unat len \<and> 0 < netif_count s)"
  by (cases "(c, s)" rule: may_fault.cases) auto

lemma init_inv:
  assumes "length (netifs s) = 4" "list_all (\<lambda>n. length (if_mac n) = 6) (netifs s)" "length (net_drivers s) \<le> 4"
    "list_all (\<lambda>d. ops_send d \<noteq> None) (net_drivers s)" "49152 \<le> next_port s" "next_port s \<le> 65535"
  shows "net_inv (brights_net_init s)"
  using assms
  by (simp add: net_inv_def brights_net_init_def BRIGHTS_ARP_CACHE_SIZE_def BRIGHTS_NET_MAX_SOCKETS_def zero_socket_def
      socket_ok_def list_all_iff)

lemma netif_update_inv: "net_inv s \<Longrightarrow> (\<And>n. if_mac (f n) = if_mac n) \<Longrightarrow> net_inv (fst (netif_update name f s))"
proof -
  assume a: "net_inv s" "\<And>n. if_mac (f n) = if_mac n"
  then have "list_all (\<lambda>n. length (if_mac n) = 6) (upd_at i f (netifs s))" for i
    by (intro list_all_upd_at) (simp_all add: net_inv_def list_all_length)
  then show ?thesis using a(1) by (simp add: netif_update_def net_inv_def split: option.split)
qed

lemma socket_calls_inv:
  assumes "net_inv s"
  shows "net_inv (fst (brights_socket domain ty s))" "net_inv (fst (brights_bind fd a p s))" "net_inv (fst (brights_listen fd s))"
    "net_inv (fst (brights_recv fd len s))"
proof -
  show "net_inv (fst (brights_socket domain ty s))"
    using assms first_socket_ok [OF assms]
    by (auto simp: brights_socket_def Let_def socket_ok_def split: option.split intro!: net_inv_socket_update)
  show "net_inv (fst (brights_bind fd a p s))" "net_inv (fst (brights_listen fd s))"
    using assms by (auto simp: brights_bind_def brights_listen_def socket_ok_def intro!: net_inv_socket_upd_at)
  show "net_inv (fst (brights_recv fd len s))"
  proof (cases "bad_socket fd s")
    case False
    then have "socket_ok (sockets s ! nat fd)"
      using net_inv_socketD [OF assms, of "nat fd"] by (simp add: bad_socket_def BRIGHTS_NET_MAX_SOCKETS_def nat_less_iff)
    then obtain sk out where "sock_recv len (sockets s ! nat fd) = (sk, out)" "socket_ok sk"
      using sock_recv_law by blast
    then show ?thesis using False assms by (simp add: brights_recv_def net_inv_socket_update)
  qed (simp add: brights_recv_def assms)
qed

lemma interface_calls_inv:
  assumes "net_inv s"
  shows "net_inv (fst (brights_net_register_driver d s))" "length mac \<ge> 6 \<Longrightarrow> net_inv (fst (brights_netif_add name mac s))"
    "net_inv (fst (brights_netif_set_ip name ip netmask gateway s))" "net_inv (fst (brights_netif_up name s))"
    "net_inv (fst (brights_netif_down name s))"
proof -
  show "net_inv (fst (brights_net_register_driver d s))"
    using assms by (auto simp: brights_net_register_driver_def net_inv_def BRIGHTS_NET_MAX_DRIVERS_def split: option.split)
  show "net_inv (fst (brights_netif_add name mac s))" if "length mac \<ge> 6"
    using assms that by (auto simp: brights_netif_add_def net_inv_def BRIGHTS_NET_MAX_IF_def intro!: list_all_update)
qed (simp_all add: brights_netif_set_ip_def brights_netif_up_def brights_netif_down_def netif_update_inv assms)

lemma sending_calls_total:
  assumes inv: "net_inv s"
  shows "\<exists>t. map_option fst (brights_arp_request ip s) = Some t \<and> net_inv t"
    "\<exists>t. map_option fst (brights_icmp_echo_request ip s) = Some t \<and> net_inv t"
    "\<exists>t. map_option fst (brights_connect fd a p s) = Some t \<and> net_inv t"
    "\<exists>t. map_option fst (brights_send fd buf len s) = Some t \<and> net_inv t"
    "\<exists>t. map_option fst (brights_close fd s) = Some t \<and> net_inv t"
proof -
  have send: "\<exists>t r. brights_ip_send dst pr (Some d) n s = Some (t, r) \<and> net_inv t" if "unat n = length d" "length d \<le> 20" for dst pr d n
    using ip_send_total [OF inv, of n d dst pr] that inv net_inv_sent by fastforce
  have tcp: "\<exists>t r. brights_ip_send dst IP_PROTO_TCP (Some (tcp_bytes h)) 20 s = Some (t, r) \<and> net_inv t" for dst h
    by (rule send) simp_all
  show "\<exists>t. map_option fst (brights_arp_request ip s) = Some t \<and> net_inv t"
    using arp_request_exact [OF inv, of ip] inv by (cases "netif_count s > 0") (simp_all add: brights_arp_request_def)
  show "\<exists>t. map_option fst (brights_icmp_echo_request ip s) = Some t \<and> net_inv t"
    using send [of 8] by (fastforce simp: brights_icmp_echo_request_def Let_def)
  have conn: "net_inv (s\<lparr>sockets := upd_at (nat fd) (\<lambda>sk. sk\<lparr>sk_remote_ip := a, sk_remote_port := p\<rparr>) (sockets s)\<rparr>)"
    by (rule net_inv_socket_upd_at [OF inv]) (simp add: socket_ok_def)
  show "\<exists>t. map_option fst (brights_connect fd a p s) = Some t \<and> net_inv t"
    using tcp_connect_total [OF conn, of a p] conn inv by (auto simp: brights_connect_def Let_def)
  have upd: "net_inv (t\<lparr>sockets := upd_at i (\<lambda>sk. sk\<lparr>sk_tcp_seq := f sk\<rparr>) (sockets t)\<rparr>)"
      "net_inv (t\<lparr>sockets := upd_at i (\<lambda>sk. sk\<lparr>sk_in_use := False\<rparr>) (sockets t)\<rparr>)" if "net_inv t" for t i f
    using that by (auto simp: socket_ok_def intro!: net_inv_socket_upd_at)
  show "\<exists>t. map_option fst (brights_send fd buf len s) = Some t \<and> net_inv t"
  proof -
    obtain t r where t: "brights_ip_send (sk_remote_ip (sockets s ! nat fd)) IP_PROTO_TCP
        (Some (tcp_bytes (sock_segment (sockets s ! nat fd) (TCP_ACK OR TCP_PSH)))) 20 s = Some (t, r)" "net_inv t"
      using tcp by blast
    have udp: "\<exists>t. map_option fst (brights_udp_send dst sp dp buf len s) = Some t \<and> net_inv t" for dst sp dp
      using send [of 8] by (fastforce simp: brights_udp_send_def Let_def)
    show ?thesis using t upd(1) [OF t(2)] udp inv by (auto simp: brights_send_def Let_def)
  qed
  show "\<exists>t. map_option fst (brights_close fd s) = Some t \<and> net_inv t"
  proof -
    obtain t r where t: "brights_ip_send (sk_remote_ip (sockets s ! nat fd)) IP_PROTO_TCP
        (Some (tcp_bytes (sock_segment (sockets s ! nat fd) (TCP_FIN OR TCP_ACK)))) 20 s = Some (t, r)" "net_inv t"
      using tcp by blast
    show ?thesis using t upd(2) [OF t(2)] upd(2) [OF inv] inv by (auto simp: brights_close_def Let_def)
  qed
qed

lemma net_send_total:
  assumes "net_inv s" "unat len \<le> length frame \<or> 1518 < unat len"
  shows "\<exists>e r. brights_net_send frame len s = Some (s\<lparr>sent := e\<rparr>, r)"
proof (cases "len = 0 \<or> 1518 < unat len")
  case True
  then show ?thesis by (auto simp: brights_net_send_def BRIGHTS_NET_BUF_SIZE_def intro: exI [of _ "sent s"])
next
  case False
  then show ?thesis using net_send_exact [OF assms(1), of len frame] assms(2) by (auto simp: word_gt_0)
qed

lemma ip_send_no_data:
  assumes "net_inv s"
  shows "\<exists>e r. brights_ip_send dst pr None len s = Some (s\<lparr>sent := e\<rparr>, r)"
proof (cases "netif_count s > 0")
  case True
  let ?h = "ip_bytes (ip_header_sum (ip_header (if_ip_addr (netifs s ! 0)) dst pr len))"
  let ?f = "replicate 14 0 @ ?h @ replicate 1484 0"
  have f1: "put_bytes 14 ?h empty_frame = Some ?f" by (simp add: put_bytes_def empty_frame_def BRIGHTS_NET_BUF_SIZE_def)
  show ?thesis
  proof (cases "brights_arp_resolve dst s")
    case None
    then show ?thesis using True f1 arp_request_exact [OF assms True] by (auto simp: brights_ip_send_def Let_def)
  next
    case (Some mac)
    let ?e = "eth_bytes \<lparr>eth_dst = mac, eth_src = if_mac (netifs s ! 0), eth_type = 0x0008\<rparr>"
    have "length mac = 6" using assms Some by (rule net_inv_resolveD)
    then have l: "length ?e = 14" using net_inv_ifaceD [OF assms True] by simp
    then have f2: "put_bytes 0 ?e ?f = Some (?e @ ?h @ replicate 1484 0)" by (simp add: put_bytes_def)
    obtain e r where "brights_net_send (?e @ ?h @ replicate 1484 0) (14 + (20 + len)) s = Some (s\<lparr>sent := e\<rparr>, r)"
      using net_send_total [OF assms, of "14 + (20 + len)" "?e @ ?h @ replicate 1484 0"] l by fastforce
    then show ?thesis using True Some f1 f2 by (auto simp: brights_ip_send_def Let_def)
  qed
qed (auto simp: brights_ip_send_def intro: exI [of _ "sent s"])

lemma datagram_calls_total:
  assumes inv: "net_inv s"
  shows "unat len \<le> length f \<Longrightarrow> \<exists>t. map_option fst (brights_net_send f len s) = Some t \<and> net_inv t"
    "\<exists>t. map_option fst (brights_udp_send dst sp dp d len s) = Some t \<and> net_inv t"
    "\<exists>t. map_option fst (brights_tcp_connect dst port s) = Some t \<and> net_inv t"
    "\<exists>t. map_option fst (brights_ip_send dst pr None len s) = Some t \<and> net_inv t"
    "unat len \<le> length d \<Longrightarrow> \<not> (1484 < unat len \<and> 0 < netif_count s) \<Longrightarrow>
      \<exists>t. map_option fst (brights_ip_send dst pr (Some d) len s) = Some t \<and> net_inv t"
proof -
  show "unat len \<le> length f \<Longrightarrow> \<exists>t. map_option fst (brights_net_send f len s) = Some t \<and> net_inv t"
    using net_send_total [OF inv, of len f] inv by auto
  show "\<exists>t. map_option fst (brights_udp_send dst sp dp d len s) = Some t \<and> net_inv t"
  proof -
    have u: "\<exists>t. map_option fst (brights_ip_send dst IP_PROTO_UDP (Some (udp_bytes h)) 8 s) = Some t \<and> net_inv t" for h
      using ip_send_total [OF inv, of 8 "udp_bytes h" dst IP_PROTO_UDP] inv by auto
    show ?thesis unfolding brights_udp_send_def Let_def by (rule u)
  qed
  show "\<exists>t. map_option fst (brights_tcp_connect dst port s) = Some t \<and> net_inv t"
    using tcp_connect_total [OF inv, of dst port] by auto
  show "\<exists>t. map_option fst (brights_ip_send dst pr None len s) = Some t \<and> net_inv t"
    using ip_send_no_data [OF inv, of dst pr len] inv by auto
  show "\<exists>t. map_option fst (brights_ip_send dst pr (Some d) len s) = Some t \<and> net_inv t"
    if "unat len \<le> length d" "\<not> (1484 < unat len \<and> 0 < netif_count s)"
  proof (cases "netif_count s > 0")
    case True
    then show ?thesis using ip_send_total [OF inv that(1), of dst pr] that(2) inv by auto
  qed (simp add: brights_ip_send_def inv)
qed

lemma ip_send_overruns:
  assumes "unat len \<le> length d" "1484 < unat len" "0 < netif_count s"
  shows "brights_ip_send dst pr (Some d) len s = None"
proof -
  let ?h = "ip_bytes (ip_header_sum (ip_header (if_ip_addr (netifs s ! 0)) dst pr len))"
  have "put_bytes 14 ?h empty_frame = Some (replicate 14 0 @ ?h @ replicate 1484 0)"
    by (simp add: put_bytes_def empty_frame_def BRIGHTS_NET_BUF_SIZE_def)
  moreover have "0 < len" using assms(2) by (auto simp: word_gt_0)
  ultimately show ?thesis using assms by (simp add: brights_ip_send_def Let_def bytes_at_def put_bytes_def)
qed

lemma net_exec_safe:
  assumes inv: "net_inv s" and ok: "call_ok c"
  shows "(\<exists>t. net_exec c s = Some t \<and> net_inv t) \<or> may_fault c s \<and> net_exec c s = None"
proof (cases c)
  case (Call_frame f len)
  then show ?thesis using net_recv_inv [OF _ inv, of f len] by (cases "brights_net_recv f len s") simp_all
next
  case (Call_ip_send dst pr d len)
  then show ?thesis
  proof (cases d)
    case (Some x)
    then show ?thesis using Call_ip_send ok datagram_calls_total(5) [OF inv, of len x dst pr]
      ip_send_overruns [of len x s dst pr] by (cases "1484 < unat len \<and> 0 < netif_count s") simp_all
  qed (use datagram_calls_total(4) [OF inv] in simp)
next
  case Call_init
  have "net_inv (brights_net_init s)" using inv by (intro init_inv) (simp_all add: net_inv_def)
  then show ?thesis using Call_init by simp
qed (use ok sending_calls_total [OF inv] datagram_calls_total(1-3) [OF inv] interface_calls_inv [OF inv] socket_calls_inv [OF inv]
    in simp_all)

lemma net_run_safe:
  assumes "net_inv s" "list_all call_ok cs"
  shows "(\<exists>t. net_run cs s = Some t \<and> net_inv t)
    \<or> (\<exists>pre c post u. cs = pre @ c # post \<and> net_run pre s = Some u \<and> net_inv u \<and> net_exec c u = None \<and> may_fault c u)"
  using assms
proof (induction cs arbitrary: s)
  case (Cons c cs)
  show ?case
  proof (cases "net_exec c s")
    case None
    then have "may_fault c s" using net_exec_safe [of s c] Cons.prems by auto
    then show ?thesis using None Cons.prems(1) by (intro disjI2 exI [of _ "[]"]) auto
  next
    case (Some t)
    then have t: "net_inv t" using net_exec_safe [of s c] Cons.prems by auto
    have "list_all call_ok cs" using Cons.prems(2) by simp
    from Cons.IH [OF t this] show ?thesis
    proof (elim disjE exE conjE)
      fix pre c' post u
      assume "cs = pre @ c' # post" "may_fault c' u" "net_run pre t = Some u" "net_inv u" "net_exec c' u = None"
      then show ?thesis using Some by (intro disjI2 exI [of _ "c # pre"]) auto
    qed (simp_all add: Some)
  qed
qed simp

subsection \<open>Segments with the acknowledgement flag\<close>

lemma tcp_ack_ignored:
  assumes "tcp_flags h AND TCP_SYN = 0" "tcp_flags h AND TCP_ACK \<noteq> 0" "\<not> len < 20"
    "first_idx (tcp_matches src h) (sockets b) = Some j" "sk_tcp_state (sockets b ! j) \<noteq> 1"
  shows "tcp_handle (tcp_bytes h @ pad) len src b = Some b"
proof -
  have "bytes_at (tcp_bytes h @ pad) 0 20 = Some (tcp_bytes h)" by (simp add: bytes_at_def)
  then show ?thesis using assms by (simp add: tcp_handle_def Let_def)
qed

lemma tcp_flag_bits:
  "(TCP_ACK OR TCP_PSH) AND TCP_SYN = 0" "(TCP_ACK OR TCP_PSH) AND TCP_ACK \<noteq> 0"
  "(TCP_FIN OR TCP_ACK) AND TCP_SYN = 0" "(TCP_FIN OR TCP_ACK) AND TCP_ACK \<noteq> 0"
  by (simp_all add: TCP_ACK_def TCP_PSH_def TCP_SYN_def TCP_FIN_def)

text \<open>Two ends of one connection: socket \<open>i\<close> of \<open>a\<close> is connected to socket \<open>j\<close> of \<open>b\<close>, and \<open>a\<close> can
  reach \<open>b\<close> over its link.\<close>

definition tcp_peers :: "net \<Rightarrow> nat \<Rightarrow> net \<Rightarrow> nat \<Rightarrow> u8 list \<Rightarrow> nat \<Rightarrow> bool" where
  "tcp_peers a i b j mac k \<longleftrightarrow>
     net_inv a \<and> netif_count a > 0 \<and> netif_count b > 0 \<and> i < 32 \<and> link a = Some k
     \<and> sk_in_use (sockets a ! i) \<and> sk_type (sockets a ! i) = 1 \<and> sk_tcp_state (sockets a ! i) = 2
     \<and> sk_remote_ip (sockets a ! i) = if_ip_addr (netifs b ! 0) \<and> brights_arp_resolve (if_ip_addr (netifs b ! 0)) a = Some mac
     \<and> first_idx (\<lambda>sk. sk_in_use sk \<and> sk_remote_ip sk = if_ip_addr (netifs a ! 0)
          \<and> sk_remote_port sk = sk_local_port (sockets a ! i) \<and> sk_local_port sk = sk_remote_port (sockets a ! i)) (sockets b) = Some j
     \<and> sk_tcp_state (sockets b ! j) = 2"

definition peer_frame :: "net \<Rightarrow> nat \<Rightarrow> net \<Rightarrow> u8 list \<Rightarrow> u8 \<Rightarrow> u8 list" where
  "peer_frame a i b mac flags =
     ip_frame mac (netifs a ! 0) (if_ip_addr (netifs b ! 0)) IP_PROTO_TCP (tcp_bytes (sock_segment (sockets a ! i) flags))"

lemma peer_frame_sent:
  assumes "tcp_peers a i b j mac k"
  shows "brights_ip_send (sk_remote_ip (sockets a ! i)) IP_PROTO_TCP (Some (tcp_bytes (sock_segment (sockets a ! i) flags))) 20 a
    = Some (a\<lparr>sent := sent a @ [(k, peer_frame a i b mac flags)]\<rparr>, 0)"
  using assms ip_send_exact [of a 20 "tcp_bytes (sock_segment (sockets a ! i) flags)"]
  by (simp add: tcp_peers_def peer_frame_def outgoing_def)

lemma peer_frame_ignored:
  assumes "tcp_peers a i b j mac k" "flags AND TCP_SYN = 0" "flags AND TCP_ACK \<noteq> 0"
  shows "brights_net_recv (peer_frame a i b mac flags @ pad) 54 b = Some b"
proof -
  let ?h = "sock_segment (sockets a ! i) flags"
  have mac: "length mac = 6" "length (if_mac (netifs a ! 0)) = 6"
    using assms(1) net_inv_resolveD net_inv_ifaceD by (auto simp: tcp_peers_def)
  have "brights_net_recv (peer_frame a i b mac flags @ pad) 54 b = ip_dispatch IP_PROTO_TCP (tcp_bytes ?h @ pad)
      (20 + push_bit 16 (40 AND 0xFF)) (if_ip_addr (netifs a ! 0)) b"
    using ip_recv [of b _ mac "netifs a ! 0" "tcp_bytes ?h" IP_PROTO_TCP pad] mac assms(1) by (simp add: tcp_peers_def peer_frame_def)
  also have "\<dots> = tcp_handle (tcp_bytes ?h @ pad) (20 + push_bit 16 (40 AND 0xFF)) (if_ip_addr (netifs a ! 0)) b"
    by (simp add: ip_dispatch_def IP_PROTO_TCP_def IP_PROTO_UDP_def IP_PROTO_ICMP_def)
  also have "\<dots> = Some b"
  proof (rule tcp_ack_ignored)
    show "first_idx (tcp_matches (if_ip_addr (netifs a ! 0)) ?h) (sockets b) = Some j"
      using assms(1) unfolding tcp_matches_def sock_segment_def tcp_segment_def by (simp add: tcp_peers_def)
  qed (use assms in \<open>simp_all add: tcp_peers_def sock_segment_def tcp_segment_def\<close>)
  finally show ?thesis .
qed

lemma tcp_peers_fd: "tcp_peers a i b j mac k \<Longrightarrow> \<not> bad_socket (int i) a"
  by (simp add: tcp_peers_def bad_socket_def BRIGHTS_NET_MAX_SOCKETS_def)

end
