(* ===== verification/Netprops.thy ===== *)
theory Netprops
  imports Netlaws
begin

unbundle bit_operations_syntax

text \<open>
  The properties of the network stack, each with the application of it to two concrete hosts.
\<close>

subsection \<open>Two hosts\<close>

text \<open>A host after \<open>brights_net_init\<close> with one interface that is up and one driver that accepts every
  frame.\<close>

definition zero_netif :: brights_netif_t where
  "zero_netif = \<lparr>if_name = [], if_mac = replicate 6 0, if_ip_addr = 0, if_netmask = 0, if_gateway = 0, if_up = False,
     if_driver_idx = 0\<rparr>"

definition boot_net :: net where
  "boot_net = \<lparr>netifs = replicate 4 zero_netif, netif_count = 0, net_drivers = [], arp_cache = [], sockets = [],
     next_port = 49152, services = \<lparr>dhcp_state = 0, dhcp_xid = 0x12345678, dns_server1 = 0x08080808, dns_server2 = 0x08080404,
       dns_id_counter = 0x1234, http_state = 0\<rparr>, sent = []\<rparr>"

definition demo_driver :: brights_net_driver_t where
  "demo_driver = \<lparr>drv_name = ''virtio-net'', drv_initialized = True, ops_init = Some 0, ops_send = Some (\<lambda>f. 0),
     ops_recv = None, ops_poll = None\<rparr>"

definition demo_iface :: "u32 \<Rightarrow> u8 list \<Rightarrow> brights_netif_t" where
  "demo_iface ip mac = \<lparr>if_name = ''eth0'', if_mac = mac, if_ip_addr = ip, if_netmask = 0xFFFFFF00, if_gateway = 0,
     if_up = True, if_driver_idx = 0\<rparr>"

definition demo_host :: "u32 \<Rightarrow> u8 list \<Rightarrow> net" where
  "demo_host ip mac = (brights_net_init boot_net)
     \<lparr>netifs := [demo_iface ip mac, zero_netif, zero_netif, zero_netif], netif_count := 1, net_drivers := [demo_driver]\<rparr>"

definition mac_a :: "u8 list" where "mac_a = [2, 0, 0, 0, 0, 1]"
definition mac_b :: "u8 list" where "mac_b = [2, 0, 0, 0, 0, 2]"
definition ip_a :: u32 where "ip_a = 0x0A000001"
definition ip_b :: u32 where "ip_b = 0x0A000002"

lemma boot_inv: "net_inv (brights_net_init boot_net)"
  by (rule init_inv) (simp_all add: boot_net_def zero_netif_def list_all_iff)

lemma demo_host_simps:
  "netifs (demo_host ip mac) = [demo_iface ip mac, zero_netif, zero_netif, zero_netif]"
  "netif_count (demo_host ip mac) = 1" "sent (demo_host ip mac) = []"
  "if_ip_addr (demo_iface ip mac) = ip" "if_mac (demo_iface ip mac) = mac"
  "sockets (demo_host ip mac) = replicate 32 zero_socket"
  by (simp_all add: demo_host_def demo_iface_def boot_net_def brights_net_init_def BRIGHTS_NET_MAX_SOCKETS_def)

lemma demo_host_inv:
  assumes "length mac = 6"
  shows "net_inv (demo_host ip mac)" "link (demo_host ip mac) = Some 0" "brights_arp_resolve x (demo_host ip mac) = None"
    "\<exists>e \<in> set (arp_cache (demo_host ip mac)). \<not> ae_valid e"
proof -
  show "net_inv (demo_host ip mac)"
    using boot_inv assms
    by (simp add: demo_host_def net_inv_def demo_iface_def demo_driver_def zero_netif_def)
  show "link (demo_host ip mac) = Some 0"
    by (simp add: link_def demo_host_def demo_iface_def brights_net_get_driver_def Let_def)
  show "brights_arp_resolve x (demo_host ip mac) = None" "\<exists>e \<in> set (arp_cache (demo_host ip mac)). \<not> ae_valid e"
    by (simp_all add: brights_arp_resolve_def arp_cache_find_def demo_host_def brights_net_init_def first_idx_None
        BRIGHTS_ARP_CACHE_SIZE_def split: option.split)
qed

lemma mac_ab: "length mac_a = 6" "length mac_b = 6"
  by (simp_all add: mac_a_def mac_b_def)

text \<open>The first host once it has learnt the second host's address.\<close>

definition demo_knows :: net where
  "demo_knows = fst (arp_cache_add ip_b mac_b (demo_host ip_a mac_a))"

lemma demo_knows_props:
  "net_inv demo_knows" "netif_count demo_knows = 1" "link demo_knows = Some 0" "sent demo_knows = []"
  "brights_arp_resolve ip_b demo_knows = Some mac_b" "netifs demo_knows ! 0 = demo_iface ip_a mac_a"
  "sockets demo_knows = replicate 32 zero_socket"
proof -
  note h = demo_host_inv [OF mac_ab(1), where ip = ip_a]
  show "net_inv demo_knows" using arp_cache_add_inv [OF h(1) mac_ab(2)] by (simp add: demo_knows_def)
  show "link demo_knows = Some 0" using link_cong [of demo_knows "demo_host ip_a mac_a"] h(2) by (simp add: demo_knows_def)
  show "brights_arp_resolve ip_b demo_knows = Some mac_b" using arp_add_resolve [of ip_b, OF h(3,4) mac_ab(2)] by (simp add: demo_knows_def)
qed (simp_all add: demo_knows_def demo_host_simps)

subsection \<open>Properties\<close>

text \<open>C20: from initialisation, whatever sequence of the state-changing calls of \<open>net.h\<close> and of received frames
  runs (every buffer a caller passes is as long as the length it passes), the tables keep their sizes,
  every receive buffer its fill level and the port counter its range, and no call accesses memory outside a buffer, with
  two exceptions: the handling of a received frame may, and \<open>brights_ip_send\<close> does when an interface exists and it is
  given more than the 1484 bytes that fit behind the headers of its frame.\<close>
theorem net_calls_safe:
  assumes "list_all call_ok cs"
  shows "(\<exists>t. net_run cs (brights_net_init boot_net) = Some t \<and> net_inv t)
    \<or> (\<exists>pre c post u. cs = pre @ c # post \<and> net_run pre (brights_net_init boot_net) = Some u \<and> net_inv u
        \<and> net_exec c u = None
        \<and> ((\<exists>f len. c = Call_frame f len)
          \<or> (\<exists>dst pr d len. c = Call_ip_send dst pr (Some d) len \<and> 1484 < unat len \<and> 0 < netif_count u)))"
  using net_run_safe [OF boot_inv assms] unfolding may_fault_iff by blast

definition demo_calls :: "net_call list" where
  "demo_calls = [Call_driver (Some demo_driver), Call_netif_add ''eth0'' mac_a, Call_up ''eth0'', Call_ip_send ip_b 17 (Some [1, 2, 3]) 3, Call_socket 1 2,
     Call_bind 0 ip_a 53, Call_recv 0 16, Call_close 0]"

theorem net_calls_safe_witness: "\<exists>t. net_run demo_calls (brights_net_init boot_net) = Some t \<and> net_inv t"
proof -
  have "list_all call_ok demo_calls" by (simp add: demo_calls_def mac_ab)
  moreover have "Call_frame f len \<notin> set demo_calls" "1484 < unat len \<Longrightarrow> Call_ip_send dst pr (Some d) len \<notin> set demo_calls"
    for f len dst pr d
    by (auto simp: demo_calls_def)
  ultimately show ?thesis using net_calls_safe [of demo_calls] by (metis in_set_conv_decomp)
qed

lemma total_len_bytes:
  assumes "unat (t :: u32) < 65536"
  shows "bswap16 (ucast (drop_bit 8 t OR push_bit 8 t)) = ucast t"
proof -
  have "(ucast (drop_bit 8 t OR push_bit 8 t) :: u16) = bswap16 (ucast t)"
  proof (rule bit_word_eqI)
    fix i
    assume "i < LENGTH(16)"
    have hi: "\<not> bit t n" if "16 \<le> n" for n
    proof -
      have "t = take_bit 16 t" using assms by (simp add: take_bit_eq_mod word_unat_eq_iff unat_mod_distrib)
      then show ?thesis using that by (metis bit_take_bit_iff not_less)
    qed
    then show "bit (ucast (drop_bit 8 t OR push_bit 8 t) :: u16) i = bit (bswap16 (ucast t)) i"
      using \<open>i < LENGTH(16)\<close> by (auto simp: bswap16_def bit_simps)
  qed
  then show ?thesis by simp
qed

text \<open>Once the destination's hardware address is known, \<open>brights_ip_send\<close> hands exactly one frame to the
  driver of the active interface: addressed to that hardware address and from our own, with an IP
  header that names both addresses, the protocol and the length of the packet and whose checksum
  verifies, followed by exactly the caller's bytes.\<close>
theorem ip_send_transmits:
  assumes "net_inv s" "netif_count s > 0" "link s = Some k" "brights_arp_resolve dst s = Some mac"
    "unat len \<le> length d" "unat len \<le> 1484"
  shows "\<exists>f. brights_ip_send dst proto (Some d) len s = Some (s\<lparr>sent := sent s @ [(k, f)]\<rparr>, 0)
    \<and> eth_of f = \<lparr>eth_dst = mac, eth_src = if_mac (netifs s ! 0), eth_type = bswap16 ETH_TYPE_IP\<rparr>
    \<and> (let h = ip_of (drop 14 f) in
        src_ip h = if_ip_addr (netifs s ! 0) \<and> dst_ip h = dst \<and> protocol h = proto \<and> bswap16 (total_len h) = ucast (20 + len))
    \<and> ip_checksum (take 20 (drop 14 f)) = 0 \<and> drop 34 f = take (unat len) d"
proof -
  let ?f = "ip_frame mac (netifs s ! 0) dst proto (take (unat len) d)"
  let ?e = "\<lparr>eth_dst = mac, eth_src = if_mac (netifs s ! 0), eth_type = bswap16 ETH_TYPE_IP\<rparr>"
  let ?h = "ip_header_sum (ip_header (if_ip_addr (netifs s ! 0)) dst proto len)"
  have ty: "bswap16 ETH_TYPE_IP = 0x0008" by (simp add: bswap16_def ETH_TYPE_IP_def)
  have f: "?f = eth_bytes ?e @ ip_bytes ?h @ take (unat len) d"
    using assms(5) ty by (simp add: ip_frame_def)
  have e: "length (eth_dst ?e) = 6" "length (eth_src ?e) = 6"
    using net_inv_resolveD [OF assms(1,4)] net_inv_ifaceD [OF assms(1,2)] by simp_all
  then have len: "length (eth_bytes ?e) = 14" by (rule length_hdr(1))
  have "brights_ip_send dst proto (Some d) len s = Some (s\<lparr>sent := sent s @ [(k, ?f)]\<rparr>, 0)"
    using ip_send_exact [OF assms(1,2,5,6)] assms(3,4) by (simp add: outgoing_def)
  moreover have "eth_of ?f = ?e" unfolding f by (rule eth_of_bytes [OF e])
  moreover have "ip_of (drop 14 ?f) = ?h" unfolding f using len by (simp add: ip_of_bytes)
  moreover have "take 20 (drop 14 ?f) = ip_bytes ?h" "drop 34 ?f = take (unat len) d" unfolding f using len by simp_all
  moreover have "unat (20 + len) < 65536" using assms(6) unat_add_lem [of 20 len] by simp
  ultimately show ?thesis
    using ip_header_verifies [of "ip_header (if_ip_addr (netifs s ! 0)) dst proto len"] total_len_bytes [of "20 + len"]
    by (auto simp: ip_header_sum_def ip_header_def Let_def)
qed

theorem ip_send_transmits_witness:
  "\<exists>f. brights_ip_send ip_b IP_PROTO_UDP (Some [1, 2, 3]) 3 demo_knows = Some (demo_knows\<lparr>sent := [(0, f)]\<rparr>, 0)
    \<and> ip_checksum (take 20 (drop 14 f)) = 0 \<and> drop 34 f = [1, 2, 3]"
  using ip_send_transmits [of demo_knows 0 ip_b mac_b 3 "[1, 2, 3]" IP_PROTO_UDP] by (auto simp: demo_knows_props)

text \<open>C21: the ARP exchange completes.  When host \<open>a\<close>, which does not know \<open>b\<close>'s hardware address and has
  room in its cache, broadcasts a request for \<open>b\<close>'s address, \<open>b\<close> answers with one frame, and after
  \<open>a\<close> has handled that frame it resolves \<open>b\<close>'s address to \<open>b\<close>'s hardware address; \<open>b\<close> resolves
  \<open>a\<close>'s likewise.  The driver's buffers may extend past the frames.\<close>
theorem arp_exchange:
  assumes a: "net_inv a" "netif_count a > 0" "link a = Some ka" "brights_arp_resolve (if_ip_addr (netifs b ! 0)) a = None"
      "\<exists>e. e \<in> set (arp_cache a) \<and> \<not> ae_valid e"
    and b: "net_inv b" "netif_count b > 0" "link b = Some kb" "brights_arp_resolve (if_ip_addr (netifs a ! 0)) b = None"
      "\<exists>e. e \<in> set (arp_cache b) \<and> \<not> ae_valid e"
  shows "\<exists>a1 req b1 rep a2.
    brights_arp_request (if_ip_addr (netifs b ! 0)) a = Some (a1, 0) \<and> sent a1 = sent a @ [(ka, req)]
    \<and> brights_net_recv (req @ pad) 42 b = Some b1 \<and> sent b1 = sent b @ [(kb, rep)]
    \<and> brights_net_recv (rep @ pad) 42 a1 = Some a2
    \<and> brights_arp_resolve (if_ip_addr (netifs b ! 0)) a2 = Some (if_mac (netifs b ! 0))
    \<and> brights_arp_resolve (if_ip_addr (netifs a ! 0)) b1 = Some (if_mac (netifs a ! 0))"
proof -
  let ?ia = "netifs a ! 0" and ?ib = "netifs b ! 0"
  let ?req = "arp_frame (replicate 6 0xFF) ?ia 0x0100 (replicate 6 0) (if_ip_addr ?ib)"
  let ?rep = "arp_frame (if_mac ?ia) ?ib 0x0200 (if_mac ?ia) (if_ip_addr ?ia)"
  let ?a1 = "a\<lparr>sent := sent a @ [(ka, ?req)]\<rparr>"
  let ?b1 = "(fst (arp_cache_add (if_ip_addr ?ia) (if_mac ?ia) b))\<lparr>sent := sent b @ [(kb, ?rep)]\<rparr>"
  let ?a2 = "fst (arp_cache_add (if_ip_addr ?ib) (if_mac ?ib) ?a1)"
  have mac: "length (if_mac ?ia) = 6" "length (if_mac ?ib) = 6" using net_inv_ifaceD a(1,2) b(1,2) by auto
  have req: "brights_arp_request (if_ip_addr ?ib) a = Some (?a1, 0)"
    using arp_request_exact [OF a(1,2)] a(3) by (simp add: outgoing_def)
  have rep: "brights_net_recv (?req @ pad) 42 b = Some ?b1"
    using arp_recv [OF b(1,2), of "replicate 6 0xFF" ?ia "replicate 6 0" "0x0100" "if_ip_addr ?ib" pad] mac b(3)
    by (simp add: outgoing_def)
  have inv1: "net_inv ?a1" "netif_count ?a1 > 0" using a(1,2) by simp_all
  have fin: "brights_net_recv (?rep @ pad) 42 ?a1 = Some ?a2"
    using arp_recv [OF inv1 mac(1,2,1), of "0x0200" "if_ip_addr ?ia" pad] by simp
  have res: "brights_arp_resolve ip (s\<lparr>sent := x\<rparr>) = brights_arp_resolve ip s" for ip s x
    by (simp add: brights_arp_resolve_def arp_cache_find_def split: option.split)
  have "brights_arp_resolve (if_ip_addr ?ib) ?a2 = Some (if_mac ?ib)"
    using arp_add_resolve [of "if_ip_addr ?ib" ?a1 "if_mac ?ib"] a(4,5) mac(2) by (auto simp: res)
  moreover have "brights_arp_resolve (if_ip_addr ?ia) ?b1 = Some (if_mac ?ia)"
    using arp_add_resolve [of "if_ip_addr ?ia" b "if_mac ?ia"] b(4,5) mac(1) by (auto simp: res)
  ultimately show ?thesis using req rep fin by (intro exI conjI) (assumption | simp)+
qed

theorem arp_exchange_witness:
  "\<exists>a1 req b1 rep a2. brights_arp_request ip_b (demo_host ip_a mac_a) = Some (a1, 0) \<and> sent a1 = [(0, req)]
    \<and> brights_net_recv req 42 (demo_host ip_b mac_b) = Some b1 \<and> sent b1 = [(0, rep)]
    \<and> brights_net_recv rep 42 a1 = Some a2 \<and> brights_arp_resolve ip_b a2 = Some mac_b
    \<and> brights_arp_resolve ip_a b1 = Some mac_a"
proof -
  note ha = demo_host_inv [OF mac_ab(1), where ip = ip_a] and hb = demo_host_inv [OF mac_ab(2), where ip = ip_b]
  have fa: "\<exists>e. e \<in> set (arp_cache (demo_host ip_a mac_a)) \<and> \<not> ae_valid e" using ha(4) by blast
  have fb: "\<exists>e. e \<in> set (arp_cache (demo_host ip_b mac_b)) \<and> \<not> ae_valid e" using hb(4) by blast
  show ?thesis
    using arp_exchange [OF ha(1) _ ha(2,3) fa hb(1) _ hb(2,3) fb, of "[]"] by (simp add: demo_host_simps)
qed

text \<open>C22: over any interleaving of datagrams for a bound port and reads from its socket, the socket delivers
  exactly the payload bytes it accepted, in order and once: what its buffer held followed by the
  accepted bytes is what was read followed by what the buffer holds.  A datagram is cut at the end
  of the 4096-byte buffer; nothing else of the state changes shape.\<close>
theorem udp_socket_stream:
  assumes "udp_bound port i s" "list_all udp_admissible ops" "us.run sport port src i s ops = (t, accepted, delivered)"
  shows "sk_held (sockets s ! i) @ accepted = delivered @ sk_held (sockets t ! i) \<and> udp_bound port i t
    \<and> length (sk_held (sockets t ! i)) \<le> 4096"
  using us.stream_integrity [OF assms] by blast

definition demo_bound :: net where
  "demo_bound = fst (brights_bind 0 ip_b 53 (fst (brights_socket 1 2 (demo_host ip_b mac_b))))"

lemma demo_bound_props: "udp_bound 53 0 demo_bound" "sk_held (sockets demo_bound ! 0) = []"
proof -
  have z: "first_idx (\<lambda>sk. \<not> sk_in_use sk) (replicate 32 zero_socket) = Some 0"
    by (simp add: first_idx_Some zero_socket_def)
  have n: "sk_in_use ((replicate 32 x)[0 := y] ! 0) = sk_in_use y" "(replicate 32 x)[0 := y] ! 0 = y" for x y by simp_all
  have sk: "\<exists>sk. sockets demo_bound = (replicate 32 zero_socket)[0 := sk] \<and> sk_in_use sk \<and> sk_type sk = 2 \<and> sk_local_port sk = 53
      \<and> sk_recv_len sk = 0"
    using z by (auto simp: demo_bound_def brights_bind_def brights_socket_def bad_socket_def demo_host_simps Let_def upd_at_def n
        BRIGHTS_NET_MAX_SOCKETS_def)
  have "net_inv demo_bound"
    using demo_host_inv(1) [OF mac_ab(2)] by (simp add: demo_bound_def socket_calls_inv)
  then show "udp_bound 53 0 demo_bound" using sk by (elim exE conjE) (simp add: udp_bound_def first_idx_Some)
  show "sk_held (sockets demo_bound ! 0) = []" using sk by (auto simp: sk_held_def)
qed

theorem udp_socket_stream_witness:
  "\<exists>t a d. us.run 4000 53 ip_a 0 demo_bound [Inl [1, 2, 3], Inr 2, Inl [4], Inr 9] = (t, a, d)
    \<and> a = d @ sk_held (sockets t ! 0)"
proof -
  obtain t a d where r: "us.run 4000 53 ip_a 0 demo_bound [Inl [1, 2, 3], Inr 2, Inl [4], Inr 9] = (t, a, d)"
    by (metis prod_cases3)
  have "list_all udp_admissible [Inl [1, 2, 3], Inr 2, Inl [4], Inr 9]" by (simp add: udp_admissible_def)
  then show ?thesis using udp_socket_stream [OF demo_bound_props(1) _ r] demo_bound_props(2) r by auto
qed

text \<open>An echo request handed to \<open>icmp_handle\<close> with its true length is answered, when the sender's
  hardware address is known, by exactly one packet to the sender: the same identifier, sequence
  number and data, the type changed to a reply, and a checksum that verifies over the whole
  message.\<close>
theorem icmp_echo_reply:
  assumes "net_inv s" "netif_count s > 0" "link s = Some k" "brights_arp_resolve src s = Some mac"
    "icmp_type h = ICMP_ECHO_REQUEST" "length body \<le> 1476"
  shows "\<exists>f c. icmp_handle (icmp_bytes h @ body @ pad) (of_nat (8 + length body)) src s = Some (s\<lparr>sent := sent s @ [(k, f)]\<rparr>)
    \<and> f = ip_frame mac (netifs s ! 0) src IP_PROTO_ICMP
          (icmp_bytes (h\<lparr>icmp_type := ICMP_ECHO_REPLY, icmp_checksum := c\<rparr>) @ body)
    \<and> ip_checksum (drop 34 f) = 0"
proof -
  let ?h0 = "h\<lparr>icmp_type := ICMP_ECHO_REPLY, icmp_checksum := 0\<rparr>"
  define c where "c = ip_checksum (icmp_bytes ?h0 @ body)"
  let ?h1 = "h\<lparr>icmp_type := ICMP_ECHO_REPLY, icmp_checksum := c\<rparr>"
  let ?n = "of_nat (8 + length body) :: u32"
  let ?f = "ip_frame mac (netifs s ! 0) src IP_PROTO_ICMP (icmp_bytes ?h1 @ body)"
  have n: "unat ?n = 8 + length body" using assms(6) by (simp add: unat_of_nat_u32 del: of_nat_add)
  have big: "\<not> ?n < 8" unfolding word_less_nat_alt n by simp
  have at: "bytes_at (icmp_bytes h @ body @ pad) 0 8 = Some (icmp_bytes h)"
    "put_bytes 0 (icmp_bytes ?h0) (icmp_bytes h @ body @ pad) = Some (icmp_bytes ?h0 @ body @ pad)"
    "bytes_at (icmp_bytes ?h0 @ body @ pad) 0 (8 + length body) = Some (icmp_bytes ?h0 @ body)"
    "put_bytes 0 (icmp_bytes ?h1) (icmp_bytes ?h0 @ body @ pad) = Some (icmp_bytes ?h1 @ body @ pad)"
    by (simp_all add: bytes_at_def put_bytes_def)
  have "brights_ip_send src IP_PROTO_ICMP (Some (icmp_bytes ?h1 @ body @ pad)) ?n s = Some (s\<lparr>sent := sent s @ [(k, ?f)]\<rparr>, 0)"
    using ip_send_exact [OF assms(1,2), of ?n "icmp_bytes ?h1 @ body @ pad" src IP_PROTO_ICMP] assms(3,4,6) n
    by (simp add: outgoing_def del: of_nat_add)
  then have "icmp_handle (icmp_bytes h @ body @ pad) ?n src s = Some (s\<lparr>sent := sent s @ [(k, ?f)]\<rparr>)"
    using big at assms(5) n by (simp add: icmp_handle_def Let_def del: of_nat_add flip: c_def)
  moreover have "ip_checksum (drop 34 ?f) = 0"
  proof -
    let ?post = "le16 (icmp_ident h) @ le16 (icmp_seq h) @ body"
    have z: "le16 0 = [0, 0]" by (simp add: le16_def)
    have "drop 34 ?f = [ICMP_ECHO_REPLY, icmp_code h] @ le16 c @ ?post"
      using net_inv_resolveD [OF assms(1,4)] net_inv_ifaceD [OF assms(1,2)] by (simp add: ip_frame_def) (simp add: icmp_bytes_def)
    moreover have "c = ip_checksum ([ICMP_ECHO_REPLY, icmp_code h] @ [0, 0] @ ?post)"
      by (simp add: c_def icmp_bytes_def z)
    ultimately show ?thesis
      using ip_checksum_fills_in [of "[ICMP_ECHO_REPLY, icmp_code h]" ?post] assms(6) by simp
  qed
  ultimately show ?thesis by blast
qed

definition demo_echo :: icmp_hdr where
  "demo_echo = \<lparr>icmp_type = ICMP_ECHO_REQUEST, icmp_code = 0, icmp_checksum = 0, icmp_ident = 7, icmp_seq = 1\<rparr>"

theorem icmp_echo_reply_witness:
  "\<exists>f. icmp_handle (icmp_bytes demo_echo @ [1, 2, 3]) 11 ip_b demo_knows = Some (demo_knows\<lparr>sent := [(0, f)]\<rparr>)
    \<and> ip_checksum (drop 34 f) = 0"
  using icmp_echo_reply [of demo_knows 0 ip_b mac_b demo_echo "[1, 2, 3]" "[]"]
  by (auto simp: demo_knows_props demo_echo_def)

text \<open>A BrightS host cannot be pinged by another one.  The echo request \<open>brights_icmp_echo_request\<close> sends,
  received by the host it is addressed to in a driver buffer of less than 64 KiB, makes the
  receiver read past the end of that buffer: \<open>ip_handle\<close> computes the payload length as 8 plus
  28 times 65536 bytes, because it does not cut the byte-swapped length back to 16 bits.\<close>
theorem ping_overruns:
  assumes "net_inv a" "netif_count a > 0" "link a = Some k" "brights_arp_resolve (if_ip_addr (netifs b ! 0)) a = Some mac"
    "netif_count b > 0" "length pad < 65536"
  shows "\<exists>f. brights_icmp_echo_request (if_ip_addr (netifs b ! 0)) a = Some (a\<lparr>sent := sent a @ [(k, f)]\<rparr>, 0)
    \<and> length f = 42 \<and> brights_net_recv (f @ pad) 42 b = None"
proof -
  let ?b = "if_ip_addr (netifs b ! 0)"
  let ?h0 = "\<lparr>icmp_type = ICMP_ECHO_REQUEST, icmp_code = 0, icmp_checksum = 0, icmp_ident = 0x1234, icmp_seq = 0x0001\<rparr>"
  let ?h = "?h0\<lparr>icmp_checksum := ip_checksum (icmp_bytes ?h0)\<rparr>"
  let ?f = "ip_frame mac (netifs a ! 0) ?b IP_PROTO_ICMP (icmp_bytes ?h)"
  let ?n = "8 + push_bit 16 (28 AND 0xFF) :: u32"
  have mac: "length mac = 6" "length (if_mac (netifs a ! 0)) = 6"
    using net_inv_resolveD [OF assms(1,4)] net_inv_ifaceD [OF assms(1,2)] by simp_all
  have "brights_icmp_echo_request ?b a = Some (a\<lparr>sent := sent a @ [(k, ?f)]\<rparr>, 0)"
    using ip_send_exact [OF assms(1,2), of 8 "icmp_bytes ?h"] assms(3,4)
    by (simp add: brights_icmp_echo_request_def Let_def outgoing_def)
  moreover have "brights_net_recv (?f @ pad) 42 b = icmp_handle (icmp_bytes ?h @ pad) ?n (if_ip_addr (netifs a ! 0)) b"
    using ip_recv [of b ?b mac "netifs a ! 0" "icmp_bytes ?h" IP_PROTO_ICMP pad] mac assms(5) by (simp add: ip_dispatch_def)
  moreover have "icmp_handle (icmp_bytes ?h @ pad) ?n (if_ip_addr (netifs a ! 0)) b = None"
  proof -
    have "bytes_at (icmp_bytes ?h @ pad) 0 8 = Some (icmp_bytes ?h)" by (simp add: bytes_at_def)
    moreover have "bytes_at (icmp_bytes x @ pad) 0 1835016 = None" for x using assms(6) by (simp add: bytes_at_def)
    moreover have "put_bytes 0 (icmp_bytes x) (icmp_bytes ?h @ pad) = Some (icmp_bytes x @ pad)" for x by (simp add: put_bytes_def)
    ultimately show ?thesis by (simp add: icmp_handle_def Let_def)
  qed
  moreover have "length ?f = 42" using mac by simp
  ultimately show ?thesis by auto
qed

theorem ping_overruns_witness:
  "\<exists>f. brights_icmp_echo_request ip_b demo_knows = Some (demo_knows\<lparr>sent := [(0, f)]\<rparr>, 0)
    \<and> brights_net_recv (f @ replicate 1476 0) 42 (demo_host ip_b mac_b) = None"
  using ping_overruns [of demo_knows 0 "demo_host ip_b mac_b" mac_b "replicate 1476 0"]
  by (auto simp: demo_knows_props demo_host_simps)

text \<open>On an established connection between two BrightS hosts, \<open>brights_send\<close> reports success for any
  data and \<open>brights_close\<close> announces the end of the connection, and each puts one frame on the
  wire, yet neither frame changes anything at the peer: both carry the acknowledgement flag,
  which \<open>tcp_handle\<close> tests before the data and end-of-connection branches.  The peer's socket stays
  established and receives no byte.\<close>
theorem tcp_send_close_unnoticed:
  assumes "tcp_peers a i b j mac k"
  shows "(\<exists>f a1. brights_send (int i) buf len a = Some (a1, sint len) \<and> sent a1 = sent a @ [(k, f)]
      \<and> brights_net_recv (f @ pad) 54 b = Some b)
    \<and> (\<exists>f a1. brights_close (int i) a = Some (a1, 0) \<and> sent a1 = sent a @ [(k, f)]
      \<and> brights_net_recv (f @ pad) 54 b = Some b)"
proof
  note fd = tcp_peers_fd [OF assms]
  have est: "sk_type (sockets a ! i) = 1" "sk_tcp_state (sockets a ! i) = 2" using assms by (simp_all add: tcp_peers_def)
  show "\<exists>f a1. brights_send (int i) buf len a = Some (a1, sint len) \<and> sent a1 = sent a @ [(k, f)]
      \<and> brights_net_recv (f @ pad) 54 b = Some b"
    using fd est peer_frame_sent [OF assms] peer_frame_ignored [OF assms tcp_flag_bits(1,2)]
    by (simp add: brights_send_def Let_def)
  show "\<exists>f a1. brights_close (int i) a = Some (a1, 0) \<and> sent a1 = sent a @ [(k, f)]
      \<and> brights_net_recv (f @ pad) 54 b = Some b"
    using fd est peer_frame_sent [OF assms] peer_frame_ignored [OF assms tcp_flag_bits(3,4)]
    by (simp add: brights_close_def Let_def)
qed

definition demo_peer :: "u32 \<Rightarrow> u16 \<Rightarrow> u16 \<Rightarrow> net \<Rightarrow> net" where
  "demo_peer ip lport rport s =
     s\<lparr>sockets := (sockets s)[0 := zero_socket\<lparr>sk_in_use := True, sk_domain := 1, sk_type := 1, sk_remote_ip := ip,
         sk_local_port := lport, sk_remote_port := rport, sk_tcp_state := 2, sk_tcp_seq := 1000\<rparr>]\<rparr>"

lemma demo_peers: "tcp_peers (demo_peer ip_b 49152 80 demo_knows) 0 (demo_peer ip_a 80 49152 (demo_host ip_b mac_b)) 0 mac_b 0"
proof -
  have inv: "net_inv (demo_peer ip_b 49152 80 demo_knows)"
    unfolding demo_peer_def by (rule net_inv_socket_update [OF demo_knows_props(1)]) (simp add: socket_ok_def zero_socket_def)
  have l: "link (demo_peer ip_b 49152 80 demo_knows) = Some 0"
    using link_cong [of "demo_peer ip_b 49152 80 demo_knows" demo_knows] demo_knows_props(3) by (simp add: demo_peer_def)
  have r: "brights_arp_resolve ip_b (demo_peer ip_b 49152 80 demo_knows) = Some mac_b"
    using demo_knows_props(5)
    by (simp add: demo_peer_def brights_arp_resolve_def arp_cache_find_def split: option.splits)
  have bi: "if_ip_addr (netifs (demo_peer ip_a 80 49152 (demo_host ip_b mac_b)) ! 0) = ip_b"
    by (simp add: demo_peer_def demo_host_simps)
  show ?thesis
    unfolding tcp_peers_def bi
    by (intro conjI inv l r) (simp_all add: demo_peer_def demo_knows_props demo_host_simps first_idx_Some)
qed

theorem tcp_send_close_unnoticed_witness:
  "\<exists>f a1. brights_send 0 [1, 2, 3] 3 (demo_peer ip_b 49152 80 demo_knows) = Some (a1, 3) \<and> sent a1 = [(0, f)]
    \<and> brights_net_recv f 54 (demo_peer ip_a 80 49152 (demo_host ip_b mac_b)) = Some (demo_peer ip_a 80 49152 (demo_host ip_b mac_b))"
proof -
  have "sent (demo_peer ip_b 49152 80 demo_knows) = []" by (simp add: demo_peer_def demo_knows_props)
  then show ?thesis
    using tcp_send_close_unnoticed [OF demo_peers, of "[1, 2, 3]" 3 "[]"] by simp
qed

text \<open>A stream socket made by \<open>brights_socket\<close> is never connected by \<open>brights_connect\<close>: the call takes a second
  socket for the connection and returns its number, or -1, and \<open>brights_send\<close> on the caller's socket
  still fails.\<close>
theorem connect_leaves_socket:
  assumes "net_inv s" "0 \<le> fd" "fd < 32" "sk_in_use (sockets s ! nat fd)" "sk_type (sockets s ! nat fd) = 1"
    "sk_tcp_state (sockets s ! nat fd) \<noteq> 2"
  shows "\<exists>t r. brights_connect fd addr port s = Some (t, r) \<and> r \<noteq> fd \<and> brights_send fd buf len t = Some (t, -1)"
proof -
  define s1 where "s1 = s\<lparr>sockets := upd_at (nat fd) (\<lambda>sk. sk\<lparr>sk_remote_ip := addr, sk_remote_port := port\<rparr>) (sockets s)\<rparr>"
  have fd: "\<not> bad_socket fd s" "nat fd < length (sockets s)"
    using assms by (simp_all add: bad_socket_def BRIGHTS_NET_MAX_SOCKETS_def net_inv_def nat_less_iff)
  have s1: "net_inv s1" "sk_in_use (sockets s1 ! nat fd)" "sk_type (sockets s1 ! nat fd) = 1" "sk_tcp_state (sockets s1 ! nat fd) \<noteq> 2"
    using assms fd(2) by (auto simp: s1_def socket_ok_def intro!: net_inv_socket_upd_at)
  obtain t r where t: "brights_tcp_connect addr port s1 = Some (t, r)" using tcp_connect_total [OF s1(1)] by blast
  have keep: "sockets t ! nat fd = sockets s1 ! nat fd \<and> r \<noteq> fd"
  proof (cases "first_idx (\<lambda>sk. \<not> sk_in_use sk) (sockets s1)")
    case None
    then show ?thesis using t assms(2) by (auto simp: brights_tcp_connect_def)
  next
    case (Some i)
    then have ne: "i \<noteq> nat fd" using s1(2) by (auto simp: first_idx_Some)
    obtain s2 p where a: "alloc_port s1 = (s2, p)" by fastforce
    have "sockets s2 = sockets s1" using alloc_port_inv(2) [OF s1(1)] a by simp
    then show ?thesis using t Some a ne assms(2)
      by (auto simp: brights_tcp_connect_def Let_def bind_eq_Some_conv dest!: ip_send_shape)
  qed
  have "brights_connect fd addr port s = Some (t, r)"
    using fd(1) assms(5) t by (simp add: brights_connect_def Let_def s1_def)
  moreover have "brights_send fd buf len t = Some (t, -1)"
    using keep s1 assms(2,3) by (simp add: brights_send_def bad_socket_def BRIGHTS_NET_MAX_SOCKETS_def)
  ultimately show ?thesis using keep by blast
qed

theorem connect_leaves_socket_witness:
  "\<exists>t r. brights_connect 0 ip_b 80 (fst (brights_socket 1 1 demo_knows)) = Some (t, r) \<and> r \<noteq> 0
    \<and> brights_send 0 [1, 2, 3] 3 t = Some (t, -1)"
proof -
  have z: "first_idx (\<lambda>sk. \<not> sk_in_use sk) (replicate 32 zero_socket) = Some 0"
    by (simp add: first_idx_Some zero_socket_def)
  have "sk_in_use (sockets (fst (brights_socket 1 1 demo_knows)) ! 0)" "sk_type (sockets (fst (brights_socket 1 1 demo_knows)) ! 0) = 1"
    "sk_tcp_state (sockets (fst (brights_socket 1 1 demo_knows)) ! 0) = 0"
    using z by (simp_all add: brights_socket_def demo_knows_props Let_def)
  then show ?thesis
    using connect_leaves_socket [of "fst (brights_socket 1 1 demo_knows)" 0 ip_b 80 "[1, 2, 3]" 3]
      socket_calls_inv(1) [OF demo_knows_props(1)] by simp
qed

end
