(* ===== verification/Hwinfo.thy ===== *)
theory Hwinfo
  imports Kernel_Prelude
begin

unbundle bit_operations_syntax

text \<open>
  Processor discovery, \<open>kernel/hwinfo.c\<close>: what the \<open>cpuid\<close> instruction reports, and the frequency
  of the time-stamp counter measured against the interval timer.

  The machine is part of the state: \<open>cpuid\<close> gives the four registers for a leaf and a subleaf,
  \<open>tsc_values\<close> the successive readings of the time-stamp counter (\<open>tsc_reads\<close> counts them), and
  \<open>pit_output\<close> the successive readings of bit 5 of port 0x61, the output of the interval timer.
  The two loops of the source end only if the hardware lets them (a cache leaf of type 0, the timer
  output going high): they are \<open>partial_function\<close>s, with \<open>None\<close> for a loop that never ends.
\<close>

subsection \<open>State\<close>

record brights_cpu_info_t =
  vendor :: "u32 list"
  brand :: "u32 list"
  family :: u32
  model :: u32
  stepping :: u32
  max_basic_leaf :: u32
  max_ext_leaf :: u32
  has_apic :: bool
  has_x2apic :: bool
  has_tsc :: bool
  has_msr :: bool
  has_sse :: bool
  has_sse2 :: bool
  has_sse3 :: bool
  has_ssse3 :: bool
  has_sse41 :: bool
  has_sse42 :: bool
  has_aes :: bool
  has_xsave :: bool
  has_avx :: bool
  has_f16c :: bool
  has_rdrand :: bool
  has_avx2 :: bool
  has_avx512f :: bool
  has_bmi1 :: bool
  has_bmi2 :: bool
  has_smep :: bool
  has_smap :: bool
  has_pku :: bool
  has_umip :: bool
  l1d_size :: u32
  l1d_line :: u32
  l1i_size :: u32
  l2_size :: u32
  l3_size :: u32
  logical_cores :: u32
  cores_per_pkg :: u32
  threads_per_core :: u32
  ci_tsc_freq :: u64
  tsc_invariant :: bool

type_synonym cpuid_regs = "u32 \<times> u32 \<times> u32 \<times> u32"

record hwinfo =
  cpu_info :: brights_cpu_info_t
  hwinfo_ready :: bool
  cpuid :: "u32 \<Rightarrow> u32 \<Rightarrow> cpuid_regs"
  tsc_values :: "nat \<Rightarrow> u64"
  tsc_reads :: nat
  pit_output :: "nat \<Rightarrow> bool"

definition rdtsc_now :: "hwinfo \<Rightarrow> hwinfo \<times> u64" where
  "rdtsc_now s = (s\<lparr>tsc_reads := tsc_reads s + 1\<rparr>, tsc_values s (tsc_reads s))"

definition reg_field :: "nat \<Rightarrow> u32 \<Rightarrow> u32 \<Rightarrow> u32" where
  "reg_field n msk r = drop_bit n r AND msk"

subsection \<open>Identification\<close>

definition cpu_names :: "(u32 \<Rightarrow> u32 \<Rightarrow> cpuid_regs) \<Rightarrow> brights_cpu_info_t \<Rightarrow> brights_cpu_info_t" where
  "cpu_names q ci =
     (let (a, b, c, d) = q 0 0;
          (ea, _, _, _) = q 0x80000000 0;
          ci1 = ci\<lparr>max_basic_leaf := a, vendor := [b, d, c], max_ext_leaf := ea\<rparr>
      in if ea \<ge> 0x80000004
         then ci1\<lparr>brand := concat (map (\<lambda>i. case q (0x80000002 + of_nat i) 0 of (a, b, c, d) \<Rightarrow> [a, b, c, d]) [0..<3])\<rparr>
         else ci1\<lparr>brand := upd_at 0 (\<lambda>w. w AND NOT 0xFF) (brand ci1)\<rparr>)"

definition cpu_features :: "cpuid_regs \<Rightarrow> brights_cpu_info_t \<Rightarrow> brights_cpu_info_t" where
  "cpu_features r ci =
     (case r of (eax, ebx, ecx, edx) \<Rightarrow>
        (let m = reg_field 4 0xF eax; f = reg_field 8 0xF eax;
             m' = (if f = 0x6 \<or> f = 0xF then m OR push_bit 4 (reg_field 16 0xF eax) else m);
             f' = (if f = 0xF then f + reg_field 20 0xFF eax else f)
         in ci\<lparr>stepping := eax AND 0xF, model := m', family := f',
               has_tsc := bit edx 4, has_msr := bit edx 5, has_apic := bit edx 9, has_sse := bit edx 25,
               has_sse2 := bit edx 26, has_sse3 := bit ecx 0, has_ssse3 := bit ecx 9, has_sse41 := bit ecx 19,
               has_sse42 := bit ecx 20, has_x2apic := bit ecx 21, has_aes := bit ecx 25, has_xsave := bit ecx 26,
               has_avx := bit ecx 28, has_f16c := bit ecx 29, has_rdrand := bit ecx 30\<rparr>))"

definition is_n270 :: "brights_cpu_info_t \<Rightarrow> bool" where
  "is_n270 ci \<longleftrightarrow> family ci = 0x6 \<and> model ci = 0x1C"

definition n270_quirks :: "brights_cpu_info_t \<Rightarrow> brights_cpu_info_t" where
  "n270_quirks ci =
     (if is_n270 ci
      then ci\<lparr>has_sse41 := False, has_sse42 := False, has_x2apic := False, has_avx := False, has_f16c := False,
              has_rdrand := False, tsc_invariant := False, l1d_size := 24 * 1024, l1i_size := 32 * 1024,
              l2_size := 512 * 1024, l3_size := 0, l1d_line := 64, cores_per_pkg := 1, logical_cores := 2,
              threads_per_core := 2\<rparr>
      else ci)"

definition ext_features :: "cpuid_regs \<Rightarrow> brights_cpu_info_t \<Rightarrow> brights_cpu_info_t" where
  "ext_features r ci =
     (case r of (eax, ebx, ecx, edx) \<Rightarrow>
        ci\<lparr>has_bmi1 := bit ebx 3, has_avx2 := bit ebx 5, has_smep := bit ebx 7, has_bmi2 := bit ebx 8,
           has_avx512f := bit ebx 16, has_smap := bit ebx 20, has_pku := bit ecx 3, has_umip := bit ecx 2\<rparr>)"

subsection \<open>Caches\<close>

definition cache_leaf :: "u32 \<Rightarrow> cpuid_regs \<Rightarrow> brights_cpu_info_t \<Rightarrow> brights_cpu_info_t" where
  "cache_leaf i r ci =
     (case r of (eax, ebx, ecx, edx) \<Rightarrow>
        (let type = eax AND 0x1F;
             line_size = (ebx AND 0xFFF) + 1;
             partitions = reg_field 12 0x3FF ebx + 1;
             ways = reg_field 22 0x3FF ebx + 1;
             cache_size = ways * partitions * line_size * (ecx + 1);
             max_sharing = reg_field 14 0xFFF eax + 1;
             ci1 = (if type = 1 \<and> i = 0 then ci\<lparr>l1d_size := cache_size, l1d_line := line_size\<rparr>
                    else if type = 2 \<and> l1i_size ci = 0 then ci\<lparr>l1i_size := cache_size\<rparr>
                    else if type = 3 \<and> cache_size > l2_size ci \<and> cache_size < 0x800000
                    then (if l2_size ci = 0 then ci\<lparr>l2_size := cache_size\<rparr> else ci\<lparr>l3_size := cache_size\<rparr>)
                    else ci)
         in if type = 3 \<and> max_sharing > cores_per_pkg ci1 then ci1\<lparr>cores_per_pkg := max_sharing\<rparr> else ci1))"

partial_function (option) cache_loop ::
  "(u32 \<Rightarrow> u32 \<Rightarrow> cpuid_regs) \<Rightarrow> u32 \<Rightarrow> brights_cpu_info_t \<Rightarrow> brights_cpu_info_t option" where
  "cache_loop q i ci =
     (if fst (q 4 i) AND 0x1F = 0 then Some ci else cache_loop q (i + 1) (cache_leaf i (q 4 i) ci))"

definition no_caches :: "brights_cpu_info_t \<Rightarrow> brights_cpu_info_t" where
  "no_caches ci = ci\<lparr>l1d_size := 0, l1d_line := 64, l1i_size := 0, l2_size := 0, l3_size := 0,
     threads_per_core := 1, cores_per_pkg := 1\<rparr>"

definition cache_defaults :: "brights_cpu_info_t \<Rightarrow> brights_cpu_info_t" where
  "cache_defaults ci =
     ci\<lparr>l1d_size := (if l1d_size ci = 0 then 32 * 1024 else l1d_size ci),
        l1i_size := (if l1i_size ci = 0 then 32 * 1024 else l1i_size ci),
        l2_size := (if l2_size ci = 0 then 512 * 1024 else l2_size ci),
        cores_per_pkg := (if cores_per_pkg ci \<le> 1 then 1 else cores_per_pkg ci),
        logical_cores := (if logical_cores ci \<le> 1 then 2 else logical_cores ci),
        threads_per_core := (if threads_per_core ci \<le> 1 then 1 else threads_per_core ci)\<rparr>"

definition invariant_tsc :: "(u32 \<Rightarrow> u32 \<Rightarrow> cpuid_regs) \<Rightarrow> brights_cpu_info_t \<Rightarrow> brights_cpu_info_t" where
  "invariant_tsc q ci =
     (if has_tsc ci \<and> max_ext_leaf ci \<ge> 0x80000007
      then (case q 0x80000007 0 of (_, _, _, edx) \<Rightarrow> ci\<lparr>tsc_invariant := bit edx 8\<rparr>)
      else ci)"

definition identify_cpu :: "(u32 \<Rightarrow> u32 \<Rightarrow> cpuid_regs) \<Rightarrow> brights_cpu_info_t \<Rightarrow> brights_cpu_info_t" where
  "identify_cpu q ci =
     (let ci1 = n270_quirks (cpu_features (q 1 0) (cpu_names q ci));
          ci2 = ci1\<lparr>logical_cores := reg_field 16 0xFF (fst (snd (q 1 0)))\<rparr>
      in if max_basic_leaf ci2 \<ge> 7 then ext_features (q 7 0) ci2 else ci2)"

definition brights_hwinfo_init :: "hwinfo \<Rightarrow> hwinfo option" where
  "brights_hwinfo_init s =
     (let q = cpuid s;
          ci = no_caches (identify_cpu q (cpu_info s))
      in case (if max_basic_leaf ci \<ge> 4 then cache_loop q 0 ci else Some ci) of
           None \<Rightarrow> None
         | Some ci' \<Rightarrow> Some (s\<lparr>cpu_info := invariant_tsc q (cache_defaults ci'), hwinfo_ready := True\<rparr>))"

definition brights_hwinfo_cpu :: "hwinfo \<Rightarrow> (hwinfo \<times> brights_cpu_info_t) option" where
  "brights_hwinfo_cpu s =
     (case (if \<not> hwinfo_ready s then brights_hwinfo_init s else Some s) of
        None \<Rightarrow> None
      | Some s' \<Rightarrow> Some (s', cpu_info s'))"

subsection \<open>Measuring the time-stamp counter\<close>

partial_function (option) pit_wait :: "(nat \<Rightarrow> bool) \<Rightarrow> nat \<Rightarrow> nat option" where
  "pit_wait out k = (if out k then Some k else pit_wait out (k + 1))"

definition brights_hwinfo_calibrate_tsc :: "hwinfo \<Rightarrow> hwinfo option" where
  "brights_hwinfo_calibrate_tsc s =
     (let (s1, tsc_start) = rdtsc_now s
      in case pit_wait (pit_output s1) 0 of
           None \<Rightarrow> None
         | Some _ \<Rightarrow>
             (let (s2, tsc_end) = rdtsc_now s1;
                  freq = (tsc_end - tsc_start) * 100;
                  freq' = (if freq < 500000000 \<or> freq > 6000000000
                           then (if is_n270 (cpu_info s2) then 1600000000 else 2400000000)
                           else freq)
              in Some (s2\<lparr>cpu_info := (cpu_info s2)\<lparr>ci_tsc_freq := freq'\<rparr>\<rparr>)))"

subsection \<open>The loops end\<close>

text \<open>Both loops return exactly if the hardware eventually answers, and then after the first
  answer.\<close>

lemma pit_wait_skip: "(\<And>i. k \<le> i \<Longrightarrow> i < n \<Longrightarrow> \<not> out i) \<Longrightarrow> k \<le> n \<Longrightarrow> pit_wait out k = pit_wait out n"
proof (induction "n - k" arbitrary: k)
  case (Suc d)
  then have "\<not> out k" by simp
  then have "pit_wait out k = pit_wait out (k + 1)" by (subst pit_wait.simps) simp
  also have "\<dots> = pit_wait out n" using Suc by simp
  finally show ?case .
qed simp

lemma pit_wait_returns: "out n \<Longrightarrow> k \<le> n \<Longrightarrow> \<exists>m. k \<le> m \<and> m \<le> n \<and> out m \<and> pit_wait out k = Some m"
proof -
  assume a: "out n" "k \<le> n"
  define m where "m = (LEAST m. k \<le> m \<and> out m)"
  have m: "k \<le> m" "out m" unfolding m_def using LeastI [of "\<lambda>m. k \<le> m \<and> out m" n] a by auto
  have "m \<le> n" unfolding m_def using a by (intro Least_le) simp
  have "\<not> out i" if "k \<le> i" "i < m" for i using not_less_Least [of i "\<lambda>m. k \<le> m \<and> out m"] that by (auto simp: m_def)
  then have "pit_wait out k = pit_wait out m" by (rule pit_wait_skip) (use m in auto)
  also have "\<dots> = Some m" using m(2) by (subst pit_wait.simps) simp
  finally show ?thesis using m \<open>m \<le> n\<close> by blast
qed

text \<open>The leaves of \<open>cpuid\<close> after which the cache loop ends.\<close>

definition cache_end :: "(u32 \<Rightarrow> u32 \<Rightarrow> cpuid_regs) \<Rightarrow> u32 \<Rightarrow> bool" where
  "cache_end q i \<longleftrightarrow> fst (q 4 i) AND 0x1F = 0"

lemma cache_loop_fold:
  "(\<And>j. j < n \<Longrightarrow> \<not> cache_end q (i + of_nat j)) \<Longrightarrow> cache_end q (i + of_nat n)
     \<Longrightarrow> cache_loop q i ci = Some (fold (\<lambda>j. cache_leaf (i + of_nat j) (q 4 (i + of_nat j))) [0..<n] ci)"
proof (induction n arbitrary: i ci)
  case 0
  then show ?case by (subst cache_loop.simps) (simp add: cache_end_def)
next
  case (Suc n)
  have e: "i + 1 + of_nat j = i + of_nat (Suc j)" for j by (simp add: algebra_simps)
  have "\<not> cache_end q i" using Suc.prems(1) [of 0] by simp
  then have "cache_loop q i ci = cache_loop q (i + 1) (cache_leaf i (q 4 i) ci)"
    by (subst cache_loop.simps) (simp add: cache_end_def)
  also have "\<dots> = Some (fold (\<lambda>j. cache_leaf (i + 1 + of_nat j) (q 4 (i + 1 + of_nat j))) [0..<n] (cache_leaf i (q 4 i) ci))"
  proof (rule Suc.IH)
    show "\<not> cache_end q (i + 1 + of_nat j)" if "j < n" for j using Suc.prems(1) [of "Suc j"] that by (simp only: e) simp
    show "cache_end q (i + 1 + of_nat n)" using Suc.prems(2) by (simp only: e)
  qed
  also have "\<dots> = Some (fold (\<lambda>j. cache_leaf (i + of_nat j) (q 4 (i + of_nat j))) (0 # map Suc [0..<n]) ci)"
    by (simp add: fold_map comp_def e del: of_nat_Suc)
  also have "0 # map Suc [0..<n] = [0..<Suc n]" by (simp add: upt_conv_Cons map_Suc_upt)
  finally show ?case .
qed

end
