(* ===== verification/Clock.thy ===== *)
theory Clock
  imports Hwinfo
begin

unbundle bit_operations_syntax

text \<open>
  Time: the tick counter and the nanosecond clock of \<open>kernel/clock.c\<close>, the event timer of
  \<open>arch/x86_64/hpet.c\<close> and the delays of \<open>kernel/sleep.c\<close>.

  The event timer is memory-mapped: \<open>hpet_cap\<close> is what its capability register reads,
  \<open>hpet_counter\<close> the successive readings of its main counter (\<open>hpet_reads\<close> counts them) and
  \<open>hpet_writes\<close> the stores to its registers, as pairs of register offset and value.  The waiting loop
  of \<open>brights_hpet_nsleep\<close> is a \<open>partial_function\<close>: \<open>None\<close> if the counter never gets there.
\<close>

record clock =
  clock_ticks :: u64
  tsc_freq :: u64
  hw :: hwinfo
  sleep_spin_counter :: u64
  hpet_base :: u64
  hpet_period_fs :: u32
  hpet_freq :: u64
  hpet_ready :: bool
  hpet_cap :: u64
  hpet_counter :: "nat \<Rightarrow> u64"
  hpet_reads :: nat
  hpet_writes :: "(nat \<times> u64) list"

subsection \<open>The clock\<close>

definition rdtsc :: "clock \<Rightarrow> clock \<times> u64" where
  "rdtsc c = (case rdtsc_now (hw c) of (h, v) \<Rightarrow> (c\<lparr>hw := h\<rparr>, v))"

definition clock_has_tsc :: "clock \<Rightarrow> bool" where
  "clock_has_tsc c = (case cpuid (hw c) 1 0 of (eax, ebx, ecx, edx) \<Rightarrow> bit edx 4)"

definition brights_clock_init :: "clock \<Rightarrow> clock" where
  "brights_clock_init c = c\<lparr>clock_ticks := 0, tsc_freq := 0\<rparr>"

definition brights_clock_tick :: "clock \<Rightarrow> clock" where
  "brights_clock_tick c = c\<lparr>clock_ticks := clock_ticks c + 1\<rparr>"

definition brights_clock_now_ticks :: "clock \<Rightarrow> u64" where
  "brights_clock_now_ticks c = clock_ticks c"

definition brights_clock_advance :: "u64 \<Rightarrow> clock \<Rightarrow> clock" where
  "brights_clock_advance ticks c = c\<lparr>clock_ticks := clock_ticks c + ticks\<rparr>"

definition brights_clock_calibrate :: "clock \<Rightarrow> clock option" where
  "brights_clock_calibrate c =
     (if tsc_freq c > 0 then Some c
      else if \<not> clock_has_tsc c then Some c
      else case brights_hwinfo_cpu (hw c) of
             None \<Rightarrow> None
           | Some (h, cpu) \<Rightarrow>
               (if ci_tsc_freq cpu > 0 then Some (c\<lparr>hw := h, tsc_freq := ci_tsc_freq cpu\<rparr>)
                else Some (c\<lparr>hw := h, tsc_freq := 2400000000\<rparr>)))"

definition calibrated :: "clock \<Rightarrow> clock option" where
  "calibrated c = (if tsc_freq c = 0 then brights_clock_calibrate c else Some c)"

definition tsc_to_ns :: "u64 \<Rightarrow> u64 \<Rightarrow> u64" where
  "tsc_to_ns freq tsc =
     (if freq \<ge> 1000000000 then tsc div (freq div 1000000000) else (tsc * 1000000000) div freq)"

definition brights_clock_ns :: "clock \<Rightarrow> (clock \<times> u64) option" where
  "brights_clock_ns c =
     (case calibrated c of
        None \<Rightarrow> None
      | Some c1 \<Rightarrow>
          (if tsc_freq c1 > 0 \<and> clock_has_tsc c1
           then (let (c2, tsc) = rdtsc c1 in Some (c2, tsc_to_ns (tsc_freq c2) tsc))
           else Some (c1, clock_ticks c1 * 10000000)))"

definition brights_clock_us :: "clock \<Rightarrow> (clock \<times> u64) option" where
  "brights_clock_us c = map_option (\<lambda>(c', ns). (c', ns div 1000)) (brights_clock_ns c)"

definition brights_clock_ms :: "clock \<Rightarrow> (clock \<times> u64) option" where
  "brights_clock_ms c = map_option (\<lambda>(c', ns). (c', ns div 1000000)) (brights_clock_ns c)"

definition brights_clock_tsc_freq :: "clock \<Rightarrow> (clock \<times> u64) option" where
  "brights_clock_tsc_freq c = map_option (\<lambda>c'. (c', tsc_freq c')) (calibrated c)"

subsection \<open>The event timer\<close>

definition HPET_REG_CONFIG :: nat where "HPET_REG_CONFIG = 0x010"
definition HPET_REG_COUNTER :: nat where "HPET_REG_COUNTER = 0x0F0"
definition HPET_CONFIG_ENABLE :: u64 where "HPET_CONFIG_ENABLE = 1"

definition read_counter :: "clock \<Rightarrow> clock \<times> u64" where
  "read_counter c = (c\<lparr>hpet_reads := hpet_reads c + 1\<rparr>, hpet_counter c (hpet_reads c))"

definition brights_hpet_init :: "u64 \<Rightarrow> clock \<Rightarrow> clock \<times> int" where
  "brights_hpet_init mmio_addr c =
     (let c1 = c\<lparr>hpet_base := mmio_addr\<rparr> in
      if mmio_addr = 0 then (c1, -1)
      else
        (let period = (ucast (drop_bit 32 (hpet_cap c1) AND 0xFFFFFFFF) :: u32);
             c2 = c1\<lparr>hpet_period_fs := period\<rparr>
         in if period = 0 \<or> period > 100000000 then (c2\<lparr>hpet_base := 0\<rparr>, -1)
            else (c2\<lparr>hpet_freq := 1000000000000000 div ucast period,
                     hpet_writes := hpet_writes c2 @ [(HPET_REG_CONFIG, HPET_CONFIG_ENABLE), (HPET_REG_COUNTER, 0)],
                     hpet_ready := True\<rparr>, 0)))"

definition brights_hpet_read_counter :: "clock \<Rightarrow> clock \<times> u64" where
  "brights_hpet_read_counter c = (if \<not> hpet_ready c \<or> hpet_base c = 0 then (c, 0) else read_counter c)"

definition brights_hpet_period_fs :: "clock \<Rightarrow> u32" where
  "brights_hpet_period_fs c = hpet_period_fs c"

definition brights_hpet_freq :: "clock \<Rightarrow> u64" where
  "brights_hpet_freq c = hpet_freq c"

definition ns_to_ticks :: "u32 \<Rightarrow> u64 \<Rightarrow> u64" where
  "ns_to_ticks period ns =
     (if period \<le> 1000000 then ns * (1000000 div ucast period) else ns div (ucast period div 1000000))"

partial_function (option) hpet_wait :: "u64 \<Rightarrow> u64 \<Rightarrow> clock \<Rightarrow> clock option" where
  "hpet_wait start ticks c =
     (if snd (read_counter c) - start < ticks then hpet_wait start ticks (fst (read_counter c))
      else Some (fst (read_counter c)))"

definition brights_hpet_nsleep :: "u64 \<Rightarrow> clock \<Rightarrow> clock option" where
  "brights_hpet_nsleep ns c =
     (if \<not> hpet_ready c \<or> hpet_base c = 0 then Some c
      else
        (let ticks = ns_to_ticks (hpet_period_fs c) ns; (c1, start) = read_counter c
         in hpet_wait start ticks c1))"

subsection \<open>Sleeping\<close>

definition brights_sleep_cycles :: "u64 \<Rightarrow> clock \<Rightarrow> clock" where
  "brights_sleep_cycles cycles c = c\<lparr>sleep_spin_counter := sleep_spin_counter c + cycles\<rparr>"

definition brights_sleep_us :: "u64 \<Rightarrow> clock \<Rightarrow> clock option" where
  "brights_sleep_us us c = brights_hpet_nsleep (us * 1000) c"

definition brights_sleep_ms :: "u64 \<Rightarrow> clock \<Rightarrow> clock option" where
  "brights_sleep_ms ms c = brights_hpet_nsleep (ms * 1000000) c"

definition brights_sleep_counter :: "clock \<Rightarrow> u64" where
  "brights_sleep_counter c = sleep_spin_counter c"

subsection \<open>From counter cycles to nanoseconds\<close>

lemma unat_const_u64 [simp]: "unat (1000000000 :: u64) = 1000000000" "unat (1000000 :: u64) = 1000000"
  by simp_all

text \<open>Dividing by the whole gigahertz of the frequency: never slow, and less than twice too fast.\<close>

lemma tsc_to_ns_bounds:
  assumes "1000000000 \<le> freq"
  shows "unat tsc * 1000000000 div unat freq \<le> unat (tsc_to_ns freq tsc)"
    and "unat (tsc_to_ns freq tsc) < 2 * (unat tsc * 1000000000 div unat freq + 1)"
proof -
  define q where "q = unat freq div 1000000000"
  define T where "T = unat tsc * 1000000000 div unat freq"
  have f: "1000000000 \<le> unat freq" using assms by (simp add: word_le_nat_alt)
  then have q: "0 < q" by (simp add: q_def div_greater_zero_iff)
  have lo: "q * 1000000000 \<le> unat freq" by (simp add: q_def)
  have hi: "unat freq \<le> 2 * q * 1000000000" using q mod_less_divisor [of 1000000000 "unat freq"]
    div_mult_mod_eq [of "unat freq" 1000000000] by (simp add: q_def)
  have ns: "unat (tsc_to_ns freq tsc) = unat tsc div q"
    using assms by (simp add: tsc_to_ns_def unat_div q_def)
  have "unat tsc * 1000000000 div unat freq \<le> unat tsc * 1000000000 div (q * 1000000000)"
    using lo q by (intro div_le_mono2) simp_all
  then show "unat tsc * 1000000000 div unat freq \<le> unat (tsc_to_ns freq tsc)" by (simp add: ns)
  have "unat tsc * 1000000000 < (T + 1) * unat freq"
    using dividend_less_div_times [of "unat freq" "unat tsc * 1000000000"] f by (simp add: T_def algebra_simps)
  also have "\<dots> \<le> (T + 1) * (2 * q * 1000000000)" using hi by (rule mult_le_mono2)
  finally have "unat tsc < 2 * (T + 1) * q" by simp
  then show "unat (tsc_to_ns freq tsc) < 2 * (unat tsc * 1000000000 div unat freq + 1)"
    unfolding ns T_def [symmetric] using q by (simp add: less_mult_imp_div_less)
qed

text \<open>Below one gigahertz the product is formed first, and wraps.\<close>

lemma tsc_to_ns_slow:
  "freq < 1000000000 \<Longrightarrow> unat (tsc_to_ns freq tsc) = unat tsc * 1000000000 mod 2 ^ 64 div unat freq"
  by (simp add: tsc_to_ns_def unat_div unat_word_ariths)

text \<open>The stored frequency: a hundred times the cycles counted, or a guess when that is out of range.\<close>

lemma calibrate_tsc_exact:
  assumes "pit_output h n"
  shows "\<exists>h'. brights_hwinfo_calibrate_tsc h = Some h' \<and> hwinfo_ready h' = hwinfo_ready h \<and> cpuid h' = cpuid h
    \<and> tsc_values h' = tsc_values h \<and> tsc_reads h' = tsc_reads h + 2
    \<and> ci_tsc_freq (cpu_info h') =
        (let fr = (tsc_values h (tsc_reads h + 1) - tsc_values h (tsc_reads h)) * 100
         in if fr < 500000000 \<or> 6000000000 < fr then (if is_n270 (cpu_info h) then 1600000000 else 2400000000) else fr)"
proof -
  obtain m where "pit_wait (pit_output h) 0 = Some m" using pit_wait_returns [of "pit_output h" n 0] assms by auto
  then show ?thesis by (auto simp: brights_hwinfo_calibrate_tsc_def rdtsc_now_def Let_def not_less)
qed

lemma hundredfold:
  fixes d :: u64
  assumes "unat d * 100 < 2 ^ 64"
  shows "unat (d * 100) = 100 * unat d"
    "d * 100 < 500000000 \<or> 6000000000 < d * 100 \<longleftrightarrow> \<not> (5000000 \<le> unat d \<and> unat d \<le> 60000000)"
proof -
  show u: "unat (d * 100) = 100 * unat d" using assms by (simp add: unat_word_ariths mult.commute)
  show "d * 100 < 500000000 \<or> 6000000000 < d * 100 \<longleftrightarrow> \<not> (5000000 \<le> unat d \<and> unat d \<le> 60000000)"
    unfolding word_less_nat_alt u by auto
qed

text \<open>The time a count stands for, in nanoseconds, when \<open>d\<close> cycles were counted while the interval timer counted
  11932 periods of its 1193182 per second.\<close>

definition true_ns :: "nat \<Rightarrow> nat \<Rightarrow> nat" where
  "true_ns d t = t * 1000000000 * 11932 div (d * 1193182)"

lemma rounded_true_ns:
  assumes "0 < d"
  shows "t * 1000000000 div (100 * d) \<le> true_ns d t"
    "99998 * true_ns d t \<le> 100000 * (t * 1000000000 div (100 * d) + 1)"
proof -
  define T0 where "T0 = t * 10000000 div d"
  have T0: "t * 1000000000 div (100 * d) = T0"
    using div_mult_mult1 [of 100 "t * 10000000" d] by (simp add: T0_def)
  have lo: "T0 * d \<le> t * 10000000" by (simp add: T0_def)
  have hi: "t * 10000000 < (T0 + 1) * d"
    using dividend_less_div_times [of d "t * 10000000"] assms by (simp add: T0_def algebra_simps)
  have "T0 * (d * 1193182) \<le> t * 1000000000 * 11932" using mult_le_mono1 [OF lo, of 1193182] by (simp add: algebra_simps)
  then show "t * 1000000000 div (100 * d) \<le> true_ns d t"
    using assms unfolding T0 true_ns_def by (simp add: less_eq_div_iff_mult_less_eq)
  have "true_ns d t * (d * 1193182) \<le> t * 1000000000 * 11932" by (simp only: true_ns_def div_times_less_eq_dividend)
  also have "\<dots> \<le> (T0 + 1) * d * 1193200" using hi by simp
  finally have "d * (true_ns d t * 1193182) \<le> d * ((T0 + 1) * 1193200)" by (simp add: algebra_simps)
  then have "true_ns d t * 1193182 \<le> (T0 + 1) * 1193200" using assms by (simp only: mult_le_cancel1)
  then show "99998 * true_ns d t \<le> 100000 * (t * 1000000000 div (100 * d) + 1)" unfolding T0 by linarith
qed

lemma clock_ns_first:
  assumes "tsc_freq c = 0" "clock_has_tsc c" "hwinfo_ready (hw c)" "0 < ci_tsc_freq (cpu_info (hw c))"
  shows "brights_clock_ns c =
    Some (c\<lparr>tsc_freq := ci_tsc_freq (cpu_info (hw c)), hw := (hw c)\<lparr>tsc_reads := tsc_reads (hw c) + 1\<rparr>\<rparr>,
          tsc_to_ns (ci_tsc_freq (cpu_info (hw c))) (tsc_values (hw c) (tsc_reads (hw c))))"
  using assms by (simp add: brights_clock_ns_def calibrated_def brights_clock_calibrate_def brights_hwinfo_cpu_def
      clock_has_tsc_def rdtsc_def rdtsc_now_def)

text \<open>C36: a clock that is calibrated against the interval timer and then read for the first time, against the time that
  the count stands for when the difference \<open>d\<close> of the two readings passed in the 11932 timer periods of the
  calibration (10 ms).  For \<open>d\<close> between 5 and 60 million, a counter of 0.5 to 6 GHz, the stored frequency is \<open>100 * d\<close>; from 1 GHz
  on the clock is at most two in 100000 and a nanosecond slow and less than twice (and two nanoseconds) fast; below 1 GHz it
  is as exact until the product of count and factor reaches \<open>2^64\<close>, after 18 to 37 seconds, and
  starts over there.  For other differences (up to \<open>2^64 / 100\<close>) the frequency is a guess that does not depend on the measurement.\<close>
theorem calibrated_clock_accuracy:
  assumes "pit_output (hw c) n" "hwinfo_ready (hw c)" "tsc_freq c = 0" "clock_has_tsc c"
    and "d = unat (tsc_values (hw c) (tsc_reads (hw c) + 1) - tsc_values (hw c) (tsc_reads (hw c)))" "d * 100 < 2 ^ 64"
    and "t = unat (tsc_values (hw c) (tsc_reads (hw c) + 2))"
  shows "\<exists>h c' ns. brights_hwinfo_calibrate_tsc (hw c) = Some h \<and> brights_clock_ns (c\<lparr>hw := h\<rparr>) = Some (c', ns)
    \<and> (if 5000000 \<le> d \<and> d \<le> 60000000 then
         unat (tsc_freq c') = 100 * d
         \<and> (if 10000000 \<le> d \<or> t * 1000000000 < 2 ^ 64
            then 99998 * true_ns d t \<le> 100000 * (unat ns + 1)
              \<and> (if 10000000 \<le> d then unat ns < 2 * (true_ns d t + 1) else unat ns \<le> true_ns d t)
            else unat ns = t * 1000000000 mod 2 ^ 64 div (100 * d))
       else tsc_freq c' = (if is_n270 (cpu_info (hw c)) then 1600000000 else 2400000000))"
proof -
  define w where "w = tsc_values (hw c) (tsc_reads (hw c) + 1) - tsc_values (hw c) (tsc_reads (hw c))"
  have d: "d = unat w" "unat w * 100 < 2 ^ 64" using assms(5,6) by (simp_all add: w_def)
  obtain h where h: "brights_hwinfo_calibrate_tsc (hw c) = Some h" "hwinfo_ready h" "cpuid h = cpuid (hw c)"
    "tsc_values h = tsc_values (hw c)" "tsc_reads h = tsc_reads (hw c) + 2"
    and f: "ci_tsc_freq (cpu_info h) = (if 5000000 \<le> d \<and> d \<le> 60000000 then w * 100
      else if is_n270 (cpu_info (hw c)) then 1600000000 else 2400000000)"
    using calibrate_tsc_exact [OF assms(1)] assms(2) hundredfold(2) [OF d(2)] unfolding d(1) w_def [symmetric] Let_def by auto
  let ?f = "ci_tsc_freq (cpu_info h)" and ?v = "tsc_values h (tsc_reads h)"
  have v: "unat ?v = t" using h(4,5) assms(7) by simp
  have u: "unat (w * 100) = 100 * d" using hundredfold(1) [OF d(2)] d(1) by simp
  have "0 < unat ?f" using f u by auto
  then have ns: "brights_clock_ns (c\<lparr>hw := h\<rparr>) = Some (c\<lparr>hw := h\<lparr>tsc_reads := tsc_reads h + 1\<rparr>, tsc_freq := ?f\<rparr>, tsc_to_ns ?f ?v)"
    using clock_ns_first [of "c\<lparr>hw := h\<rparr>"] assms(3,4) h by (simp add: clock_has_tsc_def word_less_nat_alt)
  show ?thesis
  proof (cases "5000000 \<le> d \<and> d \<le> 60000000")
    case True
    then have F: "?f = w * 100" and pos: "0 < d" using f by auto
    have g: "1000000000 \<le> ?f \<longleftrightarrow> 10000000 \<le> d" unfolding F word_le_nat_alt u by auto
    note R = rounded_true_ns [OF pos, of t] and B = tsc_to_ns_bounds [of ?f ?v] tsc_to_ns_slow [of ?f ?v]
    have "10000000 \<le> d \<Longrightarrow> t * 1000000000 div (100 * d) \<le> unat (tsc_to_ns ?f ?v)
        \<and> unat (tsc_to_ns ?f ?v) < 2 * (t * 1000000000 div (100 * d) + 1)"
      and "\<not> 10000000 \<le> d \<Longrightarrow> unat (tsc_to_ns ?f ?v) = t * 1000000000 mod 2 ^ 64 div (100 * d)"
      using B g unfolding v F u by (auto simp: not_le)
    then have N: "if 10000000 \<le> d \<or> t * 1000000000 < 2 ^ 64
            then 99998 * true_ns d t \<le> 100000 * (unat (tsc_to_ns ?f ?v) + 1)
              \<and> (if 10000000 \<le> d then unat (tsc_to_ns ?f ?v) < 2 * (true_ns d t + 1) else unat (tsc_to_ns ?f ?v) \<le> true_ns d t)
            else unat (tsc_to_ns ?f ?v) = t * 1000000000 mod 2 ^ 64 div (100 * d)"
      using R by (cases "10000000 \<le> d") auto
    show ?thesis unfolding if_P [OF True] by (intro exI conjI, rule h(1), rule ns, use u F in simp, rule N)
  next
    case False
    then show ?thesis using h(1) ns f by auto
  qed
qed

subsection \<open>Delays\<close>

lemma hpet_wait_skip:
  assumes "\<And>i. hpet_reads c \<le> i \<Longrightarrow> i < m \<Longrightarrow> hpet_counter c i - start < ticks" "hpet_reads c \<le> m"
    "ticks \<le> hpet_counter c m - start"
  shows "hpet_wait start ticks c = Some (c\<lparr>hpet_reads := m + 1\<rparr>)"
  using assms
proof (induction "m - hpet_reads c" arbitrary: c)
  case 0
  then show ?case by (subst hpet_wait.simps) (simp add: read_counter_def leD)
next
  case (Suc d)
  let ?c = "c\<lparr>hpet_reads := hpet_reads c + 1\<rparr>"
  have "hpet_wait start ticks c = hpet_wait start ticks ?c"
    using Suc.prems(1) [of "hpet_reads c"] Suc.hyps(2) by (subst hpet_wait.simps) (simp add: read_counter_def)
  also have "\<dots> = Some (?c\<lparr>hpet_reads := m + 1\<rparr>)" using Suc.hyps(2) Suc.prems by (intro Suc.hyps(1)) auto
  finally show ?case by simp
qed

lemma hpet_wait_returns:
  assumes "hpet_reads c \<le> n" "ticks \<le> hpet_counter c n - start"
  shows "\<exists>m. hpet_reads c \<le> m \<and> m \<le> n \<and> ticks \<le> hpet_counter c m - start
    \<and> hpet_wait start ticks c = Some (c\<lparr>hpet_reads := m + 1\<rparr>)"
proof -
  let ?P = "\<lambda>m. hpet_reads c \<le> m \<and> ticks \<le> hpet_counter c m - start"
  define m where "m = (LEAST m. ?P m)"
  have m: "?P m" unfolding m_def by (rule LeastI [of ?P n]) (use assms in simp)
  have "m \<le> n" unfolding m_def by (rule Least_le) (use assms in simp)
  have "hpet_counter c i - start < ticks" if "hpet_reads c \<le> i" "i < m" for i
    using not_less_Least [of i ?P] that by (auto simp: m_def not_le)
  then have "hpet_wait start ticks c = Some (c\<lparr>hpet_reads := m + 1\<rparr>)" using m by (intro hpet_wait_skip) auto
  with m \<open>m \<le> n\<close> show ?thesis by blast
qed

lemma ns_to_ticks_enough:
  assumes "1000000 < period"
  shows "unat ns * 1000000 < (unat (ns_to_ticks period ns) + 1) * unat period"
proof -
  define k where "k = unat period div 1000000"
  have p: "1000000 < unat period" using assms by (simp add: word_less_nat_alt)
  then have k: "0 < k" by (simp add: k_def div_greater_zero_iff)
  have t: "unat (ns_to_ticks period ns) = unat ns div k"
    using assms by (simp add: ns_to_ticks_def unat_div k_def not_le [symmetric])
  have "unat ns < (unat ns div k + 1) * k" using dividend_less_div_times [OF k] by (simp add: algebra_simps)
  then have "unat ns * 1000000 < (unat ns div k + 1) * (k * 1000000)" by simp
  also have "\<dots> \<le> (unat ns div k + 1) * unat period" by (intro mult_le_mono2) (simp add: k_def)
  finally show ?thesis by (simp add: t)
qed

text \<open>C37: a delay of \<open>ms\<close> milliseconds on a running event timer whose period exceeds a nanosecond ends as
  soon as some reading of the counter is far enough from the first one, at the first such reading, and
  not before the time asked for has passed, up to one period of the counter: the counter has
  advanced by \<open>d\<close> periods of \<open>p\<close> femtoseconds with \<open>ms * 10^12 < (d + 1) * p\<close>.\<close>
theorem sleep_ms_returns_after_delay:
  assumes "hpet_ready c" "hpet_base c \<noteq> 0" "1000000 < hpet_period_fs c" "unat ms * 1000000 < 2 ^ 64"
    and "hpet_reads c < n"
    and "ns_to_ticks (hpet_period_fs c) (ms * 1000000) \<le> hpet_counter c n - hpet_counter c (hpet_reads c)"
  shows "\<exists>m. hpet_reads c < m \<and> m \<le> n \<and> brights_sleep_ms ms c = Some (c\<lparr>hpet_reads := m + 1\<rparr>)
    \<and> unat ms * 1000000000000
        < (unat (hpet_counter c m - hpet_counter c (hpet_reads c)) + 1) * unat (hpet_period_fs c)"
proof -
  let ?start = "hpet_counter c (hpet_reads c)" and ?ticks = "ns_to_ticks (hpet_period_fs c) (ms * 1000000)"
  let ?c = "c\<lparr>hpet_reads := hpet_reads c + 1\<rparr>"
  obtain m where m: "hpet_reads c + 1 \<le> m" "m \<le> n" "?ticks \<le> hpet_counter c m - ?start"
    and w: "hpet_wait ?start ?ticks ?c = Some (?c\<lparr>hpet_reads := m + 1\<rparr>)"
    using hpet_wait_returns [of ?c n ?ticks ?start] assms(5,6) by auto
  have "unat (ms * 1000000) = unat ms * 1000000" using assms(4) by (simp add: unat_word_ariths)
  then have "unat ms * 1000000000000 < (unat ?ticks + 1) * unat (hpet_period_fs c)"
    using ns_to_ticks_enough [OF assms(3), of "ms * 1000000"] by simp
  also have "\<dots> \<le> (unat (hpet_counter c m - ?start) + 1) * unat (hpet_period_fs c)"
    using m(3) by (intro mult_le_mono1) (simp add: word_le_nat_alt)
  finally have e: "unat ms * 1000000000000 < (unat (hpet_counter c m - ?start) + 1) * unat (hpet_period_fs c)" .
  have "brights_sleep_ms ms c = Some (c\<lparr>hpet_reads := m + 1\<rparr>)"
    using assms(1,2) w by (simp add: brights_sleep_ms_def brights_hpet_nsleep_def read_counter_def)
  then show ?thesis using m e by (intro exI [of _ m]) simp
qed

subsection \<open>Concrete clocks\<close>

definition demo_hwinfo :: hwinfo where
  "demo_hwinfo = \<lparr>cpu_info = \<lparr>vendor = [], brand = [], family = 6, model = 0x1C, stepping = 0, max_basic_leaf = 0,
     max_ext_leaf = 0, has_apic = False, has_x2apic = False, has_tsc = True, has_msr = False, has_sse = False,
     has_sse2 = False, has_sse3 = False, has_ssse3 = False, has_sse41 = False, has_sse42 = False, has_aes = False,
     has_xsave = False, has_avx = False, has_f16c = False, has_rdrand = False, has_avx2 = False, has_avx512f = False,
     has_bmi1 = False, has_bmi2 = False, has_smep = False, has_smap = False, has_pku = False, has_umip = False,
     l1d_size = 0, l1d_line = 0, l1i_size = 0, l2_size = 0, l3_size = 0, logical_cores = 0, cores_per_pkg = 0,
     threads_per_core = 0, ci_tsc_freq = 0, tsc_invariant = False\<rparr>,
     hwinfo_ready = True, cpuid = (\<lambda>l i. (0, 0, 0, 16)), tsc_values = (\<lambda>k. of_nat k * 24000000), tsc_reads = 0,
     pit_output = (\<lambda>k. 3 \<le> k)\<rparr>"

definition demo_clock :: clock where
  "demo_clock = \<lparr>clock_ticks = 0, tsc_freq = 0, hw = demo_hwinfo, sleep_spin_counter = 0, hpet_base = 0xFED00000,
     hpet_period_fs = 69841279, hpet_freq = 14318179, hpet_ready = True, hpet_cap = 0,
     hpet_counter = (\<lambda>k. of_nat k * 1000), hpet_reads = 0, hpet_writes = []\<rparr>"

text \<open>At 2.4 GHz, 48 million cycles are 20 milliseconds; the clock reads 24.\<close>

lemma calibrated_clock_accuracy_witness:
  "\<exists>h c' ns. brights_hwinfo_calibrate_tsc demo_hwinfo = Some h
     \<and> brights_clock_ns (demo_clock\<lparr>hw := h\<rparr>) = Some (c', ns)
     \<and> unat (tsc_freq c') = 2400000000 \<and> 20000301 \<le> unat ns + 402 \<and> unat ns < 40000604"
proof -
  have "true_ns 24000000 48000000 = 20000301" by (simp add: true_ns_def)
  then show ?thesis
    using calibrated_clock_accuracy [of demo_clock 3 24000000 48000000]
    by (auto simp: demo_clock_def demo_hwinfo_def clock_has_tsc_def bit_numeral_rec)
qed

lemma sleep_ms_returns_after_delay_witness:
  "\<exists>m. m \<le> 15 \<and> brights_sleep_ms 1 demo_clock = Some (demo_clock\<lparr>hpet_reads := m + 1\<rparr>)
     \<and> 1000000000000 < (unat (of_nat m * 1000 :: u64) + 1) * 69841279"
  using sleep_ms_returns_after_delay [of demo_clock 1 15]
  by (simp add: demo_clock_def ns_to_ticks_def) blast

end
