(* ===== verification/Blockdev.thy ===== *)
theory Blockdev
  imports Packet
begin

unbundle bit_operations_syntax

text \<open>
  Block devices: the registry of \<open>drivers/block.c\<close>, the RAM disk of \<open>drivers/ramdisk.c\<close> and the choice
  of the system disk in \<open>kernel/storage.c\<close>.

  A pointer to a device is a reference: the static \<open>ram_dev\<close>, or the device a hardware driver
  registered under some number.  A function pointer of a device is the RAM disk's function or that of a
  driver; what a driver's read function returns, and the bytes it stores, are inputs of the model.
  The storage of the RAM disk is the list \<open>ram_base\<close> of its bytes; the result \<open>None\<close> is an access
  outside it.  A buffer passed in is the list of its bytes, a buffer filled is the list of the bytes
  stored from its start.
\<close>

subsection \<open>Devices\<close>

definition BRIGHTS_BLOCK_SIZE :: u64 where "BRIGHTS_BLOCK_SIZE = 4096"
definition BRIGHTS_MAX_BLOCK_DEVS :: nat where "BRIGHTS_MAX_BLOCK_DEVS = 8"

datatype dev_type = DevNone | DevNvme | DevAhci | DevRamdisk
datatype devref = RamDev | HwDev nat
datatype read_fn = RamdiskRead | HwRead "u64 \<Rightarrow> u64 \<Rightarrow> int \<times> u8 list"
datatype write_fn = RamdiskWrite | HwWrite "u64 \<Rightarrow> u8 list \<Rightarrow> u64 \<Rightarrow> int"

record brights_block_dev_t =
  dev_read :: "read_fn option"
  dev_write :: "write_fn option"
  dev_name :: string
  dev_kind :: dev_type
  dev_total_blocks :: u64
  dev_block_size :: u32
  dev_ready :: bool

record block =
  root_dev :: "devref option"
  block_devs :: "devref list"
  ram_base :: "u8 list"
  ram_size :: u64
  ram_dev :: brights_block_dev_t
  hw_dev :: "nat \<Rightarrow> brights_block_dev_t"

definition dev_at :: "devref \<Rightarrow> block \<Rightarrow> brights_block_dev_t" where
  "dev_at r s = (case r of RamDev \<Rightarrow> ram_dev s | HwDev k \<Rightarrow> hw_dev s k)"

definition brights_block_set_root :: "devref option \<Rightarrow> block \<Rightarrow> block" where
  "brights_block_set_root dev s = s\<lparr>root_dev := dev\<rparr>"

definition brights_block_root :: "block \<Rightarrow> devref option" where
  "brights_block_root s = root_dev s"

definition brights_block_register :: "devref option \<Rightarrow> block \<Rightarrow> block \<times> int" where
  "brights_block_register dev s =
     (case dev of
        None \<Rightarrow> (s, -1)
      | Some d \<Rightarrow>
          (if length (block_devs s) \<ge> BRIGHTS_MAX_BLOCK_DEVS then (s, -1)
           else (s\<lparr>block_devs := block_devs s @ [d]\<rparr>, int (length (block_devs s)))))"

definition brights_block_get :: "int \<Rightarrow> block \<Rightarrow> devref option" where
  "brights_block_get index s =
     (if index < 0 \<or> index \<ge> int (length (block_devs s)) then None else Some (block_devs s ! nat index))"

definition brights_block_count :: "block \<Rightarrow> int" where
  "brights_block_count s = int (length (block_devs s))"

subsection \<open>The RAM disk\<close>

definition ramdisk_read :: "u64 \<Rightarrow> u64 \<Rightarrow> block \<Rightarrow> (int \<times> u8 list) option" where
  "ramdisk_read lba count s =
     (let offset = lba * BRIGHTS_BLOCK_SIZE; bytes = count * BRIGHTS_BLOCK_SIZE in
      if offset + bytes > ram_size s then Some (-1, [])
      else map_option (\<lambda>bs. (0, bs)) (bytes_at (ram_base s) (unat offset) (unat bytes)))"

definition ramdisk_write :: "u64 \<Rightarrow> u8 list \<Rightarrow> u64 \<Rightarrow> block \<Rightarrow> (block \<times> int) option" where
  "ramdisk_write lba buf count s =
     (let offset = lba * BRIGHTS_BLOCK_SIZE; bytes = count * BRIGHTS_BLOCK_SIZE in
      if offset + bytes > ram_size s then Some (s, -1)
      else do {
        src \<leftarrow> bytes_at buf 0 (unat bytes);
        base \<leftarrow> put_bytes (unat offset) src (ram_base s);
        Some (s\<lparr>ram_base := base\<rparr>, 0)
      })"

definition brights_ramdisk_init :: "u8 list \<Rightarrow> u64 \<Rightarrow> block \<Rightarrow> block" where
  "brights_ramdisk_init base sz s =
     fst (brights_block_register (Some RamDev)
       (s\<lparr>ram_base := base, ram_size := sz,
          ram_dev := \<lparr>dev_read = Some RamdiskRead, dev_write = Some RamdiskWrite, dev_name = ''ram0'',
                      dev_kind = DevRamdisk, dev_total_blocks = sz div BRIGHTS_BLOCK_SIZE,
                      dev_block_size = ucast BRIGHTS_BLOCK_SIZE, dev_ready = True\<rparr>\<rparr>))"

definition brights_ramdisk_dev :: devref where
  "brights_ramdisk_dev = RamDev"

subsection \<open>The root device\<close>

definition call_read :: "read_fn \<Rightarrow> u64 \<Rightarrow> u64 \<Rightarrow> block \<Rightarrow> (int \<times> u8 list) option" where
  "call_read f lba count s = (case f of RamdiskRead \<Rightarrow> ramdisk_read lba count s | HwRead g \<Rightarrow> Some (g lba count))"

definition call_write :: "write_fn \<Rightarrow> u64 \<Rightarrow> u8 list \<Rightarrow> u64 \<Rightarrow> block \<Rightarrow> (block \<times> int) option" where
  "call_write f lba buf count s =
     (case f of RamdiskWrite \<Rightarrow> ramdisk_write lba buf count s | HwWrite g \<Rightarrow> Some (s, g lba buf count))"

definition brights_disk_read :: "u64 \<Rightarrow> u64 \<Rightarrow> block \<Rightarrow> (int \<times> u8 list) option" where
  "brights_disk_read lba nblocks s =
     (case brights_block_root s of
        None \<Rightarrow> Some (-1, [])
      | Some r \<Rightarrow> (case dev_read (dev_at r s) of None \<Rightarrow> Some (-1, []) | Some f \<Rightarrow> call_read f lba nblocks s))"

definition brights_disk_write :: "u64 \<Rightarrow> u8 list \<Rightarrow> u64 \<Rightarrow> block \<Rightarrow> (block \<times> int) option" where
  "brights_disk_write lba buf nblocks s =
     (case brights_block_root s of
        None \<Rightarrow> Some (s, -1)
      | Some r \<Rightarrow> (case dev_write (dev_at r s) of None \<Rightarrow> Some (s, -1) | Some f \<Rightarrow> call_write f lba buf nblocks s))"

subsection \<open>Choosing the system disk\<close>

text \<open>
  The devices found on the PCI bus and the initialisers of the two drivers are inputs: an
  initialiser maps a device and the registry to the new registry (it registers its device and
  makes it the root) and its status.
\<close>

record brights_pci_device_t =
  pci_class_code :: u8
  pci_subclass :: u8
  pci_prog_if :: u8

type_synonym drv_init = "brights_pci_device_t \<Rightarrow> block \<Rightarrow> block \<times> int"

record storage =
  st_block :: block
  storage_backend :: string

definition is_nvme :: "brights_pci_device_t \<Rightarrow> bool" where
  "is_nvme d \<longleftrightarrow> pci_class_code d = 0x01 \<and> pci_subclass d = 0x08 \<and> pci_prog_if d = 0x02"

definition is_ahci :: "brights_pci_device_t \<Rightarrow> bool" where
  "is_ahci d \<longleftrightarrow> pci_class_code d = 0x01 \<and> pci_subclass d = 0x06 \<and> pci_prog_if d = 0x01"

fun try_devices :: "(brights_pci_device_t \<Rightarrow> bool) \<Rightarrow> drv_init \<Rightarrow> brights_pci_device_t list \<Rightarrow> block \<Rightarrow> block \<times> bool" where
  "try_devices sel drv [] s = (s, False)"
| "try_devices sel drv (d # ds) s =
     (if sel d
      then (case drv d s of (s', r) \<Rightarrow> (if r = 0 then (s', True) else try_devices sel drv ds s'))
      else try_devices sel drv ds s)"

definition brights_storage_bootstrap ::
  "brights_pci_device_t list \<Rightarrow> drv_init \<Rightarrow> drv_init \<Rightarrow> u8 list \<Rightarrow> storage \<Rightarrow> storage \<times> int" where
  "brights_storage_bootstrap devs nvme_init ahci_init ramdisk_storage s =
     (case try_devices is_nvme nvme_init (take 64 devs) (st_block s) of
        (b1, True) \<Rightarrow> (s\<lparr>st_block := b1, storage_backend := ''nvme''\<rparr>, 0)
      | (b1, False) \<Rightarrow>
          (case try_devices is_ahci ahci_init (take 64 devs) b1 of
             (b2, True) \<Rightarrow> (s\<lparr>st_block := b2, storage_backend := ''ahci''\<rparr>, 0)
           | (b2, False) \<Rightarrow>
               (s\<lparr>st_block := brights_block_set_root (Some brights_ramdisk_dev)
                    (brights_ramdisk_init ramdisk_storage (64 * 4096) b2),
                  storage_backend := ''ramdisk''\<rparr>, 0)))"

definition brights_storage_backend :: "storage \<Rightarrow> string" where
  "brights_storage_backend s = storage_backend s"

subsection \<open>Blocks of the RAM disk\<close>

text \<open>The disk is sound when its storage has the size it was told.\<close>

definition ramdisk_ok :: "block \<Rightarrow> bool" where
  "ramdisk_ok s \<longleftrightarrow> length (ram_base s) = unat (ram_size s)"

text \<open>\<open>n\<close> blocks from block \<open>k\<close> on.\<close>

definition blocks_of :: "block \<Rightarrow> nat \<Rightarrow> nat \<Rightarrow> u8 list" where
  "blocks_of s k n = take (n * 4096) (drop (k * 4096) (ram_base s))"

lemma block_span:
  fixes lba count :: u64
  assumes "(unat lba + unat count) * 4096 < 2 ^ 64"
  shows "unat (lba * BRIGHTS_BLOCK_SIZE) = unat lba * 4096" "unat (count * BRIGHTS_BLOCK_SIZE) = unat count * 4096"
    "unat (lba * BRIGHTS_BLOCK_SIZE + count * BRIGHTS_BLOCK_SIZE) = unat lba * 4096 + unat count * 4096"
proof -
  have *: "unat lba * 4096 < 2 ^ 64" "unat count * 4096 < 2 ^ 64" using assms by simp_all
  show 1: "unat (lba * BRIGHTS_BLOCK_SIZE) = unat lba * 4096" using *(1) by (simp add: BRIGHTS_BLOCK_SIZE_def unat_word_ariths)
  show 2: "unat (count * BRIGHTS_BLOCK_SIZE) = unat count * 4096" using *(2) by (simp add: BRIGHTS_BLOCK_SIZE_def unat_word_ariths)
  show "unat (lba * BRIGHTS_BLOCK_SIZE + count * BRIGHTS_BLOCK_SIZE) = unat lba * 4096 + unat count * 4096"
    using assms unat_add_lem [of "lba * BRIGHTS_BLOCK_SIZE" "count * BRIGHTS_BLOCK_SIZE"] unfolding 1 2 by simp
qed

text \<open>Where the byte numbers do not overflow, both operations are exact.\<close>

lemma ramdisk_read_exact:
  assumes "ramdisk_ok s" "(unat lba + unat count) * 4096 < 2 ^ 64"
  shows "ramdisk_read lba count s =
    Some (if (unat lba + unat count) * 4096 \<le> unat (ram_size s) then (0, blocks_of s (unat lba) (unat count)) else (-1, []))"
  using assms by (simp add: ramdisk_read_def Let_def word_less_nat_alt block_span [OF assms(2)] bytes_at_def ramdisk_ok_def
      blocks_of_def distrib_right)

lemma ramdisk_write_exact:
  assumes "ramdisk_ok s" "(unat lba + unat count) * 4096 < 2 ^ 64" "unat count * 4096 \<le> length buf"
  shows "ramdisk_write lba buf count s =
    Some (if (unat lba + unat count) * 4096 \<le> unat (ram_size s)
          then (s\<lparr>ram_base := take (unat lba * 4096) (ram_base s) @ take (unat count * 4096) buf
                    @ drop ((unat lba + unat count) * 4096) (ram_base s)\<rparr>, 0)
          else (s, -1))"
  using assms by (simp add: ramdisk_write_def Let_def word_less_nat_alt block_span [OF assms(2)] bytes_at_def put_bytes_def
      ramdisk_ok_def distrib_right)

lemma blocks_of_replaced:
  assumes "l + n \<le> k \<or> k + m \<le> l" "length (take (k * 4096) (ram_base s)) = k * 4096" "length M = m * 4096"
  shows "blocks_of (s\<lparr>ram_base := take (k * 4096) (ram_base s) @ M @ drop ((k + m) * 4096) (ram_base s)\<rparr>) l n = blocks_of s l n"
  using assms(1)
proof
  let ?P = "take (k * 4096) (ram_base s)"
  assume "l + n \<le> k"
  then have "n * 4096 \<le> k * 4096 - l * 4096" "l * 4096 \<le> k * 4096" by (simp_all add: algebra_simps)
  then show ?thesis using assms(2) by (simp add: blocks_of_def drop_take min_absorb1)
next
  assume "k + m \<le> l"
  then have "(k + m) * 4096 \<le> l * 4096" by simp
  then show ?thesis using assms(2,3) by (simp add: blocks_of_def algebra_simps)
qed

text \<open>C29: the RAM disk keeps what is written: a write within the disk succeeds, reading the same blocks
  gives the bytes back, and a range of blocks that does not meet the written one reads as before.
  A write beyond the end of the disk is refused and changes nothing.  All this is for ranges whose end,
  in bytes, is below \<open>2^64\<close>; a range that wraps around passes the check of the code, as
  \<open>ramdisk_bounds_check_wraps\<close> shows.\<close>
theorem ramdisk_write_read_roundtrip:
  assumes "ramdisk_ok s" "(unat lba + unat count) * 4096 < 2 ^ 64" "unat count * 4096 \<le> length buf"
  shows "if (unat lba + unat count) * 4096 \<le> unat (ram_size s)
    then \<exists>s'. ramdisk_write lba buf count s = Some (s', 0) \<and> ramdisk_ok s' \<and> ram_size s' = ram_size s
      \<and> ramdisk_read lba count s' = Some (0, take (unat count * 4096) buf)
      \<and> (\<forall>l n. (unat l + unat n) * 4096 < 2 ^ 64
            \<and> (unat l + unat n \<le> unat lba \<or> unat lba + unat count \<le> unat l)
          \<longrightarrow> ramdisk_read l n s' = ramdisk_read l n s)
    else ramdisk_write lba buf count s = Some (s, -1)"
proof (cases "(unat lba + unat count) * 4096 \<le> unat (ram_size s)")
  case True
  define P where "P = take (unat lba * 4096) (ram_base s)"
  define M where "M = take (unat count * 4096) buf"
  define Q where "Q = drop ((unat lba + unat count) * 4096) (ram_base s)"
  let ?s' = "s\<lparr>ram_base := P @ M @ Q\<rparr>"
  have lb: "length (ram_base s) = unat (ram_size s)" using assms(1) by (simp add: ramdisk_ok_def)
  have len: "length P = unat lba * 4096" "length M = unat count * 4096"
    "length Q = unat (ram_size s) - (unat lba + unat count) * 4096"
    using True assms(3) lb by (simp_all add: P_def M_def Q_def)
  have ok: "ramdisk_ok ?s'" using len True by (simp add: ramdisk_ok_def algebra_simps)
  have w: "ramdisk_write lba buf count s = Some (?s', 0)"
    using ramdisk_write_exact [OF assms] True by (simp add: P_def M_def Q_def)
  have "blocks_of ?s' (unat lba) (unat count) = M" using len by (simp add: blocks_of_def)
  then have r: "ramdisk_read lba count ?s' = Some (0, M)" using ramdisk_read_exact [OF ok assms(2)] True by simp
  have "blocks_of ?s' (unat l) (unat n) = blocks_of s (unat l) (unat n)"
    if "unat l + unat n \<le> unat lba \<or> unat lba + unat count \<le> unat l" for l n :: u64
    using that len(1,2) unfolding P_def Q_def by (rule blocks_of_replaced)
  then have "ramdisk_read l n ?s' = ramdisk_read l n s"
    if "(unat l + unat n) * 4096 < 2 ^ 64" "unat l + unat n \<le> unat lba \<or> unat lba + unat count \<le> unat l" for l n :: u64
    using that ramdisk_read_exact [OF ok that(1)] ramdisk_read_exact [OF assms(1) that(1)] by simp
  then show ?thesis using True w ok r by (auto simp: M_def)
next
  case False
  then show ?thesis using ramdisk_write_exact [OF assms] by simp
qed

text \<open>The bounds check of the RAM disk adds byte numbers modulo \<open>2^64\<close>: for the last block number
  that fits, the sum is zero, the check passes whatever the size of the disk, and both operations
  access storage outside the disk.\<close>
theorem ramdisk_bounds_check_wraps:
  assumes "ramdisk_ok s" "4096 \<le> length buf"
  shows "ramdisk_read (2 ^ 52 - 1) 1 s = None \<and> ramdisk_write (2 ^ 52 - 1) buf 1 s = None"
proof -
  have "unat (ram_size s) < 18446744073709551616" using unsigned_less [of "ram_size s", where ?'a = nat] by simp
  then have "\<not> 18446744073709551616 \<le> length (ram_base s)" using assms(1) by (simp add: ramdisk_ok_def)
  moreover have "\<not> ram_size s < 18446744073709551616" by (simp add: word_less_nat_alt)
  ultimately show ?thesis using assms(2)
    by (simp add: ramdisk_read_def ramdisk_write_def BRIGHTS_BLOCK_SIZE_def bytes_at_def put_bytes_def Let_def)
qed

definition demo_disk :: block where
  "demo_disk = brights_ramdisk_init (replicate 8192 0) 8192
     \<lparr>root_dev = None, block_devs = [], ram_base = [], ram_size = 0,
      ram_dev = \<lparr>dev_read = None, dev_write = None, dev_name = [], dev_kind = DevNone, dev_total_blocks = 0,
                 dev_block_size = 0, dev_ready = False\<rparr>,
      hw_dev = (\<lambda>_. \<lparr>dev_read = None, dev_write = None, dev_name = [], dev_kind = DevNone, dev_total_blocks = 0,
                 dev_block_size = 0, dev_ready = False\<rparr>)\<rparr>"

lemma demo_disk_ok: "ramdisk_ok demo_disk" "ram_size demo_disk = 8192"
  by (simp_all add: demo_disk_def brights_ramdisk_init_def brights_block_register_def ramdisk_ok_def
      BRIGHTS_MAX_BLOCK_DEVS_def)

lemma ramdisk_write_read_roundtrip_witness:
  "\<exists>s'. ramdisk_write 1 (replicate 4096 7) 1 demo_disk = Some (s', 0)
     \<and> ramdisk_read 1 1 s' = Some (0, replicate 4096 7)"
  using ramdisk_write_read_roundtrip [OF demo_disk_ok(1), of 1 1 "replicate 4096 7"] demo_disk_ok(2) by auto

lemma ramdisk_bounds_check_wraps_witness: "ramdisk_read (2 ^ 52 - 1) 1 demo_disk = None"
  using ramdisk_bounds_check_wraps [OF demo_disk_ok(1), of "replicate 4096 7"] by simp

end
