(* ===== verification/Btrfs.thy ===== *)
theory Btrfs
  imports Blockdev Elf
begin

unbundle bit_operations_syntax

text \<open>
  The on-disk file system, \<open>kernel/fs/btrfs.c\<close>: reading the superblock, the map from logical to
  physical addresses, the walk over the trees, and the simplified creation of files.

  A node is the list of the bytes the device stored into the buffer, and a field of a packed
  struct is read by its offset: \<open>fld n off buf\<close> is the \<open>n\<close>-byte little-endian value.  The result \<open>None\<close>
  is a read outside those bytes, a store outside a buffer, or more nested calls than the argument
  \<open>depth\<close> allows (the walks recurse along pointers that come from the disk).  What is printed is
  appended to \<open>bt_out\<close> as the bytes that reach the serial port.  A name is the list of its bytes
  before the terminator.
\<close>

subsection \<open>Layout\<close>

definition BTRFS_SUPER_MAGIC :: "u8 list" where
  "BTRFS_SUPER_MAGIC = map of_char ''_BHRfS_M''"
definition BTRFS_SUPER_OFFSET :: u64 where "BTRFS_SUPER_OFFSET = 0x10000"
definition BTRFS_CHUNK_ITEM_KEY :: u64 where "BTRFS_CHUNK_ITEM_KEY = 0xE"
definition BTRFS_ROOT_ITEM_KEY :: u64 where "BTRFS_ROOT_ITEM_KEY = 132"
definition BTRFS_INODE_ITEM_KEY :: u8 where "BTRFS_INODE_ITEM_KEY = 1"
definition BTRFS_DIR_ITEM_KEY :: u64 where "BTRFS_DIR_ITEM_KEY = 84"
definition BTRFS_EXTENT_DATA_KEY :: u64 where "BTRFS_EXTENT_DATA_KEY = 108"
definition BTRFS_FS_TREE_OBJECTID :: u64 where "BTRFS_FS_TREE_OBJECTID = 5"
definition BRIGHTS_BTRFS_MAX_CHUNKS :: nat where "BRIGHTS_BTRFS_MAX_CHUNKS = 32"
definition BRIGHTS_BTRFS_MAX_NODE :: nat where "BRIGHTS_BTRFS_MAX_NODE = 16384"

text \<open>The sizes of the packed structs.\<close>

definition header_size :: nat where "header_size = 101"
definition key_size :: nat where "key_size = 17"
definition item_size :: nat where "item_size = 25"
definition key_ptr_size :: nat where "key_ptr_size = 33"
definition chunk_size :: nat where "chunk_size = 48"
definition stripe_size :: nat where "stripe_size = 16"
definition dir_item_size :: nat where "dir_item_size = 30"
definition root_item_size :: nat where "root_item_size = 403"
definition extent_item_size :: nat where "extent_item_size = 53"
definition super_size :: nat where "super_size = 3017"

definition fld :: "nat \<Rightarrow> nat \<Rightarrow> u8 list \<Rightarrow> u64 option" where
  "fld n off buf = map_option le_value (bytes_at buf off n)"

definition le64 :: "u64 \<Rightarrow> u8 list" where
  "le64 w = map (\<lambda>i. ucast (drop_bit (8 * i) w)) [0..<8]"

definition hdr_nritems :: "u8 list \<Rightarrow> nat option" where
  "hdr_nritems buf = map_option unat (fld 4 96 buf)"

definition hdr_level :: "u8 list \<Rightarrow> u64 option" where
  "hdr_level buf = fld 1 100 buf"

definition hdr_bytenr :: "u8 list \<Rightarrow> u64 option" where
  "hdr_bytenr buf = fld 8 48 buf"

definition sb_root :: "u8 list \<Rightarrow> u64 option" where "sb_root sb = fld 8 80 sb"
definition sb_chunk_root :: "u8 list \<Rightarrow> u64 option" where "sb_chunk_root sb = fld 8 88 sb"
definition sb_total_bytes :: "u8 list \<Rightarrow> u64 option" where "sb_total_bytes sb = fld 8 112 sb"
definition sb_bytes_used :: "u8 list \<Rightarrow> u64 option" where "sb_bytes_used sb = fld 8 120 sb"
definition sb_nodesize :: "u8 list \<Rightarrow> u64 option" where "sb_nodesize sb = fld 4 148 sb"
definition sb_sys_chunk_array_size :: "u8 list \<Rightarrow> u64 option" where "sb_sys_chunk_array_size sb = fld 4 160 sb"
definition sb_sys_chunk_array :: nat where "sb_sys_chunk_array = 969"

definition root_dirid :: "u8 list \<Rightarrow> u64 option" where "root_dirid ri = fld 8 168 ri"
definition root_bytenr :: "u8 list \<Rightarrow> u64 option" where "root_bytenr ri = fld 8 176 ri"
definition root_level :: "u8 list \<Rightarrow> u64 option" where "root_level ri = fld 1 238 ri"

text \<open>The \<open>i\<close>-th item of a leaf: object, type and offset of its key, place and size of its data.\<close>

record item =
  it_objectid :: u64
  it_type :: u64
  it_key_offset :: u64
  it_offset :: u32
  it_size :: u32

definition item_at :: "nat \<Rightarrow> u8 list \<Rightarrow> item option" where
  "item_at i buf =
     (let p = header_size + i * item_size in
      do {
        ob \<leftarrow> fld 8 p buf; ty \<leftarrow> fld 1 (p + 8) buf; ko \<leftarrow> fld 8 (p + 9) buf;
        o' \<leftarrow> fld 4 (p + 17) buf; sz \<leftarrow> fld 4 (p + 21) buf;
        Some \<lparr>it_objectid = ob, it_type = ty, it_key_offset = ko, it_offset = ucast o', it_size = ucast sz\<rparr>
      })"

definition blockptr_at :: "nat \<Rightarrow> u8 list \<Rightarrow> u64 option" where
  "blockptr_at i buf = fld 8 (header_size + i * key_ptr_size + 17) buf"

subsection \<open>State\<close>

record btrfs =
  chunk_map :: "(u64 \<times> u64 \<times> u64) list"
  btrfs_nodesize :: u32
  btrfs_fs_root :: "u8 list"
  btrfs_fs_root_ok :: bool
  next_free :: u64
  next_ino :: u64
  bt_block :: block
  bt_out :: "u8 list"

definition serial_puts :: "u8 list \<Rightarrow> u8 list" where
  "serial_puts msg = concat (map (\<lambda>ch. if ch = 10 then [13, 10] else [ch]) (takeWhile (\<lambda>c. c \<noteq> 0) msg))"

definition bt_print :: "u8 list \<Rightarrow> btrfs \<Rightarrow> btrfs" where
  "bt_print msg s = s\<lparr>bt_out := bt_out s @ serial_puts msg\<rparr>"

definition text_of :: "string \<Rightarrow> u8 list" where
  "text_of t = map of_char t"

definition crlf :: "u8 list" where
  "crlf = [13, 10]"

definition hex_digit :: "u64 \<Rightarrow> u8" where
  "hex_digit d = (if d < 10 then 48 + ucast d else 55 + ucast d)"

definition print_hex64 :: "u64 \<Rightarrow> btrfs \<Rightarrow> btrfs" where
  "print_hex64 v = bt_print ([48, 120] @ map (\<lambda>i. hex_digit (drop_bit ((15 - i) * 4) v AND 0xF)) [0..<16])"

text \<open>One call of \<open>brights_print\<close> per byte; a zero byte prints nothing.\<close>

definition print_bytes :: "u8 list \<Rightarrow> btrfs \<Rightarrow> btrfs" where
  "print_bytes bs = fold (\<lambda>b. bt_print [b]) bs"

subsection \<open>Reading and writing the device\<close>

definition read_super :: "btrfs \<Rightarrow> (u8 list option) option" where
  "read_super s =
     (case brights_block_root (bt_block s) of
        None \<Rightarrow> Some None
      | Some r \<Rightarrow>
          (case dev_read (dev_at r (bt_block s)) of
             None \<Rightarrow> Some None
           | Some f \<Rightarrow>
               do {
                 (rc, bs) \<leftarrow> call_read f (BTRFS_SUPER_OFFSET div BRIGHTS_BLOCK_SIZE) 1 (bt_block s);
                 if length bs > 4096 then None
                 else if rc \<noteq> 0 then Some None
                 else map_option Some (bytes_at bs 0 super_size)
               }))"

definition super_magic_ok :: "u8 list \<Rightarrow> bool" where
  "super_magic_ok sb \<longleftrightarrow> bytes_at sb 64 8 = Some BTRFS_SUPER_MAGIC"

text \<open>The first argument is the size of the buffer.\<close>

definition brights_btrfs_raw_read :: "nat \<Rightarrow> u64 \<Rightarrow> u64 \<Rightarrow> btrfs \<Rightarrow> (u8 list option) option" where
  "brights_btrfs_raw_read cap bytenr sz s =
     (case brights_block_root (bt_block s) of
        None \<Rightarrow> Some None
      | Some r \<Rightarrow>
          (case dev_read (dev_at r (bt_block s)) of
             None \<Rightarrow> Some None
           | Some f \<Rightarrow>
               do {
                 (rc, bs) \<leftarrow> call_read f (bytenr div BRIGHTS_BLOCK_SIZE)
                              ((sz + BRIGHTS_BLOCK_SIZE - 1) div BRIGHTS_BLOCK_SIZE) (bt_block s);
                 if length bs > cap then None
                 else Some (if rc = 0 then Some bs else None)
               }))"

definition brights_btrfs_raw_write :: "u64 \<Rightarrow> u8 list \<Rightarrow> u64 \<Rightarrow> btrfs \<Rightarrow> (btrfs \<times> int) option" where
  "brights_btrfs_raw_write bytenr src sz s =
     (case brights_block_root (bt_block s) of
        None \<Rightarrow> Some (s, -1)
      | Some r \<Rightarrow>
          (case dev_write (dev_at r (bt_block s)) of
             None \<Rightarrow> Some (s, -1)
           | Some f \<Rightarrow>
               do {
                 (b, rc) \<leftarrow> call_write f (bytenr div BRIGHTS_BLOCK_SIZE) src
                             ((sz + BRIGHTS_BLOCK_SIZE - 1) div BRIGHTS_BLOCK_SIZE) (bt_block s);
                 Some (s\<lparr>bt_block := b\<rparr>, rc)
               }))"

definition read_tree_node :: "u64 \<Rightarrow> btrfs \<Rightarrow> (u8 list option) option" where
  "read_tree_node bytenr s =
     (if unat (btrfs_nodesize s) > BRIGHTS_BTRFS_MAX_NODE then Some None
      else brights_btrfs_raw_read BRIGHTS_BTRFS_MAX_NODE bytenr (ucast (btrfs_nodesize s)) s)"

definition dump_tree_header :: "string \<Rightarrow> u8 list \<Rightarrow> btrfs \<Rightarrow> btrfs option" where
  "dump_tree_header label buf s =
     do {
       b \<leftarrow> hdr_bytenr buf; l \<leftarrow> hdr_level buf; n \<leftarrow> fld 4 96 buf;
       Some (bt_print crlf (print_hex64 n (bt_print (text_of '' items='') (print_hex64 l (bt_print (text_of '' level='')
         (print_hex64 b (bt_print (text_of '' tree bytenr='') (print_bytes (text_of label)
           (bt_print (text_of ''btrfs: '') s)))))))))
     }"

subsection \<open>The chunk map\<close>

definition chunk_map_add :: "u64 \<Rightarrow> u64 \<Rightarrow> u64 \<Rightarrow> btrfs \<Rightarrow> btrfs" where
  "chunk_map_add logical len physical s =
     (if length (chunk_map s) \<ge> BRIGHTS_BTRFS_MAX_CHUNKS then s
      else s\<lparr>chunk_map := chunk_map s @ [(logical, len, physical)]\<rparr>)"

text \<open>The offset is a 32-bit variable; the comparison is made in 64 bits.\<close>

partial_function (option) parse_chunks :: "u8 list \<Rightarrow> u64 \<Rightarrow> u32 \<Rightarrow> btrfs \<Rightarrow> btrfs option" where
  "parse_chunks sb sz off s =
     (if unat off + key_size + chunk_size \<le> unat sz
      then (let k = sb_sys_chunk_array + unat off;
                off1 = off + of_nat key_size; c = sb_sys_chunk_array + unat off1;
                off2 = off1 + of_nat chunk_size; st = sb_sys_chunk_array + unat off2
            in do {
              ty \<leftarrow> fld 1 (k + 8) sb;
              if ty \<noteq> BTRFS_CHUNK_ITEM_KEY then Some s
              else do {
                n \<leftarrow> fld 2 (c + 44) sb; logical \<leftarrow> fld 8 (k + 9) sb; len \<leftarrow> fld 8 c sb; physical \<leftarrow> fld 8 (st + 8) sb;
                parse_chunks sb sz (off2 + of_nat (stripe_size * unat n)) (chunk_map_add logical len physical s)
              }
            })
      else Some s)"

definition parse_sys_chunk_array :: "u8 list \<Rightarrow> btrfs \<Rightarrow> (btrfs \<times> int) option" where
  "parse_sys_chunk_array sb s =
     do {
       sz \<leftarrow> sb_sys_chunk_array_size sb;
       s' \<leftarrow> parse_chunks sb sz 0 (s\<lparr>chunk_map := []\<rparr>);
       Some (s', if length (chunk_map s') > 0 then 0 else -1)
     }"

fun map_in :: "(u64 \<times> u64 \<times> u64) list \<Rightarrow> u64 \<Rightarrow> u64" where
  "map_in [] logical = logical"
| "map_in ((start, len, physical) # cs) logical =
     (if logical \<ge> start \<and> logical < start + len then physical + (logical - start) else map_in cs logical)"

definition map_logical :: "btrfs \<Rightarrow> u64 \<Rightarrow> u64" where
  "map_logical s logical = map_in (chunk_map s) logical"

text \<open>The loop over the items of a leaf; the second argument counts the turns left.\<close>

fun chunk_items :: "u8 list \<Rightarrow> nat \<Rightarrow> nat \<Rightarrow> btrfs \<Rightarrow> btrfs option" where
  "chunk_items buf i 0 s = Some s"
| "chunk_items buf i (Suc k) s =
     do {
       it \<leftarrow> item_at i buf;
       if it_type it \<noteq> BTRFS_CHUNK_ITEM_KEY then chunk_items buf (Suc i) k s
       else do {
         len \<leftarrow> fld 8 (unat (it_offset it)) buf;
         physical \<leftarrow> fld 8 (unat (it_offset it) + chunk_size + 8) buf;
         chunk_items buf (Suc i) k (chunk_map_add (it_key_offset it) len physical s)
       }
     }"

definition parse_chunk_leaf :: "u64 \<Rightarrow> btrfs \<Rightarrow> (btrfs \<times> int) option" where
  "parse_chunk_leaf bytenr s =
     do {
       r \<leftarrow> read_tree_node bytenr s;
       (case r of
          None \<Rightarrow> Some (s, -1)
        | Some buf \<Rightarrow>
            do {
              lvl \<leftarrow> hdr_level buf;
              if lvl \<noteq> 0 then Some (s, -1)
              else do {
                n \<leftarrow> hdr_nritems buf;
                s' \<leftarrow> chunk_items buf 0 n s;
                Some (s', 0)
              }
            })
     }"

fun root_items :: "u8 list \<Rightarrow> nat \<Rightarrow> nat \<Rightarrow> (u8 list option) option" where
  "root_items buf i 0 = Some None"
| "root_items buf i (Suc k) =
     do {
       it \<leftarrow> item_at i buf;
       if it_objectid it = BTRFS_FS_TREE_OBJECTID \<and> it_type it = BTRFS_ROOT_ITEM_KEY
       then (if unat (it_size it) < root_item_size then Some None
             else map_option Some (bytes_at buf (unat (it_offset it)) root_item_size))
       else root_items buf (Suc i) k
     }"

definition parse_root_leaf :: "u64 \<Rightarrow> btrfs \<Rightarrow> (u8 list option) option" where
  "parse_root_leaf bytenr s =
     do {
       r \<leftarrow> read_tree_node bytenr s;
       (case r of
          None \<Rightarrow> Some None
        | Some buf \<Rightarrow>
            do {
              lvl \<leftarrow> hdr_level buf;
              if lvl \<noteq> 0 then Some None
              else do { n \<leftarrow> hdr_nritems buf; root_items buf 0 n }
            })
     }"

subsection \<open>Directory entries\<close>

text \<open>
  The entries of one directory item follow each other from \<open>item_off\<close> on: a fixed part of 30 bytes, then
  the name, then \<open>data_len\<close> further bytes.
\<close>

record dir_entry =
  de_ino :: u64
  de_name_len :: nat
  de_data_len :: nat

definition dir_item_at :: "nat \<Rightarrow> u8 list \<Rightarrow> dir_entry option" where
  "dir_item_at p buf =
     do {
       ino \<leftarrow> fld 8 p buf; dl \<leftarrow> fld 2 (p + 25) buf; nl \<leftarrow> fld 2 (p + 27) buf;
       Some \<lparr>de_ino = ino, de_name_len = unat nl, de_data_len = unat dl\<rparr>
     }"

partial_function (option) scan_entries :: "u8 list \<Rightarrow> u32 \<Rightarrow> u32 \<Rightarrow> btrfs \<Rightarrow> btrfs option" where
  "scan_entries buf item_off item_end s =
     (if unat item_off + dir_item_size \<le> unat item_end
      then do {
        di \<leftarrow> dir_item_at (unat item_off) buf;
        name \<leftarrow> bytes_at buf (unat (item_off + of_nat dir_item_size)) (de_name_len di);
        scan_entries buf (item_off + of_nat dir_item_size + of_nat (de_name_len di + de_data_len di)) item_end
          (bt_print crlf (print_hex64 (de_ino di) (bt_print (text_of '' ino='') (print_bytes name
             (bt_print (text_of ''  '') s)))))
      }
      else Some s)"

fun scan_items :: "u8 list \<Rightarrow> u64 \<Rightarrow> nat \<Rightarrow> nat \<Rightarrow> btrfs \<Rightarrow> btrfs option" where
  "scan_items buf dir_objectid i 0 s = Some s"
| "scan_items buf dir_objectid i (Suc k) s =
     do {
       it \<leftarrow> item_at i buf;
       if it_objectid it \<noteq> dir_objectid \<or> it_type it \<noteq> BTRFS_DIR_ITEM_KEY
       then scan_items buf dir_objectid (Suc i) k s
       else do {
         s' \<leftarrow> scan_entries buf (it_offset it) (it_offset it + it_size it) s;
         scan_items buf dir_objectid (Suc i) k s'
       }
     }"

definition fs_tree_scan_dir_leaf :: "u8 list \<Rightarrow> u64 \<Rightarrow> btrfs \<Rightarrow> (btrfs \<times> int) option" where
  "fs_tree_scan_dir_leaf buf dir_objectid s =
     do {
       n \<leftarrow> hdr_nritems buf;
       s' \<leftarrow> scan_items buf dir_objectid 0 n (bt_print (text_of ''btrfs: dir entries'' @ crlf) s);
       Some (s', 0)
     }"

text \<open>The loop over the children of an inner node, as a function of what is done with each.\<close>

fun scan_children :: "(u64 \<Rightarrow> btrfs \<Rightarrow> (btrfs \<times> int) option) \<Rightarrow> u8 list \<Rightarrow> nat \<Rightarrow> nat \<Rightarrow> btrfs \<Rightarrow> btrfs option" where
  "scan_children f buf i 0 s = Some s"
| "scan_children f buf i (Suc k) s =
     do { p \<leftarrow> blockptr_at i buf; (s', _) \<leftarrow> f p s; scan_children f buf (Suc i) k s' }"

primrec fs_tree_scan_dir :: "nat \<Rightarrow> u64 \<Rightarrow> u64 \<Rightarrow> btrfs \<Rightarrow> (btrfs \<times> int) option" where
  "fs_tree_scan_dir 0 dir_objectid bytenr s = None"
| "fs_tree_scan_dir (Suc depth) dir_objectid bytenr s =
     do {
       r \<leftarrow> read_tree_node (map_logical s bytenr) s;
       (case r of
          None \<Rightarrow> Some (s, -1)
        | Some buf \<Rightarrow>
            do {
              lvl \<leftarrow> hdr_level buf;
              if lvl = 0 then fs_tree_scan_dir_leaf buf dir_objectid s
              else do {
                n \<leftarrow> hdr_nritems buf;
                s' \<leftarrow> scan_children (fs_tree_scan_dir depth dir_objectid) buf 0 n s;
                Some (s', 0)
              }
            })
     }"

subsection \<open>Finding a name\<close>

fun name_match :: "u8 list \<Rightarrow> u8 list \<Rightarrow> nat \<Rightarrow> nat \<Rightarrow> bool option" where
  "name_match name buf p 0 = Some (name = [])"
| "name_match [] buf p (Suc k) = Some False"
| "name_match (c # cs) buf p (Suc k) =
     (case bytes_at buf p 1 of
        None \<Rightarrow> None
      | Some e \<Rightarrow> (if e \<noteq> [c] then Some False else name_match cs buf (p + 1) k))"

datatype search = Found u64 | GoOn | GiveUp

partial_function (option) find_entries :: "u8 list \<Rightarrow> u8 list \<Rightarrow> u32 \<Rightarrow> u32 \<Rightarrow> search option" where
  "find_entries name buf item_off item_end =
     (if unat item_off + dir_item_size \<le> unat item_end
      then do {
        di \<leftarrow> dir_item_at (unat item_off) buf;
        if de_name_len di = 0 then Some GiveUp
        else do {
          m \<leftarrow> name_match name buf (unat (item_off + of_nat dir_item_size)) (de_name_len di);
          if m then Some (Found (de_ino di))
          else find_entries name buf (item_off + of_nat dir_item_size + of_nat (de_name_len di + de_data_len di)) item_end
        }
      }
      else Some GoOn)"

fun find_items :: "u8 list \<Rightarrow> u8 list \<Rightarrow> u64 \<Rightarrow> nat \<Rightarrow> nat \<Rightarrow> (u64 option) option" where
  "find_items name buf dir_objectid i 0 = Some None"
| "find_items name buf dir_objectid i (Suc k) =
     do {
       it \<leftarrow> item_at i buf;
       if it_objectid it \<noteq> dir_objectid \<or> it_type it \<noteq> BTRFS_DIR_ITEM_KEY
       then find_items name buf dir_objectid (Suc i) k
       else do {
         r \<leftarrow> find_entries name buf (it_offset it) (it_offset it + it_size it);
         (case r of
            Found ino \<Rightarrow> Some (Some ino)
          | GiveUp \<Rightarrow> Some None
          | GoOn \<Rightarrow> find_items name buf dir_objectid (Suc i) k)
       }
     }"

definition fs_tree_find_inode_by_name_leaf :: "u8 list \<Rightarrow> u64 \<Rightarrow> u8 list \<Rightarrow> (u64 option) option" where
  "fs_tree_find_inode_by_name_leaf buf dir_objectid name =
     do { n \<leftarrow> hdr_nritems buf; find_items name buf dir_objectid 0 n }"

fun find_children :: "(u64 \<Rightarrow> ('a option) option) \<Rightarrow> u8 list \<Rightarrow> nat \<Rightarrow> nat \<Rightarrow> ('a option) option" where
  "find_children f buf i 0 = Some None"
| "find_children f buf i (Suc k) =
     do {
       p \<leftarrow> blockptr_at i buf;
       r \<leftarrow> f p;
       (case r of Some ino \<Rightarrow> Some (Some ino) | None \<Rightarrow> find_children f buf (Suc i) k)
     }"

primrec fs_tree_find_inode_by_name :: "nat \<Rightarrow> u64 \<Rightarrow> u8 list \<Rightarrow> btrfs \<Rightarrow> u64 \<Rightarrow> (u64 option) option" where
  "fs_tree_find_inode_by_name 0 dir_objectid name s bytenr = None"
| "fs_tree_find_inode_by_name (Suc depth) dir_objectid name s bytenr =
     do {
       r \<leftarrow> read_tree_node (map_logical s bytenr) s;
       (case r of
          None \<Rightarrow> Some None
        | Some buf \<Rightarrow>
            do {
              lvl \<leftarrow> hdr_level buf;
              if lvl = 0 then fs_tree_find_inode_by_name_leaf buf dir_objectid name
              else do {
                n \<leftarrow> hdr_nritems buf;
                find_children (fs_tree_find_inode_by_name depth dir_objectid name s) buf 0 n
              }
            })
     }"

subsection \<open>Showing a file\<close>

text \<open>
  A file's data is printed, not returned: the first 128 bytes of inline data, or 256 bytes from the
  disk.  The result is the new state where the loop reaches an extent of the file (status 0) and
  nothing where it does not (status -1).
\<close>

definition show_extent :: "u8 list \<Rightarrow> item \<Rightarrow> btrfs \<Rightarrow> (btrfs option) option" where
  "show_extent buf it s =
     (let p = unat (it_offset it) in
      do {
        ty \<leftarrow> fld 1 (p + 20) buf;
        if ty = 0 then
          (let data_len = it_size it - of_nat extent_item_size in
           do {
             bs \<leftarrow> bytes_at buf (p + extent_item_size) (min (unat data_len) 128);
             Some (Some (bt_print crlf (print_bytes bs (bt_print (text_of ''btrfs: inline data'' @ crlf) s))))
           })
        else if ty = 1 then
          do {
            dbn \<leftarrow> fld 8 (p + 21) buf;
            r \<leftarrow> brights_btrfs_raw_read 256 (map_logical s dbn) 256 s;
            (case r of
               None \<Rightarrow> Some (Some s)
             | Some bs \<Rightarrow>
                 do {
                   shown \<leftarrow> bytes_at bs 0 256;
                   Some (Some (bt_print crlf (print_bytes shown (bt_print (text_of ''btrfs: file data'' @ crlf) s))))
                 })
          }
        else Some None
      })"

fun read_items :: "u8 list \<Rightarrow> u64 \<Rightarrow> nat \<Rightarrow> nat \<Rightarrow> btrfs \<Rightarrow> (btrfs option) option" where
  "read_items buf inode_objectid i 0 s = Some None"
| "read_items buf inode_objectid i (Suc k) s =
     do {
       it \<leftarrow> item_at i buf;
       if it_objectid it \<noteq> inode_objectid \<or> it_type it \<noteq> BTRFS_EXTENT_DATA_KEY
       then read_items buf inode_objectid (Suc i) k s
       else do {
         r \<leftarrow> show_extent buf it s;
         (case r of Some s' \<Rightarrow> Some (Some s') | None \<Rightarrow> read_items buf inode_objectid (Suc i) k s)
       }
     }"

primrec fs_tree_read_file :: "nat \<Rightarrow> u64 \<Rightarrow> btrfs \<Rightarrow> u64 \<Rightarrow> (btrfs option) option" where
  "fs_tree_read_file 0 inode_objectid s bytenr = None"
| "fs_tree_read_file (Suc depth) inode_objectid s bytenr =
     do {
       r \<leftarrow> read_tree_node (map_logical s bytenr) s;
       (case r of
          None \<Rightarrow> Some None
        | Some buf \<Rightarrow>
            do {
              lvl \<leftarrow> hdr_level buf;
              n \<leftarrow> hdr_nritems buf;
              if lvl \<noteq> 0 then find_children (fs_tree_read_file depth inode_objectid s) buf 0 n
              else read_items buf inode_objectid 0 n s
            })
     }"

subsection \<open>Public operations\<close>

definition brights_btrfs_probe :: "btrfs \<Rightarrow> int option" where
  "brights_btrfs_probe s =
     do { r \<leftarrow> read_super s; Some (case r of None \<Rightarrow> -1 | Some sb \<Rightarrow> if super_magic_ok sb then 0 else -1) }"

definition mount_chunks :: "u8 list \<Rightarrow> btrfs \<Rightarrow> btrfs option" where
  "mount_chunks sb s =
     do {
       (s1, rc) \<leftarrow> parse_sys_chunk_array sb s;
       let s2 = (if rc \<noteq> 0 then bt_print (text_of ''btrfs: sys_chunk_array parse failed'' @ crlf) s1 else s1);
       cr \<leftarrow> sb_chunk_root sb;
       let chunk_phys = map_logical s2 cr;
       r \<leftarrow> read_tree_node chunk_phys s2;
       (case r of
          None \<Rightarrow> Some (bt_print (text_of ''btrfs: chunk tree read failed'' @ crlf) s2)
        | Some buf \<Rightarrow>
            do {
              s3 \<leftarrow> dump_tree_header ''chunk'' buf s2;
              lvl \<leftarrow> hdr_level buf;
              if lvl = 0 then map_option fst (parse_chunk_leaf chunk_phys s3) else Some s3
            })
     }"

definition mount_root :: "u8 list \<Rightarrow> btrfs \<Rightarrow> btrfs option" where
  "mount_root sb s =
     do {
       rt \<leftarrow> sb_root sb;
       let root_phys = map_logical s rt;
       r \<leftarrow> read_tree_node root_phys s;
       (case r of
          None \<Rightarrow> Some (bt_print (text_of ''btrfs: root tree read failed'' @ crlf) s)
        | Some buf \<Rightarrow>
            do {
              s1 \<leftarrow> dump_tree_header ''root'' buf s;
              lvl \<leftarrow> hdr_level buf;
              if lvl \<noteq> 0 then Some (bt_print (text_of ''btrfs: root level>0 not supported'' @ crlf) s1)
              else do {
                fr \<leftarrow> parse_root_leaf root_phys s1;
                (case fr of
                   None \<Rightarrow> Some (bt_print (text_of ''btrfs: root leaf parse failed'' @ crlf) s1)
                 | Some ri \<Rightarrow>
                     do {
                       b \<leftarrow> root_bytenr ri; l \<leftarrow> root_level ri; d \<leftarrow> root_dirid ri;
                       let s2 = bt_print crlf (print_hex64 d (bt_print (text_of '' dirid='') (print_hex64 l
                                  (bt_print (text_of '' level='') (print_hex64 b (bt_print (text_of ''btrfs: fs root bytenr='') s1))))));
                       Some (s2\<lparr>btrfs_fs_root := ri, btrfs_fs_root_ok := True\<rparr>)
                     })
              }
            })
     }"

definition brights_btrfs_mount :: "btrfs \<Rightarrow> (btrfs \<times> int) option" where
  "brights_btrfs_mount s =
     do {
       r \<leftarrow> read_super s;
       (case r of
          None \<Rightarrow> Some (s, -1)
        | Some sb \<Rightarrow>
            (if \<not> super_magic_ok sb then Some (s, -1)
             else do {
               ns \<leftarrow> sb_nodesize sb;
               let s1 = s\<lparr>btrfs_nodesize := ucast ns\<rparr>;
               if ns = 0 \<or> unat ns > BRIGHTS_BTRFS_MAX_NODE then Some (s1, -1)
               else do {
                 tb \<leftarrow> sb_total_bytes sb; bu \<leftarrow> sb_bytes_used sb; rt \<leftarrow> sb_root sb;
                 let s2 = bt_print crlf (print_hex64 rt (bt_print (text_of '' root='') (print_hex64 bu
                            (bt_print (text_of '' used='') (print_hex64 tb
                              (bt_print (text_of ''btrfs: super ok'' @ crlf @ text_of ''  total='') s1))))));
                 s3 \<leftarrow> mount_chunks sb s2;
                 s4 \<leftarrow> mount_root sb s3;
                 Some (s4, 0)
               }
             }))
     }"

definition brights_btrfs_list_root :: "nat \<Rightarrow> btrfs \<Rightarrow> (btrfs \<times> int) option" where
  "brights_btrfs_list_root depth s =
     (if \<not> btrfs_fs_root_ok s then Some (s, -1)
      else do {
        b \<leftarrow> root_bytenr (btrfs_fs_root s); d \<leftarrow> root_dirid (btrfs_fs_root s);
        fs_tree_scan_dir depth d b s
      })"

definition brights_btrfs_read_by_name :: "nat \<Rightarrow> u8 list \<Rightarrow> btrfs \<Rightarrow> (btrfs \<times> int) option" where
  "brights_btrfs_read_by_name depth name s =
     (if \<not> btrfs_fs_root_ok s then Some (s, -1)
      else do {
        b \<leftarrow> root_bytenr (btrfs_fs_root s); d \<leftarrow> root_dirid (btrfs_fs_root s);
        r \<leftarrow> fs_tree_find_inode_by_name depth d name s b;
        (case r of
           None \<Rightarrow> Some (s, -1)
         | Some ino \<Rightarrow>
             do {
               f \<leftarrow> fs_tree_read_file depth ino s b;
               Some (case f of None \<Rightarrow> (s, -1) | Some s' \<Rightarrow> (s', 0))
             })
      })"

definition brights_btrfs_write_by_name :: "u8 list \<Rightarrow> u8 list \<Rightarrow> u64 \<Rightarrow> btrfs \<Rightarrow> btrfs \<times> int" where
  "brights_btrfs_write_by_name name data len s = (s, -1)"

subsection \<open>Creating files\<close>

definition btrfs_alloc_block :: "u64 \<Rightarrow> btrfs \<Rightarrow> (btrfs \<times> u64) option" where
  "btrfs_alloc_block sz s =
     do {
       r \<leftarrow> (if next_free s \<noteq> 0 then Some (Some (next_free s))
             else do {
               q \<leftarrow> read_super s;
               (case q of
                  None \<Rightarrow> Some None
                | Some sb \<Rightarrow>
                    do {
                      tb \<leftarrow> sb_total_bytes sb;
                      Some (Some (if tb div 2 < 64 * 1024 * 1024 then 64 * 1024 * 1024 else tb div 2))
                    })
             });
       Some (case r of None \<Rightarrow> (s, 0) | Some addr \<Rightarrow> (s\<lparr>next_free := addr + sz\<rparr>, addr))
     }"

definition btrfs_write_tree_node :: "u8 list \<Rightarrow> u32 \<Rightarrow> btrfs \<Rightarrow> (btrfs \<times> u64) option" where
  "btrfs_write_tree_node buf sz s =
     do {
       (s1, bytenr) \<leftarrow> btrfs_alloc_block (ucast sz) s;
       if bytenr = 0 then Some (s1, 0)
       else do {
         (s2, _) \<leftarrow> brights_btrfs_raw_write bytenr buf (ucast sz) s1;
         Some (s2, bytenr)
       }
     }"

definition dir_item_bytes :: "u64 \<Rightarrow> u16 \<Rightarrow> u16 \<Rightarrow> u8 list" where
  "dir_item_bytes ino data_len name_len =
     le64 ino @ [BTRFS_INODE_ITEM_KEY] @ le64 0 @ le64 1 @ le16 data_len @ le16 name_len @ [0]"

definition extent_item_bytes :: "u64 \<Rightarrow> u8 list" where
  "extent_item_bytes len =
     le64 1 @ le64 len @ [0, 0, 0, 0, 0] @ le64 0 @ le64 0 @ le64 0 @ le64 len"

text \<open>
  The argument \<open>stack\<close> is what the buffer \<open>combined\<close> of 4096 bytes holds before it is filled.  The keys
  and the inode item that the source also prepares are not stored anywhere.
\<close>

definition btrfs_create_file_internal :: "u8 list \<Rightarrow> u8 list \<Rightarrow> u8 list \<Rightarrow> u64 \<Rightarrow> btrfs \<Rightarrow> (btrfs \<times> int) option" where
  "btrfs_create_file_internal stack name data len s =
     (if \<not> btrfs_fs_root_ok s then Some (s, -1)
      else do {
        rd \<leftarrow> root_dirid (btrfs_fs_root s);
        let ino = (if next_ino s = 0 then rd + 256 else next_ino s);
        let s1 = s\<lparr>next_ino := ino + 1\<rparr>;
        let name_len = min 255 (length name);
        let total_size = (of_nat (dir_item_size + name_len + extent_item_size) + ucast len :: u32);
        if total_size > 3000 then Some (s1, -1)
        else do {
          let head = dir_item_bytes ino (of_nat extent_item_size + ucast len) (of_nat name_len)
                     @ take name_len name @ extent_item_bytes len;
          body \<leftarrow> bytes_at data 0 (min (unat len) (4096 - length head));
          let off = length (head @ body);
          let combined = head @ body @ drop off stack;
          (s2, leaf_bytenr) \<leftarrow> btrfs_write_tree_node combined (of_nat off) s1;
          if leaf_bytenr = 0 then Some (s2, -1)
          else Some (bt_print crlf (print_hex64 len (bt_print (text_of '' size='') (print_hex64 ino
                 (bt_print (text_of '' ino='') (print_bytes name (bt_print (text_of ''btrfs: created file '') s2)))))), 0)
        }
      })"

definition brights_btrfs_create :: "u8 list \<Rightarrow> u8 list \<Rightarrow> btrfs \<Rightarrow> (btrfs \<times> int) option" where
  "brights_btrfs_create stack name s = btrfs_create_file_internal stack name [] 0 s"

definition brights_btrfs_write_file :: "u8 list \<Rightarrow> u8 list \<Rightarrow> u8 list \<Rightarrow> u64 \<Rightarrow> btrfs \<Rightarrow> (btrfs \<times> int) option" where
  "brights_btrfs_write_file stack name data len s = btrfs_create_file_internal stack name data len s"

end
