(* ===== verification/Btrfsprops.thy ===== *)
theory Btrfsprops
  imports Btrfs
begin

unbundle bit_operations_syntax

text \<open>
  Properties of the on-disk file system: the walk that looks a name up against the list of
  directory entries a tree holds, the loss of data in the simplified creation of files, and the
  overrun in the display of regular files.
\<close>

subsection \<open>Little-endian fields\<close>

lemma le_value_bytes:
  "n \<le> 8 \<Longrightarrow> le_value (map (\<lambda>i. ucast (drop_bit (8 * i) w)) [0..<n]) = take_bit (8 * n) (w :: u64)"
proof (induction n arbitrary: w)
  case (Suc n)
  have "[0..<Suc n] = 0 # map Suc [0..<n]" by (simp add: upt_conv_Cons map_Suc_upt)
  then have eq: "map (\<lambda>i. ucast (drop_bit (8 * i) w) :: u8) [0..<Suc n]
      = ucast w # map (\<lambda>i. ucast (drop_bit (8 * i) (drop_bit 8 w))) [0..<n]"
    by (simp add: comp_def drop_bit_drop_bit add.commute)
  have "le_value (map (\<lambda>i. ucast (drop_bit (8 * i) w)) [0..<Suc n])
      = ucast (ucast w :: u8) + 256 * take_bit (8 * n) (drop_bit 8 w)"
    unfolding eq le_value.simps using Suc.IH [of "drop_bit 8 w"] Suc.prems by simp
  also have "\<dots> = take_bit 8 w OR push_bit 8 (take_bit (8 * n) (drop_bit 8 w))"
  proof -
    have a: "(ucast (ucast w :: u8) :: u64) = take_bit 8 w" by (rule bit_word_eqI) (auto simp: bit_simps)
    have b: "256 * x = push_bit 8 x" for x :: u64 by (simp add: push_bit_eq_mult mult.commute)
    show ?thesis unfolding a b by (rule disjunctive_add_eq_or) (rule bit_word_eqI, auto simp: bit_simps)
  qed
  also have "\<dots> = take_bit (8 * Suc n) w" by (rule bit_word_eqI) (auto simp: bit_simps)
  finally show ?case .
qed simp

lemma le_value_le64 [simp]: "le_value (le64 w) = w"
  using le_value_bytes [of 8 w] by (simp add: le64_def take_bit_word_eq_self)

lemma le_value_le16 [simp]: "le_value (le16 w) = ucast w"
proof -
  have "le16 w = map (\<lambda>i. ucast (drop_bit (8 * i) (ucast w :: u64))) [0..<2]"
    by (auto simp: le16_def upt_rec intro!: bit_word_eqI) (auto simp: bit_simps)
  then have "le_value (le16 w) = take_bit 16 (ucast w :: u64)" using le_value_bytes [of 2 "ucast w"] by simp
  also have "\<dots> = ucast w" by (rule bit_word_eqI) (auto simp: bit_simps dest: bit_imp_le_length)
  finally show ?thesis .
qed

lemma length_le64 [simp]: "length (le64 w) = 8"
  by (simp add: le64_def)

text \<open>A field of known bytes at a known place.\<close>

lemma fld_mid:
  assumes "buf = pre @ bs @ post" "length pre = p" "length bs = n"
  shows "fld n p buf = Some (le_value bs)"
  using assms bytes_at_mid [of pre bs post] by (simp add: fld_def)

subsection \<open>Entries of a directory item\<close>

text \<open>An entry with all its fields, in the layout of the code: the key of the inode it names (its number, a type
  and an offset), the transaction that made it, its type, its name and the bytes behind the name.\<close>

record entry =
  e_ino :: u64
  e_key_type :: u8
  e_key_offset :: u64
  e_transid :: u64
  e_type :: u8
  e_name :: "u8 list"
  e_data :: "u8 list"

definition entry_head :: "entry \<Rightarrow> u8 list" where
  "entry_head e = le64 (e_ino e) @ [e_key_type e] @ le64 (e_key_offset e) @ le64 (e_transid e)
     @ le16 (of_nat (length (e_data e))) @ le16 (of_nat (length (e_name e))) @ [e_type e]"

definition entry_bytes :: "entry \<Rightarrow> u8 list" where
  "entry_bytes e = entry_head e @ e_name e @ e_data e"

definition dentry_ok :: "entry \<Rightarrow> bool" where
  "dentry_ok e \<longleftrightarrow> e_name e \<noteq> [] \<and> length (e_name e) < 2 ^ 16 \<and> length (e_data e) < 2 ^ 16"

definition named :: "entry list \<Rightarrow> u8 list \<Rightarrow> u64 option" where
  "named es name = map_of (map (\<lambda>e. (e_name e, e_ino e)) es) name"

text \<open>The entries that the code itself prepares are of this form.\<close>

lemma dir_item_bytes_head:
  "dir_item_bytes ino (of_nat (length d)) (of_nat (length n)) =
    entry_head \<lparr>e_ino = ino, e_key_type = BTRFS_INODE_ITEM_KEY, e_key_offset = 0, e_transid = 1, e_type = 0,
      e_name = n, e_data = d\<rparr>"
  by (simp add: dir_item_bytes_def entry_head_def)

lemma length_head [simp]: "length (entry_head e) = dir_item_size"
  by (simp add: entry_head_def dir_item_size_def)

lemma length_entry: "length (entry_bytes e) = dir_item_size + length (e_name e) + length (e_data e)"
  by (simp add: entry_bytes_def)

lemma dir_item_at_entry:
  assumes "buf = pre @ entry_bytes e @ post" "length (e_name e) < 2 ^ 16" "length (e_data e) < 2 ^ 16"
  shows "dir_item_at (length pre) buf =
    Some \<lparr>de_ino = e_ino e, de_name_len = length (e_name e), de_data_len = length (e_data e)\<rparr>"
proof -
  let ?dl = "of_nat (length (e_data e)) :: u16" and ?nl = "of_nat (length (e_name e)) :: u16"
  let ?key = "[e_key_type e] @ le64 (e_key_offset e) @ le64 (e_transid e)" and ?rest = "[e_type e] @ e_name e @ e_data e @ post"
  have buf: "buf = pre @ le64 (e_ino e) @ ?key @ le16 ?dl @ le16 ?nl @ ?rest"
    using assms(1) by (simp add: entry_bytes_def entry_head_def)
  have 1: "fld 8 (length pre) buf = Some (e_ino e)" using fld_mid [OF buf] by simp
  have "buf = (pre @ le64 (e_ino e) @ ?key) @ le16 ?dl @ le16 ?nl @ ?rest" using buf by simp
  from fld_mid [OF this] have 2: "fld 2 (length pre + 25) buf = Some (ucast ?dl)" by simp
  have "buf = (pre @ le64 (e_ino e) @ ?key @ le16 ?dl) @ le16 ?nl @ ?rest" using buf by simp
  from fld_mid [OF this] have 3: "fld 2 (length pre + 27) buf = Some (ucast ?nl)" by simp
  have u: "unat (ucast (of_nat k :: u16) :: u64) = k" if "k < 2 ^ 16" for k
  proof -
    have "unat (of_nat k :: u16) = k" using that by (simp add: unat_of_nat)
    moreover have "unat (ucast (w :: u16) :: u64) = unat w" for w
      using unsigned_less [of w, where ?'a = nat] by (simp add: unsigned_ucast_eq take_bit_nat_eq_self)
    ultimately show ?thesis by simp
  qed
  show ?thesis using 1 2 3 u [OF assms(2)] u [OF assms(3)] by (simp add: dir_item_at_def)
qed

lemma name_match_mid:
  "buf = pre @ n @ post \<Longrightarrow> length pre = p \<Longrightarrow> name_match name buf p (length n) = Some (name = n)"
proof (induction n arbitrary: name pre p)
  case (Cons c cs)
  have b: "bytes_at buf p 1 = Some [c]" using Cons.prems bytes_at_mid [of pre "[c]" "cs @ post"] by simp
  show ?case
  proof (cases name)
    case (Cons x xs)
    have "name_match xs buf (p + 1) (length cs) = Some (xs = cs)"
      using Cons.IH [of "pre @ [c]" "p + 1" xs] Cons.prems by simp
    then show ?thesis using b Cons by (cases "x = c") auto
  qed simp
qed simp

lemma find_entries_spec:
  assumes "buf = pre @ concat (map entry_bytes es) @ post" "\<forall>e\<in>set es. dentry_ok e" "length buf < 2 ^ 32"
    "unat off = length pre" "unat fin = length pre + length (concat (map entry_bytes es))"
  shows "find_entries name buf off fin = Some (case named es name of Some ino \<Rightarrow> Found ino | None \<Rightarrow> GoOn)"
  using assms
proof (induction es arbitrary: pre off)
  case Nil
  then show ?case by (subst find_entries.simps) (simp add: named_def dir_item_size_def)
next
  case (Cons e es)
  let ?rest = "concat (map entry_bytes es)" and ?n = "e_name e" and ?d = "e_data e"
  have ok: "?n \<noteq> []" "length ?n < 2 ^ 16" "length ?d < 2 ^ 16" using Cons.prems(2) by (auto simp: dentry_ok_def)
  have buf: "buf = pre @ entry_bytes e @ ?rest @ post" using Cons.prems(1) by simp
  then have lb: "length buf = length pre + (dir_item_size + length ?n + length ?d) + length ?rest + length post"
    by (simp add: length_entry)
  have di: "dir_item_at (unat off) buf = Some \<lparr>de_ino = e_ino e, de_name_len = length ?n, de_data_len = length ?d\<rparr>"
    using dir_item_at_entry [OF buf ok(2,3)] Cons.prems(4) by simp
  have k: "unat (off + of_nat k) = length pre + k" if "length pre + k \<le> length buf" for k
  proof -
    have "unat (of_nat k :: u32) = k" using that Cons.prems(3) by (simp add: unat_of_nat)
    then show ?thesis using unat_add_lem [of off "of_nat k"] that Cons.prems(3,4) by simp
  qed
  have o1: "unat (off + of_nat dir_item_size) = length pre + dir_item_size" using lb by (intro k) simp
  have nm: "name_match name buf (unat (off + of_nat dir_item_size)) (length ?n) = Some (name = ?n)"
    by (rule name_match_mid [of _ "pre @ entry_head e" ?n "?d @ ?rest @ post"])
       (use buf o1 in \<open>simp_all add: entry_bytes_def\<close>)
  have fin: "unat off + dir_item_size \<le> unat fin" using Cons.prems(4,5) by (simp add: length_entry)
  have step: "find_entries name buf off fin =
      (if name = ?n then Some (Found (e_ino e))
       else find_entries name buf (off + of_nat dir_item_size + of_nat (length ?n + length ?d)) fin)"
    using fin di nm ok(1) by (subst find_entries.simps) simp
  let ?off = "off + of_nat dir_item_size + of_nat (length ?n + length ?d)"
  have "?off = off + of_nat (dir_item_size + (length ?n + length ?d))" by (simp add: add.assoc)
  moreover have "unat (off + of_nat (dir_item_size + (length ?n + length ?d))) = length pre + (dir_item_size + (length ?n + length ?d))"
    using lb by (intro k) simp
  ultimately have o2: "unat ?off = length (pre @ entry_bytes e)" by (simp only: length_append length_entry add.assoc)
  have "find_entries name buf ?off fin = Some (case named es name of Some ino \<Rightarrow> Found ino | None \<Rightarrow> GoOn)"
    by (rule Cons.IH [of "pre @ entry_bytes e"]) (use buf Cons.prems(2,3,5) o2 in auto)
  then show ?case unfolding step by (auto simp: named_def)
qed

subsection \<open>What a tree holds\<close>

definition dir_item_of :: "u64 \<Rightarrow> item \<Rightarrow> bool" where
  "dir_item_of dir it \<longleftrightarrow> it_objectid it = dir \<and> it_type it = BTRFS_DIR_ITEM_KEY"

definition entries_at :: "u8 list \<Rightarrow> item \<Rightarrow> entry list \<Rightarrow> bool" where
  "entries_at buf it es \<longleftrightarrow> (\<forall>e\<in>set es. dentry_ok e)
     \<and> (\<exists>pre post. buf = pre @ concat (map entry_bytes es) @ post \<and> unat (it_offset it) = length pre
          \<and> unat (it_offset it + it_size it) = length pre + length (concat (map entry_bytes es)))"

inductive items_hold :: "u8 list \<Rightarrow> u64 \<Rightarrow> nat \<Rightarrow> nat \<Rightarrow> entry list \<Rightarrow> bool" for buf dir where
  items_none: "items_hold buf dir i 0 []"
| items_other: "item_at i buf = Some it \<Longrightarrow> \<not> dir_item_of dir it \<Longrightarrow> items_hold buf dir (Suc i) k es
    \<Longrightarrow> items_hold buf dir i (Suc k) es"
| items_dir: "item_at i buf = Some it \<Longrightarrow> dir_item_of dir it \<Longrightarrow> entries_at buf it es1
    \<Longrightarrow> items_hold buf dir (Suc i) k es2 \<Longrightarrow> items_hold buf dir i (Suc k) (es1 @ es2)"

text \<open>
  The tree with root block \<open>b\<close> and at most \<open>d\<close> levels holds the entries \<open>es\<close> of a directory, in the order
  of the walk.
\<close>

inductive tree_holds :: "btrfs \<Rightarrow> u64 \<Rightarrow> nat \<Rightarrow> u64 \<Rightarrow> entry list \<Rightarrow> bool"
  and children_hold :: "btrfs \<Rightarrow> u64 \<Rightarrow> nat \<Rightarrow> u8 list \<Rightarrow> nat \<Rightarrow> nat \<Rightarrow> entry list \<Rightarrow> bool" for s dir where
  tree_leaf: "read_tree_node (map_logical s b) s = Some (Some buf) \<Longrightarrow> hdr_level buf = Some 0
    \<Longrightarrow> hdr_nritems buf = Some n \<Longrightarrow> items_hold buf dir 0 n es \<Longrightarrow> tree_holds s dir (Suc d) b es"
| tree_node: "read_tree_node (map_logical s b) s = Some (Some buf) \<Longrightarrow> hdr_level buf = Some l \<Longrightarrow> l \<noteq> 0
    \<Longrightarrow> hdr_nritems buf = Some n \<Longrightarrow> children_hold s dir d buf 0 n es \<Longrightarrow> tree_holds s dir (Suc d) b es"
| no_children: "children_hold s dir d buf i 0 []"
| more_children: "blockptr_at i buf = Some p \<Longrightarrow> tree_holds s dir d p es1 \<Longrightarrow> children_hold s dir d buf (Suc i) k es2
    \<Longrightarrow> children_hold s dir d buf i (Suc k) (es1 @ es2)"

lemma named_append: "named (es1 @ es2) name = (case named es1 name of None \<Rightarrow> named es2 name | Some ino \<Rightarrow> Some ino)"
  by (simp add: named_def map_add_def split: option.splits)

lemma node_length: "read_tree_node p s = Some (Some buf) \<Longrightarrow> length buf \<le> 16384"
  by (auto simp: read_tree_node_def brights_btrfs_raw_read_def BRIGHTS_BTRFS_MAX_NODE_def bind_eq_Some_conv
      split: if_splits option.splits)

lemma find_items_spec:
  assumes "items_hold buf dir i n es" "length buf < 2 ^ 32"
  shows "find_items name buf dir i n = Some (named es name)"
  using assms(1)
proof induction
  case (items_dir i it es1 k es2)
  obtain pre post where b: "buf = pre @ concat (map entry_bytes es1) @ post" "unat (it_offset it) = length pre"
    "unat (it_offset it + it_size it) = length pre + length (concat (map entry_bytes es1))"
    and ok: "\<forall>e\<in>set es1. dentry_ok e"
    using items_dir by (auto simp: entries_at_def)
  have "find_entries name buf (it_offset it) (it_offset it + it_size it)
      = Some (case named es1 name of Some ino \<Rightarrow> Found ino | None \<Rightarrow> GoOn)"
    by (rule find_entries_spec [OF b(1) ok assms(2) b(2,3)])
  then show ?case using items_dir by (simp add: dir_item_of_def named_append split: option.split)
qed (auto simp: named_def dir_item_of_def)

lemma find_inode_spec:
  "tree_holds s dir d b es \<Longrightarrow> fs_tree_find_inode_by_name d dir name s b = Some (named es name)"
  "children_hold s dir d buf i k es
     \<Longrightarrow> find_children (fs_tree_find_inode_by_name d dir name s) buf i k = Some (named es name)"
proof (induction rule: tree_holds_children_hold.inducts)
  case (tree_leaf b buf n es d)
  have "length buf < 2 ^ 32" using node_length [OF tree_leaf(1)] by simp
  then show ?case using tree_leaf find_items_spec by (simp add: fs_tree_find_inode_by_name_leaf_def)
qed (simp_all add: named_append split: option.split, simp add: named_def)

text \<open>C30: looking a name up in a directory of the on-disk file system returns the inode of the first entry of that
  name among the entries the tree of nodes holds, and -1 exactly if there is none: the walk over nodes, items and
  packed entries implements the lookup in an association list, and it ends within as many nested calls as
  the tree has levels.  The tree is any one whose nodes the device can read and whose items of the
  directory are filled by entries with non-empty names; the types, keys and transactions of the
  entries are arbitrary.\<close>
theorem btrfs_lookup_refines_entries:
  assumes "tree_holds s dir depth b es"
  shows "fs_tree_find_inode_by_name depth dir name s b = Some (map_of (map (\<lambda>e. (e_name e, e_ino e)) es) name)"
  using find_inode_spec(1) [OF assms] by (simp add: named_def)

subsection \<open>Files that are created\<close>

definition on_ramdisk :: "btrfs \<Rightarrow> bool" where
  "on_ramdisk s \<longleftrightarrow> root_dev (bt_block s) = Some RamDev \<and> dev_read (ram_dev (bt_block s)) = Some RamdiskRead
     \<and> dev_write (ram_dev (bt_block s)) = Some RamdiskWrite \<and> ramdisk_ok (bt_block s)"

lemma one_block:
  fixes sz :: u64
  assumes "0 < unat sz" "unat sz \<le> 4096"
  shows "(sz + BRIGHTS_BLOCK_SIZE - 1) div BRIGHTS_BLOCK_SIZE = 1"
proof -
  have "unat (sz + 4095) = unat sz + 4095" using unat_add_lem [of sz 4095] assms by simp
  then have "unat ((sz + 4095) div 4096) = 1"
    using assms by (simp add: unat_div div_nat_eqI)
  then have "(sz + 4095) div 4096 = 1" by (metis unsigned_1 word_unat_eq_iff)
  then show ?thesis by (simp add: BRIGHTS_BLOCK_SIZE_def add.commute)
qed

lemma block_number: "unat (a div BRIGHTS_BLOCK_SIZE) = unat a div 4096"
  by (simp add: BRIGHTS_BLOCK_SIZE_def unat_div)

lemma block_room:
  fixes m k :: nat
  assumes "m mod 4096 + k < 4096"
  shows "m + k < (m div 4096 + 1) * 4096" and "(m + k) div 4096 = m div 4096"
proof -
  define q r where "q = m div 4096" and "r = m mod 4096"
  have m: "m = q * 4096 + r" by (simp add: q_def r_def)
  have "r + k < 4096" using assms by (simp add: r_def)
  then show "m + k < (m div 4096 + 1) * 4096" "(m + k) div 4096 = m div 4096"
    unfolding q_def [symmetric] by (simp_all add: m div_nat_eqI)
qed

text \<open>Writing a node of at most one block to the RAM disk replaces the block its address lies in.\<close>

lemma write_node_ramdisk:
  assumes "on_ramdisk s" "next_free s \<noteq> 0" "0 < unat sz" "unat sz \<le> 4096" "4096 \<le> length buf"
    "(unat (next_free s) div 4096 + 1) * 4096 \<le> unat (ram_size (bt_block s))"
  shows "\<exists>blk. btrfs_write_tree_node buf sz s
      = Some (s\<lparr>next_free := next_free s + ucast sz, bt_block := blk\<rparr>, next_free s)
    \<and> on_ramdisk (s\<lparr>bt_block := blk\<rparr>) \<and> ram_size blk = ram_size (bt_block s)
    \<and> blocks_of blk (unat (next_free s) div 4096) 1 = take 4096 buf"
proof -
  let ?lba = "next_free s div BRIGHTS_BLOCK_SIZE"
  have sz: "(ucast sz + BRIGHTS_BLOCK_SIZE - 1) div BRIGHTS_BLOCK_SIZE = (1 :: u64)"
    using assms(3,4) by (intro one_block) simp_all
  have rs: "unat (ram_size (bt_block s)) < 2 ^ 64" using unsigned_less [of "ram_size (bt_block s)", where ?'a = nat] by simp
  have fits: "(unat ?lba + unat (1 :: u64)) * 4096 \<le> unat (ram_size (bt_block s))" using assms(6) by (simp add: block_number)
  then have nw: "(unat ?lba + unat (1 :: u64)) * 4096 < 2 ^ 64" using rs by linarith
  have ok: "ramdisk_ok (bt_block s)" using assms(1) by (simp add: on_ramdisk_def)
  define blk where "blk = (bt_block s)\<lparr>ram_base := take (unat ?lba * 4096) (ram_base (bt_block s))
      @ take (unat (1 :: u64) * 4096) buf @ drop ((unat ?lba + unat (1 :: u64)) * 4096) (ram_base (bt_block s))\<rparr>"
  have w: "ramdisk_write ?lba buf 1 (bt_block s) = Some (blk, 0)"
    using ramdisk_write_exact [OF ok nw] assms(5) fits by (simp add: blk_def)
  have len: "length (take (unat ?lba * 4096) (ram_base (bt_block s))) = unat ?lba * 4096"
    using ok fits by (simp add: ramdisk_ok_def)
  have "blocks_of blk (unat ?lba) 1 = take 4096 buf"
    using len assms(5) by (simp add: blocks_of_def blk_def)
  moreover have "ramdisk_ok blk" using ok fits assms(5) len by (simp add: ramdisk_ok_def blk_def)
  moreover have "btrfs_write_tree_node buf sz s
      = Some (s\<lparr>next_free := next_free s + ucast sz, bt_block := blk\<rparr>, next_free s)"
    using assms(1,2) w by (simp add: btrfs_write_tree_node_def btrfs_alloc_block_def brights_btrfs_raw_write_def
        on_ramdisk_def brights_block_root_def dev_at_def call_write_def sz)
  ultimately show ?thesis using assms(1) by (auto simp: on_ramdisk_def blk_def block_number)
qed

text \<open>The block allocator of the on-disk file system hands out byte addresses while the device is
  written in whole blocks: after two nodes are written of which the first ends before its block does,
  both addresses lie in the same block, and that block holds the second node only.  Every node
  but the last written to a block is lost.\<close>
theorem btrfs_node_overwritten:
  assumes "on_ramdisk s" "next_free s \<noteq> 0" "0 < unat sz1" "unat (next_free s) mod 4096 + unat sz1 < 4096"
    and "4096 \<le> length buf1" "0 < unat sz2" "unat sz2 \<le> 4096" "4096 \<le> length buf2"
    and "(unat (next_free s) div 4096 + 1) * 4096 \<le> unat (ram_size (bt_block s))"
  shows "\<exists>s1 s2 a1 a2. btrfs_write_tree_node buf1 sz1 s = Some (s1, a1) \<and> btrfs_write_tree_node buf2 sz2 s1 = Some (s2, a2)
    \<and> a1 \<noteq> a2 \<and> unat a1 div 4096 = unat a2 div 4096
    \<and> blocks_of (bt_block s1) (unat a1 div 4096) 1 = take 4096 buf1
    \<and> blocks_of (bt_block s2) (unat a1 div 4096) 1 = take 4096 buf2"
proof -
  let ?a = "next_free s" and ?b = "next_free s + ucast sz1"
  have "unat sz1 \<le> 4096" using assms(4) by simp
  then obtain b1 where w1: "btrfs_write_tree_node buf1 sz1 s = Some (s\<lparr>next_free := ?b, bt_block := b1\<rparr>, ?a)"
    and r1: "on_ramdisk (s\<lparr>bt_block := b1\<rparr>)" "ram_size b1 = ram_size (bt_block s)"
      "blocks_of b1 (unat ?a div 4096) 1 = take 4096 buf1"
    using write_node_ramdisk [OF assms(1,2,3) _ assms(5,9)] by blast
  let ?s1 = "s\<lparr>next_free := ?b, bt_block := b1\<rparr>"
  have "unat ?a + unat sz1 < (unat ?a div 4096 + 1) * 4096" using block_room(1) [OF assms(4)] .
  moreover have "unat (ram_size (bt_block s)) < 2 ^ 64" using unsigned_less [of "ram_size (bt_block s)", where ?'a = nat] by simp
  ultimately have b: "unat ?b = unat ?a + unat sz1"
    using assms(9) unat_add_lem [of ?a "ucast sz1"] by simp
  have same: "unat ?b div 4096 = unat ?a div 4096"
    unfolding b using block_room(2) [OF assms(4)] .
  have "?b \<noteq> 0" using b assms(3) by (metis add_gr_0 neq0_conv unsigned_0)
  then obtain b2 where w2: "btrfs_write_tree_node buf2 sz2 ?s1 = Some (?s1\<lparr>next_free := ?b + ucast sz2, bt_block := b2\<rparr>, ?b)"
    and r2: "blocks_of b2 (unat ?b div 4096) 1 = take 4096 buf2"
    using write_node_ramdisk [of ?s1 sz2 buf2] r1(1,2) assms(6,7,8,9) same by (auto simp: on_ramdisk_def)
  have "?a \<noteq> ?b" using b assms(3) by auto
  then show ?thesis using w1 w2 r1(3) r2 same
    by (intro exI [of _ ?s1] exI [of _ "?s1\<lparr>next_free := ?b + ucast sz2, bt_block := b2\<rparr>"] exI [of _ ?a] exI [of _ ?b]) simp
qed

text \<open>Showing a regular file reads 256 bytes by a call that stores a whole block of 4096 bytes into a
  buffer of 256: for every extent of a regular file whose block lies on the disk the store leaves the
  buffer.\<close>
theorem btrfs_regular_extent_overruns:
  assumes "on_ramdisk s" "fld 1 (unat (it_offset it) + 20) buf = Some 1" "fld 8 (unat (it_offset it) + 21) buf = Some a"
    and "(unat (map_logical s a) div 4096 + 1) * 4096 \<le> unat (ram_size (bt_block s))"
  shows "show_extent buf it s = None"
proof -
  let ?lba = "map_logical s a div BRIGHTS_BLOCK_SIZE"
  have sz: "(255 + BRIGHTS_BLOCK_SIZE) div BRIGHTS_BLOCK_SIZE = (1 :: u64)" using one_block [of 256] by simp
  have fits: "(unat ?lba + unat (1 :: u64)) * 4096 \<le> unat (ram_size (bt_block s))" using assms(4) by (simp add: block_number)
  moreover have "unat (ram_size (bt_block s)) < 2 ^ 64" using unsigned_less [of "ram_size (bt_block s)", where ?'a = nat] by simp
  ultimately have nw: "(unat ?lba + unat (1 :: u64)) * 4096 < 2 ^ 64" by linarith
  have ok: "ramdisk_ok (bt_block s)" using assms(1) by (simp add: on_ramdisk_def)
  have r: "ramdisk_read ?lba 1 (bt_block s) = Some (0, blocks_of (bt_block s) (unat ?lba) 1)"
    using ramdisk_read_exact [OF ok nw] fits by simp
  have "256 < length (blocks_of (bt_block s) (unat ?lba) 1)"
    using ok fits by (simp add: blocks_of_def ramdisk_ok_def)
  then show ?thesis using assms(1-3) r by (simp add: show_extent_def brights_btrfs_raw_read_def on_ramdisk_def
        brights_block_root_def dev_at_def call_read_def sz)
qed

subsection \<open>A small disk\<close>

text \<open>Two blocks; the second is a leaf with one directory item of directory 256, which holds one entry, a directory.\<close>

definition demo_dentry :: entry where
  "demo_dentry = \<lparr>e_ino = 257, e_key_type = 1, e_key_offset = 0, e_transid = 7, e_type = 2, e_name = [104, 105], e_data = []\<rparr>"

definition demo_leaf :: "u8 list" where
  "demo_leaf = replicate 96 0 @ [1, 0, 0, 0] @ [0] @ le64 256 @ [84] @ le64 0 @ [232, 3, 0, 0] @ [32, 0, 0, 0]
     @ replicate 874 0 @ entry_bytes demo_dentry @ replicate 3064 0"

definition demo_btrfs :: btrfs where
  "demo_btrfs = \<lparr>chunk_map = [], btrfs_nodesize = 4096, btrfs_fs_root = [], btrfs_fs_root_ok = False, next_free = 4096,
     next_ino = 0, bt_block = (brights_ramdisk_init (replicate 4096 0 @ demo_leaf) 8192 demo_disk)\<lparr>root_dev := Some RamDev\<rparr>,
     bt_out = []\<rparr>"

lemma demo_dentry_bytes: "length (entry_bytes demo_dentry) = 32"
  by (simp add: demo_dentry_def length_entry dir_item_size_def)

lemma demo_leaf_length: "length demo_leaf = 4096"
  by (simp add: demo_leaf_def demo_dentry_bytes)

lemma demo_on_ramdisk: "on_ramdisk demo_btrfs" "ram_size (bt_block demo_btrfs) = 8192" "chunk_map demo_btrfs = []"
  "ram_base (bt_block demo_btrfs) = replicate 4096 0 @ demo_leaf" "btrfs_nodesize demo_btrfs = 4096" "next_free demo_btrfs = 4096"
  by (simp_all add: demo_btrfs_def on_ramdisk_def brights_ramdisk_init_def brights_block_register_def demo_disk_def
      ramdisk_ok_def demo_leaf_length BRIGHTS_MAX_BLOCK_DEVS_def)

lemma demo_read: "read_tree_node 4096 demo_btrfs = Some (Some demo_leaf)"
proof -
  have "ramdisk_read 1 1 (bt_block demo_btrfs) = Some (0, demo_leaf)"
    using ramdisk_read_exact [of "bt_block demo_btrfs" 1 1] demo_on_ramdisk(1,2,4) demo_leaf_length
    by (simp add: on_ramdisk_def blocks_of_def)
  then show ?thesis using demo_on_ramdisk(1,5) demo_leaf_length
    by (simp add: read_tree_node_def brights_btrfs_raw_read_def on_ramdisk_def brights_block_root_def dev_at_def call_read_def
        BRIGHTS_BLOCK_SIZE_def BRIGHTS_BTRFS_MAX_NODE_def)
qed

lemma demo_item: "item_at 0 demo_leaf = Some \<lparr>it_objectid = 256, it_type = 84, it_key_offset = 0, it_offset = 1000, it_size = 32\<rparr>"
proof -
  let ?h = "replicate 96 0 @ [1, 0, 0, 0] @ [0] :: u8 list" and ?r = "replicate 874 0 @ entry_bytes demo_dentry @ replicate 3064 0"
  have "fld 8 101 demo_leaf = Some (le_value (le64 256))"
    by (rule fld_mid [of _ ?h "le64 256"]) (simp_all add: demo_leaf_def)
  moreover have "fld 1 109 demo_leaf = Some (le_value [84])"
    by (rule fld_mid [of _ "?h @ le64 256" "[84]"]) (simp_all add: demo_leaf_def)
  moreover have "fld 8 110 demo_leaf = Some (le_value (le64 0))"
    by (rule fld_mid [of _ "?h @ le64 256 @ [84]" "le64 0"]) (simp_all add: demo_leaf_def)
  moreover have "fld 4 118 demo_leaf = Some (le_value [232, 3, 0, 0])"
    by (rule fld_mid [of _ "?h @ le64 256 @ [84] @ le64 0" "[232, 3, 0, 0]"]) (simp_all add: demo_leaf_def)
  moreover have "fld 4 122 demo_leaf = Some (le_value [32, 0, 0, 0])"
    by (rule fld_mid [of _ "?h @ le64 256 @ [84] @ le64 0 @ [232, 3, 0, 0]" "[32, 0, 0, 0]" ?r]) (simp_all add: demo_leaf_def)
  ultimately show ?thesis by (simp add: item_at_def header_size_def item_size_def)
qed

lemma demo_tree: "tree_holds demo_btrfs 256 1 4096 [demo_dentry]"
proof -
  have "fld 1 100 demo_leaf = Some (le_value [0])"
    by (rule fld_mid [of _ "replicate 96 0 @ [1, 0, 0, 0]" "[0]"]) (simp_all add: demo_leaf_def)
  then have lvl: "hdr_level demo_leaf = Some 0" by (simp add: hdr_level_def)
  have "fld 4 96 demo_leaf = Some (le_value [1, 0, 0, 0])"
    by (rule fld_mid [of _ "replicate 96 0" "[1, 0, 0, 0]"]) (simp_all add: demo_leaf_def)
  then have n: "hdr_nritems demo_leaf = Some 1" by (simp add: hdr_nritems_def)
  let ?it = "\<lparr>it_objectid = 256, it_type = 84, it_key_offset = 0, it_offset = 1000, it_size = 32\<rparr>"
  have "entries_at demo_leaf ?it [demo_dentry]"
    unfolding entries_at_def
    by (intro conjI exI [of _ "take 1000 demo_leaf"] exI [of _ "replicate 3064 0"])
       (simp_all add: demo_leaf_def demo_dentry_bytes, simp add: demo_dentry_def dentry_ok_def)
  then have "items_hold demo_leaf 256 0 (Suc 0) ([demo_dentry] @ [])"
    by (intro items_dir items_none) (simp_all add: demo_item dir_item_of_def BTRFS_DIR_ITEM_KEY_def)
  then show ?thesis
    using tree_leaf [of demo_btrfs 4096 demo_leaf "Suc 0" 256 "[demo_dentry]" 0] lvl n demo_read demo_on_ramdisk(3)
    by (simp add: map_logical_def)
qed

lemma btrfs_lookup_refines_entries_witness:
  "fs_tree_find_inode_by_name 1 256 [104, 105] demo_btrfs 4096 = Some (Some 257)"
  using btrfs_lookup_refines_entries [OF demo_tree, of "[104, 105]"] by (simp add: demo_dentry_def)

lemma btrfs_node_overwritten_witness:
  "\<exists>s1 s2 a1 a2. btrfs_write_tree_node (replicate 4096 1) 100 demo_btrfs = Some (s1, a1)
     \<and> btrfs_write_tree_node (replicate 4096 2) 100 s1 = Some (s2, a2)
     \<and> a1 \<noteq> a2 \<and> blocks_of (bt_block s2) (unat a1 div 4096) 1 = replicate 4096 2"
  using btrfs_node_overwritten [of demo_btrfs 100 "replicate 4096 1" 100 "replicate 4096 2"] demo_on_ramdisk
  by fastforce

text \<open>The item of a regular file whose only block is block 1.\<close>

lemma btrfs_regular_extent_overruns_witness:
  "show_extent (replicate 20 0 @ [1] @ le64 4096 @ replicate 24 0)
     \<lparr>it_objectid = 257, it_type = 108, it_key_offset = 0, it_offset = 0, it_size = 53\<rparr> demo_btrfs = None"
proof (rule btrfs_regular_extent_overruns [where a = 4096])
  let ?b = "replicate 20 0 @ [1] @ le64 4096 @ replicate 24 0 :: u8 list"
  show "fld 8 (unat (it_offset \<lparr>it_objectid = 257, it_type = 108, it_key_offset = 0, it_offset = 0, it_size = 53\<rparr>) + 21) ?b = Some 4096"
    using fld_mid [of ?b "replicate 20 0 @ [1]" "le64 4096" "replicate 24 0" 21 8] by simp
qed (simp_all add: demo_on_ramdisk map_logical_def fld_def bytes_at_def)

end
