(* ===== verification/Bootfs.thy ===== *)
theory Bootfs
  imports Ramfs Btrfs
begin

text \<open>
  The boot-time contents of the root file system and the mount of the system disk,
  \<open>kernel/fs/vfs.c\<close>: directories and files are created one after the other in the RAM file system, and
  the outcome of mounting the disk is recorded in files under \<open>/mnt/drive\<close>.

  The calls of \<open>seed_dir\<close> and \<open>seed_file\<close> in \<open>brights_vfs_init\<close> are the lists below, in the order of the
  source; a file's contents are its lines, each ended by a newline.  The result \<open>None\<close> comes from
  \<open>brights_ramfs_write\<close> (a store outside a file's storage) and from \<open>brights_btrfs_mount\<close>.
\<close>

subsection \<open>Seeding\<close>

definition content_byte :: "string \<Rightarrow> nat \<Rightarrow> u8" where
  "content_byte c i = of_char (cchar c i)"

definition seed_file :: "string \<Rightarrow> string option \<Rightarrow> ramfs \<Rightarrow> ramfs option" where
  "seed_file path content fs =
     (let fd = brights_ramfs_open (Some path) fs;
          (fs1, fd1) = (if fd < 0 then brights_ramfs_create (Some path) fs else (fs, fd))
      in if fd1 < 0 then Some fs1
         else case content of
                None \<Rightarrow> Some fs1
              | Some c \<Rightarrow> map_option fst (brights_ramfs_write fd1 0 (content_byte c) (of_nat (length c)) fs1))"

definition seed_dir :: "string \<Rightarrow> ramfs \<Rightarrow> ramfs" where
  "seed_dir path fs =
     (if brights_ramfs_stat (Some path) fs \<noteq> None then fs else fst (brights_ramfs_mkdir (Some path) fs))"

datatype seed = SeedDir string | SeedFile string string

definition text_lines :: "string list \<Rightarrow> string" where
  "text_lines ls = concat (map (\<lambda>l. l @ [CHR 0x0A]) ls)"

definition seed_dirs :: "seed list" where
  \<open>seed_dirs =
    [SeedDir ''/sys'', SeedDir ''/usr'', SeedDir ''/usr/home'', SeedDir ''/usr/home/root'',
     SeedDir ''/usr/home/guest'', SeedDir ''/bin'', SeedDir ''/bin/pkg'', SeedDir ''/bin/config'',
     SeedDir ''/bin/config/root'', SeedDir ''/bin/config/guest'', SeedDir ''/bin/firmware'',
     SeedDir ''/bin/runtime'', SeedDir ''/bin/runtime/rust'', SeedDir ''/bin/runtime/c'',
     SeedDir ''/bin/runtime/python'', SeedDir ''/mnt'', SeedDir ''/mnt/drive'', SeedDir ''/mnt/input'',
     SeedDir ''/mnt/input/keyboard'', SeedDir ''/mnt/input/mouse'', SeedDir ''/mnt/input/touchpad'',
     SeedDir ''/mnt/input/camera'', SeedDir ''/mnt/input/biometric'', SeedDir ''/mnt/output'',
     SeedDir ''/tmp'', SeedDir ''/swp'', SeedDir ''/dev'']\<close>

definition seed_config :: "seed list" where
  \<open>seed_config =
    [SeedFile ''/sys/init.rc'' (text_lines
      [''echo BrightS userspace init'']),
     SeedFile ''/sys/profile'' (text_lines
      [''USER=guest'',
       ''HOME=/usr/home'']),
     SeedFile ''/bin/config/root/example.pf'' (text_lines
      [''username:root'',
       ''hostname:brights'',
       ''avatar:"default"'',
       ''email:root@local'',
       ''password:root'']),
     SeedFile ''/bin/config/guest/example.pf'' (text_lines
      [''username:guest'',
       ''hostname:brights'',
       ''avatar:"default"'',
       ''email:guest@local'',
       ''password:guest'']),
     SeedFile ''/usr/home/readme.txt'' (text_lines
      [''Welcome to /usr/home'']),
     SeedFile ''/usr/home/notes.txt'' [],
     SeedFile ''/usr/home/root/readme.txt'' (text_lines
      [''Home of root'']),
     SeedFile ''/usr/home/guest/readme.txt'' (text_lines
      [''Home of guest'']),
     SeedFile ''/sys/readme.txt'' (text_lines
      [''BrightS kernel core files'']),
     SeedFile ''/bin/readme.txt'' (text_lines
      [''Software packages directory'']),
     SeedFile ''/bin/pkg/readme.txt'' (text_lines
      [''Installed packages'']),
     SeedFile ''/bin/config/readme.txt'' (text_lines
      [''User software configurations'']),
     SeedFile ''/bin/firmware/readme.txt'' (text_lines
      [''Firmware packages'']),
     SeedFile ''/bin/runtime/readme.txt'' (text_lines
      [''Runtime environments and compilers'']),
     SeedFile ''/bin/runtime/rust/readme.txt'' (text_lines
      [''Rust compiler and toolchain'',
       ''  - rustc: Rust compiler'',
       ''  - cargo: Rust package manager'']),
     SeedFile ''/bin/runtime/c/readme.txt'' (text_lines
      [''C compiler and toolchain'',
       ''  - gcc: GNU Compiler Collection'',
       ''  - clang: LLVM C compiler'',
       ''  - make: Build automation tool'']),
     SeedFile ''/bin/runtime/python/readme.txt'' (text_lines
      [''Python interpreter and packages'',
       ''  - python3: Python 3 interpreter'',
       ''  - pip: Python package manager''])]\<close>

definition seed_rust :: "seed list" where
  \<open>seed_rust =
    [SeedFile ''/bin/runtime/rust/rustc'' (text_lines
      [''#!/bin/sh'',
       ''# BrightS Rust Compiler Wrapper'',
       ''if [ "$1" = "--version" ] || [ "$1" = "-V" ]; then'',
       ''  echo "rustc 1.75.0 (BrightS 2024.01)"'',
       ''  exit 0'',
       ''fi'',
       ''if [ "$1" = "--help" ] || [ "$1" = "-h" ]; then'',
       ''  echo "Usage: rustc [OPTIONS] INPUT"'',
       ''  echo "Options:"'',
       ''  echo "  -h, --help       Print help"'',
       ''  echo "  -V, --version    Print version"'',
       ''  echo "  -o, --output     Output file"'',
       ''  echo "  --edition        Rust edition (2015, 2018, 2021)"'',
       ''  exit 0'',
       ''fi'',
       ''echo "[BrightS] rustc: compiling..."'',
       ''echo "Note: Full compilation requires host rustc"'']),
     SeedFile ''/bin/runtime/rust/cargo'' (text_lines
      [''#!/bin/sh'',
       ''# BrightS Cargo Package Manager Wrapper'',
       ''if [ "$1" = "--version" ] || [ "$1" = "-V" ]; then'',
       ''  echo "cargo 1.75.0 (BrightS 2024.01)"'',
       ''  exit 0'',
       ''fi'',
       ''if [ "$1" = "--help" ] || [ "$1" = "-h" ] || [ -z "$1" ]; then'',
       ''  echo "Rust's package manager"'',
       ''  echo "Usage: cargo [OPTIONS] [COMMAND]"'',
       ''  echo "Commands:"'',
       ''  echo "  new      Create a new cargo package"'',
       ''  echo "  build    Compile the current package"'',
       ''  echo "  run      Run a binary or example"'',
       ''  echo "  test     Run tests"'',
       ''  echo "  update   Update dependencies"'',
       ''  exit 0'',
       ''fi'',
       ''echo "[BrightS] cargo: $1"'']),
     SeedFile ''/bin/runtime/rust/rustup'' (text_lines
      [''#!/bin/sh'',
       ''# BrightS Rustup Toolchain Manager'',
       ''echo "rustup 1.26.0 (BrightS 2024.01)"'',
       ''echo "Note: Toolchain management via host system"''])]\<close>

definition seed_c :: "seed list" where
  \<open>seed_c =
    [SeedFile ''/bin/runtime/c/gcc'' (text_lines
      [''#!/bin/sh'',
       ''# BrightS GCC Wrapper'',
       ''if [ "$1" = "--version" ] || [ "$1" = "-v" ]; then'',
       ''  echo "gcc (BrightS) 13.2.0"'',
       ''  echo "Copyright (C) 2023 Free Software Foundation, Inc."'',
       ''  exit 0'',
       ''fi'',
       ''if [ "$1" = "--help" ] || [ "$1" = "-h" ]; then'',
       ''  echo "Usage: gcc [OPTIONS] FILE..."'',
       ''  echo "Options:"'',
       ''  echo "  -h, --help       Print help"'',
       ''  echo "  -v, --version    Print version"'',
       ''  echo "  -o, --output     Output file"'',
       ''  echo "  -c               Compile only"'',
       ''  echo "  -Wall            Enable all warnings"'',
       ''  exit 0'',
       ''fi'',
       ''echo "[BrightS] gcc: compiling..."'',
       ''echo "Note: Full compilation requires host gcc"'']),
     SeedFile ''/bin/runtime/c/clang'' (text_lines
      [''#!/bin/sh'',
       ''# BrightS Clang Wrapper'',
       ''if [ "$1" = "--version" ] || [ "$1" = "-v" ]; then'',
       ''  echo "clang version 17.0.6 (BrightS 2024.01)"'',
       ''  echo "Target: x86_64-brights-unknown"'',
       ''  exit 0'',
       ''fi'',
       ''if [ "$1" = "--help" ] || [ "$1" = "-h" ]; then'',
       ''  echo "Usage: clang [OPTIONS] FILE..."'',
       ''  echo "Options:"'',
       ''  echo "  -h, --help       Print help"'',
       ''  echo "  -v, --version    Print version"'',
       ''  echo "  -o, --output     Output file"'',
       ''  echo "  -c               Compile only"'',
       ''  echo "  -Wall            Enable all warnings"'',
       ''  exit 0'',
       ''fi'',
       ''echo "[BrightS] clang: compiling..."'',
       ''echo "Note: Full compilation requires host clang"'']),
     SeedFile ''/bin/runtime/c/make'' (text_lines
      [''#!/bin/sh'',
       ''# BrightS Make Wrapper'',
       ''if [ "$1" = "--version" ]; then'',
       ''  echo "GNU Make 4.4.1 (BrightS 2024.01)"'',
       ''  echo "Built for x86_64-brights-unknown"'',
       ''  exit 0'',
       ''fi'',
       ''if [ "$1" = "--help" ] || [ -z "$1" ]; then'',
       ''  echo "Usage: make [OPTIONS] [TARGET]"'',
       ''  echo "Options:"'',
       ''  echo "  -h, --help       Print help"'',
       ''  echo "  -v, --version    Print version"'',
       ''  echo "  -f, --file       Specify makefile"'',
       ''  echo "  -j, --jobs       Number of parallel jobs"'',
       ''  echo "  -C, --directory  Change directory"'',
       ''  exit 0'',
       ''fi'',
       ''echo "[BrightS] make: building..."'',
       ''echo "Note: Full build requires host make"'']),
     SeedFile ''/bin/runtime/c/gdb'' (text_lines
      [''#!/bin/sh'',
       ''# BrightS GDB Wrapper'',
       ''echo "GNU gdb (BrightS) 14.1"'',
       ''echo "Note: Debugging via host gdb"''])]\<close>

definition seed_python :: "seed list" where
  \<open>seed_python =
    [SeedFile ''/bin/runtime/python/python3'' (text_lines
      [''#!/bin/sh'',
       ''# BrightS Python 3 Interpreter Wrapper'',
       ''if [ "$1" = "--version" ] || [ "$1" = "-V" ]; then'',
       ''  echo "Python 3.12.1 (BrightS 2024.01)"'',
       ''  exit 0'',
       ''fi'',
       ''if [ "$1" = "--help" ] || [ "$1" = "-h" ]; then'',
       ''  echo "Usage: python3 [OPTIONS] [FILE] [ARG]..."'',
       ''  echo "Options:"'',
       ''  echo "  -h, --help       Print help"'',
       ''  echo "  -V, --version    Print version"'',
       ''  echo "  -c, --cmd        Execute command"'',
       ''  echo "  -m, --module     Run module"'',
       ''  echo "  -i, --interactive Interactive mode"'',
       ''  exit 0'',
       ''fi'',
       ''if [ -z "$1" ]; then'',
       ''  echo "Python 3.12.1 (BrightS 2024.01)"'',
       ''  echo "Type '' @ [CHR 0x5C] @ ''"help'' @ [CHR 0x5C] @ ''", '' @ [CHR 0x5C] @ ''"copyright'' @ [CHR 0x5C] @ ''", '' @ [CHR 0x5C] @ ''"credits'' @ [CHR 0x5C] @ ''" for more information."'',
       ''  echo "Note: Interactive mode via host python3"'',
       ''  exit 0'',
       ''fi'',
       ''echo "[BrightS] python3: running $1"'',
       ''echo "Note: Full execution requires host python3"'']),
     SeedFile ''/bin/runtime/python/pip'' (text_lines
      [''#!/bin/sh'',
       ''# BrightS Pip Package Manager Wrapper'',
       ''if [ "$1" = "--version" ] || [ "$1" = "-V" ]; then'',
       ''  echo "pip 23.3.2 from /bin/runtime/python (python 3.12)"'',
       ''  exit 0'',
       ''fi'',
       ''if [ "$1" = "--help" ] || [ "$1" = "-h" ] || [ -z "$1" ]; then'',
       ''  echo "Usage: pip [OPTIONS] COMMAND"'',
       ''  echo "Commands:"'',
       ''  echo "  install    Install packages"'',
       ''  echo "  uninstall  Uninstall packages"'',
       ''  echo "  list       List installed packages"'',
       ''  echo "  show       Show package info"'',
       ''  echo "  search     Search PyPI"'',
       ''  exit 0'',
       ''fi'',
       ''echo "[BrightS] pip: $1"'']),
     SeedFile ''/bin/runtime/python/pip3'' (text_lines
      [''#!/bin/sh'',
       ''# BrightS Pip3 Package Manager Wrapper'',
       ''/bin/runtime/python/pip "$@"'']),
     SeedFile ''/bin/runtime/python/venv'' (text_lines
      [''#!/bin/sh'',
       ''# BrightS Python Virtual Environment'',
       ''echo "Python venv module (BrightS 2024.01)"'',
       ''echo "Note: Virtual environments via host python3"''])]\<close>

definition seed_pkg :: "seed list" where
  \<open>seed_pkg =
    [SeedFile ''/bin/pkg/bspm'' (text_lines
      [''#!/bin/sh'',
       ''# BrightS Package Manager (BSPM) Installer'',
       ''BSPM_REPO="https://github.com/s12mcOvO/BrightS_Package_Manager"'',
       ''BSPM_VERSION="1.0.0"'',
       [],
       ''case "$1" in'',
       ''  version|--version|-v)'',
       ''    echo "BSPM Installer v$BSPM_VERSION"'',
       ''    echo "Repository: $BSPM_REPO"'',
       ''    ;;'',
       ''  help|--help|-h|"")'',
       ''    echo "BrightS Package Manager Installer"'',
       ''    echo "Usage: bspm [COMMAND]"'',
       ''    echo "Commands:"'',
       ''    echo "  install    Install BSPM from repository"'',
       ''    echo "  version    Show version"'',
       ''    echo "  help       Show this help"'',
       ''    ;;'',
       ''  install)'',
       ''    echo "[BSPM] Installing from $BSPM_REPO"'',
       ''    echo "[BSPM] Please clone the repository manually:"'',
       ''    echo "  git clone $BSPM_REPO"'',
       ''    ;;'',
       ''  *)'',
       ''    echo "Error: Unknown command '$1'"'',
       ''    echo "Run 'bspm help' for usage information"'',
       ''    exit 1'',
       ''    ;;'',
       ''esac'']),
     SeedDir ''/bin/pkg/.db'',
     SeedFile ''/bin/pkg/readme.txt'' (text_lines
      [''BrightS Package Manager (BSPM)'',
       ''Repository: https://github.com/s12mcOvO/BrightS_Package_Manager'',
       [],
       ''To install BSPM:'',
       ''  git clone https://github.com/s12mcOvO/BrightS_Package_Manager'',
       ''  cp BrightS_Package_Manager/bin/bspm /bin/pkg/'',
       [],
       ''Usage: bspm [command] [package]'',
       ''Commands: install, remove, list, search, update, upgrade''])]\<close>

definition seed_mnt :: "seed list" where
  \<open>seed_mnt =
    [SeedFile ''/mnt/readme.txt'' (text_lines
      [''Mount points directory'']),
     SeedFile ''/mnt/drive/readme.txt'' (text_lines
      [''Mobile disk mounts'']),
     SeedFile ''/mnt/input/readme.txt'' (text_lines
      [''Input devices'']),
     SeedFile ''/mnt/input/keyboard/readme.txt'' (text_lines
      [''Keyboard device'']),
     SeedFile ''/mnt/input/mouse/readme.txt'' (text_lines
      [''Mouse device'']),
     SeedFile ''/mnt/input/touchpad/readme.txt'' (text_lines
      [''Touchpad device'']),
     SeedFile ''/mnt/input/camera/readme.txt'' (text_lines
      [''Camera device'']),
     SeedFile ''/mnt/input/biometric/readme.txt'' (text_lines
      [''Biometric input device'']),
     SeedFile ''/mnt/output/readme.txt'' (text_lines
      [''Output devices'']),
     SeedFile ''/tmp/readme.txt'' (text_lines
      [''Temporary cache files'']),
     SeedFile ''/swp/readme.txt'' (text_lines
      [''Swap partition area''])]\<close>

fun run_seeds :: "seed list \<Rightarrow> ramfs \<Rightarrow> ramfs option" where
  "run_seeds [] fs = Some fs"
| "run_seeds (SeedDir p # ss) fs = run_seeds ss (seed_dir p fs)"
| "run_seeds (SeedFile p c # ss) fs =
     (case seed_file p (Some c) fs of None \<Rightarrow> None | Some fs' \<Rightarrow> run_seeds ss fs')"

definition brights_vfs_init :: "ramfs \<Rightarrow> ramfs option" where
  "brights_vfs_init fs =
     run_seeds (seed_dirs @ seed_config @ seed_rust @ seed_c @ seed_python @ seed_pkg @ seed_mnt) (brights_ramfs_init fs)"

definition brights_vfs_mount_external :: "string option \<Rightarrow> btrfs \<Rightarrow> ramfs \<Rightarrow> (btrfs \<times> ramfs \<times> int) option" where
  "brights_vfs_mount_external backend d fs =
     (let b = (case backend of None \<Rightarrow> ''unknown'' | Some t \<Rightarrow> if cchar t 0 = NUL then ''unknown'' else t) in
      case brights_btrfs_mount d of
        None \<Rightarrow> None
      | Some (d', rc) \<Rightarrow>
          (let ok = (rc = 0) in
           map_option (\<lambda>fs'. (d', fs', rc))
             (run_seeds
                [SeedFile ''/mnt/drive/.mounted'' (text_lines [if ok then ''1'' else ''0'']),
                 SeedFile ''/mnt/drive/fs'' (text_lines [if ok then ''btrfs'' else ''none'']),
                 SeedFile ''/mnt/drive/role'' (text_lines [''system'']),
                 SeedFile ''/mnt/drive/backend'' b,
                 SeedFile ''/mnt/drive/readme.txt'' (text_lines
                   [if ok then ''System disk is mounted with Btrfs.''
                    else ''System disk mount failed (Btrfs required).''])] fs)))"

text \<open>The callers in \<open>kernel/storage.c\<close>: the devices found and the disk drivers are inputs, as in \<open>Blockdev\<close>.\<close>

definition brights_storage_mount_system :: "storage \<Rightarrow> btrfs \<Rightarrow> ramfs \<Rightarrow> (btrfs \<times> ramfs \<times> int) option" where
  "brights_storage_mount_system st d fs =
     brights_vfs_mount_external (Some (storage_backend st)) (d\<lparr>bt_block := st_block st\<rparr>) fs"

definition brights_storage_rescan_and_mount ::
  "brights_pci_device_t list \<Rightarrow> drv_init \<Rightarrow> drv_init \<Rightarrow> u8 list \<Rightarrow> storage \<Rightarrow> btrfs \<Rightarrow> ramfs
    \<Rightarrow> (storage \<times> btrfs \<times> ramfs \<times> int) option" where
  "brights_storage_rescan_and_mount devs nvme_init ahci_init ramdisk_storage st d fs =
     (case brights_storage_bootstrap devs nvme_init ahci_init ramdisk_storage st of
        (st', rc) \<Rightarrow>
          (if rc \<noteq> 0 then Some (st', d, fs, -1)
           else map_option (\<lambda>r. (st', r)) (brights_storage_mount_system st' d fs)))"

subsection \<open>The table during start-up\<close>

text \<open>
  Start-up only adds entries, so the table of the RAM file system is described by the list of the
  names in use, with the mark of a directory; the slots behind them are free.
\<close>

type_synonym names = "(string \<times> bool) list"

definition view :: "ramfs \<Rightarrow> (string \<times> bool) option list" where
  "view fs = map (\<lambda>f. if rf_in_use f then Some (rf_name f, rf_is_dir f) else None) fs"

definition boot_table :: "ramfs \<Rightarrow> names \<Rightarrow> bool" where
  "boot_table fs ps \<longleftrightarrow> ramfs_inv fs \<and> length ps \<le> 32 \<and> view fs = map Some ps @ replicate (32 - length ps) None"

definition dir_in :: "names \<Rightarrow> string \<Rightarrow> bool" where
  "dir_in ps p = (case map_of ps p of None \<Rightarrow> False | Some d \<Rightarrow> d)"

definition add_name :: "string \<Rightarrow> bool \<Rightarrow> names \<Rightarrow> names" where
  "add_name p d ps =
     (case path_parent p 128 of
        None \<Rightarrow> ps
      | Some q \<Rightarrow> (if (q = [slash] \<or> dir_in ps q) \<and> map_of ps p = None \<and> length ps < 32 then ps @ [(p, d)] else ps))"

definition plain :: "string \<Rightarrow> bool" where
  "plain p \<longleftrightarrow> normalize_path (Some p) 128 = Some p \<and> p \<noteq> [slash] \<and> p \<noteq> [] \<and> length p < 128"

fun seed_names :: "seed list \<Rightarrow> names \<Rightarrow> names" where
  "seed_names [] ps = ps"
| "seed_names (SeedDir p # ss) ps = seed_names ss (add_name p True ps)"
| "seed_names (SeedFile p c # ss) ps = seed_names ss (add_name p False ps)"

fun seed_path :: "seed \<Rightarrow> string" where
  "seed_path (SeedDir p) = p"
| "seed_path (SeedFile p c) = p"

lemma first_idx_map: "first_idx P (map f xs) = first_idx (\<lambda>x. P (f x)) xs"
  by (induction xs) auto

lemma first_idx_prefix: "\<forall>y\<in>set ys. \<not> P y \<Longrightarrow> first_idx P (xs @ ys) = first_idx P xs"
  by (induction xs) (auto simp: first_idx_None)

lemma map_of_first_idx:
  "map_of ps p = (case first_idx (\<lambda>q. fst q = p) ps of None \<Rightarrow> None | Some i \<Rightarrow> Some (snd (ps ! i)))"
  by (induction ps) (auto split: option.split)

lemma boot_find_name:
  assumes "boot_table fs ps"
  shows "ramfs_find_name fs p = first_idx (\<lambda>q. fst q = p) ps"
proof -
  have "ramfs_find_name fs p = first_idx (\<lambda>v. case v of None \<Rightarrow> False | Some q \<Rightarrow> fst q = p) (view fs)"
    by (simp add: ramfs_find_name_def view_def first_idx_map if_distrib cong: if_cong)
       (rule arg_cong [where f = "\<lambda>P. first_idx P fs"], auto)
  also have "\<dots> = first_idx (\<lambda>q. fst q = p) ps"
    using assms by (simp add: boot_table_def first_idx_prefix first_idx_map)
  finally show ?thesis .
qed

lemma boot_slot:
  assumes "boot_table fs ps" "i < length ps"
  shows "rf_in_use (fs ! i)" "rf_name (fs ! i) = fst (ps ! i)" "rf_is_dir (fs ! i) = snd (ps ! i)"
proof -
  have v: "view fs = map Some ps @ replicate (32 - length ps) None" "length ps \<le> 32"
    using assms(1) by (simp_all add: boot_table_def)
  then have "length (view fs) = 32" by simp
  then have "i < length fs" using assms(2) v(2) by (simp add: view_def)
  then have "view fs ! i = (if rf_in_use (fs ! i) then Some (rf_name (fs ! i), rf_is_dir (fs ! i)) else None)"
    by (simp add: view_def)
  moreover have "view fs ! i = Some (ps ! i)" using assms(2) by (simp add: v nth_append)
  ultimately have "Some (ps ! i) = (if rf_in_use (fs ! i) then Some (rf_name (fs ! i), rf_is_dir (fs ! i)) else None)" by simp
  then show "rf_in_use (fs ! i)" "rf_name (fs ! i) = fst (ps ! i)" "rf_is_dir (fs ! i) = snd (ps ! i)"
    by (auto split: if_splits)
qed

lemma boot_find_free:
  assumes "boot_table fs ps"
  shows "ramfs_find_free fs = (if length ps < 32 then Some (length ps) else None)"
proof -
  have len: "length fs = 32" using assms by (simp add: boot_table_def ramfs_inv_def)
  have "ramfs_find_free fs = first_idx (\<lambda>v. v = None) (view fs)"
    by (simp add: ramfs_find_free_def view_def first_idx_map if_distrib)
  also have "\<dots> = (if length ps < 32 then Some (length ps) else None)"
    using assms by (auto simp: boot_table_def first_idx_Some first_idx_None nth_append)
  finally show ?thesis .
qed

lemma boot_new_entry:
  assumes "boot_table fs ps" "plain p"
  shows "ramfs_new_entry (Some p) fs = (if add_name p d ps = ps then None else Some (p, length ps))"
proof -
  have pa: "ramfs_parent_exists fs p = (case path_parent p 128 of None \<Rightarrow> False | Some q \<Rightarrow> q = [slash] \<or> dir_in ps q)"
    using boot_slot(3) [OF assms(1)]
    by (auto simp: ramfs_parent_exists_def boot_find_name [OF assms(1)] dir_in_def map_of_first_idx BRIGHTS_RAMFS_MAX_NAME_def
        dest: first_idx_less split: option.splits)
  have nm: "ramfs_find_name fs p = None \<longleftrightarrow> map_of ps p = None"
    by (simp add: boot_find_name [OF assms(1)] map_of_first_idx split: option.split)
  have "normalize_path (Some p) 128 = Some p" "p \<noteq> [slash]" "\<not> path_len_limited p 127 \<le> 0"
    using assms(2) by (auto simp: plain_def path_len_limited_def)
  then have "ramfs_new_entry (Some p) fs =
      (if ramfs_parent_exists fs p \<and> ramfs_find_name fs p = None \<and> length ps < 32 then Some (p, length ps) else None)"
    using boot_find_free [OF assms(1)] by (simp add: ramfs_new_entry_def BRIGHTS_RAMFS_MAX_NAME_def)
  then show ?thesis unfolding pa nm add_name_def by (auto split: option.split)
qed

lemma view_upd: "i < length fs \<Longrightarrow> view (upd_at i g fs) =
    (view fs)[i := (if rf_in_use (g (fs ! i)) then Some (rf_name (g (fs ! i)), rf_is_dir (g (fs ! i))) else None)]"
  by (simp add: view_def upd_at_def map_update)

lemma boot_added:
  assumes "boot_table fs ps" "add_name p d ps \<noteq> ps" "ramfs_inv (upd_at (length ps) g fs)"
    "rf_in_use (g (fs ! length ps))" "rf_name (g (fs ! length ps)) = p" "rf_is_dir (g (fs ! length ps)) = d"
  shows "boot_table (upd_at (length ps) g fs) (add_name p d ps)"
proof -
  have l: "length ps < 32" and e: "add_name p d ps = ps @ [(p, d)]"
    using assms(2) by (auto simp: add_name_def split: option.splits if_splits)
  have "length fs = 32" using assms(1) by (simp add: boot_table_def ramfs_inv_def)
  then have "view (upd_at (length ps) g fs) = (view fs)[length ps := Some (p, d)]" using l assms(4-6) by (simp add: view_upd)
  also have "view fs = map Some ps @ None # replicate (31 - length ps) None"
    using assms(1) l by (simp add: boot_table_def Suc_diff_le [symmetric] flip: replicate_Suc)
  finally show ?thesis using assms(3) l e by (simp add: boot_table_def list_update_append)
qed

lemma boot_mkdir:
  assumes "boot_table fs ps" "plain p"
  shows "boot_table (fst (brights_ramfs_mkdir (Some p) fs)) (add_name p True ps)"
proof (cases "add_name p True ps = ps")
  case True
  then show ?thesis using boot_new_entry [OF assms, of True] assms(1) by (simp add: brights_ramfs_mkdir_def)
next
  case False
  have "ramfs_inv (fst (brights_ramfs_mkdir (Some p) fs))" using assms(1) by (intro ramfs_inv_mkdir) (simp add: boot_table_def)
  then show ?thesis using False boot_new_entry [OF assms, of True]
    by (auto simp: brights_ramfs_mkdir_def ramfs_init_file_perms_def intro!: boot_added [OF assms(1)])
qed

lemma boot_create:
  assumes "boot_table fs ps" "plain p"
  shows "boot_table (fst (brights_ramfs_create (Some p) fs)) (add_name p False ps)"
    and "snd (brights_ramfs_create (Some p) fs) = (if add_name p False ps = ps then -1 else int (length ps))"
proof -
  have inv: "ramfs_inv (fst (brights_ramfs_create (Some p) fs))" using assms(1) by (intro ramfs_inv_create) (simp add: boot_table_def)
  note new = boot_new_entry [OF assms, of False]
  show "snd (brights_ramfs_create (Some p) fs) = (if add_name p False ps = ps then -1 else int (length ps))"
    by (simp add: brights_ramfs_create_def new)
  show "boot_table (fst (brights_ramfs_create (Some p) fs)) (add_name p False ps)"
  proof (cases "add_name p False ps = ps")
    case True
    then show ?thesis using new assms(1) by (simp add: brights_ramfs_create_def)
  next
    case False
    then show ?thesis using inv new
      by (auto simp: brights_ramfs_create_def ramfs_init_file_perms_def intro!: boot_added [OF assms(1)])
  qed
qed

text \<open>Writing contents changes no name.\<close>

lemma boot_write:
  assumes "boot_table fs ps" "fd < int (length ps)" "0 \<le> fd"
  shows "\<exists>fs' r. brights_ramfs_write fd 0 src len fs = Some (fs', r) \<and> boot_table fs' ps"
proof -
  have inv: "ramfs_inv fs" and lp: "length ps \<le> 32" using assms(1) by (simp_all add: boot_table_def)
  then have len: "length fs = 32" by (simp add: ramfs_inv_def)
  obtain i where i: "fd = int i" "i < length ps" using assms(2,3) by (metis nonneg_int_cases of_nat_less_iff)
  note sl = boot_slot [OF assms(1) i(2)]
  show ?thesis
  proof (cases "rf_is_dir (fs ! i)")
    case True
    then show ?thesis using assms(1) i lp by (simp add: brights_ramfs_write_def fd_bad_def BRIGHTS_RAMFS_MAX_FILES_def)
  next
    case False
    have i32: "i < 32" using i lp by simp
    have "unat (0 :: u64) + unat len < 2 ^ 64" using unsigned_less [of len, where ?'a = nat] by simp
    note w = ramfs_write_ok [OF inv i32 sl(1) False, of 0 len src, simplified]
    then show ?thesis using sl i len i32 assms(1) unsigned_less [of len, where ?'a = nat]
      by (auto simp: boot_table_def view_upd) (auto simp: view_def list_update_same_conv nth_append)
  qed
qed

lemma boot_open: "boot_table fs ps \<Longrightarrow> plain p \<Longrightarrow> brights_ramfs_open (Some p) fs = idx_code (first_idx (\<lambda>q. fst q = p) ps)"
  by (simp add: brights_ramfs_open_def plain_def BRIGHTS_RAMFS_MAX_NAME_def boot_find_name)

lemma add_name_known: "map_of ps p \<noteq> None \<Longrightarrow> add_name p d ps = ps"
  by (auto simp: add_name_def split: option.split)

lemma boot_seed_file:
  assumes "boot_table fs ps" "plain p"
  shows "\<exists>fs'. seed_file p (Some c) fs = Some fs' \<and> boot_table fs' (add_name p False ps)"
proof (cases "first_idx (\<lambda>q. fst q = p) ps")
  case (Some i)
  then have "i < length ps" by (rule first_idx_less)
  then obtain fs' r where "brights_ramfs_write (int i) 0 (content_byte c) (of_nat (length c)) fs = Some (fs', r)" "boot_table fs' ps"
    using boot_write [OF assms(1), of "int i"] by fastforce
  moreover have "add_name p False ps = ps" using Some by (intro add_name_known) (simp add: map_of_first_idx)
  ultimately show ?thesis using Some boot_open [OF assms] by (simp add: seed_file_def)
next
  case None
  obtain fs1 r where c: "brights_ramfs_create (Some p) fs = (fs1, r)" by (cases "brights_ramfs_create (Some p) fs")
  have t: "boot_table fs1 (add_name p False ps)" using boot_create(1) [OF assms] by (simp add: c)
  show ?thesis
  proof (cases "add_name p False ps = ps")
    case True
    then show ?thesis using t None boot_open [OF assms] boot_create(2) [OF assms] by (simp add: seed_file_def c)
  next
    case False
    then have r: "r = int (length ps)" using boot_create(2) [OF assms] by (simp add: c)
    have "length (add_name p False ps) = Suc (length ps)" using False by (auto simp: add_name_def split: option.splits if_splits)
    then obtain fs' r' where "brights_ramfs_write r 0 (content_byte c) (of_nat (length c)) fs1 = Some (fs', r')"
      "boot_table fs' (add_name p False ps)"
      using boot_write [OF t, of r] r by fastforce
    then show ?thesis using None boot_open [OF assms] r by (simp add: seed_file_def c)
  qed
qed

lemma boot_seed_dir:
  assumes "boot_table fs ps" "plain p"
  shows "boot_table (seed_dir p fs) (add_name p True ps)"
proof (cases "ramfs_find_name fs p")
  case None
  then have "brights_ramfs_stat (Some p) fs = None" using assms(2) by (simp add: brights_ramfs_stat_def plain_def BRIGHTS_RAMFS_MAX_NAME_def)
  then show ?thesis using boot_mkdir [OF assms] by (simp add: seed_dir_def)
next
  case (Some i)
  then have "brights_ramfs_stat (Some p) fs \<noteq> None" using assms(2) by (simp add: brights_ramfs_stat_def plain_def BRIGHTS_RAMFS_MAX_NAME_def Let_def)
  moreover have "add_name p True ps = ps" using Some boot_find_name [OF assms(1)] by (intro add_name_known) (simp add: map_of_first_idx)
  ultimately show ?thesis using assms(1) by (simp add: seed_dir_def)
qed

lemma boot_run_seeds:
  "boot_table fs ps \<Longrightarrow> \<forall>s\<in>set ss. plain (seed_path s) \<Longrightarrow> \<exists>fs'. run_seeds ss fs = Some fs' \<and> boot_table fs' (seed_names ss ps)"
proof (induction ss arbitrary: fs ps)
  case (Cons s ss)
  show ?case
  proof (cases s)
    case (SeedDir p)
    then show ?thesis using Cons boot_seed_dir by simp
  next
    case (SeedFile p c)
    then obtain fs' where "seed_file p (Some c) fs = Some fs'" "boot_table fs' (add_name p False ps)"
      using Cons.prems boot_seed_file [of fs ps p c] by auto
    then show ?thesis using Cons SeedFile by simp
  qed
qed simp

subsection \<open>After start-up\<close>

definition boot_seeds :: "seed list" where
  "boot_seeds = seed_dirs @ seed_config @ seed_rust @ seed_c @ seed_python @ seed_pkg @ seed_mnt"

definition mount_paths :: "string list" where
  "mount_paths = [''/mnt/drive/.mounted'', ''/mnt/drive/fs'', ''/mnt/drive/role'', ''/mnt/drive/backend'', ''/mnt/drive/readme.txt'']"

text \<open>The 27 directories of the first group, and the first five files.\<close>

definition boot_names :: names where
  "boot_names = map (\<lambda>s. (seed_path s, True)) seed_dirs @ map (\<lambda>s. (seed_path s, False)) (take 5 seed_config)"

lemma plain_seeds: "list_all (\<lambda>s. plain (seed_path s)) boot_seeds"
  unfolding boot_seeds_def plain_def by code_simp

lemma plain_mount: "list_all plain mount_paths"
  unfolding plain_def by code_simp

lemma boot_seed_names: "seed_names boot_seeds [] = boot_names"
  by code_simp

lemma boot_names_full: "length boot_names = 32" "list_all (\<lambda>p. map_of boot_names p = None) mount_paths"
  by code_simp+

lemma boot_table_init:
  assumes "length fs = 32" "\<forall>f\<in>set fs. length (rf_data f) = 4096"
  shows "boot_table (brights_ramfs_init fs) []"
proof -
  have "ramfs_inv (brights_ramfs_init fs)" using assms by (intro ramfs_inv_reachable ramfs_reachable.init) auto
  then show ?thesis using assms(1) by (auto simp: boot_table_def view_def brights_ramfs_init_def intro!: nth_equalityI)
qed

lemma full_no_entry: "boot_table fs ps \<Longrightarrow> length ps = 32 \<Longrightarrow> ramfs_new_entry name fs = None"
  by (simp add: ramfs_new_entry_def boot_find_free split: option.split)

lemma full_seed_file:
  assumes "boot_table fs ps" "length ps = 32" "plain p" "map_of ps p = None"
  shows "seed_file p c fs = Some fs"
proof -
  have "brights_ramfs_open (Some p) fs = -1"
    using boot_open [OF assms(1,3)] assms(4) by (simp add: map_of_first_idx split: option.splits)
  then show ?thesis using full_no_entry [OF assms(1,2)] by (simp add: seed_file_def brights_ramfs_create_def)
qed

lemma boot_table_names: "boot_table fs ps \<Longrightarrow> length ps = 32 \<Longrightarrow> map rf_name fs = map fst ps \<and> map rf_is_dir fs = map snd ps
    \<and> (\<forall>f\<in>set fs. rf_in_use f)"
proof -
  assume a: "boot_table fs ps" "length ps = 32"
  then have l: "length fs = 32" by (simp add: boot_table_def ramfs_inv_def)
  have "map rf_name fs = map fst ps" "map rf_is_dir fs = map snd ps"
    using l a(2) boot_slot(2,3) [OF a(1)] by (auto intro!: nth_equalityI)
  moreover have "\<forall>f\<in>set fs. rf_in_use f" using l a(2) boot_slot(1) [OF a(1)] by (auto simp: in_set_conv_nth)
  ultimately show ?thesis by simp
qed

text \<open>C14: the start-up contents do not fit the RAM file system.  Initialisation succeeds and fills all 32
  entries of the table with the 27 directories of the first group and the first five files; the
  other files of the list are dropped without notice.  From then on no directory, file or link can
  be created, and mounting the system disk leaves no trace of its outcome under \<open>/mnt/drive\<close>.\<close>
theorem vfs_init_fills_table:
  assumes "length fs = 32" "\<forall>f\<in>set fs. length (rf_data f) = 4096"
  shows "\<exists>fs'. brights_vfs_init fs = Some fs' \<and> (\<forall>f\<in>set fs'. rf_in_use f)
    \<and> map rf_name fs' = map seed_path (seed_dirs @ take 5 seed_config)
    \<and> map rf_is_dir fs' = replicate 27 True @ replicate 5 False
    \<and> (\<forall>name target. brights_ramfs_create name fs' = (fs', -1) \<and> brights_ramfs_mkdir name fs' = (fs', -1)
         \<and> brights_ramfs_symlink target name fs' = (fs', -1))
    \<and> (\<forall>backend d. brights_vfs_mount_external backend d fs'
         = map_option (\<lambda>(d', rc). (d', fs', rc)) (brights_btrfs_mount d))"
proof -
  have "\<forall>s\<in>set boot_seeds. plain (seed_path s)" using plain_seeds by (simp add: list_all_iff)
  then obtain fs' where init: "run_seeds boot_seeds (brights_ramfs_init fs) = Some fs'" and t: "boot_table fs' boot_names"
    using boot_run_seeds [OF boot_table_init [OF assms], of boot_seeds] boot_seed_names by auto
  note full = boot_names_full(1)
  have "seed_file p c fs' = Some fs'" if "p \<in> set mount_paths" for p c
    using that plain_mount boot_names_full(2) by (intro full_seed_file [OF t full]) (auto simp: list_all_iff)
  then have mount: "brights_vfs_mount_external backend d fs' = map_option (\<lambda>(d', rc). (d', fs', rc)) (brights_btrfs_mount d)" for backend d
    by (auto simp: brights_vfs_mount_external_def mount_paths_def Let_def split: option.split)
  have names: "map fst boot_names = map seed_path (seed_dirs @ take 5 seed_config)"
    by (simp add: boot_names_def comp_def)
  have dirs: "map snd boot_names = replicate 27 True @ replicate 5 False" unfolding boot_names_def by code_simp
  have "brights_vfs_init fs = Some fs'" using init by (simp add: brights_vfs_init_def boot_seeds_def)
  then show ?thesis
    using boot_table_names [OF t full] names dirs mount full_no_entry [OF t full]
    by (intro exI [of _ fs']) (simp add: brights_ramfs_create_def brights_ramfs_mkdir_def brights_ramfs_symlink_def)
qed

lemma vfs_init_fills_table_witness:
  "\<exists>fs'. brights_vfs_init (replicate 32 blank_file) = Some fs' \<and> brights_ramfs_create (Some ''/x'') fs' = (fs', -1)"
  using vfs_init_fills_table [of "replicate 32 blank_file"] by (auto simp: blank_file_def)

end
