(* ===== verification/Sysent.thy ===== *)
theory Sysent
  imports Sched Signal Pipe Kmalloc Net Clock Bootfs
begin

unbundle bit_operations_syntax

text \<open>
  System calls: the handlers and the table of \<open>kernel/sysent.c\<close>, the dispatcher with its hook
  notifications of \<open>kernel/syscall.c\<close>, and the entry from the trap frame in
  \<open>arch/x86_64/syscall_abi.c\<close>.

  The state \<open>ksys\<close> puts the components together: the scheduler's state contains the process table, and
  that the virtual file system, the page tables and the hooks; pipes, signals, the heap, the network,
  the clock and the disk stand beside it.  The heap draws its pages from the same allocator as
  the page tables.

  A handler takes its arguments as 64-bit words and gives the new state and how the call ends: it
  returns a value, enters user mode (a successful \<open>exec\<close>), or raises an invalid-opcode trap
  (\<open>reboot\<close>).  The result \<open>None\<close> is an access through a wild pointer, an access outside an array, or a
  call that never comes back.

  User memory is the map \<open>ks_mem\<close>; the kernel's own data is not in it, and the contents of the blocks
  the heap hands out are those of the heap's store.  An entry of a descriptor table is a pointer: an
  index of the file pool, or an invalid address, which the number 64 or above stands for.  The 24
  bytes of padding of a hook event, which the source does not determine, are not stored.  What happens
  to the hooks while \<open>hook_wait\<close> sleeps is the field \<open>ks_wait_env\<close>, the number of sleeps it is
  followed for \<open>ks_wait_fuel\<close>.
\<close>

subsection \<open>State\<close>

record ksys =
  ks_sched :: sched
  ks_pipes :: pipe_state
  ks_signal :: signal_state
  ks_heap :: kmalloc
  ks_net :: net
  ks_clock :: clock
  ks_btrfs :: btrfs
  ks_mem :: "u64 \<Rightarrow> u8"
  ks_wait_fuel :: nat
  ks_wait_env :: "nat \<Rightarrow> syshook \<Rightarrow> syshook"

datatype sysres = Ret int | EnterUser u64 u64 u64 | Trap

type_synonym sysout = "(ksys \<times> sysres) option"

definition kprocs :: "ksys \<Rightarrow> procs" where "kprocs s = s_procs (ks_sched s)"
definition kvfs :: "ksys \<Rightarrow> vfs" where "kvfs s = k_vfs (kprocs s)"
definition khooks :: "ksys \<Rightarrow> syshook" where "khooks s = k_hooks (kprocs s)"
definition kpid :: "ksys \<Rightarrow> u32" where "kpid s = brights_proc_current (kprocs s)"

definition set_procs :: "procs \<Rightarrow> ksys \<Rightarrow> ksys" where
  "set_procs p s = s\<lparr>ks_sched := (ks_sched s)\<lparr>s_procs := p\<rparr>\<rparr>"

definition set_vfs :: "vfs \<Rightarrow> ksys \<Rightarrow> ksys" where
  "set_vfs v s = set_procs ((kprocs s)\<lparr>k_vfs := v\<rparr>) s"

definition set_hooks :: "syshook \<Rightarrow> ksys \<Rightarrow> ksys" where
  "set_hooks h s = set_procs ((kprocs s)\<lparr>k_hooks := h\<rparr>) s"

definition ret :: "int \<Rightarrow> ksys \<Rightarrow> sysout" where
  "ret r s = Some (s, Ret r)"

text \<open>The casts of an argument to \<open>int\<close>, and of a 64-bit result to the return type.\<close>

definition cint :: "u64 \<Rightarrow> int" where
  "cint x = sint (ucast x :: u32)"

subsection \<open>User memory\<close>

definition rd_bytes :: "nat \<Rightarrow> u64 \<Rightarrow> ksys \<Rightarrow> u8 list" where
  "rd_bytes n a s = map (\<lambda>i. ks_mem s (a + of_nat i)) [0..<n]"

definition wr_bytes :: "u64 \<Rightarrow> u8 list \<Rightarrow> ksys \<Rightarrow> ksys" where
  "wr_bytes a bs s =
     s\<lparr>ks_mem := (\<lambda>x. let d = unat (x - a) in if d < length bs then bs ! d else ks_mem s x)\<rparr>"

definition rd64 :: "u64 \<Rightarrow> ksys \<Rightarrow> u64" where
  "rd64 a s = le_value (rd_bytes 8 a s)"

definition chars :: "string \<Rightarrow> u8 list" where
  "chars t = map of_char t"

text \<open>The string at an address; a memory without a zero byte, which no machine has, holds none.\<close>

partial_function (option) str_from :: "(u64 \<Rightarrow> u8) \<Rightarrow> u64 \<Rightarrow> string option" where
  "str_from m a =
     (if m a = 0 then Some []
      else do { cs \<leftarrow> str_from m (a + 1); Some (char_of (unat (m a)) # cs) })"

text \<open>A string argument that may be a null pointer.\<close>

definition str_arg :: "u64 \<Rightarrow> ksys \<Rightarrow> (string option) option" where
  "str_arg a s = (if a = 0 then Some None else map_option Some (str_from (ks_mem s) a))"

definition with_path :: "u64 \<Rightarrow> (string \<Rightarrow> sysout) \<Rightarrow> ksys \<Rightarrow> sysout" where
  "with_path path f s =
     do {
       p \<leftarrow> str_arg path s;
       (case p of
          None \<Rightarrow> ret (-1) s
        | Some t \<Rightarrow>
            (case brights_proc_resolve_path (Some t) 256 (kprocs s) of None \<Rightarrow> ret (-1) s | Some r \<Rightarrow> f r))
     }"

text \<open>The comparison of a string in memory with a constant one.\<close>

fun str_compare :: "(u64 \<Rightarrow> u8) \<Rightarrow> u64 \<Rightarrow> string \<Rightarrow> int" where
  "str_compare m a [] = sint (m a)"
| "str_compare m a (b # bs) =
     (if m a \<noteq> 0 \<and> m a = of_char b then str_compare m (a + 1) bs else sint (m a) - byte_of b)"

subsection \<open>Descriptors\<close>

definition fd_entry :: "u64 \<Rightarrow> ksys \<Rightarrow> nat option" where
  "fd_entry fd s =
     (case brights_proc_fd_table (kprocs s) of None \<Rightarrow> None | Some ft \<Rightarrow> brights_vfs2_fd_get ft (cint fd))"

definition set_fds :: "fdtable \<Rightarrow> ksys \<Rightarrow> ksys" where
  "set_fds ft s =
     (case proc_get_current (kprocs s) of
        None \<Rightarrow> s
      | Some i \<Rightarrow> set_procs (upd_proc i (\<lambda>p. p\<lparr>pr_fds := ft\<rparr>) (kprocs s)) s)"

text \<open>What a handler does with the file of a descriptor: -1 for no file, a fault for an invalid pointer.\<close>

definition with_file :: "u64 \<Rightarrow> (nat \<Rightarrow> sysout) \<Rightarrow> ksys \<Rightarrow> sysout" where
  "with_file fd f s =
     (case fd_entry fd s of
        None \<Rightarrow> ret (-1) s
      | Some fi \<Rightarrow> (if fi \<ge> VFS_FILE_POOL_SIZE then None else f fi))"

definition lift_vfs :: "(vfs \<Rightarrow> vfs \<times> int) \<Rightarrow> ksys \<Rightarrow> sysout" where
  "lift_vfs g s = (case g (kvfs s) of (v, r) \<Rightarrow> ret r (set_vfs v s))"

subsection \<open>Files\<close>

definition sys_nosys :: "ksys \<Rightarrow> sysout" where
  "sys_nosys s = ret (-1) s"

definition sys_read :: "u64 \<Rightarrow> u64 \<Rightarrow> u64 \<Rightarrow> ksys \<Rightarrow> sysout" where
  "sys_read fd buf len s =
     (if fd = 0 then
        (case devfs_tty_read len (kvfs s) of
           None \<Rightarrow> None
         | Some (v, bs, r) \<Rightarrow> ret r (wr_bytes buf bs (set_vfs v s)))
      else with_file fd (\<lambda>fi.
        case brights_vfs2_read fi len (kvfs s) of
          None \<Rightarrow> None
        | Some (v, bs, r) \<Rightarrow> ret r (wr_bytes buf bs (set_vfs v s))) s)"

definition sys_write :: "u64 \<Rightarrow> u64 \<Rightarrow> u64 \<Rightarrow> ksys \<Rightarrow> sysout" where
  "sys_write fd buf len s =
     (let src = (\<lambda>i. ks_mem s (buf + of_nat i)) in
      if fd = 1 \<or> fd = 2 then lift_vfs (devfs_tty_write src len) s
      else with_file fd (\<lambda>fi.
        case brights_vfs2_write fi src len (kvfs s) of
          None \<Rightarrow> None
        | Some (v, r) \<Rightarrow> ret r (set_vfs v s)) s)"

definition sys_open :: "u64 \<Rightarrow> u64 \<Rightarrow> ksys \<Rightarrow> sysout" where
  "sys_open path flags s =
     with_path path (\<lambda>r.
       case brights_vfs2_open (Some r) (ucast flags) (kvfs s) of
         (v, None) \<Rightarrow> ret (-1) (set_vfs v s)
       | (v, Some f) \<Rightarrow>
           (let s1 = set_vfs v s in
            case brights_proc_fd_table (kprocs s1) of
              None \<Rightarrow> ret (-1) (set_vfs (fst (brights_vfs2_close f v)) s1)
            | Some ft \<Rightarrow> (case brights_vfs2_fd_alloc ft (Some f) of (ft', fd) \<Rightarrow> ret fd (set_fds ft' s1)))) s"

definition sys_close :: "u64 \<Rightarrow> ksys \<Rightarrow> sysout" where
  "sys_close fd s =
     with_file fd (\<lambda>fi.
       let s1 = set_vfs (fst (brights_vfs2_close fi (kvfs s))) s in
       case brights_proc_fd_table (kprocs s1) of
         None \<Rightarrow> ret 0 s1
       | Some ft \<Rightarrow> ret 0 (set_fds (brights_vfs2_fd_free ft (cint fd)) s1)) s"

definition sys_mkdir :: "u64 \<Rightarrow> ksys \<Rightarrow> sysout" where
  "sys_mkdir path s = with_path path (\<lambda>r. lift_vfs (brights_vfs2_mkdir (Some r)) s) s"

definition sys_unlink :: "u64 \<Rightarrow> ksys \<Rightarrow> sysout" where
  "sys_unlink path s = with_path path (\<lambda>r. lift_vfs (brights_vfs2_unlink (Some r)) s) s"

definition sys_create :: "u64 \<Rightarrow> ksys \<Rightarrow> sysout" where
  "sys_create path s = with_path path (\<lambda>r. lift_vfs (brights_vfs2_create (Some r)) s) s"

definition sys_lseek :: "u64 \<Rightarrow> u64 \<Rightarrow> u64 \<Rightarrow> ksys \<Rightarrow> sysout" where
  "sys_lseek fd offset whence s =
     with_file fd (\<lambda>fi. lift_vfs (brights_vfs2_lseek fi offset (cint whence)) s) s"

definition sys_stat :: "u64 \<Rightarrow> u64 \<Rightarrow> ksys \<Rightarrow> sysout" where
  "sys_stat path statbuf s =
     with_path path (\<lambda>r.
       case brights_vfs2_stat (Some r) (kvfs s) of
         (v, None) \<Rightarrow> ret (-1) (set_vfs v s)
       | (v, Some (sz, mode)) \<Rightarrow>
           (let s1 = set_vfs v s in
            ret 0 (if statbuf \<noteq> 0 then wr_bytes statbuf (le64 sz @ le32 mode) s1 else s1))) s"

definition sys_dup :: "u64 \<Rightarrow> ksys \<Rightarrow> sysout" where
  "sys_dup fd s =
     (case brights_proc_fd_table (kprocs s) of
        None \<Rightarrow> ret (-1) s
      | Some ft \<Rightarrow>
          (case brights_vfs2_fd_get ft (cint fd) of
             None \<Rightarrow> ret (-1) s
           | Some f \<Rightarrow>
               (case first_idx (\<lambda>e. e = None) ft of
                  None \<Rightarrow> ret (-1) s
                | Some i \<Rightarrow> ret (int i) (set_fds (ft[i := Some f]) s))))"

definition sys_dup2 :: "u64 \<Rightarrow> u64 \<Rightarrow> ksys \<Rightarrow> sysout" where
  "sys_dup2 fd1 fd2 s =
     (case brights_proc_fd_table (kprocs s) of
        None \<Rightarrow> ret (-1) s
      | Some ft \<Rightarrow>
          (case brights_vfs2_fd_get ft (cint fd1) of
             None \<Rightarrow> ret (-1) s
           | Some f \<Rightarrow>
               (let k = cint fd2 in
                if k < 0 \<or> k \<ge> int (length ft) then None
                else
                  (case ft ! nat k of
                     None \<Rightarrow> ret (sint fd2) (set_fds (ft[nat k := Some f]) s)
                   | Some g \<Rightarrow>
                       (if g \<ge> VFS_FILE_POOL_SIZE then None
                        else ret (sint fd2) (set_fds (ft[nat k := Some f])
                               (set_vfs (fst (brights_vfs2_close g (kvfs s))) s)))))))"

text \<open>No file operation table of the kernel has an \<open>ioctl\<close> entry.\<close>

definition sys_ioctl :: "u64 \<Rightarrow> u64 \<Rightarrow> u64 \<Rightarrow> ksys \<Rightarrow> sysout" where
  "sys_ioctl fd request argp s = with_file fd (\<lambda>fi. ret (-1) s) s"

definition sys_getcwd :: "u64 \<Rightarrow> u64 \<Rightarrow> ksys \<Rightarrow> sysout" where
  "sys_getcwd buf sz s =
     (if buf = 0 \<or> sz = 0 then ret (-1) s
      else
        (let t = take (unat (sz - 1)) (brights_proc_get_cwd (kprocs s))
         in ret (int (length t)) (wr_bytes buf (chars t @ [0]) s)))"

definition sys_chdir :: "u64 \<Rightarrow> ksys \<Rightarrow> sysout" where
  "sys_chdir path s =
     with_path path (\<lambda>r.
       case brights_vfs2_stat (Some r) (kvfs s) of
         (v, None) \<Rightarrow> ret (-1) (set_vfs v s)
       | (v, Some (sz, mode)) \<Rightarrow>
           (let s1 = set_vfs v s in
            if mode AND VFS_S_IFDIR = 0 then ret (-1) s1
            else (case brights_proc_set_cwd (Some r) (kprocs s1) of (p, rc) \<Rightarrow> ret rc (set_procs p s1)))) s"

definition sys_readdir :: "u64 \<Rightarrow> u64 \<Rightarrow> u64 \<Rightarrow> ksys \<Rightarrow> sysout" where
  "sys_readdir fd buf count s =
     (case fd_entry fd s of
        None \<Rightarrow> ret (-1) s
      | Some f \<Rightarrow>
          (if buf = 0 then ret (-1) s
           else
             (case brights_vfs2_readdir (Some [slash]) (cint count) (kvfs s) of
                (v, None) \<Rightarrow> ret (-1) (set_vfs v s)
              | (v, Some t) \<Rightarrow> ret (int (length t)) (wr_bytes buf (chars t) (set_vfs v s)))))"

definition sys_mount :: "ksys \<Rightarrow> sysout" where
  "sys_mount s =
     (case brights_vfs_mount_external (Some ''manual'') (ks_btrfs s) (vfs_ramfs (kvfs s)) of
        None \<Rightarrow> None
      | Some (d, fs, rc) \<Rightarrow> ret rc (set_vfs ((kvfs s)\<lparr>vfs_ramfs := fs\<rparr>) (s\<lparr>ks_btrfs := d\<rparr>)))"

definition sys_umount :: "u64 \<Rightarrow> ksys \<Rightarrow> sysout" where
  "sys_umount target s = ret 0 s"

definition path_attr :: "u64 \<Rightarrow> (string option \<Rightarrow> vfs \<Rightarrow> vfs \<times> int) \<Rightarrow> ksys \<Rightarrow> sysout" where
  "path_attr path g s = do { p \<leftarrow> str_arg path s; lift_vfs (g p) s }"

definition sys_chmod :: "u64 \<Rightarrow> u64 \<Rightarrow> ksys \<Rightarrow> sysout" where
  "sys_chmod path mode s = path_attr path (\<lambda>p. brights_vfs2_chmod p (ucast mode)) s"

definition sys_chown :: "u64 \<Rightarrow> u64 \<Rightarrow> u64 \<Rightarrow> ksys \<Rightarrow> sysout" where
  "sys_chown path uid gid s = path_attr path (\<lambda>p. brights_vfs2_chown p (ucast uid) (ucast gid)) s"

definition sys_symlink :: "u64 \<Rightarrow> u64 \<Rightarrow> ksys \<Rightarrow> sysout" where
  "sys_symlink target linkpath s =
     do { t \<leftarrow> str_arg target s; path_attr linkpath (brights_vfs2_symlink t) s }"

definition sys_readlink :: "u64 \<Rightarrow> u64 \<Rightarrow> u64 \<Rightarrow> ksys \<Rightarrow> sysout" where
  "sys_readlink path buf bufsize s =
     do {
       p \<leftarrow> str_arg path s;
       if p = None \<or> buf = 0 then ret (-1) s
       else
         (case brights_vfs2_readlink p bufsize (kvfs s) of
            (v, None) \<Rightarrow> ret (-1) (set_vfs v s)
          | (v, Some t) \<Rightarrow> ret (int (length t)) (wr_bytes buf (chars t @ [0]) (set_vfs v s)))
     }"

subsection \<open>Pipes\<close>

text \<open>The search for two neighbouring free descriptors; at 31 it looks at the entry behind the table.\<close>

fun find_fd_pair :: "nat list \<Rightarrow> fdtable \<Rightarrow> (nat option) option" where
  "find_fd_pair [] ft = Some None"
| "find_fd_pair (i # is) ft =
     (if ft ! i \<noteq> None then find_fd_pair is ft
      else if i + 1 \<ge> length ft then None
      else if ft ! (i + 1) = None then Some (Some i)
      else find_fd_pair is ft)"

definition PIPE_READ_MARK :: nat where "PIPE_READ_MARK = 0x1000"
definition PIPE_WRITE_MARK :: nat where "PIPE_WRITE_MARK = 0x2000"

definition sys_pipe :: "u64 \<Rightarrow> ksys \<Rightarrow> sysout" where
  "sys_pipe fildes s =
     (if fildes = 0 then ret (-1) s
      else
        (case brights_pipe_create (ks_pipes s) of
           (ps, pipe_idx) \<Rightarrow>
             (let s1 = s\<lparr>ks_pipes := ps\<rparr> in
              if pipe_idx < 0 then ret (-1) s1
              else
                (case brights_proc_fd_table (kprocs s1) of
                   None \<Rightarrow> ret (-1) s1
                 | Some ft \<Rightarrow>
                     (case find_fd_pair [3, 5, 7, 9, 11, 13, 15, 17, 19, 21, 23, 25, 27, 29, 31] ft of
                        None \<Rightarrow> None
                      | Some None \<Rightarrow> ret (-1) s1
                      | Some (Some i) \<Rightarrow>
                          ret 0 (wr_bytes fildes (le32 (of_nat i) @ le32 (of_nat (i + 1)))
                            (set_fds (ft[i := Some (nat pipe_idx + PIPE_READ_MARK),
                                         i + 1 := Some (nat pipe_idx + PIPE_WRITE_MARK)]) s1)))))))"

subsection \<open>Processes\<close>

text \<open>The descriptors of an exiting process are closed one by one, a marker of a pipe among them.\<close>

definition fds_valid :: "fdtable \<Rightarrow> bool" where
  "fds_valid ft = list_all (\<lambda>e. case e of None \<Rightarrow> True | Some f \<Rightarrow> f < VFS_FILE_POOL_SIZE) ft"

definition sys_exit :: "u64 \<Rightarrow> ksys \<Rightarrow> sysout" where
  "sys_exit status s =
     (let p = kprocs s; pid = kpid s in
      if (case proc_scan pid p of None \<Rightarrow> False | Some i \<Rightarrow> pid \<noteq> 0 \<and> \<not> fds_valid (pr_fds (proc_table p ! i)))
      then None
      else
        (let s1 = set_procs (fst (brights_proc_exit pid (cint status) p)) s
         in ret 0 (s1\<lparr>ks_sched := fst (brights_sched_yield (ks_sched s1))\<rparr>)))"

definition sys_getpid :: "ksys \<Rightarrow> sysout" where
  "sys_getpid s = ret (uint (kpid s)) s"

definition sys_getppid :: "ksys \<Rightarrow> sysout" where
  "sys_getppid s =
     (case brights_proc_get_by_pid (kpid s) (kprocs s) of
        Some info \<Rightarrow> ret (uint (pr_ppid info)) s
      | None \<Rightarrow> ret (-1) s)"

definition sys_fork :: "ksys \<Rightarrow> sysout" where
  "sys_fork s =
     (case brights_proc_fork (kprocs s) of
        (p, child_pid) \<Rightarrow>
          (let s1 = set_procs p s in
           if child_pid \<le> 0 then ret (-1) s1
           else ret child_pid
                  (s1\<lparr>ks_sched := fst (brights_sched_add_process (word_of_int child_pid) (ks_sched s1))\<rparr>)))"

definition exec_file :: "string \<Rightarrow> ramfs \<Rightarrow> int" where
  "exec_file resolved fs =
     (let fd = brights_ramfs_open (Some resolved) fs
      in if fd < 0 then brights_ramfs_open (Some (''/bin/'' @ take 245 resolved)) fs else fd)"

definition sys_exec :: "u64 \<Rightarrow> ksys \<Rightarrow> sysout" where
  "sys_exec path s =
     do {
       p \<leftarrow> str_arg path s;
       (case p of
          None \<Rightarrow> ret (-1) s
        | Some pathname \<Rightarrow>
            (let resolved = (case brights_proc_resolve_path (Some pathname) 256 (kprocs s) of
                               None \<Rightarrow> take 255 pathname | Some r \<Rightarrow> r);
                 fs = vfs_ramfs (kvfs s);
                 fd = exec_file resolved fs
             in if fd < 0 then ret (-1) s
                else
                  (case brights_ramfs_read fd 0 65536 fs of
                     (elf, n) \<Rightarrow>
                       (if n \<le> 0 then ret (-1) s
                        else
                          (case brights_proc_exec elf (kprocs s) of
                             None \<Rightarrow> None
                           | Some (q, None) \<Rightarrow> ret (-1) (set_procs q s)
                           | Some (q, Some info) \<Rightarrow>
                               (case brights_proc_exec_continue q of
                                  None \<Rightarrow> ret (-1) (set_procs q s)
                                | Some (entry, stack, cr3) \<Rightarrow> Some (set_procs q s, EnterUser entry stack cr3)))))))
     }"

definition sys_yield :: "ksys \<Rightarrow> sysout" where
  "sys_yield s = (case brights_sched_yield (ks_sched s) of (sc, r) \<Rightarrow> ret r (s\<lparr>ks_sched := sc\<rparr>))"

text \<open>The polling loop of \<open>sys_wait\<close>: the second result is the exit code, if there is such a process.\<close>

partial_function (option) wait_loop :: "u32 \<Rightarrow> sched \<Rightarrow> (sched \<times> int option) option" where
  "wait_loop pid s =
     (case brights_proc_get_by_pid pid (s_procs s) of
        None \<Rightarrow> Some (s, None)
      | Some info \<Rightarrow>
          (if pr_state info = ProcZombie then Some (s, Some (pr_exit_code info))
           else wait_loop pid (fst (brights_sched_yield s))))"

definition sys_wait :: "u64 \<Rightarrow> u64 \<Rightarrow> ksys \<Rightarrow> sysout" where
  "sys_wait pid status s =
     (case wait_loop (ucast pid) (ks_sched s) of
        None \<Rightarrow> None
      | Some (sc, None) \<Rightarrow> ret (-1) (s\<lparr>ks_sched := sc\<rparr>)
      | Some (sc, Some code) \<Rightarrow>
          (let s1 = s\<lparr>ks_sched := sc\<rparr>
           in ret (sint pid) (if status \<noteq> 0 then wr_bytes status (le32 (word_of_int code)) s1 else s1)))"

subsection \<open>Time and memory\<close>

definition sys_sleep_ms :: "u64 \<Rightarrow> ksys \<Rightarrow> sysout" where
  "sys_sleep_ms ms s = do { c \<leftarrow> brights_sleep_ms ms (ks_clock s); ret 0 (s\<lparr>ks_clock := c\<rparr>) }"

definition sys_clock_ns :: "ksys \<Rightarrow> sysout" where
  "sys_clock_ns s = do { (c, t) \<leftarrow> brights_clock_ns (ks_clock s); ret (sint t) (s\<lparr>ks_clock := c\<rparr>) }"

definition sys_clock_ms :: "ksys \<Rightarrow> sysout" where
  "sys_clock_ms s = do { (c, t) \<leftarrow> brights_clock_ms (ks_clock s); ret (sint t) (s\<lparr>ks_clock := c\<rparr>) }"

text \<open>The heap takes its pages from the allocator that the page tables use.\<close>

definition kpmem :: "ksys \<Rightarrow> pmem" where "kpmem s = pg_pmem (k_paging (kprocs s))"

definition heap_now :: "ksys \<Rightarrow> kmalloc" where
  "heap_now s = (ks_heap s)\<lparr>km_pmem := kpmem s\<rparr>"

definition set_heap :: "kmalloc \<Rightarrow> ksys \<Rightarrow> ksys" where
  "set_heap h s =
     set_procs ((kprocs s)\<lparr>k_paging := (k_paging (kprocs s))\<lparr>pg_pmem := km_pmem h\<rparr>\<rparr>) (s\<lparr>ks_heap := h\<rparr>)"

definition sys_mmap :: "u64 \<Rightarrow> u64 \<Rightarrow> ksys \<Rightarrow> sysout" where
  "sys_mmap addr len s =
     (case brights_kmalloc len (heap_now s) of
        None \<Rightarrow> None
      | Some (h, p) \<Rightarrow> ret (if p \<noteq> 0 then sint (of_nat p :: u64) else -1) (set_heap h s))"

text \<open>A block header in front of the addresses 1 to 15 would be at the very end of the address space.\<close>

definition sys_munmap :: "u64 \<Rightarrow> u64 \<Rightarrow> ksys \<Rightarrow> sysout" where
  "sys_munmap addr len s =
     (if 0 < addr \<and> addr < KMALLOC_BLOCK_T_SIZE then None
      else do { h \<leftarrow> brights_kfree (unat addr) (heap_now s); ret 0 (set_heap h s) })"

definition sys_brk :: "u64 \<Rightarrow> ksys \<Rightarrow> sysout" where
  "sys_brk addr s =
     (if addr = 0 then ret (sint (brights_proc_get_brk (kpid s) (kprocs s))) s
      else ret (sint addr) (set_procs (fst (brights_proc_set_brk (kpid s) addr (kprocs s))) s))"

subsection \<open>Signals\<close>

definition sys_signal_raise :: "u64 \<Rightarrow> ksys \<Rightarrow> sysout" where
  "sys_signal_raise signo s =
     (case brights_signal_raise (ks_signal s) (ucast signo) of (g, r) \<Rightarrow> ret r (s\<lparr>ks_signal := g\<rparr>))"

definition sys_signal_pending :: "ksys \<Rightarrow> sysout" where
  "sys_signal_pending s = ret (uint (brights_signal_pending (ks_signal s))) s"

definition sys_signal_handler :: "u64 \<Rightarrow> ksys \<Rightarrow> sysout" where
  "sys_signal_handler handler s = ret (sint handler) s"

definition sigaction_bytes :: "sigaction \<Rightarrow> u8 list" where
  "sigaction_bytes a = le64 (sa_handler a) @ le64 (sa_flags a) @ le64 (sa_restorer a) @ le64 (sa_mask a)"

definition rd_sigaction :: "u64 \<Rightarrow> ksys \<Rightarrow> sigaction" where
  "rd_sigaction a s =
     \<lparr>sa_handler = rd64 a s, sa_flags = rd64 (a + 8) s, sa_restorer = rd64 (a + 16) s, sa_mask = rd64 (a + 24) s\<rparr>"

text \<open>The old action is stored before the new one is read, which matters when the two overlap.\<close>

definition sys_sigaction :: "u64 \<Rightarrow> u64 \<Rightarrow> u64 \<Rightarrow> ksys \<Rightarrow> sysout" where
  "sys_sigaction signo act oldact s =
     (case brights_signal_sigaction (ks_signal s) (ucast signo) None (oldact \<noteq> 0) of
        (_, old, _) \<Rightarrow>
          (let s1 = (case old of None \<Rightarrow> s | Some a \<Rightarrow> wr_bytes oldact (sigaction_bytes a) s);
               new = (if act = 0 then None else Some (rd_sigaction act s1))
           in case brights_signal_sigaction (ks_signal s) (ucast signo) new False of
                (g, _, r) \<Rightarrow> ret r (s1\<lparr>ks_signal := g\<rparr>)))"

definition sys_kill :: "u64 \<Rightarrow> u64 \<Rightarrow> ksys \<Rightarrow> sysout" where
  "sys_kill pid signo s =
     (if signo \<ge> of_nat BRIGHTS_SIGNAL_MAX then ret (-1) s
      else
        (case brights_proc_get_by_pid (ucast pid) (kprocs s) of
           None \<Rightarrow> ret (-1) s
         | Some info \<Rightarrow>
             (case brights_signal_raise (ks_signal s) (ucast signo) of (g, r) \<Rightarrow> ret r (s\<lparr>ks_signal := g\<rparr>))))"

subsection \<open>System information\<close>

definition sys_reboot :: "u64 \<Rightarrow> ksys \<Rightarrow> sysout" where
  "sys_reboot cmd s = Some (s, Trap)"

text \<open>The processor is halted until the next interrupt, and the call returns.\<close>

definition sys_shutdown :: "ksys \<Rightarrow> sysout" where
  "sys_shutdown s = ret 0 s"

definition sys_sysinfo :: "u64 \<Rightarrow> ksys \<Rightarrow> sysout" where
  "sys_sysinfo buf s =
     (if buf = 0 then ret (-1) s
      else do {
        (c, ms) \<leftarrow> brights_clock_ms (ks_clock s);
        ret 0 (wr_bytes buf
          (le64 (ms div 1000) @ le64 (brights_pmem_total_bytes (kpmem s)) @ le64 (brights_pmem_free_bytes (kpmem s))
             @ le64 (of_nat (brights_proc_total (kprocs s)))) (s\<lparr>ks_clock := c\<rparr>))
      })"

definition sys_uname :: "u64 \<Rightarrow> ksys \<Rightarrow> sysout" where
  "sys_uname buf s =
     (if buf = 0 then ret (-1) s
      else ret 0
        (fold (\<lambda>(off, t). wr_bytes (buf + off) (chars t))
           [(0, ''BrightS''), (65, ''brights''), (130, ''0.1.0''), (195, ''BrightS 0.1.0''), (260, ''x86_64'')] s))"

definition sys_hostname :: "u64 \<Rightarrow> u64 \<Rightarrow> ksys \<Rightarrow> sysout" where
  "sys_hostname name len s =
     (if name = 0 \<or> len = 0 then ret (-1) s
      else ret 0 (wr_bytes name (chars (take (unat len) ''brights'')) s))"

definition env_vars :: "(string \<times> string) list" where
  "env_vars = [(''PATH'', ''/bin:/usr/bin''), (''HOME'', ''/usr/home''), (''SHELL'', ''/bin/sh''), (''USER'', ''guest'')]"

definition sys_env_get :: "u64 \<Rightarrow> u64 \<Rightarrow> u64 \<Rightarrow> ksys \<Rightarrow> sysout" where
  "sys_env_get name val len s =
     (if name = 0 \<or> val = 0 \<or> len = 0 then ret (-1) s
      else
        (case find (\<lambda>(v, _). str_compare (ks_mem s) name v = 0) env_vars of
           None \<Rightarrow> ret (-1) s
         | Some (_, t) \<Rightarrow> ret 0 (wr_bytes val (chars (take (unat len) t)) s)))"

definition sys_env_set :: "u64 \<Rightarrow> u64 \<Rightarrow> ksys \<Rightarrow> sysout" where
  "sys_env_set name val s = ret (if name = 0 \<or> val = 0 then -1 else 0) s"

subsection \<open>Hooks\<close>

definition hook_event_bytes :: "hook_event \<Rightarrow> u8 list" where
  "hook_event_bytes e =
     le64 (event_type e) @ le64 (syscall_nr e) @ concat (map le64 (ev_args e)) @ le64 (ev_ret e)
       @ le32 (caller_pid e) @ le32 0 @ le64 (timestamp e) @ le64 (fst (custom e)) @ le64 (snd (custom e))"

definition wr_events :: "u64 \<Rightarrow> hook_event list \<Rightarrow> ksys \<Rightarrow> ksys" where
  "wr_events buf es s =
     fold (\<lambda>(i, e). wr_bytes (buf + of_nat (128 * i)) (hook_event_bytes e)) (enumerate 0 es) s"

definition sys_hook_register :: "u64 \<Rightarrow> u64 \<Rightarrow> u64 \<Rightarrow> ksys \<Rightarrow> sysout" where
  "sys_hook_register lo hi flags s =
     (case brights_sys_hook_register (kpid s) lo hi flags (khooks s) of (h, r) \<Rightarrow> ret r (set_hooks h s))"

definition sys_hook_unregister :: "u64 \<Rightarrow> ksys \<Rightarrow> sysout" where
  "sys_hook_unregister hook_id s =
     (case brights_sys_hook_unregister (kpid s) hook_id (khooks s) of (h, r) \<Rightarrow> ret r (set_hooks h s))"

definition sys_hook_poll :: "u64 \<Rightarrow> u64 \<Rightarrow> u64 \<Rightarrow> ksys \<Rightarrow> sysout" where
  "sys_hook_poll hook_id event_buf max_events s =
     (case brights_sys_hook_poll (kpid s) hook_id event_buf max_events (khooks s) of
        (h, es, r) \<Rightarrow> ret r (wr_events event_buf es (set_hooks h s)))"

definition sys_hook_wait :: "u64 \<Rightarrow> u64 \<Rightarrow> u64 \<Rightarrow> ksys \<Rightarrow> sysout" where
  "sys_hook_wait hook_id event_buf timeout_ms s =
     (case brights_sys_hook_wait (ks_wait_fuel s) (ks_wait_env s) (kpid s) hook_id event_buf timeout_ms (khooks s) of
        None \<Rightarrow> None
      | Some (h, es, r) \<Rightarrow> ret r (wr_events event_buf es (set_hooks h s)))"

definition sys_hook_info :: "u64 \<Rightarrow> u64 \<Rightarrow> ksys \<Rightarrow> sysout" where
  "sys_hook_info hook_id info_buf s =
     (case brights_sys_hook_info hook_id info_buf (khooks s) of
        (None, r) \<Rightarrow> ret r s
      | (Some h, r) \<Rightarrow>
          ret r (wr_bytes info_buf
            (le32 (hi_hook_id h) @ le32 (hi_owner_pid h) @ le32 (hi_flags h) @ le32 (of_nat (hi_event_count h))
               @ le64 (hi_total_events h) @ le64 (hi_dropped_events h)) s))"

definition sys_broadcast :: "u64 \<Rightarrow> u64 \<Rightarrow> ksys \<Rightarrow> sysout" where
  "sys_broadcast custom_a custom_b s =
     (case brights_sys_broadcast (kpid s) custom_a custom_b (khooks s) of (h, r) \<Rightarrow> ret r (set_hooks h s))"

subsection \<open>Network\<close>

definition lift_net :: "(net \<Rightarrow> net \<times> int) \<Rightarrow> ksys \<Rightarrow> sysout" where
  "lift_net g s = (case g (ks_net s) of (n, r) \<Rightarrow> ret r (s\<lparr>ks_net := n\<rparr>))"

definition lift_net_opt :: "(net \<Rightarrow> (net \<times> int) option) \<Rightarrow> ksys \<Rightarrow> sysout" where
  "lift_net_opt g s = do { (n, r) \<leftarrow> g (ks_net s); ret r (s\<lparr>ks_net := n\<rparr>) }"

definition sys_socket :: "u64 \<Rightarrow> u64 \<Rightarrow> u64 \<Rightarrow> ksys \<Rightarrow> sysout" where
  "sys_socket domain type proto s = lift_net (brights_socket (cint domain) (cint type)) s"

definition sys_bind :: "u64 \<Rightarrow> u64 \<Rightarrow> u64 \<Rightarrow> ksys \<Rightarrow> sysout" where
  "sys_bind sockfd addr_ptr port s =
     lift_net (brights_bind (cint sockfd) (ucast (le_value (rd_bytes 4 addr_ptr s))) (ucast port)) s"

definition sys_listen :: "u64 \<Rightarrow> u64 \<Rightarrow> ksys \<Rightarrow> sysout" where
  "sys_listen sockfd backlog s = lift_net (brights_listen (cint sockfd)) s"

definition sys_accept :: "u64 \<Rightarrow> u64 \<Rightarrow> u64 \<Rightarrow> ksys \<Rightarrow> sysout" where
  "sys_accept sockfd addr_ptr port_ptr s =
     (case brights_accept (cint sockfd) (ks_net s) of
        (r, peer) \<Rightarrow>
          (let (addr, port) = (case peer of None \<Rightarrow> (0, 0) | Some ap \<Rightarrow> ap);
               s1 = (if r \<ge> 0 \<and> addr_ptr \<noteq> 0 then wr_bytes addr_ptr (le32 addr) s else s);
               s2 = (if r \<ge> 0 \<and> port_ptr \<noteq> 0 then wr_bytes port_ptr (le16 port) s1 else s1)
           in ret r s2))"

definition sys_connect :: "u64 \<Rightarrow> u64 \<Rightarrow> u64 \<Rightarrow> ksys \<Rightarrow> sysout" where
  "sys_connect sockfd addr port s = lift_net_opt (brights_connect (cint sockfd) (ucast addr) (ucast port)) s"

definition sys_send :: "u64 \<Rightarrow> u64 \<Rightarrow> u64 \<Rightarrow> ksys \<Rightarrow> sysout" where
  "sys_send sockfd buf len s =
     (let n = (ucast len :: u32)
      in lift_net_opt (brights_send (cint sockfd) (rd_bytes (unat n) buf s) n) s)"

definition sys_recv :: "u64 \<Rightarrow> u64 \<Rightarrow> u64 \<Rightarrow> ksys \<Rightarrow> sysout" where
  "sys_recv sockfd buf len s =
     (case brights_recv (cint sockfd) (ucast len) (ks_net s) of
        (n, r, bs) \<Rightarrow> ret r (wr_bytes buf bs (s\<lparr>ks_net := n\<rparr>)))"

definition sys_close_socket :: "u64 \<Rightarrow> ksys \<Rightarrow> sysout" where
  "sys_close_socket sockfd s = lift_net_opt (brights_close (cint sockfd)) s"

definition sys_setsockopt :: "u64 \<Rightarrow> u64 \<Rightarrow> u64 \<Rightarrow> ksys \<Rightarrow> sysout" where
  "sys_setsockopt sockfd level optname s =
     (if sockfd \<ge> of_nat BRIGHTS_NET_MAX_SOCKETS then ret (-1) s
      else if \<not> sk_in_use (sockets (ks_net s) ! unat sockfd) then ret (-1) s
      else if level = 1 then ret (if optname \<in> {1, 4, 8, 13, 32, 33} then 0 else -1) s
      else if level = 2 then ret (if optname \<in> {1, 2, 3} then 0 else -1) s
      else ret 0 s)"

definition sys_ifconfig :: "u64 \<Rightarrow> ksys \<Rightarrow> sysout" where
  "sys_ifconfig cmd s =
     (if cmd = 0 then
        (let n1 = fst (brights_netif_add ''eth0'' [0x00, 0x11, 0x22, 0x33, 0x44, 0x55] (brights_net_init (ks_net s)));
             n2 = fst (brights_netif_set_ip ''eth0'' 0xC0A80164 0xFFFFFF00 0xC0A80101 n1)
         in ret 0 (s\<lparr>ks_net := fst (brights_netif_up ''eth0'' n2)\<rparr>))
      else ret (-1) s)"

definition sys_icmp_echo :: "u64 \<Rightarrow> ksys \<Rightarrow> sysout" where
  "sys_icmp_echo dst s = lift_net_opt (brights_icmp_echo_request (ucast dst)) s"

definition sys_ip_parse :: "u64 \<Rightarrow> ksys \<Rightarrow> sysout" where
  "sys_ip_parse str s = do { t \<leftarrow> str_from (ks_mem s) str; ret (uint (brights_ip_parse t)) s }"

definition sys_ip_to_str :: "u64 \<Rightarrow> u64 \<Rightarrow> ksys \<Rightarrow> sysout" where
  "sys_ip_to_str ip buf s = ret 0 (wr_bytes buf (chars (brights_ip_to_str (ucast ip)) @ [0]) s)"

subsection \<open>The table and the dispatcher\<close>

type_synonym handler = "u64 \<Rightarrow> u64 \<Rightarrow> u64 \<Rightarrow> u64 \<Rightarrow> u64 \<Rightarrow> u64 \<Rightarrow> ksys \<Rightarrow> sysout"

definition brights_sysent_table :: "(nat \<times> handler) list" where
  "brights_sysent_table =
    [(0, \<lambda>_ _ _ _ _ _. sys_nosys),
     (3, \<lambda>a b c _ _ _. sys_read a b c),
     (3, \<lambda>a b c _ _ _. sys_write a b c),
     (2, \<lambda>a b _ _ _ _. sys_open a b),
     (1, \<lambda>a _ _ _ _ _. sys_close a),
     (1, \<lambda>a _ _ _ _ _. sys_exit a),
     (0, \<lambda>_ _ _ _ _ _. sys_fork),
     (3, \<lambda>a _ _ _ _ _. sys_exec a),
     (2, \<lambda>a b _ _ _ _. sys_wait a b),
     (0, \<lambda>_ _ _ _ _ _. sys_getpid),
     (0, \<lambda>_ _ _ _ _ _. sys_getppid),
     (1, \<lambda>a _ _ _ _ _. sys_sleep_ms a),
     (0, \<lambda>_ _ _ _ _ _. sys_clock_ns),
     (0, \<lambda>_ _ _ _ _ _. sys_clock_ms),
     (1, \<lambda>a _ _ _ _ _. sys_mkdir a),
     (1, \<lambda>a _ _ _ _ _. sys_unlink a),
     (1, \<lambda>a _ _ _ _ _. sys_create a),
     (3, \<lambda>a b c _ _ _. sys_lseek a b c),
     (2, \<lambda>a b _ _ _ _. sys_stat a b),
     (6, \<lambda>a b _ _ _ _. sys_mmap a b),
     (2, \<lambda>a b _ _ _ _. sys_munmap a b),
     (1, \<lambda>a _ _ _ _ _. sys_brk a),
     (1, \<lambda>a _ _ _ _ _. sys_signal_raise a),
     (0, \<lambda>_ _ _ _ _ _. sys_signal_pending),
     (1, \<lambda>a _ _ _ _ _. sys_signal_handler a),
     (3, \<lambda>a b c _ _ _. sys_sigaction a b c),
     (2, \<lambda>a b _ _ _ _. sys_kill a b),
     (0, \<lambda>_ _ _ _ _ _. sys_yield),
     (1, \<lambda>a _ _ _ _ _. sys_pipe a),
     (1, \<lambda>a _ _ _ _ _. sys_dup a),
     (2, \<lambda>a b _ _ _ _. sys_dup2 a b),
     (3, \<lambda>a b c _ _ _. sys_ioctl a b c),
     (2, \<lambda>a b _ _ _ _. sys_getcwd a b),
     (1, \<lambda>a _ _ _ _ _. sys_chdir a),
     (3, \<lambda>a b c _ _ _. sys_readdir a b c),
     (5, \<lambda>_ _ _ _ _ _. sys_mount),
     (1, \<lambda>a _ _ _ _ _. sys_umount a),
     (1, \<lambda>a _ _ _ _ _. sys_reboot a),
     (0, \<lambda>_ _ _ _ _ _. sys_shutdown),
     (1, \<lambda>a _ _ _ _ _. sys_sysinfo a),
     (1, \<lambda>a _ _ _ _ _. sys_uname a),
     (2, \<lambda>a b _ _ _ _. sys_hostname a b),
     (3, \<lambda>a b c _ _ _. sys_env_get a b c),
     (2, \<lambda>a b _ _ _ _. sys_env_set a b),
     (3, \<lambda>a b c _ _ _. sys_hook_register a b c),
     (1, \<lambda>a _ _ _ _ _. sys_hook_unregister a),
     (3, \<lambda>a b c _ _ _. sys_hook_poll a b c),
     (3, \<lambda>a b c _ _ _. sys_hook_wait a b c),
     (2, \<lambda>a b _ _ _ _. sys_hook_info a b),
     (2, \<lambda>a b _ _ _ _. sys_broadcast a b),
     (2, \<lambda>a b _ _ _ _. sys_chmod a b),
     (3, \<lambda>a b c _ _ _. sys_chown a b c),
     (2, \<lambda>a b _ _ _ _. sys_symlink a b),
     (3, \<lambda>a b c _ _ _. sys_readlink a b c),
     (3, \<lambda>a b c _ _ _. sys_socket a b c),
     (3, \<lambda>a b c _ _ _. sys_bind a b c),
     (2, \<lambda>a b _ _ _ _. sys_listen a b),
     (3, \<lambda>a b c _ _ _. sys_accept a b c),
     (3, \<lambda>a b c _ _ _. sys_connect a b c),
     (3, \<lambda>a b c _ _ _. sys_send a b c),
     (3, \<lambda>a b c _ _ _. sys_recv a b c),
     (1, \<lambda>a _ _ _ _ _. sys_close_socket a),
     (3, \<lambda>a b c _ _ _. sys_setsockopt a b c),
     (1, \<lambda>a _ _ _ _ _. sys_ifconfig a),
     (1, \<lambda>a _ _ _ _ _. sys_icmp_echo a),
     (1, \<lambda>a _ _ _ _ _. sys_ip_parse a),
     (2, \<lambda>a b _ _ _ _. sys_ip_to_str a b)]"

definition brights_sysent_count :: u64 where
  "brights_sysent_count = of_nat (length brights_sysent_table)"

definition HOOK_EVT_POST_SYSCALL :: u64 where "HOOK_EVT_POST_SYSCALL = 1"

definition rdtsc_fast :: "ksys \<Rightarrow> ksys \<times> u64" where
  "rdtsc_fast s = (case rdtsc (ks_clock s) of (c, t) \<Rightarrow> (s\<lparr>ks_clock := c\<rparr>, t))"

text \<open>One notification: the counter is read and the watching hooks get the event.\<close>

definition notify_hooks :: "u64 \<Rightarrow> u64 \<Rightarrow> u64 list \<Rightarrow> int \<Rightarrow> u32 \<Rightarrow> ksys \<Rightarrow> ksys" where
  "notify_hooks phase num args r pid s =
     (case rdtsc_fast s of
        (s1, tsc) \<Rightarrow> set_hooks (brights_syshook_notify phase num args (word_of_int r) pid tsc (khooks s1)) s1)"

definition brights_syscall_dispatch ::
  "u64 \<Rightarrow> u64 \<Rightarrow> u64 \<Rightarrow> u64 \<Rightarrow> u64 \<Rightarrow> u64 \<Rightarrow> u64 \<Rightarrow> ksys \<Rightarrow> sysout" where
  "brights_syscall_dispatch num a0 a1 a2 a3 a4 a5 s =
     (if num \<ge> brights_sysent_count then ret (-1) s
      else
        (let ent = brights_sysent_table ! unat num;
             args = [a0, a1, a2, a3, a4, a5];
             pid = kpid s
         in case snd ent a0 a1 a2 a3 a4 a5 (notify_hooks HOOK_EVT_PRE_SYSCALL num args 0 pid s) of
              None \<Rightarrow> None
            | Some (s1, Ret r) \<Rightarrow> ret r (notify_hooks HOOK_EVT_POST_SYSCALL num args r pid s1)
            | Some (s1, other) \<Rightarrow> Some (s1, other)))"

definition brights_syscall_handle :: "regs option \<Rightarrow> ksys \<Rightarrow> sysout" where
  "brights_syscall_handle tf s =
     (case tf of
        None \<Rightarrow> ret (-1) s
      | Some t \<Rightarrow>
          (if rax t \<ge> brights_sysent_count then ret (-38) s
           else brights_syscall_dispatch (rax t) (rdi t) (rsi t) (rdx t) (rcx t) (r8 t) (r9 t) s))"

text \<open>
  The entry of the \<open>syscall\<close> instruction: the dispatcher is called with the registers as they are,
  apart from the move of \<open>r10\<close> to \<open>rcx\<close>, so its first parameter is \<open>rdi\<close>, and its seventh the
  word on top of the stack, the saved \<open>r15\<close>.
\<close>

definition brights_syscall_entry :: "regs \<Rightarrow> ksys \<Rightarrow> sysout" where
  "brights_syscall_entry t s = brights_syscall_dispatch (rdi t) (rsi t) (rdx t) (r10 t) (r8 t) (r9 t) (r15 t) s"

definition IA32_EFER :: u32 where "IA32_EFER = 0xC0000080"
definition IA32_STAR :: u32 where "IA32_STAR = 0xC0000081"
definition IA32_LSTAR :: u32 where "IA32_LSTAR = 0xC0000082"
definition IA32_SFMASK :: u32 where "IA32_SFMASK = 0xC0000084"
definition BRIGHTS_KERNEL_CS :: u64 where "BRIGHTS_KERNEL_CS = 0x08"
definition BRIGHTS_USER_CS :: u64 where "BRIGHTS_USER_CS = 0x28"

text \<open>The model-specific registers after the set-up, for the address \<open>entry\<close> of the entry code.\<close>

definition brights_syscall_abi_init :: "u64 \<Rightarrow> (u32 \<Rightarrow> u64) \<Rightarrow> u32 \<Rightarrow> u64" where
  "brights_syscall_abi_init entry msr =
     msr(IA32_EFER := msr IA32_EFER OR 1,
         IA32_STAR := push_bit 32 BRIGHTS_KERNEL_CS OR push_bit 48 BRIGHTS_USER_CS,
         IA32_LSTAR := entry,
         IA32_SFMASK := 0)"

end
