(* ===== verification/Sysprops.thy ===== *)
theory Sysprops
  imports Sysent Kheap Netprops Btrfsprops
begin

unbundle bit_operations_syntax

text \<open>
  Properties of the system calls: what no call changes, what the hooks see of a call, a file written
  and read back through the calls, and the calls that cannot return.
\<close>

subsection \<open>What the handlers leave alone\<close>

text \<open>
  A view of the process state that depends on neither the process table, the pid counter, the
  file system nor the memory.  Every handler but those of the hooks and \<open>exit\<close> keeps each such view.
\<close>

definition seen :: "(procs \<Rightarrow> 'a) \<Rightarrow> ksys \<Rightarrow> 'a" where
  "seen obs s = obs (kprocs s)"

definition keeps :: "(ksys \<Rightarrow> 'a) \<Rightarrow> ksys \<Rightarrow> sysout \<Rightarrow> bool" where
  "keeps obs s out = (case out of None \<Rightarrow> True | Some (s', r) \<Rightarrow> obs s' = obs s)"

lemma keeps_simps [simp]:
  "keeps obs s None"
  "keeps obs s (Some (s', r)) \<longleftrightarrow> obs s' = obs s"
  "keeps obs s (ret c s') \<longleftrightarrow> obs s' = obs s"
  by (simp_all add: keeps_def ret_def)

locale process_view =
  fixes obs :: "procs \<Rightarrow> 'a"
  assumes obs_table: "obs (p\<lparr>proc_table := t\<rparr>) = obs p"
    and obs_next: "obs (p\<lparr>next_pid := n\<rparr>) = obs p"
    and obs_vfs: "obs (p\<lparr>k_vfs := v\<rparr>) = obs p"
    and obs_paging: "obs (p\<lparr>k_paging := g\<rparr>) = obs p"
begin

lemma obs_upd_proc: "obs (upd_proc i f p) = obs p"
  by (simp add: upd_proc_def obs_table)

lemma seen_states:
  "seen obs (set_procs p s) = obs p"
  "seen obs (set_vfs v s) = seen obs s"
  "seen obs (set_fds ft s) = seen obs s"
  "seen obs (wr_bytes a bs s) = seen obs s"
  "seen obs (set_heap h s) = seen obs s"
  "seen obs (s\<lparr>ks_pipes := ps\<rparr>) = seen obs s"
  "seen obs (s\<lparr>ks_signal := g\<rparr>) = seen obs s"
  "seen obs (s\<lparr>ks_net := n\<rparr>) = seen obs s"
  "seen obs (s\<lparr>ks_clock := c\<rparr>) = seen obs s"
  "seen obs (s\<lparr>ks_btrfs := d\<rparr>) = seen obs s"
  "seen obs (s\<lparr>ks_sched := sc\<rparr>) = obs (s_procs sc)"
  by (simp_all add: seen_def set_procs_def set_vfs_def set_fds_def wr_bytes_def set_heap_def kprocs_def
      obs_vfs obs_paging obs_upd_proc split: option.split)

lemma keeps_with_file: "(\<And>fi. keeps (seen obs) s (f fi)) \<Longrightarrow> keeps (seen obs) s (with_file fd f s)"
  by (simp add: with_file_def split: option.split)

lemma keeps_bind: "(\<And>x. keeps (seen obs) s (f x)) \<Longrightarrow> keeps (seen obs) s (Option.bind m f)"
  by (cases m) simp_all

lemma keeps_with_path:
  assumes "\<And>r. keeps (seen obs) s (f r)"
  shows "keeps (seen obs) s (with_path path f s)"
  unfolding with_path_def by (rule keeps_bind) (simp add: assms split: option.split)

lemma keeps_lift_vfs: "keeps (seen obs) s (lift_vfs g s)"
  by (simp add: lift_vfs_def seen_states split: prod.split)

lemma keeps_path_attr: "keeps (seen obs) s (path_attr path g s)"
  unfolding path_attr_def by (rule keeps_bind) (rule keeps_lift_vfs)

lemma keeps_lift_net: "keeps (seen obs) s (lift_net g s)"
  by (simp add: lift_net_def seen_states split: prod.split)

lemma keeps_lift_net_opt: "keeps (seen obs) s (lift_net_opt h s)"
  unfolding lift_net_opt_def by (rule keeps_bind) (simp add: seen_states split: prod.split)

lemma keeps_files:
  "keeps (seen obs) s (sys_read fd buf len s)"
  "keeps (seen obs) s (sys_write fd buf len s)"
  "keeps (seen obs) s (sys_open path flags s)"
  "keeps (seen obs) s (sys_close fd s)"
  "keeps (seen obs) s (sys_mkdir path s)"
  "keeps (seen obs) s (sys_unlink path s)"
  "keeps (seen obs) s (sys_create path s)"
  "keeps (seen obs) s (sys_lseek fd off whence s)"
  "keeps (seen obs) s (sys_stat path statbuf s)"
  by (auto simp: sys_read_def sys_write_def sys_open_def sys_close_def sys_mkdir_def sys_unlink_def
      sys_create_def sys_lseek_def sys_stat_def Let_def seen_states keeps_lift_vfs
      split: option.split prod.split intro!: keeps_with_file keeps_with_path)

lemma keeps_descriptors:
  "keeps (seen obs) s (sys_dup fd s)"
  "keeps (seen obs) s (sys_dup2 fd fd' s)"
  "keeps (seen obs) s (sys_ioctl fd req argp s)"
  "keeps (seen obs) s (sys_getcwd buf sz s)"
  "keeps (seen obs) s (sys_readdir fd buf count s)"
  "keeps (seen obs) s (sys_mount s)"
  "keeps (seen obs) s (sys_umount a s)"
  "keeps (seen obs) s (sys_pipe fildes s)"
  by (auto simp: sys_dup_def sys_dup2_def sys_ioctl_def sys_getcwd_def sys_readdir_def sys_mount_def
      sys_umount_def sys_pipe_def Let_def seen_states simp del: find_fd_pair.simps
      split: option.split prod.split intro!: keeps_with_file)

lemma keeps_attributes:
  "keeps (seen obs) s (sys_chmod path mode s)"
  "keeps (seen obs) s (sys_chown path u g s)"
  "keeps (seen obs) s (sys_symlink a b s)"
  "keeps (seen obs) s (sys_readlink path buf n s)"
  by (auto simp: sys_chmod_def sys_chown_def sys_symlink_def sys_readlink_def seen_states keeps_path_attr
      split: option.split prod.split intro!: keeps_bind)

lemma keeps_memory:
  "keeps (seen obs) s (sys_sleep_ms ms s)"
  "keeps (seen obs) s (sys_clock_ns s)"
  "keeps (seen obs) s (sys_clock_ms s)"
  "keeps (seen obs) s (sys_mmap a len s)"
  "keeps (seen obs) s (sys_munmap a len s)"
  "keeps (seen obs) s (sys_sysinfo a s)"
  by (auto simp: sys_sleep_ms_def sys_clock_ns_def sys_clock_ms_def sys_mmap_def sys_munmap_def sys_sysinfo_def
      seen_states split: option.split prod.split intro!: keeps_bind)

lemma keeps_signals:
  "keeps (seen obs) s (sys_signal_raise n s)"
  "keeps (seen obs) s (sys_signal_pending s)"
  "keeps (seen obs) s (sys_signal_handler h s)"
  "keeps (seen obs) s (sys_sigaction n act old s)"
  "keeps (seen obs) s (sys_kill pid n s)"
  by (auto simp: sys_signal_raise_def sys_signal_pending_def sys_signal_handler_def sys_sigaction_def sys_kill_def
      Let_def seen_states split: option.split prod.split)

lemma keeps_network:
  "keeps (seen obs) s (sys_socket a b c s)"
  "keeps (seen obs) s (sys_bind a b c s)"
  "keeps (seen obs) s (sys_listen a b s)"
  "keeps (seen obs) s (sys_accept a b c s)"
  "keeps (seen obs) s (sys_connect a b c s)"
  "keeps (seen obs) s (sys_send a b c s)"
  "keeps (seen obs) s (sys_recv a b c s)"
  "keeps (seen obs) s (sys_close_socket a s)"
  "keeps (seen obs) s (sys_setsockopt a b c s)"
  "keeps (seen obs) s (sys_ifconfig a s)"
  "keeps (seen obs) s (sys_icmp_echo a s)"
  "keeps (seen obs) s (sys_ip_parse a s)"
  "keeps (seen obs) s (sys_ip_to_str a b s)"
  by (auto simp: sys_socket_def sys_bind_def sys_listen_def sys_accept_def sys_connect_def sys_send_def sys_recv_def
      sys_close_socket_def sys_setsockopt_def sys_ifconfig_def sys_icmp_echo_def sys_ip_parse_def sys_ip_to_str_def
      Let_def seen_states keeps_lift_net keeps_lift_net_opt split: option.split prod.split intro!: keeps_bind)

lemma keeps_information:
  "keeps (seen obs) s (sys_nosys s)"
  "keeps (seen obs) s (sys_getpid s)"
  "keeps (seen obs) s (sys_getppid s)"
  "keeps (seen obs) s (sys_reboot a s)"
  "keeps (seen obs) s (sys_shutdown s)"
  "keeps (seen obs) s (sys_uname a s)"
  "keeps (seen obs) s (sys_hostname a b s)"
  "keeps (seen obs) s (sys_env_get a b c s)"
  "keeps (seen obs) s (sys_env_set a b s)"
  "keeps (seen obs) s (sys_hook_info a b s)"
  by (auto simp: sys_nosys_def sys_getpid_def sys_getppid_def sys_reboot_def sys_shutdown_def sys_uname_def
      sys_hostname_def sys_env_get_def sys_env_set_def sys_hook_info_def seen_states split: option.split prod.split)

lemma obs_sched_yield: "obs (s_procs (fst (brights_sched_yield sc))) = obs (s_procs sc)"
  by (simp add: brights_sched_yield_def save_context_def restore_context_def dispatch_slot_def
      brights_sched_mark_dispatch_def upd_sproc_def Let_def obs_upd_proc obs_paging split: option.split)

lemma obs_proc_fork: "obs (fst (brights_proc_fork p)) = obs p"
  by (simp add: brights_proc_fork_def alloc_kstack_def Let_def obs_upd_proc obs_paging obs_next
      split: option.split prod.split)

lemma obs_proc_exec: "brights_proc_exec elf p = Some (q, r) \<Longrightarrow> obs q = obs p"
  by (auto simp: brights_proc_exec_def Let_def obs_upd_proc obs_paging split: option.splits prod.splits if_splits sum.splits)

lemma obs_wait_loop:
  assumes "wait_loop pid sc = Some r"
  shows "obs (s_procs (fst r)) = obs (s_procs sc)"
  by (rule wait_loop.raw_induct [OF _ assms, where P = "\<lambda>pid sc r. obs (s_procs (fst r)) = obs (s_procs sc)"])
     (auto simp: obs_sched_yield split: option.splits if_splits)

lemma keeps_processes:
  "keeps (seen obs) s (sys_fork s)"
  "keeps (seen obs) s (sys_exec path s)"
  "keeps (seen obs) s (sys_yield s)"
  "keeps (seen obs) s (sys_wait pid status s)"
  "keeps (seen obs) s (sys_brk a s)"
  "keeps (seen obs) s (sys_chdir path s)"
proof -
  have add: "s_procs (fst (brights_sched_add_process pid sc)) = s_procs sc" for pid sc
    by (simp add: brights_sched_add_process_def split: option.split)
  have out: "seen obs (set_procs p s) = obs p" "obs (kprocs s) = seen obs s" "obs (s_procs (ks_sched s)) = seen obs s"
    "obs (s_procs (ks_sched (set_procs p s))) = obs p" for p s
    by (simp_all add: seen_def kprocs_def set_procs_def)
  show "keeps (seen obs) s (sys_fork s)"
    using obs_proc_fork [of "kprocs s"]
    by (auto simp: sys_fork_def Let_def seen_states add out split: prod.split)
  show "keeps (seen obs) s (sys_exec path s)"
    unfolding sys_exec_def
    by (rule keeps_bind) (auto simp: Let_def seen_states out dest: obs_proc_exec split: option.split prod.split)
  show "keeps (seen obs) s (sys_yield s)"
    using obs_sched_yield [of "ks_sched s"] by (auto simp: sys_yield_def seen_states out split: prod.split)
  show "keeps (seen obs) s (sys_wait pid status s)"
    using obs_wait_loop [of "ucast pid" "ks_sched s"]
    by (auto simp: sys_wait_def Let_def seen_states out split: option.split prod.split)
  show "keeps (seen obs) s (sys_brk a s)"
    by (simp add: sys_brk_def brights_proc_set_brk_def seen_states out obs_upd_proc split: option.split)
  have cwd: "brights_proc_set_cwd r p = (q, rc) \<Longrightarrow> obs q = obs p" for r p q rc
    by (auto simp: brights_proc_set_cwd_def obs_upd_proc split: option.splits)
  show "keeps (seen obs) s (sys_chdir path s)"
    by (auto simp: sys_chdir_def Let_def seen_states out dest!: cwd split: option.split prod.split intro!: keeps_with_path)
qed

lemmas keeps_handlers = keeps_files keeps_descriptors keeps_attributes keeps_memory keeps_signals keeps_network
  keeps_information keeps_processes

text \<open>The numbers of \<open>exit\<close> and of the calls that work on the hooks.\<close>

lemma keeps_table:
  assumes "i < length brights_sysent_table" "i \<notin> {5, 44, 45, 46, 47, 49}"
  shows "keeps (seen obs) s (snd (brights_sysent_table ! i) a b c d e f s)"
proof -
  have "list_all (\<lambda>(i, h). i \<in> {5, 44, 45, 46, 47, 49} \<or> keeps (seen obs) s (snd h a b c d e f s))
    (enumerate 0 brights_sysent_table)"
    unfolding brights_sysent_table_def by (simp add: keeps_handlers)
  then show ?thesis using assms by (auto simp: list_all_length nth_enumerate_eq)
qed

end

interpretation current: process_view current_pid
  by unfold_locales simp_all

interpretation hooks: process_view k_hooks
  by unfold_locales simp_all

subsection \<open>Notifications\<close>

lemma kprocs_notify:
  "\<exists>t. kprocs (notify_hooks phase num args r pid s) =
     (kprocs s)\<lparr>k_hooks := brights_syshook_notify phase num args (word_of_int r) pid t (khooks s)\<rparr>"
  by (auto simp: notify_hooks_def rdtsc_fast_def set_hooks_def set_procs_def kprocs_def khooks_def split: prod.split)

lemma fd_table_frame:
  "brights_proc_fd_table (p\<lparr>k_vfs := v\<rparr>) = brights_proc_fd_table p"
  "brights_proc_fd_table (p\<lparr>k_hooks := h\<rparr>) = brights_proc_fd_table p"
  by (simp_all add: brights_proc_fd_table_def proc_get_current_def proc_get_by_pid_def Let_def)

lemma notify_simps [simp]:
  "kpid (notify_hooks phase num args r pid s) = kpid s"
  "kvfs (notify_hooks phase num args r pid s) = kvfs s"
  "fd_entry fd (notify_hooks phase num args r pid s) = fd_entry fd s"
  "ks_mem (notify_hooks phase num args r pid s) = ks_mem s"
  using kprocs_notify [of phase num args r pid s]
  by (auto simp: kpid_def brights_proc_current_def kvfs_def fd_entry_def fd_table_frame notify_hooks_def rdtsc_fast_def set_hooks_def set_procs_def split: prod.split)

lemma khooks_notify:
  "\<exists>t. khooks (notify_hooks phase num args r pid s) = brights_syshook_notify phase num args (word_of_int r) pid t (khooks s)"
  using kprocs_notify [of phase num args r pid s] by (auto simp: khooks_def)

lemma sysent_count: "length brights_sysent_table = 67" "brights_sysent_count = 67"
  by (simp_all add: brights_sysent_count_def brights_sysent_table_def)

lemma dispatch_cases:
  assumes "brights_syscall_dispatch num a0 a1 a2 a3 a4 a5 s = Some (s', r)" "num < 67"
  obtains (returns) s1 c where
    "snd (brights_sysent_table ! unat num) a0 a1 a2 a3 a4 a5
       (notify_hooks HOOK_EVT_PRE_SYSCALL num [a0, a1, a2, a3, a4, a5] 0 (kpid s) s) = Some (s1, Ret c)"
    "r = Ret c" "s' = notify_hooks HOOK_EVT_POST_SYSCALL num [a0, a1, a2, a3, a4, a5] c (kpid s) s1"
  | (leaves)
    "snd (brights_sysent_table ! unat num) a0 a1 a2 a3 a4 a5
       (notify_hooks HOOK_EVT_PRE_SYSCALL num [a0, a1, a2, a3, a4, a5] 0 (kpid s) s) = Some (s', r)"
    "\<And>c. r \<noteq> Ret c"
proof -
  have "\<not> 67 \<le> num" using assms(2) by (simp add: word_le_nat_alt word_less_nat_alt)
  then show ?thesis
    using assms(1) returns leaves unfolding brights_syscall_dispatch_def sysent_count Let_def ret_def
    by (auto split: option.splits sysres.splits)
qed

subsection \<open>The current process\<close>

lemma kpid_seen: "kpid s = seen current_pid s"
  by (simp add: kpid_def seen_def brights_proc_current_def)

lemma khooks_seen: "khooks s = seen k_hooks s"
  by (simp add: khooks_def seen_def)

lemma kpid_hook_calls:
  "kpid (set_hooks h s) = kpid s" "kpid (wr_events buf es s) = kpid s"
proof -
  show "kpid (set_hooks h s) = kpid s" by (simp add: kpid_def set_hooks_def set_procs_def kprocs_def brights_proc_current_def)
  have "kpid (fold (\<lambda>(i, e). wr_bytes (f i) (g e)) xs s) = kpid s" for f g and xs :: "(nat \<times> hook_event) list"
    by (induction xs arbitrary: s) (auto simp: kpid_seen current.seen_states)
  then show "kpid (wr_events buf es s) = kpid s" by (simp add: wr_events_def)
qed

lemma exit_keeps: "keeps kpid s (sys_exit status s)"
proof -
  have "current_pid (fst (brights_proc_exit pid c p)) = current_pid p" for pid c p
    by (simp add: brights_proc_exit_def upd_proc_def Let_def split: option.split)
  moreover have "current_pid (s_procs (fst (brights_sched_yield sc))) = current_pid (s_procs sc)" for sc
    by (rule current.obs_sched_yield)
  ultimately show ?thesis
    by (simp add: sys_exit_def Let_def kpid_def kprocs_def set_procs_def brights_proc_current_def)
qed

lemma kpid_table:
  assumes "i < 67"
  shows "keeps kpid s (snd (brights_sysent_table ! i) a b c d e f s)"
proof (cases "i \<in> {5, 44, 45, 46, 47, 49}")
  case True
  have "keeps kpid s (sys_hook_register a b c s)" "keeps kpid s (sys_hook_unregister a s)"
    "keeps kpid s (sys_hook_poll a b c s)" "keeps kpid s (sys_hook_wait a b c s)" "keeps kpid s (sys_broadcast a b s)"
    by (auto simp: sys_hook_register_def sys_hook_unregister_def sys_hook_poll_def sys_hook_wait_def sys_broadcast_def
        kpid_hook_calls split: option.split prod.split)
  then show ?thesis using True exit_keeps [of s a] by (auto simp: brights_sysent_table_def)
next
  case False
  have "kpid = seen current_pid" by (simp add: fun_eq_iff kpid_seen)
  then show ?thesis using current.keeps_table [of i s] False assms by (simp add: sysent_count)
qed

lemma dispatch_keeps_kpid:
  assumes "brights_syscall_dispatch num a0 a1 a2 a3 a4 a5 s = Some (s', r)"
  shows "kpid s' = kpid s"
proof (cases "num < 67")
  case True
  then have n: "unat num < 67" by (simp add: word_less_nat_alt)
  note K = kpid_table [OF n, of "notify_hooks HOOK_EVT_PRE_SYSCALL num [a0, a1, a2, a3, a4, a5] 0 (kpid s) s" a0 a1 a2 a3 a4 a5]
  from assms True show ?thesis by (rule dispatch_cases) (use K in simp_all)
next
  case False
  then have "67 \<le> num" by (simp add: word_le_nat_alt word_less_nat_alt)
  then show ?thesis using assms unfolding brights_syscall_dispatch_def sysent_count ret_def by simp
qed

text \<open>What happens between two instructions of a user process: a system call, by the trap or by the
  instruction, or a tick of the timer.\<close>

inductive kernel_step :: "ksys \<Rightarrow> ksys \<Rightarrow> bool" where
  trap: "brights_syscall_handle (Some tf) s = Some (s', r) \<Longrightarrow> kernel_step s s'"
| entry: "brights_syscall_entry tf s = Some (s', r) \<Longrightarrow> kernel_step s s'"
| tick: "kernel_step s (s\<lparr>ks_sched := brights_sched_tick (ks_sched s)\<rparr>)"

lemma tick_keeps: "current_pid (s_procs (brights_sched_tick sc)) = current_pid (s_procs sc)"
  by (simp add: brights_sched_tick_def Let_def current.obs_sched_yield)

lemma kernel_step_keeps: "kernel_step s s' \<Longrightarrow> kpid s' = kpid s"
proof (induction rule: kernel_step.induct)
  case (trap tf s s' r)
  then show ?case by (auto simp: brights_syscall_handle_def ret_def dest: dispatch_keeps_kpid split: if_splits)
next
  case (entry tf s s' r)
  then show ?case by (auto simp: brights_syscall_entry_def dest: dispatch_keeps_kpid)
qed (simp add: kpid_def kprocs_def brights_proc_current_def tick_keeps)

subsection \<open>Waiting\<close>

text \<open>What a switch may do to the process table: processes become runnable or running, no more.\<close>

definition may_run :: "proc_info list \<Rightarrow> proc_info list \<Rightarrow> bool" where
  "may_run t t' = list_all2 (\<lambda>p q. pr_pid q = pr_pid p \<and>
     (pr_state q = pr_state p \<or> pr_state q = ProcRunning \<or> pr_state q = ProcRunnable)) t t'"

lemma may_run_refl: "may_run t t"
  by (simp add: may_run_def list_all2_refl)

lemma may_run_upd:
  assumes "may_run t t'" "\<And>p. pr_pid (f p) = pr_pid p"
    "\<And>p. pr_state (f p) = pr_state p \<or> pr_state (f p) = ProcRunning \<or> pr_state (f p) = ProcRunnable"
  shows "may_run t (upd_at i f t')"
  using assms unfolding may_run_def list_all2_conv_all_nth by (auto simp: nth_upd_at) metis

lemma yield_may_run: "may_run (proc_table (s_procs s)) (proc_table (s_procs (fst (brights_sched_yield s))))"
  by (auto simp: brights_sched_yield_def save_context_def dispatch_slot_def brights_sched_mark_dispatch_def Let_def
      restore_frame may_run_refl intro!: may_run_upd split: option.split)

text \<open>The process that a pid stands for, and that it has not exited.\<close>

definition alive :: "u32 \<Rightarrow> procs \<Rightarrow> bool" where
  "alive pid p = (case brights_proc_get_by_pid pid p of None \<Rightarrow> False | Some q \<Rightarrow> pr_state q \<noteq> ProcZombie)"

lemma alive_may_run:
  assumes "alive pid p" "may_run (proc_table p) (proc_table p')"
  shows "alive pid p'"
proof -
  let ?Q = "\<lambda>q. pr_pid q = pid \<and> pr_state q \<noteq> ProcUnused"
  have R: "length (proc_table p') = length (proc_table p)"
    "\<And>j. j < length (proc_table p) \<Longrightarrow> pr_pid (proc_table p' ! j) = pr_pid (proc_table p ! j) \<and>
       (pr_state (proc_table p' ! j) = pr_state (proc_table p ! j) \<or> pr_state (proc_table p' ! j) = ProcRunning
        \<or> pr_state (proc_table p' ! j) = ProcRunnable)"
    using assms(2) by (auto simp: may_run_def list_all2_conv_all_nth)
  obtain i where i: "pid \<noteq> 0" "i < length (proc_table p)" "?Q (proc_table p ! i)" "\<forall>j<i. \<not> ?Q (proc_table p ! j)"
    "pr_state (proc_table p ! i) \<noteq> ProcZombie"
    using assms(1)
    by (auto simp: alive_def brights_proc_get_by_pid_def proc_scan_def first_idx_Some split: if_splits option.splits)
  have "?Q (proc_table p' ! i)" using i(3) R(2) [OF i(2)] by auto
  then obtain k where k: "first_idx ?Q (proc_table p') = Some k"
    using i(2) R(1) by (cases "first_idx ?Q (proc_table p')") (auto simp: first_idx_None)
  then have K: "k < length (proc_table p')" "?Q (proc_table p' ! k)" "\<forall>j<k. \<not> ?Q (proc_table p' ! j)"
    by (simp_all add: first_idx_Some)
  have "\<not> i < k" using K(3) \<open>?Q (proc_table p' ! i)\<close> by blast
  then have "pr_state (proc_table p' ! k) \<noteq> ProcZombie"
    using i(4,5) K(1,2) R by (cases "k = i") (auto dest!: spec [of _ k] R(2))
  then show ?thesis using i(1) k by (simp add: alive_def brights_proc_get_by_pid_def proc_scan_def)
qed

lemma wait_loop_alive:
  assumes "alive pid (s_procs s)"
  shows "wait_loop pid s = None"
proof (rule ccontr)
  assume "wait_loop pid s \<noteq> None"
  then obtain r where "wait_loop pid s = Some r" by blast
  then have "\<not> alive pid (s_procs s)"
  proof (rule wait_loop.raw_induct [where P = "\<lambda>pid s r. \<not> alive pid (s_procs s)", rotated])
    fix f pid s y
    assume IH: "\<And>pid s y. f pid s = Some y \<Longrightarrow> \<not> alive pid (s_procs s)"
      and f: "(case brights_proc_get_by_pid pid (s_procs s) of None \<Rightarrow> Some (s, None)
          | Some info \<Rightarrow> if pr_state info = ProcZombie then Some (s, Some (pr_exit_code info))
             else f pid (fst (brights_sched_yield s))) = Some y"
    show "\<not> alive pid (s_procs s)"
    proof
      assume a: "alive pid (s_procs s)"
      then have "f pid (fst (brights_sched_yield s)) = Some y" using f by (auto simp: alive_def split: option.splits)
      then show False using IH alive_may_run [OF a yield_may_run] by blast
    qed
  qed
  then show False using assms by simp
qed

text \<open>C35: \<open>wait\<close> of an unknown process fails, \<open>wait\<close> of a process that has exited stores its exit code and returns
  its pid, and \<open>wait\<close> of a living process polls for ever unless an interrupt takes the processor away:
  the loop yields, but a switch only exchanges the saved registers, so that no other process runs
  before the call returns.\<close>
theorem sys_wait_returns_iff_exited:
  "sys_wait pid status s =
     (case brights_proc_get_by_pid (ucast pid) (kprocs s) of
        None \<Rightarrow> Some (s, Ret (-1))
      | Some p \<Rightarrow>
          if pr_state p = ProcZombie
          then Some (if status \<noteq> 0 then wr_bytes status (le32 (word_of_int (pr_exit_code p))) s else s, Ret (sint pid))
          else None)"
proof (cases "brights_proc_get_by_pid (ucast pid) (kprocs s)")
  case None
  then show ?thesis by (simp add: sys_wait_def wait_loop.simps [of "ucast pid"] kprocs_def ret_def)
next
  case (Some p)
  then show ?thesis
  proof (cases "pr_state p = ProcZombie")
    case True
    then show ?thesis using Some by (simp add: sys_wait_def wait_loop.simps [of "ucast pid"] kprocs_def ret_def Let_def)
  next
    case False
    then have "wait_loop (ucast pid) (ks_sched s) = None"
      using Some by (intro wait_loop_alive) (simp add: alive_def kprocs_def)
    then show ?thesis using Some False by (simp add: sys_wait_def)
  qed
qed

subsection \<open>Files through the calls\<close>

text \<open>The descriptor \<open>fd\<close> leads to file \<open>fi\<close> of the pool, a regular file \<open>i\<close> of the RAM file system at \<open>pos\<close>.\<close>

definition open_at :: "u64 \<Rightarrow> nat \<Rightarrow> nat \<Rightarrow> u64 \<Rightarrow> ramfs \<Rightarrow> ksys \<Rightarrow> bool" where
  "open_at fd fi i pos fs s \<longleftrightarrow> fd_entry fd s = Some fi \<and> fi < VFS_FILE_POOL_SIZE
     \<and> open_ramfile (kvfs s) fi i pos \<and> vfs_ramfs (kvfs s) = fs"

lemma open_at_notify [simp]: "open_at fd fi i pos fs (notify_hooks phase num args r pid s) = open_at fd fi i pos fs s"
  by (simp add: open_at_def)

lemma set_vfs_simps [simp]:
  "kvfs (set_vfs v s) = v" "fd_entry fd (set_vfs v s) = fd_entry fd s" "ks_mem (set_vfs v s) = ks_mem s"
  by (simp_all add: kvfs_def set_vfs_def set_procs_def kprocs_def fd_entry_def fd_table_frame)

lemma open_at_set_vfs:
  "fd_entry fd s = Some fi \<Longrightarrow> fi < VFS_FILE_POOL_SIZE \<Longrightarrow>
    open_at fd fi i pos fs (set_vfs v s) \<longleftrightarrow> open_ramfile v fi i pos \<and> vfs_ramfs v = fs"
  by (simp add: open_at_def)

lemma sys_write_open:
  assumes o: "open_at fd fi i pos fs s" and fd: "2 < unat fd"
    and w: "brights_ramfs_write (int i) pos (\<lambda>k. ks_mem s (buf + of_nat k)) len fs = Some (fs', n)" "0 \<le> n"
      "rf_in_use (fs' ! i)" "\<not> rf_is_dir (fs' ! i)"
  shows "\<exists>s1. sys_write fd buf len s = Some (s1, Ret n) \<and> open_at fd fi i (pos + of_int n) fs' s1 \<and> ks_mem s1 = ks_mem s"
proof -
  have f: "fd_entry fd s = Some fi" "fi < VFS_FILE_POOL_SIZE" "open_ramfile (kvfs s) fi i pos" "vfs_ramfs (kvfs s) = fs"
    using o by (simp_all add: open_at_def)
  obtain v where v: "brights_vfs2_write fi (\<lambda>k. ks_mem s (buf + of_nat k)) len (kvfs s) = Some (v, n)" "vfs_ramfs v = fs'"
    "open_ramfile v fi i (pos + of_int n)"
    using open_ramfile_write [OF f(3) w(1) [folded f(4)] w(2-4)] by blast
  have "fd \<noteq> 1" "fd \<noteq> 2" using fd by auto
  then have "sys_write fd buf len s = Some (set_vfs v s, Ret n)"
    using f(1,2) v(1) by (simp add: sys_write_def with_file_def ret_def Let_def)
  then show ?thesis using open_at_set_vfs [OF f(1,2)] v(2,3) by simp
qed

lemma sys_lseek_open:
  assumes "open_at fd fi i pos fs s"
  shows "\<exists>s1. sys_lseek fd off 0 s = Some (s1, Ret (sint off)) \<and> open_at fd fi i off fs s1 \<and> ks_mem s1 = ks_mem s"
proof -
  have f: "fd_entry fd s = Some fi" "fi < VFS_FILE_POOL_SIZE" "open_ramfile (kvfs s) fi i pos" "vfs_ramfs (kvfs s) = fs"
    using assms by (simp_all add: open_at_def)
  obtain v where v: "brights_vfs2_lseek fi off 0 (kvfs s) = (v, sint off)" "vfs_ramfs v = fs" "open_ramfile v fi i off"
    using open_ramfile_seek [OF f(3), of off] f(4) by auto
  then have "sys_lseek fd off 0 s = Some (set_vfs v s, Ret (sint off))"
    using f(1,2) by (simp add: sys_lseek_def with_file_def lift_vfs_def ret_def cint_def)
  then show ?thesis using open_at_set_vfs [OF f(1,2)] v(2,3) by simp
qed

lemma wr_bytes_mem:
  "ks_mem (wr_bytes a bs s) x = (if unat (x - a) < length bs then bs ! unat (x - a) else ks_mem s x)"
  by (simp add: wr_bytes_def Let_def)

lemma sys_read_open:
  assumes o: "open_at fd fi i pos fs s" and fd: "2 < unat fd"
    and r: "brights_ramfs_read (int i) pos len fs = (bs, n)"
  shows "\<exists>s1. sys_read fd buf len s = Some (s1, Ret n)
    \<and> ks_mem s1 = (\<lambda>x. if unat (x - buf) < length bs then bs ! unat (x - buf) else ks_mem s x)"
proof -
  have f: "fd_entry fd s = Some fi" "fi < VFS_FILE_POOL_SIZE" "open_ramfile (kvfs s) fi i pos" "vfs_ramfs (kvfs s) = fs"
    using o by (simp_all add: open_at_def)
  obtain v where "brights_vfs2_read fi len (kvfs s) = Some (v, bs, n)"
    using open_ramfile_read [OF f(3), of len bs n] r f(4) by blast
  moreover have "fd \<noteq> 0" using fd by auto
  ultimately have "sys_read fd buf len s = Some (wr_bytes buf bs (set_vfs v s), Ret n)"
    using f(1,2) by (simp add: sys_read_def with_file_def ret_def)
  then show ?thesis by (auto simp: wr_bytes_mem)
qed

text \<open>A call whose handler returns: the dispatcher adds the two notifications.\<close>

lemma dispatch_returns:
  assumes "num < 67" "snd (brights_sysent_table ! unat num) a0 a1 a2 a3 a4 a5
      (notify_hooks HOOK_EVT_PRE_SYSCALL num [a0, a1, a2, a3, a4, a5] 0 (kpid s) s) = Some (s1, Ret r)"
  shows "brights_syscall_dispatch num a0 a1 a2 a3 a4 a5 s =
    Some (notify_hooks HOOK_EVT_POST_SYSCALL num [a0, a1, a2, a3, a4, a5] r (kpid s) s1, Ret r)"
proof -
  have "\<not> 67 \<le> num" using assms(1) by (simp add: word_le_nat_alt word_less_nat_alt)
  then show ?thesis using assms(2) unfolding brights_syscall_dispatch_def sysent_count by (simp add: ret_def)
qed

lemma table_files:
  "snd (brights_sysent_table ! Suc 0) = (\<lambda>a b c _ _ _. sys_read a b c)"
  "snd (brights_sysent_table ! 2) = (\<lambda>a b c _ _ _. sys_write a b c)"
  "snd (brights_sysent_table ! 17) = (\<lambda>a b c _ _ _. sys_lseek a b c)"
  "snd (brights_sysent_table ! 27) = (\<lambda>_ _ _ _ _ _. sys_yield)"
  by (simp_all add: brights_sysent_table_def)

lemma dispatch_write:
  assumes o: "open_at fd fi i pos fs s" and fd: "2 < unat fd"
    and w: "brights_ramfs_write (int i) pos (\<lambda>k. ks_mem s (buf + of_nat k)) len fs = Some (fs', n)" "0 \<le> n"
      "rf_in_use (fs' ! i)" "\<not> rf_is_dir (fs' ! i)"
  shows "\<exists>s1. brights_syscall_dispatch 2 fd buf len 0 0 0 s = Some (s1, Ret n)
    \<and> open_at fd fi i (pos + of_int n) fs' s1 \<and> ks_mem s1 = ks_mem s"
proof -
  let ?s = "notify_hooks HOOK_EVT_PRE_SYSCALL 2 [fd, buf, len, 0, 0, 0] 0 (kpid s) s"
  have "open_at fd fi i pos fs ?s" "brights_ramfs_write (int i) pos (\<lambda>k. ks_mem ?s (buf + of_nat k)) len fs = Some (fs', n)"
    using o w(1) by simp_all
  from sys_write_open [OF this(1) fd this(2) w(2-4)] obtain t where
    t: "sys_write fd buf len ?s = Some (t, Ret n)" "open_at fd fi i (pos + of_int n) fs' t" "ks_mem t = ks_mem s"
    by auto
  then have "brights_syscall_dispatch 2 fd buf len 0 0 0 s =
      Some (notify_hooks HOOK_EVT_POST_SYSCALL 2 [fd, buf, len, 0, 0, 0] n (kpid s) t, Ret n)"
    by (intro dispatch_returns) (simp_all add: table_files)
  then show ?thesis using t(2,3) by simp
qed

lemma dispatch_lseek:
  assumes "open_at fd fi i pos fs s"
  shows "\<exists>s1. brights_syscall_dispatch 17 fd off 0 0 0 0 s = Some (s1, Ret (sint off))
    \<and> open_at fd fi i off fs s1 \<and> ks_mem s1 = ks_mem s"
proof -
  let ?s = "notify_hooks HOOK_EVT_PRE_SYSCALL 17 [fd, off, 0, 0, 0, 0] 0 (kpid s) s"
  have "open_at fd fi i pos fs ?s" using assms by simp
  from sys_lseek_open [OF this, of off] obtain t where
    t: "sys_lseek fd off 0 ?s = Some (t, Ret (sint off))" "open_at fd fi i off fs t" "ks_mem t = ks_mem s" by auto
  then have "brights_syscall_dispatch 17 fd off 0 0 0 0 s =
      Some (notify_hooks HOOK_EVT_POST_SYSCALL 17 [fd, off, 0, 0, 0, 0] (sint off) (kpid s) t, Ret (sint off))"
    by (intro dispatch_returns) (simp_all add: table_files)
  then show ?thesis using t(2,3) by simp
qed

lemma dispatch_read:
  assumes o: "open_at fd fi i pos fs s" and fd: "2 < unat fd"
    and r: "brights_ramfs_read (int i) pos len fs = (bs, n)"
  shows "\<exists>s1. brights_syscall_dispatch 1 fd buf len 0 0 0 s = Some (s1, Ret n)
    \<and> ks_mem s1 = (\<lambda>x. if unat (x - buf) < length bs then bs ! unat (x - buf) else ks_mem s x)"
proof -
  let ?s = "notify_hooks HOOK_EVT_PRE_SYSCALL 1 [fd, buf, len, 0, 0, 0] 0 (kpid s) s"
  have "open_at fd fi i pos fs ?s" using o by simp
  from sys_read_open [OF this fd r, of buf] obtain t where
    t: "sys_read fd buf len ?s = Some (t, Ret n)"
      "ks_mem t = (\<lambda>x. if unat (x - buf) < length bs then bs ! unat (x - buf) else ks_mem ?s x)" by blast
  then have "brights_syscall_dispatch 1 fd buf len 0 0 0 s =
      Some (notify_hooks HOOK_EVT_POST_SYSCALL 1 [fd, buf, len, 0, 0, 0] n (kpid s) t, Ret n)"
    by (intro dispatch_returns) (simp_all add: table_files)
  then show ?thesis using t(2) unfolding notify_simps by simp
qed

text \<open>C12: what a process writes with \<open>write\<close> to a file of the RAM file system that is open at a descriptor above 2, within the
  4096 bytes a file can hold, comes back with \<open>lseek\<close> and \<open>read\<close>, byte for byte, through the dispatcher: the calls return
  the full length, the destination buffer holds what the source buffer held, and the rest of the memory
  of the process is unchanged.  Descriptors 0 to 2 are taken for the console, whatever file they stand for.\<close>
theorem syscall_write_seek_read:
  assumes o: "open_at fd fi i pos fs s" and fd: "2 < unat fd" and fs: "ramfs_inv fs"
    and pos: "unat pos < 4096" "unat pos + unat len \<le> 4096"
  shows "\<exists>s1 s2 s3. brights_syscall_dispatch 2 fd buf len 0 0 0 s = Some (s1, Ret (int (unat len)))
    \<and> brights_syscall_dispatch 17 fd pos 0 0 0 0 s1 = Some (s2, Ret (sint pos))
    \<and> brights_syscall_dispatch 1 fd dst len 0 0 0 s2 = Some (s3, Ret (int (unat len)))
    \<and> ks_mem s3 = (\<lambda>x. if unat (x - dst) < unat len then ks_mem s (buf + (x - dst)) else ks_mem s x)"
proof -
  let ?src = "\<lambda>k. ks_mem s (buf + of_nat k)"
  have reg: "i < 32" "rf_in_use (fs ! i)" "\<not> rf_is_dir (fs ! i)" using o by (auto simp: open_at_def open_ramfile_def)
  have n: "min (unat len) (4096 - unat pos) = unat len" using pos(2) by simp
  obtain fs' where w: "brights_ramfs_write (int i) pos ?src len fs = Some (fs', int (unat len))"
    "brights_ramfs_read (int i) pos len fs' = (map ?src [0..<unat len], int (unat len))"
    "rf_in_use (fs' ! i)" "\<not> rf_is_dir (fs' ! i)"
    using ramfs_write_read [OF fs reg pos(1), of len ?src] pos(2) unfolding n by auto
  obtain s1 where s1: "brights_syscall_dispatch 2 fd buf len 0 0 0 s = Some (s1, Ret (int (unat len)))"
    "open_at fd fi i (pos + of_int (int (unat len))) fs' s1" "ks_mem s1 = ks_mem s"
    using dispatch_write [OF o fd w(1) _ w(3,4)] by auto
  obtain s2 where s2: "brights_syscall_dispatch 17 fd pos 0 0 0 0 s1 = Some (s2, Ret (sint pos))"
    "open_at fd fi i pos fs' s2" "ks_mem s2 = ks_mem s"
    using dispatch_lseek [OF s1(2), of pos] s1(3) by auto
  obtain s3 where s3: "brights_syscall_dispatch 1 fd dst len 0 0 0 s2 = Some (s3, Ret (int (unat len)))"
    "ks_mem s3 = (\<lambda>x. if unat (x - dst) < length (map ?src [0..<unat len]) then map ?src [0..<unat len] ! unat (x - dst)
       else ks_mem s x)"
    using dispatch_read [OF s2(2) fd w(2), of dst] unfolding s2(3) by blast
  have "ks_mem s3 = (\<lambda>x. if unat (x - dst) < unat len then ks_mem s (buf + (x - dst)) else ks_mem s x)"
    unfolding s3(2) by (auto simp: fun_eq_iff)
  then show ?thesis using s1(1) s2(1) s3(1) by blast
qed

text \<open>C40: the descriptor table of a new process is empty and descriptors are given out from 0 on, but \<open>read\<close> takes
  descriptor 0 for the keyboard without a look at the table: what a process reads from the first
  file it opens is what is typed, and with nothing typed the call does not return.\<close>
theorem first_opened_file_reads_keyboard:
  assumes ft: "brights_proc_fd_table (kprocs s) = Some no_fds"
    and op: "sys_open path flags s = Some (s1, Ret r)" "0 \<le> r"
  shows "r = 0 \<and> sys_read (word_of_int r) buf len s1 =
    (if length (tty_in (kvfs s1)) < unat len then None
     else Some (wr_bytes buf (take (unat len) (tty_in (kvfs s1)))
                  (set_vfs ((kvfs s1)\<lparr>tty_in := drop (unat len) (tty_in (kvfs s1))\<rparr>) s1), Ret (sint len)))"
proof -
  have free: "first_idx (\<lambda>e. e = None) no_fds = Some 0"
    by (simp add: no_fds_def first_idx_Some VFS_MAX_FDS_def)
  have keep: "brights_proc_fd_table (kprocs (set_vfs v s)) = Some no_fds" for v
    using ft by (simp add: set_vfs_def set_procs_def kprocs_def fd_table_frame)
  have "r = 0"
  proof (cases "str_arg path s")
    case None
    then show ?thesis using op(1) by (simp add: sys_open_def with_path_def)
  next
    case (Some p)
    then show ?thesis
      using op by (cases p) (auto simp: sys_open_def with_path_def Let_def keep ret_def brights_vfs2_fd_alloc_def free
          split: option.splits prod.splits)
  qed
  then show ?thesis by (simp add: sys_read_def devfs_tty_read_def ret_def)
qed

text \<open>C23: of every call but \<open>exit\<close> and the calls on hooks themselves, the hooks see exactly two events, before and
  after, with the number, the arguments, the calling process and, in the second, the result: no
  handler disturbs the hooks in between.\<close>
theorem syscall_seen_before_and_after:
  assumes call: "brights_syscall_dispatch num a0 a1 a2 a3 a4 a5 s = Some (s', Ret r)"
    and num: "num < 67" "unat num \<notin> {5, 44, 45, 46, 47, 49}"
  shows "\<exists>t t'. khooks s' =
    brights_syshook_notify HOOK_EVT_POST_SYSCALL num [a0, a1, a2, a3, a4, a5] (word_of_int r) (kpid s) t'
      (brights_syshook_notify HOOK_EVT_PRE_SYSCALL num [a0, a1, a2, a3, a4, a5] 0 (kpid s) t (khooks s))"
  using call num(1)
proof (rule dispatch_cases)
  let ?args = "[a0, a1, a2, a3, a4, a5]"
  let ?s = "notify_hooks HOOK_EVT_PRE_SYSCALL num ?args 0 (kpid s) s"
  fix s1 c
  assume h: "snd (brights_sysent_table ! unat num) a0 a1 a2 a3 a4 a5 ?s = Some (s1, Ret c)" "Ret r = Ret c"
    and s': "s' = notify_hooks HOOK_EVT_POST_SYSCALL num ?args c (kpid s) s1"
  have "unat num < length brights_sysent_table" using num(1) by (simp add: sysent_count word_less_nat_alt)
  from hooks.keeps_table [OF this num(2), of ?s a0 a1 a2 a3 a4 a5] have s1: "khooks s1 = khooks ?s"
    using h(1) by (simp add: khooks_seen)
  obtain t where t: "khooks ?s = brights_syshook_notify HOOK_EVT_PRE_SYSCALL num ?args 0 (kpid s) t (khooks s)"
    using khooks_notify [of HOOK_EVT_PRE_SYSCALL num ?args 0 "kpid s" s] by auto
  obtain t' where "khooks s' = brights_syshook_notify HOOK_EVT_POST_SYSCALL num ?args (word_of_int r) (kpid s) t' (khooks s1)"
    using khooks_notify [of HOOK_EVT_POST_SYSCALL num ?args c "kpid s" s1] h(2) s' by auto
  then show ?thesis unfolding s1 t by blast
qed auto

text \<open>C25: no system call and no tick of the timer changes which process the kernel takes for the caller, although
  they switch processes: the scheduler keeps a current process of its own, and the one that system
  calls work for stays the one set at boot.\<close>
theorem caller_never_follows_scheduler:
  assumes "kernel_step\<^sup>*\<^sup>* s s'"
  shows "kpid s' = kpid s"
  using assms by (induction rule: rtranclp_induct) (simp_all add: kernel_step_keeps)

subsection \<open>Examples\<close>

definition demo_kernel :: "vfs \<Rightarrow> fdtable \<Rightarrow> ksys" where
  "demo_kernel v ft = \<lparr>ks_sched = sched_demo\<lparr>s_procs := (s_procs sched_demo)\<lparr>
       proc_table := [blank_proc\<lparr>pr_pid := 1, pr_state := ProcRunning, pr_fds := ft\<rparr>,
         blank_proc\<lparr>pr_pid := 2, pr_state := ProcRunnable\<rparr>, blank_proc\<lparr>pr_pid := 3, pr_state := ProcRunnable\<rparr>],
       pid_to_index := (replicate 256 64)[1 := 0, 2 := 1, 3 := 2], current_pid := 1, k_vfs := v\<rparr>\<rparr>,
     ks_pipes = \<lparr>pipe_table = replicate 16 demo_pipe, pipe_count = 0\<rparr>, ks_signal = sig_demo, ks_heap = km_demo,
     ks_net = demo_host ip_a mac_a, ks_clock = demo_clock, ks_btrfs = demo_btrfs,
     ks_mem = (\<lambda>a. if a = 0x1000 then 47 else if a = 0x1001 then 97 else 0), ks_wait_fuel = 1, ks_wait_env = (\<lambda>_ h. h)\<rparr>"

lemma demo_kernel_fields:
  "kvfs (demo_kernel v ft) = v" "kpid (demo_kernel v ft) = 1"
  "brights_proc_fd_table (kprocs (demo_kernel v ft)) = Some ft"
  "khooks (demo_kernel v ft) = \<lparr>hook_table = [], sh_initialized = True, sh_created = 0, sh_dispatched = 0\<rparr>"
  by (simp_all add: demo_kernel_def kvfs_def kpid_def kprocs_def khooks_def brights_proc_current_def
      brights_proc_fd_table_def proc_get_current_def proc_get_by_pid_def BRIGHTS_PROC_MAX_def sched_demo_def procs_demo_def
      brights_proc_init_def Let_def word_le_nat_alt)

lemma demo_path: "str_from (ks_mem (demo_kernel v ft)) 0x1000 = Some ''/a''"
proof -
  have "char_of (47 :: nat) = CHR ''/''" "char_of (97 :: nat) = CHR ''a''" by code_simp+
  then show ?thesis
    by (simp add: demo_kernel_def str_from.simps [of _ "0x1000"] str_from.simps [of _ "0x1001"] str_from.simps [of _ "0x1002"])
qed

lemma demo_opens:
  "\<exists>v fi. brights_vfs2_open (Some ''/a'') VFS_O_CREAT vfs_demo = (v, Some fi) \<and> vfs_ramfs v = ramfs_demo
    \<and> open_ramfile v fi 0 0"
proof -
  obtain s1 where s1: "resolve_sb (Some ''/a'') vfs_demo = (s1, Some (RamfsSb, ''/a''))"
    using vfs_demo_resolve_sb by blast
  have inv: "ramfs_inv (vfs_ramfs vfs_demo)"
    unfolding vfs_demo_state(6) by (rule ramfs_inv_reachable, rule ramfs_reachable.init) (auto simp: blank_file_def)
  have free: "\<exists>i<64. \<not> f_in_use (file_pool vfs_demo ! i)" by (rule exI [of _ 0]) (simp add: vfs_demo_state(5))
  have cr: "brights_ramfs_create (Some ''/a'') (vfs_ramfs vfs_demo) = (ramfs_demo, 0)"
    unfolding vfs_demo_state(6) using ramfs_demo_create by blast
  show ?thesis using open_created [OF vfs_demo_state(3,4) free inv s1 cr] by auto
qed

lemma demo_resolves: "brights_proc_resolve_path (Some ''/a'') 256 p = Some ''/a''"
  by (simp add: brights_proc_resolve_path_def cchar_def vfs_normalize_eq path_fields_def join_def cstr_def NUL_def)

theorem first_opened_file_reads_keyboard_witness:
  "\<exists>s1. sys_open 0x1000 0x40 (demo_kernel vfs_demo no_fds) = Some (s1, Ret 0)
    \<and> (sys_read 0 0x2000 5 s1 = None \<longleftrightarrow> length (tty_in (kvfs s1)) < 5)"
proof -
  let ?k = "demo_kernel vfs_demo no_fds"
  obtain v fi where v: "brights_vfs2_open (Some ''/a'') VFS_O_CREAT vfs_demo = (v, Some fi)" using demo_opens by blast
  have ft: "brights_proc_fd_table (kprocs (set_vfs v ?k)) = Some no_fds"
    using demo_kernel_fields(3) [of vfs_demo no_fds] by (simp add: set_vfs_def set_procs_def kprocs_def fd_table_frame)
  have free: "brights_vfs2_fd_alloc no_fds (Some fi) = (no_fds[0 := Some fi], 0)"
    by (simp add: brights_vfs2_fd_alloc_def no_fds_def VFS_MAX_FDS_def numeral_eq_Suc)
  have "sys_open 0x1000 0x40 ?k = Some (set_fds (no_fds[0 := Some fi]) (set_vfs v ?k), Ret 0)"
    using v unfolding VFS_O_CREAT_def
    by (simp add: sys_open_def with_path_def str_arg_def demo_path demo_resolves demo_kernel_fields(1) ft free ret_def Let_def)
  from first_opened_file_reads_keyboard [OF demo_kernel_fields(3) this, of "0x2000" 5] this show ?thesis by auto
qed

lemma demo_yield:
  "\<exists>s'. brights_syscall_dispatch 27 0 0 0 0 0 0 (demo_kernel vfs_demo no_fds) = Some (s', Ret 0) \<and> sched_pid (ks_sched s') = 2"
proof -
  let ?k = "demo_kernel vfs_demo no_fds"
  let ?s = "notify_hooks HOOK_EVT_PRE_SYSCALL 27 [0, 0, 0, 0, 0, 0] 0 1 ?k"
  have "sched_inv (ks_sched ?s) \<and> slot_count (ks_sched ?s) = 3 \<and> current_slot (ks_sched ?s) = 0
    \<and> pr_pid (proc_at 1 (ks_sched ?s)) = 2 \<and> pid_to_slot (ks_sched ?s) ! 1 = 1"
    using sched_demo_inv
    by (auto simp: notify_hooks_def rdtsc_fast_def set_hooks_def set_procs_def kprocs_def khooks_def demo_kernel_def
        sched_inv_def sched_demo_fields proc_at_def less_3_cases split: prod.split)
  then obtain sc where y: "brights_sched_yield (ks_sched ?s) = (sc, 0)" "sched_pid sc = 2"
    using yield_ok [of "ks_sched ?s"] by auto
  have "sys_yield ?s = Some (?s\<lparr>ks_sched := sc\<rparr>, Ret 0)" by (simp add: sys_yield_def y(1) ret_def)
  then have "brights_syscall_dispatch 27 0 0 0 0 0 0 ?k =
      Some (notify_hooks HOOK_EVT_POST_SYSCALL 27 [0, 0, 0, 0, 0, 0] 0 1 (?s\<lparr>ks_sched := sc\<rparr>), Ret 0)"
    using dispatch_returns [of 27 0 0 0 0 0 0 ?k] by (simp add: table_files demo_kernel_fields(2))
  moreover have "sched_pid (ks_sched (notify_hooks p n as r pid s)) = sched_pid (ks_sched s)" for p n as r pid s
    by (simp add: notify_hooks_def rdtsc_fast_def set_hooks_def set_procs_def split: prod.split)
  ultimately show ?thesis using y(2) by simp
qed

theorem caller_never_follows_scheduler_witness:
  "\<exists>s'. kernel_step\<^sup>*\<^sup>* (demo_kernel vfs_demo no_fds) s' \<and> brights_sched_current_pid (ks_sched s') = 2 \<and> kpid s' = 1"
proof -
  let ?k = "demo_kernel vfs_demo no_fds"
  obtain s' where s': "brights_syscall_dispatch 27 0 0 0 0 0 0 ?k = Some (s', Ret 0)" "sched_pid (ks_sched s') = 2"
    using demo_yield by blast
  then have "brights_syscall_handle (Some (blank_regs\<lparr>rax := 27\<rparr>)) ?k = Some (s', Ret 0)"
    by (simp add: brights_syscall_handle_def sysent_count blank_regs_def user_regs_def word_le_nat_alt)
  then have "kernel_step ?k s'" by (rule kernel_step.trap)
  then have st: "kernel_step\<^sup>*\<^sup>* ?k s'" by (rule r_into_rtranclp)
  then show ?thesis
    using caller_never_follows_scheduler [OF st] s'(2) demo_kernel_fields(2) by (auto simp: brights_sched_current_pid_def)
qed

theorem syscall_seen_before_and_after_witness:
  "\<exists>s' t t'. brights_syscall_dispatch 27 0 0 0 0 0 0 (demo_kernel vfs_demo no_fds) = Some (s', Ret 0)
    \<and> khooks s' = brights_syshook_notify HOOK_EVT_POST_SYSCALL 27 [0, 0, 0, 0, 0, 0] 0 1 t'
        (brights_syshook_notify HOOK_EVT_PRE_SYSCALL 27 [0, 0, 0, 0, 0, 0] 0 1 t (khooks (demo_kernel vfs_demo no_fds)))"
proof -
  obtain s' where s': "brights_syscall_dispatch 27 0 0 0 0 0 0 (demo_kernel vfs_demo no_fds) = Some (s', Ret 0)"
    using demo_yield by blast
  have "27 < (67 :: u64)" "unat (27 :: u64) \<notin> {5, 44, 45, 46, 47, 49}" by simp_all
  from syscall_seen_before_and_after [OF s' this] s' show ?thesis by (auto simp: demo_kernel_fields(2))
qed

definition demo_file_vfs :: vfs where
  "demo_file_vfs = vfs_demo\<lparr>file_pool := upd_at 0 (\<lambda>f. f\<lparr>f_in_use := True, f_fops := Some RamfsFops,
     f_inode := Some (RamfsInode 0), f_private := PInt 0, f_pos := 0\<rparr>) (file_pool vfs_demo), vfs_ramfs := ramfs_demo\<rparr>"

theorem syscall_write_seek_read_witness:
  "\<exists>s1 s2 s3. brights_syscall_dispatch 2 3 0x1000 2 0 0 0 (demo_kernel demo_file_vfs (no_fds[3 := Some 0])) = Some (s1, Ret 2)
    \<and> brights_syscall_dispatch 17 3 0 0 0 0 0 s1 = Some (s2, Ret 0)
    \<and> brights_syscall_dispatch 1 3 0x2000 2 0 0 0 s2 = Some (s3, Ret 2)
    \<and> ks_mem s3 0x2000 = 47 \<and> ks_mem s3 0x2001 = 97"
proof -
  let ?k = "demo_kernel demo_file_vfs (no_fds[3 := Some 0])"
  have "fd_entry 3 ?k = Some 0"
    by (simp add: fd_entry_def demo_kernel_fields(3) brights_vfs2_fd_get_def cint_def no_fds_def VFS_MAX_FDS_def)
  moreover have "length (file_pool vfs_demo) = 64" using vfs_demo_state(3) by (simp add: pool_inv_def)
  ultimately have o: "open_at 3 0 0 0 ramfs_demo ?k"
    using ramfs_demo_create
    by (simp add: open_at_def demo_kernel_fields(1) open_ramfile_def demo_file_vfs_def VFS_FILE_POOL_SIZE_def
        blank_file_def)
  have inv: "ramfs_inv ramfs_demo"
    using ramfs_inv_create [OF ramfs_inv_reachable [OF ramfs_reachable.init], of "replicate 32 blank_file" "Some ''/a''"]
      ramfs_demo_create by (auto simp: blank_file_def)
  have "2 < unat (3 :: u64)" "unat (0 :: u64) < 4096" "unat (0 :: u64) + unat (2 :: u64) \<le> 4096" by simp_all
  from syscall_write_seek_read [OF o this(1) inv this(2,3), of "0x1000" "0x2000"] obtain s1 s2 s3 where
    "brights_syscall_dispatch 2 3 0x1000 2 0 0 0 ?k = Some (s1, Ret 2)" "brights_syscall_dispatch 17 3 0 0 0 0 0 s1 = Some (s2, Ret 0)"
    "brights_syscall_dispatch 1 3 0x2000 2 0 0 0 s2 = Some (s3, Ret 2)"
    and m: "ks_mem s3 = (\<lambda>x. if unat (x - 0x2000) < unat (2 :: u64) then ks_mem ?k (0x1000 + (x - 0x2000)) else ks_mem ?k x)" by auto
  moreover have "ks_mem s3 0x2000 = 47" "ks_mem s3 0x2001 = 97" by (simp_all add: m demo_kernel_def)
  ultimately show ?thesis by blast
qed

end
