(* ===== verification/Imdata.thy ===== *)
theory Imdata
  imports Kernel_Prelude
begin

text \<open>
  The tables of the input method (\<open>drivers/im.c\<close>): the frequent characters, the candidates of each
  spelling and the punctuation marks.  A string is the list of its bytes, in UTF-8; the row of a spelling
  has nine further entries, of which the empty ones end the list.  The row \<open>xi\<close> has ten in the source, one more
  than the array holds.
\<close>

definition text_bytes :: "string \<Rightarrow> u8 list" where
  "text_bytes t = map of_char t"

definition common_chars :: "u8 list list" where
  "common_chars =
    [[231, 154, 132], [228, 184, 128], [230, 152, 175], [228, 186, 134], [229, 156, 168], [228, 186, 186],
     [230, 156, 137], [230, 136, 145], [228, 187, 150], [232, 191, 153], [228, 184, 173], [229, 164, 167],
     [230, 157, 165], [228, 184, 138], [229, 155, 189], [228, 184, 170], [229, 136, 176], [232, 175, 180],
     [228, 187, 172], [228, 184, 186], [229, 173, 144], [229, 146, 140], [228, 189, 160], [229, 156, 176],
     [233, 129, 147], [229, 135, 186], [232, 128, 140], [228, 186, 142], [229, 142, 187], [232, 191, 135],
     [229, 174, 182], [228, 188, 154], [228, 185, 159], [229, 175, 185], [231, 148, 159], [232, 131, 189],
     [232, 128, 140], [231, 157, 128], [228, 184, 139], [229, 136, 134], [232, 191, 152], [232, 181, 183],
     [229, 176, 177], [229, 185, 180], [230, 151, 182], [229, 128, 153], [231, 156, 139], [229, 143, 145],
     [229, 144, 142], [228, 189, 156], [233, 135, 140], [231, 148, 168], [233, 129, 147], [231, 132, 182],
     [229, 174, 182], [233, 130, 163], [229, 190, 151], [231, 157, 128], [230, 150, 185], [229, 164, 154],
     [229, 165, 189], [229, 176, 143], [233, 131, 168], [229, 133, 182], [228, 186, 155], [231, 142, 176],
     [229, 189, 147], [230, 173, 163], [229, 174, 154], [232, 167, 129], [229, 143, 170], [228, 184, 187],
     [230, 178, 161], [228, 187, 142], [229, 138, 168], [232, 186, 171], [229, 133, 168], [231, 132, 182],
     [229, 191, 131], [228, 186, 139], [229, 183, 165], [230, 175, 143], [229, 174, 158], [230, 156, 172],
     [232, 167, 163], [230, 173, 164], [229, 136, 182], [229, 186, 148], [229, 133, 136], [229, 164, 180],
     [229, 183, 177], [231, 159, 165], [229, 165, 185], [229, 155, 160], [228, 189, 134], [229, 143, 170],
     [232, 162, 171], [232, 174, 169], [230, 136, 150], [228, 187, 142]]"

definition pinyin_map :: "(u8 list \<times> u8 list list) list" where
  "pinyin_map =
    [(text_bytes ''de'', [[231, 154, 132], [229, 190, 151], [229, 156, 176], [229, 190, 183], [229, 152, 154], [], [], [], []]),
     (text_bytes ''yi'', [[228, 184, 128], [228, 187, 165], [230, 132, 143], [228, 185, 137], [229, 183, 178], [229, 140, 187],
       [232, 161, 163], [231, 155, 138], [230, 152, 147]]),
     (text_bytes ''shi'', [[230, 152, 175], [230, 151, 182], [229, 141, 129], [228, 186, 139], [229, 174, 158], [229, 184, 130],
       [228, 189, 191], [228, 184, 150], [229, 188, 143]]),
     (text_bytes ''le'', [[228, 186, 134], [228, 185, 144], [229, 139, 146], [233, 155, 183], [232, 130, 139], [231, 180, 175], [], [],
       []]),
     (text_bytes ''zai'', [[229, 156, 168], [229, 134, 141], [232, 189, 189], [228, 187, 148], [231, 129, 190], [], [], [], []]),
     (text_bytes ''ren'', [[228, 186, 186], [228, 187, 129], [229, 191, 141], [232, 174, 164], [228, 187, 187], [229, 163, 172],
       [229, 136, 131], [233, 159, 167], []]),
     (text_bytes ''you'', [[230, 156, 137], [229, 143, 136], [231, 148, 177], [229, 143, 139], [229, 143, 179], [228, 188, 152],
       [230, 178, 185], [230, 184, 184], [229, 185, 188]]),
     (text_bytes ''wo'', [[230, 136, 145], [230, 143, 161], [229, 141, 167], [230, 178, 131], [], [], [], [], []]),
     (text_bytes ''ta'', [[228, 187, 150], [229, 165, 185], [229, 174, 131], [229, 161, 148], [232, 184, 143], [231, 141, 173], [], [],
       []]),
     (text_bytes ''zhe'', [[232, 191, 153], [232, 128, 133], [231, 157, 128], [230, 138, 152], [229, 147, 178], [230, 181, 153], [], [],
       []]),
     (text_bytes ''zhong'', [[228, 184, 173], [231, 167, 141], [233, 135, 141], [228, 188, 151], [231, 187, 136], [233, 146, 159],
       [229, 191, 160], [232, 130, 191], []]),
     (text_bytes ''da'', [[229, 164, 167], [230, 137, 147], [232, 190, 190], [231, 173, 148], [229, 164, 167], [230, 178, 147], [], [],
       []]),
     (text_bytes ''lai'', [[230, 157, 165], [232, 181, 150], [232, 142, 177], [231, 157, 144], [231, 177, 129], [], [], [], []]),
     (text_bytes ''shang'', [[228, 184, 138], [229, 176, 154], [229, 149, 134], [228, 188, 164], [232, 163, 179], [], [], [], []]),
     (text_bytes ''guo'', [[229, 155, 189], [232, 191, 135], [230, 158, 156], [233, 131, 173], [233, 148, 133], [232, 163, 185], [], [],
       []]),
     (text_bytes ''ge'', [[228, 184, 170], [229, 144, 132], [230, 173, 140], [229, 147, 165], [233, 157, 169], [230, 160, 188],
       [233, 154, 148], [229, 144, 136], []]),
     (text_bytes ''dao'', [[229, 136, 176], [233, 129, 147], [229, 175, 188], [229, 128, 146], [229, 178, 155], [231, 168, 187],
       [230, 130, 188], [232, 185, 136], []]),
     (text_bytes ''shuo'', [[232, 175, 180], [231, 161, 149], [230, 156, 148], [231, 131, 129], [233, 147, 132], [], [], [], []]),
     (text_bytes ''men'', [[228, 187, 172], [233, 151, 168], [233, 151, 183], [228, 187, 172], [231, 132, 150], [], [], [], []]),
     (text_bytes ''wei'', [[228, 184, 186], [228, 189, 141], [230, 156, 170], [229, 155, 180], [231, 187, 180], [229, 190, 174],
       [228, 188, 159], [229, 167, 148], [229, 141, 171]]),
     (text_bytes ''zi'', [[229, 173, 144], [229, 173, 151], [232, 135, 170], [232, 181, 132], [231, 180, 171], [229, 133, 185],
       [229, 173, 156], [229, 146, 168], [229, 144, 177]]),
     (text_bytes ''he'', [[229, 146, 140], [229, 144, 136], [230, 178, 179], [228, 189, 149], [232, 141, 183], [230, 160, 184],
       [229, 150, 157], [232, 180, 186], [231, 155, 146]]),
     (text_bytes ''ni'', [[228, 189, 160], [229, 176, 188], [230, 179, 165], [229, 145, 162], [230, 139, 159], [232, 133, 187], [], [],
       []]),
     (text_bytes ''di'', [[229, 156, 176], [231, 154, 132], [231, 172, 172], [228, 189, 142], [229, 186, 149], [233, 128, 146],
       [230, 149, 140], [231, 172, 155], [232, 146, 130]]),
     (text_bytes ''chu'', [[229, 135, 186], [229, 164, 132], [229, 136, 157], [233, 153, 164], [230, 165, 154], [229, 130, 168],
       [229, 142, 168], [233, 155, 143], []]),
     (text_bytes ''er'', [[232, 128, 140], [228, 186, 140], [229, 176, 148], [232, 128, 179], [229, 132, 191], [232, 180, 176], [], [],
       []]),
     (text_bytes ''yu'', [[228, 186, 142], [228, 184, 142], [233, 162, 132], [229, 159, 159], [230, 172, 178], [233, 129, 135],
       [229, 150, 187], [229, 190, 161], [232, 163, 149]]),
     (text_bytes ''qu'', [[229, 142, 187], [229, 143, 150], [229, 140, 186], [230, 155, 178], [232, 182, 139], [230, 184, 160],
       [232, 182, 163], [232, 186, 175], []]),
     (text_bytes ''guo2'', [[232, 191, 135], [229, 155, 189], [230, 158, 156], [233, 131, 173], [233, 148, 133], [], [], [], []]),
     (text_bytes ''jia'', [[229, 174, 182], [229, 138, 160], [229, 129, 135], [228, 187, 183], [230, 158, 182], [229, 152, 137],
       [229, 164, 185], [233, 169, 190], [229, 171, 129]]),
     (text_bytes ''hui'', [[228, 188, 154], [229, 155, 158], [230, 177, 135], [231, 187, 152], [230, 130, 148], [230, 175, 129],
       [230, 131, 160], [232, 190, 137], [230, 133, 167]]),
     (text_bytes ''ye'', [[228, 185, 159], [228, 184, 154], [229, 164, 156], [229, 143, 182], [233, 135, 142], [230, 182, 178],
       [233, 161, 181], [231, 136, 183], [230, 164, 176]]),
     (text_bytes ''dui'', [[229, 175, 185], [233, 152, 159], [229, 160, 134], [229, 133, 145], [230, 128, 188], [231, 162, 147], [], [],
       []]),
     (text_bytes ''sheng'', [[231, 148, 159], [229, 163, 176], [229, 141, 135], [232, 131, 156], [231, 156, 129], [229, 156, 163],
       [231, 155, 155], [231, 137, 178], [231, 148, 165]]),
     (text_bytes ''neng'', [[232, 131, 189], [232, 128, 140], [], [], [], [], [], [], []]),
     (text_bytes ''zhe2'', [[231, 157, 128], [232, 191, 153], [232, 128, 133], [230, 181, 153], [], [], [], [], []]),
     (text_bytes ''xia'', [[228, 184, 139], [229, 164, 143], [229, 144, 147], [228, 190, 160], [229, 179, 161], [231, 139, 173],
       [233, 156, 158], [230, 154, 135], [232, 153, 190]]),
     (text_bytes ''fen'', [[229, 136, 134], [228, 187, 189], [231, 178, 137], [231, 186, 183], [229, 165, 139], [231, 178, 170],
       [230, 132, 164], [230, 176, 155], [229, 157, 159]]),
     (text_bytes ''hai'', [[232, 191, 152], [230, 181, 183], [229, 173, 169], [229, 174, 179], [228, 186, 165], [233, 170, 135],
       [233, 170, 184], [], []]),
     (text_bytes ''qi'', [[232, 181, 183], [229, 133, 182], [230, 176, 148], [228, 184, 131], [228, 188, 129], [229, 153, 168],
       [230, 177, 189], [229, 165, 135], [233, 189, 144]]),
     (text_bytes ''jiu'', [[229, 176, 177], [228, 185, 157], [228, 185, 133], [233, 133, 146], [230, 151, 167], [230, 149, 145],
       [231, 169, 182], [232, 136, 133], [233, 159, 173]]),
     (text_bytes ''shi2'', [[230, 151, 182], [229, 141, 129], [228, 186, 139], [229, 174, 158], [229, 184, 130], [228, 189, 191],
       [228, 184, 150], [230, 152, 175], [229, 188, 143]]),
     (text_bytes ''hou'', [[229, 144, 142], [229, 128, 153], [229, 142, 154], [228, 190, 175], [229, 191, 189], [228, 185, 142],
       [232, 131, 161], [230, 185, 150], [228, 186, 146]]),
     (text_bytes ''kan'', [[231, 156, 139], [229, 136, 138], [229, 157, 142], [231, 160, 141], [229, 160, 170], [229, 139, 152],
       [228, 190, 131], [], []]),
     (text_bytes ''fa'', [[229, 143, 145], [230, 179, 149], [228, 185, 143], [228, 188, 144], [233, 152, 128], [231, 173, 143], [], [],
       []]),
     (text_bytes ''hou2'', [[229, 144, 142], [229, 128, 153], [229, 142, 154], [228, 190, 175], [229, 191, 189], [], [], [], []]),
     (text_bytes ''zuo'', [[228, 189, 156], [229, 129, 154], [229, 157, 144], [229, 186, 167], [229, 183, 166], [228, 189, 144],
       [231, 144, 162], [229, 165, 143], [230, 143, 141]]),
     (text_bytes ''li'', [[233, 135, 140], [229, 138, 155], [231, 144, 134], [229, 136, 169], [231, 171, 139], [230, 157, 142],
       [229, 142, 134], [231, 166, 187], [231, 164, 188]]),
     (text_bytes ''yong'', [[231, 148, 168], [230, 176, 184], [229, 139, 135], [230, 182, 140], [230, 179, 179], [230, 139, 165],
       [229, 163, 133], [], []]),
     (text_bytes ''ran'', [[231, 132, 182], [231, 135, 131], [230, 159, 147], [229, 134, 137], [232, 139, 146], [], [], [], []]),
     (text_bytes ''na'', [[233, 130, 163], [229, 147, 170], [231, 186, 179], [229, 168, 156], [230, 139, 191], [229, 145, 144],
       [233, 146, 160], [229, 141, 151], []]),
     (text_bytes ''de2'', [[231, 154, 132], [229, 190, 151], [229, 156, 176], [], [], [], [], [], []]),
     (text_bytes ''hao'', [[229, 165, 189], [229, 143, 183], [230, 181, 169], [231, 154, 147], [232, 177, 170], [230, 175, 171],
       [233, 131, 157], [232, 128, 151], [230, 152, 138]]),
     (text_bytes ''xiao'', [[229, 176, 143], [231, 172, 145], [230, 149, 136], [230, 160, 161], [230, 182, 136], [230, 153, 147],
       [232, 144, 167], [229, 173, 157], [232, 130, 150]]),
     (text_bytes ''bu'', [[228, 184, 141], [233, 131, 168], [230, 173, 165], [229, 184, 131], [232, 161, 165], [231, 176, 191],
       [229, 160, 161], [230, 128, 150], []]),
     (text_bytes ''qi2'', [[229, 133, 182], [230, 156, 159], [228, 184, 131], [228, 188, 129], [232, 181, 183], [230, 176, 148],
       [229, 165, 135], [229, 153, 168], [233, 189, 144]]),
     (text_bytes ''xian'', [[231, 142, 176], [229, 133, 136], [229, 142, 191], [231, 186, 191], [230, 152, 190], [233, 153, 169],
       [233, 153, 144], [229, 174, 170], [231, 140, 174]]),
     (text_bytes ''dang'', [[229, 189, 147], [229, 133, 154], [230, 161, 163], [232, 141, 161], [230, 140, 161], [229, 136, 128],
       [229, 143, 168], [232, 185, 136], []]),
     (text_bytes ''zheng'', [[230, 173, 163], [230, 148, 191], [232, 175, 129], [228, 186, 137], [230, 149, 180], [233, 131, 145],
       [229, 190, 129], [229, 184, 167], [232, 146, 184]]),
     (text_bytes ''jian'', [[232, 167, 129], [233, 151, 180], [229, 187, 186], [228, 187, 182], [231, 174, 128], [233, 148, 174],
       [231, 155, 145], [229, 135, 143], [230, 163, 128]]),
     (text_bytes ''zhi'', [[229, 143, 170], [231, 159, 165], [228, 185, 139], [232, 135, 179], [230, 178, 187], [229, 136, 182],
       [232, 180, 168], [230, 140, 135], [231, 186, 184]]),
     (text_bytes ''zhu'', [[228, 184, 187], [230, 179, 168], [228, 189, 143], [229, 138, 169], [233, 128, 144], [232, 145, 151],
       [233, 169, 187], [231, 133, 174], [230, 159, 177]]),
     (text_bytes ''mei'', [[230, 178, 161], [230, 175, 143], [231, 190, 142], [229, 166, 185], [231, 156, 137], [230, 162, 133],
       [229, 170, 146], [231, 133, 164], [230, 158, 154]]),
     (text_bytes ''cong'', [[228, 187, 142], [230, 173, 164], [230, 172, 161], [232, 129, 170], [228, 184, 155], [229, 140, 134],
       [232, 145, 177], [], []]),
     (text_bytes ''dong'', [[229, 138, 168], [228, 184, 156], [229, 134, 172], [230, 135, 130], [230, 180, 158], [229, 134, 187],
       [230, 160, 139], [232, 145, 163], [229, 146, 154]]),
     (text_bytes ''shen'', [[232, 186, 171], [230, 183, 177], [228, 187, 128], [231, 165, 158], [229, 174, 161], [231, 148, 154],
       [232, 130, 190], [230, 178, 136], [230, 184, 151]]),
     (text_bytes ''quan'', [[229, 133, 168], [230, 157, 131], [230, 179, 137], [229, 156, 136], [229, 138, 157], [230, 139, 179],
       [231, 138, 172], [229, 136, 184], [233, 162, 167]]),
     (text_bytes ''xin'', [[229, 191, 131], [230, 150, 176], [228, 191, 161], [232, 190, 155], [232, 150, 170], [230, 172, 163],
       [233, 166, 168], [233, 145, 171], [230, 152, 149]]),
     (text_bytes ''shi3'', [[228, 186, 139], [230, 152, 175], [230, 151, 182], [229, 141, 129], [229, 174, 158], [229, 184, 130],
       [228, 189, 191], [228, 184, 150], [229, 188, 143]]),
     (text_bytes ''gong'', [[229, 183, 165], [229, 133, 172], [229, 133, 177], [229, 138, 159], [228, 190, 155], [230, 148, 187],
       [229, 174, 171], [230, 129, 173], [232, 186, 172]]),
     (text_bytes ''mei2'', [[230, 175, 143], [230, 178, 161], [231, 190, 142], [229, 166, 185], [231, 156, 137], [230, 162, 133],
       [229, 170, 146], [231, 133, 164], [230, 158, 154]]),
     (text_bytes ''ben'', [[230, 156, 172], [229, 165, 148], [232, 139, 175], [231, 172, 168], [229, 164, 175], [], [], [], []]),
     (text_bytes ''jie'', [[232, 167, 163], [231, 187, 147], [230, 142, 165], [229, 167, 144], [232, 161, 151], [232, 138, 130],
       [230, 180, 129], [230, 136, 170], [229, 177, 138]]),
     (text_bytes ''ci'', [[230, 173, 164], [230, 172, 161], [228, 187, 142], [232, 175, 141], [232, 190, 158], [230, 133, 136],
       [231, 163, 129], [229, 136, 186], [231, 147, 183]]),
     (text_bytes ''zhi2'', [[229, 136, 182], [230, 178, 187], [232, 135, 180], [232, 180, 168], [229, 191, 151], [231, 189, 174],
       [230, 153, 186], [231, 155, 180], [229, 128, 188]]),
     (text_bytes ''ying'', [[229, 186, 148], [232, 139, 177], [229, 189, 177], [232, 144, 165], [230, 152, 160], [231, 161, 172],
       [232, 181, 162], [232, 191, 142], [233, 162, 150]]),
     (text_bytes ''xian2'', [[229, 133, 136], [231, 142, 176], [229, 142, 191], [231, 186, 191], [230, 152, 190], [233, 153, 169],
       [233, 153, 144], [229, 174, 170], [231, 140, 174]]),
     (text_bytes ''tou'', [[229, 164, 180], [230, 138, 149], [233, 128, 143], [229, 129, 183], [229, 135, 184], [231, 167, 131], [], [],
       []]),
     (text_bytes ''ji'', [[229, 183, 177], [230, 156, 186], [232, 174, 176], [230, 181, 142], [230, 138, 128], [233, 155, 134],
       [230, 158, 129], [229, 135, 187], [231, 167, 175]]),
     (text_bytes ''zhi3'', [[231, 159, 165], [229, 143, 170], [228, 185, 139], [232, 135, 179], [230, 178, 187], [229, 136, 182],
       [232, 180, 168], [230, 140, 135], [231, 186, 184]]),
     (text_bytes ''ta2'', [[229, 165, 185], [228, 187, 150], [229, 174, 131], [229, 161, 148], [232, 184, 143], [231, 141, 173], [], [],
       []]),
     (text_bytes ''yin'', [[229, 155, 160], [233, 147, 182], [229, 188, 149], [229, 141, 176], [233, 159, 179], [233, 152, 180],
       [233, 165, 174], [233, 154, 144], [229, 175, 133]]),
     (text_bytes ''dan'', [[228, 189, 134], [229, 141, 149], [232, 155, 139], [230, 183, 161], [232, 131, 134], [229, 188, 185],
       [228, 184, 185], [230, 139, 133], [230, 176, 174]]),
     (text_bytes ''zhi4'', [[229, 143, 170], [231, 159, 165], [228, 185, 139], [232, 135, 179], [230, 178, 187], [229, 136, 182],
       [232, 180, 168], [230, 140, 135], [231, 186, 184]]),
     (text_bytes ''bei'', [[232, 162, 171], [229, 140, 151], [229, 164, 135], [232, 131, 140], [229, 128, 141], [230, 157, 175],
       [232, 180, 157], [232, 190, 136], [230, 130, 178]]),
     (text_bytes ''rang'', [[232, 174, 169], [229, 154, 183], [229, 163, 164], [230, 148, 152], [231, 147, 162], [], [], [], []]),
     (text_bytes ''huo'', [[230, 136, 150], [230, 180, 187], [231, 129, 171], [228, 188, 153], [232, 142, 183], [231, 165, 184],
       [233, 156, 141], [232, 180, 167], [230, 131, 145]]),
     (text_bytes ''cong2'', [[228, 187, 142], [230, 173, 164], [230, 172, 161], [232, 129, 170], [228, 184, 155], [229, 140, 134],
       [232, 145, 177], [], []]),
     (text_bytes ''xiang'', [[230, 131, 179], [229, 144, 145], [232, 177, 161], [231, 155, 184], [229, 131, 143], [228, 185, 161],
       [233, 166, 153], [229, 147, 141], [233, 161, 185]]),
     (text_bytes ''mei'', [[230, 178, 161], [231, 190, 142], [229, 166, 185], [231, 156, 137], [230, 162, 133], [229, 170, 146],
       [231, 133, 164], [230, 158, 154], [230, 175, 143]]),
     (text_bytes ''hen'', [[229, 190, 136], [230, 129, 168], [231, 139, 160], [231, 151, 149], [], [], [], [], []]),
     (text_bytes ''zui'', [[230, 156, 128], [229, 152, 180], [231, 189, 170], [233, 134, 137], [229, 146, 128], [], [], [], []]),
     (text_bytes ''ke'', [[229, 143, 175], [231, 167, 145], [232, 175, 190], [229, 133, 139], [229, 174, 162], [229, 136, 187],
       [230, 163, 181], [233, 162, 151], [229, 146, 179]]),
     (text_bytes ''dong'', [[229, 138, 168], [228, 184, 156], [229, 134, 172], [230, 135, 130], [230, 180, 158], [229, 134, 187],
       [230, 160, 139], [232, 145, 163], [229, 146, 154]]),
     (text_bytes ''liang'', [[228, 184, 164], [233, 135, 143], [229, 135, 137], [228, 186, 174], [231, 178, 174], [232, 137, 175],
       [230, 162, 129], [232, 190, 134], [232, 176, 133]]),
     (text_bytes ''xi'', [[232, 165, 191], [231, 179, 187], [228, 185, 160], [229, 150, 156], [230, 129, 175], [229, 184, 140],
       [231, 187, 134], [229, 184, 173], [230, 180, 151]]),
     (text_bytes ''zhidao'', [[231, 159, 165, 233, 129, 147], [230, 140, 135, 229, 175, 188], [231, 155, 180, 229, 136, 176], [], [], [], [],
       [], []]),
     (text_bytes ''women'', [[230, 136, 145, 228, 187, 172], [228, 189, 160, 228, 187, 172], [228, 187, 150, 228, 187, 172], [], [], [], [],
       [], []]),
     (text_bytes ''zhongguo'', [[228, 184, 173, 229, 155, 189], [], [], [], [], [], [], [], []]),
     (text_bytes ''shijie'', [[228, 184, 150, 231, 149, 140], [], [], [], [], [], [], [], []]),
     (text_bytes ''taiyang'', [[229, 164, 170, 233, 152, 179], [], [], [], [], [], [], [], []]),
     (text_bytes ''yueliang'', [[230, 156, 136, 228, 186, 174], [], [], [], [], [], [], [], []]),
     (text_bytes ''xuexi'', [[229, 173, 166, 228, 185, 160], [], [], [], [], [], [], [], []]),
     (text_bytes ''gongzuo'', [[229, 183, 165, 228, 189, 156], [], [], [], [], [], [], [], []]),
     (text_bytes ''shenghuo'', [[231, 148, 159, 230, 180, 187], [], [], [], [], [], [], [], []]),
     (text_bytes ''dianhua'', [[231, 148, 181, 232, 175, 157], [], [], [], [], [], [], [], []]),
     (text_bytes ''diannao'', [[231, 148, 181, 232, 132, 145], [], [], [], [], [], [], [], []]),
     (text_bytes ''shouji'', [[230, 137, 139, 230, 156, 186], [], [], [], [], [], [], [], []]),
     (text_bytes ''xiexie'', [[232, 176, 162, 232, 176, 162], [229, 134, 153, 229, 134, 153], [], [], [], [], [], [], []]),
     (text_bytes ''buhao'', [[228, 184, 141, 229, 165, 189], [229, 143, 183], [], [], [], [], [], [], []]),
     (text_bytes ''zaojian'', [[229, 134, 141, 232, 167, 129], [], [], [], [], [], [], [], []]),
     (text_bytes ''henhao'', [[229, 190, 136, 229, 165, 189], [], [], [], [], [], [], [], []]),
     (text_bytes ''zhidao'', [[231, 159, 165, 233, 129, 147], [230, 140, 135, 229, 175, 188], [], [], [], [], [], [], []]),
     (text_bytes ''bieren'', [[229, 136, 171, 228, 186, 186], [], [], [], [], [], [], [], []]),
     (text_bytes ''ziji'', [[232, 135, 170, 229, 183, 177], [], [], [], [], [], [], [], []]),
     (text_bytes ''jintian'', [[228, 187, 138, 229, 164, 169], [], [], [], [], [], [], [], []]),
     (text_bytes ''mingtian'', [[230, 152, 142, 229, 164, 169], [], [], [], [], [], [], [], []]),
     (text_bytes ''zuotian'', [[230, 152, 168, 229, 164, 169], [], [], [], [], [], [], [], []]),
     (text_bytes ''xianzai'', [[231, 142, 176, 229, 156, 168], [], [], [], [], [], [], [], []]),
     (text_bytes ''yihou'', [[228, 187, 165, 229, 144, 142], [], [], [], [], [], [], [], []]),
     (text_bytes ''yiqian'', [[228, 187, 165, 229, 137, 141], [], [], [], [], [], [], [], []]),
     (text_bytes ''women'', [[230, 136, 145, 228, 187, 172], [], [], [], [], [], [], [], []]),
     (text_bytes ''taimen'', [[228, 187, 150, 228, 187, 172], [], [], [], [], [], [], [], []]),
     (text_bytes ''shenme'', [[228, 187, 128, 228, 185, 136], [], [], [], [], [], [], [], []]),
     (text_bytes ''zenme'', [[230, 128, 142, 228, 185, 136], [], [], [], [], [], [], [], []]),
     (text_bytes ''weishenme'', [[228, 184, 186, 228, 187, 128, 228, 185, 136], [], [], [], [], [], [], [], []]),
     (text_bytes ''duoshao'', [[229, 164, 154, 229, 176, 145], [], [], [], [], [], [], [], []]),
     (text_bytes ''zher'', [[232, 191, 153, 229, 132, 191], [232, 191, 153, 228, 185, 136], [], [], [], [], [], [], []]),
     (text_bytes ''nar'', [[233, 130, 163, 229, 132, 191], [233, 130, 163, 233, 135, 140], [], [], [], [], [], [], []]),
     (text_bytes ''zailai'', [[229, 134, 141, 230, 157, 165], [], [], [], [], [], [], [], []]),
     (text_bytes ''feichang'', [[233, 157, 158, 229, 184, 184], [], [], [], [], [], [], [], []]),
     (text_bytes ''teshhu'', [[231, 137, 185, 230, 174, 138], [231, 137, 185, 229, 136, 171], [], [], [], [], [], [], []]),
     (text_bytes ''zhongwen'', [[228, 184, 173, 230, 150, 135], [], [], [], [], [], [], [], []]),
     (text_bytes ''yingyu'', [[232, 139, 177, 232, 175, 173], [], [], [], [], [], [], [], []]),
     (text_bytes ''shuxue'', [[230, 149, 176, 229, 173, 166], [], [], [], [], [], [], [], []]),
     (text_bytes ''yuwen'', [[232, 175, 173, 230, 150, 135], [], [], [], [], [], [], [], []]),
     (text_bytes ''lishi'', [[229, 142, 134, 229, 143, 178], [], [], [], [], [], [], [], []]),
     (text_bytes ''dili'', [[229, 156, 176, 231, 144, 134], [], [], [], [], [], [], [], []]),
     (text_bytes ''wuli'', [[231, 137, 169, 231, 144, 134], [], [], [], [], [], [], [], []]),
     (text_bytes ''huaxue'', [[229, 140, 150, 229, 173, 166], [], [], [], [], [], [], [], []]),
     (text_bytes ''shengwu'', [[231, 148, 159, 231, 137, 169], [], [], [], [], [], [], [], []]),
     (text_bytes ''yinle'', [[233, 159, 179, 228, 185, 144], [], [], [], [], [], [], [], []]),
     (text_bytes ''meishu'', [[231, 190, 142, 230, 156, 175], [], [], [], [], [], [], [], []]),
     (text_bytes ''tiyu'', [[228, 189, 147, 232, 130, 178], [], [], [], [], [], [], [], []]),
     (text_bytes ''jisuanji'', [[232, 174, 161, 231, 174, 151, 230, 156, 186], [], [], [], [], [], [], [], []]),
     (text_bytes ''biancheng'', [[231, 188, 150, 231, 168, 139], [], [], [], [], [], [], [], []]),
     (text_bytes ''chixu'', [[230, 140, 129, 231, 187, 173], [], [], [], [], [], [], [], []]),
     (text_bytes ''fazhan'', [[229, 143, 145, 229, 177, 149], [], [], [], [], [], [], [], []]),
     (text_bytes ''jinbu'', [[232, 191, 155, 230, 173, 165], [], [], [], [], [], [], [], []]),
     (text_bytes ''gaige'', [[230, 148, 185, 233, 157, 169], [], [], [], [], [], [], [], []]),
     (text_bytes ''kaifang'', [[229, 188, 128, 230, 148, 190], [], [], [], [], [], [], [], []]),
     (text_bytes ''chuangxin'', [[229, 136, 155, 230, 150, 176], [], [], [], [], [], [], [], []]),
     (text_bytes ''jishu'', [[230, 138, 128, 230, 156, 175], [], [], [], [], [], [], [], []]),
     (text_bytes ''jisuan'', [[232, 174, 161, 231, 174, 151], [], [], [], [], [], [], [], []]),
     (text_bytes ''xinxing'', [[230, 150, 176, 229, 158, 139], [228, 191, 161, 230, 129, 175], [], [], [], [], [], [], []]),
     (text_bytes ''zhineng'', [[230, 153, 186, 232, 131, 189], [229, 143, 170, 232, 131, 189], [], [], [], [], [], [], []]),
     (text_bytes ''hulianwang'', [[228, 186, 146, 232, 129, 148, 231, 189, 145], [], [], [], [], [], [], [], []]),
     (text_bytes ''rensheng'', [[228, 186, 186, 231, 148, 159], [], [], [], [], [], [], [], []]),
     (text_bytes ''shehui'', [[231, 164, 190, 228, 188, 154], [], [], [], [], [], [], [], []]),
     (text_bytes ''guojia'', [[229, 155, 189, 229, 174, 182], [], [], [], [], [], [], [], []]),
     (text_bytes ''minzu'', [[230, 176, 145, 230, 151, 143], [], [], [], [], [], [], [], []]),
     (text_bytes ''wenhua'', [[230, 150, 135, 229, 140, 150], [], [], [], [], [], [], [], []]),
     (text_bytes ''jingji'', [[231, 187, 143, 230, 181, 142], [], [], [], [], [], [], [], []]),
     (text_bytes ''zhengzhi'', [[230, 148, 191, 230, 178, 187], [], [], [], [], [], [], [], []]),
     (text_bytes ''jiaoyu'', [[230, 149, 153, 232, 130, 178], [], [], [], [], [], [], [], []]),
     (text_bytes ''kexue'', [[231, 167, 145, 229, 173, 166], [], [], [], [], [], [], [], []]),
     (text_bytes ''jianshe'', [[229, 187, 186, 232, 174, 190], [], [], [], [], [], [], [], []]),
     (text_bytes ''hexie'', [[229, 146, 140, 232, 176, 144], [], [], [], [], [], [], [], []]),
     (text_bytes ''fengfu'', [[228, 184, 176, 229, 175, 140], [], [], [], [], [], [], [], []]),
     (text_bytes ''xiaolv'', [[230, 149, 136, 231, 142, 135], [], [], [], [], [], [], [], []]),
     (text_bytes ''youxiu'', [[228, 188, 152, 231, 167, 128], [], [], [], [], [], [], [], []]),
     (text_bytes ''bangyang'', [[230, 166, 156, 230, 160, 183], [], [], [], [], [], [], [], []]),
     (text_bytes ''nuli'', [[229, 138, 170, 229, 138, 155], [], [], [], [], [], [], [], []]),
     (text_bytes ''fendou'', [[229, 165, 139, 230, 150, 151], [], [], [], [], [], [], [], []]),
     (text_bytes ''chenggong'', [[230, 136, 144, 229, 138, 159], [], [], [], [], [], [], [], []]),
     (text_bytes ''xiaolv'', [[230, 149, 136, 231, 142, 135], [], [], [], [], [], [], [], []]),
     (text_bytes ''zhuanxin'', [[228, 184, 147, 229, 191, 131], [], [], [], [], [], [], [], []]),
     (text_bytes ''zuoyong'', [[228, 189, 156, 231, 148, 168], [], [], [], [], [], [], [], []]),
     (text_bytes ''fangfa'', [[230, 150, 185, 230, 179, 149], [], [], [], [], [], [], [], []]),
     (text_bytes ''went'', [[233, 151, 174, 233, 162, 152], [231, 168, 179], [], [], [], [], [], [], []]),
     (text_bytes ''jiejue'', [[232, 167, 163, 229, 134, 179], [], [], [], [], [], [], [], []]),
     (text_bytes ''yuanyi'', [[230, 132, 191, 230, 132, 143], [229, 142, 159, 229, 155, 160], [], [], [], [], [], [], []]),
     (text_bytes ''zhunbei'', [[229, 135, 134, 229, 164, 135], [], [], [], [], [], [], [], []]),
     (text_bytes ''kaishi'', [[229, 188, 128, 229, 167, 139], [], [], [], [], [], [], [], []]),
     (text_bytes ''jixu'', [[231, 187, 167, 231, 187, 173], [], [], [], [], [], [], [], []]),
     (text_bytes ''jieshu'', [[231, 187, 147, 230, 157, 159], [], [], [], [], [], [], [], []]),
     ([119, 97, 110, 230, 136, 144], [[229, 174, 140, 230, 136, 144], [], [], [], [], [], [], [], []]),
     (text_bytes ''tongguo'', [[233, 128, 154, 232, 191, 135], [], [], [], [], [], [], [], []]),
     (text_bytes ''genju'', [[230, 160, 185, 230, 141, 174], [], [], [], [], [], [], [], []]),
     (text_bytes ''baohan'', [[229, 140, 133, 229, 144, 171], [], [], [], [], [], [], [], []]),
     (text_bytes ''fanwei'', [[232, 140, 131, 229, 155, 180], [], [], [], [], [], [], [], []]),
     (text_bytes ''jiazhi'', [[228, 187, 183, 229, 128, 188], [], [], [], [], [], [], [], []]),
     (text_bytes ''gongneng'', [[229, 138, 159, 232, 131, 189], [], [], [], [], [], [], [], []]),
     (text_bytes ''tedian'', [[231, 137, 185, 231, 130, 185], [], [], [], [], [], [], [], []]),
     (text_bytes ''youdian'', [[228, 188, 152, 231, 130, 185], [], [], [], [], [], [], [], []]),
     (text_bytes ''quedian'', [[231, 188, 186, 231, 130, 185], [], [], [], [], [], [], [], []]),
     (text_bytes ''fangxiang'', [[230, 150, 185, 229, 144, 145], [], [], [], [], [], [], [], []]),
     (text_bytes ''mubiao'', [[231, 155, 174, 230, 160, 135], [], [], [], [], [], [], [], []]),
     (text_bytes ''renwu'', [[228, 187, 187, 229, 138, 161], [], [], [], [], [], [], [], []]),
     (text_bytes ''guocheng'', [[232, 191, 135, 231, 168, 139], [], [], [], [], [], [], [], []]),
     (text_bytes ''jieguo'', [[231, 187, 147, 230, 158, 156], [], [], [], [], [], [], [], []]),
     (text_bytes ''yuqi'', [[233, 162, 132, 230, 156, 159], [232, 175, 173, 230, 176, 148], [], [], [], [], [], [], []]),
     (text_bytes ''zhunquel'', [[229, 135, 134, 231, 161, 174], [], [], [], [], [], [], [], []]),
     (text_bytes ''kuaisu'', [[229, 191, 171, 233, 128, 159], [], [], [], [], [], [], [], []]),
     (text_bytes ''mansu'', [[230, 133, 162, 233, 128, 159], [], [], [], [], [], [], [], []]),
     (text_bytes ''gaosu'', [[233, 171, 152, 233, 128, 159], [], [], [], [], [], [], [], []]),
     (text_bytes ''diti'', [[228, 189, 142, 233, 128, 159], [], [], [], [], [], [], [], []]),
     (text_bytes ''xianzhi'', [[233, 153, 144, 229, 136, 182], [], [], [], [], [], [], [], []]),
     (text_bytes ''zhuanzhu'', [[228, 184, 147, 230, 179, 168], [], [], [], [], [], [], [], []]),
     (text_bytes ''zhongyao'', [[233, 135, 141, 232, 166, 129], [], [], [], [], [], [], [], []]),
     (text_bytes ''bixu'', [[229, 191, 133, 233, 161, 187], [], [], [], [], [], [], [], []]),
     (text_bytes ''keneng'', [[229, 143, 175, 232, 131, 189], [], [], [], [], [], [], [], []]),
     (text_bytes ''biran'', [[229, 191, 133, 231, 132, 182], [], [], [], [], [], [], [], []]),
     (text_bytes ''ziranz'', [[232, 135, 170, 231, 132, 182], [], [], [], [], [], [], [], []]),
     (text_bytes ''sheji'', [[232, 174, 190, 232, 174, 161], [], [], [], [], [], [], [], []]),
     (text_bytes ''kaifa'', [[229, 188, 128, 229, 143, 145], [], [], [], [], [], [], [], []]),
     (text_bytes ''ceshi'', [[230, 181, 139, 232, 175, 149], [], [], [], [], [], [], [], []]),
     (text_bytes ''bushu'', [[233, 131, 168, 231, 189, 178], [], [], [], [], [], [], [], []]),
     (text_bytes ''yunxing'', [[232, 191, 144, 232, 161, 140], [], [], [], [], [], [], [], []]),
     (text_bytes ''guanli'', [[231, 174, 161, 231, 144, 134], [], [], [], [], [], [], [], []]),
     (text_bytes ''tongzhi'', [[233, 128, 154, 231, 159, 165], [], [], [], [], [], [], [], []]),
     (text_bytes ''jiedai'', [[230, 142, 165, 229, 190, 133], [], [], [], [], [], [], [], []]),
     (text_bytes ''huanying'', [[230, 172, 162, 232, 191, 142], [], [], [], [], [], [], [], []]),
     (text_bytes ''zhichi'', [[230, 148, 175, 230, 140, 129], [], [], [], [], [], [], [], []]),
     (text_bytes ''gansxie'', [[230, 132, 159, 232, 176, 162], [], [], [], [], [], [], [], []]),
     (text_bytes ''qingjiao'', [[232, 175, 183, 230, 149, 153], [], [], [], [], [], [], [], []]),
     (text_bytes ''qingchu'', [[230, 184, 133, 230, 165, 154], [], [], [], [], [], [], [], []]),
     (text_bytes ''mingbai'', [[230, 152, 142, 231, 153, 189], [], [], [], [], [], [], [], []]),
     (text_bytes ''zhidao'', [[231, 159, 165, 233, 129, 147], [], [], [], [], [], [], [], []]),
     (text_bytes ''tingdong'', [[229, 144, 172, 230, 135, 130], [], [], [], [], [], [], [], []]),
     (text_bytes ''shuohua'', [[232, 175, 180, 232, 175, 157], [], [], [], [], [], [], [], []]),
     (text_bytes ''tingjian'', [[229, 144, 172, 232, 167, 129], [], [], [], [], [], [], [], []]),
     (text_bytes ''zhuanzhu'', [[228, 184, 147, 230, 179, 168], [], [], [], [], [], [], [], []]),
     (text_bytes ''fenxin'', [[229, 136, 134, 229, 191, 131], [], [], [], [], [], [], [], []]),
     (text_bytes ''yongxin'', [[231, 148, 168, 229, 191, 131], [], [], [], [], [], [], [], []]),
     (text_bytes ''xuehui'', [[229, 173, 166, 228, 188, 154], [], [], [], [], [], [], [], []]),
     (text_bytes ''zhongshi'', [[233, 135, 141, 232, 167, 134], [229, 191, 160, 229, 174, 158], [], [], [], [], [], [], []]),
     (text_bytes ''zhongyu'', [[231, 187, 136, 228, 186, 142], [229, 191, 160, 228, 186, 142], [], [], [], [], [], [], []]),
     (text_bytes ''jiji'', [[231, 167, 175, 230, 158, 129], [], [], [], [], [], [], [], []]),
     (text_bytes ''liji'', [[231, 171, 139, 229, 141, 179], [], [], [], [], [], [], [], []]),
     (text_bytes ''jishi'', [[229, 143, 138, 230, 151, 182], [229, 141, 179, 230, 151, 182], [], [], [], [], [], [], []]),
     (text_bytes ''yishi'', [[228, 184, 128, 230, 152, 175], [229, 174, 158, 230, 150, 189], [230, 132, 143, 232, 175, 134], [], [], [], [],
       [], []]),
     (text_bytes ''zhengshi'', [[230, 173, 163, 229, 188, 143], [], [], [], [], [], [], [], []]),
     (text_bytes ''zhunshi'', [[229, 135, 134, 230, 151, 182], [], [], [], [], [], [], [], []]),
     (text_bytes ''zhongshi'', [[233, 135, 141, 232, 167, 134], [229, 191, 160, 229, 174, 158], [], [], [], [], [], [], []]),
     (text_bytes ''baoshi'', [[229, 174, 157, 231, 159, 179], [], [], [], [], [], [], [], []]),
     (text_bytes ''shijian'', [[229, 174, 158, 232, 183, 181], [230, 151, 182, 233, 151, 180], [], [], [], [], [], [], []]),
     (text_bytes ''shijia'', [[228, 184, 150, 229, 174, 182], [232, 167, 134, 231, 149, 140], [], [], [], [], [], [], []]),
     (text_bytes ''xiangfa'', [[230, 131, 179, 230, 179, 149], [], [], [], [], [], [], [], []]),
     (text_bytes ''sixiang'', [[230, 128, 157, 230, 131, 179], [], [], [], [], [], [], [], []]),
     (text_bytes ''guannian'', [[232, 167, 130, 229, 191, 181], [], [], [], [], [], [], [], []]),
     (text_bytes ''taidu'', [[230, 128, 129, 229, 186, 166], [], [], [], [], [], [], [], []]),
     (text_bytes ''fangshi'', [[230, 150, 185, 229, 188, 143], [], [], [], [], [], [], [], []]),
     (text_bytes ''shouduan'', [[230, 137, 139, 230, 174, 181], [], [], [], [], [], [], [], []]),
     (text_bytes ''lujing'', [[232, 183, 175, 229, 190, 132], [232, 183, 175, 231, 187, 143], [], [], [], [], [], [], []]),
     (text_bytes ''xianlu'', [[231, 186, 191, 232, 183, 175], [], [], [], [], [], [], [], []]),
     (text_bytes ''guandao'', [[231, 174, 161, 233, 129, 147], [], [], [], [], [], [], [], []]),
     (text_bytes ''tonglu'', [[233, 128, 154, 232, 183, 175], [], [], [], [], [], [], [], []]),
     (text_bytes ''pingtai'', [[229, 185, 179, 229, 143, 176], [], [], [], [], [], [], [], []]),
     (text_bytes ''xitong'', [[231, 179, 187, 231, 187, 159], [], [], [], [], [], [], [], []]),
     (text_bytes ''jicheng'', [[233, 155, 134, 230, 136, 144], [231, 187, 167, 230, 137, 191], [], [], [], [], [], [], []]),
     (text_bytes ''gongxiang'', [[229, 133, 177, 228, 186, 171], [], [], [], [], [], [], [], []]),
     (text_bytes ''fenxiang'', [[229, 136, 134, 228, 186, 171], [], [], [], [], [], [], [], []]),
     (text_bytes ''hulian'', [[228, 186, 146, 232, 129, 148], [], [], [], [], [], [], [], []]),
     (text_bytes ''zhineng'', [[229, 143, 170, 232, 131, 189], [230, 153, 186, 232, 131, 189], [], [], [], [], [], [], []]),
     (text_bytes ''jiazhi'', [[228, 187, 183, 229, 128, 188], [], [], [], [], [], [], [], []]),
     (text_bytes ''zhongzhi'', [[231, 187, 136, 230, 173, 162], [231, 167, 141, 230, 164, 141], [], [], [], [], [], [], []]),
     (text_bytes ''zhongduan'', [[228, 184, 173, 230, 150, 173], [], [], [], [], [], [], [], []]),
     (text_bytes ''zhongxin'', [[233, 135, 141, 230, 150, 176], [228, 184, 173, 229, 191, 131], [], [], [], [], [], [], []]),
     (text_bytes ''zhongyu'', [[231, 187, 136, 228, 186, 142], [229, 191, 160, 228, 186, 142], [], [], [], [], [], [], []]),
     (text_bytes ''changshi'', [[229, 176, 157, 232, 175, 149], [], [], [], [], [], [], [], []]),
     (text_bytes ''changjian'', [[229, 184, 184, 232, 167, 129], [], [], [], [], [], [], [], []]),
     (text_bytes ''jingchang'', [[231, 187, 143, 229, 184, 184], [], [], [], [], [], [], [], []]),
     (text_bytes ''yiban'', [[228, 184, 128, 232, 136, 172], [], [], [], [], [], [], [], []]),
     (text_bytes ''teshu'', [[231, 137, 185, 230, 174, 138], [231, 137, 185, 229, 136, 171], [], [], [], [], [], [], []]),
     (text_bytes ''teshi'', [[231, 137, 185, 228, 186, 139], [], [], [], [], [], [], [], []]),
     (text_bytes ''yiban'', [[228, 184, 128, 232, 136, 172], [], [], [], [], [], [], [], []]),
     (text_bytes ''guifan'', [[232, 167, 132, 232, 140, 131], [], [], [], [], [], [], [], []]),
     (text_bytes ''biaozhun'', [[230, 160, 135, 229, 135, 134], [], [], [], [], [], [], [], []]),
     (text_bytes ''zhineng'', [[229, 143, 170, 232, 131, 189], [230, 153, 186, 232, 131, 189], [], [], [], [], [], [], []]),
     (text_bytes ''zhuti'', [[228, 184, 187, 233, 162, 152], [], [], [], [], [], [], [], []]),
     (text_bytes ''zhongdian'', [[233, 135, 141, 231, 130, 185], [], [], [], [], [], [], [], []]),
     (text_bytes ''yidian'', [[228, 184, 128, 231, 130, 185], [], [], [], [], [], [], [], []]),
     (text_bytes ''liangdian'', [[228, 184, 164, 231, 130, 185], [], [], [], [], [], [], [], []]),
     (text_bytes ''sandidian'', [[228, 184, 137, 231, 130, 185], [], [], [], [], [], [], [], []]),
     (text_bytes ''sid'', [[229, 155, 155, 231, 130, 185], [230, 128, 157], [230, 173, 187], [], [], [], [], [], []]),
     (text_bytes ''wud'', [[228, 186, 148, 231, 130, 185], [230, 151, 160], [228, 186, 148], [], [], [], [], [], []]),
     (text_bytes ''liud'', [[229, 133, 173, 231, 130, 185], [229, 133, 173], [230, 186, 156], [], [], [], [], [], []]),
     (text_bytes ''qid'', [[228, 184, 131, 231, 130, 185], [228, 184, 131], [232, 181, 183], [], [], [], [], [], []]),
     (text_bytes ''bad'', [[229, 133, 171, 231, 130, 185], [229, 133, 171], [230, 138, 138], [], [], [], [], [], []]),
     (text_bytes ''jiud'', [[228, 185, 157, 231, 130, 185], [228, 185, 157], [229, 176, 177], [], [], [], [], [], []]),
     (text_bytes ''shid'', [[229, 141, 129, 231, 130, 185], [230, 152, 175], [229, 141, 129], [], [], [], [], [], []])]"

definition punc_table :: "(u8 \<times> u8 list) list" where
  "punc_table =
    [(of_char (CHR ''.''), [227, 128, 130]), (of_char (CHR '',''), [239, 188, 140]),
     (of_char (CHR '':''), [239, 188, 154]), (of_char (CHR '';''), [239, 188, 155]),
     (of_char (CHR 0x27), [226, 128, 152]), (of_char (CHR 0x22), [226, 128, 157]),
     (of_char (CHR ''<''), [227, 128, 138]), (of_char (CHR ''>''), [227, 128, 139]),
     (of_char (CHR ''?''), [239, 188, 159]), (of_char (CHR ''!''), [239, 188, 129]),
     (of_char (CHR ''(''), [239, 188, 136]), (of_char (CHR '')''), [239, 188, 137]),
     (of_char (CHR ''[''), [227, 128, 144]), (of_char (CHR '']''), [227, 128, 145]),
     (of_char (CHR ''-''), [226, 128, 148]), (of_char (CHR ''/''), [227, 128, 129])]"

end
