(* ===== verification/Input.thy ===== *)
theory Input
  imports Imdata Vfs
begin

unbundle bit_operations_syntax

text \<open>
  The keyboard: the input method (\<open>drivers/im.c\<close>), what it needs of the font (\<open>drivers/font.c\<close>), and the
  decoding of scancodes into a ring of characters (\<open>drivers/ps2kbd.c\<close>).

  Characters are bytes.  What goes to the serial line is the list \<open>im_out\<close>, what is drawn on the screen the list
  \<open>im_screen\<close> of drawing calls with their arguments; the pixels are not modelled.  The field \<open>im_fb\<close> is the
  size of the screen, if there is one.  The interrupt handler is a function of the byte it reads from
  the data port; \<open>None\<close> is a division by zero.  \<open>brights_tty_write_str\<close> sets up the port on its first call,
  which changes nothing of what is sent.
\<close>

subsection \<open>UTF-8\<close>

definition byte_at :: "u8 list \<Rightarrow> nat \<Rightarrow> u8" where
  "byte_at str i = (if i < length str then str ! i else 0)"

text \<open>The code point at the start of a string that ends before its zero byte, and its length.\<close>

definition brights_utf8_to_codepoint :: "u8 list \<Rightarrow> u32 \<times> nat" where
  "brights_utf8_to_codepoint str =
     (let c = byte_at str 0; b1 = byte_at str 1; b2 = byte_at str 2; b3 = byte_at str 3 in
      if c < 0x80 then (ucast c, 1)
      else if c AND 0xE0 = 0xC0 \<and> b1 \<noteq> 0
      then (push_bit 6 (ucast (c AND 0x1F)) OR ucast (b1 AND 0x3F), 2)
      else if c AND 0xF0 = 0xE0 \<and> b1 \<noteq> 0 \<and> b2 \<noteq> 0
      then (push_bit 12 (ucast (c AND 0x0F)) OR push_bit 6 (ucast (b1 AND 0x3F)) OR ucast (b2 AND 0x3F), 3)
      else if c AND 0xF8 = 0xF0 \<and> b1 \<noteq> 0 \<and> b2 \<noteq> 0 \<and> b3 \<noteq> 0
      then (push_bit 18 (ucast (c AND 0x07)) OR push_bit 12 (ucast (b1 AND 0x3F)) OR push_bit 6 (ucast (b2 AND 0x3F))
              OR ucast (b3 AND 0x3F), 4)
      else (ucast c, 1))"

lemma utf8_len_pos: "0 < snd (brights_utf8_to_codepoint str)"
  by (simp add: brights_utf8_to_codepoint_def Let_def)

definition FONT_WIDTH :: int where "FONT_WIDTH = 16"
definition FONT_HEIGHT :: int where "FONT_HEIGHT = 16"

function brights_font_string_width :: "u8 list \<Rightarrow> int" where
  "brights_font_string_width str =
     (if str = [] then 0
      else FONT_WIDTH + brights_font_string_width (drop (snd (brights_utf8_to_codepoint str)) str))"
  by auto
termination
  by (relation "measure length") (auto simp: utf8_len_pos)

declare brights_font_string_width.simps [simp del]

subsection \<open>The input method\<close>

type_synonym color = "u8 \<times> u8 \<times> u8"

datatype draw = FillRect int int int int color | DrawString int int "u8 list" u32 u32

record im =
  im_active :: bool
  pinyin_buf :: "u8 list"
  pinyin_len :: nat
  candidates :: "u8 list list"
  candidate_count :: nat
  selected_candidate :: nat
  im_out :: "u8 list"
  im_screen :: "draw list"
  im_fb :: "(int \<times> int) option"

definition IM_MAX_PINYIN :: nat where "IM_MAX_PINYIN = 16"
definition IM_MAX_CANDIDATES :: nat where "IM_MAX_CANDIDATES = 10"
definition IM_CANDIDATE_WIDTH :: int where "IM_CANDIDATE_WIDTH = 80"

definition brights_tty_write_str :: "u8 list \<Rightarrow> im \<Rightarrow> im" where
  "brights_tty_write_str s m = m\<lparr>im_out := im_out m @ concat (map (\<lambda>c. brights_serial_write_ascii [c, 0]) s)\<rparr>"

text \<open>A spelling matches what has been typed when they agree as far as the shorter of the two goes.\<close>

definition row_matches :: "u8 list \<Rightarrow> im \<Rightarrow> bool" where
  "row_matches k m \<longleftrightarrow> byte_at k 0 = pinyin_buf m ! 0
     \<and> list_all (\<lambda>j. k ! j = pinyin_buf m ! j) [0..<min (pinyin_len m) (length k)]"

fun add_candidates :: "u8 list list \<Rightarrow> im \<Rightarrow> im" where
  "add_candidates [] m = m"
| "add_candidates (e # es) m =
     (if e = [] \<or> candidate_count m \<ge> IM_MAX_CANDIDATES then m
      else add_candidates es (m\<lparr>candidates := (candidates m)[candidate_count m := take 15 e],
                                candidate_count := candidate_count m + 1\<rparr>))"

fun search_rows :: "(u8 list \<times> u8 list list) list \<Rightarrow> im \<Rightarrow> im" where
  "search_rows [] m = m"
| "search_rows ((k, es) # rows) m =
     (if candidate_count m \<ge> IM_MAX_CANDIDATES then m
      else search_rows rows (if row_matches k m then add_candidates es m else m))"

fun add_common :: "u8 list list \<Rightarrow> im \<Rightarrow> im" where
  "add_common [] m = m"
| "add_common (e # es) m =
     (if candidate_count m \<ge> IM_MAX_CANDIDATES then m
      else add_common es (m\<lparr>candidates := (candidates m)[candidate_count m := e],
                            candidate_count := candidate_count m + 1\<rparr>))"

definition search_pinyin :: "im \<Rightarrow> im" where
  "search_pinyin m =
     (let m1 = m\<lparr>candidate_count := 0, selected_candidate := 0\<rparr> in
      if pinyin_len m1 = 0 then m1
      else
        (let m2 = search_rows pinyin_map m1
         in if candidate_count m2 = 0 \<and> pinyin_len m2 \<ge> 2 then add_common (take 50 common_chars) m2 else m2))"

definition brights_im_init :: "im \<Rightarrow> im" where
  "brights_im_init m = m\<lparr>im_active := False, pinyin_len := 0, candidate_count := 0, selected_candidate := 0\<rparr>"

definition brights_im_clear :: "im \<Rightarrow> im" where
  "brights_im_clear m =
     m\<lparr>pinyin_len := 0, pinyin_buf := (pinyin_buf m)[0 := 0], candidate_count := 0, selected_candidate := 0\<rparr>"

definition brights_im_toggle :: "im \<Rightarrow> im" where
  "brights_im_toggle m =
     (let m1 = m\<lparr>im_active := \<not> im_active m\<rparr> in if \<not> im_active m1 then brights_im_clear m1 else m1)"

definition brights_im_get_candidate :: "int \<Rightarrow> im \<Rightarrow> u8 list" where
  "brights_im_get_candidate index m =
     (if index < 0 \<or> index \<ge> int (candidate_count m) then [] else candidates m ! nat index)"

definition brights_im_select_candidate :: "int \<Rightarrow> im \<Rightarrow> im" where
  "brights_im_select_candidate index m =
     (if index < 0 \<or> index \<ge> int (candidate_count m) then m
      else brights_im_clear (brights_tty_write_str (candidates m ! nat index) m))"

definition brights_im_commit :: "im \<Rightarrow> im" where
  "brights_im_commit m = brights_im_clear (brights_tty_write_str (take (pinyin_len m) (pinyin_buf m)) m)"

definition brights_im_backspace :: "im \<Rightarrow> im" where
  "brights_im_backspace m =
     (if pinyin_len m > 0 then
        (let n = pinyin_len m - 1; m1 = m\<lparr>pinyin_len := n, pinyin_buf := (pinyin_buf m)[n := 0]\<rparr>
         in if n > 0 then search_pinyin m1 else m1\<lparr>candidate_count := 0\<rparr>)
      else m)"

definition lower :: "u8 \<Rightarrow> bool" where
  "lower c \<longleftrightarrow> 97 \<le> c \<and> c \<le> 122"

definition brights_im_handle_char :: "u8 \<Rightarrow> im \<Rightarrow> im" where
  "brights_im_handle_char ch m =
     (if \<not> im_active m then m
      else if lower ch then
        (if pinyin_len m < IM_MAX_PINYIN - 1 then
           search_pinyin (m\<lparr>pinyin_buf := (pinyin_buf m)[pinyin_len m := ch, pinyin_len m + 1 := 0],
                            pinyin_len := pinyin_len m + 1\<rparr>)
         else m)
      else if ch = 8 then brights_im_backspace m
      else if ch = 10 \<or> ch = 13 then
        (if candidate_count m > 0 then brights_im_select_candidate (int (selected_candidate m)) m
         else brights_im_commit m)
      else m)"

text \<open>With no candidates the processor divides by zero.\<close>

definition brights_im_handle_special :: "int \<Rightarrow> im \<Rightarrow> im option" where
  "brights_im_handle_special key m =
     (if \<not> im_active m then Some m
      else if key = 1 then
        (if candidate_count m = 0 then None
         else Some (m\<lparr>selected_candidate := (selected_candidate m + 1) mod candidate_count m\<rparr>))
      else if key = 2 then
        (if candidate_count m = 0 then None
         else Some (m\<lparr>selected_candidate := (selected_candidate m + candidate_count m - 1) mod candidate_count m\<rparr>))
      else if 49 \<le> key \<and> key \<le> 57 \<and> key - 49 < int (candidate_count m)
      then Some (brights_im_select_candidate (key - 49) m)
      else if key = 48 \<and> 9 < candidate_count m then Some (brights_im_select_candidate 9 m)
      else Some m)"

definition rgb :: "color \<Rightarrow> u32" where
  "rgb col = (case col of (r, g, b) \<Rightarrow> ucast r OR push_bit 8 (ucast g) OR push_bit 16 (ucast b))"

text \<open>The candidates from number \<open>i\<close> on, as far as the screen is wide.\<close>

fun draw_from :: "nat list \<Rightarrow> int \<Rightarrow> int \<Rightarrow> int \<Rightarrow> im \<Rightarrow> draw list" where
  "draw_from [] x_offset width y m = []"
| "draw_from (i # is) x_offset width y m =
     (let x = x_offset + int i * IM_CANDIDATE_WIDTH in
      if x + IM_CANDIDATE_WIDTH > width then []
      else
        (if i = selected_candidate m
         then [FillRect x (y + 2) (IM_CANDIDATE_WIDTH - 4) FONT_HEIGHT (170, 0, 0),
               DrawString (x + 4) (y + 2) (candidates m ! i) (rgb (255, 255, 255)) (rgb (170, 0, 0))]
         else [DrawString (x + 2) (y + 2) [49 + of_nat i, 46] (rgb (136, 136, 136)) (rgb (208, 255, 255)),
               DrawString (x + 20) (y + 2) (candidates m ! i) (rgb (0, 0, 0)) (rgb (208, 255, 255))])
        @ draw_from is x_offset width y m)"

definition brights_im_draw_candidates :: "im \<Rightarrow> im" where
  "brights_im_draw_candidates m =
     (case im_fb m of
        None \<Rightarrow> m
      | Some (width, height) \<Rightarrow>
          (let y = height - FONT_HEIGHT - 2;
               typed = take (pinyin_len m) (pinyin_buf m);
               bar = FillRect 0 y width (FONT_HEIGHT + 4) (208, 255, 255);
               rest = (if pinyin_len m > 0
                       then DrawString 4 (y + 2) typed (rgb (0, 0, 0)) (rgb (208, 255, 255))
                            # draw_from [0..<candidate_count m] (brights_font_string_width (typed @ [32, 32]) + 8) width y m
                       else [])
           in m\<lparr>im_screen := im_screen m @ bar # rest\<rparr>))"

definition brights_im_convert_punc :: "u8 \<Rightarrow> u8 list" where
  "brights_im_convert_punc en = (case map_of punc_table en of None \<Rightarrow> [] | Some cn \<Rightarrow> cn)"

subsection \<open>The keyboard\<close>

record ps2kbd =
  kbd_buf :: "u8 list"
  kbd_head :: nat
  kbd_tail :: nat
  ps2_shift :: bool
  ps2_ctrl :: bool
  ps2_alt :: bool
  ps2_caps_lock :: bool
  ps2_extended :: bool
  ps2_extended2 :: bool
  kbd_im :: im

definition KBD_BUF_SIZE :: nat where "KBD_BUF_SIZE = 256"
definition KBD_KEY_UP :: u8 where "KBD_KEY_UP = 0x80"
definition KBD_KEY_DOWN :: u8 where "KBD_KEY_DOWN = 0x81"
definition KBD_KEY_LEFT :: u8 where "KBD_KEY_LEFT = 0x82"
definition KBD_KEY_RIGHT :: u8 where "KBD_KEY_RIGHT = 0x83"
definition KBD_KEY_HOME :: u8 where "KBD_KEY_HOME = 0x84"
definition KBD_KEY_END :: u8 where "KBD_KEY_END = 0x85"
definition KBD_KEY_PGUP :: u8 where "KBD_KEY_PGUP = 0x86"
definition KBD_KEY_PGDN :: u8 where "KBD_KEY_PGDN = 0x87"
definition KBD_KEY_INSERT :: u8 where "KBD_KEY_INSERT = 0x88"
definition KBD_KEY_DELETE :: u8 where "KBD_KEY_DELETE = 0x89"

text \<open>The function keys F1 to F12: scancode and key code.\<close>

definition function_keys :: "(u8 \<times> u8) list" where
  "function_keys =
    [(0x3B, 0x8A), (0x3C, 0x8B), (0x3D, 0x8C), (0x3E, 0x8D), (0x3F, 0x8E), (0x40, 0x8F), (0x41, 0x90),
     (0x42, 0x91), (0x43, 0x92), (0x44, 0x93), (0x57, 0x94), (0x58, 0x95)]"

definition upd_im :: "(im \<Rightarrow> im) \<Rightarrow> ps2kbd \<Rightarrow> ps2kbd" where
  "upd_im f k = k\<lparr>kbd_im := f (kbd_im k)\<rparr>"

definition letter_with_case :: "u8 \<Rightarrow> ps2kbd \<Rightarrow> u8" where
  "letter_with_case base k = (if ps2_shift k \<noteq> ps2_caps_lock k then base - 32 else base)"

definition kbd_buf_put :: "u8 \<Rightarrow> ps2kbd \<Rightarrow> ps2kbd" where
  "kbd_buf_put ch k =
     (let nx = (kbd_head k + 1) mod KBD_BUF_SIZE in
      if nx \<noteq> kbd_tail k then k\<lparr>kbd_buf := (kbd_buf k)[kbd_head k := ch], kbd_head := nx\<rparr> else k)"

text \<open>The keys whose character depends on the shift key (with shift, without), the letters, and the others.\<close>

definition shift_keys :: "(u8 \<times> char \<times> char) list" where
  "shift_keys =
    [(0x02, CHR ''!'', CHR ''1''), (0x03, CHR ''@'', CHR ''2''), (0x04, CHR ''#'', CHR ''3''),
     (0x05, CHR ''$'', CHR ''4''), (0x06, CHR ''%'', CHR ''5''), (0x07, CHR ''^'', CHR ''6''),
     (0x08, CHR ''&'', CHR ''7''), (0x09, CHR ''*'', CHR ''8''), (0x0A, CHR ''('', CHR ''9''),
     (0x0B, CHR '')'', CHR ''0''), (0x0C, CHR ''_'', CHR ''-''), (0x0D, CHR ''+'', CHR ''=''),
     (0x1A, CHR ''{'', CHR ''[''), (0x1B, CHR ''}'', CHR '']''), (0x27, CHR '':'', CHR '';''),
     (0x28, CHR 0x22, CHR 0x27), (0x29, CHR ''~'', CHR 0x60), (0x2B, CHR ''|'', CHR 0x5C),
     (0x33, CHR ''<'', CHR '',''), (0x34, CHR ''>'', CHR ''.''), (0x35, CHR ''?'', CHR ''/'')]"

definition letter_keys :: "(u8 \<times> char) list" where
  "letter_keys =
    [(0x10, CHR ''q''), (0x11, CHR ''w''), (0x12, CHR ''e''), (0x13, CHR ''r''), (0x14, CHR ''t''),
     (0x15, CHR ''y''), (0x16, CHR ''u''), (0x17, CHR ''i''), (0x18, CHR ''o''), (0x19, CHR ''p''),
     (0x1E, CHR ''a''), (0x1F, CHR ''s''), (0x20, CHR ''d''), (0x21, CHR ''f''), (0x22, CHR ''g''),
     (0x23, CHR ''h''), (0x24, CHR ''j''), (0x25, CHR ''k''), (0x26, CHR ''l''), (0x2C, CHR ''z''),
     (0x2D, CHR ''x''), (0x2E, CHR ''c''), (0x2F, CHR ''v''), (0x30, CHR ''b''), (0x31, CHR ''n''),
     (0x32, CHR ''m'')]"

definition plain_keys :: "(u8 \<times> u8) list" where
  "plain_keys = [(0x1C, 10), (0x39, 32), (0x0E, 8), (0x0F, 9), (0x01, 27)]"

definition ps2_scancode_to_ascii :: "u8 \<Rightarrow> ps2kbd \<Rightarrow> u8 option" where
  "ps2_scancode_to_ascii sc k =
     (case map_of shift_keys sc of
        Some (hi, lo) \<Rightarrow> Some (of_char (if ps2_shift k then hi else lo))
      | None \<Rightarrow>
          (case map_of letter_keys sc of
             Some l \<Rightarrow> Some (letter_with_case (of_char l) k)
           | None \<Rightarrow> map_of plain_keys sc))"

text \<open>The keys behind the prefix \<open>E0\<close>: the arrows move among the candidates while the input method is active.\<close>

definition arrow_key :: "int \<Rightarrow> u8 \<Rightarrow> ps2kbd \<Rightarrow> ps2kbd option" where
  "arrow_key dir code k =
     (if im_active (kbd_im k) then
        (case brights_im_handle_special dir (kbd_im k) of
           None \<Rightarrow> None
         | Some m \<Rightarrow> Some (k\<lparr>kbd_im := brights_im_draw_candidates m\<rparr>))
      else Some (kbd_buf_put code k))"

definition extended_key :: "u8 \<Rightarrow> ps2kbd \<Rightarrow> ps2kbd option" where
  "extended_key sc k =
     (if sc = 0x1C then Some (kbd_buf_put 10 k)
      else if sc = 0x48 then arrow_key 2 KBD_KEY_UP k
      else if sc = 0x4B then arrow_key 2 KBD_KEY_LEFT k
      else if sc = 0x4D then arrow_key 1 KBD_KEY_RIGHT k
      else if sc = 0x50 then arrow_key 1 KBD_KEY_DOWN k
      else if sc = 0x52 then Some (kbd_buf_put KBD_KEY_INSERT k)
      else if sc = 0x53 then Some (kbd_buf_put KBD_KEY_DELETE k)
      else if sc = 0x47 then Some (kbd_buf_put KBD_KEY_HOME k)
      else if sc = 0x4F then Some (kbd_buf_put KBD_KEY_END k)
      else if sc = 0x49 then Some (kbd_buf_put KBD_KEY_PGUP k)
      else if sc = 0x51 then Some (kbd_buf_put KBD_KEY_PGDN k)
      else if sc = 0x5A then Some (kbd_buf_put 10 k)
      else Some k)"

text \<open>The punctuation that is replaced, and what a decoded character does while the input method is active.\<close>

definition im_punctuation :: "u8 list" where
  "im_punctuation = text_bytes ''.,:;'' @ [0x27, 0x22] @ text_bytes ''<>?!()[]-_/''"

definition im_key :: "u8 \<Rightarrow> ps2kbd \<Rightarrow> ps2kbd" where
  "im_key ch k =
     (let m = kbd_im k; n = candidate_count m in
      if lower ch then upd_im (\<lambda>m. brights_im_draw_candidates (brights_im_handle_char ch m)) k
      else if ch = 8 then upd_im (\<lambda>m. brights_im_draw_candidates (brights_im_backspace m)) k
      else if ch = 10 then
        upd_im (if n > 0 then brights_im_select_candidate (int n - 1) else brights_im_commit) k
      else if ch = 32 then upd_im (if n > 0 then brights_im_select_candidate 0 else brights_im_commit) k
      else if 49 \<le> ch \<and> ch \<le> 57 then upd_im (\<lambda>m. brights_im_draw_candidates (brights_im_handle_char ch m)) k
      else if ch \<in> set im_punctuation then
        (let k1 = upd_im brights_im_commit k in
         case brights_im_convert_punc ch of
           [] \<Rightarrow> kbd_buf_put ch k1
         | [c0] \<Rightarrow> kbd_buf_put c0 k1
         | c0 # c1 # _ \<Rightarrow> kbd_buf_put c1 (kbd_buf_put c0 k1))
      else kbd_buf_put ch (upd_im brights_im_commit k))"

definition brights_ps2kbd_irq_handler :: "u8 \<Rightarrow> ps2kbd \<Rightarrow> ps2kbd option" where
  "brights_ps2kbd_irq_handler sc k =
     (if sc = 0xE0 then Some (k\<lparr>ps2_extended := True\<rparr>)
      else if sc = 0xE1 then Some (k\<lparr>ps2_extended2 := True\<rparr>)
      else if sc AND 0x80 \<noteq> 0 then
        (let make = sc AND 0x7F in
         Some (k\<lparr>ps2_shift := (if make = 0x2A \<or> make = 0x36 then False else ps2_shift k),
                 ps2_ctrl := (if make = 0x1D then False else ps2_ctrl k),
                 ps2_alt := (if make = 0x38 then False else ps2_alt k),
                 ps2_extended := False, ps2_extended2 := False\<rparr>))
      else if sc = 0x2A \<or> sc = 0x36 then Some (k\<lparr>ps2_shift := True\<rparr>)
      else if sc = 0x1D then Some (k\<lparr>ps2_ctrl := True\<rparr>)
      else if sc = 0x38 then Some (k\<lparr>ps2_alt := True\<rparr>)
      else if sc = 0x3A then Some (k\<lparr>ps2_caps_lock := \<not> ps2_caps_lock k\<rparr>)
      else if sc = 0x39 \<and> ps2_shift k then
        Some (upd_im (\<lambda>m. let m1 = brights_im_toggle m in if im_active m1 then brights_im_draw_candidates m1 else m1) k)
      else if ps2_extended2 k then Some (k\<lparr>ps2_extended2 := False\<rparr>)
      else if ps2_extended k then extended_key sc (k\<lparr>ps2_extended := False\<rparr>)
      else
        (case map_of function_keys sc of
           Some code \<Rightarrow> Some (kbd_buf_put code k)
         | None \<Rightarrow>
             (if im_active (kbd_im k) \<and> 0x02 \<le> sc \<and> sc \<le> 0x0A then
                (let n = uint sc - 1 in
                 Some (if n \<le> int (candidate_count (kbd_im k)) then upd_im (brights_im_select_candidate (n - 1)) k else k))
              else
                (case ps2_scancode_to_ascii sc k of
                   None \<Rightarrow> Some k
                 | Some ch \<Rightarrow> Some (if im_active (kbd_im k) then im_key ch k else kbd_buf_put ch k)))))"

text \<open>The reset; what is still waiting in the controller is thrown away.\<close>

definition brights_ps2kbd_init :: "ps2kbd \<Rightarrow> ps2kbd" where
  "brights_ps2kbd_init k =
     k\<lparr>ps2_shift := False, ps2_ctrl := False, ps2_alt := False, ps2_caps_lock := False, ps2_extended := False,
       ps2_extended2 := False, kbd_head := 0, kbd_tail := 0\<rparr>"

definition brights_ps2kbd_has_char :: "ps2kbd \<Rightarrow> bool" where
  "brights_ps2kbd_has_char k \<longleftrightarrow> kbd_head k \<noteq> kbd_tail k"

definition brights_ps2kbd_read_char :: "ps2kbd \<Rightarrow> ps2kbd \<times> u8 option" where
  "brights_ps2kbd_read_char k =
     (if kbd_head k = kbd_tail k then (k, None)
      else (k\<lparr>kbd_tail := (kbd_tail k + 1) mod KBD_BUF_SIZE\<rparr>, Some (kbd_buf k ! kbd_tail k)))"

end
