(* ===== verification/Tty.thy ===== *)
theory Tty
  imports Input
begin

unbundle bit_operations_syntax

text \<open>
  The terminal (\<open>drivers/tty.c\<close>): lines are edited in cooked mode and handed out character by character.
  The field \<open>ser_in\<close> holds the bytes that have arrived on the serial line.  Interrupts come between two
  calls, or while the blocking read halts; each wakes it with one \<open>event\<close>.  \<open>None\<close> is an access outside
  \<open>line_buf\<close>, or a read that waits for ever.
\<close>

record tty =
  tty_kbd :: ps2kbd
  tty_ready :: bool
  tty_mode :: int
  line_buf :: "u8 list"
  line_len :: nat
  line_ready :: bool
  line_pos :: nat
  ser_in :: "u8 list"

definition TTY_MODE_RAW :: int where "TTY_MODE_RAW = 0"
definition TTY_MODE_COOKED :: int where "TTY_MODE_COOKED = 1"
definition TTY_LINE_BUF :: nat where "TTY_LINE_BUF = 256"

definition brights_tty_init :: "tty \<Rightarrow> tty" where
  "brights_tty_init t = t\<lparr>tty_ready := True\<rparr>"

definition brights_tty_set_mode :: "int \<Rightarrow> tty \<Rightarrow> tty" where
  "brights_tty_set_mode mode t = t\<lparr>tty_mode := mode\<rparr>"

definition brights_tty_get_mode :: "tty \<Rightarrow> int" where
  "brights_tty_get_mode t = tty_mode t"

definition brights_tty_write_char :: "u8 \<Rightarrow> tty \<Rightarrow> tty" where
  "brights_tty_write_char ch t =
     t\<lparr>tty_kbd := upd_im (\<lambda>m. m\<lparr>im_out := im_out m @ brights_serial_write_ascii [ch, 0]\<rparr>) (tty_kbd t)\<rparr>"

definition brights_serial_read_byte :: "tty \<Rightarrow> tty \<times> u8 option" where
  "brights_serial_read_byte t =
     (case ser_in t of [] \<Rightarrow> (t, None) | b # bs \<Rightarrow> (t\<lparr>ser_in := bs\<rparr>, Some b))"

definition put_line :: "u8 \<Rightarrow> tty \<Rightarrow> tty" where
  "put_line ch t = t\<lparr>line_buf := (line_buf t)[line_len t := ch], line_len := line_len t + 1\<rparr>"

text \<open>The four spaces of a tab, as far as the buffer has room.\<close>

fun put_tab :: "nat \<Rightarrow> tty \<Rightarrow> tty" where
  "put_tab 0 t = t"
| "put_tab (Suc n) t =
     (if line_len t < TTY_LINE_BUF - 2 then put_tab n (brights_tty_write_char 32 (put_line 32 t)) else t)"

definition cooked_process_char :: "u8 \<Rightarrow> tty \<Rightarrow> tty option" where
  "cooked_process_char ch t =
     (if ch = 8 \<or> ch = 0x7F then
        Some (if line_len t > 0
              then brights_tty_write_char 8 (brights_tty_write_char 32 (brights_tty_write_char 8
                     (t\<lparr>line_len := line_len t - 1\<rparr>)))
              else t)
      else if ch = 10 \<or> ch = 13 then
        (if line_len t + 1 \<ge> TTY_LINE_BUF then None
         else
           (let t1 = put_line 10 t
            in Some (brights_tty_write_char 10
                 (t1\<lparr>line_buf := (line_buf t1)[line_len t1 := 0], line_ready := True, line_pos := 0\<rparr>))))
      else if ch = 27 then
        Some (brights_tty_write_char 10 (t\<lparr>line_len := 0, line_buf := (line_buf t)[0 := 0]\<rparr>))
      else if ch = 9 then Some (put_tab 4 t)
      else if line_len t < TTY_LINE_BUF - 2 then Some (brights_tty_write_char ch (put_line ch t))
      else Some t)"

text \<open>The next character of a finished line.\<close>

definition take_ready :: "tty \<Rightarrow> tty \<times> u8 option" where
  "take_ready t =
     (if line_ready t \<and> line_pos t < line_len t then
        (let ch = line_buf t ! line_pos t; t1 = t\<lparr>line_pos := line_pos t + 1\<rparr>
         in (if line_pos t1 \<ge> line_len t1 then t1\<lparr>line_ready := False, line_len := 0, line_pos := 0\<rparr> else t1, Some ch))
      else (t, None))"

definition feed :: "u8 option \<Rightarrow> tty \<Rightarrow> tty option" where
  "feed c t = (case c of None \<Rightarrow> Some t | Some ch \<Rightarrow> cooked_process_char ch t)"

definition brights_tty_read_char :: "tty \<Rightarrow> (tty \<times> u8 option) option" where
  "brights_tty_read_char t0 =
     (let t = brights_tty_init t0 in
      if tty_mode t = TTY_MODE_COOKED then
        (case take_ready t of
           (t1, Some ch) \<Rightarrow> Some (t1, Some ch)
         | (t1, None) \<Rightarrow>
             (case brights_ps2kbd_read_char (tty_kbd t1) of
                (k, kc) \<Rightarrow>
                  (case feed kc (t1\<lparr>tty_kbd := k\<rparr>) of
                     None \<Rightarrow> None
                   | Some t2 \<Rightarrow>
                       (case brights_serial_read_byte t2 of
                          (t3, sc) \<Rightarrow> (case feed sc t3 of None \<Rightarrow> None | Some t4 \<Rightarrow> Some (take_ready t4))))))
      else
        (case brights_ps2kbd_read_char (tty_kbd t) of
           (k, Some ch) \<Rightarrow> Some (t\<lparr>tty_kbd := k\<rparr>, Some ch)
         | (k, None) \<Rightarrow> Some (brights_serial_read_byte (t\<lparr>tty_kbd := k\<rparr>))))"

datatype event = Key u8 | SerialByte u8

definition deliver :: "event \<Rightarrow> tty \<Rightarrow> tty option" where
  "deliver e t =
     (case e of
        Key sc \<Rightarrow> map_option (\<lambda>k. t\<lparr>tty_kbd := k\<rparr>) (brights_ps2kbd_irq_handler sc (tty_kbd t))
      | SerialByte b \<Rightarrow> Some (t\<lparr>ser_in := ser_in t @ [b]\<rparr>))"

text \<open>The blocking read, for the events that arrive from now on; the last result are those not yet used.\<close>

fun brights_tty_read_char_blocking :: "event list \<Rightarrow> tty \<Rightarrow> (tty \<times> u8 \<times> event list) option" where
  "brights_tty_read_char_blocking [] t =
     (case brights_tty_read_char t of Some (t1, Some ch) \<Rightarrow> Some (t1, ch, []) | _ \<Rightarrow> None)"
| "brights_tty_read_char_blocking (e # es) t =
     (case brights_tty_read_char t of
        None \<Rightarrow> None
      | Some (t1, Some ch) \<Rightarrow> Some (t1, ch, e # es)
      | Some (t1, None) \<Rightarrow>
          (case deliver e t1 of None \<Rightarrow> None | Some t2 \<Rightarrow> brights_tty_read_char_blocking es t2))"

end
