(* ===== verification/Inputprops.thy ===== *)
theory Inputprops
  imports Tty Kutil
begin

unbundle bit_operations_syntax

text \<open>
  Properties of the keyboard and the terminal: the ring of characters is a queue, the state of the
  input method stays inside its arrays, every character of the layout can be typed, and the line
  editor of cooked mode against a specification on lists.
\<close>

subsection \<open>The ring of characters\<close>

definition kbd_ring_ok :: "ps2kbd \<Rightarrow> bool" where
  "kbd_ring_ok k \<longleftrightarrow> length (kbd_buf k) = 256 \<and> kbd_head k < 256 \<and> kbd_tail k < 256"

definition kbd_count :: "ps2kbd \<Rightarrow> nat" where
  "kbd_count k = (kbd_head k + 256 - kbd_tail k) mod 256"

definition kbd_pending :: "ps2kbd \<Rightarrow> u8 list" where
  "kbd_pending k = ring_bytes (kbd_buf k) 256 (kbd_tail k) (kbd_count k)"

lemma length_kbd_pending [simp]: "length (kbd_pending k) = kbd_count k"
  by (simp add: kbd_pending_def)

lemma kbd_mod:
  assumes "(h :: nat) < 256" "t < 256"
  shows "(h + 256 - t) mod 256 = (if t \<le> h then h - t else h + 256 - t)" "(h + 1) mod 256 = (if h = 255 then 0 else h + 1)"
proof -
  have "t \<le> h \<Longrightarrow> h + 256 - t = h - t + 256" by simp
  then show "(h + 256 - t) mod 256 = (if t \<le> h then h - t else h + 256 - t)"
    using assms by (cases "t \<le> h") (simp_all del: add_diff_assoc add_diff_assoc2)
  show "(h + 1) mod 256 = (if h = 255 then 0 else h + 1)" using assms by auto
qed

lemma kbd_index:
  assumes "(h :: nat) < 256" "t < 256"
  shows "(t + (h + 256 - t) mod 256) mod 256 = h" "(h + 256 - t) mod 256 < 256"
    "(h + 1) mod 256 \<noteq> t \<longleftrightarrow> (h + 256 - t) mod 256 < 255"
    "(h + 1) mod 256 \<noteq> t \<Longrightarrow> ((h + 1) mod 256 + 256 - t) mod 256 = Suc ((h + 256 - t) mod 256)"
    "h \<noteq> t \<Longrightarrow> (h + 256 - (t + 1) mod 256) mod 256 = (h + 256 - t) mod 256 - 1"
    "h = t \<longleftrightarrow> (h + 256 - t) mod 256 = 0"
proof -
  note M = kbd_mod(1) [OF assms] kbd_mod(2) [OF assms(1,1)] kbd_mod(2) [OF assms(2,2)]
  have n: "(h + 1) mod 256 < 256" "(t + 1) mod 256 < 256" by simp_all
  show "(t + (h + 256 - t) mod 256) mod 256 = h" unfolding M using assms by (cases "t \<le> h") simp_all
  show "(h + 256 - t) mod 256 < 256" by simp
  show "(h + 1) mod 256 \<noteq> t \<longleftrightarrow> (h + 256 - t) mod 256 < 255" unfolding M using assms by auto
  show "h = t \<longleftrightarrow> (h + 256 - t) mod 256 = 0" unfolding M using assms by auto
  show "((h + 1) mod 256 + 256 - t) mod 256 = Suc ((h + 256 - t) mod 256)" if "(h + 1) mod 256 \<noteq> t"
    using that assms unfolding kbd_mod(1) [OF n(1) assms(2)] unfolding M by (auto split: if_splits)
  show "(h + 256 - (t + 1) mod 256) mod 256 = (h + 256 - t) mod 256 - 1" if "h \<noteq> t"
    using that assms unfolding kbd_mod(1) [OF assms(1) n(2)] unfolding M by (auto split: if_splits)
qed

lemma kbd_put:
  assumes "kbd_ring_ok k"
  shows "kbd_ring_ok (kbd_buf_put ch k)"
    "kbd_pending (kbd_buf_put ch k) = (if length (kbd_pending k) < 255 then kbd_pending k @ [ch] else kbd_pending k)"
proof -
  note I = kbd_index [of "kbd_head k" "kbd_tail k"]
  have b: "kbd_head k < 256" "kbd_tail k < 256" "length (kbd_buf k) = 256" using assms by (auto simp: kbd_ring_ok_def)
  show "kbd_ring_ok (kbd_buf_put ch k)" using b by (simp add: kbd_ring_ok_def kbd_buf_put_def KBD_BUF_SIZE_def Let_def)
  show "kbd_pending (kbd_buf_put ch k) = (if length (kbd_pending k) < 255 then kbd_pending k @ [ch] else kbd_pending k)"
  proof (cases "kbd_count k < 255")
    case True
    then have nx: "(kbd_head k + 1) mod 256 \<noteq> kbd_tail k" using I(3) b by (simp add: kbd_count_def)
    have "ring_bytes ((kbd_buf k)[(kbd_tail k + kbd_count k) mod 256 := ch]) 256 (kbd_tail k) (Suc (kbd_count k)) =
        kbd_pending k @ [ch]"
      unfolding kbd_pending_def using True b by (intro ring_bytes_push) simp_all
    then show ?thesis
      using True nx I(1) [OF b(1,2)] I(4) [OF b(1,2) nx]
      by (simp add: kbd_pending_def kbd_count_def kbd_buf_put_def KBD_BUF_SIZE_def Let_def)
  next
    case False
    then have "(kbd_head k + 1) mod 256 = kbd_tail k" using I(3) b by (auto simp: kbd_count_def)
    then show ?thesis using False by (simp add: kbd_buf_put_def KBD_BUF_SIZE_def)
  qed
qed

lemma kbd_read:
  assumes "kbd_ring_ok k"
  shows "brights_ps2kbd_read_char k = (k', c) \<Longrightarrow> kbd_ring_ok k'
    \<and> (case kbd_pending k of [] \<Rightarrow> c = None \<and> k' = k | ch # rest \<Rightarrow> c = Some ch \<and> kbd_pending k' = rest \<and> kbd_im k' = kbd_im k)"
proof -
  assume r: "brights_ps2kbd_read_char k = (k', c)"
  note I = kbd_index [of "kbd_head k" "kbd_tail k"]
  have b: "kbd_head k < 256" "kbd_tail k < 256" "length (kbd_buf k) = 256" using assms by (auto simp: kbd_ring_ok_def)
  show ?thesis
  proof (cases "kbd_head k = kbd_tail k")
    case True
    then have "kbd_pending k = []" by (simp add: kbd_pending_def kbd_count_def ring_bytes_def)
    then show ?thesis using r True assms by (simp add: brights_ps2kbd_read_char_def)
  next
    case False
    then have c: "0 < kbd_count k" "kbd_count k \<le> 256" using I(2,6) b by (auto simp: kbd_count_def)
    have "kbd_pending k = kbd_buf k ! kbd_tail k # ring_bytes (kbd_buf k) 256 ((kbd_tail k + 1) mod 256) (kbd_count k - 1)"
      unfolding kbd_pending_def using c b by (intro ring_bytes_pop) simp_all
    then show ?thesis
      using r False b I(5) [OF b(1,2) False]
      by (auto simp: brights_ps2kbd_read_char_def KBD_BUF_SIZE_def kbd_pending_def kbd_count_def kbd_ring_ok_def)
  qed
qed

subsection \<open>The input method stays inside its arrays\<close>

definition im_ok :: "im \<Rightarrow> bool" where
  "im_ok m \<longleftrightarrow> length (pinyin_buf m) = 16 \<and> pinyin_len m \<le> 15 \<and> length (candidates m) = 10 \<and> candidate_count m \<le> 10
     \<and> (\<forall>i<candidate_count m. length (candidates m ! i) \<le> 15)
     \<and> (0 < candidate_count m \<longrightarrow> selected_candidate m < candidate_count m)"

text \<open>The same without the last clause, while the candidates are being collected.\<close>

definition im_filling :: "im \<Rightarrow> bool" where
  "im_filling m \<longleftrightarrow> length (pinyin_buf m) = 16 \<and> pinyin_len m \<le> 15 \<and> length (candidates m) = 10 \<and> candidate_count m \<le> 10
     \<and> (\<forall>i<candidate_count m. length (candidates m ! i) \<le> 15) \<and> selected_candidate m = 0"

lemma im_filling_ok: "im_filling m \<Longrightarrow> im_ok m"
  by (auto simp: im_filling_def im_ok_def)

lemma im_filling_add:
  assumes "im_filling m" "candidate_count m < 10" "length e \<le> 15"
  shows "im_filling (m\<lparr>candidates := (candidates m)[candidate_count m := e], candidate_count := Suc (candidate_count m)\<rparr>)"
  using assms by (auto simp: im_filling_def nth_list_update less_Suc_eq)

lemma im_filling_add_candidates: "im_filling m \<Longrightarrow> im_filling (add_candidates es m)"
  by (induction es m rule: add_candidates.induct) (auto simp: IM_MAX_CANDIDATES_def im_filling_add)

lemma im_filling_search_rows: "im_filling m \<Longrightarrow> im_filling (search_rows rows m)"
  by (induction rows m rule: search_rows.induct) (auto simp: im_filling_add_candidates)

lemma im_filling_add_common: "im_filling m \<Longrightarrow> list_all (\<lambda>e. length e \<le> 15) es \<Longrightarrow> im_filling (add_common es m)"
  by (induction es m rule: add_common.induct) (auto simp: IM_MAX_CANDIDATES_def im_filling_add)

lemma common_chars_short: "list_all (\<lambda>e. length e \<le> 15) common_chars"
  by (simp add: common_chars_def)

lemma im_ok_search: "im_ok m \<Longrightarrow> im_ok (search_pinyin m)"
proof -
  assume "im_ok m"
  then have f: "im_filling (m\<lparr>candidate_count := 0, selected_candidate := 0\<rparr>)" by (auto simp: im_ok_def im_filling_def)
  have c: "list_all (\<lambda>e. length e \<le> 15) (take 50 common_chars)"
    using common_chars_short by (auto simp: list_all_iff dest: in_set_takeD)
  show ?thesis
    unfolding search_pinyin_def Let_def
    using im_filling_search_rows [OF f, of pinyin_map] f c by (auto intro!: im_filling_ok im_filling_add_common)
qed

lemma im_ok_simple:
  "im_ok m \<Longrightarrow> im_ok (brights_im_clear m)"
  "im_ok m \<Longrightarrow> im_ok (brights_tty_write_str s m)"
  "im_ok m \<Longrightarrow> im_ok (m\<lparr>im_active := b\<rparr>)"
  "im_ok m \<Longrightarrow> im_ok (brights_im_draw_candidates m)"
  by (auto simp: im_ok_def brights_im_clear_def brights_tty_write_str_def brights_im_draw_candidates_def Let_def
      split: option.split prod.split)

lemma im_ok_operations:
  assumes "im_ok m"
  shows "im_ok (brights_im_toggle m)" "im_ok (brights_im_select_candidate i m)" "im_ok (brights_im_commit m)"
    "im_ok (brights_im_backspace m)" "im_ok (brights_im_handle_char ch m)"
    "brights_im_handle_special key m = Some m' \<Longrightarrow> im_ok m'"
proof -
  show t: "im_ok (brights_im_toggle m)" "im_ok (brights_im_select_candidate i m)" "im_ok (brights_im_commit m)" for i
    using assms by (auto simp: brights_im_toggle_def brights_im_select_candidate_def brights_im_commit_def Let_def
        intro!: im_ok_simple)
  let ?b = "m\<lparr>pinyin_len := pinyin_len m - 1, pinyin_buf := (pinyin_buf m)[pinyin_len m - 1 := 0]\<rparr>"
  have "im_ok ?b" "im_ok (m\<lparr>pinyin_len := 0, pinyin_buf := (pinyin_buf m)[0 := 0], candidate_count := 0\<rparr>)"
    using assms by (auto simp: im_ok_def)
  then show b: "im_ok (brights_im_backspace m)"
    using assms im_ok_search [of ?b] by (simp add: brights_im_backspace_def Let_def)
  let ?c = "m\<lparr>pinyin_buf := (pinyin_buf m)[pinyin_len m := ch, Suc (pinyin_len m) := 0], pinyin_len := Suc (pinyin_len m)\<rparr>"
  have "pinyin_len m < 15 \<Longrightarrow> im_ok ?c" using assms by (auto simp: im_ok_def)
  then show "im_ok (brights_im_handle_char ch m)"
    using assms t(2,3) b im_ok_search [of ?c]
    by (cases "lower ch") (simp_all add: brights_im_handle_char_def IM_MAX_PINYIN_def)
  show "brights_im_handle_special key m = Some m' \<Longrightarrow> im_ok m'"
    using assms t(2) by (auto simp: brights_im_handle_special_def im_ok_def split: if_splits)
qed

subsection \<open>The interrupt handler\<close>

definition kbd_ok :: "ps2kbd \<Rightarrow> bool" where
  "kbd_ok k \<longleftrightarrow> kbd_ring_ok k \<and> im_ok (kbd_im k)"

lemma kbd_put_im [simp]: "kbd_im (kbd_buf_put ch k) = kbd_im k"
  by (simp add: kbd_buf_put_def Let_def)

lemma kbd_ok_put: "kbd_ok k \<Longrightarrow> kbd_ok (kbd_buf_put ch k)"
  by (simp add: kbd_ok_def kbd_put(1))

lemma kbd_ok_im: "kbd_ok k \<Longrightarrow> im_ok m \<Longrightarrow> kbd_ok (k\<lparr>kbd_im := m\<rparr>)"
  by (simp add: kbd_ok_def kbd_ring_ok_def)

lemma kbd_ok_upd_im: "kbd_ok k \<Longrightarrow> im_ok (f (kbd_im k)) \<Longrightarrow> kbd_ok (upd_im f k)"
  by (simp add: upd_im_def kbd_ok_im)

lemma kbd_okD: "kbd_ok k \<Longrightarrow> im_ok (kbd_im k)"
  by (simp add: kbd_ok_def)

lemma kbd_ok_flags [simp]:
  "kbd_ok (k\<lparr>ps2_shift := b\<rparr>) = kbd_ok k" "kbd_ok (k\<lparr>ps2_ctrl := b\<rparr>) = kbd_ok k" "kbd_ok (k\<lparr>ps2_alt := b\<rparr>) = kbd_ok k"
  "kbd_ok (k\<lparr>ps2_caps_lock := b\<rparr>) = kbd_ok k" "kbd_ok (k\<lparr>ps2_extended := b\<rparr>) = kbd_ok k"
  "kbd_ok (k\<lparr>ps2_extended2 := b\<rparr>) = kbd_ok k"
  by (simp_all add: kbd_ok_def kbd_ring_ok_def)

lemmas kbd_ok_rules = kbd_ok_put kbd_ok_upd_im im_ok_simple im_ok_operations(1-5) kbd_okD

lemma kbd_ok_im_key: "kbd_ok k \<Longrightarrow> kbd_ok (im_key ch k)"
  by (auto simp: im_key_def Let_def intro!: kbd_ok_rules split: list.split)

lemma arrow_key_cases:
  assumes "kbd_ok k" "dir = 1 \<or> dir = 2"
  shows "arrow_key dir code k = None \<longleftrightarrow> im_active (kbd_im k) \<and> candidate_count (kbd_im k) = 0"
    "arrow_key dir code k = Some k' \<Longrightarrow> kbd_ok k'"
proof -
  show "arrow_key dir code k = None \<longleftrightarrow> im_active (kbd_im k) \<and> candidate_count (kbd_im k) = 0"
    using assms(2) by (auto simp: arrow_key_def brights_im_handle_special_def split: option.split if_splits)
  show "arrow_key dir code k = Some k' \<Longrightarrow> kbd_ok k'"
    using assms(1) im_ok_operations(6) [OF kbd_okD]
    by (auto simp: arrow_key_def split: if_splits option.splits intro!: kbd_ok_put kbd_ok_im im_ok_simple(4))
qed

definition arrow_codes :: "u8 set" where
  "arrow_codes = {0x48, 0x4B, 0x4D, 0x50}"

lemma extended_key_cases:
  assumes "kbd_ok k"
  shows "extended_key sc k = None \<longleftrightarrow> sc \<in> arrow_codes \<and> im_active (kbd_im k) \<and> candidate_count (kbd_im k) = 0"
    "extended_key sc k = Some k' \<Longrightarrow> kbd_ok k'"
  using assms arrow_key_cases [OF assms, of 1] arrow_key_cases [OF assms, of 2]
  by (auto simp: extended_key_def arrow_codes_def intro: kbd_ok_put split: if_splits)

lemma irq_cases:
  assumes "kbd_ok k"
  shows "brights_ps2kbd_irq_handler sc k = None \<longleftrightarrow> ps2_extended k \<and> \<not> ps2_extended2 k \<and> sc \<in> arrow_codes
      \<and> im_active (kbd_im k) \<and> candidate_count (kbd_im k) = 0"
    "brights_ps2kbd_irq_handler sc k = Some k' \<Longrightarrow> kbd_ok k'"
proof -
  have e: "kbd_ok (k\<lparr>ps2_extended := False\<rparr>)" using assms by simp
  have a: "sc \<in> arrow_codes \<Longrightarrow> sc \<noteq> 0xE0 \<and> sc \<noteq> 0xE1 \<and> sc AND 0x80 = 0 \<and> sc \<noteq> 0x2A \<and> sc \<noteq> 0x36 \<and> sc \<noteq> 0x1D
      \<and> sc \<noteq> 0x38 \<and> sc \<noteq> 0x3A \<and> sc \<noteq> 0x39"
    by (auto simp: arrow_codes_def)
  show "brights_ps2kbd_irq_handler sc k = None \<longleftrightarrow> ps2_extended k \<and> \<not> ps2_extended2 k \<and> sc \<in> arrow_codes
      \<and> im_active (kbd_im k) \<and> candidate_count (kbd_im k) = 0"
    using a extended_key_cases(1) [OF e, of sc]
    by (auto simp: brights_ps2kbd_irq_handler_def Let_def split: option.split)
  show "brights_ps2kbd_irq_handler sc k = Some k' \<Longrightarrow> kbd_ok k'"
    using assms extended_key_cases(2) [OF e, of sc]
    by (auto simp: brights_ps2kbd_irq_handler_def Let_def kbd_ok_im_key intro!: kbd_ok_rules split: if_splits option.splits)
qed

subsection \<open>Typing\<close>

fun run_keys :: "u8 list \<Rightarrow> ps2kbd \<Rightarrow> ps2kbd option" where
  "run_keys [] k = Some k"
| "run_keys (sc # scs) k = (case brights_ps2kbd_irq_handler sc k of None \<Rightarrow> None | Some k1 \<Rightarrow> run_keys scs k1)"

lemma run_keys_append:
  "run_keys (xs @ ys) k = (case run_keys xs k of None \<Rightarrow> None | Some k1 \<Rightarrow> run_keys ys k1)"
  by (induction xs arbitrary: k) (auto split: option.split)

text \<open>How a character is typed: a key pressed and released, or the same while shift is held.\<close>

definition press :: "u8 \<Rightarrow> u8 list" where
  "press sc = [sc, sc OR 0x80]"

definition shifted :: "u8 \<Rightarrow> u8 list" where
  "shifted sc = 0x2A # press sc @ [0xAA]"

definition layout :: "(u8 \<times> u8 list) list" where
  "layout = concat (map (\<lambda>(sc, hi, lo). [(of_char lo, press sc), (of_char hi, shifted sc)]) shift_keys)
     @ concat (map (\<lambda>(sc, l). [(of_char l, press sc), (of_char l - 32, shifted sc)]) letter_keys)
     @ map (\<lambda>(sc, c). (c, press sc)) plain_keys"

definition keystrokes :: "u8 \<Rightarrow> u8 list option" where
  "keystrokes c = map_of layout c"

text \<open>A keyboard at rest: no prefix, no modifier, input method off.\<close>

definition at_rest :: "ps2kbd \<Rightarrow> bool" where
  "at_rest k \<longleftrightarrow> \<not> ps2_extended k \<and> \<not> ps2_extended2 k \<and> \<not> ps2_shift k \<and> \<not> ps2_caps_lock k \<and> \<not> im_active (kbd_im k)"

definition ordinary :: "u8 \<Rightarrow> bool" where
  "ordinary sc \<longleftrightarrow> sc AND 0x80 = 0 \<and> sc \<notin> {0x2A, 0x36, 0x1D, 0x38, 0x3A} \<and> map_of function_keys sc = None
     \<and> sc OR 0x80 \<noteq> 0xE0 \<and> sc OR 0x80 \<noteq> 0xE1 \<and> (sc OR 0x80) AND 0x7F = sc \<and> (sc OR 0x80) AND 0x80 \<noteq> 0"

lemma press_ordinary:
  assumes "ordinary sc" "\<not> ps2_extended k" "\<not> ps2_extended2 k" "\<not> im_active (kbd_im k)" "ps2_shift k \<Longrightarrow> sc \<noteq> 0x39"
    "ps2_scancode_to_ascii sc k = Some c"
  shows "run_keys (press sc) k = Some (kbd_buf_put c k)"
proof -
  have sc: "sc \<noteq> 0xE0" "sc \<noteq> 0xE1" "sc AND 0x80 = 0" using assms(1) by (auto simp: ordinary_def)
  have d: "brights_ps2kbd_irq_handler sc k = Some (kbd_buf_put c k)"
    using assms sc by (auto simp: brights_ps2kbd_irq_handler_def ordinary_def)
  have u: "brights_ps2kbd_irq_handler (sc OR 0x80) k1 = Some k1"
    if "\<not> ps2_extended k1" "\<not> ps2_extended2 k1" for k1
    using assms(1) that by (simp add: brights_ps2kbd_irq_handler_def ordinary_def Let_def)
  have "\<not> ps2_extended (kbd_buf_put c k)" "\<not> ps2_extended2 (kbd_buf_put c k)"
    using assms(2,3) by (simp_all add: kbd_buf_put_def Let_def)
  then show ?thesis using d u by (simp add: press_def)
qed

lemma put_flags [simp]:
  "ps2_shift (kbd_buf_put c k) = ps2_shift k" "ps2_extended (kbd_buf_put c k) = ps2_extended k"
  "ps2_extended2 (kbd_buf_put c k) = ps2_extended2 k" "ps2_caps_lock (kbd_buf_put c k) = ps2_caps_lock k"
  by (simp_all add: kbd_buf_put_def Let_def)

lemma put_shift: "kbd_buf_put c (k\<lparr>ps2_shift := b\<rparr>) = (kbd_buf_put c k)\<lparr>ps2_shift := b\<rparr>"
  by (simp add: kbd_buf_put_def Let_def)

lemma shifted_ordinary:
  assumes "ordinary sc" "at_rest k" "sc \<noteq> 0x39" "ps2_scancode_to_ascii sc (k\<lparr>ps2_shift := True\<rparr>) = Some c"
  shows "run_keys (shifted sc) k = Some (kbd_buf_put c k)"
proof -
  let ?k = "k\<lparr>ps2_shift := True\<rparr>"
  have p: "run_keys (press sc) ?k = Some (kbd_buf_put c ?k)"
    using assms by (intro press_ordinary) (simp_all add: at_rest_def)
  have f: "brights_ps2kbd_irq_handler 0x2A k = Some ?k" by (simp add: brights_ps2kbd_irq_handler_def)
  have l: "brights_ps2kbd_irq_handler 0xAA (kbd_buf_put c ?k) = Some (kbd_buf_put c k)"
    using assms(2) by (simp add: brights_ps2kbd_irq_handler_def put_shift at_rest_def Let_def)
  show ?thesis unfolding shifted_def using f p l by (simp add: run_keys_append)
qed

lemma tables_ordinary:
  "list_all (\<lambda>(sc, hi, lo). ordinary sc \<and> sc \<noteq> 0x39 \<and> map_of shift_keys sc = Some (hi, lo)) shift_keys"
  "list_all (\<lambda>(sc, l). ordinary sc \<and> sc \<noteq> 0x39 \<and> map_of shift_keys sc = None \<and> map_of letter_keys sc = Some l) letter_keys"
  "list_all (\<lambda>(sc, c). ordinary sc \<and> map_of shift_keys sc = None \<and> map_of letter_keys sc = None
     \<and> map_of plain_keys sc = Some c) plain_keys"
  by code_simp+

lemma layout_types:
  assumes "(c, ks) \<in> set layout" "at_rest k"
  shows "run_keys ks k = Some (kbd_buf_put c k)"
proof -
  have r: "\<not> ps2_extended k" "\<not> ps2_extended2 k" "\<not> im_active (kbd_im k)" "\<not> ps2_shift k" "\<not> ps2_caps_lock k"
    using assms(2) by (auto simp: at_rest_def)
  from assms(1) consider
      (shift) sc hi lo where "(sc, hi, lo) \<in> set shift_keys" "(c, ks) = (of_char lo, press sc) \<or> (c, ks) = (of_char hi, shifted sc)"
    | (letter) sc l where "(sc, l) \<in> set letter_keys" "(c, ks) = (of_char l, press sc) \<or> (c, ks) = (of_char l - 32, shifted sc)"
    | (plain) sc where "(sc, c) \<in> set plain_keys" "ks = press sc"
    by (auto simp: layout_def)
  then show ?thesis
  proof cases
    case shift
    then have "ordinary sc" "sc \<noteq> 0x39" "map_of shift_keys sc = Some (hi, lo)"
      using tables_ordinary(1) by (auto simp: list_all_iff)
    then show ?thesis
      using shift(2) r assms(2) by (auto intro!: press_ordinary shifted_ordinary simp: ps2_scancode_to_ascii_def)
  next
    case letter
    then have "ordinary sc" "sc \<noteq> 0x39" "map_of shift_keys sc = None" "map_of letter_keys sc = Some l"
      using tables_ordinary(2) by (auto simp: list_all_iff)
    then show ?thesis
      using letter(2) r assms(2)
      by (auto intro!: press_ordinary shifted_ordinary simp: ps2_scancode_to_ascii_def letter_with_case_def)
  next
    case plain
    then have "ordinary sc" "map_of shift_keys sc = None" "map_of letter_keys sc = None" "map_of plain_keys sc = Some c"
      using tables_ordinary(3) by (auto simp: list_all_iff)
    then show ?thesis
      using plain(2) r assms(2) by (auto intro!: press_ordinary simp: ps2_scancode_to_ascii_def)
  qed
qed

definition typed :: "u8 list \<Rightarrow> u8 list" where
  "typed t = concat (map (\<lambda>c. the (keystrokes c)) t)"

lemma at_rest_put: "at_rest k \<Longrightarrow> at_rest (kbd_buf_put c k)"
  by (simp add: at_rest_def)

lemma keystrokes_ascii:
  assumes "32 \<le> c \<and> c \<le> 126 \<or> c \<in> {8, 9, 10, 27}"
  shows "keystrokes c \<noteq> None"
proof -
  have a: "list_all (\<lambda>n. keystrokes (of_nat n) \<noteq> None) ([32..<127] @ [8, 9, 10, 27])" by code_simp
  have b: "unat c \<in> set ([32..<127] @ [8, 9, 10, 27])"
    using assms unfolding set_append set_upt by (auto simp: word_le_nat_alt)
  from bspec [OF a [unfolded list_all_iff] b] show ?thesis by simp
qed

lemma typed_pending:
  assumes "kbd_ok k" "at_rest k" "length (kbd_pending k) + length t \<le> 255" "\<forall>c\<in>set t. keystrokes c \<noteq> None"
  shows "\<exists>k'. run_keys (typed t) k = Some k' \<and> kbd_pending k' = kbd_pending k @ t \<and> kbd_ok k' \<and> at_rest k'
    \<and> kbd_im k' = kbd_im k"
  using assms
proof (induction t arbitrary: k)
  case (Cons c t)
  obtain ks where ks: "keystrokes c = Some ks" using Cons.prems(4) by auto
  let ?k = "kbd_buf_put c k"
  have r: "run_keys ks k = Some ?k"
    using ks by (intro layout_types Cons.prems(2)) (auto simp: keystrokes_def dest: map_of_SomeD)
  have p: "kbd_pending ?k = kbd_pending k @ [c]"
    using kbd_put(2) [of k c] Cons.prems(1,3) by (simp add: kbd_ok_def)
  have l: "length (kbd_pending ?k) = Suc (length (kbd_pending k))" unfolding p by simp
  have "\<exists>k'. run_keys (typed t) ?k = Some k' \<and> kbd_pending k' = kbd_pending ?k @ t \<and> kbd_ok k' \<and> at_rest k'
      \<and> kbd_im k' = kbd_im ?k"
    by (rule Cons.IH) (use Cons.prems l in \<open>auto simp: kbd_ok_put at_rest_put\<close>)
  then show ?case using r p ks by (auto simp: typed_def run_keys_append)
qed (simp add: typed_def)

subsection \<open>The line editor\<close>

text \<open>What a typed character does to a line, as a function on lists: at most 254 characters are kept.\<close>

definition edit :: "u8 list \<Rightarrow> u8 \<Rightarrow> u8 list" where
  "edit l ch =
     (if ch = 8 \<or> ch = 0x7F then butlast l
      else if ch = 27 then []
      else if ch = 9 then l @ replicate (min 4 (254 - length l)) 32
      else if length l < 254 then l @ [ch] else l)"

definition tty_line :: "tty \<Rightarrow> u8 list" where
  "tty_line t = take (line_len t) (line_buf t)"

definition line_ok :: "tty \<Rightarrow> bool" where
  "line_ok t \<longleftrightarrow> length (line_buf t) = 256 \<and> line_len t \<le> 254"

text \<open>What editing leaves alone.\<close>

definition same_rest :: "tty \<Rightarrow> tty \<Rightarrow> bool" where
  "same_rest t t' \<longleftrightarrow> tty_mode t' = tty_mode t \<and> ser_in t' = ser_in t \<and> kbd_pending (tty_kbd t') = kbd_pending (tty_kbd t)
     \<and> (kbd_ring_ok (tty_kbd t) \<longrightarrow> kbd_ring_ok (tty_kbd t'))"

lemma same_rest_refl: "same_rest t t"
  by (simp add: same_rest_def)

lemma same_rest_trans: "same_rest t u \<Longrightarrow> same_rest u v \<Longrightarrow> same_rest t v"
  by (simp add: same_rest_def)

lemma write_char_simps [simp]:
  "line_buf (brights_tty_write_char ch t) = line_buf t" "line_len (brights_tty_write_char ch t) = line_len t"
  "line_ready (brights_tty_write_char ch t) = line_ready t" "line_pos (brights_tty_write_char ch t) = line_pos t"
  by (simp_all add: brights_tty_write_char_def)

lemma same_rest_write: "same_rest t u \<Longrightarrow> same_rest t (brights_tty_write_char ch u)"
  by (simp add: same_rest_def brights_tty_write_char_def upd_im_def kbd_pending_def kbd_count_def kbd_ring_ok_def)

lemma same_rest_line [simp]:
  "same_rest t (u\<lparr>line_buf := b\<rparr>) = same_rest t u" "same_rest t (u\<lparr>line_len := n\<rparr>) = same_rest t u"
  "same_rest t (u\<lparr>line_ready := r\<rparr>) = same_rest t u" "same_rest t (u\<lparr>line_pos := q\<rparr>) = same_rest t u"
  by (simp_all add: same_rest_def)

lemma put_line_simps:
  assumes "line_ok t" "line_len t < 254"
  shows "line_ok (put_line ch t)" "tty_line (put_line ch t) = tty_line t @ [ch]" "line_len (put_line ch t) = Suc (line_len t)"
    "same_rest t (put_line ch t)" "line_ready (put_line ch t) = line_ready t" "line_pos (put_line ch t) = line_pos t"
  using assms by (auto simp: put_line_def line_ok_def tty_line_def take_Suc_conv_app_nth same_rest_refl)

lemma put_tab_edit:
  assumes "line_ok t"
  shows "line_ok (put_tab n t) \<and> tty_line (put_tab n t) = tty_line t @ replicate (min n (254 - line_len t)) 32
    \<and> same_rest t (put_tab n t) \<and> line_ready (put_tab n t) = line_ready t \<and> line_pos (put_tab n t) = line_pos t"
  using assms
proof (induction n t rule: put_tab.induct)
  case (2 n t)
  show ?case
  proof (cases "line_len t < 254")
    case True
    let ?u = "brights_tty_write_char 32 (put_line 32 t)"
    note P = put_line_simps [OF "2.prems" True]
    have ok: "line_ok ?u" using P(1) by (simp add: line_ok_def)
    have "tty_line ?u = tty_line t @ [32]" using P(2) by (simp add: tty_line_def)
    moreover have "Suc (min n (254 - Suc (line_len t))) = min (Suc n) (254 - line_len t)" using True by simp
    ultimately show ?thesis
      using "2.IH" [OF _ ok] True P(3-6) same_rest_trans [OF same_rest_write [OF P(4)]]
      by (auto simp: TTY_LINE_BUF_def simp flip: replicate_Suc)
  next
    case False
    then show ?thesis using "2.prems" by (simp add: TTY_LINE_BUF_def same_rest_refl line_ok_def)
  qed
qed (simp add: same_rest_refl)

lemma length_tty_line: "line_ok t \<Longrightarrow> length (tty_line t) = line_len t"
  by (simp add: tty_line_def line_ok_def)

lemma cooked_edit:
  assumes "line_ok t" "ch \<noteq> 10" "ch \<noteq> 13"
  shows "\<exists>t'. cooked_process_char ch t = Some t' \<and> line_ok t' \<and> tty_line t' = edit (tty_line t) ch \<and> same_rest t t'
    \<and> line_ready t' = line_ready t \<and> line_pos t' = line_pos t"
proof -
  have L: "length (line_buf t) = 256" "line_len t \<le> 254" using assms(1) by (auto simp: line_ok_def)
  consider (bs) "ch = 8 \<or> ch = 0x7F" | (esc) "ch = 27" | (tab) "ch = 9" | (other) "ch \<notin> {8, 0x7F, 27, 9}" by auto
  then show ?thesis
  proof cases
    case bs
    then show ?thesis
      using L assms by (auto simp: cooked_process_char_def line_ok_def tty_line_def edit_def butlast_take same_rest_refl
          intro!: same_rest_write)
  next
    case esc
    then show ?thesis
      using L by (auto simp: cooked_process_char_def line_ok_def tty_line_def edit_def same_rest_refl intro!: same_rest_write)
  next
    case tab
    then show ?thesis using put_tab_edit [OF assms(1), of 4] length_tty_line [OF assms(1)]
      by (auto simp: cooked_process_char_def edit_def)
  next
    case other
    then show ?thesis
      using assms L put_line_simps [OF assms(1), of ch] length_tty_line [OF assms(1)]
      by (auto simp: cooked_process_char_def edit_def TTY_LINE_BUF_def line_ok_def tty_line_def same_rest_refl
          intro!: same_rest_write)
  qed
qed

lemma cooked_newline:
  assumes "line_ok t"
  shows "\<exists>t'. cooked_process_char 10 t = Some t' \<and> length (line_buf t') = 256 \<and> tty_line t' = tty_line t @ [10]
    \<and> line_len t' = Suc (line_len t) \<and> same_rest t t' \<and> line_ready t' \<and> line_pos t' = 0"
proof -
  have L: "length (line_buf t) = 256" "line_len t \<le> 254" using assms by (auto simp: line_ok_def)
  have "take (Suc (line_len t)) ((line_buf t)[line_len t := 10, Suc (line_len t) := 0]) = take (line_len t) (line_buf t) @ [10]"
    using L by (simp add: take_Suc_conv_app_nth)
  then show ?thesis
    using L by (auto simp: cooked_process_char_def TTY_LINE_BUF_def put_line_def tty_line_def same_rest_refl Let_def
        intro!: same_rest_write)
qed

subsection \<open>Reading lines\<close>

fun tty_reads :: "nat \<Rightarrow> tty \<Rightarrow> (tty \<times> u8 option list) option" where
  "tty_reads 0 t = Some (t, [])"
| "tty_reads (Suc n) t =
     (case brights_tty_read_char t of
        None \<Rightarrow> None
      | Some (t1, c) \<Rightarrow> map_option (\<lambda>(t2, cs). (t2, c # cs)) (tty_reads n t1))"

lemma tty_reads_add:
  "tty_reads (m + n) t = (case tty_reads m t of None \<Rightarrow> None
     | Some (t1, cs) \<Rightarrow> map_option (\<lambda>(t2, ds). (t2, cs @ ds)) (tty_reads n t1))"
  by (induction m arbitrary: t) (auto split: option.split simp: option.map_comp comp_def case_prod_unfold option.map_ident)

text \<open>A terminal in cooked mode with the line \<open>l\<close> being edited, and one that hands out the rest \<open>xs\<close> of a line.\<close>

definition idle :: "tty \<Rightarrow> u8 list \<Rightarrow> bool" where
  "idle t rest \<longleftrightarrow> tty_mode t = TTY_MODE_COOKED \<and> ser_in t = [] \<and> kbd_ring_ok (tty_kbd t) \<and> kbd_pending (tty_kbd t) = rest"

definition editing :: "tty \<Rightarrow> u8 list \<Rightarrow> u8 list \<Rightarrow> bool" where
  "editing t l rest \<longleftrightarrow> idle t rest \<and> \<not> line_ready t \<and> line_ok t \<and> tty_line t = l"

definition handing_out :: "tty \<Rightarrow> u8 list \<Rightarrow> u8 list \<Rightarrow> bool" where
  "handing_out t xs rest \<longleftrightarrow> idle t rest \<and> line_ready t \<and> length (line_buf t) = 256 \<and> line_len t \<le> 255
     \<and> xs = drop (line_pos t) (tty_line t) \<and> xs \<noteq> []"

definition between :: "tty \<Rightarrow> u8 list \<Rightarrow> u8 list \<Rightarrow> bool" where
  "between t xs rest \<longleftrightarrow> (if xs = [] then editing t [] rest else handing_out t xs rest)"

lemma take_ready_step:
  assumes "handing_out t (x # xs) rest"
  shows "\<exists>t'. take_ready t = (t', Some x) \<and> between t' xs rest"
proof -
  have h: "idle t rest" "line_ready t" "length (line_buf t) = 256" "line_len t \<le> 255" "x # xs = drop (line_pos t) (tty_line t)"
    using assms by (auto simp: handing_out_def)
  have n: "length (tty_line t) = line_len t" using h(3,4) by (simp add: tty_line_def)
  have p: "line_pos t < line_len t" using h(5) n by (metis drop_all list.discI not_le)
  have x: "x = line_buf t ! line_pos t" "xs = drop (Suc (line_pos t)) (tty_line t)"
    using h(5) p n by (simp_all add: Cons_nth_drop_Suc [symmetric] tty_line_def)
  have e: "xs = [] \<longleftrightarrow> line_len t \<le> Suc (line_pos t)" unfolding x(2) using n by simp
  show ?thesis
    using h(1-4) p x e
    by (auto simp: take_ready_def between_def editing_def handing_out_def idle_def line_ok_def tty_line_def Let_def)
qed

lemma idle_init: "idle (brights_tty_init t) rest = idle t rest"
  by (simp add: idle_def brights_tty_init_def)

lemma handing_out_init [simp]: "handing_out (brights_tty_init t) xs rest = handing_out t xs rest"
  by (simp add: handing_out_def idle_init brights_tty_init_def [of t] tty_line_def) (simp add: idle_def)

lemma read_handing_out:
  assumes "handing_out t (x # xs) rest"
  shows "\<exists>t'. brights_tty_read_char t = Some (t', Some x) \<and> between t' xs rest"
proof -
  obtain t' where t': "take_ready (brights_tty_init t) = (t', Some x)" "between t' xs rest"
    using take_ready_step [of "brights_tty_init t" x xs rest] assms by auto
  have "tty_mode (brights_tty_init t) = TTY_MODE_COOKED" using assms by (simp add: handing_out_def idle_def brights_tty_init_def)
  then show ?thesis using t' by (simp add: brights_tty_read_char_def Let_def)
qed

text \<open>One read while a line is edited takes one character from the keyboard.\<close>

lemma read_editing:
  assumes "editing t l (c # rest)"
  shows "\<exists>u. editing u l rest \<and> brights_tty_read_char t =
    (case cooked_process_char c u of None \<Rightarrow> None
     | Some t2 \<Rightarrow> (case brights_serial_read_byte t2 of (t3, sc) \<Rightarrow>
         case feed sc t3 of None \<Rightarrow> None | Some t4 \<Rightarrow> Some (take_ready t4)))"
proof -
  let ?t = "brights_tty_init t"
  obtain k c' where k: "brights_ps2kbd_read_char (tty_kbd ?t) = (k, c')" by fastforce
  have r: "kbd_ring_ok (tty_kbd ?t)" "kbd_pending (tty_kbd ?t) = c # rest" "\<not> line_ready ?t" "tty_mode ?t = TTY_MODE_COOKED"
    using assms by (auto simp: editing_def idle_def brights_tty_init_def)
  have K: "c' = Some c" "kbd_pending k = rest" "kbd_ring_ok k" using kbd_read [OF r(1) k] r(2) by auto
  have "editing (?t\<lparr>tty_kbd := k\<rparr>) l rest"
    using assms K by (simp add: editing_def idle_def brights_tty_init_def line_ok_def tty_line_def)
  moreover have "take_ready ?t = (?t, None)" using r(3) by (simp add: take_ready_def)
  ultimately show ?thesis using k K(1) r(4) by (intro exI) (simp add: brights_tty_read_char_def feed_def Let_def)
qed

lemma read_edits:
  assumes "editing t l (c # rest)" "c \<noteq> 10" "c \<noteq> 13"
  shows "\<exists>t'. brights_tty_read_char t = Some (t', None) \<and> editing t' (edit l c) rest"
proof -
  obtain u where u: "editing u l rest" and r: "brights_tty_read_char t =
    (case cooked_process_char c u of None \<Rightarrow> None
     | Some t2 \<Rightarrow> (case brights_serial_read_byte t2 of (t3, sc) \<Rightarrow>
         case feed sc t3 of None \<Rightarrow> None | Some t4 \<Rightarrow> Some (take_ready t4)))"
    using read_editing [OF assms(1)] by blast
  have "line_ok u" using u by (simp add: editing_def)
  from cooked_edit [OF this assms(2,3)] obtain t' where t': "cooked_process_char c u = Some t'" "line_ok t'"
    "tty_line t' = edit (tty_line u) c" "same_rest u t'" "line_ready t' = line_ready u" by blast
  have e: "editing t' (edit l c) rest" using u t'(2-5) by (simp add: editing_def idle_def same_rest_def)
  then have "ser_in t' = []" "\<not> line_ready t'" by (simp_all add: editing_def idle_def)
  then show ?thesis using r t'(1) e by (simp add: brights_serial_read_byte_def feed_def take_ready_def)
qed

lemma read_finishes:
  assumes "editing t l (10 # rest)"
  shows "\<exists>t'. brights_tty_read_char t = Some (t', Some (hd (l @ [10]))) \<and> between t' (tl (l @ [10])) rest"
proof -
  obtain u where u: "editing u l rest" and r: "brights_tty_read_char t =
    (case cooked_process_char 10 u of None \<Rightarrow> None
     | Some t2 \<Rightarrow> (case brights_serial_read_byte t2 of (t3, sc) \<Rightarrow>
         case feed sc t3 of None \<Rightarrow> None | Some t4 \<Rightarrow> Some (take_ready t4)))"
    using read_editing [OF assms(1)] by blast
  have "line_ok u" using u by (simp add: editing_def)
  from cooked_newline [OF this] obtain t' where t': "cooked_process_char 10 u = Some t'" "length (line_buf t') = 256"
    "tty_line t' = tty_line u @ [10]" "line_len t' = Suc (line_len u)" "same_rest u t'" "line_ready t'" "line_pos t' = 0" by blast
  have "line_len u \<le> 254" using u by (simp add: editing_def line_ok_def)
  then have "handing_out t' (l @ [10]) rest"
    using u t' by (simp add: handing_out_def editing_def idle_def same_rest_def)
  moreover have "l @ [10] = hd (l @ [10]) # tl (l @ [10])" by simp
  ultimately obtain t'' where t'': "take_ready t' = (t'', Some (hd (l @ [10])))" "between t'' (tl (l @ [10])) rest"
    using take_ready_step [of t' "hd (l @ [10])" "tl (l @ [10])" rest] by auto
  have "ser_in t' = []" using u t'(5) by (simp add: editing_def idle_def same_rest_def)
  then show ?thesis using r t'(1) t'' by (simp add: brights_serial_read_byte_def feed_def)
qed

lemma reads_edits:
  assumes "editing t l (cs @ rest)" "10 \<notin> set cs" "13 \<notin> set cs"
  shows "\<exists>t'. tty_reads (length cs) t = Some (t', replicate (length cs) None) \<and> editing t' (foldl edit l cs) rest"
  using assms
proof (induction cs arbitrary: t l)
  case (Cons c cs)
  obtain t1 where t1: "brights_tty_read_char t = Some (t1, None)" "editing t1 (edit l c) (cs @ rest)"
    using read_edits [of t l c "cs @ rest"] Cons.prems by auto
  from Cons.IH [OF t1(2)] Cons.prems(2,3) t1(1) show ?case by auto
qed simp

lemma reads_hand_out:
  assumes "between t xs rest"
  shows "\<exists>t'. tty_reads (length xs) t = Some (t', map Some xs) \<and> editing t' [] rest"
  using assms
proof (induction xs arbitrary: t)
  case (Cons x xs)
  then obtain t1 where t1: "brights_tty_read_char t = Some (t1, Some x)" "between t1 xs rest"
    using read_handing_out [of t x xs rest] by (auto simp: between_def)
  from Cons.IH [OF t1(2)] t1(1) show ?case by auto
qed (simp add: between_def)

lemma reads_line:
  assumes "editing t [] (cs @ 10 # rest)" "10 \<notin> set cs" "13 \<notin> set cs"
  shows "\<exists>t'. tty_reads (length cs + Suc (length (foldl edit [] cs))) t =
      Some (t', replicate (length cs) None @ map Some (foldl edit [] cs @ [10])) \<and> editing t' [] rest"
proof -
  let ?l = "foldl edit [] cs"
  obtain t1 where t1: "tty_reads (length cs) t = Some (t1, replicate (length cs) None)" "editing t1 ?l (10 # rest)"
    using reads_edits [of t "[]" cs "10 # rest"] assms by auto
  obtain t2 where t2: "brights_tty_read_char t1 = Some (t2, Some (hd (?l @ [10])))" "between t2 (tl (?l @ [10])) rest"
    using read_finishes [OF t1(2)] by blast
  obtain t3 where t3: "tty_reads (length (tl (?l @ [10]))) t2 = Some (t3, map Some (tl (?l @ [10])))" "editing t3 [] rest"
    using reads_hand_out [OF t2(2)] by blast
  have "hd (?l @ [10]) # tl (?l @ [10]) = ?l @ [10]" by simp
  then have "tty_reads (Suc (length ?l)) t1 = Some (t3, map Some (?l @ [10]))"
    using t2(1) t3(1) by (simp add: list.map(2) [symmetric] del: list.map(2))
  then show ?thesis using t1(1) t3(2) by (subst tty_reads_add) (simp del: tty_reads.simps)
qed

text \<open>C13: a line typed on the keyboard arrives as the program that reads the terminal expects it: for up to 254
  keys of the layout (as many as the ring of characters holds besides the line end), among them backspace, tab
  and escape, followed by Enter, reading gives the line after all edits and its end, one character per call, through the
  scancodes, the modifier state, the ring of characters and the line editor.\<close>
theorem typed_line_is_edited_line:
  assumes t: "editing t [] []" "kbd_ok (tty_kbd t)" "at_rest (tty_kbd t)"
    and cs: "\<forall>c\<in>set cs. 32 \<le> c \<and> c \<le> 126 \<or> c \<in> {8, 9, 27}" "length cs \<le> 254"
  shows "\<exists>k t'. run_keys (typed (cs @ [10])) (tty_kbd t) = Some k
    \<and> tty_reads (length cs + Suc (length (foldl edit [] cs))) (t\<lparr>tty_kbd := k\<rparr>) =
        Some (t', replicate (length cs) None @ map Some (foldl edit [] cs @ [10])) \<and> editing t' [] []"
proof -
  have "kbd_pending (tty_kbd t) = []" using t(1) by (simp add: editing_def idle_def)
  moreover have "\<forall>c\<in>set (cs @ [10]). keystrokes c \<noteq> None" using cs(1) by (intro ballI keystrokes_ascii) auto
  ultimately obtain k where k: "run_keys (typed (cs @ [10])) (tty_kbd t) = Some k" "kbd_pending k = cs @ [10]" "kbd_ok k"
    using typed_pending [OF t(2,3), of "cs @ [10]"] cs(2) by auto
  have "editing (t\<lparr>tty_kbd := k\<rparr>) [] (cs @ 10 # [])"
    using t(1) k(2,3) by (simp add: editing_def idle_def kbd_ok_def line_ok_def tty_line_def)
  moreover have "10 \<notin> set cs" "13 \<notin> set cs" using cs(1) by (auto simp: word_le_nat_alt)
  ultimately show ?thesis using reads_line [of "t\<lparr>tty_kbd := k\<rparr>" cs "[]"] k(1) by blast
qed

definition blank_im :: "(int \<times> int) option \<Rightarrow> im" where
  "blank_im fb = \<lparr>im_active = False, pinyin_buf = replicate 16 0, pinyin_len = 0, candidates = replicate 10 [],
     candidate_count = 0, selected_candidate = 0, im_out = [], im_screen = [], im_fb = fb\<rparr>"

definition blank_kbd :: "(int \<times> int) option \<Rightarrow> ps2kbd" where
  "blank_kbd fb = \<lparr>kbd_buf = replicate 256 0, kbd_head = 0, kbd_tail = 0, ps2_shift = False, ps2_ctrl = False,
     ps2_alt = False, ps2_caps_lock = False, ps2_extended = False, ps2_extended2 = False, kbd_im = blank_im fb\<rparr>"

definition blank_tty :: tty where
  "blank_tty = \<lparr>tty_kbd = blank_kbd None, tty_ready = False, tty_mode = TTY_MODE_COOKED, line_buf = replicate 256 0,
     line_len = 0, line_ready = False, line_pos = 0, ser_in = []\<rparr>"

text \<open>The states of the keyboard from the start of the kernel on.\<close>

inductive kbd_reachable :: "ps2kbd \<Rightarrow> bool" where
  start: "kbd_reachable (brights_ps2kbd_init (blank_kbd fb))"
| interrupt: "kbd_reachable k \<Longrightarrow> brights_ps2kbd_irq_handler sc k = Some k' \<Longrightarrow> kbd_reachable k'"
| read: "kbd_reachable k \<Longrightarrow> brights_ps2kbd_read_char k = (k', c) \<Longrightarrow> kbd_reachable k'"

lemma blank_kbd_ok: "kbd_ok (blank_kbd fb)"
  by (simp add: kbd_ok_def kbd_ring_ok_def im_ok_def blank_kbd_def blank_im_def)

lemma kbd_reachable_ok: "kbd_reachable k \<Longrightarrow> kbd_ok k"
proof (induction rule: kbd_reachable.induct)
  case (start fb)
  then show ?case using blank_kbd_ok [of fb]
    by (simp add: brights_ps2kbd_init_def kbd_ok_def kbd_ring_ok_def blank_kbd_def blank_im_def im_ok_def)
next
  case (interrupt k sc k')
  then show ?case by (blast intro: irq_cases(2))
next
  case (read k k' c)
  then show ?case
    by (auto simp: brights_ps2kbd_read_char_def kbd_ok_def kbd_ring_ok_def KBD_BUF_SIZE_def split: if_splits)
qed

text \<open>C24: whatever arrives from the keyboard, the handler stays inside its ring and the arrays of the input
  method, and it stops the machine, by a division by zero, exactly on an arrow key while the input method is
  active and has no candidates.\<close>
theorem keyboard_faults_exactly_on_arrow_without_candidates:
  assumes "kbd_reachable k"
  shows "kbd_ok k \<and> (brights_ps2kbd_irq_handler sc k = None \<longleftrightarrow>
    ps2_extended k \<and> \<not> ps2_extended2 k \<and> sc \<in> arrow_codes \<and> im_active (kbd_im k) \<and> candidate_count (kbd_im k) = 0)"
  using kbd_reachable_ok [OF assms] irq_cases(1) [of k sc] by blast

text \<open>Two line ends at once: the last byte of the line buffer is taken by the first, and the second, from the
  serial line, is stored behind the buffer.\<close>
theorem simultaneous_line_ends_overrun:
  assumes "tty_mode t = TTY_MODE_COOKED" "\<not> line_ready t" "line_len t = 254" "length (line_buf t) = 256"
    and "kbd_ring_ok (tty_kbd t)" "kbd_pending (tty_kbd t) = 10 # rest" "ser_in t = 10 # later"
  shows "brights_tty_read_char t = None"
proof -
  let ?t = "brights_tty_init t"
  obtain k c where k: "brights_ps2kbd_read_char (tty_kbd ?t) = (k, c)" by fastforce
  have c: "c = Some 10" using kbd_read [OF _ k] assms(5,6) by (simp add: brights_tty_init_def)
  have "line_ok (?t\<lparr>tty_kbd := k\<rparr>)" using assms(3,4) by (simp add: line_ok_def brights_tty_init_def)
  from cooked_newline [OF this] obtain t2 where t2: "cooked_process_char 10 (?t\<lparr>tty_kbd := k\<rparr>) = Some t2" "line_len t2 = 255"
    "ser_in t2 = 10 # later"
    using assms(3,7) by (auto simp: same_rest_def brights_tty_init_def)
  have "take_ready ?t = (?t, None)" using assms(2) by (simp add: take_ready_def brights_tty_init_def)
  moreover have "cooked_process_char 10 (t2\<lparr>ser_in := later\<rparr>) = None" using t2(2) by (simp add: cooked_process_char_def TTY_LINE_BUF_def)
  ultimately show ?thesis
    using k c t2 assms(1) by (simp add: brights_tty_read_char_def feed_def brights_serial_read_byte_def Let_def brights_tty_init_def)
qed

subsection \<open>The candidates\<close>

definition shown :: "im \<Rightarrow> u8 list list" where
  "shown m = take (candidate_count m) (candidates m)"

definition row_entries :: "u8 list list \<Rightarrow> u8 list list" where
  "row_entries es = map (take 15) (takeWhile (\<lambda>e. e \<noteq> []) es)"

lemma shown_add:
  assumes "length (candidates m) = 10" "candidate_count m < 10"
  shows "shown (m\<lparr>candidates := (candidates m)[candidate_count m := e], candidate_count := Suc (candidate_count m)\<rparr>) =
    shown m @ [e]"
  using assms by (simp add: shown_def take_Suc_conv_app_nth)

lemma add_candidates_shown:
  assumes "length (candidates m) = 10" "candidate_count m \<le> 10"
  shows "shown (add_candidates es m) = shown m @ take (10 - candidate_count m) (row_entries es)
    \<and> length (candidates (add_candidates es m)) = 10
    \<and> candidate_count (add_candidates es m) = min 10 (candidate_count m + length (row_entries es))
    \<and> pinyin_buf (add_candidates es m) = pinyin_buf m \<and> pinyin_len (add_candidates es m) = pinyin_len m"
  using assms
proof (induction es m rule: add_candidates.induct)
  case (2 e es m)
  show ?case
  proof (cases "e = [] \<or> 10 \<le> candidate_count m")
    case True
    then show ?thesis using "2.prems" by (auto simp: IM_MAX_CANDIDATES_def row_entries_def)
  next
    case False
    then have "10 - candidate_count m = Suc (10 - Suc (candidate_count m))" by (auto simp: not_le)
    then show ?thesis
      using False "2.IH" "2.prems" shown_add [of m "take 15 e"]
      by (simp add: IM_MAX_CANDIDATES_def row_entries_def)
  qed
qed (simp add: row_entries_def)

lemma search_rows_shown:
  assumes "length (candidates m) = 10" "candidate_count m \<le> 10"
  shows "shown (search_rows rows m) = take 10 (shown m @ concat (map (\<lambda>(k, es). row_entries es) (filter (\<lambda>(k, es). row_matches k m) rows)))"
  using assms
proof (induction rows m rule: search_rows.induct)
  case (1 m)
  then show ?case by (simp add: shown_def)
next
  case (2 k es rows m)
  have len: "length (shown m) = candidate_count m" using "2.prems" by (simp add: shown_def)
  show ?case
  proof (cases "10 \<le> candidate_count m")
    case True
    then show ?thesis using "2.prems" len by (simp add: IM_MAX_CANDIDATES_def)
  next
    case False
    note A = add_candidates_shown [OF "2.prems", of es]
    have same: "row_matches k' (add_candidates es m) = row_matches k' m" for k' using A by (simp add: row_matches_def)
    show ?thesis
    proof (cases "row_matches k m")
      case True
      then show ?thesis
        using False "2.IH" A len by (simp add: IM_MAX_CANDIDATES_def same min_def)
    next
      case no: False
      then show ?thesis using False "2.IH" "2.prems" by (simp add: IM_MAX_CANDIDATES_def)
    qed
  qed
qed


lemma search_rows_len: "pinyin_len (search_rows rows m) = pinyin_len m"
proof -
  have "pinyin_len (add_candidates es m) = pinyin_len m" for es m by (induction es m rule: add_candidates.induct) auto
  then show ?thesis by (induction rows m rule: search_rows.induct) auto
qed

lemma add_common_shown:
  assumes "length (candidates m) = 10" "candidate_count m \<le> 10"
  shows "shown (add_common es m) = take 10 (shown m @ es)"
  using assms
proof (induction es m rule: add_common.induct)
  case (2 e es m)
  have len: "length (shown m) = candidate_count m" using "2.prems" by (simp add: shown_def)
  show ?case using 2 len shown_add [of m e] by (cases "10 \<le> candidate_count m") (simp_all add: IM_MAX_CANDIDATES_def)
qed (simp add: shown_def)

text \<open>What the search shows, on lists: the entries of all matching rows in the order of the table, ten at
  most; when no row matches and two letters have been typed, the ten most frequent characters.\<close>

definition matching :: "im \<Rightarrow> u8 list list" where
  "matching m = concat (map (\<lambda>(k, es). row_entries es) (filter (\<lambda>(k, es). row_matches k m) pinyin_map))"

text \<open>C38: the search of the input method shows exactly the candidates of its specification, as many as it counts, and
  leaves the arrays of the input method well formed.\<close>
theorem search_pinyin_shows:
  assumes "im_ok m"
  shows "shown (search_pinyin m) =
      (if pinyin_len m = 0 then []
       else if matching m = [] \<and> 2 \<le> pinyin_len m then take 10 common_chars
       else take 10 (matching m))
    \<and> im_ok (search_pinyin m) \<and> length (shown (search_pinyin m)) = candidate_count (search_pinyin m)"
proof -
  let ?m = "m\<lparr>candidate_count := 0, selected_candidate := 0\<rparr>" and ?s = "search_rows pinyin_map (m\<lparr>candidate_count := 0, selected_candidate := 0\<rparr>)"
  have l: "length (candidates ?m) = 10" "candidate_count ?m \<le> 10" using assms by (simp_all add: im_ok_def)
  have "im_filling ?m" using assms by (auto simp: im_ok_def im_filling_def)
  from im_filling_search_rows [OF this, of pinyin_map]
  have f: "length (candidates ?s) = 10" "candidate_count ?s \<le> 10" by (auto simp: im_filling_def)
  have r: "shown ?s = take 10 (matching m)"
    using search_rows_shown [OF l, of pinyin_map] by (simp add: matching_def shown_def row_matches_def)
  have c: "candidate_count ?s = length (take 10 (matching m))" using f r by (simp add: shown_def flip: r)
  have e: "candidate_count ?s = 0 \<longleftrightarrow> matching m = []" unfolding c by (cases "matching m") simp_all
  have ok: "im_ok (search_pinyin m)" using assms by (rule im_ok_search)
  then have n: "length (shown (search_pinyin m)) = candidate_count (search_pinyin m)" by (simp add: im_ok_def shown_def)
  have "shown (add_common (take 50 common_chars) ?s) = take 10 (shown ?s @ take 50 common_chars)"
    using f by (rule add_common_shown)
  then have "matching m = [] \<Longrightarrow> shown (add_common (take 50 common_chars) ?s) = take 10 common_chars"
    using r by simp
  then show ?thesis using ok n r e search_rows_len [of pinyin_map ?m]
    by (auto simp: search_pinyin_def Let_def shown_def [of ?m])
qed

text \<open>Witness: "de" has been typed.\<close>
definition im_demo :: im where
  "im_demo = (blank_im None)\<lparr>im_active := True, pinyin_buf := (replicate 16 0)[0 := 100, 1 := 101], pinyin_len := 2\<rparr>"

theorem search_pinyin_shows_witness: "shown (search_pinyin im_demo) = take 10 (matching im_demo) \<and> matching im_demo \<noteq> []"
proof -
  have "im_ok im_demo" by (simp add: im_ok_def im_demo_def blank_im_def)
  moreover have n: "matching im_demo \<noteq> []" unfolding matching_def pinyin_map_def im_demo_def by code_simp
  ultimately show ?thesis using search_pinyin_shows [of im_demo] by (simp add: im_demo_def)
qed

text \<open>Witness: on a fresh terminal, "hx", backspace, "i" and Enter are read as "hi" and the end of line.\<close>
theorem typed_line_is_edited_line_witness:
  "\<exists>k t'. run_keys (typed [104, 120, 8, 105, 10]) (tty_kbd blank_tty) = Some k
    \<and> tty_reads 7 (blank_tty\<lparr>tty_kbd := k\<rparr>) =
        Some (t', [None, None, None, None, Some 104, Some 105, Some 10]) \<and> editing t' [] []"
proof -
  have e: "foldl edit [] [104, 120, 8, 105] = [104, 105]" by (simp add: edit_def)
  have b: "editing blank_tty [] []" "at_rest (tty_kbd blank_tty)"
    by (simp_all add: editing_def idle_def line_ok_def tty_line_def at_rest_def blank_tty_def blank_kbd_def blank_im_def
        kbd_pending_def kbd_count_def ring_bytes_def kbd_ring_ok_def)
  have "kbd_ok (tty_kbd blank_tty)" using blank_kbd_ok by (simp add: blank_tty_def)
  then have "\<exists>k t'. run_keys (typed ([104, 120, 8, 105] @ [10])) (tty_kbd blank_tty) = Some k
    \<and> tty_reads (length [104 :: u8, 120, 8, 105] + Suc (length [104 :: u8, 105])) (blank_tty\<lparr>tty_kbd := k\<rparr>) =
        Some (t', replicate (length [104 :: u8, 120, 8, 105]) None @ map Some ([104, 105] @ [10])) \<and> editing t' [] []"
    using typed_line_is_edited_line [OF b(1) _ b(2), of "[104, 120, 8, 105]", unfolded e] by simp
  moreover have "length [104 :: u8, 120, 8, 105] + Suc (length [104 :: u8, 105]) = 7"
    "replicate (length [104 :: u8, 120, 8, 105]) None @ map Some ([104, 105] @ [10]) =
       [None, None, None, None, Some 104, Some 105, Some (10 :: u8)]"
    by (simp_all add: numeral_eq_Suc)
  ultimately show ?thesis by (metis append_Cons append_Nil)
qed

text \<open>Witness: after a start without a screen, shift and space switch the input method on, and the prefix of
  the arrows has arrived: the key up faults, the key Insert does not.\<close>
definition kbd_demo :: ps2kbd where
  "kbd_demo = the (run_keys [0x2A, 0x39, 0xAA, 0xE0] (brights_ps2kbd_init (blank_kbd None)))"

lemma run_keys_reachable: "kbd_reachable k \<Longrightarrow> run_keys scs k = Some k' \<Longrightarrow> kbd_reachable k'"
  by (induction scs arbitrary: k) (auto split: option.splits intro: kbd_reachable.interrupt)

theorem keyboard_faults_exactly_on_arrow_without_candidates_witness:
  "brights_ps2kbd_irq_handler 0x48 kbd_demo = None \<and> brights_ps2kbd_irq_handler 0x52 kbd_demo \<noteq> None"
proof -
  have "\<not> Option.is_none (run_keys [0x2A, 0x39, 0xAA, 0xE0] (brights_ps2kbd_init (blank_kbd None)))" by code_simp
  then have "run_keys [0x2A, 0x39, 0xAA, 0xE0] (brights_ps2kbd_init (blank_kbd None)) = Some kbd_demo"
    unfolding kbd_demo_def by (simp add: Option.is_none_def del: run_keys.simps)
  with kbd_reachable.start have r: "kbd_reachable kbd_demo" by (rule run_keys_reachable)
  have d: "ps2_extended kbd_demo \<and> \<not> ps2_extended2 kbd_demo \<and> im_active (kbd_im kbd_demo) \<and> candidate_count (kbd_im kbd_demo) = 0"
    unfolding kbd_demo_def by code_simp
  show ?thesis
    using keyboard_faults_exactly_on_arrow_without_candidates [OF r, of "0x48"]
      keyboard_faults_exactly_on_arrow_without_candidates [OF r, of "0x52"] d by (simp add: arrow_codes_def)
qed

end
