(* ===== verification/Spec2Isabelle.thy ===== *)
theory Spec2Isabelle
  imports Kernel_Prelude Pmem Kmem Kutil Signal Syshook Paths Ramfs Pipe Vfs Paging Elf Proc Sched Kmalloc Kheap Cache Packet Net Netlaws Netprops Hwinfo Clock Blockdev Btrfs Btrfsprops Bootfs Sysent Sysprops Imdata Input Tty Inputprops
begin

text \<open>
  Verification of the core of the BrightS kernel: the x86-64 kernel under \<open>src/kernel\<close> and
  \<open>src/arch/x86_64\<close>.

  \<^bold>\<open>The program and the theories.\<close>  BrightS is a small monolithic kernel.  A boot loader hands it a
  memory map; the page allocator takes the map over, the paging code builds address spaces from
  its pages, the process table owns one address space and one descriptor table per process, the
  scheduler rotates among the processes, and the system calls of a process reach the virtual file
  system, the RAM file system, pipes, signals, system-call hooks and the network.  One theory models one part;
  the order below is the order of dependency.

  \<^item> \<open>Kernel_Prelude\<close>: word types, the tables shared by all components (\<open>upd_at\<close>, first free
    slot), and the generic facts about words and bits.
  \<^item> \<open>Pmem\<close> (\<open>kernel/pmem.c\<close>): the bitmap of physical pages.  The state record has the
    variables of the source; \<open>free_set\<close> is its abstraction.  Allocation is lowest-first,
    contiguous allocation is first fit and complete, release inverts allocation, initialisation
    from any memory map leaves an allocator that hands out no page outside it.
  \<^item> \<open>Kmem\<close> (\<open>kernel/runtime.c\<close>, \<open>kernel/kernel_util.h\<close>): the block primitives on a byte store.
    The locale \<open>block_copy\<close> is what a caller of \<open>memcpy\<close> relies on; \<open>kutil_memcpy\<close> and
    \<open>kutil_memmove\<close> meet it, the runtime \<open>memcpy\<close> meets it only where its set of skipped bytes
    is empty, and \<open>memcpy_drops_byte\<close> gives the lengths for which it is not.
  \<^item> \<open>Kutil\<close> (\<open>kernel/kernel_util.h\<close>): strings, numbers, dotted addresses, tokens, ring buffer;
    round trips between printing and parsing, the ring buffer as a bounded queue (locale
    \<open>byte_queue\<close>).
  \<^item> \<open>Signal\<close> (\<open>kernel/signal.c\<close>) and \<open>Syshook\<close> (\<open>kernel/syshook.c\<close>): pending sets, handlers
    and the table of hooks with its event rings; protection of the two unblockable signals, exact
    delivery of events to the hooks that watch a call, order of delivery, clean-up.
  \<^item> \<open>Paths\<close>: the two path normalisers (\<open>kernel/fs/vfs2.c\<close> and \<open>kernel/fs/ramfs.c\<close>) against one
    definition by path components (locale \<open>path_normalizer\<close>, interpreted for both).
  \<^item> \<open>Ramfs\<close> (\<open>kernel/fs/ramfs.c\<close>): the file table, as a list of the source's records; the tree
    invariant over every sequence of operations, write-then-read, create-then-unlink.
  \<^item> \<open>Pipe\<close> (\<open>kernel/pipe.c\<close>, \<open>kernel/pipe_vfs.c\<close>): both pipe implementations as one locale
    \<open>byte_stream\<close>; what is read is what was written, in order.
  \<^item> \<open>Vfs\<close> (\<open>kernel/fs/vfs2.c\<close>, \<open>kernel/fs/ramfs_vfs.c\<close>): mounts, path cache, file pool and
    the operations of the RAM file system behind them.  The path relative to a mount that the code hands out in a
    local array is what the state says is left there (\<open>dead_frame\<close>).
  \<^item> \<open>Paging\<close> (\<open>arch/x86_64/paging.c\<close>, \<open>kernel/vm.c\<close>): four-level tables in a word-addressed
    store, with pages from \<open>Pmem\<close>.  The predicate \<open>pt_inv\<close> is the tree of tables without
    sharing; mapping and unmapping change the translation of exactly one page.
  \<^item> \<open>Elf\<close> (\<open>kernel/elf.c\<close>): the program loader over \<open>Paging\<close>; a byte outside the image is read
    only when an offset of the header overflows.
  \<^item> \<open>Proc\<close> (\<open>kernel/proc.c\<close>): the process table, with the components a process owns inside its
    state, so that exit closes files, removes hooks and frees the address space.
  \<^item> \<open>Sched\<close> (\<open>kernel/sched.c\<close>): slots, runnable bitmap, context switch; under regular ticks every
    runnable process is dispatched within a bounded number of ticks.
  \<^item> \<open>Kmalloc\<close> and \<open>Kheap\<close> (\<open>kernel/kmalloc.c\<close>): the slab and block heap on a store of words with pages
    from \<open>Pmem\<close>.  The walks of free lists are \<open>partial_function (option)\<close>, with \<open>None\<close> for a walk that
    does not end, and are shown to return.  The locale \<open>block_allocator\<close> is what a client of small
    requests relies on, interpreted on the heap itself; blocks in use never overlap over any
    sequence of requests, best fit is best, a release merges back.  Two theorems give the inputs
    on which pages are lost and on which the size computation wraps.
  \<^item> \<open>Cache\<close> (\<open>kernel/cache.c\<close>): the object cache over an explicit store of entries with the heap below
    it; insertion, lookup and eviction, and the defects that come from one pointer field serving
    both the bucket chain and the list of use.
  \<^item> \<open>Packet\<close>, \<open>Net\<close>, \<open>Netlaws\<close> and \<open>Netprops\<close> (\<open>kernel/net/net.c\<close>): headers with their memory images and the
    Internet checksum against RFC 1071; drivers, interfaces, ARP, IP, ICMP, UDP, TCP and sockets as
    operations on one state; their invariant over every sequence of calls and received frames;
    properties of two hosts that exchange frames.  Sockets meet the contract \<open>byte_stream\<close> of \<open>Pipe\<close>.
  \<^item> \<open>Hwinfo\<close> and \<open>Clock\<close> (\<open>kernel/hwinfo.c\<close>, \<open>kernel/clock.c\<close>, \<open>arch/x86_64/hpet.c\<close>, \<open>kernel/sleep.c\<close>):
    identification of the processor, calibration, the nanosecond clock and delays.  What the
    hardware answers (\<open>cpuid\<close>, successive counter readings) is part of the state; how far the clock is
    from the time its count stands for by the timer of the calibration, and that a delay ends and is long enough.
  \<^item> \<open>Blockdev\<close>, \<open>Btrfs\<close> and \<open>Btrfsprops\<close> (\<open>drivers/block.c\<close>, \<open>drivers/ramdisk.c\<close>, \<open>kernel/storage.c\<close>,
    \<open>kernel/fs/btrfs.c\<close>): block devices with the RAM disk, and the on-disk file system above them.  The
    inductive predicate \<open>tree_holds\<close> says which directory entries a tree of nodes holds; the lookup
    by name refines the lookup in that list.  The walks recurse along pointers from the disk, so they
    take the number of nested calls as an argument; the number of levels is enough.
  \<^item> \<open>Bootfs\<close> (\<open>kernel/fs/vfs.c\<close>): the start-up contents of the RAM file system, with all paths and texts, and
    the mount of the system disk; which of the entries fit.
  \<^item> \<open>Sysent\<close> and \<open>Sysprops\<close> (\<open>kernel/sysent.c\<close>, \<open>kernel/syscall.c\<close>, \<open>arch/x86_64/syscall_abi.c\<close>): the 67 system-call handlers
    over one state \<open>ksys\<close> that composes the components above, the table, and the dispatcher with its hook
    notifications.  A call that faults or never comes back is \<open>None\<close>.  The locale \<open>process_view\<close> collects, for
    any part of the process state that the tables, files and memory do not belong to, that no handler
    changes it; it is interpreted for the current process and for the hooks.  Files at descriptors above 2 round-trip through the
    dispatcher, \<open>wait\<close> is decided exactly, and the process that calls work for never follows the scheduler.
  \<^item> \<open>Imdata\<close>, \<open>Input\<close>, \<open>Tty\<close> and \<open>Inputprops\<close> (\<open>drivers/im.c\<close>, \<open>drivers/ps2kbd.c\<close>, \<open>drivers/tty.c\<close>): scancodes, the ring of
    characters, the Pinyin input method with its tables, and the line editor of the terminal.  Up to 254 keys of the
    layout are read as the edited line; the arrays are never left, and the one fault of the handler is
    characterised; the candidates are those of a specification on lists.
  \<^bold>\<open>Conventions.\<close>  A C integer of width \<open>w\<close> is a \<open>w word\<close> wherever the code can overflow it, and
  a \<open>nat\<close> or \<open>int\<close> where the code bounds it (indices of tables, error codes).  A null pointer is
  \<open>None\<close>, or the address 0 where the source tests an address.  An operation takes the state and
  returns the new state with the C return value.  An access outside an object, which the source
  does not guard against, is the result \<open>None\<close>; theorems then say when it cannot happen or
  exhibit the input for which it does.  A busy-wait takes the sequence of states it observes as
  an argument and its bound from the source.  Loops over tables are folds or structural
  recursion over the index list; where a loop of the source runs on a word, the model recurses on
  the number of iterations the source's condition allows, and the bound is part of the
  definition.

  \<^bold>\<open>Code outside the model.\<close>  Instructions with no memory effect that the C code can observe
  (TLB invalidation, interrupt masking, port output to the serial console) appear as updates of a
  log, or not at all where nothing reads them back.  Concurrency is that of one processor:
  spinlocks are not modelled.

  \<^bold>\<open>Not modelled.\<close>  Other device drivers, graphics, descriptor tables and interrupt controllers are
  register accesses; the shell and the user programs are formatting around the operations above;
  \<open>sys/kernel\<close> is an earlier copy of the same sources.  The DHCP, DNS and HTTP clients return fixed
  answers, and the network card drivers do not reach hardware yet; only their initialisers appear.
  The drivers of real disks appear as what their functions return.
\<close>

end
